(* ===== verification/Prelude.thy ===== *)
theory Prelude
  imports Main "HOL-Library.Word" "HOL-Library.Multiset"
begin

text \<open>
  The vocabulary every component of the server's model shares: the machine integers of the
  C++ code, the little-endian byte layout that \<open>std::memcpy\<close> of an integer gives on the
  server's platform, C++'s truncating division, and the generic facts on words, lists and
  sums the component theories use.
\<close>

section \<open>Machine integers\<close>

unbundle bit_operations_syntax

type_synonym u8 = "8 word"
type_synonym u16 = "16 word"
type_synonym u32 = "32 word"
type_synonym u64 = "64 word"

text \<open>Memory is a map from addresses (offsets into one buffer) to bytes.\<close>

type_synonym mem = "nat \<Rightarrow> u8"

named_theorems frame_simps \<open>what an operation leaves unchanged\<close>
named_theorems bound_simps \<open>bounds on machine-integer fields\<close>

text \<open>C++ division and remainder on signed integers round towards zero.\<close>

definition cdiv :: "int \<Rightarrow> int \<Rightarrow> int" where
  "cdiv a b = sgn a * sgn b * (\<bar>a\<bar> div \<bar>b\<bar>)"

lemma cdiv_nonneg [simp]: "0 \<le> a \<Longrightarrow> 0 < b \<Longrightarrow> cdiv a b = a div b"
  by (cases "a = 0") (auto simp: cdiv_def)

text \<open>Conversion of an \<open>int\<close> value to \<open>int32_t\<close> (two's complement).\<close>

definition s32 :: "int \<Rightarrow> int" where
  "s32 x = sint (word_of_int x :: u32)"

lemma s32_bounds [bound_simps]: "- (2 ^ 31) \<le> s32 x \<and> s32 x < 2 ^ 31"
proof -
  have "- (2 ^ (LENGTH(32) - 1)) \<le> sint (word_of_int x :: u32)"
    and "sint (word_of_int x :: u32) < 2 ^ (LENGTH(32) - 1)"
    by (rule sint_ge, rule sint_lt)
  then show ?thesis by (simp add: s32_def)
qed

lemma s32_id: "- (2 ^ 31) \<le> x \<Longrightarrow> x < 2 ^ 31 \<Longrightarrow> s32 x = x"
  unfolding s32_def by (subst sint_sbintrunc') (simp add: signed_take_bit_int_eq_self)

section \<open>Little-endian byte layout\<close>

lemma u8_bit_less: "bit (b :: u8) k \<Longrightarrow> k < 8"
  using bit_imp_le_length [of b k] by simp

primrec le_bytes :: "nat \<Rightarrow> 'a::len word \<Rightarrow> u8 list" where
  "le_bytes 0 w = []"
| "le_bytes (Suc n) w = ucast w # le_bytes n (drop_bit 8 w)"

primrec of_le :: "u8 list \<Rightarrow> 'a::len word" where
  "of_le [] = 0"
| "of_le (b # bs) = ucast b OR push_bit 8 (of_le bs)"

lemma le_bytes_numeral:
  "le_bytes (numeral k) w = ucast w # le_bytes (pred_numeral k) (drop_bit 8 w)"
  by (simp add: numeral_eq_Suc)

lemma length_le_bytes [simp]: "length (le_bytes n w) = n"
  by (induction n arbitrary: w) auto

lemma of_le_le_bytes_take: "of_le (le_bytes n w) = take_bit (8 * n) (w :: 'a::len word)"
proof (induction n arbitrary: w)
  case 0
  then show ?case by simp
next
  case (Suc n)
  have "ucast (ucast w :: u8) OR push_bit 8 (take_bit (8 * n) (drop_bit 8 w)) = take_bit (8 * Suc n) w"
    by (rule bit_word_eqI) (auto simp: bit_simps not_less)
  then show ?case by (simp add: Suc)
qed

lemma of_le_le_bytes:
  fixes w :: "'a::len word"
  shows "LENGTH('a) \<le> 8 * n \<Longrightarrow> of_le (le_bytes n w) = w"
  by (simp add: of_le_le_bytes_take take_bit_word_eq_self)

lemma of_le_small: "8 * length bs \<le> n \<Longrightarrow> take_bit n (of_le bs :: 'a::len word) = of_le bs"
proof (induction bs arbitrary: n)
  case Nil
  then show ?case by simp
next
  case (Cons b bs)
  have IH: "take_bit (n - 8) (of_le bs :: 'a word) = of_le bs"
    using Cons by simp
  have lt: "bit (of_le bs :: 'a word) k \<Longrightarrow> k + 8 < n" for k
    using IH Cons.prems by (metis bit_take_bit_iff less_diff_conv)
  have "8 \<le> n" using Cons.prems by simp
  then show ?case
    by (intro bit_word_eqI) (auto simp: bit_simps dest: u8_bit_less lt)
qed

lemma le_bytes_of_le:
  "8 * length bs \<le> LENGTH('a) \<Longrightarrow> le_bytes (length bs) (of_le bs :: 'a::len word) = bs"
proof (induction bs)
  case Nil
  then show ?case by simp
next
  case (Cons b bs)
  have lo: "(ucast (ucast b OR push_bit 8 (of_le bs) :: 'a word) :: u8) = b"
    using Cons.prems by (intro bit_word_eqI) (auto simp: bit_simps)
  have hi: "le_bytes (length bs) (drop_bit 8 (ucast b OR push_bit 8 (of_le bs)) :: 'a word) = bs"
  proof -
    have "drop_bit 8 (ucast b OR push_bit 8 (of_le bs) :: 'a word) = take_bit (LENGTH('a) - 8) (of_le bs)"
      using Cons.prems by (intro bit_word_eqI) (auto simp: bit_simps dest: u8_bit_less)
    moreover have "take_bit (LENGTH('a) - 8) (of_le bs :: 'a word) = of_le bs"
      by (rule of_le_small) (use Cons.prems in simp)
    ultimately show ?thesis using Cons by simp
  qed
  show ?case using lo hi by simp
qed


section \<open>Vectors\<close>

text \<open>
  The idiom for removing an element of a vector whose order does not matter: overwrite the
  first occurrence with the last element and pop the back.
\<close>

fun index_of :: "'a \<Rightarrow> 'a list \<Rightarrow> nat option" where
  "index_of x [] = None"
| "index_of x (y # ys) = (if x = y then Some 0 else map_option Suc (index_of x ys))"

definition swap_remove :: "'a \<Rightarrow> 'a list \<Rightarrow> 'a list" where
  "swap_remove x xs = (case index_of x xs of None \<Rightarrow> xs | Some i \<Rightarrow> butlast (xs[i := last xs]))"

lemma index_of_None [simp]: "index_of x xs = None \<longleftrightarrow> x \<notin> set xs"
  by (induction xs) auto

lemma index_of_Some: "index_of x xs = Some i \<Longrightarrow> i < length xs \<and> xs ! i = x"
  by (induction xs arbitrary: i) (auto split: if_splits)

lemma mset_butlast: "xs \<noteq> [] \<Longrightarrow> mset (butlast xs) = mset xs - {#last xs#}"
  by (metis append_butlast_last_id add_diff_cancel_right' mset.simps(1,2) mset_append)

lemma mset_swap_remove: "mset (swap_remove x xs) = mset xs - {#x#}"
proof (cases "index_of x xs")
  case None
  then have "x \<notin> set xs" by simp
  with None show ?thesis by (simp only: swap_remove_def option.case) simp
next
  case (Some i)
  then have i: "i < length xs" "xs ! i = x" by (auto dest: index_of_Some)
  then have ne: "xs \<noteq> []" by auto
  have "last (xs[i := last xs]) = last xs"
    using ne by (simp add: last_list_update)
  then have "mset (butlast (xs[i := last xs])) = mset (xs[i := last xs]) - {#last xs#}"
    using ne by (simp add: mset_butlast)
  also have "\<dots> = mset xs - {#x#}"
    using i by (simp add: mset_update)
  finally show ?thesis using Some by (simp add: swap_remove_def)
qed

lemma mset_swap_remove1: "mset (swap_remove x xs) = mset (remove1 x xs)"
  by (simp add: mset_swap_remove)

lemma set_swap_remove: "distinct xs \<Longrightarrow> set (swap_remove x xs) = set xs - {x}"
  using mset_swap_remove1 [of x xs] by (metis mset_eq_setD set_remove1_eq)

lemma distinct_swap_remove: "distinct xs \<Longrightarrow> distinct (swap_remove x xs)"
  using mset_swap_remove1 [of x xs] by (metis distinct_remove1 mset_eq_imp_distinct_iff)

section \<open>Concatenations\<close>

lemma distinct_concat_map:
  assumes "distinct xs" "\<And>x. x \<in> set xs \<Longrightarrow> distinct (f x)"
    and "\<And>x y. x \<in> set xs \<Longrightarrow> y \<in> set xs \<Longrightarrow> x \<noteq> y \<Longrightarrow> set (f x) \<inter> set (f y) = {}"
  shows "distinct (concat (map f xs))"
  using assms
proof (induction xs)
  case Nil
  then show ?case by simp
next
  case (Cons x xs)
  have "set (f x) \<inter> set (f y) = {}" if "y \<in> set xs" for y
    using that Cons.prems(1) by (intro Cons.prems(3)) auto
  moreover have "distinct (concat (map f xs))" using Cons by (intro Cons.IH) auto
  ultimately show ?case using Cons.prems(2) [of x] by auto
qed

section \<open>Signed and unsigned readings\<close>

lemma sint_neg_u64: "sint (w :: u64) < 0 \<longleftrightarrow> 2 ^ 63 \<le> uint w"
proof -
  have "sint w = (uint w + 2 ^ 63) mod 2 ^ 64 - 2 ^ 63"
    by (simp add: sint_uint signed_take_bit_eq_take_bit_shift take_bit_eq_mod)
  moreover have "0 \<le> uint w" "uint w < 2 ^ 64"
    using uint_ge_0 [of w] uint_lt2p [of w] by simp_all
  ultimately show ?thesis
    by (cases "uint w < 2 ^ 63") (auto simp: mod_pos_pos_trivial mod_pos_geq)
qed

lemma sint_neg_u32: "sint (w :: u32) < 0 \<longleftrightarrow> 2 ^ 31 \<le> uint w"
proof -
  have "sint w = (uint w + 2 ^ 31) mod 2 ^ 32 - 2 ^ 31"
    by (simp add: sint_uint signed_take_bit_eq_take_bit_shift take_bit_eq_mod)
  moreover have "0 \<le> uint w" "uint w < 2 ^ 32"
    using uint_ge_0 [of w] uint_lt2p [of w] by simp_all
  ultimately show ?thesis
    by (cases "uint w < 2 ^ 31") (auto simp: mod_pos_pos_trivial mod_pos_geq)
qed

lemma unat_u8_bound: "unat (k :: u8) < 256"
  by (rule order_less_le_trans [OF unsigned_less]) simp

lemma unat_ucast_u8 [simp]: "unat (ucast (k :: u8) :: u32) = unat k"
  using unat_u8_bound [of k] by (simp add: unsigned_ucast_eq take_bit_nat_eq_self)

lemma uint_ucast_u8: "uint (ucast (k :: u8) :: u32) = uint k"
  using unat_ucast_u8 [of k] by (metis uint_nat)

end
