(* ===== verification/Positions.thy ===== *)
theory Positions
  imports Prelude
begin

text \<open>
  \<open>src/src/position.h\<close>: map coordinates, their offsets and distances, and the order that
  makes \<open>Position\<close> a key of \<open>std::map\<close>.  Coordinates keep their widths; offsets and
  distances are the signed results of C++'s integer promotion, which no coordinate can
  overflow, so they are \<open>int\<close>.
\<close>

section \<open>Coordinates and directions\<close>

datatype position = Position (pos_x: u16) (pos_y: u16) (pos_z: u8)

datatype direction =
    DIRECTION_NORTH | DIRECTION_EAST | DIRECTION_SOUTH | DIRECTION_WEST
  | DIRECTION_SOUTHWEST | DIRECTION_SOUTHEAST | DIRECTION_NORTHWEST | DIRECTION_NORTHEAST
  | DIRECTION_NONE

definition getX :: "position \<Rightarrow> int" where
  "getX p = uint (pos_x p)"

definition getY :: "position \<Rightarrow> int" where
  "getY p = uint (pos_y p)"

definition getZ :: "position \<Rightarrow> int" where
  "getZ p = uint (pos_z p)"

definition getOffsetX :: "position \<Rightarrow> position \<Rightarrow> int" where
  "getOffsetX p1 p2 = getX p1 - getX p2"

definition getOffsetY :: "position \<Rightarrow> position \<Rightarrow> int" where
  "getOffsetY p1 p2 = getY p1 - getY p2"

definition getOffsetZ :: "position \<Rightarrow> position \<Rightarrow> int" where
  "getOffsetZ p1 p2 = getZ p1 - getZ p2"

definition getDistanceX :: "position \<Rightarrow> position \<Rightarrow> int" where
  "getDistanceX p1 p2 = \<bar>getOffsetX p1 p2\<bar>"

definition getDistanceY :: "position \<Rightarrow> position \<Rightarrow> int" where
  "getDistanceY p1 p2 = \<bar>getOffsetY p1 p2\<bar>"

definition getDistanceZ :: "position \<Rightarrow> position \<Rightarrow> int" where
  "getDistanceZ p1 p2 = \<bar>getOffsetZ p1 p2\<bar>"

text \<open>\<open>areInRange\<close> with two and with three bounds.\<close>

definition areInRange :: "int \<Rightarrow> int \<Rightarrow> position \<Rightarrow> position \<Rightarrow> bool" where
  "areInRange deltax deltay p1 p2 \<longleftrightarrow> getDistanceX p1 p2 \<le> deltax \<and> getDistanceY p1 p2 \<le> deltay"

definition areInRange3 :: "int \<Rightarrow> int \<Rightarrow> int \<Rightarrow> position \<Rightarrow> position \<Rightarrow> bool" where
  "areInRange3 deltax deltay deltaz p1 p2 \<longleftrightarrow>
     getDistanceX p1 p2 \<le> deltax \<and> getDistanceY p1 p2 \<le> deltay \<and> getDistanceZ p1 p2 \<le> deltaz"

named_theorems position_defs \<open>offsets and distances of positions\<close>

lemmas offset_defs [position_defs] =
  getX_def getY_def getZ_def getOffsetX_def getOffsetY_def getOffsetZ_def
  getDistanceX_def getDistanceY_def getDistanceZ_def areInRange_def areInRange3_def

lemma coordinate_bounds [bound_simps]:
  "0 \<le> getX p" "getX p < 2 ^ 16" "0 \<le> getY p" "getY p < 2 ^ 16" "0 \<le> getZ p" "getZ p < 2 ^ 8"
  using uint_lt2p [of "pos_x p"] uint_lt2p [of "pos_y p"] uint_lt2p [of "pos_z p"]
  by (simp_all add: getX_def getY_def getZ_def)

lemma areInRange_sym: "areInRange dx dy p q = areInRange dx dy q p"
  by (auto simp: position_defs)

lemma areInRange3_sym: "areInRange3 dx dy dz p q = areInRange3 dx dy dz q p"
  by (auto simp: position_defs)

lemma distance_zero_iff:
  "getDistanceX p q = 0 \<and> getDistanceY p q = 0 \<and> getDistanceZ p q = 0 \<longleftrightarrow> p = q"
  by (cases p; cases q) (auto simp: position_defs word_uint_eq_iff)

section \<open>Operators\<close>

definition pos_less :: "position \<Rightarrow> position \<Rightarrow> bool" where
  "pos_less a p =
     (if pos_z a < pos_z p then True
      else if pos_z a > pos_z p then False
      else if pos_y a < pos_y p then True
      else if pos_y a > pos_y p then False
      else if pos_x a < pos_x p then True
      else if pos_x a > pos_x p then False
      else False)"

definition pos_greater :: "position \<Rightarrow> position \<Rightarrow> bool" where
  "pos_greater a p \<longleftrightarrow> \<not> pos_less a p"

definition pos_add :: "position \<Rightarrow> position \<Rightarrow> position" where
  "pos_add a p = Position (pos_x a + pos_x p) (pos_y a + pos_y p) (pos_z a + pos_z p)"

definition pos_sub :: "position \<Rightarrow> position \<Rightarrow> position" where
  "pos_sub a p = Position (pos_x a - pos_x p) (pos_y a - pos_y p) (pos_z a - pos_z p)"

text \<open>The order as a lexicographic comparison of the floor, the row and the column.\<close>

lemma pos_less_lex:
  "pos_less a p \<longleftrightarrow> pos_z a < pos_z p \<or>
     pos_z a = pos_z p \<and> (pos_y a < pos_y p \<or> pos_y a = pos_y p \<and> pos_x a < pos_x p)"
  by (auto simp: pos_less_def)

text \<open>\<open>operator<\<close> makes positions a linear order, as a key of \<open>std::map\<close> has to be.\<close>

instantiation position :: linorder
begin

definition less_position :: "position \<Rightarrow> position \<Rightarrow> bool" where
  "less_position a p = pos_less a p"

definition less_eq_position :: "position \<Rightarrow> position \<Rightarrow> bool" where
  "less_eq_position a p \<longleftrightarrow> \<not> pos_less p a"

instance
proof
  fix a b c :: position
  show "a < b \<longleftrightarrow> a \<le> b \<and> \<not> b \<le> a"
    by (auto simp: less_position_def less_eq_position_def pos_less_lex)
  show "a \<le> a"
    by (simp add: less_eq_position_def pos_less_lex)
  show "a \<le> b \<Longrightarrow> b \<le> c \<Longrightarrow> a \<le> c"
    by (auto simp: less_eq_position_def pos_less_lex)
  show "a \<le> b \<Longrightarrow> b \<le> a \<Longrightarrow> a = b"
    by (cases a; cases b) (auto simp: less_eq_position_def pos_less_lex)
  show "a \<le> b \<or> b \<le> a"
    by (auto simp: less_eq_position_def pos_less_lex)
qed

end

text \<open>
  \<open>operator<\<close> is a strict total order on positions, \<open>operator>\<close> is not its converse
  but its complement (it holds of equal positions), and adding then subtracting an offset
  gives the position back although the coordinates wrap.
\<close>

theorem position_operators:
  "\<not> pos_less p p \<and> (pos_less p q \<or> p = q \<or> pos_less q p) \<and> (pos_less p q \<and> pos_less q r \<longrightarrow> pos_less p r) \<and>
   (pos_greater p q \<longleftrightarrow> pos_less q p \<or> p = q) \<and> pos_sub (pos_add p q) q = p"
proof (intro conjI)
  show "\<not> pos_less p p" by (simp add: pos_less_lex)
  show "pos_less p q \<or> p = q \<or> pos_less q p"
    using less_linear [of p q] by (simp add: less_position_def)
  show "pos_less p q \<and> pos_less q r \<longrightarrow> pos_less p r"
    using less_trans [of p q r] by (simp add: less_position_def)
  show "pos_greater p q \<longleftrightarrow> pos_less q p \<or> p = q"
    using not_less_iff_gr_or_eq [of p q] by (auto simp: pos_greater_def less_position_def)
  show "pos_sub (pos_add p q) q = p" by (simp add: pos_sub_def pos_add_def)
qed

theorem position_operators_witness:
  "pos_less (Position 1 2 7) (Position 9 1 8) \<and> pos_greater (Position 3 3 7) (Position 3 3 7) \<and>
   pos_sub (pos_add (Position 3 65535 7) (Position 1 1 250)) (Position 1 1 250) = Position 3 65535 7"
  using position_operators [of "Position 3 65535 7" "Position 1 1 250"]
    position_operators [of "Position 3 3 7" "Position 3 3 7"] by (simp add: pos_less_def)

end
