(* ===== verification/NetMessage.thy ===== *)
theory NetMessage
  imports Positions
begin

text \<open>
  \<open>src/src/networkmessage.h\<close> and \<open>networkmessage.cpp\<close>: the fixed buffer every packet is
  built in and read from.  The 65500-byte array is a memory; \<open>length\<close> and \<open>position\<close> are the
  16-bit fields of \<open>NetworkMessageInfo\<close>.  The readers return the value and the message, as
  the C++ methods return the value and advance the message; the writers return the message.
  \<open>memcpy\<close> of an integer is its little-endian layout.
\<close>

section \<open>The message\<close>

record netmsg =
  msg_length :: u16
  msg_position :: u16
  msg_overrun :: bool
  msg_buffer :: mem

definition NETWORKMESSAGE_MAXSIZE :: nat where
  "NETWORKMESSAGE_MAXSIZE = 65500"

definition INITIAL_BUFFER_POSITION :: u16 where
  "INITIAL_BUFFER_POSITION = 8"

definition MAX_BODY_LENGTH :: nat where
  "MAX_BODY_LENGTH = NETWORKMESSAGE_MAXSIZE - 2 - 4 - 8"

definition MAX_PROTOCOL_BODY_LENGTH :: nat where
  "MAX_PROTOCOL_BODY_LENGTH = MAX_BODY_LENGTH - 10"

lemmas msg_consts = NETWORKMESSAGE_MAXSIZE_def INITIAL_BUFFER_POSITION_def MAX_BODY_LENGTH_def
  MAX_PROTOCOL_BODY_LENGTH_def

definition msg_reset :: "'a netmsg_scheme \<Rightarrow> 'a netmsg_scheme" where
  "msg_reset m = m\<lparr>msg_length := 0, msg_position := INITIAL_BUFFER_POSITION, msg_overrun := False\<rparr>"

text \<open>The argument is a \<open>size_t\<close>, so the sum is exact.\<close>

definition canAdd :: "nat \<Rightarrow> 'a netmsg_scheme \<Rightarrow> bool" where
  "canAdd sz m \<longleftrightarrow> sz + unat (msg_position m) < MAX_BODY_LENGTH"

text \<open>\<open>canRead\<close> records a failed check in the message; it computes with \<open>int\<close>s.\<close>

definition canRead :: "int \<Rightarrow> 'a netmsg_scheme \<Rightarrow> bool \<times> 'a netmsg_scheme" where
  "canRead sz m =
     (if uint (msg_position m) + sz > uint (msg_length m) + 8
         \<or> sz \<ge> int NETWORKMESSAGE_MAXSIZE - uint (msg_position m)
      then (False, m\<lparr>msg_overrun := True\<rparr>)
      else (True, m))"

text \<open>The bytes of a range and the effect of \<open>memcpy\<close> into the buffer.\<close>

definition bytes_at :: "mem \<Rightarrow> nat \<Rightarrow> nat \<Rightarrow> u8 list" where
  "bytes_at b pos n = map (\<lambda>i. b (pos + i)) [0..<n]"

definition put_bytes :: "nat \<Rightarrow> u8 list \<Rightarrow> mem \<Rightarrow> mem" where
  "put_bytes pos bs b = (\<lambda>a. if pos \<le> a \<and> a < pos + length bs then bs ! (a - pos) else b a)"

definition sizeof :: "'a::len word itself \<Rightarrow> nat" where
  "sizeof t = LENGTH('a) div 8"

section \<open>Reading\<close>

definition getByte :: "'a netmsg_scheme \<Rightarrow> u8 \<times> 'a netmsg_scheme" where
  "getByte m =
     (case canRead 1 m of (ok, m) \<Rightarrow>
        if \<not> ok then (0, m)
        else (msg_buffer m (unat (msg_position m)), m\<lparr>msg_position := msg_position m + 1\<rparr>))"

definition getPreviousByte :: "'a netmsg_scheme \<Rightarrow> u8 \<times> 'a netmsg_scheme" where
  "getPreviousByte m =
     (let m = m\<lparr>msg_position := msg_position m - 1\<rparr>
      in (msg_buffer m (unat (msg_position m)), m))"

text \<open>The template \<open>get<T>\<close> for an unsigned integer type.\<close>

definition msg_get :: "'a netmsg_scheme \<Rightarrow> 'w::len word \<times> 'a netmsg_scheme" where
  "msg_get m =
     (let n = sizeof TYPE('w word)
      in case canRead (int n) m of (ok, m) \<Rightarrow>
        if \<not> ok then (0, m)
        else (of_le (bytes_at (msg_buffer m) (unat (msg_position m)) n),
              m\<lparr>msg_position := msg_position m + of_nat n\<rparr>))"

definition getString :: "u16 \<Rightarrow> 'a netmsg_scheme \<Rightarrow> u8 list \<times> 'a netmsg_scheme" where
  "getString stringLen m =
     (let (stringLen, m) = (if stringLen = 0 then msg_get m else (stringLen, m))
      in case canRead (uint stringLen) m of (ok, m) \<Rightarrow>
        if \<not> ok then ([], m)
        else (bytes_at (msg_buffer m) (unat (msg_position m)) (unat stringLen),
              m\<lparr>msg_position := msg_position m + stringLen\<rparr>))"

definition getPosition :: "'a netmsg_scheme \<Rightarrow> position \<times> 'a netmsg_scheme" where
  "getPosition m =
     (let (x, m) = msg_get m; (y, m) = msg_get m; (z, m) = getByte m in (Position x y z, m))"

text \<open>\<open>skipBytes\<close> takes a signed 16-bit count: its two's complement is the word added.\<close>

definition skipBytes :: "u16 \<Rightarrow> 'a netmsg_scheme \<Rightarrow> 'a netmsg_scheme" where
  "skipBytes n m = m\<lparr>msg_position := msg_position m + n\<rparr>"

definition getLengthHeader :: "'a netmsg_scheme \<Rightarrow> u16" where
  "getLengthHeader m = ucast (msg_buffer m 0) OR push_bit 8 (ucast (msg_buffer m 1))"

definition setBufferPosition :: "u16 \<Rightarrow> 'a netmsg_scheme \<Rightarrow> bool \<times> 'a netmsg_scheme" where
  "setBufferPosition pos m =
     (if unat pos < NETWORKMESSAGE_MAXSIZE - unat INITIAL_BUFFER_POSITION
      then (True, m\<lparr>msg_position := pos + INITIAL_BUFFER_POSITION\<rparr>)
      else (False, m))"

section \<open>Writing\<close>

definition addByte :: "u8 \<Rightarrow> 'a netmsg_scheme \<Rightarrow> 'a netmsg_scheme" where
  "addByte value m =
     (if \<not> canAdd 1 m then m
      else m\<lparr>msg_buffer := (msg_buffer m)(unat (msg_position m) := value),
             msg_position := msg_position m + 1, msg_length := msg_length m + 1\<rparr>)"

definition msg_add :: "'w::len word \<Rightarrow> 'a netmsg_scheme \<Rightarrow> 'a netmsg_scheme" where
  "msg_add value m =
     (let n = sizeof TYPE('w word)
      in if \<not> canAdd n m then m
         else m\<lparr>msg_buffer := put_bytes (unat (msg_position m)) (le_bytes n value) (msg_buffer m),
                msg_position := msg_position m + of_nat n, msg_length := msg_length m + of_nat n\<rparr>)"

definition addBytes :: "u8 list \<Rightarrow> 'a netmsg_scheme \<Rightarrow> 'a netmsg_scheme" where
  "addBytes bs m =
     (if \<not> canAdd (length bs) m \<or> length bs > 8192 then m
      else m\<lparr>msg_buffer := put_bytes (unat (msg_position m)) bs (msg_buffer m),
             msg_position := msg_position m + of_nat (length bs),
             msg_length := msg_length m + of_nat (length bs)\<rparr>)"

definition addPaddingBytes :: "nat \<Rightarrow> 'a netmsg_scheme \<Rightarrow> 'a netmsg_scheme" where
  "addPaddingBytes n m =
     (if \<not> canAdd n m then m
      else m\<lparr>msg_buffer := put_bytes (unat (msg_position m)) (replicate n 0x33) (msg_buffer m),
             msg_length := msg_length m + of_nat n\<rparr>)"

definition addString :: "u8 list \<Rightarrow> 'a netmsg_scheme \<Rightarrow> 'a netmsg_scheme" where
  "addString value m =
     (let stringLen = length value
      in if \<not> canAdd (stringLen + 2) m \<or> stringLen > 8192 then m
         else let m = msg_add (of_nat stringLen :: u16) m
              in m\<lparr>msg_buffer := put_bytes (unat (msg_position m)) value (msg_buffer m),
                   msg_position := msg_position m + of_nat stringLen,
                   msg_length := msg_length m + of_nat stringLen\<rparr>)"

definition addPosition :: "position \<Rightarrow> 'a netmsg_scheme \<Rightarrow> 'a netmsg_scheme" where
  "addPosition pos m = addByte (pos_z pos) (msg_add (pos_y pos) (msg_add (pos_x pos) m))"

text \<open>\<open>addItem(id, count)\<close>: what it reads of the item type is the record below.\<close>

datatype itemgroup = ITEM_GROUP_SPLASH | ITEM_GROUP_FLUID | ITEM_GROUP_OTHER

record item_view =
  clientId :: u16
  stackable :: bool
  group :: itemgroup

definition fluidMap :: "u8 list" where
  "fluidMap = [0, 1, 5, 3, 6, 8, 9, 2, 18]"

definition addItem :: "item_view \<Rightarrow> u8 \<Rightarrow> 'a netmsg_scheme \<Rightarrow> 'a netmsg_scheme" where
  "addItem it cnt m =
     (let m = msg_add (clientId it) m
      in if stackable it then addByte cnt m
         else if group it = ITEM_GROUP_SPLASH \<or> group it = ITEM_GROUP_FLUID
         then addByte (fluidMap ! unat (cnt AND 7)) m
         else m)"


section \<open>Ranges of the buffer\<close>

lemma length_bytes_at [simp]: "length (bytes_at b p n) = n"
  by (simp add: bytes_at_def)

lemma bytes_at_0 [simp]: "bytes_at b p 0 = []"
  by (simp add: bytes_at_def)

lemma bytes_at_add: "bytes_at b p (n + k) = bytes_at b p n @ bytes_at b (p + n) k"
  by (rule nth_equalityI) (auto simp: bytes_at_def nth_append)

lemma bytes_at_eq_append:
  "bytes_at b p (length xs + length ys) = xs @ ys \<longleftrightarrow>
     bytes_at b p (length xs) = xs \<and> bytes_at b (p + length xs) (length ys) = ys"
  by (simp add: bytes_at_add)

lemma bytes_at_put [simp]: "bytes_at (put_bytes p bs b) p (length bs) = bs"
  by (rule nth_equalityI) (auto simp: bytes_at_def put_bytes_def)

lemma bytes_at_cong: "(\<And>a. p \<le> a \<Longrightarrow> a < p + n \<Longrightarrow> b a = b' a) \<Longrightarrow> bytes_at b p n = bytes_at b' p n"
  by (simp add: bytes_at_def)

lemma put_bytes_outside [simp]: "a < p \<or> p + length bs \<le> a \<Longrightarrow> put_bytes p bs b a = b a"
  by (auto simp: put_bytes_def)

lemma put_bytes_Nil [simp]: "put_bytes p [] b = b"
  by (auto simp: put_bytes_def fun_eq_iff)

lemma put_bytes_append: "put_bytes (p + length xs) ys (put_bytes p xs b) = put_bytes p (xs @ ys) b"
  by (auto simp: put_bytes_def fun_eq_iff nth_append)

lemma put_bytes_single: "b(p := v) = put_bytes p [v] b"
  by (auto simp: put_bytes_def fun_eq_iff)

lemma sizeof_simps [simp]:
  "sizeof TYPE(u8) = 1" "sizeof TYPE(u16) = 2" "sizeof TYPE(u32) = 4" "sizeof TYPE(u64) = 8"
  by (simp_all add: sizeof_def)

section \<open>Fields and their wire format\<close>

text \<open>
  The kinds of field a protocol handler reads and writes, with the methods it uses for each.
  \<open>wire\<close> is the format they share.
\<close>

datatype field = FByte u8 | FU16 u16 | FU32 u32 | FU64 u64 | FString "u8 list" | FPosition position

datatype kind = KByte | KU16 | KU32 | KU64 | KString | KPosition

fun kind_of :: "field \<Rightarrow> kind" where
  "kind_of (FByte _) = KByte"
| "kind_of (FU16 _) = KU16"
| "kind_of (FU32 _) = KU32"
| "kind_of (FU64 _) = KU64"
| "kind_of (FString _) = KString"
| "kind_of (FPosition _) = KPosition"

fun write_field :: "field \<Rightarrow> 'a netmsg_scheme \<Rightarrow> 'a netmsg_scheme" where
  "write_field (FByte v) m = addByte v m"
| "write_field (FU16 v) m = msg_add v m"
| "write_field (FU32 v) m = msg_add v m"
| "write_field (FU64 v) m = msg_add v m"
| "write_field (FString s) m = addString s m"
| "write_field (FPosition p) m = addPosition p m"

fun read_field :: "kind \<Rightarrow> 'a netmsg_scheme \<Rightarrow> field \<times> 'a netmsg_scheme" where
  "read_field KByte m = map_prod FByte id (getByte m)"
| "read_field KU16 m = map_prod FU16 id (msg_get m)"
| "read_field KU32 m = map_prod FU32 id (msg_get m)"
| "read_field KU64 m = map_prod FU64 id (msg_get m)"
| "read_field KString m = map_prod FString id (getString 0 m)"
| "read_field KPosition m = map_prod FPosition id (getPosition m)"

fun wire :: "field \<Rightarrow> u8 list" where
  "wire (FByte v) = [v]"
| "wire (FU16 v) = le_bytes 2 v"
| "wire (FU32 v) = le_bytes 4 v"
| "wire (FU64 v) = le_bytes 8 v"
| "wire (FString s) = le_bytes 2 (of_nat (length s) :: u16) @ s"
| "wire (FPosition p) = le_bytes 2 (pos_x p) @ le_bytes 2 (pos_y p) @ [pos_z p]"

fun writable :: "field \<Rightarrow> bool" where
  "writable (FString s) = (length s \<le> 8192)"
| "writable _ = True"

text \<open>The message after bytes have been appended, and after bytes have been consumed.\<close>

definition appended :: "u8 list \<Rightarrow> 'a netmsg_scheme \<Rightarrow> 'a netmsg_scheme" where
  "appended bs m = m\<lparr>msg_buffer := put_bytes (unat (msg_position m)) bs (msg_buffer m),
     msg_position := msg_position m + of_nat (length bs),
     msg_length := msg_length m + of_nat (length bs)\<rparr>"

definition consumed :: "nat \<Rightarrow> 'a netmsg_scheme \<Rightarrow> 'a netmsg_scheme" where
  "consumed n m = m\<lparr>msg_position := msg_position m + of_nat n\<rparr>"

text \<open>Room for \<open>n\<close> more bytes, and \<open>n\<close> more bytes to read.\<close>

definition room :: "nat \<Rightarrow> 'a netmsg_scheme \<Rightarrow> bool" where
  "room n m \<longleftrightarrow> unat (msg_position m) + n < MAX_BODY_LENGTH"

definition avail :: "nat \<Rightarrow> 'a netmsg_scheme \<Rightarrow> bool" where
  "avail n m \<longleftrightarrow> unat (msg_position m) + n \<le> unat (msg_length m) + 8 \<and>
     unat (msg_position m) + n < NETWORKMESSAGE_MAXSIZE"

lemma u16_add_nat: "unat (p :: u16) + n < 2 ^ 16 \<Longrightarrow> unat (p + of_nat n) = unat p + n"
  by (simp add: unat_word_ariths unat_of_nat)

lemma appended_position: "room (length bs) m \<Longrightarrow>
    unat (msg_position (appended bs m)) = unat (msg_position m) + length bs"
  unfolding appended_def by (simp add: u16_add_nat room_def msg_consts)

lemma appended_append:
  "room (length xs) m \<Longrightarrow> appended ys (appended xs m) = appended (xs @ ys) m"
  using appended_position [of xs m] by (simp add: appended_def put_bytes_append add.assoc)

lemma room_appended: "room (length bs + n) m \<Longrightarrow> room n (appended bs m)"
  using appended_position [of bs m] by (simp add: room_def)

lemma appended_Nil [simp]: "appended [] m = m"
  by (simp add: appended_def)

lemma consumed_position: "avail n m \<Longrightarrow> unat (msg_position (consumed n m)) = unat (msg_position m) + n"
  unfolding consumed_def by (simp add: u16_add_nat avail_def msg_consts)

lemma consumed_frame [frame_simps]:
  "msg_buffer (consumed n m) = msg_buffer m" "msg_length (consumed n m) = msg_length m"
  "msg_overrun (consumed n m) = msg_overrun m"
  by (simp_all add: consumed_def)

lemma consumed_consumed: "consumed n (consumed k m) = consumed (k + n) m"
  by (simp add: consumed_def add.assoc)

lemma avail_consumed: "avail (k + n) m \<Longrightarrow> avail n (consumed k m)"
  using consumed_position [of k m] by (simp add: avail_def frame_simps)

lemma canRead_iff:
  "canRead (int n) m = (if avail n m then (True, m) else (False, m\<lparr>msg_overrun := True\<rparr>))"
proof -
  have "uint (msg_position m) + int n > uint (msg_length m) + 8
      \<or> int n \<ge> int NETWORKMESSAGE_MAXSIZE - uint (msg_position m) \<longleftrightarrow> \<not> avail n m"
    unfolding avail_def uint_nat by linarith
  then show ?thesis by (simp add: canRead_def)
qed

section \<open>What one operation does\<close>

lemma canAdd_room: "canAdd n m \<longleftrightarrow> room n m"
  by (simp add: canAdd_def room_def add.commute)

lemma addByte_appended: "addByte v m = (if room 1 m then appended [v] m else m)"
  by (simp add: addByte_def canAdd_room appended_def put_bytes_single)

lemma msg_add_appended:
  "msg_add (v :: 'w::len word) m =
     (if room (sizeof TYPE('w word)) m then appended (le_bytes (sizeof TYPE('w word)) v) m else m)"
  by (simp add: msg_add_def canAdd_room appended_def Let_def)

lemma addBytes_appended:
  "addBytes bs m = (if room (length bs) m \<and> length bs \<le> 8192 then appended bs m else m)"
  by (auto simp: addBytes_def canAdd_room appended_def)

lemma room_mono: "room n m \<Longrightarrow> k \<le> n \<Longrightarrow> room k m"
  by (simp add: room_def)

lemma addString_appended:
  "addString s m =
     (if room (length s + 2) m \<and> length s \<le> 8192 then appended (wire (FString s)) m else m)"
proof (cases "room (length s + 2) m \<and> length s \<le> 8192")
  case True
  then have "room (length (le_bytes 2 (of_nat (length s) :: u16))) m" by (auto intro: room_mono)
  then have "appended s (appended (le_bytes 2 (of_nat (length s) :: u16)) m) = appended (wire (FString s)) m"
    by (simp add: appended_append)
  moreover have "room 2 m" using True by (auto intro: room_mono)
  ultimately show ?thesis
    using True by (simp add: addString_def canAdd_room msg_add_appended Let_def appended_def)
next
  case False
  then show ?thesis by (auto simp: addString_def canAdd_room Let_def)
qed

lemma write_field_appended:
  assumes "room (length (wire f)) m" "writable f"
  shows "write_field f m = appended (wire f) m"
proof (cases f)
  case (FPosition p)
  let ?x = "le_bytes 2 (pos_x p)" and ?y = "le_bytes 2 (pos_y p)"
  have "room 2 m" "room (2 + 2) m" "room (2 + 2 + 1) m"
    using assms FPosition by (auto intro: room_mono)
  then have "room 2 (appended ?x m)" "room 1 (appended (?x @ ?y) m)" "room (length ?x) m"
      "room (length (?x @ ?y)) m"
    by (auto intro: room_appended room_mono)
  then show ?thesis
    using \<open>room 2 m\<close> FPosition
    by (simp add: addPosition_def msg_add_appended addByte_appended appended_append)
qed (use assms in \<open>auto simp: addByte_appended msg_add_appended addString_appended\<close>)

lemma getByte_consumed:
  "getByte m = (if avail 1 m then (msg_buffer m (unat (msg_position m)), consumed 1 m)
     else (0, m\<lparr>msg_overrun := True\<rparr>))"
  using canRead_iff [of 1 m] by (simp add: getByte_def consumed_def)

lemma msg_get_consumed:
  "(msg_get m :: 'w::len word \<times> _) =
     (let n = sizeof TYPE('w word)
      in if avail n m then (of_le (bytes_at (msg_buffer m) (unat (msg_position m)) n), consumed n m)
         else (0, m\<lparr>msg_overrun := True\<rparr>))"
  by (simp add: msg_get_def canRead_iff consumed_def Let_def)

text \<open>The unread part of the buffer starts with the given bytes.\<close>

definition upcoming :: "u8 list \<Rightarrow> 'a netmsg_scheme \<Rightarrow> bool" where
  "upcoming bs m \<longleftrightarrow> avail (length bs) m \<and>
     bytes_at (msg_buffer m) (unat (msg_position m)) (length bs) = bs"

lemma avail_mono: "avail n m \<Longrightarrow> k \<le> n \<Longrightarrow> avail k m"
  by (simp add: avail_def)

lemma upcoming_append:
  "upcoming (xs @ ys) m \<longleftrightarrow> upcoming xs m \<and> avail (length (xs @ ys)) m \<and> upcoming ys (consumed (length xs) m)"
proof (cases "avail (length (xs @ ys)) m")
  case True
  then have "avail (length xs) m" by (rule avail_mono) simp
  with True show ?thesis
    by (auto simp: upcoming_def bytes_at_eq_append frame_simps consumed_position intro: avail_consumed)
next
  case False
  then show ?thesis by (simp add: upcoming_def)
qed

lemma avail_add: "avail k m \<Longrightarrow> avail n (consumed k m) \<Longrightarrow> avail (k + n) m"
  by (simp add: avail_def frame_simps consumed_position)

lemma upcoming_appendI:
  "upcoming xs m \<Longrightarrow> upcoming ys (consumed (length xs) m) \<Longrightarrow> upcoming (xs @ ys) m"
  unfolding upcoming_append length_append by (auto simp: upcoming_def intro: avail_add)

lemma upcoming_avail: "upcoming bs m \<Longrightarrow> avail (length bs) m"
  by (simp add: upcoming_def)

lemma getByte_upcoming: "upcoming [v] m \<Longrightarrow> getByte m = (v, consumed 1 m)"
  by (simp add: upcoming_def getByte_consumed bytes_at_def)

lemma msg_get_upcoming:
  fixes v :: "'w::len word"
  assumes "upcoming (le_bytes n v) m" "n = sizeof TYPE('w word)" "LENGTH('w) \<le> 8 * n"
  shows "msg_get m = (v, consumed n m)"
  using assms by (simp add: upcoming_def msg_get_consumed Let_def of_le_le_bytes)

lemma getString_upcoming:
  assumes "upcoming (wire (FString s)) m" "length s \<le> 8192"
  shows "getString 0 m = (s, consumed (length s + 2) m)"
proof -
  let ?n = "of_nat (length s) :: u16"
  have len: "unat ?n = length s" using assms(2) by (simp add: unat_of_nat)
  have "upcoming (le_bytes 2 ?n) m" and rest: "upcoming s (consumed 2 m)"
    using assms(1) by (simp_all add: upcoming_append)
  then have "msg_get m = (?n, consumed 2 m)" by (intro msg_get_upcoming) simp_all
  moreover have "canRead (uint ?n) (consumed 2 m) = (True, consumed 2 m)"
    using upcoming_avail [OF rest] canRead_iff [of "length s" "consumed 2 m"] len by (simp add: uint_nat)
  ultimately show ?thesis
    using rest len by (simp add: getString_def upcoming_def consumed_def frame_simps)
qed

lemma read_field_upcoming:
  assumes "upcoming (wire f) m" "writable f"
  shows "read_field (kind_of f) m = (f, consumed (length (wire f)) m)"
proof (cases f)
  case (FPosition p)
  have "upcoming (le_bytes 2 (pos_x p)) m" "upcoming (le_bytes 2 (pos_y p)) (consumed 2 m)"
      "upcoming [pos_z p] (consumed 2 (consumed 2 m))"
    using assms FPosition by (simp_all add: upcoming_append)
  then have "msg_get m = (pos_x p, consumed 2 m)"
      "msg_get (consumed 2 m) = (pos_y p, consumed 2 (consumed 2 m))"
      "getByte (consumed 2 (consumed 2 m)) = (pos_z p, consumed 1 (consumed 2 (consumed 2 m)))"
    by (simp_all add: msg_get_upcoming getByte_upcoming)
  then show ?thesis using FPosition by (simp add: getPosition_def consumed_consumed)
qed (use assms in \<open>auto simp: getByte_upcoming msg_get_upcoming getString_upcoming\<close>)

section \<open>Sequences of fields\<close>

text \<open>
  A writer and a reader that agree field by field on a wire format agree on sequences: the
  locale proves it once, for any field type whose operations are the appending of the
  format and its consumption.
\<close>

locale wire_format =
  fixes enc :: "'f \<Rightarrow> u8 list"
    and kindof :: "'f \<Rightarrow> 'k"
    and put :: "'f \<Rightarrow> netmsg \<Rightarrow> netmsg"
    and get :: "'k \<Rightarrow> netmsg \<Rightarrow> 'f \<times> netmsg"
    and ok :: "'f \<Rightarrow> bool"
  assumes put_enc: "room (length (enc f)) m \<Longrightarrow> ok f \<Longrightarrow> put f m = appended (enc f) m"
    and get_enc: "upcoming (enc f) m \<Longrightarrow> ok f \<Longrightarrow> get (kindof f) m = (f, consumed (length (enc f)) m)"
begin

definition put_all :: "'f list \<Rightarrow> netmsg \<Rightarrow> netmsg" where
  "put_all fs m = fold put fs m"

primrec get_all :: "'k list \<Rightarrow> netmsg \<Rightarrow> 'f list \<times> netmsg" where
  "get_all [] m = ([], m)"
| "get_all (k # ks) m =
     (let (f, m) = get k m; (fs, m) = get_all ks m in (f # fs, m))"

lemma put_all_enc:
  "room (length (concat (map enc fs))) m \<Longrightarrow> list_all ok fs \<Longrightarrow>
     put_all fs m = appended (concat (map enc fs)) m"
proof (induction fs arbitrary: m)
  case Nil
  then show ?case by (simp add: put_all_def)
next
  case (Cons f fs)
  have here: "room (length (enc f)) m" using Cons.prems(1) by (auto intro: room_mono)
  have "room (length (concat (map enc fs))) (appended (enc f) m)"
    using Cons.prems(1) by (intro room_appended) simp
  from Cons.IH [OF this] show ?case
    using Cons.prems here put_enc [OF here] by (simp add: put_all_def appended_append)
qed

lemma get_all_enc:
  "upcoming (concat (map enc fs)) m \<Longrightarrow> list_all ok fs \<Longrightarrow>
     get_all (map kindof fs) m = (fs, consumed (length (concat (map enc fs))) m)"
proof (induction fs arbitrary: m)
  case Nil
  then show ?case by (simp add: consumed_def)
next
  case (Cons f fs)
  then have "get (kindof f) m = (f, consumed (length (enc f)) m)"
    and "upcoming (concat (map enc fs)) (consumed (length (enc f)) m)"
    by (simp_all add: upcoming_append get_enc)
  then show ?case using Cons by (simp add: consumed_consumed)
qed

end

interpretation fields: wire_format wire kind_of write_field read_field writable
  by unfold_locales (auto simp: write_field_appended read_field_upcoming)


section \<open>Properties\<close>

definition write_fields :: "field list \<Rightarrow> netmsg \<Rightarrow> netmsg" where
  "write_fields fs m = fold write_field fs m"

primrec read_fields :: "kind list \<Rightarrow> netmsg \<Rightarrow> field list \<times> netmsg" where
  "read_fields [] m = ([], m)"
| "read_fields (k # ks) m =
     (let (f, m) = read_field k m; (fs, m) = read_fields ks m in (f # fs, m))"

lemma write_fields_put_all: "write_fields fs m = fields.put_all fs m"
  by (simp add: write_fields_def fields.put_all_def)

lemma read_fields_get_all: "read_fields ks m = fields.get_all ks m"
  by (induction ks arbitrary: m) (auto simp: Let_def split: prod.split)

lemma msg_reset_simps [simp]:
  "msg_position (msg_reset m) = 8" "msg_length (msg_reset m) = 0" "\<not> msg_overrun (msg_reset m)"
  "msg_buffer (msg_reset m) = msg_buffer m"
  by (simp_all add: msg_reset_def msg_consts)

text \<open>C4: whatever fields are written to a fresh message, as long as they fit, reading the
  message from its start with the kinds of those fields gives the fields back, and the read
  does not overrun.\<close>

theorem fields_roundtrip:
  assumes "list_all writable fs"
    and "length (concat (map wire fs)) + 8 < MAX_BODY_LENGTH"
  shows "\<exists>m'. read_fields (map kind_of fs) (snd (setBufferPosition 0 (write_fields fs (msg_reset m)))) = (fs, m')
    \<and> \<not> msg_overrun m'"
proof -
  let ?bs = "concat (map wire fs)" and ?m = "msg_reset m"
  have fits: "room (length ?bs) ?m" using assms(2) by (simp add: room_def)
  then have "write_fields fs ?m = appended ?bs ?m"
    using assms(1) by (simp add: write_fields_put_all fields.put_all_enc)
  moreover define r where "r = snd (setBufferPosition 0 (appended ?bs ?m))"
  moreover have r: "msg_position r = 8" "msg_length r = of_nat (length ?bs)" "\<not> msg_overrun r"
      "msg_buffer r = put_bytes 8 ?bs (msg_buffer m)"
    by (simp_all add: r_def setBufferPosition_def appended_def msg_consts)
  have "unat (msg_length r) = length ?bs"
    using fits r(2) by (simp add: room_def msg_consts unat_of_nat)
  then have "upcoming ?bs r"
    using fits r by (simp add: upcoming_def avail_def room_def msg_consts)
  from fields.get_all_enc [OF this assms(1)] have
    "read_fields (map kind_of fs) r = (fs, consumed (length ?bs) r)"
    by (simp add: read_fields_get_all)
  ultimately show ?thesis using r(3) by (simp add: frame_simps)
qed

theorem fields_roundtrip_witness:
  "\<exists>m'. read_fields [KByte, KString, KPosition] (snd (setBufferPosition 0 (write_fields
     [FByte 0xAA, FString [72, 105], FPosition (Position 1000 2000 7)]
     (msg_reset \<lparr>msg_length = 3, msg_position = 0, msg_overrun = True, msg_buffer = \<lambda>_. 0\<rparr>))))
   = ([FByte 0xAA, FString [72, 105], FPosition (Position 1000 2000 7)], m') \<and> \<not> msg_overrun m'"
  using fields_roundtrip [of "[FByte 0xAA, FString [72, 105], FPosition (Position 1000 2000 7)]"
      "\<lparr>msg_length = 3, msg_position = 0, msg_overrun = True, msg_buffer = \<lambda>_. 0\<rparr>"]
  by (simp add: msg_consts)

text \<open>A message being built: how its fields agree, and what of its buffer has changed.\<close>

definition building :: "mem \<Rightarrow> 'a netmsg_scheme \<Rightarrow> bool" where
  "building b m \<longleftrightarrow> unat (msg_position m) = unat (msg_length m) + 8 \<and>
     unat (msg_position m) < MAX_BODY_LENGTH \<and>
     {a. msg_buffer m a \<noteq> b a} \<subseteq> {8..<MAX_BODY_LENGTH}"

lemma building_appended:
  assumes "building b m" "room (length bs) m"
  shows "building b (appended bs m)"
proof -
  have "unat (msg_length m + of_nat (length bs)) = unat (msg_length m) + length bs"
    using assms by (intro u16_add_nat) (simp add: building_def room_def msg_consts)
  moreover have "{a. msg_buffer (appended bs m) a \<noteq> b a} \<subseteq>
      {a. msg_buffer m a \<noteq> b a} \<union> {unat (msg_position m)..<unat (msg_position m) + length bs}"
    by (auto simp: appended_def put_bytes_def)
  moreover have "{unat (msg_position m)..<unat (msg_position m) + length bs} \<subseteq> {8..<MAX_BODY_LENGTH}"
    using assms by (auto simp: building_def room_def)
  ultimately show ?thesis
    using assms appended_position [OF assms(2)]
    by (auto simp: building_def room_def) (auto simp: appended_def)
qed

lemma building_ops:
  assumes "building b m"
  shows "building b (addByte v m)" "building b (msg_add w m)" "building b (addBytes bs m)"
    "building b (addString bs m)"
  using assms by (auto simp: addByte_appended msg_add_appended addBytes_appended addString_appended
      simp del: wire.simps intro!: building_appended) (auto intro: room_mono)

lemma building_write_field: "building b m \<Longrightarrow> building b (write_field f m)"
  by (cases f) (auto simp: addPosition_def building_ops)

text \<open>C5: no sequence of writes, fitting or not, moves the position out of the body or touches
  a byte outside it, and the length always says how many bytes have been written.\<close>

theorem write_fields_in_bounds:
  "unat (msg_position (write_fields fs (msg_reset m))) = unat (msg_length (write_fields fs (msg_reset m))) + 8
   \<and> unat (msg_position (write_fields fs (msg_reset m))) < MAX_BODY_LENGTH
   \<and> {a. msg_buffer (write_fields fs (msg_reset m)) a \<noteq> msg_buffer m a} \<subseteq> {8..<MAX_BODY_LENGTH}"
proof -
  have fold: "building (msg_buffer m) x \<Longrightarrow> building (msg_buffer m) (fold write_field fs x)" for x
    by (induction fs arbitrary: x) (auto simp: building_write_field)
  have "building (msg_buffer m) (msg_reset m)"
    by (simp add: building_def msg_consts)
  from fold [OF this] show ?thesis unfolding write_fields_def building_def .
qed

text \<open>
  What a read asks for: the size of the next field of a kind, as the buffer gives it (a string
  states its length in its first two bytes), and what the read gives back when there is less:
  zero or the empty string, except that a position keeps the coordinates that could still be
  read, each on its own.  The second component is how far the position has moved.
\<close>

definition word_at :: "nat \<Rightarrow> 'a netmsg_scheme \<Rightarrow> u16" where
  "word_at n m = of_le (bytes_at (msg_buffer m) (unat (msg_position m) + n) 2)"

fun field_size :: "kind \<Rightarrow> 'a netmsg_scheme \<Rightarrow> nat" where
  "field_size KByte m = 1"
| "field_size KU16 m = 2"
| "field_size KU32 m = 4"
| "field_size KU64 m = 8"
| "field_size KString m = 2 + unat (word_at 0 m)"
| "field_size KPosition m = 5"

fun overrun_read :: "kind \<Rightarrow> 'a netmsg_scheme \<Rightarrow> field \<times> nat" where
  "overrun_read KByte m = (FByte 0, 0)"
| "overrun_read KU16 m = (FU16 0, 0)"
| "overrun_read KU32 m = (FU32 0, 0)"
| "overrun_read KU64 m = (FU64 0, 0)"
| "overrun_read KString m = (FString [], if avail 2 m then 2 else 0)"
| "overrun_read KPosition m =
     (let z = \<lambda>n. msg_buffer m (unat (msg_position m) + n)
      in if avail 4 m then (FPosition (Position (word_at 0 m) (word_at 2 m) 0), 4)
         else if avail 3 m then (FPosition (Position (word_at 0 m) 0 (z 2)), 3)
         else if avail 2 m then (FPosition (Position (word_at 0 m) 0 0), 2)
         else if avail 1 m then (FPosition (Position 0 0 (z 0)), 1)
         else (FPosition (Position 0 0 0), 0))"

text \<open>The bytes that come next are the encoding of what they decode to.\<close>

lemma avail_overrun [simp]: "avail n (m\<lparr>msg_overrun := b\<rparr>) = avail n m"
  by (simp add: avail_def)

lemma consumed_overrun [simp]: "consumed n (m\<lparr>msg_overrun := b\<rparr>) = (consumed n m)\<lparr>msg_overrun := b\<rparr>"
  by (simp add: consumed_def)

lemma consumed_0 [simp]: "consumed 0 m = m"
  by (simp add: consumed_def)

lemma msg_get_word:
  "(msg_get m :: u16 \<times> _) = (if avail 2 m then (word_at 0 m, consumed 2 m) else (0, m\<lparr>msg_overrun := True\<rparr>))"
  by (simp add: msg_get_consumed word_at_def)

lemma word_at_consumed: "avail k m \<Longrightarrow> word_at n (consumed k m) = word_at (k + n) m"
  by (simp add: word_at_def consumed_position frame_simps add.assoc)

lemma word_at_overrun [simp]: "word_at n (m\<lparr>msg_overrun := b\<rparr>) = word_at n m"
  by (simp add: word_at_def)

lemma le_bytes_bytes_at:
  assumes "LENGTH('w::len) = 8 * n"
  shows "le_bytes n (of_le (bytes_at b a n) :: 'w word) = bytes_at b a n"
  using le_bytes_of_le [of "bytes_at b a n", where 'a = 'w] assms by simp

lemma avail_consumed_iff: "avail k m \<Longrightarrow> avail n (consumed k m) \<longleftrightarrow> avail (k + n) m"
  using avail_add [of k m n] avail_consumed [of k n m] by auto

lemma getString_cases:
  "getString 0 m =
     (if avail (field_size KString m) m
      then (bytes_at (msg_buffer m) (unat (msg_position m) + 2) (unat (word_at 0 m)), consumed (field_size KString m) m)
      else ([], (consumed (if avail 2 m then 2 else 0) m)\<lparr>msg_overrun := True\<rparr>))"
proof (cases "avail 2 m")
  case True
  define m1 and n where "m1 = consumed 2 m" and "n = word_at 0 m"
  have m1: "msg_buffer m1 = msg_buffer m" "unat (msg_position m1) = unat (msg_position m) + 2"
    using True by (simp_all add: m1_def frame_simps consumed_position)
  have "canRead (uint n) m1 =
      (if avail (2 + unat n) m then (True, m1) else (False, m1\<lparr>msg_overrun := True\<rparr>))"
    using canRead_iff [of "unat n" m1] avail_consumed_iff [OF True, of "unat n"] by (simp add: m1_def)
  moreover have "m1\<lparr>msg_position := msg_position m1 + n\<rparr> = consumed (2 + unat n) m"
    by (simp add: m1_def consumed_def add.assoc)
  ultimately show ?thesis
    using True m1 by (simp add: getString_def msg_get_word flip: m1_def n_def)
next
  case False
  then have "\<not> avail (field_size KString m) m" using avail_mono [of "field_size KString m" m 2] by auto
  then show ?thesis
    using False canRead_iff [of 0 "m\<lparr>msg_overrun := True\<rparr>"] by (simp add: getString_def msg_get_word)
qed

lemma getPosition_cases:
  "getPosition m =
     (if avail 5 m
      then (Position (word_at 0 m) (word_at 2 m) (msg_buffer m (unat (msg_position m) + 4)), consumed 5 m)
      else case overrun_read KPosition m of
        (FPosition p, n) \<Rightarrow> (p, (consumed n m)\<lparr>msg_overrun := True\<rparr>))"
proof -
  have mono: "avail 5 m \<Longrightarrow> avail 4 m" "avail 4 m \<Longrightarrow> avail 3 m" "avail 3 m \<Longrightarrow> avail 2 m" "avail 2 m \<Longrightarrow> avail 1 m"
    by (auto elim: avail_mono)
  consider "avail 5 m" | "avail 4 m" "\<not> avail 5 m" | "avail 3 m" "\<not> avail 4 m" | "avail 2 m" "\<not> avail 3 m"
    | "avail 1 m" "\<not> avail 2 m" | "\<not> avail 1 m"
    using mono by blast
  then show ?thesis
    by cases (use mono in \<open>auto simp: getPosition_def msg_get_word getByte_consumed avail_consumed_iff word_at_consumed
        consumed_position consumed_consumed frame_simps\<close>)
qed

text \<open>
  C6: what a read gives, on every message.  A field that fits in the message and in the
  buffer is decoded from exactly its bytes, which are consumed and no others.  A field that
  does not fit raises the overrun flag and gives the default value: zero or the empty string;
  the position only moves over the parts that were there (a string's length, the coordinates
  of a position that could be read).  No read changes the bytes, nor moves the position past
  the end of the message.
\<close>

theorem read_field_sound:
  assumes "read_field k m = (f, m')"
  shows "kind_of f = k \<and> msg_buffer m' = msg_buffer m \<and> msg_length m' = msg_length m \<and>
    (if avail (field_size k m) m
     then bytes_at (msg_buffer m) (unat (msg_position m)) (length (wire f)) = wire f \<and>
          length (wire f) = field_size k m \<and> m' = consumed (length (wire f)) m \<and>
          unat (msg_position m') \<le> unat (msg_length m) + 8 \<and> unat (msg_position m') < NETWORKMESSAGE_MAXSIZE
     else f = fst (overrun_read k m) \<and> m' = (consumed (snd (overrun_read k m)) m)\<lparr>msg_overrun := True\<rparr> \<and>
          (snd (overrun_read k m) = 0 \<or> avail (snd (overrun_read k m)) m))"
proof -
  let ?b = "msg_buffer m" and ?p = "unat (msg_position m)"
  have enc2: "le_bytes 2 (word_at n m) = bytes_at ?b (?p + n) 2" for n
    by (simp add: word_at_def le_bytes_bytes_at)
  have str: "bytes_at ?b ?p (2 + unat (word_at 0 m)) = wire (FString (bytes_at ?b (?p + 2) (unat (word_at 0 m))))"
    unfolding bytes_at_add by (simp add: enc2)
  have "?p + 2 + 2 = ?p + 4" by arith
  then have last: "bytes_at ?b (?p + 2 + 2) 1 = [?b (?p + 4)]"
    by (simp only: bytes_at_def) simp
  have "bytes_at ?b ?p (2 + (2 + 1)) = le_bytes 2 (word_at 0 m) @ le_bytes 2 (word_at 2 m) @ [?b (?p + 4)]"
    unfolding bytes_at_add last by (simp only: enc2 append_assoc add_0_right)
  then have pos: "bytes_at ?b ?p 5 = wire (FPosition (Position (word_at 0 m) (word_at 2 m) (?b (?p + 4))))"
    by simp
  have one: "bytes_at ?b ?p 1 = [?b ?p]" by (simp add: bytes_at_def)
  have inside: "avail n m \<Longrightarrow> unat (msg_position (consumed n m)) \<le> unat (msg_length m) + 8 \<and>
      unat (msg_position (consumed n m)) < NETWORKMESSAGE_MAXSIZE" for n
    by (simp add: consumed_position) (simp add: avail_def)
  show ?thesis
  proof (cases "avail (field_size k m) m")
    case True
    have "kind_of f = k \<and> bytes_at ?b ?p (field_size k m) = wire f \<and> m' = consumed (field_size k m) m"
      using assms True str pos one 
      by (cases k) (auto simp: le_bytes_bytes_at getByte_consumed msg_get_consumed getString_cases getPosition_cases simp del: wire.simps(5,6))
    moreover from this have "length (wire f) = field_size k m" by (metis length_bytes_at)
    ultimately show ?thesis using True inside by (simp add: frame_simps)
  next
    case False
    have "kind_of f = k \<and> f = fst (overrun_read k m) \<and> m' = (consumed (snd (overrun_read k m)) m)\<lparr>msg_overrun := True\<rparr>"
      using assms False
      by (cases k) (auto simp: getByte_consumed msg_get_consumed getString_cases getPosition_cases Let_def split: if_splits)
    moreover have "snd (overrun_read k m) = 0 \<or> avail (snd (overrun_read k m)) m"
      by (cases k) (auto simp: Let_def)
    moreover have "kind_of (fst (overrun_read k m)) = k"
      by (cases k) (auto simp: Let_def)
    ultimately show ?thesis using False by (simp add: frame_simps)
  qed
qed

text \<open>At an input that fits, and at one that ends after the first coordinate of a position.\<close>

theorem read_field_sound_witness:
  "(\<exists>m'. read_field KU16 \<lparr>msg_length = 2, msg_position = 8, msg_overrun = False, msg_buffer = (\<lambda>a. of_nat (a - 7))\<rparr>
      = (FU16 0x0201, m') \<and> bytes_at (\<lambda>a. of_nat (a - 7)) 8 2 = wire (FU16 0x0201) \<and> \<not> msg_overrun m') \<and>
   (\<exists>m'. read_field KPosition \<lparr>msg_length = 2, msg_position = 8, msg_overrun = False, msg_buffer = (\<lambda>a. of_nat (a - 7))\<rparr>
      = (FPosition (Position 0x0201 0 0), m') \<and> msg_position m' = 10 \<and> msg_overrun m')"
proof -
  let ?m = "\<lparr>msg_length = 2, msg_position = 8, msg_overrun = False, msg_buffer = (\<lambda>a. of_nat (a - 7))\<rparr>"
  have av: "avail 2 ?m" "\<not> avail 3 ?m" "\<not> avail 4 ?m" "\<not> avail 5 ?m" "word_at 0 ?m = 0x0201"
    by (simp_all add: avail_def msg_consts word_at_def bytes_at_def upt_rec)
  obtain f m1 where r: "read_field KU16 ?m = (f, m1)" by fastforce
  moreover have "f = FU16 0x0201"
    using r av by (auto simp: msg_get_word)
  moreover obtain g m2 where r2: "read_field KPosition ?m = (g, m2)" by fastforce
  ultimately show ?thesis
    using read_field_sound [OF r] read_field_sound [OF r2] av
    by (simp add: consumed_def)
qed

end
