(* ===== verification/Xtea.thy ===== *)
theory Xtea
  imports Prelude
begin

text \<open>
  \<open>src/src/xtea.cpp\<close>: the block cipher of the game protocol. The C++ functions work in
  place on a byte pointer and a length; here the buffer is a memory, the pointer an offset
  into it. The round keys are the 64-element array of \<open>xtea.h\<close>, a list. The section ends
  with the locale \<open>block_cipher\<close>, the interface the protocol layer relies on, and its
  interpretation on the functions of this file.
\<close>

section \<open>The code\<close>

type_synonym round = "u32 \<times> u32 \<Rightarrow> u32 \<times> u32"

definition xtea_delta :: u32 where
  "xtea_delta = 0x9E3779B9"

text \<open>The reads and writes of one 32-bit half of a block in \<open>apply_rounds\<close>.\<close>

definition read_half :: "mem \<Rightarrow> nat \<Rightarrow> u32" where
  "read_half m j =
     ucast (m j) OR push_bit 8 (ucast (m (j + 1))) OR push_bit 16 (ucast (m (j + 2)))
       OR push_bit 24 (ucast (m (j + 3)))"

definition write_half :: "nat \<Rightarrow> u32 \<Rightarrow> mem \<Rightarrow> mem" where
  "write_half j w m =
     m(j := ucast w, j + 1 := ucast (drop_bit 8 w), j + 2 := ucast (drop_bit 16 w),
       j + 3 := ucast (drop_bit 24 w))"

text \<open>The loop of \<open>apply_rounds\<close> from offset \<open>j\<close> on: one block every eight bytes.\<close>

function apply_rounds :: "nat \<Rightarrow> nat \<Rightarrow> round \<Rightarrow> nat \<Rightarrow> mem \<Rightarrow> mem" where
  "apply_rounds data len round j m =
     (if j < len then
        let (left, right) = round (read_half m (data + j), read_half m (data + j + 4))
        in apply_rounds data len round (j + 8)
             (write_half (data + j + 4) right (write_half (data + j) left m))
      else m)"
  by pat_completeness auto
termination
  by (relation "measure (\<lambda>(data, len, round, j, m). len - j)") auto

declare apply_rounds.simps [simp del]

text \<open>\<open>expand_key\<close>: the loop carries \<open>sum\<close> and \<open>next_sum = sum + delta\<close>; the array
  is filled two entries at a time.\<close>

primrec expand_key_loop :: "nat \<Rightarrow> u32 \<Rightarrow> u32 list \<Rightarrow> u32 list" where
  "expand_key_loop 0 key_sum k = []"
| "expand_key_loop (Suc n) key_sum k =
     (let next_sum = key_sum + xtea_delta
      in (key_sum + k ! unat (key_sum AND 3)) # (next_sum + k ! unat (drop_bit 11 next_sum AND 3))
         # expand_key_loop n next_sum k)"

definition expand_key :: "u32 list \<Rightarrow> u32 list" where
  "expand_key k = expand_key_loop 32 0 k"

text \<open>The lambdas that \<open>encrypt\<close> and \<open>decrypt\<close> pass to \<open>apply_rounds\<close>.\<close>

definition xtea_mix :: "u32 \<Rightarrow> u32" where
  "xtea_mix v = (push_bit 4 v XOR drop_bit 5 v) + v"

definition encrypt_round :: "u32 \<Rightarrow> u32 \<Rightarrow> round" where
  "encrypt_round k0 k1 = (\<lambda>(left, right).
     let left = left + (xtea_mix right XOR k0);
         right = right + (xtea_mix left XOR k1)
     in (left, right))"

definition decrypt_round :: "u32 \<Rightarrow> u32 \<Rightarrow> round" where
  "decrypt_round k0 k1 = (\<lambda>(left, right).
     let right = right - (xtea_mix left XOR k1);
         left = left - (xtea_mix right XOR k0)
     in (left, right))"

function encrypt_loop :: "nat \<Rightarrow> nat \<Rightarrow> u32 list \<Rightarrow> nat \<Rightarrow> mem \<Rightarrow> mem" where
  "encrypt_loop data len k i m =
     (if i < length k then
        encrypt_loop data len k (i + 2) (apply_rounds data len (encrypt_round (k ! i) (k ! (i + 1))) 0 m)
      else m)"
  by pat_completeness auto
termination
  by (relation "measure (\<lambda>(data, len, k, i, m). length k - i)") auto

declare encrypt_loop.simps [simp del]

definition xtea_encrypt :: "u32 list \<Rightarrow> nat \<Rightarrow> nat \<Rightarrow> mem \<Rightarrow> mem" where
  "xtea_encrypt k data len m = encrypt_loop data len k 0 m"

text \<open>\<open>decrypt\<close> counts \<open>i\<close> down from \<open>k.size() - 1\<close> in steps of two while it is positive.\<close>

fun decrypt_loop :: "nat \<Rightarrow> nat \<Rightarrow> u32 list \<Rightarrow> nat \<Rightarrow> mem \<Rightarrow> mem" where
  "decrypt_loop data len k i m =
     (if 0 < i then
        decrypt_loop data len k (i - 2) (apply_rounds data len (decrypt_round (k ! (i - 1)) (k ! i)) 0 m)
      else m)"

declare decrypt_loop.simps [simp del]

definition xtea_decrypt :: "u32 list \<Rightarrow> nat \<Rightarrow> nat \<Rightarrow> mem \<Rightarrow> mem" where
  "xtea_decrypt k data len m = decrypt_loop data len k (length k - 1) m"

section \<open>Blocks in memory\<close>

lemma read_half_upd [simp]: "a < j \<or> j + 3 < a \<Longrightarrow> read_half (m(a := v)) j = read_half m j"
  by (auto simp: read_half_def)

lemma write_half_upd:
  "a < j \<or> j + 3 < a \<Longrightarrow> write_half j w (m(a := v)) = (write_half j w m)(a := v)"
  by (auto simp: write_half_def fun_eq_iff)

lemma write_half_other [simp]: "a < j \<or> j + 3 < a \<Longrightarrow> write_half j w m a = m a"
  by (auto simp: write_half_def)

lemma read_write_half [simp]: "read_half (write_half j w m) j = w"
proof (rule bit_word_eqI)
  fix n
  assume "n < LENGTH(32)"
  then show "bit (read_half (write_half j w m) j) n = bit w n"
    by (cases "n < 8"; cases "n < 16"; cases "n < 24")
       (auto simp: read_half_def write_half_def bit_simps not_less)
qed

lemma read_write_half_other [simp]:
  "i + 3 < j \<or> j + 3 < i \<Longrightarrow> read_half (write_half i w m) j = read_half m j"
  by (auto simp: read_half_def write_half_def)

lemma write_half_twice [simp]: "write_half j w (write_half j v m) = write_half j w m"
  by (auto simp: write_half_def fun_eq_iff)

lemma write_half_comm:
  "i + 3 < j \<or> j + 3 < i \<Longrightarrow> write_half i v (write_half j w m) = write_half j w (write_half i v m)"
  by (auto simp: write_half_def fun_eq_iff)

lemma u8_of_halves:
  fixes a b c d :: u8
  defines "w \<equiv> ucast a OR push_bit 8 (ucast b) OR push_bit 16 (ucast c) OR push_bit 24 (ucast d) :: u32"
  shows "ucast w = a" "ucast (drop_bit 8 w) = b" "ucast (drop_bit 16 w) = c" "ucast (drop_bit 24 w) = d"
  unfolding w_def by (rule bit_word_eqI, auto simp: bit_simps dest: u8_bit_less)+

lemma write_read_half [simp]: "write_half j (read_half m j) m = m"
  unfolding write_half_def read_half_def u8_of_halves by (simp add: fun_upd_idem)

section \<open>One pass over the blocks\<close>

lemma apply_rounds_upd:
  "a < data + j \<Longrightarrow> apply_rounds data len f j (m(a := v)) = (apply_rounds data len f j m)(a := v)"
proof (induction data len f j m rule: apply_rounds.induct)
  case (1 data len f j m)
  show ?case
  proof (cases "j < len")
    case True
    obtain l r where lr: "f (read_half m (data + j), read_half m (data + j + 4)) = (l, r)"
      by fastforce
    let ?m' = "write_half (data + j + 4) r (write_half (data + j) l m)"
    have "apply_rounds data len f (j + 8) (?m'(a := v)) = (apply_rounds data len f (j + 8) ?m')(a := v)"
      by (rule "1.IH" [OF True lr [symmetric] refl]) (use "1.prems" in simp)
    moreover have "write_half (data + j + 4) r (write_half (data + j) l (m(a := v))) = ?m'(a := v)"
      using "1.prems" by (simp add: write_half_upd)
    moreover have "f (read_half (m(a := v)) (data + j), read_half (m(a := v)) (data + j + 4)) = (l, r)"
      using lr "1.prems" by simp
    ultimately show ?thesis
      unfolding apply_rounds.simps [of data len f j m] apply_rounds.simps [of data len f j "m(a := v)"]
      using True lr by simp
  next
    case False
    then show ?thesis
      unfolding apply_rounds.simps [of data len f j m] apply_rounds.simps [of data len f j "m(a := v)"]
      by simp
  qed
qed

lemma apply_rounds_write:
  "i + 3 < data + j \<Longrightarrow>
     apply_rounds data len f j (write_half i w m) = write_half i w (apply_rounds data len f j m)"
  by (simp add: write_half_def apply_rounds_upd)

lemma apply_rounds_below: "a < data + j \<Longrightarrow> apply_rounds data len f j m a = m a"
  using apply_rounds_upd [of a data j len f m "m a"] by (metis fun_upd_same fun_upd_triv)

lemma apply_rounds_read: "i + 3 < data + j \<Longrightarrow> read_half (apply_rounds data len f j m) i = read_half m i"
  by (simp add: read_half_def apply_rounds_below)

text \<open>Two passes whose rounds undo each other restore the memory.\<close>

lemma apply_rounds_inverse:
  assumes "\<And>p. g (f p) = p"
  shows "apply_rounds data len g j (apply_rounds data len f j m) = m"
proof (induction "len - j" arbitrary: j m rule: less_induct)
  case less
  show ?case
  proof (cases "j < len")
    case True
    let ?l0 = "read_half m (data + j)" and ?r0 = "read_half m (data + j + 4)"
    obtain l r where lr: "f (?l0, ?r0) = (l, r)" by fastforce
    then have undo: "g (l, r) = (?l0, ?r0)" using assms [of "(?l0, ?r0)"] by simp
    define m' where "m' = write_half (data + j + 4) r (write_half (data + j) l m)"
    define n where "n = apply_rounds data len f (j + 8) m'"
    have first: "apply_rounds data len f j m = n"
      using True lr by (simp add: apply_rounds.simps [of data len f j] n_def m'_def)
    have "read_half n (data + j) = l" "read_half n (data + j + 4) = r"
      by (simp_all add: n_def apply_rounds_read) (simp_all add: m'_def)
    then have "apply_rounds data len g j n =
        apply_rounds data len g (j + 8) (write_half (data + j + 4) ?r0 (write_half (data + j) ?l0 n))"
      using True undo by (simp add: apply_rounds.simps [of data len g j])
    also have "write_half (data + j + 4) ?r0 (write_half (data + j) ?l0 n) =
        apply_rounds data len f (j + 8) (write_half (data + j + 4) ?r0 (write_half (data + j) ?l0 m'))"
      by (simp add: n_def apply_rounds_write)
    also have "write_half (data + j + 4) ?r0 (write_half (data + j) ?l0 m') = m"
      by (simp add: m'_def write_half_comm [of "data + j" "data + j + 4"])
    also have "apply_rounds data len g (j + 8) (apply_rounds data len f (j + 8) m) = m"
      using True by (intro less) simp
    finally show ?thesis by (simp add: first)
  next
    case False
    then show ?thesis by (simp add: apply_rounds.simps)
  qed
qed

text \<open>A pass touches the blocks of its range only.\<close>

definition block_end :: "nat \<Rightarrow> nat" where
  "block_end len = 8 * ((len + 7) div 8)"

lemma block_end_multiple [simp]: "8 dvd len \<Longrightarrow> block_end len = len"
  by (auto simp: block_end_def elim!: dvdE)

lemma apply_rounds_above:
  "8 dvd j \<Longrightarrow> data + block_end len \<le> a \<Longrightarrow> apply_rounds data len f j m a = m a"
proof (induction data len f j m rule: apply_rounds.induct)
  case (1 data len f j m)
  show ?case
  proof (cases "j < len")
    case True
    obtain l r where lr: "f (read_half m (data + j), read_half m (data + j + 4)) = (l, r)"
      by fastforce
    obtain q where "j = 8 * q" using "1.prems"(1) by (rule dvdE)
    moreover from this True have "q + 1 \<le> (len + 7) div 8" by simp
    ultimately have "data + j + 8 \<le> a"
      using "1.prems"(2) unfolding block_end_def by simp
    moreover have "8 dvd j + 8" using "1.prems" by simp
    ultimately show ?thesis
      using "1.IH" [OF True lr [symmetric] refl] "1.prems" True lr
      by (simp add: apply_rounds.simps [of data len f j])
  next
    case False
    then show ?thesis by (simp add: apply_rounds.simps)
  qed
qed

text \<open>A pass at another offset does the same to the bytes it finds there.\<close>

definition same_bytes :: "nat \<Rightarrow> mem \<Rightarrow> nat \<Rightarrow> mem \<Rightarrow> nat \<Rightarrow> bool" where
  "same_bytes n m d m' d' \<longleftrightarrow> (\<forall>i < n. m (d + i) = m' (d' + i))"

lemma same_bytesD: "same_bytes n m d m' d' \<Longrightarrow> i < n \<Longrightarrow> m (d + i) = m' (d' + i)"
  by (simp add: same_bytes_def)

lemma read_half_same:
  assumes "same_bytes n m d m' d'" and "j + 4 \<le> n"
  shows "read_half m (d + j) = read_half m' (d' + j)"
  using same_bytesD [OF assms(1), of j] same_bytesD [OF assms(1), of "j + 1"]
    same_bytesD [OF assms(1), of "j + 2"] same_bytesD [OF assms(1), of "j + 3"] assms(2)
  by (simp add: read_half_def add.assoc)

lemma same_bytes_upd:
  "same_bytes n m d m' d' \<Longrightarrow> same_bytes n (m(d + j := v)) d (m'(d' + j := v)) d'"
  by (simp add: same_bytes_def)

lemma write_half_same:
  assumes "same_bytes n m d m' d'"
  shows "same_bytes n (write_half (d + j) w m) d (write_half (d' + j) w m') d'"
  unfolding write_half_def add.assoc by (intro same_bytes_upd assms)

lemma apply_rounds_same:
  "8 dvd n \<Longrightarrow> 8 dvd j \<Longrightarrow> same_bytes n m d m' d' \<Longrightarrow>
     same_bytes n (apply_rounds d n f j m) d (apply_rounds d' n f j m') d'"
proof (induction "n - j" arbitrary: j m m' rule: less_induct)
  case less
  show ?case
  proof (cases "j < n")
    case True
    obtain q r where "n = 8 * q" "j = 8 * r" using less.prems(1,2) by (auto elim!: dvdE)
    with True have fit: "j + 8 \<le> n" by simp
    have eqs: "read_half m (d + j) = read_half m' (d' + j)"
        "read_half m (d + j + 4) = read_half m' (d' + j + 4)"
      using read_half_same [OF less.prems(3), of j] read_half_same [OF less.prems(3), of "j + 4"] fit
      by (simp_all add: add.assoc)
    obtain a b where ab: "f (read_half m' (d' + j), read_half m' (d' + j + 4)) = (a, b)" by fastforce
    have "same_bytes n (write_half (d + j + 4) b (write_half (d + j) a m)) d
        (write_half (d' + j + 4) b (write_half (d' + j) a m')) d'"
      unfolding add.assoc by (intro write_half_same less.prems(3))
    then show ?thesis
      unfolding apply_rounds.simps [of d n f j m] apply_rounds.simps [of d' n f j m']
      using True ab eqs less.prems by (auto intro!: less.hyps)
  next
    case False
    with less.prems show ?thesis
      by (simp add: apply_rounds.simps [of d n f j m] apply_rounds.simps [of d' n f j m'])
  qed
qed

section \<open>Decryption undoes encryption\<close>

lemma decrypt_encrypt_round: "decrypt_round k0 k1 (encrypt_round k0 k1 p) = p"
  by (simp add: decrypt_round_def encrypt_round_def Let_def split: prod.split)

lemma encrypt_decrypt_round: "encrypt_round k0 k1 (decrypt_round k0 k1 p) = p"
  by (simp add: decrypt_round_def encrypt_round_def Let_def split: prod.split)

text \<open>
  Both loops as lists of passes: \<open>encrypt\<close> applies the pairs of round keys in order,
  \<open>decrypt\<close> in the opposite order.
\<close>

fun key_pairs :: "u32 list \<Rightarrow> (u32 \<times> u32) list" where
  "key_pairs (a # b # ks) = (a, b) # key_pairs ks"
| "key_pairs ks = []"

definition pass :: "(u32 \<Rightarrow> u32 \<Rightarrow> round) \<Rightarrow> nat \<Rightarrow> nat \<Rightarrow> u32 \<times> u32 \<Rightarrow> mem \<Rightarrow> mem" where
  "pass rnd data len p = apply_rounds data len (rnd (fst p) (snd p)) 0"

lemma key_pairs_drop:
  "i + 1 < length k \<Longrightarrow> key_pairs (drop i k) = (k ! i, k ! (i + 1)) # key_pairs (drop (i + 2) k)"
  by (simp add: Cons_nth_drop_Suc [symmetric])

lemma encrypt_loop_fold:
  "even (length k) \<Longrightarrow> even i \<Longrightarrow>
     encrypt_loop data len k i m = fold (pass encrypt_round data len) (key_pairs (drop i k)) m"
proof (induction data len k i m rule: encrypt_loop.induct)
  case (1 data len k i m)
  show ?case
  proof (cases "i < length k")
    case True
    with "1.prems" have "i + 1 < length k" by presburger
    with True 1 show ?thesis
      by (simp add: encrypt_loop.simps [of data len k i] key_pairs_drop pass_def)
  next
    case False
    then show ?thesis by (simp add: encrypt_loop.simps [of data len k i])
  qed
qed

lemma key_pairs_append: "even (length xs) \<Longrightarrow> key_pairs (xs @ ys) = key_pairs xs @ key_pairs ys"
  by (induction xs rule: key_pairs.induct) auto

lemma decrypt_loop_fold:
  "2 * n \<le> length k \<Longrightarrow>
     decrypt_loop data len k (2 * n - 1) m
       = fold (pass decrypt_round data len) (rev (key_pairs (take (2 * n) k))) m"
proof (induction n arbitrary: m)
  case 0
  then show ?case by (simp add: decrypt_loop.simps)
next
  case (Suc n)
  let ?i = "2 * n"
  have "take (2 * Suc n) k = take ?i k @ [k ! ?i, k ! (?i + 1)]"
    using Suc.prems by (simp add: take_Suc_conv_app_nth)
  then have "rev (key_pairs (take (2 * Suc n) k)) = (k ! ?i, k ! (?i + 1)) # rev (key_pairs (take ?i k))"
    using Suc.prems by (simp add: key_pairs_append)
  moreover have "decrypt_loop data len k (2 * Suc n - 1) m =
      decrypt_loop data len k (2 * n - 1) (pass decrypt_round data len (k ! ?i, k ! (?i + 1)) m)"
    by (subst decrypt_loop.simps) (simp add: pass_def)
  ultimately show ?case using Suc by simp
qed

lemma xtea_encrypt_fold:
  "even (length k) \<Longrightarrow> xtea_encrypt k data len m = fold (pass encrypt_round data len) (key_pairs k) m"
  by (simp add: xtea_encrypt_def encrypt_loop_fold)

lemma xtea_decrypt_fold:
  assumes "even (length k)"
  shows "xtea_decrypt k data len m = fold (pass decrypt_round data len) (rev (key_pairs k)) m"
proof -
  obtain n where "length k = 2 * n" using assms by (rule evenE)
  then show ?thesis using decrypt_loop_fold [of n k data len m] by (simp add: xtea_decrypt_def)
qed

lemma fold_undo:
  assumes "\<And>x s. g x (f x s) = s"
  shows "fold g (rev xs) (fold f xs s) = s"
  using assms by (induction xs arbitrary: s) auto

lemma length_expand_key_loop [simp]: "length (expand_key_loop n s k) = 2 * n"
  by (induction n arbitrary: s) (auto simp: Let_def)

lemma length_expand_key [simp]: "length (expand_key k) = 64"
  by (simp add: expand_key_def)

text \<open>
  The interface of a cipher that works in place on a range of a buffer: decryption undoes
  encryption, both leave the rest of the buffer alone, and decryption depends on the bytes
  of its range only, so it can run where the bytes have been copied to.
\<close>

locale block_cipher =
  fixes enc dec :: "'k \<Rightarrow> nat \<Rightarrow> nat \<Rightarrow> mem \<Rightarrow> mem"
    and usable :: "'k \<Rightarrow> bool"
  assumes dec_enc: "usable k \<Longrightarrow> dec k d n (enc k d n m) = m"
    and enc_outside: "usable k \<Longrightarrow> 8 dvd n \<Longrightarrow> a < d \<or> d + n \<le> a \<Longrightarrow> enc k d n m a = m a"
    and dec_outside: "usable k \<Longrightarrow> 8 dvd n \<Longrightarrow> a < d \<or> d + n \<le> a \<Longrightarrow> dec k d n m a = m a"
    and dec_moves: "usable k \<Longrightarrow> 8 dvd n \<Longrightarrow> same_bytes n m d m' d' \<Longrightarrow>
      same_bytes n (dec k d n m) d (dec k d' n m') d'"
begin

lemma dec_received:
  assumes "usable k" "8 dvd n" "same_bytes n (enc k d n m) d m' d'"
  shows "same_bytes n m d (dec k d' n m') d'"
  using dec_moves [OF assms] dec_enc [OF assms(1)] by simp

end

lemma pass_below: "a < d \<Longrightarrow> pass rnd d n p m a = m a"
  by (simp add: pass_def apply_rounds_below)

lemma pass_above: "d + block_end n \<le> a \<Longrightarrow> pass rnd d n p m a = m a"
  by (simp add: pass_def apply_rounds_above)

lemma fold_pass_outside:
  "a < d \<or> d + block_end n \<le> a \<Longrightarrow> fold (pass rnd d n) ps m a = m a"
  by (induction ps arbitrary: m) (auto simp: pass_below pass_above)

lemma fold_pass_same:
  "8 dvd n \<Longrightarrow> same_bytes n m d m' d' \<Longrightarrow>
     same_bytes n (fold (pass rnd d n) ps m) d (fold (pass rnd d' n) ps m') d'"
  by (induction ps arbitrary: m m') (auto simp: pass_def intro: apply_rounds_same)

lemma fold_pass_undo:
  "fold (pass decrypt_round d n) (rev ps) (fold (pass encrypt_round d n) ps m) = m"
  by (rule fold_undo) (simp add: pass_def apply_rounds_inverse decrypt_encrypt_round)

interpretation xtea: block_cipher xtea_encrypt xtea_decrypt "\<lambda>k. even (length k)"
  by unfold_locales
     (auto simp: xtea_encrypt_fold xtea_decrypt_fold fold_pass_undo fold_pass_outside
           intro: fold_pass_same)

text \<open>C1: with the round keys of any key, decrypting an encrypted range of a buffer gives the
  buffer back, whatever the offset and the length.\<close>

theorem xtea_roundtrip:
  "xtea_decrypt (expand_key k) data len (xtea_encrypt (expand_key k) data len m) = m"
  by (rule xtea.dec_enc) simp

section \<open>Agreement with the published cipher\<close>

text \<open>
  XTEA as its authors publish it: 32 cycles that carry a running sum and look a key word up
  by two of its bits, with no expanded key.
\<close>

primrec xtea_cycles :: "nat \<Rightarrow> u32 \<Rightarrow> u32 list \<Rightarrow> u32 \<times> u32 \<Rightarrow> u32 \<times> u32" where
  "xtea_cycles 0 s k v = v"
| "xtea_cycles (Suc n) s k v =
     (let v0 = fst v + (((push_bit 4 (snd v) XOR drop_bit 5 (snd v)) + snd v) XOR (s + k ! unat (s AND 3)));
          s = s + 0x9E3779B9;
          v1 = snd v + (((push_bit 4 v0 XOR drop_bit 5 v0) + v0) XOR (s + k ! unat (drop_bit 11 s AND 3)))
      in xtea_cycles n s k (v0, v1))"

definition block_at :: "mem \<Rightarrow> nat \<Rightarrow> u32 \<times> u32" where
  "block_at m a = (read_half m a, read_half m (a + 4))"

lemma apply_rounds_block:
  "j \<le> 8 * b \<Longrightarrow> 8 dvd j \<Longrightarrow> 8 * b < n \<Longrightarrow>
     block_at (apply_rounds d n f j m) (d + 8 * b) = f (block_at m (d + 8 * b))"
proof (induction d n f j m rule: apply_rounds.induct)
  case (1 d n f j m)
  obtain l r where lr: "f (read_half m (d + j), read_half m (d + j + 4)) = (l, r)" by fastforce
  let ?m' = "write_half (d + j + 4) r (write_half (d + j) l m)"
  have step: "apply_rounds d n f j m = apply_rounds d n f (j + 8) ?m'"
    using "1.prems" lr by (simp add: apply_rounds.simps [of d n f j])
  show ?case
  proof (cases "j = 8 * b")
    case True
    have "block_at (apply_rounds d n f (j + 8) ?m') (d + j) = (l, r)"
      by (simp add: block_at_def apply_rounds_read)
    with True step lr show ?thesis by (simp add: block_at_def)
  next
    case False
    with "1.prems" obtain q where "j = 8 * q" "q < b" by (auto elim!: dvdE)
    then have far: "j + 8 \<le> 8 * b" by simp
    then have "block_at ?m' (d + 8 * b) = block_at m (d + 8 * b)"
      by (simp add: block_at_def)
    moreover have "block_at (apply_rounds d n f (j + 8) ?m') (d + 8 * b) = f (block_at ?m' (d + 8 * b))"
      using "1.prems" far by (intro "1.IH" [OF _ lr [symmetric] refl]) auto
    ultimately show ?thesis using step by simp
  qed
qed

lemma fold_pass_block:
  "8 * b < n \<Longrightarrow> block_at (fold (pass rnd d n) ps m) (d + 8 * b)
     = fold (\<lambda>p. rnd (fst p) (snd p)) ps (block_at m (d + 8 * b))"
  by (induction ps arbitrary: m) (auto simp: pass_def apply_rounds_block)

lemma expanded_rounds:
  "fold (\<lambda>p. encrypt_round (fst p) (snd p)) (key_pairs (expand_key_loop n s k)) v = xtea_cycles n s k v"
  by (induction n arbitrary: s v)
     (auto simp: Let_def encrypt_round_def xtea_mix_def xtea_delta_def split: prod.splits)

text \<open>C2: \<open>encrypt\<close> with the expanded key enciphers every block of the range as the
  published XTEA does with the key itself.\<close>

theorem xtea_encrypt_reference:
  assumes "8 * b < len"
  shows "block_at (xtea_encrypt (expand_key k) data len m) (data + 8 * b)
    = xtea_cycles 32 0 k (block_at m (data + 8 * b))"
proof -
  have "even (length (expand_key k))" by simp
  then show ?thesis
    using assms by (simp only: xtea_encrypt_fold fold_pass_block expand_key_def expanded_rounds)
qed

text \<open>A published test vector, in the second block of a buffer.\<close>

definition sample_text :: mem where
  "sample_text = write_half 8 0x41424344 (write_half 12 0x45464748 (\<lambda>_. 0))"

lemma xtea_vector:
  "xtea_cycles 32 0 [0x00010203, 0x04050607, 0x08090a0b, 0x0c0d0e0f] (0x41424344, 0x45464748)
     = (0x497df3d0, 0x72612cb5)"
  by code_simp

theorem xtea_encrypt_reference_witness:
  "block_at (xtea_encrypt (expand_key [0x00010203, 0x04050607, 0x08090a0b, 0x0c0d0e0f]) 0 16 sample_text) 8
     = (0x497df3d0, 0x72612cb5)"
proof -
  have "block_at sample_text 8 = (0x41424344, 0x45464748)"
    by (simp add: block_at_def sample_text_def write_half_comm [of 8 12])
  then show ?thesis
    using xtea_encrypt_reference [of 1 16 "[0x00010203, 0x04050607, 0x08090a0b, 0x0c0d0e0f]" 0 sample_text]
    by (simp add: xtea_vector)
qed

end
