(* ===== verification/Adler.thy ===== *)
theory Adler
  imports Prelude
begin

text \<open>
  \<open>adlerChecksum\<close> of \<open>src/src/tools.cpp\<close>, the checksum in the header of every network
  message.  The code adds up to 5552 bytes before it reduces its two 32-bit sums modulo
  65521; the theorem is that no sum can wrap in between, so that the result is the
  Adler-32 checksum, whose definition reduces after every byte.
\<close>

section \<open>The code\<close>

definition adler_base :: nat where
  "adler_base = 65521"

text \<open>The inner \<open>do ... while (--tmp)\<close> over the bytes of one chunk.\<close>

fun adler_chunk :: "u8 list \<Rightarrow> u32 \<times> u32 \<Rightarrow> u32 \<times> u32" where
  "adler_chunk [] (a, b) = (a, b)"
| "adler_chunk (d # ds) (a, b) = (let a = a + ucast d; b = b + a in adler_chunk ds (a, b))"

text \<open>The outer loop; \<open>data\<close> and \<open>length\<close> are the list of the bytes still to sum.\<close>

function adler_loop :: "u8 list \<Rightarrow> u32 \<times> u32 \<Rightarrow> u32 \<times> u32" where
  "adler_loop data ab =
     (if 0 < length data then
        let tmp = (if length data > 5552 then 5552 else length data);
            (a, b) = adler_chunk (take tmp data) ab
        in adler_loop (drop tmp data) (a mod 65521, b mod 65521)
      else ab)"
  by pat_completeness auto
termination
  by (relation "measure (length \<circ> fst)") auto

declare adler_loop.simps [simp del]

definition adlerChecksum :: "u8 list \<Rightarrow> u32" where
  "adlerChecksum data =
     (if length data > 65500 then 0
      else case adler_loop data (1, 0) of (a, b) \<Rightarrow> push_bit 16 b OR a)"

section \<open>The definition of Adler-32\<close>

fun adler32 :: "u8 list \<Rightarrow> nat \<times> nat \<Rightarrow> nat \<times> nat" where
  "adler32 [] (a, b) = (a, b)"
| "adler32 (d # ds) (a, b) =
     (let a = (a + unat d) mod adler_base in adler32 ds (a, (b + a) mod adler_base))"

text \<open>The chunk sums without any reduction, and how large they can be.\<close>

fun plain_sums :: "u8 list \<Rightarrow> nat \<times> nat \<Rightarrow> nat \<times> nat" where
  "plain_sums [] (a, b) = (a, b)"
| "plain_sums (d # ds) (a, b) = plain_sums ds (a + unat d, b + (a + unat d))"

lemma byte_bound: "unat (d :: u8) \<le> 255"
proof -
  have "unat d < 2 ^ LENGTH(8)" by (rule unsigned_less)
  then show ?thesis by simp
qed

lemma plain_sums_grow:
  "a \<le> fst (plain_sums ds (a, b)) \<and> b \<le> snd (plain_sums ds (a, b))"
proof (induction ds arbitrary: a b)
  case (Cons d ds)
  have "a + unat d \<le> fst (plain_sums ds (a + unat d, b + (a + unat d))) \<and>
      b + (a + unat d) \<le> snd (plain_sums ds (a + unat d, b + (a + unat d)))"
    by (rule Cons.IH)
  then show ?case by simp
qed simp

lemma plain_sums_bound:
  "fst (plain_sums ds (a, b)) \<le> a + 255 * length ds \<and>
   2 * snd (plain_sums ds (a, b))
     \<le> 2 * b + 2 * (length ds * a) + 255 * (length ds * (length ds + 1))"
proof (induction ds arbitrary: a b)
  case (Cons d ds)
  let ?a = "a + unat d" and ?b = "b + (a + unat d)" and ?n = "length ds"
  have IH1: "fst (plain_sums ds (?a, ?b)) \<le> ?a + 255 * ?n"
    and IH2: "2 * snd (plain_sums ds (?a, ?b)) \<le> 2 * ?b + 2 * (?n * ?a) + 255 * (?n * (?n + 1))"
    using Cons.IH [of ?a ?b] by auto
  have "2 * ?b + 2 * (?n * ?a) + 255 * (?n * (?n + 1))
      = 2 * b + 2 * ((?n + 1) * a) + (?n + 1) * (2 * unat d) + 255 * (?n * (?n + 1))"
    by (simp add: algebra_simps)
  also have "\<dots> \<le> 2 * b + 2 * ((?n + 1) * a) + (?n + 1) * (2 * 255) + 255 * (?n * (?n + 1))"
    using byte_bound [of d] by (intro add_mono mult_le_mono order_refl)
  also have "\<dots> = 2 * b + 2 * ((?n + 1) * a) + 255 * ((?n + 1) * (?n + 2))"
    by (simp add: algebra_simps)
  finally have "2 * ?b + 2 * (?n * ?a) + 255 * (?n * (?n + 1))
      \<le> 2 * b + 2 * ((?n + 1) * a) + 255 * ((?n + 1) * (?n + 2))" .
  then show ?case using IH1 IH2 byte_bound [of d] by simp
qed simp

lemma adler_chunk_plain:
  "fst (plain_sums ds (unat a, unat b)) < 2 ^ 32 \<Longrightarrow> snd (plain_sums ds (unat a, unat b)) < 2 ^ 32 \<Longrightarrow>
     adler_chunk ds (a, b) = (a', b') \<Longrightarrow> (unat a', unat b') = plain_sums ds (unat a, unat b)"
proof (induction ds arbitrary: a b)
  case (Cons d ds)
  let ?x = "unat a + unat d" and ?y = "unat b + (unat a + unat d)"
  have "?x < 2 ^ 32" "?y < 2 ^ 32"
    using plain_sums_grow [of ?x ds ?y] Cons.prems(1,2) by (auto intro: le_less_trans)
  then have "unat (a + ucast d) = ?x" "unat (b + (a + ucast d)) = ?y"
    by (simp_all add: unat_word_ariths unsigned_ucast_eq take_bit_nat_eq_self)
  then show ?case using Cons.IH [of "a + ucast d" "b + (a + ucast d)"] Cons.prems
    by (simp add: Let_def)
qed simp

text \<open>Reducing after every byte or once at the end gives the same residues.\<close>

lemma adler32_plain:
  "adler32 ds (a mod adler_base, b mod adler_base)
     = (fst (plain_sums ds (a, b)) mod adler_base, snd (plain_sums ds (a, b)) mod adler_base)"
proof (induction ds arbitrary: a b)
  case (Cons d ds)
  have "(a mod adler_base + unat d) mod adler_base = (a + unat d) mod adler_base"
    and "(b mod adler_base + (a + unat d) mod adler_base) mod adler_base
      = (b + (a + unat d)) mod adler_base"
    by (simp_all add: mod_simps)
  then show ?case using Cons.IH [of "a + unat d" "b + (a + unat d)"] by (simp add: Let_def)
qed simp

lemma adler32_append: "adler32 (xs @ ys) ab = adler32 ys (adler32 xs ab)"
  by (induction xs ab rule: adler32.induct) (auto simp: Let_def)

lemma chunk_no_wrap:
  assumes "length ds \<le> 5552" "a < adler_base" "b < adler_base"
  shows "fst (plain_sums ds (a, b)) < 2 ^ 32 \<and> snd (plain_sums ds (a, b)) < 2 ^ 32"
proof -
  let ?n = "length ds"
  have "?n * a \<le> 5552 * 65520"
    using assms by (intro mult_le_mono) (auto simp: adler_base_def)
  moreover have "?n * (?n + 1) \<le> 5552 * 5553"
    using assms by (intro mult_le_mono) auto
  ultimately have "2 * b + 2 * (?n * a) + 255 * (?n * (?n + 1)) < 2 * 2 ^ 32"
    using assms(3) by (simp add: adler_base_def)
  moreover have "a + 255 * ?n < 2 ^ 32"
    using assms by (simp add: adler_base_def)
  ultimately show ?thesis
    using plain_sums_bound [of ds a b] by linarith
qed

lemma adler_loop_correct:
  "unat a < adler_base \<Longrightarrow> unat b < adler_base \<Longrightarrow> adler_loop data (a, b) = (a', b') \<Longrightarrow>
     (unat a', unat b') = adler32 data (unat a, unat b)"
proof (induction data "(a, b)" arbitrary: a b rule: adler_loop.induct)
  case (1 data)
  show ?case
  proof (cases "data = []")
    case False
    define tmp where "tmp = (if length data > 5552 then 5552 else length data)"
    obtain c d where cd: "adler_chunk (take tmp data) (a, b) = (c, d)" by fastforce
    have "length (take tmp data) \<le> 5552" by (simp add: tmp_def)
    from chunk_no_wrap [OF this "1.prems"(1,2)]
    have plain: "(unat c, unat d) = plain_sums (take tmp data) (unat a, unat b)"
      using adler_chunk_plain cd by blast
    have "adler32 (take tmp data) (unat a, unat b) = (unat c mod adler_base, unat d mod adler_base)"
      using adler32_plain [of "take tmp data" "unat a" "unat b"] "1.prems"(1,2)
      by (simp flip: plain)
    then have "adler32 data (unat a, unat b)
        = adler32 (drop tmp data) (unat c mod adler_base, unat d mod adler_base)"
      by (metis adler32_append append_take_drop_id)
    moreover have "adler_loop (drop tmp data) (c mod 65521, d mod 65521) = (a', b')"
      using "1.prems"(3) False cd
      by (simp add: adler_loop.simps [of data] tmp_def Let_def split: if_splits)
    moreover have "unat (c mod 65521) = unat c mod adler_base" "unat (d mod 65521) = unat d mod adler_base"
      by (simp_all add: unat_mod adler_base_def)
    ultimately show ?thesis
      using "1.hyps" [OF _ tmp_def cd [symmetric] refl] False by (simp add: adler_base_def)
  next
    case True
    then show ?thesis using "1.prems" by (simp add: adler_loop.simps)
  qed
qed

lemma adler32_bound:
  "a < adler_base \<Longrightarrow> b < adler_base \<Longrightarrow>
     fst (adler32 ds (a, b)) < adler_base \<and> snd (adler32 ds (a, b)) < adler_base"
proof (induction ds arbitrary: a b)
  case (Cons d ds)
  have "0 < adler_base" by (simp add: adler_base_def)
  then show ?case using Cons.IH by (simp add: Let_def)
qed simp

lemma unat_halves:
  fixes a b :: u32
  assumes "unat a < 2 ^ 16" "unat b < 2 ^ 16"
  shows "unat (push_bit 16 b OR a) = unat b * 2 ^ 16 + unat a"
proof -
  have "take_bit 16 a = a" using assms(1)
    by (simp add: word_unat_eq_iff unsigned_take_bit_eq take_bit_nat_eq_self)
  then have low: "bit a n \<Longrightarrow> n < 16" for n by (metis bit_take_bit_iff)
  have "push_bit 16 b AND a = 0"
    by (intro bit_word_eqI) (auto simp: bit_simps dest: low)
  then have "push_bit 16 b OR a = push_bit 16 b + a" by (simp add: disjunctive_add_eq_or)
  moreover have hi: "unat (push_bit 16 b) = unat b * 2 ^ 16"
    using assms(2) by (simp add: push_bit_eq_mult unat_word_ariths)
  moreover have "unat (push_bit 16 b + a) = unat (push_bit 16 b) + unat a"
    using assms by (subst unat_add_lem [symmetric]) (simp add: hi)
  ultimately show ?thesis by simp
qed

text \<open>C3: for every message that fits the buffer the checksum is Adler-32: 32-bit sums reduced
  every 5552 bytes do not wrap.\<close>

theorem adlerChecksum_adler32:
  assumes "length data \<le> 65500"
  shows "unat (adlerChecksum data) = snd (adler32 data (1, 0)) * 2 ^ 16 + fst (adler32 data (1, 0))"
proof -
  obtain a b where ab: "adler_loop data (1, 0) = (a, b)" by fastforce
  then have sums: "(unat a, unat b) = adler32 data (1, 0)"
    using adler_loop_correct [of 1 0 data a b] by (simp add: adler_base_def)
  have "unat a < 2 ^ 16" "unat b < 2 ^ 16"
    using adler32_bound [of 1 0 data] sums [symmetric] by (auto simp: adler_base_def)
  then have "unat (push_bit 16 b OR a) = unat b * 2 ^ 16 + unat a"
    by (rule unat_halves)
  then show ?thesis
    unfolding sums [symmetric] using assms ab by (simp add: adlerChecksum_def)
qed

lemma adler32_sample: "adler32 [97, 98, 99] (1, 0) = (295, 589)"
  by (simp add: adler_base_def)

theorem adlerChecksum_adler32_witness:
  "unat (adlerChecksum [97, 98, 99]) = 0x024d0127"
proof -
  have "length [97, 98, 99 :: u8] \<le> 65500" by simp
  from adlerChecksum_adler32 [OF this] show ?thesis unfolding adler32_sample by simp
qed

end
