(* ===== verification/Transport.thy ===== *)
theory Transport
  imports NetMessage Xtea Adler
begin

text \<open>
  \<open>src/src/outputmessage.h\<close>, \<open>protocol.cpp\<close> and the framing of \<open>connection.cpp\<close>: how a
  message body becomes the bytes of a packet (inner length, padding, encryption, checksum,
  outer length) and how the receive path undoes it.  Sockets, timers and locks are left out;
  a connection is its flags, its packet counter and its message.
\<close>

section \<open>Outgoing messages\<close>

record outmsg = netmsg +
  out_start :: u16

text \<open>A message from the pool: its buffer holds whatever the memory held.\<close>

definition fresh_out :: "mem \<Rightarrow> outmsg" where
  "fresh_out b = \<lparr>msg_length = 0, msg_position = INITIAL_BUFFER_POSITION, msg_overrun = False,
     msg_buffer = b, out_start = INITIAL_BUFFER_POSITION\<rparr>"

definition add_header :: "'w::len word \<Rightarrow> outmsg \<Rightarrow> outmsg" where
  "add_header v m =
     (let n = sizeof TYPE('w word); start = out_start m - of_nat n
      in m\<lparr>out_start := start, msg_buffer := put_bytes (unat start) (le_bytes n v) (msg_buffer m),
           msg_length := msg_length m + of_nat n\<rparr>)"

definition writeMessageLength :: "outmsg \<Rightarrow> outmsg" where
  "writeMessageLength m = add_header (msg_length m) m"

definition addCryptoHeader :: "bool \<Rightarrow> outmsg \<Rightarrow> outmsg" where
  "addCryptoHeader addChecksum m =
     writeMessageLength
       (if addChecksum
        then add_header (adlerChecksum (bytes_at (msg_buffer m) (unat (out_start m)) (unat (msg_length m)))) m
        else m)"

text \<open>\<open>append\<close> copies the body of a message without a check of its own.\<close>

definition out_append :: "'a netmsg_scheme \<Rightarrow> outmsg \<Rightarrow> outmsg" where
  "out_append msg m =
     (let msgLen = msg_length msg
      in m\<lparr>msg_buffer := put_bytes (unat (msg_position m)) (bytes_at (msg_buffer msg) 8 (unat msgLen)) (msg_buffer m),
           msg_length := msg_length m + msgLen, msg_position := msg_position m + msgLen\<rparr>)"

section \<open>The protocol object\<close>

record protocol =
  outputBuffer :: "outmsg option"
  proto_key :: "u32 list"
  encryptionEnabled :: bool
  checksumEnabled :: bool
  rawMessages :: bool
  connected :: bool
  sent :: "outmsg list"

definition XTEA_encrypt :: "u32 list \<Rightarrow> outmsg \<Rightarrow> outmsg" where
  "XTEA_encrypt k m =
     (let paddingBytes = unat (msg_length m) mod 8;
          m = (if paddingBytes \<noteq> 0 then addPaddingBytes (8 - paddingBytes) m else m)
      in m\<lparr>msg_buffer := xtea_encrypt k (unat (out_start m)) (unat (msg_length m)) (msg_buffer m)\<rparr>)"

definition XTEA_decrypt :: "u32 list \<Rightarrow> netmsg \<Rightarrow> bool \<times> netmsg" where
  "XTEA_decrypt k msg =
     (if (uint (msg_length msg) - 6) AND 7 \<noteq> 0 then (False, msg)
      else
        let msg = msg\<lparr>msg_buffer := xtea_decrypt k (unat (msg_position msg)) (nat (uint (msg_length msg) - 6)) (msg_buffer msg)\<rparr>;
            (innerLength :: u16, msg) = msg_get msg
        in if uint innerLength + 8 > uint (msg_length msg) then (False, msg)
           else (True, msg\<lparr>msg_length := innerLength\<rparr>))"

definition onSendMessage :: "protocol \<Rightarrow> outmsg \<Rightarrow> outmsg" where
  "onSendMessage p msg =
     (if \<not> rawMessages p then
        let msg = writeMessageLength msg
        in if encryptionEnabled p then addCryptoHeader (checksumEnabled p) (XTEA_encrypt (proto_key p) msg)
           else msg
      else msg)"

text \<open>\<open>onRecvMessage\<close>: the message given to \<open>parsePacket\<close>, if it is.\<close>

definition onRecvMessage :: "protocol \<Rightarrow> netmsg \<Rightarrow> netmsg option" where
  "onRecvMessage p msg =
     (if encryptionEnabled p then
        (case XTEA_decrypt (proto_key p) msg of (ok, msg) \<Rightarrow> if ok then Some msg else None)
      else Some msg)"

definition proto_send :: "outmsg \<Rightarrow> protocol \<Rightarrow> protocol" where
  "proto_send msg p = (if connected p then p\<lparr>sent := sent p @ [msg]\<rparr> else p)"

text \<open>\<open>getOutputBuffer\<close>: \<open>b\<close> is the memory a new message of the pool gets.\<close>

definition getOutputBuffer :: "mem \<Rightarrow> int \<Rightarrow> protocol \<Rightarrow> outmsg \<times> protocol" where
  "getOutputBuffer b sz p =
     (case outputBuffer p of
        None \<Rightarrow> (fresh_out b, p\<lparr>outputBuffer := Some (fresh_out b)\<rparr>)
      | Some out \<Rightarrow>
          if uint (msg_length out) + sz > int MAX_PROTOCOL_BODY_LENGTH
          then (fresh_out b, (proto_send out p)\<lparr>outputBuffer := Some (fresh_out b)\<rparr>)
          else (out, p))"

text \<open>\<open>ProtocolGame::writeToOutputBuffer\<close>: the handlers append to the buffer this way.\<close>

definition writeToOutputBuffer :: "mem \<Rightarrow> netmsg \<Rightarrow> protocol \<Rightarrow> protocol" where
  "writeToOutputBuffer b msg p =
     (case getOutputBuffer b (uint (msg_length msg)) p of (out, p) \<Rightarrow>
        p\<lparr>outputBuffer := Some (out_append msg out)\<rparr>)"

section \<open>The autosend list of the message pool\<close>

definition addProtocolToAutosend :: "'p \<Rightarrow> 'p list \<Rightarrow> bool \<times> 'p list" where
  "addProtocolToAutosend p ps = (ps = [], ps @ [p])"

definition removeProtocolFromAutosend :: "'p \<Rightarrow> 'p list \<Rightarrow> 'p list" where
  "removeProtocolFromAutosend p ps = swap_remove p ps"

section \<open>Receiving\<close>

record connection =
  conn_closed :: bool
  receivedFirst :: bool
  packetsSent :: u32
  timeConnected :: int
  conn_msg :: netmsg

datatype recv_action =
    CloseConnection bool
  | NoAction
  | ReadBody nat

text \<open>\<open>parseHeader\<close>: \<open>now\<close> is \<open>time(nullptr)\<close>, \<open>maxPackets\<close> the configured packet rate.
  The two close calls differ in being forced.\<close>

definition parseHeader :: "bool \<Rightarrow> int \<Rightarrow> u32 \<Rightarrow> connection \<Rightarrow> connection \<times> recv_action" where
  "parseHeader failed now maxPackets c =
     (if failed then (c\<lparr>conn_closed := True\<rparr>, CloseConnection True)
      else if conn_closed c then (c, NoAction)
      else
        let timePassed = (max 1 (word_of_int (now - timeConnected c + 1)) :: u32);
            c = c\<lparr>packetsSent := packetsSent c + 1\<rparr>
        in if packetsSent c div timePassed > maxPackets
           then (c\<lparr>conn_closed := True\<rparr>, CloseConnection False)
           else
             let c = (if timePassed > 2 then c\<lparr>timeConnected := now, packetsSent := 0\<rparr> else c);
                 sz = getLengthHeader (conn_msg c)
             in if sz = 0 \<or> int (unat sz) \<ge> int NETWORKMESSAGE_MAXSIZE - 16
                then (c\<lparr>conn_closed := True\<rparr>, CloseConnection True)
                else (c\<lparr>conn_msg := (conn_msg c)\<lparr>msg_length := sz + 2, msg_position := 2\<rparr>\<rparr>,
                      ReadBody (unat sz)))"

text \<open>The checksum part of \<open>parsePacket\<close>: whether it matched, and the message after it.\<close>

definition checkPacket :: "netmsg \<Rightarrow> bool \<times> netmsg" where
  "checkPacket msg =
     (let len = uint (msg_length msg) - uint (msg_position msg) - 4;
          checksum = (if len > 0 then adlerChecksum (bytes_at (msg_buffer msg) (unat (msg_position msg) + 4) (nat len)) else 0);
          (recvChecksum, msg) = msg_get msg
      in if recvChecksum \<noteq> checksum then (False, skipBytes (- 4) msg) else (True, msg))"

datatype packet_action =
    PacketClose
  | PacketNone
  | FirstMessage netmsg
  | Message netmsg

text \<open>\<open>parsePacket\<close>: \<open>hasProtocol\<close> says whether the protocol object exists already, and
  \<open>make_protocol\<close>, the service port, whether it can make one.\<close>

definition parsePacket :: "(bool \<Rightarrow> netmsg \<Rightarrow> (bool \<times> netmsg)) \<Rightarrow> bool \<Rightarrow> bool \<Rightarrow> connection \<Rightarrow>
    connection \<times> packet_action" where
  "parsePacket make_protocol hasProtocol failed c =
     (if failed then (c\<lparr>conn_closed := True\<rparr>, PacketClose)
      else if conn_closed c then (c, PacketNone)
      else
        let (checksummed, msg) = checkPacket (conn_msg c)
        in if \<not> receivedFirst c then
             let c = c\<lparr>receivedFirst := True\<rparr>
             in if \<not> hasProtocol then
                  (case make_protocol checksummed msg of (made, msg) \<Rightarrow>
                     if made then (c\<lparr>conn_msg := msg\<rparr>, FirstMessage msg)
                     else (c\<lparr>conn_msg := msg, conn_closed := True\<rparr>, PacketClose))
                else let msg = skipBytes 1 msg in (c\<lparr>conn_msg := msg\<rparr>, FirstMessage msg)
           else (c\<lparr>conn_msg := msg\<rparr>, Message msg))"


section \<open>From the sender's buffer to the receiver's\<close>

lemma bytes_at_same: "bytes_at b d n = bytes_at b' d' n \<longleftrightarrow> same_bytes n b d b' d'"
  by (auto simp: bytes_at_def same_bytes_def)

lemma bytes_at_part:
  "bytes_at b d n = bytes_at b' d' n \<Longrightarrow> i + k \<le> n \<Longrightarrow> bytes_at b (d + i) k = bytes_at b' (d' + i) k"
  by (auto simp: bytes_at_same same_bytes_def add.assoc)

lemma and_7_mod: "(x :: int) AND 7 = x mod 8"
  using take_bit_eq_mask [of 3 x] by (simp add: take_bit_eq_mod mask_eq_exp_minus_1)

text \<open>The padding that makes a length a multiple of eight.\<close>

definition padding :: "nat \<Rightarrow> nat" where
  "padding n = (if n mod 8 = 0 then 0 else 8 - n mod 8)"

lemma padded_dvd: "8 dvd n + padding n"
  by (auto simp: padding_def mod_eq_0_iff_dvd) presburger

lemma padding_less: "padding n < 8"
  by (auto simp: padding_def)

lemma padded_le: "n \<le> 8 * k \<Longrightarrow> n + padding n \<le> 8 * k"
proof -
  assume "n \<le> 8 * k"
  obtain j where j: "n + padding n = 8 * j" using padded_dvd [of n] by (rule dvdE)
  then have "8 * j < 8 * Suc k" using \<open>n \<le> 8 * k\<close> padding_less [of n] by simp
  then have "8 * j \<le> 8 * k" by simp
  then show ?thesis by (simp add: j)
qed

text \<open>An outgoing message whose body is the byte list \<open>bs\<close>.\<close>

definition out_body :: "u8 list \<Rightarrow> outmsg \<Rightarrow> bool" where
  "out_body bs m \<longleftrightarrow> out_start m = 8 \<and> unat (msg_length m) = length bs \<and>
     unat (msg_position m) = 8 + length bs \<and> bytes_at (msg_buffer m) 8 (length bs) = bs"

text \<open>The packet that goes out: where it starts and what it holds.\<close>

lemma XTEA_encrypt_layout:
  fixes k :: "u32 list"
  assumes "out_body bs m" "length bs \<le> 65470"
  defines "m' \<equiv> XTEA_encrypt k (writeMessageLength m)"
  shows "\<exists>b. out_start m' = 6 \<and>
    unat (msg_length m') = length bs + 2 + padding (length bs + 2) \<and>
    msg_buffer m' = xtea_encrypt k 6 (unat (msg_length m')) b \<and>
    bytes_at b 6 2 = le_bytes 2 (msg_length m) \<and> bytes_at b 8 (length bs) = bs"
proof -
  let ?L = "length bs" and ?p = "padding (length bs + 2)"
  let ?m1 = "writeMessageLength m"
  have L: "unat (msg_length m + 2) = ?L + 2"
    using assms u16_add_nat [of "msg_length m" 2] by (simp add: out_body_def)
  have m1: "out_start ?m1 = 6" "msg_length ?m1 = msg_length m + 2" "msg_position ?m1 = msg_position m"
      "msg_buffer ?m1 = put_bytes 6 (le_bytes 2 (msg_length m)) (msg_buffer m)"
    using assms(1) by (simp_all add: writeMessageLength_def add_header_def out_body_def Let_def)
  have b1: "bytes_at (msg_buffer ?m1) 6 2 = le_bytes 2 (msg_length m)"
    using bytes_at_put [of 6 "le_bytes 2 (msg_length m)"] m1(4) by simp
  have b2: "bytes_at (msg_buffer ?m1) 8 ?L = bs"
    using assms(1) m1(4) bytes_at_cong [of 8 ?L "msg_buffer ?m1" "msg_buffer m"] by (simp add: out_body_def)
  define m2 where "m2 = (if unat (msg_length ?m1) mod 8 \<noteq> 0 then addPaddingBytes (8 - unat (msg_length ?m1) mod 8) ?m1 else ?m1)"
  have pad: "?L + 2 + ?p \<le> 65472"
    using assms(2) padded_le [of "?L + 2" 8184] by simp
  have "m2 = (if ?p \<noteq> 0 then addPaddingBytes ?p ?m1 else ?m1)"
    by (auto simp: m2_def m1 L padding_def)
  moreover have "canAdd ?p ?m1"
    using assms(1) pad by (simp add: canAdd_def m1 out_body_def msg_consts)
  ultimately have m2: "out_start m2 = 6" "msg_length m2 = msg_length m + 2 + of_nat ?p"
      "msg_buffer m2 = put_bytes (8 + ?L) (replicate ?p 0x33) (msg_buffer ?m1)"
    using assms(1) by (auto simp: addPaddingBytes_def m1 out_body_def)
  have len: "unat (msg_length m2) = ?L + 2 + ?p"
    using m2(2) u16_add_nat [of "msg_length m + 2" ?p] pad L by simp
  have "m' = m2\<lparr>msg_buffer := xtea_encrypt k 6 (unat (msg_length m2)) (msg_buffer m2)\<rparr>"
    unfolding m'_def XTEA_encrypt_def Let_def m2_def [symmetric] by (simp add: m2)
  moreover have "bytes_at (msg_buffer m2) 6 2 = le_bytes 2 (msg_length m)"
    using b1 bytes_at_cong [of 6 2 "msg_buffer m2" "msg_buffer ?m1"] m2(3) by simp
  moreover have "bytes_at (msg_buffer m2) 8 ?L = bs"
    using b2 bytes_at_cong [of 8 ?L "msg_buffer m2" "msg_buffer ?m1"] m2(3) by simp
  ultimately show ?thesis using m2(1) len by auto
qed


lemma packet_layout:
  fixes k :: "u32 list"
  assumes "out_body bs m" "length bs \<le> 65470" "encryptionEnabled p" "checksumEnabled p" "\<not> rawMessages p"
  defines "n \<equiv> length bs + 2 + padding (length bs + 2)"
  shows "\<exists>b. out_start (onSendMessage p m) = 0 \<and> unat (msg_length (onSendMessage p m)) = n + 6 \<and>
    bytes_at (msg_buffer (onSendMessage p m)) 0 2 = le_bytes 2 (of_nat (n + 4) :: u16) \<and>
    bytes_at (msg_buffer (onSendMessage p m)) 2 4
      = le_bytes 4 (adlerChecksum (bytes_at (msg_buffer (onSendMessage p m)) 6 n)) \<and>
    bytes_at (msg_buffer (onSendMessage p m)) 6 n = bytes_at (xtea_encrypt (proto_key p) 6 n b) 6 n \<and>
    bytes_at b 6 2 = le_bytes 2 (msg_length m) \<and> bytes_at b 8 (length bs) = bs"
proof -
  define m2 where "m2 = XTEA_encrypt (proto_key p) (writeMessageLength m)"
  obtain b where m2: "out_start m2 = 6" "unat (msg_length m2) = n"
      "msg_buffer m2 = xtea_encrypt (proto_key p) 6 n b"
      "bytes_at b 6 2 = le_bytes 2 (msg_length m)" "bytes_at b 8 (length bs) = bs"
    using XTEA_encrypt_layout [OF assms(1,2), of "proto_key p"] unfolding m2_def n_def by auto
  have n: "n \<le> 65472" using padded_le [of "length bs + 2" 8184] assms(2) by (simp add: n_def)
  let ?c = "adlerChecksum (bytes_at (msg_buffer m2) 6 n)"
  let ?b3 = "put_bytes 2 (le_bytes 4 ?c) (msg_buffer m2)"
  let ?b4 = "put_bytes 0 (le_bytes 2 (msg_length m2 + 4)) ?b3"
  have send: "onSendMessage p m = addCryptoHeader True m2"
    using assms(3-5) by (simp add: onSendMessage_def m2_def Let_def)
  have out: "out_start (onSendMessage p m) = 0" "msg_length (onSendMessage p m) = msg_length m2 + 6"
      "msg_buffer (onSendMessage p m) = ?b4"
    by (simp_all add: send addCryptoHeader_def add_header_def writeMessageLength_def m2 Let_def)
  have len4: "msg_length m2 + 4 = of_nat (n + 4)" by (simp flip: m2(2))
  have "unat (msg_length m2 + 6) = n + 6"
    using u16_add_nat [of "msg_length m2" 6] n m2(2) by simp
  moreover have "bytes_at ?b4 6 n = bytes_at (msg_buffer m2) 6 n"
    by (rule bytes_at_cong) simp
  moreover have "bytes_at ?b4 2 4 = le_bytes 4 ?c"
    using bytes_at_put [of 2 "le_bytes 4 ?c" "msg_buffer m2"] bytes_at_cong [of 2 4 ?b4 ?b3] by simp
  moreover have "bytes_at ?b4 0 2 = le_bytes 2 (of_nat (n + 4) :: u16)"
    using bytes_at_put [of 0 "le_bytes 2 (msg_length m2 + 4)" ?b3] len4 by simp
  ultimately show ?thesis using out m2 by auto
qed


lemma parseHeader_ok:
  assumes "\<not> conn_closed c"
    and rate: "(packetsSent c + 1) div (max 1 (word_of_int (now - timeConnected c + 1))) \<le> maxPackets"
    and head: "getLengthHeader (conn_msg c) = sz" and sz: "0 < unat sz" "unat sz < 65484"
  shows "\<exists>c1. parseHeader False now maxPackets c = (c1, ReadBody (unat sz)) \<and>
    conn_msg c1 = (conn_msg c)\<lparr>msg_length := sz + 2, msg_position := 2\<rparr> \<and>
    \<not> conn_closed c1 \<and> receivedFirst c1 = receivedFirst c"
proof -
  define timePassed :: u32 where "timePassed = max 1 (word_of_int (now - timeConnected c + 1))"
  have "\<not> (packetsSent c + 1) div timePassed > maxPackets"
    using rate by (simp add: timePassed_def)
  moreover have "\<not> (sz = 0 \<or> int (unat sz) \<ge> int NETWORKMESSAGE_MAXSIZE - 16)"
  proof
    assume "sz = 0 \<or> int (unat sz) \<ge> int NETWORKMESSAGE_MAXSIZE - 16"
    then have "unat sz = 0 \<or> int (unat sz) \<ge> 65484" by (auto simp: msg_consts)
    then show False using sz by (simp del: of_nat_unat)
  qed
  ultimately show ?thesis
    using assms(1) head unfolding parseHeader_def timePassed_def [symmetric]
    by (simp add: Let_def)
qed

lemma getLengthHeader_of_le: "getLengthHeader m = of_le (bytes_at (msg_buffer m) 0 2)"
  by (simp add: getLengthHeader_def bytes_at_def upt_rec)

lemma checkPacket_ok:
  assumes "msg_position m = 2" "unat (msg_length m) = n + 6" "0 < n" "n \<le> 65472"
    and "bytes_at (msg_buffer m) 2 4 = le_bytes 4 (adlerChecksum (bytes_at (msg_buffer m) 6 n))"
  shows "checkPacket m = (True, m\<lparr>msg_position := 6\<rparr>)"
proof -
  have len: "uint (msg_length m) = int n + 6" using assms(2) by (simp add: uint_nat)
  have "upcoming (le_bytes 4 (adlerChecksum (bytes_at (msg_buffer m) 6 n))) m"
    using assms by (simp add: upcoming_def avail_def msg_consts)
  then have "msg_get m = (adlerChecksum (bytes_at (msg_buffer m) 6 n), consumed 4 m)"
    by (rule msg_get_upcoming) simp_all
  then show ?thesis
    using assms(1,3) len by (simp add: checkPacket_def consumed_def)
qed

lemma XTEA_decrypt_ok:
  assumes "msg_position m = 6" "unat (msg_length m) = n + 6" "8 dvd n" "n \<le> 65472" "even (length k)"
    and "bytes_at (msg_buffer m) 6 n = bytes_at (xtea_encrypt k 6 n b) 6 n"
    and "bytes_at b 6 2 = le_bytes 2 L" "unat L + 2 \<le> n" "bytes_at b 8 (unat L) = bs"
  shows "\<exists>m'. XTEA_decrypt k m = (True, m') \<and> msg_position m' = 8 \<and> msg_length m' = L \<and>
    msg_overrun m' = msg_overrun m \<and> bytes_at (msg_buffer m') 8 (unat L) = bs"
proof -
  have len: "uint (msg_length m) = int n + 6" using assms(2) by (simp add: uint_nat)
  define b' where "b' = xtea_decrypt k 6 n (msg_buffer m)"
  define m1 where "m1 = m\<lparr>msg_buffer := b'\<rparr>"
  have "same_bytes n (xtea_encrypt k 6 n b) 6 (msg_buffer m) 6"
    using assms(6) by (simp flip: bytes_at_same)
  from xtea.dec_received [OF _ assms(3) this] assms(5)
  have same: "bytes_at b' 6 n = bytes_at b 6 n" by (simp add: b'_def bytes_at_same same_bytes_def)
  have parts: "bytes_at b' 6 2 = le_bytes 2 L" "bytes_at b' 8 (unat L) = bs"
    using bytes_at_part [OF same, of 0 2] bytes_at_part [OF same, of 2 "unat L"] assms(7-9) by simp_all
  have "upcoming (le_bytes 2 L) m1"
    using parts(1) assms(1,2,4) by (simp add: upcoming_def avail_def m1_def msg_consts)
  then have "msg_get m1 = (L, consumed 2 m1)" by (rule msg_get_upcoming) simp_all
  moreover have "(uint (msg_length m) - 6) AND 7 = 0"
  proof -
    obtain j where "n = 8 * j" using assms(3) by (rule dvdE)
    then show ?thesis by (simp only: len add_diff_cancel_right' and_7_mod) simp
  qed
  moreover have "\<not> uint L + 8 > uint (msg_length (consumed 2 m1))"
  proof -
    have "unat L + 8 \<le> unat (msg_length m)" using assms(2,8) by simp
    then have "int (unat L + 8) \<le> int (unat (msg_length m))" by (simp only: of_nat_le_iff)
    then show ?thesis by (simp add: m1_def frame_simps)
  qed
  ultimately have "XTEA_decrypt k m = (True, (consumed 2 m1)\<lparr>msg_length := L\<rparr>)"
    using assms(1) by (simp add: XTEA_decrypt_def len m1_def b'_def)
  then show ?thesis using parts(2) assms(1) by (simp add: m1_def consumed_def)
qed

text \<open>
  C7: a message sent through an encrypted, checksummed protocol object arrives.  If the first
  bytes of a connection's buffer are the packet the sender produced and the packet rate
  allows it, the receive path reads the right number of bytes, accepts the checksum,
  decrypts with the same key and gives \<open>parsePacket\<close> a message that starts at the body and
  whose length is the body's.
\<close>

theorem transport_roundtrip:
  fixes p q :: protocol
  assumes body: "out_body bs m" "length bs \<le> 65470"
    and sender: "encryptionEnabled p" "checksumEnabled p" "\<not> rawMessages p" "proto_key p = expand_key k"
    and receiver: "encryptionEnabled q" "proto_key q = proto_key p"
    and conn: "\<not> conn_closed c" "receivedFirst c" "\<not> msg_overrun (conn_msg c)"
    and rate: "(packetsSent c + 1) div (max 1 (word_of_int (now - timeConnected c + 1))) \<le> maxPackets"
    and received: "bytes_at (msg_buffer (conn_msg c)) 0 (unat (msg_length (onSendMessage p m)))
      = bytes_at (msg_buffer (onSendMessage p m)) (unat (out_start (onSendMessage p m)))
          (unat (msg_length (onSendMessage p m)))"
  shows "\<exists>c1 c2 msg1 msg2.
    parseHeader False now maxPackets c = (c1, ReadBody (unat (msg_length (onSendMessage p m)) - 2)) \<and>
    parsePacket mk hp False c1 = (c2, Message msg1) \<and>
    onRecvMessage q msg1 = Some msg2 \<and>
    msg_position msg2 = 8 \<and> unat (msg_length msg2) = length bs \<and> \<not> msg_overrun msg2 \<and>
    bytes_at (msg_buffer msg2) 8 (length bs) = bs"
proof -
  define n where "n = length bs + 2 + padding (length bs + 2)"
  let ?out = "onSendMessage p m" and ?rb = "msg_buffer (conn_msg c)"
  obtain b where out: "out_start ?out = 0" "unat (msg_length ?out) = n + 6"
      "bytes_at (msg_buffer ?out) 0 2 = le_bytes 2 (of_nat (n + 4) :: u16)"
      "bytes_at (msg_buffer ?out) 2 4 = le_bytes 4 (adlerChecksum (bytes_at (msg_buffer ?out) 6 n))"
      "bytes_at (msg_buffer ?out) 6 n = bytes_at (xtea_encrypt (proto_key p) 6 n b) 6 n"
      "bytes_at b 6 2 = le_bytes 2 (msg_length m)" "bytes_at b 8 (length bs) = bs"
    using packet_layout [OF body sender(1-3)] unfolding n_def by auto
  have n: "n \<le> 65472" "8 dvd n" "length bs + 2 \<le> n"
    using padded_le [of "length bs + 2" 8184] padded_dvd [of "length bs + 2"] body(2) by (auto simp: n_def)
  have recv: "bytes_at ?rb 0 (n + 6) = bytes_at (msg_buffer ?out) 0 (n + 6)"
    using received out(1,2) by simp
  have rb0: "bytes_at ?rb 0 2 = bytes_at (msg_buffer ?out) 0 2"
      and rb2: "bytes_at ?rb 2 4 = bytes_at (msg_buffer ?out) 2 4"
      and rb6: "bytes_at ?rb 6 n = bytes_at (msg_buffer ?out) 6 n"
    using bytes_at_part [OF recv, of 0 2, unfolded add_0] bytes_at_part [OF recv, of 2 4, unfolded add_0]
      bytes_at_part [OF recv, of 6 n, unfolded add_0] by auto
  have rb: "bytes_at ?rb 0 2 = le_bytes 2 (of_nat (n + 4) :: u16)"
      "bytes_at ?rb 2 4 = le_bytes 4 (adlerChecksum (bytes_at ?rb 6 n))"
      "bytes_at ?rb 6 n = bytes_at (xtea_encrypt (proto_key p) 6 n b) 6 n"
    unfolding rb0 rb2 rb6 by (fact out(3), fact out(4), fact out(5))
  define sz :: u16 where "sz = of_nat (n + 4)"
  have sz: "unat sz = n + 4" using n(1) u16_add_nat [of 0 "n + 4"] by (simp add: sz_def)
  then have sz2: "unat (sz + 2) = n + 6" using n(1) u16_add_nat [of sz 2] by simp
  have head: "getLengthHeader (conn_msg c) = sz"
    using rb(1) by (simp add: getLengthHeader_of_le of_le_le_bytes sz_def)
  define msg1 where "msg1 = (conn_msg c)\<lparr>msg_length := sz + 2, msg_position := 2\<rparr>"
  obtain c1 where c1: "parseHeader False now maxPackets c = (c1, ReadBody (n + 4))"
      "conn_msg c1 = msg1" "\<not> conn_closed c1" "receivedFirst c1"
    using parseHeader_ok [OF conn(1) rate head _ _] conn(2) sz n(1) by (auto simp: msg1_def)
  have "checkPacket msg1 = (True, msg1\<lparr>msg_position := 6\<rparr>)"
    by (rule checkPacket_ok [of _ n]) (use n rb sz sz2 in \<open>auto simp: msg1_def\<close>)
  then have c2: "parsePacket mk hp False c1 = (c1\<lparr>conn_msg := msg1\<lparr>msg_position := 6\<rparr>\<rparr>, Message (msg1\<lparr>msg_position := 6\<rparr>))"
    using c1 by (simp add: parsePacket_def)
  have "unat (msg_length m) = length bs" using body(1) by (simp add: out_body_def)
  then obtain msg2 where "XTEA_decrypt (proto_key q) (msg1\<lparr>msg_position := 6\<rparr>) = (True, msg2)"
      "msg_position msg2 = 8" "msg_length msg2 = msg_length m" "msg_overrun msg2 = msg_overrun msg1"
      "bytes_at (msg_buffer msg2) 8 (length bs) = bs"
    using XTEA_decrypt_ok [of "msg1\<lparr>msg_position := 6\<rparr>" n "proto_key q" b "msg_length m" bs]
      n rb sz2 out sender(4) receiver(2) by (auto simp: msg1_def)
  then show ?thesis
    using c1(1) c2 receiver(1) conn(3) out(2) \<open>unat (msg_length m) = length bs\<close>
    by (auto simp: onRecvMessage_def msg1_def)
qed


lemma transport_roundtrip_witness:
  "\<exists>m p q c c1 c2 msg1 msg2.
    m = out_append (msg_add (0x0201 :: u16) (msg_reset (\<lparr>msg_length = 0, msg_position = 0, msg_overrun = False, msg_buffer = \<lambda>_. 0\<rparr>))) (fresh_out (\<lambda>_. 0xFF)) \<and>
    encryptionEnabled p \<and> proto_key p = expand_key [1, 2, 3, 4] \<and>
    parseHeader False 1000 25 c = (c1, ReadBody (unat (msg_length (onSendMessage p m)) - 2)) \<and>
    parsePacket (\<lambda>_ msg. (True, msg)) True False c1 = (c2, Message msg1) \<and>
    onRecvMessage q msg1 = Some msg2 \<and> bytes_at (msg_buffer msg2) 8 2 = [1, 2]"
proof -
  let ?m = "out_append (msg_add (0x0201 :: u16) (msg_reset (\<lparr>msg_length = 0, msg_position = 0, msg_overrun = False, msg_buffer = \<lambda>_. 0\<rparr>))) (fresh_out (\<lambda>_. 0xFF))"
  let ?p = "\<lparr>outputBuffer = None, proto_key = expand_key [1, 2, 3, 4], encryptionEnabled = True,
     checksumEnabled = True, rawMessages = False, connected = True, sent = []\<rparr>"
  let ?sent = "onSendMessage ?p ?m"
  let ?c = "\<lparr>conn_closed = False, receivedFirst = True, packetsSent = 7, timeConnected = 999,
     conn_msg = \<lparr>msg_length = 0, msg_position = 0, msg_overrun = False,
       msg_buffer = \<lambda>i. msg_buffer ?sent (unat (out_start ?sent) + i)\<rparr>\<rparr>"
  have body: "out_body [1, 2] ?m"
    by (simp add: out_body_def out_append_def msg_add_def canAdd_def msg_reset_def msg_consts fresh_out_def
      sizeof_def bytes_at_def put_bytes_def le_bytes_numeral nth_append upt_rec)
  have "bytes_at (msg_buffer (conn_msg ?c)) 0 n = bytes_at (msg_buffer ?sent) (unat (out_start ?sent)) n" for n
    by (simp add: bytes_at_def)
  then have "\<exists>c1 c2 msg1 msg2.
      parseHeader False 1000 25 ?c = (c1, ReadBody (unat (msg_length ?sent) - 2)) \<and>
      parsePacket (\<lambda>_ msg. (True, msg)) True False c1 = (c2, Message msg1) \<and>
      onRecvMessage ?p msg1 = Some msg2 \<and> msg_position msg2 = 8 \<and>
      unat (msg_length msg2) = length [1 :: u8, 2] \<and> \<not> msg_overrun msg2 \<and>
      bytes_at (msg_buffer msg2) 8 (length [1 :: u8, 2]) = [1, 2]"
    by (intro transport_roundtrip [OF body, where k = "[1, 2, 3, 4]"]) simp_all
  then show ?thesis by (auto simp: numeral_2_eq_2 intro!: exI)
qed

section \<open>Large bodies\<close>

text \<open>
  C8: the padding of a body of 65471 to 65476 bytes is dropped.  \<open>getOutputBuffer\<close> lets a
  buffer grow to \<open>MAX_PROTOCOL_BODY_LENGTH\<close> = 65476 bytes, but for these lengths
  \<open>addPaddingBytes\<close> fails its own \<open>canAdd\<close> test, the packet is not a multiple of eight bytes
  long, and \<open>XTEA_decrypt\<close> of the other side refuses it.
\<close>

theorem unpadded_rejected:
  assumes body: "out_body bs m" "65470 < length bs" "length bs \<le> 65476"
    and sender: "encryptionEnabled p" "checksumEnabled p" "\<not> rawMessages p"
    and receiver: "encryptionEnabled q"
    and same_length: "msg_length msg = msg_length (onSendMessage p m)"
  shows "unat (msg_length (onSendMessage p m)) = length bs + 8 \<and> onRecvMessage q msg = None"
proof -
  let ?m1 = "writeMessageLength m"
  have m1: "msg_length ?m1 = msg_length m + 2" "msg_position ?m1 = msg_position m"
    by (simp_all add: writeMessageLength_def add_header_def Let_def)
  have "unat (msg_length m + 2) = length bs + 2"
    using body u16_add_nat [of "msg_length m" 2] by (simp add: out_body_def)
  moreover have "length bs \<in> {65471, 65472, 65473, 65474, 65475, 65476}" using body(2,3) by auto
  ultimately have "(if unat (msg_length ?m1) mod 8 \<noteq> 0 then addPaddingBytes (8 - unat (msg_length ?m1) mod 8) ?m1 else ?m1) = ?m1" 
    using body(1) by (auto simp: m1 addPaddingBytes_def canAdd_def out_body_def msg_consts)
  then have "msg_length (XTEA_encrypt (proto_key p) ?m1) = msg_length ?m1"
    unfolding XTEA_encrypt_def Let_def by (simp only:) simp
  then have "msg_length (XTEA_encrypt (proto_key p) ?m1) = msg_length m + 2" by (simp add: m1)
  then have "msg_length (onSendMessage p m) = msg_length m + 8"
    using sender by (simp add: onSendMessage_def addCryptoHeader_def writeMessageLength_def add_header_def Let_def)
  then have len: "unat (msg_length (onSendMessage p m)) = length bs + 8"
    using body u16_add_nat [of "msg_length m" 8] by (simp add: out_body_def)
  then have "uint (msg_length msg) = int (length bs) + 8"
    using same_length by (metis of_nat_unat of_nat_add of_nat_numeral)
  then have "(uint (msg_length msg) - 6) AND 7 \<noteq> 0"
    using \<open>length bs \<in> _\<close> unfolding and_7_mod by auto
  then show ?thesis using len receiver by (simp add: onRecvMessage_def XTEA_decrypt_def)
qed

lemma unpadded_rejected_witness:
  "\<exists>(m :: outmsg) p. out_body (replicate 65472 7) m \<and> unat (msg_length (onSendMessage p m)) = 65480 \<and>
    onRecvMessage p (netmsg.truncate (onSendMessage p m)) = None"
proof -
  let ?m = "(fresh_out (\<lambda>_. 7))\<lparr>msg_length := 65472, msg_position := 65480\<rparr>"
  let ?p = "\<lparr>outputBuffer = None, proto_key = expand_key [1, 2, 3, 4], encryptionEnabled = True,
     checksumEnabled = True, rawMessages = False, connected = True, sent = []\<rparr>"
  have body: "out_body (replicate 65472 7) ?m"
    by (simp add: out_body_def fresh_out_def msg_consts bytes_at_def map_replicate_const)
  have "unat (msg_length (onSendMessage ?p ?m)) = length (replicate 65472 (7 :: u8)) + 8 \<and>
      onRecvMessage ?p (netmsg.truncate (onSendMessage ?p ?m)) = None"
    by (rule unpadded_rejected [OF body]) (simp_all add: netmsg.truncate_def)
  then show ?thesis using body by (intro exI [of _ ?m] exI [of _ ?p]) simp
qed

section \<open>The buffered output of a protocol object\<close>

text \<open>The bytes of a message's body, and everything a protocol object has been told to send.\<close>

definition body_of :: "'a netmsg_scheme \<Rightarrow> u8 list" where
  "body_of m = bytes_at (msg_buffer m) 8 (unat (msg_length m))"

definition stream :: "protocol \<Rightarrow> u8 list" where
  "stream p = concat (map body_of (sent p)) @ (case outputBuffer p of None \<Rightarrow> [] | Some m \<Rightarrow> body_of m)"

definition buffered_ok :: "protocol \<Rightarrow> bool" where
  "buffered_ok p \<longleftrightarrow> (case outputBuffer p of None \<Rightarrow> True | Some m \<Rightarrow>
     unat (msg_position m) = 8 + unat (msg_length m) \<and> unat (msg_position m) \<le> NETWORKMESSAGE_MAXSIZE)"

lemma body_of_append:
  assumes "unat (msg_position out) = 8 + unat (msg_length out)"
    and "unat (msg_position out) + unat (msg_length msg) \<le> NETWORKMESSAGE_MAXSIZE"
  shows "body_of (out_append msg out) = body_of out @ body_of msg"
    and "unat (msg_length (out_append msg out)) = unat (msg_length out) + unat (msg_length msg)"
    and "unat (msg_position (out_append msg out)) = unat (msg_position out) + unat (msg_length msg)"
proof -
  let ?d = "bytes_at (msg_buffer msg) 8 (unat (msg_length msg))"
  show len: "unat (msg_length (out_append msg out)) = unat (msg_length out) + unat (msg_length msg)"
    and "unat (msg_position (out_append msg out)) = unat (msg_position out) + unat (msg_length msg)"
    using assms u16_add_nat [of "msg_length out" "unat (msg_length msg)"]
      u16_add_nat [of "msg_position out" "unat (msg_length msg)"]
    by (simp_all add: out_append_def Let_def msg_consts)
  have "bytes_at (put_bytes (unat (msg_position out)) ?d (msg_buffer out)) 8 (unat (msg_length out)) = body_of out"
    unfolding body_of_def by (rule bytes_at_cong) (simp add: assms(1))
  moreover have "bytes_at (put_bytes (unat (msg_position out)) ?d (msg_buffer out)) (8 + unat (msg_length out)) (unat (msg_length msg)) = ?d"
    using bytes_at_put [of "unat (msg_position out)" ?d "msg_buffer out"] assms(1) by simp
  ultimately show "body_of (out_append msg out) = body_of out @ body_of msg"
    using len by (simp add: body_of_def [of "out_append msg out"] bytes_at_add) (simp add: out_append_def Let_def body_of_def)
qed

text \<open>
  C9: buffered output loses, duplicates and reorders nothing and never writes past the end
  of the buffer.  Whether the buffer has room, is flushed first or does not exist yet,
  \<open>writeToOutputBuffer\<close> appends exactly the body of the message to everything the protocol
  object has been told to send, and the copy ends within the 65500 bytes of the buffer.
\<close>

theorem writeToOutputBuffer_stream:
  assumes "buffered_ok p" "connected p" "unat (msg_length msg) \<le> NETWORKMESSAGE_MAXSIZE - 24"
  shows "stream (writeToOutputBuffer b msg p) = stream p @ body_of msg \<and>
    buffered_ok (writeToOutputBuffer b msg p)"
proof -
  have fresh: "unat (msg_position (fresh_out b)) = 8 + unat (msg_length (fresh_out b))"
      "unat (msg_position (fresh_out b)) + unat (msg_length msg) \<le> NETWORKMESSAGE_MAXSIZE"
      "body_of (fresh_out b) = []"
    using assms(3) by (simp_all add: fresh_out_def msg_consts body_of_def bytes_at_def)
  show ?thesis
  proof (cases "outputBuffer p")
    case None
    then show ?thesis using body_of_append [OF fresh(1,2)] fresh
      by (simp add: writeToOutputBuffer_def getOutputBuffer_def stream_def buffered_ok_def)
  next
    case (Some out)
    show ?thesis
    proof (cases "uint (msg_length out) + uint (msg_length msg) > int MAX_PROTOCOL_BODY_LENGTH")
      case True
      then show ?thesis using body_of_append [OF fresh(1,2)] fresh Some assms(2)
        by (simp add: writeToOutputBuffer_def getOutputBuffer_def stream_def buffered_ok_def proto_send_def)
    next
      case False
      then have "int (unat (msg_length out) + unat (msg_length msg)) \<le> int MAX_PROTOCOL_BODY_LENGTH" by simp
      then have small: "unat (msg_length out) + unat (msg_length msg) \<le> MAX_PROTOCOL_BODY_LENGTH"
        by (simp only: of_nat_le_iff)
      have pos: "unat (msg_position out) = 8 + unat (msg_length out)"
        using assms(1) Some by (simp add: buffered_ok_def)
      have "unat (msg_position out) + unat (msg_length msg) \<le> NETWORKMESSAGE_MAXSIZE"
        using small pos by (simp add: msg_consts)
      from body_of_append [OF pos this] this show ?thesis using False Some pos
        by (simp add: writeToOutputBuffer_def getOutputBuffer_def stream_def buffered_ok_def)
    qed
  qed
qed

lemma writeToOutputBuffer_stream_witness:
  "\<exists>p msg :: netmsg. stream p = [9] \<and> body_of msg = [4, 5] \<and>
    stream (writeToOutputBuffer (\<lambda>_. 0) msg p) = [9, 4, 5]"
proof -
  let ?msg = "\<lparr>msg_length = 2, msg_position = 10, msg_overrun = False, msg_buffer = (\<lambda>_. 0)(8 := 4, 9 := 5)\<rparr> :: netmsg"
  let ?p = "\<lparr>outputBuffer = Some ((fresh_out (\<lambda>_. 9))\<lparr>msg_length := 1, msg_position := 9\<rparr>), proto_key = [], encryptionEnabled = False,
     checksumEnabled = False, rawMessages = False, connected = True, sent = []\<rparr>"
  have eval: "stream ?p = [9]" "body_of ?msg = [4, 5]"
    by (simp_all add: stream_def body_of_def bytes_at_def fresh_out_def upt_rec)
  have "stream (writeToOutputBuffer (\<lambda>_. 0) ?msg ?p) = stream ?p @ body_of ?msg \<and>
      buffered_ok (writeToOutputBuffer (\<lambda>_. 0) ?msg ?p)"
    by (rule writeToOutputBuffer_stream) (simp_all add: buffered_ok_def msg_consts fresh_out_def)
  then show ?thesis using eval by (intro exI [of _ ?p] exI [of _ ?msg]) simp
qed

section \<open>Automatic sending\<close>

text \<open>\<open>sendAll\<close>: every protocol object with a buffer sends it.\<close>

definition sendAll :: "protocol list \<Rightarrow> protocol list" where
  "sendAll ps = map (\<lambda>p. case outputBuffer p of None \<Rightarrow> p
     | Some m \<Rightarrow> (proto_send m p)\<lparr>outputBuffer := None\<rparr>) ps"

lemma sendAll_stream: "\<forall>p\<in>set ps. connected p \<Longrightarrow> map stream (sendAll ps) = map stream ps"
  by (auto simp: sendAll_def stream_def proto_send_def split: option.splits)

lemma sendAll_flushed: "p \<in> set (sendAll ps) \<Longrightarrow> outputBuffer p = None"
  by (auto simp: sendAll_def proto_send_def split: option.splits)

end
