(* ===== verification/ReturnValues.thy ===== *)
theory ReturnValues
  imports Main
begin

text \<open>
  The error values of the server's operations (\<open>enums.h\<close>, \<open>enum ReturnValue\<close>) and the text the
  player is shown for each of them (\<open>getReturnMessage\<close> of \<open>tools.cpp\<close>).
\<close>

datatype (plugins only:) returnvalue =
    RETURNVALUE_NOERROR | RETURNVALUE_NOTPOSSIBLE | RETURNVALUE_NOTENOUGHROOM
    | RETURNVALUE_PLAYERISPZLOCKED | RETURNVALUE_PLAYERISNOTINVITED | RETURNVALUE_CANNOTTHROW
    | RETURNVALUE_THEREISNOWAY | RETURNVALUE_DESTINATIONOUTOFREACH | RETURNVALUE_CREATUREBLOCK
    | RETURNVALUE_NOTMOVEABLE | RETURNVALUE_DROPTWOHANDEDITEM
    | RETURNVALUE_BOTHHANDSNEEDTOBEFREE | RETURNVALUE_CANONLYUSEONEWEAPON
    | RETURNVALUE_NEEDEXCHANGE | RETURNVALUE_CANNOTBEDRESSED
    | RETURNVALUE_PUTTHISOBJECTINYOURHAND | RETURNVALUE_PUTTHISOBJECTINBOTHHANDS
    | RETURNVALUE_TOOFARAWAY | RETURNVALUE_FIRSTGODOWNSTAIRS | RETURNVALUE_FIRSTGOUPSTAIRS
    | RETURNVALUE_CONTAINERNOTENOUGHROOM | RETURNVALUE_NOTENOUGHCAPACITY
    | RETURNVALUE_CANNOTPICKUP | RETURNVALUE_THISISIMPOSSIBLE | RETURNVALUE_DEPOTISFULL
    | RETURNVALUE_SUPPLYSTASHISFULL | RETURNVALUE_CREATUREDOESNOTEXIST
    | RETURNVALUE_CANNOTUSETHISOBJECT | RETURNVALUE_PLAYERWITHTHISNAMEISNOTONLINE
    | RETURNVALUE_NOTREQUIREDLEVELTOUSERUNE | RETURNVALUE_YOUAREALREADYTRADING
    | RETURNVALUE_THISPLAYERISALREADYTRADING | RETURNVALUE_YOUMAYNOTLOGOUTDURINGAFIGHT
    | RETURNVALUE_DIRECTPLAYERSHOOT | RETURNVALUE_NOTENOUGHLEVEL
    | RETURNVALUE_NOTENOUGHMAGICLEVEL | RETURNVALUE_NOTENOUGHMANA | RETURNVALUE_NOTENOUGHSOUL
    | RETURNVALUE_YOUAREEXHAUSTED | RETURNVALUE_YOUCANNOTUSEOBJECTSTHATFAST
    | RETURNVALUE_PLAYERISNOTREACHABLE | RETURNVALUE_CANONLYUSETHISRUNEONCREATURES
    | RETURNVALUE_ACTIONNOTPERMITTEDINPROTECTIONZONE | RETURNVALUE_YOUMAYNOTATTACKTHISPLAYER
    | RETURNVALUE_YOUMAYNOTATTACKAPERSONINPROTECTIONZONE
    | RETURNVALUE_YOUMAYNOTATTACKAPERSONWHILEINPROTECTIONZONE
    | RETURNVALUE_YOUMAYNOTATTACKTHISCREATURE | RETURNVALUE_YOUCANONLYUSEITONCREATURES
    | RETURNVALUE_CREATUREISNOTREACHABLE | RETURNVALUE_TURNSECUREMODETOATTACKUNMARKEDPLAYERS
    | RETURNVALUE_YOUNEEDPREMIUMACCOUNT | RETURNVALUE_YOUNEEDTOLEARNTHISSPELL
    | RETURNVALUE_YOURVOCATIONCANNOTUSETHISSPELL | RETURNVALUE_YOUNEEDAWEAPONTOUSETHISSPELL
    | RETURNVALUE_PLAYERISPZLOCKEDLEAVEPVPZONE | RETURNVALUE_PLAYERISPZLOCKEDENTERPVPZONE
    | RETURNVALUE_ACTIONNOTPERMITTEDINANOPVPZONE | RETURNVALUE_YOUCANNOTLOGOUTHERE
    | RETURNVALUE_YOUNEEDAMAGICITEMTOCASTSPELL | RETURNVALUE_CANNOTCONJUREITEMHERE
    | RETURNVALUE_YOUNEEDTOSPLITYOURSPEARS | RETURNVALUE_NAMEISTOOAMBIGUOUS
    | RETURNVALUE_CANONLYUSEONESHIELD | RETURNVALUE_NOPARTYMEMBERSINRANGE
    | RETURNVALUE_YOUCANTOPENCORPSEADM | RETURNVALUE_YOUARENOTTHEOWNER
    | RETURNVALUE_TRADEPLAYERFARAWAY | RETURNVALUE_YOUDONTOWNTHISHOUSE
    | RETURNVALUE_TRADEPLAYERALREADYOWNSAHOUSE | RETURNVALUE_TRADEPLAYERHIGHESTBIDDER
    | RETURNVALUE_YOUCANNOTTRADETHISHOUSE | RETURNVALUE_YOUDONTHAVEREQUIREDPROFESSION
    | RETURNVALUE_ITEMCANNOTBEMOVEDTHERE | RETURNVALUE_YOUCANNOTUSETHISBED
    | RETURNVALUE_QUIVERAMMOONLY | RETURNVALUE_REWARDCHESTISEMPTY

definition apostrophe :: char where
  "apostrophe = char_of (39 :: nat)"

definition getReturnMessage :: "returnvalue \<Rightarrow> string" where
  "getReturnMessage v = (case v of
       RETURNVALUE_REWARDCHESTISEMPTY \<Rightarrow> ''The chest is currently empty. You did not take part in any battles in the last seven days or already claimed your reward.''
     | RETURNVALUE_DESTINATIONOUTOFREACH \<Rightarrow> ''Destination is out of range.''
     | RETURNVALUE_NOTMOVEABLE \<Rightarrow> ''You cannot move this object.''
     | RETURNVALUE_DROPTWOHANDEDITEM \<Rightarrow> ''Drop the double-handed object first.''
     | RETURNVALUE_BOTHHANDSNEEDTOBEFREE \<Rightarrow> ''Both hands need to be free.''
     | RETURNVALUE_CANNOTBEDRESSED \<Rightarrow> ''You cannot dress this object there.''
     | RETURNVALUE_PUTTHISOBJECTINYOURHAND \<Rightarrow> ''Put this object in your hand.''
     | RETURNVALUE_PUTTHISOBJECTINBOTHHANDS \<Rightarrow> ''Put this object in both hands.''
     | RETURNVALUE_CANONLYUSEONEWEAPON \<Rightarrow> ''You may only use one weapon.''
     | RETURNVALUE_TOOFARAWAY \<Rightarrow> ''You are too far away.''
     | RETURNVALUE_FIRSTGODOWNSTAIRS \<Rightarrow> ''First go downstairs.''
     | RETURNVALUE_FIRSTGOUPSTAIRS \<Rightarrow> ''First go upstairs.''
     | RETURNVALUE_NOTENOUGHCAPACITY \<Rightarrow> ''This object is too heavy for you to carry.''
     | RETURNVALUE_CONTAINERNOTENOUGHROOM \<Rightarrow> ''You cannot put more objects in this container.''
     | RETURNVALUE_NEEDEXCHANGE \<Rightarrow> ''There is not enough room.''
     | RETURNVALUE_NOTENOUGHROOM \<Rightarrow> ''There is not enough room.''
     | RETURNVALUE_CANNOTPICKUP \<Rightarrow> ''You cannot take this object.''
     | RETURNVALUE_CANNOTTHROW \<Rightarrow> ''You cannot throw there.''
     | RETURNVALUE_THEREISNOWAY \<Rightarrow> ''There is no way.''
     | RETURNVALUE_THISISIMPOSSIBLE \<Rightarrow> ''This is impossible.''
     | RETURNVALUE_PLAYERISPZLOCKED \<Rightarrow> ''You can not enter a protection zone after attacking another player.''
     | RETURNVALUE_PLAYERISNOTINVITED \<Rightarrow> ''You are not invited.''
     | RETURNVALUE_CREATUREDOESNOTEXIST \<Rightarrow> ''Creature does not exist.''
     | RETURNVALUE_DEPOTISFULL \<Rightarrow> ''You cannot put more items in this depot.''
     | RETURNVALUE_SUPPLYSTASHISFULL \<Rightarrow> ''You cannot put more items in the Supply Stash.''
     | RETURNVALUE_CANNOTUSETHISOBJECT \<Rightarrow> ''You cannot use this object.''
     | RETURNVALUE_PLAYERWITHTHISNAMEISNOTONLINE \<Rightarrow> ''A player with this name is not online.''
     | RETURNVALUE_NOTREQUIREDLEVELTOUSERUNE \<Rightarrow> ''You do not have the required magic level to use this rune.''
     | RETURNVALUE_YOUAREALREADYTRADING \<Rightarrow> ''You are already trading. Finish this trade first.''
     | RETURNVALUE_THISPLAYERISALREADYTRADING \<Rightarrow> ''This player is already trading.''
     | RETURNVALUE_YOUMAYNOTLOGOUTDURINGAFIGHT \<Rightarrow> ''You may not logout during or immediately after a fight!''
     | RETURNVALUE_DIRECTPLAYERSHOOT \<Rightarrow> ''You are not allowed to shoot directly on players.''
     | RETURNVALUE_NOTENOUGHLEVEL \<Rightarrow> ''Your level is too low.''
     | RETURNVALUE_NOTENOUGHMAGICLEVEL \<Rightarrow> ''You do not have enough magic level.''
     | RETURNVALUE_NOTENOUGHMANA \<Rightarrow> ''You do not have enough mana.''
     | RETURNVALUE_NOTENOUGHSOUL \<Rightarrow> ''You do not have enough soul.''
     | RETURNVALUE_YOUAREEXHAUSTED \<Rightarrow> ''You are exhausted.''
     | RETURNVALUE_YOUCANNOTUSEOBJECTSTHATFAST \<Rightarrow> ''You cannot use objects that fast.''
     | RETURNVALUE_CANONLYUSETHISRUNEONCREATURES \<Rightarrow> ''You can only use it on creatures.''
     | RETURNVALUE_PLAYERISNOTREACHABLE \<Rightarrow> ''Player is not reachable.''
     | RETURNVALUE_CREATUREISNOTREACHABLE \<Rightarrow> ''Creature is not reachable.''
     | RETURNVALUE_ACTIONNOTPERMITTEDINPROTECTIONZONE \<Rightarrow> ''This action is not permitted in a protection zone.''
     | RETURNVALUE_YOUMAYNOTATTACKTHISPLAYER \<Rightarrow> ''You may not attack this person.''
     | RETURNVALUE_YOUMAYNOTATTACKTHISCREATURE \<Rightarrow> ''You may not attack this creature.''
     | RETURNVALUE_YOUMAYNOTATTACKAPERSONINPROTECTIONZONE \<Rightarrow> ''You may not attack a person in a protection zone.''
     | RETURNVALUE_YOUMAYNOTATTACKAPERSONWHILEINPROTECTIONZONE \<Rightarrow> ''You may not attack a person while you are in a protection zone.''
     | RETURNVALUE_YOUCANONLYUSEITONCREATURES \<Rightarrow> ''You can only use it on creatures.''
     | RETURNVALUE_TURNSECUREMODETOATTACKUNMARKEDPLAYERS \<Rightarrow> ''Turn secure mode off if you really want to attack unmarked players.''
     | RETURNVALUE_YOUNEEDPREMIUMACCOUNT \<Rightarrow> ''You need a premium account.''
     | RETURNVALUE_YOUNEEDTOLEARNTHISSPELL \<Rightarrow> ''You must learn this spell first.''
     | RETURNVALUE_YOURVOCATIONCANNOTUSETHISSPELL \<Rightarrow> ''You have the wrong vocation to cast this spell.''
     | RETURNVALUE_YOUNEEDAWEAPONTOUSETHISSPELL \<Rightarrow> ''You need to equip a weapon to use this spell.''
     | RETURNVALUE_PLAYERISPZLOCKEDLEAVEPVPZONE \<Rightarrow> ''You can not leave a pvp zone after attacking another player.''
     | RETURNVALUE_PLAYERISPZLOCKEDENTERPVPZONE \<Rightarrow> ''You can not enter a pvp zone after attacking another player.''
     | RETURNVALUE_ACTIONNOTPERMITTEDINANOPVPZONE \<Rightarrow> ''This action is not permitted in a non pvp zone.''
     | RETURNVALUE_YOUCANNOTLOGOUTHERE \<Rightarrow> ''You can not logout here.''
     | RETURNVALUE_YOUNEEDAMAGICITEMTOCASTSPELL \<Rightarrow> ''You need a magic item to cast this spell.''
     | RETURNVALUE_CANNOTCONJUREITEMHERE \<Rightarrow> ''You cannot conjure items here.''
     | RETURNVALUE_YOUNEEDTOSPLITYOURSPEARS \<Rightarrow> ''You need to split your spears first.''
     | RETURNVALUE_NAMEISTOOAMBIGUOUS \<Rightarrow> ''Player name is ambiguous.''
     | RETURNVALUE_CANONLYUSEONESHIELD \<Rightarrow> ''You may use only one shield.''
     | RETURNVALUE_NOPARTYMEMBERSINRANGE \<Rightarrow> ''No party members in range.''
     | RETURNVALUE_YOUCANTOPENCORPSEADM \<Rightarrow> ''You can'' @ apostrophe # ''t open this corpse, because you are an Admin.''
     | RETURNVALUE_YOUARENOTTHEOWNER \<Rightarrow> ''You are not the owner.''
     | RETURNVALUE_TRADEPLAYERFARAWAY \<Rightarrow> ''Trade player is too far away.''
     | RETURNVALUE_YOUDONTOWNTHISHOUSE \<Rightarrow> ''You don'' @ apostrophe # ''t own this house.''
     | RETURNVALUE_TRADEPLAYERALREADYOWNSAHOUSE \<Rightarrow> ''Trade player already owns a house.''
     | RETURNVALUE_TRADEPLAYERHIGHESTBIDDER \<Rightarrow> ''Trade player is currently the highest bidder of an auctioned house.''
     | RETURNVALUE_YOUCANNOTTRADETHISHOUSE \<Rightarrow> ''You can not trade this house.''
     | RETURNVALUE_YOUDONTHAVEREQUIREDPROFESSION \<Rightarrow> ''You don'' @ apostrophe # ''t have the required profession.''
     | RETURNVALUE_ITEMCANNOTBEMOVEDTHERE \<Rightarrow> ''This item cannot be moved there.''
     | RETURNVALUE_YOUCANNOTUSETHISBED \<Rightarrow> ''This bed can'' @ apostrophe # ''t be used, but Premium Account players can rent houses and sleep in beds there to regain health and mana.''
     | RETURNVALUE_QUIVERAMMOONLY \<Rightarrow> ''This quiver only holds arrows and bolts.'' @ CHR 0x0A # ''You cannot put any other items in it.''
     | _ \<Rightarrow> ''Sorry, not possible.'')"

end
