(* ===== verification/WildcardTree.thy ===== *)
theory WildcardTree
  imports Prelude ReturnValues "HOL-Library.AList" "HOL-Library.Sublist"
begin

text \<open>
  \<open>src/src/wildcardtree.cpp\<close>: the trie of the names of the players who are online, which
  completes a name the client typed with a final tilde.  The cursor of the C++ loops, a
  pointer into the tree, is the recursion of the definitions; the stack of \<open>remove\<close> is an
  explicit list of the nodes passed with the character taken from each.
\<close>

section \<open>The tree and its operations\<close>

datatype node = Node (breakpoint: bool) (children: "(char \<times> node) list")

definition getChild :: "char \<Rightarrow> node \<Rightarrow> node option" where
  "getChild ch n = map_of (children n) ch"

definition set_child :: "char \<Rightarrow> node \<Rightarrow> node \<Rightarrow> node" where
  "set_child ch c n = Node (breakpoint n) (AList.update ch c (children n))"

definition erase_child :: "char \<Rightarrow> node \<Rightarrow> node" where
  "erase_child ch n = Node (breakpoint n) (AList.delete ch (children n))"

text \<open>\<open>addChild\<close>: the child after the call; the caller's tree is \<open>set_child\<close> of it.\<close>

definition addChild :: "char \<Rightarrow> bool \<Rightarrow> node \<Rightarrow> node" where
  "addChild ch b n =
     (case getChild ch n of
        Some child \<Rightarrow> (if b \<and> \<not> breakpoint child then Node True (children child) else child)
      | None \<Rightarrow> Node b [])"

text \<open>\<open>insert\<close> indexes \<open>str[length - 1]\<close>; for the empty string that is outside of the string,
  and the model leaves it unspecified.\<close>

fun tree_insert :: "string \<Rightarrow> node \<Rightarrow> node" where
  "tree_insert [c] n = set_child c (addChild c True n) n"
| "tree_insert (c # d # s) n = set_child c (tree_insert (d # s) (addChild c False n)) n"

text \<open>The first loop of \<open>remove\<close>: the node reached and the nodes above it, the nearest first.\<close>

fun descend :: "string \<Rightarrow> node \<Rightarrow> (node \<times> char) list \<Rightarrow> (node \<times> (node \<times> char) list) option" where
  "descend [] cur path = Some (cur, path)"
| "descend (c # s) cur path =
     (case getChild c cur of None \<Rightarrow> None | Some child \<Rightarrow> descend s child ((cur, c) # path))"

fun plug :: "node \<Rightarrow> (node \<times> char) list \<Rightarrow> node" where
  "plug cur [] = cur"
| "plug cur ((p, c) # path) = plug (set_child c cur p) path"

text \<open>The second loop: nodes that end no name and have no children go.\<close>

fun unwind :: "node \<Rightarrow> (node \<times> char) list \<Rightarrow> node" where
  "unwind cur [] = cur"
| "unwind cur ((p, c) # path) =
     (if children cur \<noteq> [] \<or> breakpoint cur then plug cur ((p, c) # path)
      else unwind (erase_child c p) path)"

definition tree_remove :: "string \<Rightarrow> node \<Rightarrow> node" where
  "tree_remove str root =
     (case descend str root [] of
        None \<Rightarrow> root
      | Some (cur, path) \<Rightarrow> unwind (Node False (children cur)) path)"

text \<open>\<open>findOne\<close>: the second component is the reference parameter \<open>result\<close>.\<close>

fun follow :: "node \<Rightarrow> string \<Rightarrow> returnvalue \<times> string" where
  "follow (Node b []) result = (RETURNVALUE_NOERROR, result)"
| "follow (Node b [(c, child)]) result =
     (if b then (RETURNVALUE_NAMEISTOOAMBIGUOUS, result) else follow child (result @ [c]))"
| "follow (Node b (x # y # cs)) result = (RETURNVALUE_NAMEISTOOAMBIGUOUS, result)"

definition findOne :: "string \<Rightarrow> node \<Rightarrow> string \<Rightarrow> returnvalue \<times> string" where
  "findOne query root result =
     (case descend query root [] of
        None \<Rightarrow> (RETURNVALUE_PLAYERWITHTHISNAMEISNOTONLINE, result)
      | Some (cur, path) \<Rightarrow> follow cur query)"

section \<open>The names in a tree\<close>

fun has_name :: "string \<Rightarrow> node \<Rightarrow> bool" where
  "has_name [] n = breakpoint n"
| "has_name (c # s) n = (case getChild c n of None \<Rightarrow> False | Some child \<Rightarrow> has_name s child)"

definition names :: "node \<Rightarrow> string set" where
  "names n = {s. has_name s n}"

text \<open>Well-formed: one child per character, and every node but the root leads to a name.\<close>

definition alive :: "node \<Rightarrow> bool" where
  "alive n \<longleftrightarrow> children n \<noteq> [] \<or> breakpoint n"

fun tree_ok :: "node \<Rightarrow> bool" where
  "tree_ok (Node b cs) \<longleftrightarrow> distinct (map fst cs) \<and> (\<forall>(c, n)\<in>set cs. tree_ok n \<and> alive n)"

lemma getChild_ok: "tree_ok n \<Longrightarrow> getChild c n = Some ch \<Longrightarrow> tree_ok ch \<and> alive ch"
  by (cases n) (auto simp: getChild_def dest: map_of_SomeD)

lemma getChild_set [simp]: "getChild c (set_child d ch n) = (if c = d then Some ch else getChild c n)"
  by (simp add: getChild_def set_child_def AList.update_conv')

lemma getChild_erase [simp]: "getChild c (erase_child d n) = (if c = d then None else getChild c n)"
  by (simp add: getChild_def erase_child_def AList.delete_conv')

lemma getChild_Node_same [simp]: "getChild c (Node b (children n)) = getChild c n"
  by (simp add: getChild_def)

lemma getChild_empty [simp]: "getChild c (Node b []) = None"
  by (simp add: getChild_def)

lemma breakpoint_set [simp]: "breakpoint (set_child c ch n) = breakpoint n"
  by (simp add: set_child_def)

lemma breakpoint_erase [simp]: "breakpoint (erase_child c n) = breakpoint n"
  by (simp add: erase_child_def)

lemma alive_set [simp]: "alive (set_child c ch n)"
  by (cases "children n") (auto simp: set_child_def alive_def)

lemma set_update_subset: "set (AList.update k v xs) \<subseteq> insert (k, v) (set xs)"
  by (induction xs) auto

lemma tree_ok_set: "tree_ok n \<Longrightarrow> tree_ok ch \<Longrightarrow> alive ch \<Longrightarrow> tree_ok (set_child c ch n)"
  using set_update_subset [of c ch "children n"]
  by (cases n) (auto simp: set_child_def distinct_update dest!: subsetD)

lemma tree_ok_erase: "tree_ok n \<Longrightarrow> tree_ok (erase_child c n)"
proof -
  have "set (AList.delete c xs) \<subseteq> set xs" for xs :: "(char \<times> node) list"
    by (auto simp: AList.delete_eq)
  then show "tree_ok n \<Longrightarrow> tree_ok (erase_child c n)"
    by (cases n) (auto simp: erase_child_def AList.distinct_delete dest!: subsetD)
qed

lemma tree_ok_breakpoint: "tree_ok (Node b (children n)) \<longleftrightarrow> tree_ok n"
  by (cases n) simp

lemma names_set: "names (set_child c ch n) = {s \<in> names n. take 1 s \<noteq> [c]} \<union> (#) c ` names ch"
proof -
  have "has_name s (set_child c ch n) \<longleftrightarrow> has_name s n \<and> take 1 s \<noteq> [c] \<or> (\<exists>t. s = c # t \<and> has_name t ch)" for s
    by (cases s) auto
  then show ?thesis by (auto simp: names_def)
qed

section \<open>Insertion\<close>

lemma addChild_ok: "tree_ok n \<Longrightarrow> tree_ok (addChild c b n)"
  by (auto simp: addChild_def tree_ok_breakpoint simp del: tree_ok.simps dest: getChild_ok split: option.splits)
    (auto simp: tree_ok.simps)

lemma has_name_insert: "s \<noteq> [] \<Longrightarrow> has_name t (tree_insert s n) \<longleftrightarrow> t = s \<or> has_name t n"
proof (induction s n arbitrary: t rule: tree_insert.induct)
  case (1 c n)
  have leaf: "has_name t (Node b []) \<longleftrightarrow> t = [] \<and> b" for t b by (cases t) auto
  have top: "has_name t (Node True (children m)) \<longleftrightarrow> t = [] \<or> has_name t m" for t m by (cases t) auto
  show ?case by (cases t) (auto simp: addChild_def leaf top split: option.splits)
next
  case (2 c d s n)
  have leaf: "has_name t (Node False []) = False" for t by (cases t) auto
  have child: "has_name t (addChild c False n) \<longleftrightarrow> has_name (c # t) n" for t
    by (auto simp: addChild_def leaf split: option.splits)
  have IH: "has_name t (tree_insert (d # s) (addChild c False n)) \<longleftrightarrow> t = d # s \<or> has_name (c # t) n" for t
    using 2 by (simp add: child)
  show ?case by (cases t) (auto simp: IH)
qed simp

lemma names_insert: "s \<noteq> [] \<Longrightarrow> names (tree_insert s n) = insert s (names n)"
  by (auto simp: names_def has_name_insert)

lemma tree_ok_insert: "s \<noteq> [] \<Longrightarrow> tree_ok n \<Longrightarrow> tree_ok (tree_insert s n) \<and> alive (tree_insert s n)"
proof (induction s n rule: tree_insert.induct)
  case (1 c n)
  have "alive (addChild c True n)"
    by (auto simp: addChild_def alive_def split: option.splits)
  then show ?case using 1 by (simp add: tree_ok_set addChild_ok)
next
  case (2 c d s n)
  then show ?case by (simp add: tree_ok_set addChild_ok)
qed simp

section \<open>Removal\<close>

text \<open>What \<open>descend\<close> and \<open>unwind\<close> compute, by recursion on the string.\<close>

fun prune :: "string \<Rightarrow> node \<Rightarrow> node" where
  "prune [] n = Node False (children n)"
| "prune (c # s) n =
     (case getChild c n of None \<Rightarrow> n
      | Some child \<Rightarrow> (let child' = prune s child in if alive child' then set_child c child' n else erase_child c n))"

fun present :: "string \<Rightarrow> node \<Rightarrow> bool" where
  "present [] n = True"
| "present (c # s) n = (case getChild c n of None \<Rightarrow> False | Some child \<Rightarrow> present s child)"

lemma descend_present: "descend s n path = None \<longleftrightarrow> \<not> present s n"
  by (induction s n path rule: descend.induct) (auto split: option.splits)

lemma unwind_alive: "alive cur \<Longrightarrow> unwind cur path = plug cur path"
  by (cases path) (auto simp: alive_def)

text \<open>The loops, started anywhere: prune the subtree, then continue upwards from it.\<close>

lemma descend_unwind:
  "descend s n path = Some (cur, path') \<Longrightarrow> unwind (Node False (children cur)) path' = unwind (prune s n) path"
proof (induction s n path arbitrary: cur path' rule: descend.induct)
  case (1 n path)
  then show ?case by simp
next
  case (2 c s n path)
  then obtain child where child: "getChild c n = Some child" by (auto split: option.splits)
  then have "unwind (Node False (children cur)) path' = unwind (prune s child) ((n, c) # path)"
    using 2 by simp
  also have "\<dots> = unwind (prune (c # s) n) path"
  proof (cases "alive (prune s child)")
    case True
    then have "unwind (prune s child) ((n, c) # path) = plug (set_child c (prune s child) n) path"
      by (simp add: unwind_alive del: unwind.simps)
    then show ?thesis
      using True by (simp add: child Let_def unwind_alive del: unwind.simps)
  next
    case False
    then show ?thesis by (simp add: child Let_def alive_def)
  qed
  finally show ?case .
qed

lemma tree_remove_prune: "present s n \<Longrightarrow> tree_remove s n = prune s n"
  using descend_unwind [of s n "[]"] descend_present [of s n "[]"]
  by (auto simp: tree_remove_def split: option.splits)

lemma not_alive_names: "\<not> alive n \<Longrightarrow> names n = {}"
proof -
  assume "\<not> alive n"
  then obtain "n = Node False []" by (cases n) (auto simp: alive_def)
  moreover have "\<not> has_name t (Node False [])" for t by (cases t) auto
  ultimately show ?thesis by (simp add: names_def)
qed

lemma has_name_prune: "tree_ok n \<Longrightarrow> has_name t (prune s n) \<longleftrightarrow> t \<noteq> s \<and> has_name t n"
proof (induction s n arbitrary: t rule: prune.induct)
  case (1 n)
  then show ?case by (cases t) auto
next
  case (2 c s n)
  show ?case
  proof (cases "getChild c n")
    case None
    then show ?thesis by (cases t) auto
  next
    case (Some child)
    have IH: "has_name t (prune s child) \<longleftrightarrow> t \<noteq> s \<and> has_name t child" for t
      using 2 Some getChild_ok by blast
    show ?thesis
    proof (cases "alive (prune s child)")
      case True
      then show ?thesis using Some by (cases t) (auto simp: Let_def IH)
    next
      case False
      then have "\<not> (t \<noteq> s \<and> has_name t child)" for t
        using not_alive_names [OF False] IH by (auto simp: names_def)
      then show ?thesis using Some False by (cases t) (auto simp: Let_def)
    qed
  qed
qed

lemma tree_ok_prune: "tree_ok n \<Longrightarrow> tree_ok (prune s n)"
proof (induction s n rule: prune.induct)
  case (1 n)
  then show ?case by (simp add: tree_ok_breakpoint del: tree_ok.simps)
next
  case (2 c s n)
  have "tree_ok (prune s child)" if "getChild c n = Some child" for child
    using 2 that getChild_ok by blast
  then show ?case using 2(2)
    by (auto simp: Let_def tree_ok_set tree_ok_erase split: option.splits)
qed

lemma has_name_present: "has_name s n \<Longrightarrow> present s n"
  by (induction s n rule: present.induct) (auto split: option.splits)

lemma names_remove: "tree_ok n \<Longrightarrow> names (tree_remove s n) = names n - {s}"
proof (cases "present s n")
  case True
  assume "tree_ok n"
  then show ?thesis using True by (auto simp: tree_remove_prune names_def has_name_prune)
next
  case False
  then have "tree_remove s n = n"
    using descend_present [of s n "[]"] by (auto simp: tree_remove_def)
  moreover have "s \<notin> names n" using False has_name_present by (auto simp: names_def)
  ultimately show ?thesis by simp
qed

lemma tree_ok_remove: "tree_ok n \<Longrightarrow> tree_ok (tree_remove s n)"
proof (cases "present s n")
  case True
  then show "tree_ok n \<Longrightarrow> ?thesis" by (simp add: tree_remove_prune tree_ok_prune)
next
  case False
  then show "tree_ok n \<Longrightarrow> ?thesis" using descend_present [of s n "[]"] by (simp add: tree_remove_def)
qed

section \<open>Lookup\<close>

lemma names_nonempty: "tree_ok n \<Longrightarrow> alive n \<Longrightarrow> names n \<noteq> {}"
proof (induction n)
  case (Node b cs)
  show ?case
  proof (cases cs)
    case Nil
    then have "has_name [] (Node b cs)" using Node by (simp add: alive_def)
    then show ?thesis unfolding names_def by blast
  next
    case (Cons x xs)
    obtain c m where x: "x = (c, m)" by (cases x)
    have "names m \<noteq> {}" using Node(1) [of x m] Node(2,3) Cons x by auto
    then obtain s where "has_name s m" by (auto simp: names_def)
    then have "has_name (c # s) (Node b cs)" using Cons x by (simp add: getChild_def)
    then show ?thesis unfolding names_def by blast
  qed
qed

lemma names_follow:
  assumes "tree_ok n" "alive n"
  shows "(\<exists>s. names n = {s} \<and> follow n r = (RETURNVALUE_NOERROR, r @ s)) \<or>
    (\<exists>s t u. s \<in> names n \<and> t \<in> names n \<and> s \<noteq> t \<and> follow n r = (RETURNVALUE_NAMEISTOOAMBIGUOUS, u))"
  using assms
proof (induction n r rule: follow.induct)
  case (1 b result)
  then have "b" by (simp add: alive_def)
  have "has_name t (Node True []) \<longleftrightarrow> t = []" for t by (cases t) auto
  then show ?case using \<open>b\<close> by (auto simp: names_def)
next
  case (2 b c child result)
  have child: "tree_ok child" "alive child" using 2(2) by auto
  have mem: "t \<in> names (Node b [(c, child)]) \<longleftrightarrow> t = [] \<and> b \<or> (\<exists>u. t = c # u \<and> u \<in> names child)" for t
    by (cases t) (auto simp: names_def getChild_def)
  show ?case
  proof (cases b)
    case True
    obtain s where "s \<in> names child"
      using names_nonempty [OF child] by blast
    then have "c # s \<in> names (Node b [(c, child)])" "[] \<in> names (Node b [(c, child)])"
      unfolding mem using True by auto
    then have "\<exists>t u. t \<in> names (Node b [(c, child)]) \<and> u \<in> names (Node b [(c, child)]) \<and> t \<noteq> u" by blast
    then show ?thesis using True by auto
  next
    case False
    from 2(1) [OF False child] consider
        (one) s where "names child = {s}" "follow child (result @ [c]) = (RETURNVALUE_NOERROR, (result @ [c]) @ s)"
      | (many) s t u where "s \<in> names child" "t \<in> names child" "s \<noteq> t"
          "follow child (result @ [c]) = (RETURNVALUE_NAMEISTOOAMBIGUOUS, u)" by auto
    then show ?thesis
    proof cases
      case one
      then have "names (Node b [(c, child)]) = {c # s}" using False mem by auto
      then show ?thesis using one False by auto
    next
      case many
      then show ?thesis using False mem by (intro disjI2 exI [of _ "c # s"] exI [of _ "c # t"] exI [of _ u]) auto
    qed
  qed
next
  case (3 b x y cs result)
  obtain c n d m where xy: "x = (c, n)" "y = (d, m)" by (cases x; cases y)
  then have ok: "tree_ok n" "alive n" "tree_ok m" "alive m" "c \<noteq> d" using 3 by auto
  then obtain s t where "s \<in> names n" "t \<in> names m" using names_nonempty by blast
  then have "c # s \<in> names (Node b (x # y # cs))" "d # t \<in> names (Node b (x # y # cs))"
    using ok(5) by (auto simp: xy names_def getChild_def)
  then show ?case using ok(5) by auto
qed

lemma names_descend:
  "{t \<in> names n. prefix q t} = (case descend q n path of None \<Rightarrow> {} | Some (cur, p) \<Rightarrow> (@) q ` names cur)"
proof (induction q n path rule: descend.induct)
  case (1 cur path)
  then show ?case by simp
next
  case (2 c s cur path)
  show ?case
  proof (cases "getChild c cur")
    case None
    then show ?thesis by (auto simp: names_def prefix_def)
  next
    case (Some child)
    have "{t \<in> names cur. prefix (c # s) t} = (#) c ` {t \<in> names child. prefix s t}"
      using Some by (auto simp: names_def image_iff prefix_def)
    then show ?thesis using 2 [OF Some] Some by (auto split: option.splits)
  qed
qed

lemma descend_ok: "descend q n path = Some (cur, p) \<Longrightarrow> tree_ok n \<Longrightarrow> q \<noteq> [] \<or> alive n \<Longrightarrow> tree_ok cur \<and> alive cur"
proof (induction q n path rule: descend.induct)
  case (2 c s n path)
  then show ?case using getChild_ok by (fastforce split: option.splits)
qed simp

lemma findOne_complete:
  assumes "tree_ok root" "query \<noteq> [] \<or> names root \<noteq> {}"
  shows "findOne query root r = (RETURNVALUE_NOERROR, s) \<longleftrightarrow> {t \<in> names root. prefix query t} = {s}" (is ?A)
    and "fst (findOne query root r) = RETURNVALUE_PLAYERWITHTHISNAMEISNOTONLINE
       \<longleftrightarrow> {t \<in> names root. prefix query t} = {}" (is ?B)
    and "fst (findOne query root r) = RETURNVALUE_NAMEISTOOAMBIGUOUS
       \<longleftrightarrow> (\<exists>t u. {t, u} \<subseteq> {t \<in> names root. prefix query t} \<and> t \<noteq> u)" (is ?C)
proof -
  have alive: "query \<noteq> [] \<or> alive root" using assms(2) not_alive_names by auto
  have "?A \<and> ?B \<and> ?C"
  proof (cases "descend query root []")
    case None
    then show ?thesis using names_descend [of root query "[]"] by (auto simp: findOne_def)
  next
    case (Some res)
    obtain cur p where res: "res = (cur, p)" by (cases res)
    with Some have cur: "tree_ok cur" "alive cur" using descend_ok assms(1) alive by blast+
    have set: "{t \<in> names root. prefix query t} = (@) query ` names cur"
      using names_descend [of root query "[]"] Some res by simp
    from names_follow [OF cur, of query] consider
        (one) s' where "names cur = {s'}" "follow cur query = (RETURNVALUE_NOERROR, query @ s')"
      | (many) s' t u where "s' \<in> names cur" "t \<in> names cur" "s' \<noteq> t"
          "follow cur query = (RETURNVALUE_NAMEISTOOAMBIGUOUS, u)" by auto
    then show ?thesis
    proof cases
      case one
      then show ?thesis unfolding set by (auto simp: findOne_def Some res)
    next
      case many
      then have "\<exists>t u. {t, u} \<subseteq> (@) query ` names cur \<and> t \<noteq> u"
        by (intro exI [of _ "query @ s'"] exI [of _ "query @ t"]) auto
      moreover have "(@) query ` names cur \<noteq> {}" using many(1) by blast
      moreover have "(@) query ` names cur \<noteq> {s}"
      proof
        assume "(@) query ` names cur = {s}"
        then have "query @ s' = s" "query @ t = s" using many(1,2) by blast+
        then show False using many(3) by (metis same_append_eq)
      qed
      moreover have "findOne query root r = (RETURNVALUE_NAMEISTOOAMBIGUOUS, u)"
        using many(4) by (simp add: findOne_def Some res)
      ultimately show ?thesis unfolding set by simp
    qed
  qed
  then show ?A ?B ?C by blast+
qed

text \<open>
  C10: completing a name.  In a well-formed tree, and unless both the tree and the query are
  empty, \<open>findOne\<close> answers with a name exactly if that name is the only one the query is a
  prefix of, says that nobody is online exactly if there is none, and that the name is
  ambiguous exactly if there are two.
\<close>

theorem findOne_unique:
  assumes "tree_ok root" "query \<noteq> [] \<or> names root \<noteq> {}"
  shows "(findOne query root r = (RETURNVALUE_NOERROR, s) \<longleftrightarrow> {t \<in> names root. prefix query t} = {s}) \<and>
    (fst (findOne query root r) = RETURNVALUE_PLAYERWITHTHISNAMEISNOTONLINE
       \<longleftrightarrow> {t \<in> names root. prefix query t} = {}) \<and>
    (fst (findOne query root r) = RETURNVALUE_NAMEISTOOAMBIGUOUS
       \<longleftrightarrow> (\<exists>t u. {t, u} \<subseteq> {t \<in> names root. prefix query t} \<and> t \<noteq> u))"
  using findOne_complete [OF assms] by blast

lemma findOne_unique_witness:
  "findOne ''bo'' (tree_insert ''bob'' (tree_insert ''al'' (Node False []))) ''''
    = (RETURNVALUE_NOERROR, ''bob'')"
proof -
  let ?t = "tree_insert ''bob'' (tree_insert ''al'' (Node False []))"
  have "tree_ok ?t" by (simp add: tree_ok_insert del: tree_insert.simps)
  moreover have "names ?t = {''al'', ''bob''}"
    using not_alive_names [of "Node False []"]
    by (auto simp: names_insert alive_def simp del: tree_insert.simps)
  moreover have "{t \<in> {''al'', ''bob''}. prefix ''bo'' t} = {''bob''}" by (auto simp: prefix_def)
  ultimately show ?thesis
    using findOne_unique [of ?t "''bo''" "''''" "''bob''"] by (simp only:) simp
qed

text \<open>On an empty tree the empty query succeeds with the empty name.\<close>

lemma findOne_empty: "findOne [] (Node False []) r = (RETURNVALUE_NOERROR, [])"
  by (simp add: findOne_def)

end
