(* ===== verification/PlayerIndex.thy ===== *)
theory PlayerIndex
  imports WildcardTree
begin

text \<open>
  The lookup of the players who are online (\<open>Game::addPlayer\<close>, \<open>removePlayer\<close>,
  \<open>getPlayerByName\<close>, \<open>getPlayerByGUID\<close>, \<open>getPlayerByNameWildcard\<close> of \<open>src/src/game.cpp\<close>): three
  maps and the tree of names, which have to agree.
\<close>

section \<open>The state\<close>

record player_id =
  name :: string
  guid :: u32
  pid :: u32

record index =
  mappedPlayerNames :: "string \<Rightarrow> player_id option"
  mappedPlayerGuids :: "u32 \<Rightarrow> player_id option"
  wildcardTree :: node
  players :: "u32 \<Rightarrow> player_id option"

definition empty_index :: index where
  "empty_index = \<lparr>mappedPlayerNames = Map.empty, mappedPlayerGuids = Map.empty,
     wildcardTree = Node False [], players = Map.empty\<rparr>"

text \<open>\<open>asLowerCaseString\<close> with the C locale's \<open>tolower\<close>.\<close>

definition lower_char :: "char \<Rightarrow> char" where
  "lower_char c = (if 65 \<le> (of_char c :: nat) \<and> (of_char c :: nat) \<le> 90 then char_of ((of_char c :: nat) + 32) else c)"

definition asLowerCaseString :: "string \<Rightarrow> string" where
  "asLowerCaseString s = map lower_char s"

section \<open>The operations\<close>

definition addPlayer :: "player_id \<Rightarrow> index \<Rightarrow> index" where
  "addPlayer p g =
     (let lowercase_name = asLowerCaseString (name p)
      in g\<lparr>mappedPlayerNames := (mappedPlayerNames g)(lowercase_name \<mapsto> p),
           mappedPlayerGuids := (mappedPlayerGuids g)(guid p \<mapsto> p),
           wildcardTree := tree_insert lowercase_name (wildcardTree g),
           players := (players g)(pid p \<mapsto> p)\<rparr>)"

definition removePlayer :: "player_id \<Rightarrow> index \<Rightarrow> index" where
  "removePlayer p g =
     (let lowercase_name = asLowerCaseString (name p)
      in g\<lparr>mappedPlayerNames := (mappedPlayerNames g)(lowercase_name := None),
           mappedPlayerGuids := (mappedPlayerGuids g)(guid p := None),
           wildcardTree := tree_remove lowercase_name (wildcardTree g),
           players := (players g)(pid p := None)\<rparr>)"

definition getPlayerByName :: "string \<Rightarrow> index \<Rightarrow> player_id option" where
  "getPlayerByName s g = (if s = [] then None else mappedPlayerNames g (asLowerCaseString s))"

definition getPlayerByGUID :: "u32 \<Rightarrow> index \<Rightarrow> player_id option" where
  "getPlayerByGUID n g = (if n = 0 then None else mappedPlayerGuids g n)"

definition PLAYER_NAME_LENGTH :: nat where
  "PLAYER_NAME_LENGTH = 25"

definition found_player :: "player_id option \<Rightarrow> returnvalue \<times> player_id option" where
  "found_player player =
     (case player of None \<Rightarrow> (RETURNVALUE_PLAYERWITHTHISNAMEISNOTONLINE, None)
      | Some p \<Rightarrow> (RETURNVALUE_NOERROR, Some p))"

text \<open>\<open>player\<close> is the reference parameter: what it holds before and after the call.\<close>

definition getPlayerByNameWildcard ::
  "string \<Rightarrow> index \<Rightarrow> player_id option \<Rightarrow> returnvalue \<times> player_id option" where
  "getPlayerByNameWildcard s g player =
     (let strlen = length s
      in if strlen = 0 \<or> strlen > PLAYER_NAME_LENGTH
         then (RETURNVALUE_PLAYERWITHTHISNAMEISNOTONLINE, player)
         else if last s = CHR ''~'' then
           (case findOne (asLowerCaseString (take (strlen - 1) s)) (wildcardTree g) [] of (ret, result) \<Rightarrow>
              if ret \<noteq> RETURNVALUE_NOERROR then (ret, player)
              else found_player (getPlayerByName result g))
         else found_player (getPlayerByName s g))"

text \<open>The players come and go: names are not empty, nobody is online twice.\<close>

inductive reachable :: "index \<Rightarrow> bool" where
  start: "reachable empty_index"
| login: "reachable g \<Longrightarrow> name p \<noteq> [] \<Longrightarrow> mappedPlayerNames g (asLowerCaseString (name p)) = None \<Longrightarrow>
    reachable (addPlayer p g)"
| logout: "reachable g \<Longrightarrow> mappedPlayerNames g (asLowerCaseString (name p)) = Some p \<Longrightarrow>
    reachable (removePlayer p g)"

section \<open>What the index of names promises\<close>

locale name_index =
  fixes add_name :: "string \<Rightarrow> 'ix \<Rightarrow> 'ix"
    and del_name :: "string \<Rightarrow> 'ix \<Rightarrow> 'ix"
    and complete :: "string \<Rightarrow> 'ix \<Rightarrow> returnvalue \<times> string"
    and content :: "'ix \<Rightarrow> string set"
    and valid :: "'ix \<Rightarrow> bool"
  assumes add: "valid ix \<Longrightarrow> s \<noteq> [] \<Longrightarrow> valid (add_name s ix) \<and> content (add_name s ix) = insert s (content ix)"
    and del: "valid ix \<Longrightarrow> valid (del_name s ix) \<and> content (del_name s ix) = content ix - {s}"
    and unique: "valid ix \<Longrightarrow> q \<noteq> [] \<or> content ix \<noteq> {} \<Longrightarrow>
      complete q ix = (RETURNVALUE_NOERROR, s) \<longleftrightarrow> {t \<in> content ix. prefix q t} = {s}"
begin

definition agrees :: "(string \<Rightarrow> 'p option) \<Rightarrow> 'ix \<Rightarrow> bool" where
  "agrees m ix \<longleftrightarrow> valid ix \<and> content ix = dom m"

lemma agrees_add: "agrees m ix \<Longrightarrow> s \<noteq> [] \<Longrightarrow> agrees (m(s \<mapsto> p)) (add_name s ix)"
  using add by (auto simp: agrees_def)

lemma agrees_del: "agrees m ix \<Longrightarrow> agrees (m(s := None)) (del_name s ix)"
  using del by (auto simp: agrees_def)

text \<open>Completion finds a key of the map exactly if it is the only one with that prefix.\<close>

lemma complete_key:
  assumes "agrees m ix" "q \<noteq> [] \<or> m \<noteq> Map.empty"
  shows "complete q ix = (RETURNVALUE_NOERROR, s) \<longleftrightarrow> {t \<in> dom m. prefix q t} = {s}"
  using unique [of ix q s] assms by (auto simp: agrees_def)

lemma complete_online:
  assumes "agrees m ix" "q \<noteq> [] \<or> m \<noteq> Map.empty"
    and "\<And>k p. m k = Some p \<Longrightarrow> key p = k"
  shows "(\<exists>s. complete q ix = (RETURNVALUE_NOERROR, s) \<and> m s = Some p)
    \<longleftrightarrow> {p \<in> ran m. prefix q (key p)} = {p}"
proof
  assume "\<exists>s. complete q ix = (RETURNVALUE_NOERROR, s) \<and> m s = Some p"
  then obtain s where s: "{t \<in> dom m. prefix q t} = {s}" "m s = Some p"
    using complete_key [OF assms(1,2)] by auto
  have "x = p" if "x \<in> ran m" "prefix q (key x)" for x
  proof -
    obtain k where k: "m k = Some x" using \<open>x \<in> ran m\<close> by (auto simp: ran_def)
    then have "k \<in> {t \<in> dom m. prefix q t}" using that assms(3) by auto
    then show "x = p" using s k by auto
  qed
  moreover have "p \<in> ran m" "prefix q (key p)" using s assms(3) by (auto simp: ran_def)
  ultimately show "{p \<in> ran m. prefix q (key p)} = {p}" by blast
next
  assume eq: "{p \<in> ran m. prefix q (key p)} = {p}"
  then have "p \<in> {p \<in> ran m. prefix q (key p)}" by simp
  then obtain k where k: "m k = Some p" "prefix q k" using assms(3) by (auto simp: ran_def)
  have "t = k" if "t \<in> dom m" "prefix q t" for t
  proof -
    obtain x where x: "m t = Some x" using \<open>t \<in> dom m\<close> by auto
    then have "x \<in> {p \<in> ran m. prefix q (key p)}" using assms(3) that by (auto simp: ran_def)
    then have "x = p" using eq by simp
    then show "t = k" using assms(3) x k(1) by metis
  qed
  then have "{t \<in> dom m. prefix q t} = {k}" using k by auto
  then show "\<exists>s. complete q ix = (RETURNVALUE_NOERROR, s) \<and> m s = Some p"
    using complete_key [OF assms(1,2)] k by auto
qed

end

interpretation tree: name_index tree_insert tree_remove "\<lambda>q t. findOne q t []" names tree_ok
  by unfold_locales
    (simp add: tree_ok_insert names_insert,
     simp add: tree_ok_remove names_remove,
     simp add: findOne_complete)

section \<open>The players online\<close>

definition online :: "index \<Rightarrow> player_id set" where
  "online g = ran (mappedPlayerNames g)"

definition index_ok :: "index \<Rightarrow> bool" where
  "index_ok g \<longleftrightarrow> tree.agrees (mappedPlayerNames g) (wildcardTree g) \<and>
     (\<forall>k p. mappedPlayerNames g k = Some p \<longrightarrow> asLowerCaseString (name p) = k \<and> k \<noteq> [])"

lemma lower_lower [simp]: "asLowerCaseString (asLowerCaseString s) = asLowerCaseString s"
proof -
  have "lower_char (lower_char c) = lower_char c" for c
    by (cases "65 \<le> (of_char c :: nat) \<and> (of_char c :: nat) \<le> 90") (auto simp: lower_char_def)
  then show ?thesis by (simp add: asLowerCaseString_def comp_def)
qed

lemma lower_Nil [simp]: "asLowerCaseString s = [] \<longleftrightarrow> s = []" "[] = asLowerCaseString s \<longleftrightarrow> s = []"
  by (auto simp: asLowerCaseString_def)

lemma index_ok_name: "index_ok g \<Longrightarrow> mappedPlayerNames g k = Some p \<Longrightarrow> asLowerCaseString (name p) = k \<and> k \<noteq> []"
  unfolding index_ok_def by blast

lemma index_ok_reachable: "reachable g \<Longrightarrow> index_ok g"
proof (induction rule: reachable.induct)
  case start
  have "\<not> has_name s (Node False [])" for s by (cases s) auto
  then show ?case by (simp add: index_ok_def empty_index_def tree.agrees_def names_def)
next
  case (login g p)
  then have "tree.agrees (mappedPlayerNames (addPlayer p g)) (wildcardTree (addPlayer p g))"
    by (simp add: index_ok_def addPlayer_def Let_def tree.agrees_add)
  moreover have "asLowerCaseString (name q) = k \<and> k \<noteq> []" if "mappedPlayerNames (addPlayer p g) k = Some q" for k q
    using index_ok_name [OF login.IH] login.hyps(2) that
    by (auto simp: addPlayer_def Let_def split: if_splits)
  ultimately show ?case unfolding index_ok_def by blast
next
  case (logout g p)
  from logout.IH have "tree.agrees (mappedPlayerNames g) (wildcardTree g)"
    unfolding index_ok_def by blast
  then have "tree.agrees (mappedPlayerNames (removePlayer p g)) (wildcardTree (removePlayer p g))"
    by (simp add: removePlayer_def Let_def tree.agrees_del)
  moreover have "asLowerCaseString (name q) = k \<and> k \<noteq> []" if "mappedPlayerNames (removePlayer p g) k = Some q" for k q
    by (rule index_ok_name [OF logout.IH])
      (use that in \<open>simp add: removePlayer_def Let_def split: if_splits\<close>)
  ultimately show ?case unfolding index_ok_def by blast
qed

text \<open>
  C11: looking up a player by the start of a name.  In every state that logins and logouts
  lead to, \<open>getPlayerByNameWildcard\<close> of a query with a final tilde succeeds with the player
  \<open>p\<close> exactly if, ignoring case, \<open>p\<close> is the only player online whose name starts with it.
\<close>

theorem getPlayerByNameWildcard_unique:
  assumes "reachable g" "length s < PLAYER_NAME_LENGTH" "s \<noteq> [] \<or> online g \<noteq> {}"
  shows "getPlayerByNameWildcard (s @ ''~'') g None = (RETURNVALUE_NOERROR, Some p)
    \<longleftrightarrow> {p \<in> online g. prefix (asLowerCaseString s) (asLowerCaseString (name p))} = {p}"
proof -
  have ok: "index_ok g" using assms(1) by (rule index_ok_reachable)
  let ?q = "asLowerCaseString s" and ?m = "mappedPlayerNames g"
  have agrees: "tree.agrees ?m (wildcardTree g)" using ok by (simp add: index_ok_def)
  have ne: "?q \<noteq> [] \<or> ?m \<noteq> Map.empty" using assms(3) by (auto simp: online_def)
  have found: "(case getPlayerByName k g of None \<Rightarrow> False | Some x \<Rightarrow> x = p) \<longleftrightarrow> ?m k = Some p"
    if "findOne ?q (wildcardTree g) [] = (RETURNVALUE_NOERROR, k)" for k
  proof -
    have "k \<in> dom ?m" using tree.complete_key [OF agrees ne, of k] that by auto
    then obtain x where "?m k = Some x" by auto
    then have "asLowerCaseString (name x) = k" "k \<noteq> []" using ok by (auto simp: index_ok_def)
    then have "asLowerCaseString k = k" "k \<noteq> []" using lower_lower by metis+
    then show ?thesis by (auto simp: getPlayerByName_def split: option.splits)
  qed
  obtain ret k where find: "findOne ?q (wildcardTree g) [] = (ret, k)"
    by (cases "findOne ?q (wildcardTree g) []")
  have "getPlayerByNameWildcard (s @ ''~'') g None = (RETURNVALUE_NOERROR, Some p)
      \<longleftrightarrow> ret = RETURNVALUE_NOERROR \<and> (case getPlayerByName k g of None \<Rightarrow> False | Some x \<Rightarrow> x = p)"
    using assms(2) find by (auto simp: getPlayerByNameWildcard_def found_player_def split: option.splits)
  also have "\<dots> \<longleftrightarrow> (\<exists>k. findOne ?q (wildcardTree g) [] = (RETURNVALUE_NOERROR, k) \<and> ?m k = Some p)"
    using found find by auto
  also have "\<dots> \<longleftrightarrow> {p \<in> ran ?m. prefix ?q (asLowerCaseString (name p))} = {p}"
    by (rule tree.complete_online [OF agrees ne]) (use ok in \<open>auto simp: index_ok_def\<close>)
  finally show ?thesis by (simp add: online_def)
qed

lemma getPlayerByNameWildcard_unique_witness:
  "\<exists>g p. reachable g \<and> name p = ''Bob'' \<and>
    getPlayerByNameWildcard ''b~'' g None = (RETURNVALUE_NOERROR, Some p)"
proof -
  let ?p = "\<lparr>name = ''Bob'', guid = 7, pid = 3\<rparr>" and ?q = "\<lparr>name = ''Al'', guid = 8, pid = 4\<rparr>"
  let ?g = "addPlayer ?p (addPlayer ?q empty_index)"
  have lower: "asLowerCaseString ''Bob'' = ''bob''" "asLowerCaseString ''Al'' = ''al''" "asLowerCaseString ''b'' = ''b''"
    by (simp_all add: asLowerCaseString_def lower_char_def char_of_def bit_0)
  have g: "reachable ?g"
    by (intro reachable.intros) (simp_all add: lower addPlayer_def empty_index_def Let_def)
  have "online ?g = {?p, ?q}"
    by (simp add: online_def addPlayer_def empty_index_def Let_def lower ran_map_upd)
  moreover have "{p \<in> {?p, ?q}. prefix ''b'' (asLowerCaseString (name p))} = {?p}"
    by (auto simp: lower)
  ultimately have "getPlayerByNameWildcard (''b'' @ ''~'') ?g None = (RETURNVALUE_NOERROR, Some ?p)"
    using getPlayerByNameWildcard_unique [OF g, of "''b''" ?p] lower by (simp add: PLAYER_NAME_LENGTH_def)
  then show ?thesis using g by (intro exI [of _ ?g] exI [of _ ?p]) simp
qed

end
