(* ===== verification/Party.thy ===== *)
theory Party
  imports Prelude Positions
begin

text \<open>
  \<open>src/src/party.cpp\<close> with the handlers of \<open>game.cpp\<close> that call it: hunting parties, their
  invitations, leadership and shared experience.  Players and parties point at each other;
  here both are entries of maps, a pointer is a key, and \<open>delete\<close> removes the entry, so that a
  dangling pointer is a key without an entry.  What the clients are sent is the list
  \<open>notices\<close> of the state.
\<close>

section \<open>State\<close>

datatype notice =
    Text nat string
  | ClosePrivate nat
  | UpdateShield nat
  | Shield nat nat
  | Skull nat nat

record member =
  member_party :: "nat option"
  invitePartyList :: "nat list"
  level :: u32
  member_pos :: position
  notGainInFight :: bool
  infight :: bool
  inProtectionZone :: bool
  member_name :: string
  female :: bool

record party =
  leader :: nat
  memberList :: "nat list"
  inviteList :: "nat list"
  ticksMap :: "nat \<Rightarrow> int option"
  sharedExpActive :: bool
  sharedExpEnabled :: bool

record world =
  member_of :: "nat \<Rightarrow> member"
  is_online :: "nat \<Rightarrow> bool"
  parties :: "nat \<Rightarrow> party option"
  notices :: "notice list"

text \<open>The answers of the server's Lua event scripts, which can veto an operation, and what
  the clock and the configuration say.\<close>

record party_env =
  onDisband :: bool
  onLeave :: bool
  onPassLeadership :: bool
  onJoin :: bool
  onRevokeInvitation :: bool
  onInvite :: bool
  now :: int
  pzLocked :: int

definition tell :: "notice list \<Rightarrow> world \<Rightarrow> world" where
  "tell ns w = w\<lparr>notices := notices w @ ns\<rparr>"

definition upd_member :: "nat \<Rightarrow> (member \<Rightarrow> member) \<Rightarrow> world \<Rightarrow> world" where
  "upd_member x f w = w\<lparr>member_of := (member_of w)(x := f (member_of w x))\<rparr>"

definition upd_party :: "nat \<Rightarrow> (party \<Rightarrow> party) \<Rightarrow> world \<Rightarrow> world" where
  "upd_party g f w = w\<lparr>parties := (parties w)(g := map_option f (parties w g))\<rparr>"

text \<open>The party a pointer points to; only asked for pointers to live parties.\<close>

definition the_party :: "nat \<Rightarrow> world \<Rightarrow> party" where
  "the_party g w = the (parties w g)"

definition setParty :: "nat \<Rightarrow> nat option \<Rightarrow> world \<Rightarrow> world" where
  "setParty x g = upd_member x (\<lambda>m. m\<lparr>member_party := g\<rparr>)"

definition removePartyInvitation :: "nat \<Rightarrow> nat \<Rightarrow> world \<Rightarrow> world" where
  "removePartyInvitation x g = upd_member x (\<lambda>m. m\<lparr>invitePartyList := removeAll g (invitePartyList m)\<rparr>)"

definition addPartyInvitation :: "nat \<Rightarrow> nat \<Rightarrow> world \<Rightarrow> world" where
  "addPartyInvitation x g =
     upd_member x (\<lambda>m. if g \<in> set (invitePartyList m) then m else m\<lparr>invitePartyList := g # invitePartyList m\<rparr>)"

definition party_empty :: "party \<Rightarrow> bool" where
  "party_empty p \<longleftrightarrow> memberList p = [] \<and> inviteList p = []"

definition isPlayerInvited :: "nat \<Rightarrow> party \<Rightarrow> bool" where
  "isPlayerInvited x p \<longleftrightarrow> x \<in> set (inviteList p)"

definition isInviting :: "world \<Rightarrow> nat \<Rightarrow> nat \<Rightarrow> bool" where
  "isInviting w x y =
     (case member_party (member_of w x) of None \<Rightarrow> False
      | Some g \<Rightarrow> leader (the_party g w) = x \<and> isPlayerInvited y (the_party g w))"

definition isPartner :: "world \<Rightarrow> nat \<Rightarrow> nat \<Rightarrow> bool" where
  "isPartner w x y =
     (case member_party (member_of w x) of None \<Rightarrow> False
      | Some g \<Rightarrow> y \<noteq> x \<and> member_party (member_of w y) = Some g)"

section \<open>Shared experience\<close>

definition EXPERIENCE_SHARE_RANGE :: int where
  "EXPERIENCE_SHARE_RANGE = 30"

definition EXPERIENCE_SHARE_FLOORS :: int where
  "EXPERIENCE_SHARE_FLOORS = 1"

text \<open>\<open>ceil((float) highestLevel * 2 / 3)\<close>; for levels below \<open>2 ^ 21\<close> the rounding of the
  single-precision quotient does not reach the next integer.\<close>

definition minLevel :: "nat \<Rightarrow> nat" where
  "minLevel highestLevel = (2 * highestLevel + 2) div 3"

definition highestLevel :: "world \<Rightarrow> party \<Rightarrow> nat" where
  "highestLevel w p = fold (\<lambda>m h. if unat (level (member_of w m)) > h then unat (level (member_of w m)) else h)
     (memberList p) (unat (level (member_of w (leader p))))"

definition canUseSharedExperience :: "party_env \<Rightarrow> world \<Rightarrow> party \<Rightarrow> nat \<Rightarrow> bool" where
  "canUseSharedExperience env w p x =
     (if memberList p = [] then False
      else if unat (level (member_of w x)) < minLevel (highestLevel w p) then False
      else if \<not> areInRange3 EXPERIENCE_SHARE_RANGE EXPERIENCE_SHARE_RANGE EXPERIENCE_SHARE_FLOORS
                (member_pos (member_of w (leader p))) (member_pos (member_of w x)) then False
      else if \<not> notGainInFight (member_of w x) then
        (case ticksMap p x of None \<Rightarrow> False
         | Some t \<Rightarrow> \<not> (now env - t) mod 2 ^ 64 > pzLocked env mod 2 ^ 64)
      else True)"

definition canEnableSharedExperience :: "party_env \<Rightarrow> world \<Rightarrow> party \<Rightarrow> bool" where
  "canEnableSharedExperience env w p \<longleftrightarrow>
     canUseSharedExperience env w p (leader p) \<and> list_all (canUseSharedExperience env w p) (memberList p)"

definition updateAllPartyIcons :: "party \<Rightarrow> world \<Rightarrow> world" where
  "updateAllPartyIcons p w =
     tell (concat (map (\<lambda>m. map (Shield m) (memberList p) @ [Shield m (leader p), Shield (leader p) m]) (memberList p))
           @ [Shield (leader p) (leader p)]) w"

definition updateSharedExperience :: "party_env \<Rightarrow> nat \<Rightarrow> world \<Rightarrow> world" where
  "updateSharedExperience env g w =
     (let p = the_party g w in
      if sharedExpActive p then
        let result = canEnableSharedExperience env w p
        in if result \<noteq> sharedExpEnabled p
           then updateAllPartyIcons p (upd_party g (\<lambda>p. p\<lparr>sharedExpEnabled := result\<rparr>) w)
           else w
      else w)"

definition setSharedExperience :: "party_env \<Rightarrow> nat \<Rightarrow> nat \<Rightarrow> bool \<Rightarrow> world \<Rightarrow> bool \<times> world" where
  "setSharedExperience env g x active w =
     (let p = the_party g w in
      if leader p \<noteq> x then (False, w)
      else if sharedExpActive p = active then (True, w)
      else
        let w = upd_party g (\<lambda>p. p\<lparr>sharedExpActive := active\<rparr>) w;
            w = (if active then
                   let enabled = canEnableSharedExperience env w (the_party g w);
                       w = upd_party g (\<lambda>p. p\<lparr>sharedExpEnabled := enabled\<rparr>) w
                   in tell [Text (leader p)
                        (if enabled then ''Shared Experience is now active.''
                         else ''Shared Experience has been activated, but some members of your party are inactive.'')] w
                 else tell [Text (leader p) ''Shared Experience has been deactivated.''] w)
        in (True, updateAllPartyIcons (the_party g w) w))"

definition updatePlayerTicks :: "party_env \<Rightarrow> nat \<Rightarrow> nat \<Rightarrow> u32 \<Rightarrow> world \<Rightarrow> world" where
  "updatePlayerTicks env g x points w =
     (if points \<noteq> 0 \<and> \<not> notGainInFight (member_of w x)
      then updateSharedExperience env g (upd_party g (\<lambda>p. p\<lparr>ticksMap := (ticksMap p)(x \<mapsto> now env)\<rparr>) w)
      else w)"

definition clearPlayerPoints :: "party_env \<Rightarrow> nat \<Rightarrow> nat \<Rightarrow> world \<Rightarrow> world" where
  "clearPlayerPoints env g x w =
     (case ticksMap (the_party g w) x of None \<Rightarrow> w
      | Some _ \<Rightarrow> updateSharedExperience env g (upd_party g (\<lambda>p. p\<lparr>ticksMap := (ticksMap p)(x := None)\<rparr>) w))"

section \<open>Membership\<close>

definition broadcastPartyMessage :: "nat \<Rightarrow> string \<Rightarrow> bool \<Rightarrow> world \<Rightarrow> world" where
  "broadcastPartyMessage g msg sendToInvitations w =
     (let p = the_party g w in
      tell (map (\<lambda>m. Text m msg) (memberList p) @ [Text (leader p) msg]
            @ (if sendToInvitations then map (\<lambda>i. Text i msg) (inviteList p) else [])) w)"

text \<open>\<open>disband\<close> also sets \<open>leader\<close> to null and clears the lists before the party is deleted.\<close>

definition disband :: "party_env \<Rightarrow> nat \<Rightarrow> world \<Rightarrow> world" where
  "disband env g w =
     (if \<not> onDisband env then w
      else
        let p = the_party g w; currentLeader = leader p;
            w = setParty currentLeader None w;
            w = tell [ClosePrivate currentLeader, UpdateShield currentLeader, Skull currentLeader currentLeader,
                      Text currentLeader ''Your party has been disbanded.''] w;
            w = fold (\<lambda>i w. tell [Shield currentLeader i] (removePartyInvitation i g w)) (inviteList p) w;
            w = fold (\<lambda>m w. tell [ClosePrivate m, Text m ''Your party has been disbanded.''] (setParty m None w)) (memberList p) w;
            w = fold (\<lambda>m w. tell ([UpdateShield m] @ map (\<lambda>other. Skull other m) (memberList p)
                               @ [Skull m currentLeader, Skull currentLeader m]) w) (memberList p) w
        in w\<lparr>parties := (parties w)(g := None)\<rparr>)"

definition passPartyLeadership :: "party_env \<Rightarrow> nat \<Rightarrow> nat \<Rightarrow> bool \<Rightarrow> world \<Rightarrow> bool \<times> world" where
  "passPartyLeadership env g x forceRemove w =
     (if leader (the_party g w) = x \<or> member_party (member_of w x) \<noteq> Some g then (False, w)
      else if \<not> onPassLeadership env \<and> \<not> forceRemove then (False, w)
      else
        let w = upd_party g (\<lambda>p. p\<lparr>memberList := remove1 x (memberList p)\<rparr>) w;
            w = broadcastPartyMessage g (member_name (member_of w x) @ '' is now the leader of the party.'') True w;
            oldLeader = leader (the_party g w);
            w = upd_party g (\<lambda>p. p\<lparr>leader := x, memberList := oldLeader # memberList p\<rparr>) w;
            w = updateSharedExperience env g w;
            p = the_party g w;
            w = tell (concat (map (\<lambda>m. [Shield m oldLeader, Shield m x]) (memberList p))
                      @ concat (map (\<lambda>i. [Shield i oldLeader, Shield i x]) (inviteList p))
                      @ [Shield x oldLeader, Shield x x, Text x ''You are now the leader of the party.'']) w
        in (True, w))"

text \<open>\<open>leaveParty\<close> from the removal of the player on.\<close>

definition leaveRest :: "party_env \<Rightarrow> nat \<Rightarrow> nat \<Rightarrow> bool \<Rightarrow> world \<Rightarrow> world" where
  "leaveRest env g x missingLeader w =
     (let w = upd_party g (\<lambda>p. p\<lparr>memberList := remove1 x (memberList p)\<rparr>) w;
          w = setParty x None w;
          p = the_party g w;
          w = tell ([ClosePrivate x, UpdateShield x]
                    @ concat (map (\<lambda>m. [Skull m x, Shield x m, Skull x m]) (memberList p))
                    @ [Skull (leader p) x, Skull x x, Shield x (leader p), Skull x (leader p),
                       Text x ''You have left the party.'']) w;
          w = updateSharedExperience env g w;
          w = clearPlayerPoints env g x w;
          w = broadcastPartyMessage g (member_name (member_of w x) @ '' has left the party.'') False w
      in if missingLeader \<or> party_empty (the_party g w) then disband env g w else w)"

definition leaveParty :: "party_env \<Rightarrow> nat \<Rightarrow> nat \<Rightarrow> world \<Rightarrow> bool \<times> world" where
  "leaveParty env g x w =
     (if member_party (member_of w x) \<noteq> Some g \<and> leader (the_party g w) \<noteq> x then (False, w)
      else if \<not> onLeave env then (False, w)
      else
        let p = the_party g w;
            (missingLeader, w) =
              (if leader p = x then
                 if memberList p \<noteq> [] then
                   if length (memberList p) = 1 \<and> inviteList p = [] then (True, w)
                   else (False, snd (passPartyLeadership env g (hd (memberList p)) True w))
                 else (True, w)
               else (False, w))
        in (True, leaveRest env g x missingLeader w))"

definition joinParty :: "party_env \<Rightarrow> nat \<Rightarrow> nat \<Rightarrow> world \<Rightarrow> bool \<times> world" where
  "joinParty env g x w =
     (if \<not> onJoin env then (False, w)
      else if x \<notin> set (inviteList (the_party g w)) then (False, w)
      else
        let w = upd_party g (\<lambda>p. p\<lparr>inviteList := remove1 x (inviteList p)\<rparr>) w;
            w = broadcastPartyMessage g (member_name (member_of w x) @ '' has joined the party.'') False w;
            w = setParty x (Some g) w;
            p = the_party g w;
            w = tell ([UpdateShield x] @ concat (map (\<lambda>m. [Skull m x, Shield x m, Skull x m]) (memberList p))
                      @ [Skull x x, Skull (leader p) x, Shield x (leader p), Skull x (leader p)]) w;
            w = upd_party g (\<lambda>p. p\<lparr>memberList := memberList p @ [x]\<rparr>) w;
            w = removePartyInvitation x g w;
            w = updateSharedExperience env g w;
            leaderName = member_name (member_of w (leader (the_party g w)));
            w = tell [Text x (''You have joined '' @ leaderName @ CHR 0x27 # (if last leaderName = CHR ''s'' then '''' else ''s'')
                      @ '' party. Open the party channel to communicate with your companions.'')] w
        in (True, w))"

definition removeInvite :: "party_env \<Rightarrow> nat \<Rightarrow> nat \<Rightarrow> bool \<Rightarrow> world \<Rightarrow> bool \<times> world" where
  "removeInvite env g x removeFromPlayer w =
     (if x \<notin> set (inviteList (the_party g w)) then (False, w)
      else
        let w = upd_party g (\<lambda>p. p\<lparr>inviteList := remove1 x (inviteList p)\<rparr>) w;
            p = the_party g w;
            w = tell [Shield (leader p) x, Shield x (leader p)] w;
            w = (if removeFromPlayer then removePartyInvitation x g w else w)
        in (True, if party_empty p then disband env g w else w))"

definition revokeInvitation :: "party_env \<Rightarrow> nat \<Rightarrow> nat \<Rightarrow> world \<Rightarrow> world" where
  "revokeInvitation env g x w =
     (if \<not> onRevokeInvitation env then w
      else
        let l = leader (the_party g w);
            w = tell [Text x (member_name (member_of w l) @ '' has revoked '' @ (if female (member_of w l) then ''her'' else ''his'') @ '' invitation.''),
                      Text l (''Invitation for '' @ member_name (member_of w x) @ '' has been revoked.'')] w
        in snd (removeInvite env g x True w))"

definition invitePlayer :: "nat \<Rightarrow> nat \<Rightarrow> world \<Rightarrow> bool \<times> world" where
  "invitePlayer g x w =
     (let p = the_party g w; l = leader p in
      if isPlayerInvited x p then (False, w)
      else
        let w = (if party_empty p
                 then tell [Text l (member_name (member_of w x) @ '' has been invited. Open the party channel to communicate with your members.''),
                            UpdateShield l, Skull l l] w
                 else tell [Text l (member_name (member_of w x) @ '' has been invited.'')] w);
            w = upd_party g (\<lambda>p. p\<lparr>inviteList := inviteList p @ [x]\<rparr>) w;
            w = tell [Shield l x, Shield x l] w;
            w = addPartyInvitation x g w;
            w = tell [Text x (member_name (member_of w l) @ '' has invited you to '' @ (if female (member_of w l) then ''her'' else ''his'') @ '' party.'')] w
        in (True, w))"

text \<open>The constructor: \<open>g\<close> is the address of the new object.\<close>

definition new_party :: "nat \<Rightarrow> nat \<Rightarrow> world \<Rightarrow> world" where
  "new_party g l w =
     setParty l (Some g) (w\<lparr>parties := (parties w)(g \<mapsto>
       \<lparr>leader = l, memberList = [], inviteList = [], ticksMap = Map.empty, sharedExpActive = False, sharedExpEnabled = False\<rparr>)\<rparr>)"

section \<open>The handlers of the game\<close>

definition playerInviteToParty :: "party_env \<Rightarrow> nat \<Rightarrow> nat \<Rightarrow> nat \<Rightarrow> world \<Rightarrow> world" where
  "playerInviteToParty env fresh x y w =
     (if x = y \<or> \<not> is_online w x \<or> \<not> is_online w y \<or> isInviting w y x then w
      else if member_party (member_of w y) \<noteq> None
      then tell [Text x (member_name (member_of w y) @ '' is already in a party.'')] w
      else
        let continue = (\<lambda>g w.
              if \<not> onInvite env then
                (if party_empty (the_party g w) then (let w = setParty x None w in w\<lparr>parties := (parties w)(g := None)\<rparr>) else w)
              else snd (invitePlayer g y w))
        in case member_party (member_of w x) of
             None \<Rightarrow> continue fresh (new_party fresh x w)
           | Some g \<Rightarrow> if leader (the_party g w) \<noteq> x then w else continue g w)"

definition playerJoinParty :: "party_env \<Rightarrow> nat \<Rightarrow> nat \<Rightarrow> world \<Rightarrow> world" where
  "playerJoinParty env x l w =
     (if \<not> is_online w x \<or> \<not> is_online w l \<or> \<not> isInviting w l x then w
      else case member_party (member_of w l) of None \<Rightarrow> w
        | Some g \<Rightarrow>
            if leader (the_party g w) \<noteq> l then w
            else if member_party (member_of w x) \<noteq> None then tell [Text x ''You are already in a party.''] w
            else snd (joinParty env g x w))"

definition playerRevokePartyInvitation :: "party_env \<Rightarrow> nat \<Rightarrow> nat \<Rightarrow> world \<Rightarrow> world" where
  "playerRevokePartyInvitation env x y w =
     (if \<not> is_online w x then w
      else case member_party (member_of w x) of None \<Rightarrow> w
        | Some g \<Rightarrow>
            if leader (the_party g w) \<noteq> x then w
            else if \<not> is_online w y \<or> \<not> isInviting w x y then w
            else revokeInvitation env g y w)"

definition playerPassPartyLeadership :: "party_env \<Rightarrow> nat \<Rightarrow> nat \<Rightarrow> world \<Rightarrow> world" where
  "playerPassPartyLeadership env x y w =
     (if \<not> is_online w x then w
      else case member_party (member_of w x) of None \<Rightarrow> w
        | Some g \<Rightarrow>
            if leader (the_party g w) \<noteq> x then w
            else if \<not> is_online w y \<or> \<not> isPartner w x y then w
            else snd (passPartyLeadership env g y False w))"

definition playerLeaveParty :: "party_env \<Rightarrow> nat \<Rightarrow> world \<Rightarrow> world" where
  "playerLeaveParty env x w =
     (if \<not> is_online w x then w
      else case member_party (member_of w x) of None \<Rightarrow> w
        | Some g \<Rightarrow> if infight (member_of w x) then w else snd (leaveParty env g x w))"

definition playerEnableSharedPartyExperience :: "party_env \<Rightarrow> nat \<Rightarrow> bool \<Rightarrow> world \<Rightarrow> world" where
  "playerEnableSharedPartyExperience env x active w =
     (if \<not> is_online w x then w
      else case member_party (member_of w x) of None \<Rightarrow> w
        | Some g \<Rightarrow> if infight (member_of w x) \<and> \<not> inProtectionZone (member_of w x) then w
                  else snd (setSharedExperience env g x active w))"

text \<open>\<open>Player::clearPartyInvitations\<close> and what \<open>onRemoveCreature\<close> does for parties.\<close>

definition clearPartyInvitations :: "party_env \<Rightarrow> nat \<Rightarrow> world \<Rightarrow> world" where
  "clearPartyInvitations env x w =
     (let w = fold (\<lambda>g w. snd (removeInvite env g x False w)) (invitePartyList (member_of w x)) w
      in upd_member x (\<lambda>m. m\<lparr>invitePartyList := []\<rparr>) w)"

definition party_logout :: "party_env \<Rightarrow> nat \<Rightarrow> world \<Rightarrow> world" where
  "party_logout env x w =
     (let w = clearPartyInvitations env x w;
          w = (case member_party (member_of w x) of None \<Rightarrow> w | Some g \<Rightarrow> snd (leaveParty env g x w))
      in w\<lparr>is_online := (is_online w)(x := False)\<rparr>)"

section \<open>The structure of the parties\<close>

text \<open>What remains of the state when experience, notices and players' properties are left out:
  who belongs to which party, who is asked into which, and each party's leader, members and
  invitees.\<close>

record roster =
  belongs :: "nat \<Rightarrow> nat option"
  asked :: "nat \<Rightarrow> nat list"
  around :: "nat \<Rightarrow> bool"
  groups :: "nat \<Rightarrow> (nat \<times> nat list \<times> nat list) option"

definition group_of :: "party \<Rightarrow> nat \<times> nat list \<times> nat list" where
  "group_of p = (leader p, memberList p, inviteList p)"

definition roster :: "world \<Rightarrow> roster" where
  "roster w = \<lparr>belongs = (\<lambda>x. member_party (member_of w x)), asked = (\<lambda>x. invitePartyList (member_of w x)),
     around = is_online w, groups = (\<lambda>g. map_option group_of (parties w g))\<rparr>"

definition set_group :: "nat \<Rightarrow> nat \<times> nat list \<times> nat list \<Rightarrow> roster \<Rightarrow> roster" where
  "set_group g v r = r\<lparr>groups := (groups r)(g \<mapsto> v)\<rparr>"

lemma roster_sel:
  "belongs (roster w) x = member_party (member_of w x)" "asked (roster w) x = invitePartyList (member_of w x)"
  "around (roster w) = is_online w" "groups (roster w) g = map_option group_of (parties w g)"
  by (simp_all add: roster_def)

lemma roster_tell [simp]: "roster (tell ns w) = roster w"
  by (simp add: roster_def tell_def)

lemma roster_setParty [simp]: "roster (setParty x g w) = (roster w)\<lparr>belongs := (belongs (roster w))(x := g)\<rparr>"
  by (auto simp: roster_def setParty_def upd_member_def fun_eq_iff)

lemma roster_removePartyInvitation [simp]:
  "roster (removePartyInvitation x g w) = (roster w)\<lparr>asked := (asked (roster w))(x := removeAll g (asked (roster w) x))\<rparr>"
  by (auto simp: roster_def removePartyInvitation_def upd_member_def fun_eq_iff)

lemma roster_addPartyInvitation [simp]:
  "roster (addPartyInvitation x g w) = (roster w)\<lparr>asked := (asked (roster w))(x :=
     (if g \<in> set (asked (roster w) x) then asked (roster w) x else g # asked (roster w) x))\<rparr>"
  by (auto simp: roster_def addPartyInvitation_def upd_member_def fun_eq_iff)

lemma roster_upd_member:
  "member_party (f (member_of w x)) = member_party (member_of w x) \<Longrightarrow>
   invitePartyList (f (member_of w x)) = invitePartyList (member_of w x) \<Longrightarrow> roster (upd_member x f w) = roster w"
  by (auto simp: roster_def upd_member_def fun_eq_iff)

lemma roster_upd_party:
  "parties w g = Some p \<Longrightarrow> roster (upd_party g f w) = set_group g (group_of (f p)) (roster w)"
  by (auto simp: roster_def upd_party_def set_group_def fun_eq_iff)

lemma roster_upd_party_same:
  "(\<And>p. group_of (f p) = group_of p) \<Longrightarrow> roster (upd_party g f w) = roster w"
  by (auto simp: roster_def upd_party_def fun_eq_iff option.map_comp comp_def)

lemma parties_tell [simp]: "parties (tell ns w) = parties w"
  by (simp add: tell_def)

lemma parties_upd_member [simp]: "parties (upd_member x f w) = parties w"
  by (simp add: upd_member_def)

lemma parties_setParty [simp]: "parties (setParty x g w) = parties w"
  by (simp add: setParty_def)

lemma parties_invitation [simp]:
  "parties (removePartyInvitation x g w) = parties w" "parties (addPartyInvitation x g w) = parties w"
  by (simp_all add: removePartyInvitation_def addPartyInvitation_def)

lemma parties_upd_party [simp]: "parties (upd_party g f w) = (parties w)(g := map_option f (parties w g))"
  by (simp add: upd_party_def)

lemma roster_updateSharedExperience [simp]: "roster (updateSharedExperience env g w) = roster w"
  by (simp add: updateSharedExperience_def updateAllPartyIcons_def Let_def roster_upd_party_same group_of_def)

lemma roster_broadcast [simp]: "roster (broadcastPartyMessage g msg b w) = roster w"
  by (simp add: broadcastPartyMessage_def Let_def)

lemma parties_broadcast [simp]: "parties (broadcastPartyMessage g msg b w) = parties w"
  by (simp add: broadcastPartyMessage_def Let_def)

lemma roster_clearPlayerPoints [simp]: "roster (clearPlayerPoints env g x w) = roster w"
  by (simp add: clearPlayerPoints_def roster_upd_party_same group_of_def split: option.split)

lemma roster_updatePlayerTicks [simp]: "roster (updatePlayerTicks env g x points w) = roster w"
  by (simp add: updatePlayerTicks_def roster_upd_party_same group_of_def)

lemma roster_setSharedExperience [simp]: "roster (snd (setSharedExperience env g x active w)) = roster w"
  by (simp add: setSharedExperience_def updateAllPartyIcons_def Let_def roster_upd_party_same group_of_def)

text \<open>The group of a party, read back from the structure.\<close>

lemma the_party_group:
  "groups (roster w) g = Some (l, ms, is) \<Longrightarrow>
     leader (the_party g w) = l \<and> memberList (the_party g w) = ms \<and> inviteList (the_party g w) = is"
  by (auto simp: roster_def the_party_def group_of_def)

lemma roster_group_update:
  assumes "groups (roster w) g = Some (l, ms, is)"
  shows "roster (upd_party g (\<lambda>p. p\<lparr>memberList := f (memberList p)\<rparr>) w) = set_group g (l, f ms, is) (roster w)"
    and "roster (upd_party g (\<lambda>p. p\<lparr>inviteList := f (inviteList p)\<rparr>) w) = set_group g (l, ms, f is) (roster w)"
    and "roster (upd_party g (\<lambda>p. p\<lparr>leader := x, memberList := f (memberList p)\<rparr>) w) = set_group g (x, f ms, is) (roster w)"
  using assms by (auto simp: roster_def upd_party_def set_group_def group_of_def fun_eq_iff)

lemma groups_set_group [simp]: "groups (set_group g v r) h = (if h = g then Some v else groups r h)"
  by (simp add: set_group_def)

lemma set_group_frame [simp]:
  "belongs (set_group g v r) = belongs r" "asked (set_group g v r) = asked r" "around (set_group g v r) = around r"
  by (simp_all add: set_group_def)

lemma set_group_set_group [simp]: "set_group g v (set_group g u r) = set_group g v r"
  by (simp add: set_group_def)

lemma set_group_belongs [simp]: "(set_group g v r)\<lparr>belongs := b\<rparr> = set_group g v (r\<lparr>belongs := b\<rparr>)"
  by (simp add: set_group_def)

lemma set_group_asked [simp]: "(set_group g v r)\<lparr>asked := a\<rparr> = set_group g v (r\<lparr>asked := a\<rparr>)"
  by (simp add: set_group_def)

lemma groups_belongs [simp]: "groups (r\<lparr>belongs := b\<rparr>) = groups r" "groups (r\<lparr>asked := a\<rparr>) = groups r"
  by simp_all

lemma roster_delete [simp]:
  "roster (w\<lparr>parties := (parties w)(g := None)\<rparr>) = (roster w)\<lparr>groups := (groups (roster w))(g := None)\<rparr>"
  by (auto simp: roster_def fun_eq_iff)

text \<open>The operations on this structure; \<open>b\<close> says that scripts let the party disband.\<close>

definition r_disband :: "nat \<Rightarrow> nat \<times> nat list \<times> nat list \<Rightarrow> roster \<Rightarrow> roster" where
  "r_disband g v r =
     (case v of (l, ms, is) \<Rightarrow>
        r\<lparr>belongs := (\<lambda>x. if x = l \<or> x \<in> set ms then None else belongs r x),
          asked := (\<lambda>x. if x \<in> set is then removeAll g (asked r x) else asked r x),
          groups := (groups r)(g := None)\<rparr>)"

definition r_settle :: "bool \<Rightarrow> nat \<Rightarrow> nat \<times> nat list \<times> nat list \<Rightarrow> roster \<Rightarrow> roster" where
  "r_settle b g v r = (case v of (l, ms, is) \<Rightarrow> if b \<and> ms = [] \<and> is = [] then r_disband g v r else set_group g v r)"

text \<open>A leader who leaves when there is nobody to take over: the party is disbanded.\<close>

definition r_alone :: "nat \<Rightarrow> nat \<times> nat list \<times> nat list \<Rightarrow> bool" where
  "r_alone x v = (case v of (l, ms, is) \<Rightarrow> x = l \<and> (ms = [] \<or> length ms = 1 \<and> is = []))"

definition r_leave :: "bool \<Rightarrow> nat \<Rightarrow> nat \<Rightarrow> nat \<times> nat list \<times> nat list \<Rightarrow> roster \<Rightarrow> roster" where
  "r_leave b g x v r =
     (case v of (l, ms, is) \<Rightarrow>
        if r_alone x v then r_disband g v r
        else if x = l then set_group g (hd ms, tl ms, is) (r\<lparr>belongs := (belongs r)(x := None)\<rparr>)
        else r_settle b g (l, remove1 x ms, is) (r\<lparr>belongs := (belongs r)(x := None)\<rparr>))"

lemma roster_fold_invitees:
  "roster (fold (\<lambda>i w. tell (ns i) (removePartyInvitation i g w)) is w) =
     (roster w)\<lparr>asked := (\<lambda>x. if x \<in> set is then removeAll g (asked (roster w) x) else asked (roster w) x)\<rparr>"
  by (induction "is" arbitrary: w) (auto simp: fun_eq_iff intro!: arg_cong [where f = "\<lambda>a. (roster w)\<lparr>asked := a\<rparr>" for w])

lemma roster_fold_members:
  "roster (fold (\<lambda>m w. tell (ns m) (setParty m None w)) ms w) =
     (roster w)\<lparr>belongs := (\<lambda>x. if x \<in> set ms then None else belongs (roster w) x)\<rparr>"
  by (induction ms arbitrary: w) (auto simp: fun_eq_iff intro!: arg_cong [where f = "\<lambda>a. (roster w)\<lparr>belongs := a\<rparr>" for w])

lemma roster_fold_tell: "roster (fold (\<lambda>m w. tell (ns m) w) ms w) = roster w"
  by (induction ms arbitrary: w) auto

lemma roster_disband:
  assumes "groups (roster w) g = Some v" "onDisband env"
  shows "roster (disband env g w) = r_disband g v (roster w)"
proof -
  obtain l ms "is" where v: "v = (l, ms, is)" by (cases v) auto
  show ?thesis
    using the_party_group [of w g l ms "is"] assms
    by (simp add: v disband_def Let_def roster_fold_invitees roster_fold_members roster_fold_tell r_disband_def
        cong: if_cong)
      (auto simp: fun_eq_iff intro!: roster.equality)
qed

lemma disband_vetoed: "\<not> onDisband env \<Longrightarrow> disband env g w = w"
  by (simp add: disband_def)

lemma roster_pass:
  assumes "groups (roster w) g = Some (l, ms, is)" "l \<noteq> x" "belongs (roster w) x = Some g"
    and "onPassLeadership env \<or> forced"
  shows "fst (passPartyLeadership env g x forced w)
    \<and> roster (snd (passPartyLeadership env g x forced w)) = set_group g (x, l # remove1 x ms, is) (roster w)"
proof -
  note grp = roster_group_update [OF assms(1)]
  let ?w = "upd_party g (\<lambda>p. p\<lparr>memberList := remove1 x (memberList p)\<rparr>) w"
  have w: "groups (roster ?w) g = Some (l, remove1 x ms, is)" by (simp add: grp)
  then have w': "groups (roster (broadcastPartyMessage g msg b ?w)) g = Some (l, remove1 x ms, is)" for msg b
    by simp
  show ?thesis
    using assms(2-4) the_party_group [OF assms(1)] the_party_group [OF w'] roster_group_update(3) [OF w']
    by (simp add: passPartyLeadership_def Let_def roster_sel grp)
qed

lemma roster_leaveRest:
  assumes "groups (roster w) g = Some (l, ms, is)"
  shows "roster (leaveRest env g x missing w) =
    (let v = (l, remove1 x ms, is); r = set_group g v ((roster w)\<lparr>belongs := (belongs (roster w))(x := None)\<rparr>)
     in if onDisband env \<and> (missing \<or> remove1 x ms = [] \<and> is = []) then r_disband g v r else r)"
proof -
  let ?v = "(l, remove1 x ms, is)"
  let ?r = "set_group g ?v ((roster w)\<lparr>belongs := (belongs (roster w))(x := None)\<rparr>)"
  define u where "u = setParty x None (upd_party g (\<lambda>p. p\<lparr>memberList := remove1 x (memberList p)\<rparr>) w)"
  define u' where "u' = (let p = the_party g u;
          w = tell ([ClosePrivate x, UpdateShield x]
                    @ concat (map (\<lambda>m. [Skull m x, Shield x m, Skull x m]) (memberList p))
                    @ [Skull (leader p) x, Skull x x, Shield x (leader p), Skull x (leader p),
                       Text x ''You have left the party.'']) u;
          w = updateSharedExperience env g w;
          w = clearPlayerPoints env g x w
      in broadcastPartyMessage g (member_name (member_of w x) @ '' has left the party.'') False w)"
  have u': "roster u' = ?r" using assms(1) by (simp add: u'_def u_def Let_def roster_group_update)
  then have grp: "groups (roster u') g = Some ?v" by simp
  have "leaveRest env g x missing w = (if missing \<or> party_empty (the_party g u') then disband env g u' else u')"
    by (simp add: leaveRest_def u'_def u_def Let_def)
  then show ?thesis
    using roster_disband [OF grp] disband_vetoed [of env g u'] the_party_group [OF grp] u'
    by (auto simp: party_empty_def Let_def)
qed

lemma r_disband_absorb:
  "x = l \<or> x \<in> set ms \<Longrightarrow> r_disband g (l, ms, is) (r\<lparr>belongs := (belongs r)(x := None)\<rparr>) = r_disband g (l, ms, is) r"
  by (auto simp: r_disband_def fun_eq_iff intro!: roster.equality)

lemma r_disband_set_group [simp]: "r_disband g v (set_group g u r) = r_disband g v r"
  by (cases v) (auto simp: r_disband_def fun_eq_iff set_group_def intro!: roster.equality)

section \<open>Consistency\<close>

text \<open>Parties and players agree, and no pointer dangles; in a \<open>t\<close>idy state no party is empty.\<close>

definition group_ok :: "bool \<Rightarrow> roster \<Rightarrow> nat \<Rightarrow> nat \<times> nat list \<times> nat list \<Rightarrow> bool" where
  "group_ok t r g v \<longleftrightarrow>
     (case v of (l, ms, is) \<Rightarrow>
        distinct (l # ms) \<and> distinct is \<and> (t \<longrightarrow> ms \<noteq> [] \<or> is \<noteq> []) \<and> set is \<inter> set (l # ms) = {} \<and>
        (\<forall>x. belongs r x = Some g \<longleftrightarrow> x \<in> set (l # ms)) \<and> (\<forall>x. g \<in> set (asked r x) \<longleftrightarrow> x \<in> set is))"

definition unused :: "roster \<Rightarrow> nat \<Rightarrow> bool" where
  "unused r g \<longleftrightarrow> (\<forall>x. belongs r x \<noteq> Some g \<and> g \<notin> set (asked r x))"

definition roster_ok :: "bool \<Rightarrow> roster \<Rightarrow> bool" where
  "roster_ok t r \<longleftrightarrow>
     (\<forall>g. case groups r g of None \<Rightarrow> unused r g | Some v \<Rightarrow> group_ok t r g v) \<and>
     (\<forall>x. distinct (asked r x)) \<and>
     (\<forall>x. \<not> around r x \<longrightarrow> belongs r x = None \<and> asked r x = [])"

lemma roster_okD:
  assumes "roster_ok t r"
  shows "groups r g = Some v \<Longrightarrow> group_ok t r g v" "groups r g = None \<Longrightarrow> unused r g"
    "distinct (asked r x)" "\<not> around r x \<Longrightarrow> belongs r x = None \<and> asked r x = []"
  using assms unfolding roster_ok_def by (auto dest!: spec [of _ g])

lemma belongs_group: "roster_ok t r \<Longrightarrow> belongs r x = Some g \<Longrightarrow>
    \<exists>l ms is. groups r g = Some (l, ms, is) \<and> x \<in> set (l # ms) \<and> group_ok t r g (l, ms, is)"
  using roster_okD(1) [of t r g] roster_okD(2) [of t r g]
  by (cases "groups r g") (auto simp: unused_def group_ok_def)

lemma asked_group: "roster_ok t r \<Longrightarrow> g \<in> set (asked r x) \<Longrightarrow>
    \<exists>l ms is. groups r g = Some (l, ms, is) \<and> x \<in> set is \<and> group_ok t r g (l, ms, is)"
  using roster_okD(1) [of t r g] roster_okD(2) [of t r g]
  by (cases "groups r g") (auto simp: unused_def group_ok_def)

text \<open>A change to one group: the other groups, and what does not mention it, stay as they are.\<close>

lemma roster_ok_change:
  assumes "roster_ok t r"
    and "\<And>x. x \<notin> A \<Longrightarrow> belongs r' x = belongs r x"
    and "\<And>x. x \<in> A \<Longrightarrow> belongs r x \<in> {None, Some g} \<and> belongs r' x \<in> {None, Some g}"
    and "\<And>x. removeAll g (asked r' x) = removeAll g (asked r x)" "\<And>x. distinct (asked r' x)"
    and "\<And>h. h \<noteq> g \<Longrightarrow> groups r' h = groups r h"
    and "around r' = around r" "\<And>x. \<not> around r x \<Longrightarrow> belongs r' x = None \<and> asked r' x = []"
    and "case groups r' g of None \<Rightarrow> unused r' g | Some v \<Rightarrow> group_ok t r' g v"
  shows "roster_ok t r'"
  unfolding roster_ok_def
proof (intro conjI allI impI)
  have b: "belongs r' x = Some h \<longleftrightarrow> belongs r x = Some h" if "h \<noteq> g" for x h
    using assms(2,3) that by (cases "x \<in> A") fastforce+
  have a: "h \<in> set (asked r' x) \<longleftrightarrow> h \<in> set (asked r x)" if "h \<noteq> g" for x h
    using arg_cong [OF assms(4) [of x], of set] that by auto
  fix h
  show "case groups r' h of None \<Rightarrow> unused r' h | Some v \<Rightarrow> group_ok t r' h v"
  proof (cases "h = g")
    case False
    then show ?thesis
      using roster_okD(1,2) [OF assms(1), of h] a [OF False] b [OF False] assms(6) [OF False]
      by (auto simp: unused_def group_ok_def split: option.splits prod.splits)
  qed (use assms(9) in \<open>auto split: option.splits\<close>)
qed (use assms in auto)

lemma group_okD:
  assumes "group_ok t r g (l, ms, is)"
  shows "distinct (l # ms)" "distinct is" "t \<longrightarrow> ms \<noteq> [] \<or> is \<noteq> []" "set is \<inter> set (l # ms) = {}"
    "belongs r x = Some g \<longleftrightarrow> x \<in> set (l # ms)" "g \<in> set (asked r x) \<longleftrightarrow> x \<in> set is"
  using assms by (simp_all add: group_ok_def)

lemma ok_disband:
  assumes "roster_ok t r" "groups r g = Some v"
  shows "roster_ok t (r_disband g v r)"
proof -
  obtain l ms "is" where v: "v = (l, ms, is)" by (cases v) auto
  note ok = group_okD [OF roster_okD(1) [OF assms, unfolded v]]
  show ?thesis
  proof (rule roster_ok_change [OF assms(1), of "set (l # ms)" _ g])
    fix x
    show "\<not> around r x \<Longrightarrow> belongs (r_disband g v r) x = None \<and> asked (r_disband g v r) x = []"
      using roster_okD(4) [OF assms(1), of x] by (auto simp: r_disband_def v)
    show "distinct (asked (r_disband g v r) x)"
      using roster_okD(3) [OF assms(1), of x] by (simp add: r_disband_def v distinct_removeAll)
    show "x \<in> set (l # ms) \<Longrightarrow> belongs r x \<in> {None, Some g} \<and> belongs (r_disband g v r) x \<in> {None, Some g}"
      using ok(5) [of x] by (auto simp: r_disband_def v)
    show "case groups (r_disband g v r) g of None \<Rightarrow> unused (r_disband g v r) g | Some u \<Rightarrow> group_ok t (r_disband g v r) g u"
      using ok(5,6) by (auto simp: r_disband_def v unused_def)
  qed (auto simp: r_disband_def v)
qed

lemma ok_set_group:
  assumes "roster_ok t r" "groups r g = Some v" "group_ok t (r\<lparr>belongs := (belongs r)(x := b)\<rparr>) g u"
    and "belongs r x \<in> {None, Some g}" "b = None \<or> b = Some g \<and> around r x"
  shows "roster_ok t (set_group g u (r\<lparr>belongs := (belongs r)(x := b)\<rparr>))"
proof (rule roster_ok_change [OF assms(1), of "{x}" _ g])
  fix y
  show "\<not> around r y \<Longrightarrow> belongs (set_group g u (r\<lparr>belongs := (belongs r)(x := b)\<rparr>)) y = None \<and>
      asked (set_group g u (r\<lparr>belongs := (belongs r)(x := b)\<rparr>)) y = []"
    using roster_okD(4) [OF assms(1), of y] assms(5) by auto
  show "case groups (set_group g u (r\<lparr>belongs := (belongs r)(x := b)\<rparr>)) g of
      None \<Rightarrow> unused (set_group g u (r\<lparr>belongs := (belongs r)(x := b)\<rparr>)) g
    | Some w \<Rightarrow> group_ok t (set_group g u (r\<lparr>belongs := (belongs r)(x := b)\<rparr>)) g w"
    using assms(3) by (simp add: group_ok_def)
qed (use assms(4,5) roster_okD(3) [OF assms(1)] in auto)

lemma ok_leave:
  assumes "roster_ok t r" "groups r g = Some (l, ms, is)" "belongs r x = Some g" "t \<longrightarrow> b"
  shows "roster_ok t (r_leave b g x (l, ms, is) r)"
proof -
  note ok = group_okD [OF roster_okD(1) [OF assms(1,2)]]
  consider (disband) "r_alone x (l, ms, is)"
    | (pass) "x = l" "\<not> (ms = [] \<or> length ms = 1 \<and> is = [])" "\<not> r_alone x (l, ms, is)"
    | (last) "x \<noteq> l" "remove1 x ms = []" "is = []" "b"
    | (leave) "x \<noteq> l" "b \<longrightarrow> remove1 x ms \<noteq> [] \<or> is \<noteq> []" by (auto simp: r_alone_def)
  then show ?thesis
  proof cases
    case disband
    then show ?thesis using ok_disband [OF assms(1,2)] by (simp add: r_leave_def)
  next
    case pass
    then obtain y ys where ms: "ms = y # ys" by (cases ms) auto
    have "group_ok t (r\<lparr>belongs := (belongs r)(x := None)\<rparr>) g (y, ys, is)"
      using ok pass ms by (auto simp: group_ok_def)
    then show ?thesis using ok_set_group [OF assms(1,2), of x None "(y, ys, is)"] assms(3) pass ms
      by (auto simp: r_leave_def)
  next
    case last
    have "x \<in> set ms" using ok(5) [of x] assms(3) last(1) by simp
    then have "ms = [x]" using last(2) by (cases ms) (auto split: if_splits)
    then have "r_leave b g x (l, ms, is) r = r_disband g (l, ms, is) r"
      using last by (auto simp: r_leave_def r_alone_def r_settle_def r_disband_def fun_eq_iff intro!: roster.equality)
    then show ?thesis using ok_disband [OF assms(1,2)] by simp
  next
    case leave
    have "group_ok t (r\<lparr>belongs := (belongs r)(x := None)\<rparr>) g (l, remove1 x ms, is)"
      using ok leave assms(4) by (auto simp: group_ok_def dest: notin_set_remove1)
    then show ?thesis
      using ok_set_group [OF assms(1,2), of x None "(l, remove1 x ms, is)"] assms(3) leave
      by (auto simp: r_leave_def r_alone_def r_settle_def)
  qed
qed

section \<open>The operations on a consistent state\<close>

lemma roster_leave:
  assumes "roster_ok t (roster w)" "groups (roster w) g = Some (l, ms, is)" "belongs (roster w) x = Some g"
    and "onDisband env \<or> \<not> r_alone x (l, ms, is)" "onLeave env"
  shows "roster (snd (leaveParty env g x w)) = r_leave (onDisband env) g x (l, ms, is) (roster w)"
proof -
  note ok = group_okD [OF roster_okD(1) [OF assms(1,2)]]
  note p = the_party_group [OF assms(2)]
  have x: "member_party (member_of w x) = Some g" using assms(3) by (simp add: roster_sel)
  consider (member) "x \<noteq> l" | (last) "x = l" "ms = [] \<or> length ms = 1 \<and> is = []"
    | (pass) "x = l" "ms \<noteq> []" "\<not> (length ms = 1 \<and> is = [])" by blast
  then show ?thesis
  proof cases
    case member
    have "x \<in> set ms" using ok(5) [of x] assms(3) member by simp
    then show ?thesis
      using member assms(5) p x roster_leaveRest [OF assms(2), of env x False]
        r_disband_absorb [of x l ms g "is" "roster w"]
      by (auto simp: leaveParty_def r_leave_def r_alone_def r_settle_def Let_def)
  next
    case last
    have "remove1 l ms = ms" using ok(1) by (simp add: remove1_idem)
    then show ?thesis
      using last assms(4,5) p x roster_leaveRest [OF assms(2), of env x True]
        r_disband_absorb [of x l ms g "is" "roster w"]
      by (auto simp: leaveParty_def r_leave_def r_alone_def Let_def)
  next
    case pass
    then obtain y ys where ms: "ms = y # ys" by (cases ms) auto
    then have "y \<noteq> l" "y \<notin> set ys" "belongs (roster w) y = Some g" using ok(1) ok(5) [of y] by auto
    then have pass': "roster (snd (passPartyLeadership env g y True w)) = set_group g (y, l # ys, is) (roster w)"
      using roster_pass [OF assms(2), of y env True] ms by simp
    then have "groups (roster (snd (passPartyLeadership env g y True w))) g = Some (y, l # ys, is)" by simp
    from roster_leaveRest [OF this, of env x False] show ?thesis
      using pass ms assms(5) p x pass'
      by (auto simp: leaveParty_def r_leave_def r_alone_def Let_def)
  qed
qed

text \<open>What the leaving of a player needs of the scripts: a leader without a successor can only
  leave when the party may disband.\<close>

definition may_go :: "party_env \<Rightarrow> nat \<Rightarrow> world \<Rightarrow> bool" where
  "may_go env x w \<longleftrightarrow> onDisband env \<or>
     (case belongs (roster w) x of None \<Rightarrow> True
      | Some g \<Rightarrow> (case groups (roster w) g of None \<Rightarrow> True | Some v \<Rightarrow> \<not> r_alone x v))"

lemma ok_leaveParty:
  assumes "roster_ok t (roster w)" "parties w g = Some p" "may_go env x w" "t \<longrightarrow> onDisband env"
  shows "roster_ok t (roster (snd (leaveParty env g x w)))"
proof -
  obtain l ms "is" where grp: "groups (roster w) g = Some (l, ms, is)"
    using assms(2) by (simp add: roster_sel group_of_def)
  note ok = group_okD [OF roster_okD(1) [OF assms(1) grp]]
  show ?thesis
  proof (cases "belongs (roster w) x = Some g \<and> onLeave env")
    case True
    then have "onDisband env \<or> \<not> r_alone x (l, ms, is)" using assms(3) grp by (simp add: may_go_def)
    then show ?thesis
      using roster_leave [OF assms(1) grp] ok_leave [OF assms(1) grp _ assms(4)] True by metis
  next
    case False
    then show ?thesis
      using assms(1) ok(5) [of l] the_party_group [OF grp] by (auto simp: leaveParty_def roster_sel)
  qed
qed

lemma ok_pass:
  assumes "roster_ok t (roster w)" "groups (roster w) g = Some (l, ms, is)"
  shows "roster_ok t (roster (snd (passPartyLeadership env g x forced w)))"
proof (cases "l \<noteq> x \<and> belongs (roster w) x = Some g \<and> (onPassLeadership env \<or> forced)")
  case True
  note ok = group_okD [OF roster_okD(1) [OF assms]]
  have "x \<in> set ms" using ok(5) [of x] True by auto
  moreover have "l \<noteq> x" "belongs (roster w) l = Some g" using True ok(5) [of l] by auto
  moreover from calculation have "group_ok t (roster w) g (x, l # remove1 x ms, is)"
    using ok by (auto simp: group_ok_def)
  ultimately have "roster_ok t (set_group g (x, l # remove1 x ms, is) ((roster w)\<lparr>belongs := (belongs (roster w))(x := Some g)\<rparr>))"
    using True roster_okD(4) [OF assms(1), of x]
    by (intro ok_set_group [OF assms]) (auto simp: fun_upd_idem)
  then show ?thesis using roster_pass [OF assms(2), of x env forced] True by (simp add: fun_upd_idem)
next
  case False
  then show ?thesis using assms(1) the_party_group [OF assms(2)]
    by (auto simp: passPartyLeadership_def roster_sel)
qed

definition set_asked :: "nat \<Rightarrow> nat list \<Rightarrow> roster \<Rightarrow> roster" where
  "set_asked x a r = r\<lparr>asked := (asked r)(x := a)\<rparr>"

lemma set_asked_sel [simp]:
  "asked (set_asked x a r) y = (if y = x then a else asked r y)" "belongs (set_asked x a r) = belongs r"
  "groups (set_asked x a r) = groups r" "around (set_asked x a r) = around r"
  by (simp_all add: set_asked_def)

lemma ok_set_asked:
  assumes "roster_ok t r" "groups r g = Some v" "group_ok t (set_asked x a (r\<lparr>belongs := (belongs r)(x := b)\<rparr>)) g u"
    and "belongs r x \<in> {None, Some g}" "b = belongs r x \<or> b = Some g \<and> around r x"
    and "removeAll g a = removeAll g (asked r x)" "distinct a" "a = [] \<or> around r x"
  shows "roster_ok t (set_group g u (set_asked x a (r\<lparr>belongs := (belongs r)(x := b)\<rparr>)))"
proof (rule roster_ok_change [OF assms(1), of "{x}" _ g])
  fix y
  show "\<not> around r y \<Longrightarrow> belongs (set_group g u (set_asked x a (r\<lparr>belongs := (belongs r)(x := b)\<rparr>))) y = None \<and>
      asked (set_group g u (set_asked x a (r\<lparr>belongs := (belongs r)(x := b)\<rparr>))) y = []"
    using roster_okD(4) [OF assms(1), of y] assms(5,8) by auto
  show "case groups (set_group g u (set_asked x a (r\<lparr>belongs := (belongs r)(x := b)\<rparr>))) g of
      None \<Rightarrow> unused (set_group g u (set_asked x a (r\<lparr>belongs := (belongs r)(x := b)\<rparr>))) g
    | Some w \<Rightarrow> group_ok t (set_group g u (set_asked x a (r\<lparr>belongs := (belongs r)(x := b)\<rparr>))) g w"
    using assms(3) by (simp add: group_ok_def)
qed (use assms roster_okD(3) [OF assms(1)] in \<open>auto split: if_splits\<close>)

lemma belongs_upd_same [simp]: "r\<lparr>belongs := (belongs r)(x := belongs r x)\<rparr> = r"
  by (simp add: fun_upd_idem)

lemma ok_uninvite:
  assumes "roster_ok t r" "groups r g = Some (l, ms, is)" "x \<in> set is" "t \<longrightarrow> b"
  shows "roster_ok t (r_settle b g (l, ms, remove1 x is) (set_asked x (removeAll g (asked r x)) r))"
proof -
  note ok = group_okD [OF roster_okD(1) [OF assms(1,2)]]
  have around: "around r x"
  proof (rule ccontr)
    assume "\<not> around r x"
    then show False using roster_okD(4) [OF assms(1), of x] ok(6) [of x] assms(3) by simp
  qed
  show ?thesis
  proof (cases "b \<and> ms = [] \<and> remove1 x is = []")
    case True
    then have "is = [x]" using assms(3) by (cases "is") (auto split: if_splits)
    then have "r_settle b g (l, ms, remove1 x is) (set_asked x (removeAll g (asked r x)) r) = r_disband g (l, ms, is) r"
      using True by (auto simp: r_settle_def r_disband_def set_asked_def fun_eq_iff intro!: roster.equality)
    then show ?thesis using ok_disband [OF assms(1,2)] by simp
  next
    case False
    have "x \<notin> set (l # ms)" using ok(4) assms(3) by auto
    then have "belongs r x \<noteq> Some g" using ok(5) by blast
    have "group_ok t (set_asked x (removeAll g (asked r x)) r) g (l, ms, remove1 x is)"
      using ok False assms(4) by (auto simp: group_ok_def dest: notin_set_remove1)
    then have "group_ok t (set_group g (l, ms, remove1 x is) (set_asked x (removeAll g (asked r x)) r)) g (l, ms, remove1 x is)"
      by (simp add: group_ok_def)
    then have "roster_ok t (set_group g (l, ms, remove1 x is) (set_asked x (removeAll g (asked r x)) r))"
      using around roster_okD(3) [OF assms(1)] roster_okD(4) [OF assms(1)]
      by (intro roster_ok_change [OF assms(1), of "{}" _ g]) (auto simp: distinct_removeAll)
    then show ?thesis using False by (auto simp: r_settle_def)
  qed
qed

lemma roster_removeInvite:
  assumes "groups (roster w) g = Some (l, ms, is)" "x \<in> set is"
  shows "roster (snd (removeInvite env g x b w)) =
    r_settle (onDisband env) g (l, ms, remove1 x is) (if b then set_asked x (removeAll g (asked (roster w) x)) (roster w) else roster w)"
proof -
  define u where "u = upd_party g (\<lambda>p. p\<lparr>inviteList := remove1 x (inviteList p)\<rparr>) w"
  define u' where "u' = (let w = tell [Shield (leader (the_party g u)) x, Shield x (leader (the_party g u))] u
      in if b then removePartyInvitation x g w else w)"
  have u': "roster u' = set_group g (l, ms, remove1 x is)
      (if b then set_asked x (removeAll g (asked (roster w) x)) (roster w) else roster w)"
    using assms(1) by (simp add: u'_def u_def Let_def roster_group_update set_asked_def)
  then have grp: "groups (roster u') g = Some (l, ms, remove1 x is)" by simp
  have "the_party g u' = the_party g u"
    by (simp add: u'_def Let_def the_party_def)
  then have "snd (removeInvite env g x b w) = (if party_empty (the_party g u') then disband env g u' else u')"
    using assms(2) the_party_group [OF assms(1)]
    by (simp add: removeInvite_def u'_def u_def Let_def)
  then show ?thesis
    using roster_disband [OF grp] disband_vetoed [of env g u'] the_party_group [OF grp] u'
    by (auto simp: party_empty_def r_settle_def Let_def)
qed

lemma ok_removeInvite:
  assumes "roster_ok t (roster w)" "t \<longrightarrow> onDisband env" "groups (roster w) g = Some v"
  shows "roster_ok t (roster (snd (removeInvite env g x True w)))"
proof -
  obtain l ms "is" where v: "groups (roster w) g = Some (l, ms, is)" using assms(3) by (cases v) auto
  show ?thesis
  proof (cases "x \<in> set is")
    case True
    then show ?thesis using roster_removeInvite [OF v True] ok_uninvite [OF assms(1) v True assms(2)] by simp
  next
    case False
    then show ?thesis using the_party_group [OF v] assms(1) by (simp add: removeInvite_def)
  qed
qed

text \<open>During \<open>clearPartyInvitations\<close> the player's own list is stale; \<open>gs\<close> is what is left of it.\<close>

lemma ok_clear_fold:
  assumes "roster_ok t (set_asked x gs (roster w))" "t \<longrightarrow> onDisband env"
  shows "roster_ok t (set_asked x [] (roster (fold (\<lambda>g w. snd (removeInvite env g x False w)) gs w))) \<and>
    belongs (roster (fold (\<lambda>g w. snd (removeInvite env g x False w)) gs w)) x = belongs (roster w) x"
  using assms(1)
proof (induction gs arbitrary: w)
  case (Cons g gs)
  let ?r = "set_asked x (g # gs) (roster w)"
  obtain l ms "is" where grp: "groups ?r g = Some (l, ms, is)" "x \<in> set is"
    using asked_group [OF Cons.prems, of g x] by auto
  have gs: "g \<notin> set gs" using roster_okD(3) [OF Cons.prems, of x] by simp
  note ok = group_okD [OF roster_okD(1) [OF Cons.prems grp(1)]]
  have grp': "groups (roster w) g = Some (l, ms, is)" using grp(1) by simp
  have "r_settle (onDisband env) g (l, ms, remove1 x is) (set_asked x (removeAll g (asked ?r x)) ?r)
      = set_asked x gs (roster (snd (removeInvite env g x False w)))"
    using gs ok(2) unfolding roster_removeInvite [OF grp' grp(2)]
    by (auto simp: r_settle_def r_disband_def set_group_def set_asked_def fun_eq_iff removeAll_id intro!: roster.equality)
  then have "roster_ok t (set_asked x gs (roster (snd (removeInvite env g x False w))))"
    using ok_uninvite [OF Cons.prems grp assms(2)] by simp
  moreover have "belongs (roster (snd (removeInvite env g x False w))) x = belongs (roster w) x"
    using ok(4) grp(2) unfolding roster_removeInvite [OF grp' grp(2)] by (auto simp: r_settle_def r_disband_def)
  ultimately show ?case using Cons.IH by simp
qed simp

lemma ok_clear:
  assumes "roster_ok t (roster w)" "t \<longrightarrow> onDisband env"
  shows "roster_ok t (roster (clearPartyInvitations env x w)) \<and> asked (roster (clearPartyInvitations env x w)) x = []
    \<and> belongs (roster (clearPartyInvitations env x w)) x = belongs (roster w) x"
proof -
  have "set_asked x (asked (roster w) x) (roster w) = roster w" by (simp add: set_asked_def fun_upd_idem)
  moreover have "roster (upd_member x (\<lambda>m. m\<lparr>invitePartyList := []\<rparr>) u) = set_asked x [] (roster u)" for u
    by (auto simp: roster_def upd_member_def set_asked_def fun_eq_iff)
  ultimately show ?thesis
    using ok_clear_fold [of t x "asked (roster w) x" w env] assms
    by (simp add: clearPartyInvitations_def Let_def roster_sel)
qed

lemma asked_leave: "asked (r_leave b g x (l, ms, is) r) y = [] \<or> asked r y \<noteq> []"
  by (auto simp: r_leave_def r_settle_def r_disband_def)

lemma belongs_leave: "belongs (r_leave b g x (l, ms, is) r) x = None"
  by (auto simp: r_leave_def r_alone_def r_settle_def r_disband_def)

lemma roster_ok_around:
  assumes "roster_ok t r" "\<And>x. \<not> f x \<Longrightarrow> around r x \<Longrightarrow> belongs r x = None \<and> asked r x = []"
  shows "roster_ok t (r\<lparr>around := f\<rparr>)"
proof -
  have "group_ok t (r\<lparr>around := f\<rparr>) = group_ok t r" "unused (r\<lparr>around := f\<rparr>) = unused r"
    by (simp_all add: fun_eq_iff group_ok_def unused_def)
  moreover have "case groups r g of None \<Rightarrow> unused r g | Some v \<Rightarrow> group_ok t r g v" for g
    using assms(1) unfolding roster_ok_def by blast
  ultimately have "case groups r g of None \<Rightarrow> unused (r\<lparr>around := f\<rparr>) g | Some v \<Rightarrow> group_ok t (r\<lparr>around := f\<rparr>) g v" for g
    by (simp only:)
  then show ?thesis
    using assms(2) roster_okD(3,4) [OF assms(1)] unfolding roster_ok_def by simp blast
qed

lemma ok_party_logout:
  assumes "roster_ok t (roster w)" "may_go env x (clearPartyInvitations env x w)" "t \<longrightarrow> onDisband env"
    and "onLeave env \<or> belongs (roster w) x = None"
  shows "roster_ok t (roster (party_logout env x w))"
proof -
  let ?u = "clearPartyInvitations env x w"
  have u: "roster_ok t (roster ?u)" "asked (roster ?u) x = []" "belongs (roster ?u) x = belongs (roster w) x"
    using ok_clear [OF assms(1,3)] by auto
  define v where "v = (case member_party (member_of ?u x) of None \<Rightarrow> ?u | Some g \<Rightarrow> snd (leaveParty env g x ?u))"
  have "roster_ok t (roster v) \<and> belongs (roster v) x = None \<and> asked (roster v) x = []"
  proof (cases "belongs (roster ?u) x")
    case None
    then show ?thesis using u by (simp add: v_def roster_sel)
  next
    case (Some g)
    then obtain l ms "is" where grp: "groups (roster ?u) g = Some (l, ms, is)" using belongs_group [OF u(1)] by blast
    have go: "onDisband env \<or> \<not> r_alone x (l, ms, is)" "onLeave env"
      using assms(2,4) Some grp u(3) by (auto simp: may_go_def)
    have "v = snd (leaveParty env g x ?u)" using Some by (simp add: v_def roster_sel)
    then show ?thesis
      using roster_leave [OF u(1) grp Some go] ok_leave [OF u(1) grp Some assms(3)] belongs_leave
        asked_leave [of "onDisband env" g x l ms "is" "roster ?u" x] u(2)
      by auto
  qed
  then have "roster_ok t ((roster v)\<lparr>around := (around (roster v))(x := False)\<rparr>)"
    by (intro roster_ok_around) (auto split: if_splits)
  moreover have "roster (party_logout env x w) = (roster v)\<lparr>around := (around (roster v))(x := False)\<rparr>"
    by (simp add: party_logout_def v_def Let_def roster_def)
  ultimately show ?thesis by simp
qed

lemma roster_join:
  assumes "groups (roster w) g = Some (l, ms, is)" "onJoin env" "x \<in> set is"
  shows "roster (snd (joinParty env g x w)) = set_group g (l, ms @ [x], remove1 x is)
    (set_asked x (removeAll g (asked (roster w) x)) ((roster w)\<lparr>belongs := (belongs (roster w))(x := Some g)\<rparr>))"
proof -
  define u where "u = (let w = upd_party g (\<lambda>p. p\<lparr>inviteList := remove1 x (inviteList p)\<rparr>) w;
            w = broadcastPartyMessage g (member_name (member_of w x) @ '' has joined the party.'') False w;
            w = setParty x (Some g) w;
            p = the_party g w
        in tell ([UpdateShield x] @ concat (map (\<lambda>m. [Skull m x, Shield x m, Skull x m]) (memberList p))
                      @ [Skull x x, Skull (leader p) x, Shield x (leader p), Skull x (leader p)]) w)"
  have u: "roster u = set_group g (l, ms, remove1 x is) ((roster w)\<lparr>belongs := (belongs (roster w))(x := Some g)\<rparr>)"
    using assms(1) by (simp add: u_def Let_def roster_group_update)
  then have grp: "groups (roster u) g = Some (l, ms, remove1 x is)" by simp
  have "roster (snd (joinParty env g x w))
      = roster (removePartyInvitation x g (upd_party g (\<lambda>p. p\<lparr>memberList := memberList p @ [x]\<rparr>) u))"
    using assms(2,3) the_party_group [OF assms(1)] by (simp add: joinParty_def u_def Let_def)
  then show "roster (snd (joinParty env g x w))
      = set_group g (l, ms @ [x], remove1 x is) (set_asked x (removeAll g (asked (roster w) x)) ((roster w)\<lparr>belongs := (belongs (roster w))(x := Some g)\<rparr>))"
    using u roster_group_update(1) [OF grp, of "\<lambda>ms. ms @ [x]"] by (simp add: set_asked_def)
qed

lemma ok_joinParty:
  assumes "roster_ok t (roster w)" "groups (roster w) g = Some (l, ms, is)" "belongs (roster w) x = None"
  shows "roster_ok t (roster (snd (joinParty env g x w)))"
proof (cases "onJoin env \<and> x \<in> set is")
  case True
  note ok = group_okD [OF roster_okD(1) [OF assms(1,2)]]
  let ?r = "roster w" and ?v = "(l, ms @ [x], remove1 x is)"
  have around: "around ?r x"
  proof (rule ccontr)
    assume "\<not> around ?r x"
    then show False using roster_okD(4) [OF assms(1), of x] ok(6) [of x] True by simp
  qed
  have "roster (snd (joinParty env g x w))
      = set_group g ?v (set_asked x (removeAll g (asked ?r x)) (?r\<lparr>belongs := (belongs ?r)(x := Some g)\<rparr>))"
    using roster_join [OF assms(2)] True by simp
  moreover have "group_ok t (set_asked x (removeAll g (asked ?r x)) (?r\<lparr>belongs := (belongs ?r)(x := Some g)\<rparr>)) g ?v"
    using ok assms(3) True by (auto simp: group_ok_def)
  ultimately show ?thesis
    using ok_set_asked [OF assms(1,2), of x _ "Some g" ?v] assms(3) around roster_okD(3) [OF assms(1), of x]
    by (simp add: distinct_removeAll)
next
  case False
  then show ?thesis using assms(1) the_party_group [OF assms(2)] by (auto simp: joinParty_def)
qed

lemma roster_invite:
  assumes "groups (roster w) g = Some (l, ms, is)" "y \<notin> set is"
  shows "roster (snd (invitePlayer g y w)) = set_group g (l, ms, is @ [y])
    (set_asked y (if g \<in> set (asked (roster w) y) then asked (roster w) y else g # asked (roster w) y) (roster w))"
proof -
  define u where "u = (if party_empty (the_party g w)
                 then tell [Text l (member_name (member_of w y) @ '' has been invited. Open the party channel to communicate with your members.''),
                            UpdateShield l, Skull l l] w
                 else tell [Text l (member_name (member_of w y) @ '' has been invited.'')] w)"
  have u: "roster u = roster w" by (simp add: u_def)
  then have grp: "groups (roster u) g = Some (l, ms, is)" using assms(1) by simp
  have "roster (snd (invitePlayer g y w)) = roster (addPartyInvitation y g (upd_party g (\<lambda>p. p\<lparr>inviteList := inviteList p @ [y]\<rparr>) u))"
    using assms(2) the_party_group [OF assms(1)] unfolding u_def
    by (simp add: invitePlayer_def Let_def isPlayerInvited_def)
  then show ?thesis using u roster_group_update(2) [OF grp, of "\<lambda>is. is @ [y]"] by (simp add: set_asked_def)
qed

lemma ok_invitePlayer:
  assumes "roster_ok t (roster w)" "groups (roster w) g = Some (l, ms, is)" "belongs (roster w) y = None" "around (roster w) y"
  shows "roster_ok t (roster (snd (invitePlayer g y w)))"
proof (cases "y \<in> set is")
  case False
  note ok = group_okD [OF roster_okD(1) [OF assms(1,2)]]
  let ?r = "roster w" and ?v = "(l, ms, is @ [y])"
  have g: "g \<notin> set (asked ?r y)" using ok(6) [of y] False by simp
  have "roster (snd (invitePlayer g y w)) = set_group g ?v (set_asked y (g # asked ?r y) ?r)"
    using roster_invite [OF assms(2) False] g by simp
  moreover have "group_ok t (set_asked y (g # asked ?r y) (?r\<lparr>belongs := (belongs ?r)(y := None)\<rparr>)) g ?v"
  proof -
    have "y \<notin> set (l # ms)" using ok(5) [of y] assms(3) by simp
    then show ?thesis using ok(1-4,6) ok(5) False assms(3) by (auto simp: group_ok_def)
  qed
  moreover have "?r\<lparr>belongs := (belongs ?r)(y := None)\<rparr> = ?r" using assms(3) by (simp add: fun_upd_idem)
  ultimately show ?thesis
    using ok_set_asked [OF assms(1,2), of y "g # asked ?r y" None ?v] assms(3,4) roster_okD(3) [OF assms(1), of y] g
    by simp
next
  case True
  then show ?thesis using assms(1) the_party_group [OF assms(2)]
    by (simp add: invitePlayer_def Let_def isPlayerInvited_def)
qed

section \<open>The operations of scripts\<close>

text \<open>
  The \<open>Party\<close> methods of \<open>luascript.cpp\<close>: what a script calls without a request of a client,
  and without the guards of the game's handlers.
\<close>

definition luaPartyCreate :: "nat \<Rightarrow> nat \<Rightarrow> world \<Rightarrow> world" where
  "luaPartyCreate fresh x w =
     (if member_party (member_of w x) = None then tell [UpdateShield x, Skull x x] (new_party fresh x w) else w)"

definition luaPartyDisband :: "party_env \<Rightarrow> nat \<Rightarrow> world \<Rightarrow> world" where
  "luaPartyDisband env g w = disband env g w"

definition luaPartySetLeader :: "party_env \<Rightarrow> nat \<Rightarrow> nat \<Rightarrow> world \<Rightarrow> bool \<times> world" where
  "luaPartySetLeader env g x w = passPartyLeadership env g x True w"

definition luaPartyAddInvite :: "nat \<Rightarrow> nat \<Rightarrow> world \<Rightarrow> bool \<times> world" where
  "luaPartyAddInvite g x w = invitePlayer g x w"

definition luaPartyRemoveInvite :: "party_env \<Rightarrow> nat \<Rightarrow> nat \<Rightarrow> world \<Rightarrow> bool \<times> world" where
  "luaPartyRemoveInvite env g x w = removeInvite env g x True w"

definition luaPartyAddMember :: "party_env \<Rightarrow> nat \<Rightarrow> nat \<Rightarrow> world \<Rightarrow> bool \<times> world" where
  "luaPartyAddMember env g x w = joinParty env g x w"

definition luaPartyRemoveMember :: "party_env \<Rightarrow> nat \<Rightarrow> nat \<Rightarrow> world \<Rightarrow> bool \<times> world" where
  "luaPartyRemoveMember env g x w = leaveParty env g x w"

definition luaPartySetSharedExperience :: "party_env \<Rightarrow> nat \<Rightarrow> bool \<Rightarrow> world \<Rightarrow> bool \<times> world" where
  "luaPartySetSharedExperience env g active w = setSharedExperience env g (leader (the_party g w)) active w"

section \<open>Every history\<close>

text \<open>
  What can happen to parties: the clients' requests, logins and logouts, fights, changes to
  players that do not concern parties, and calls of scripts.  The environment of every step is
  free: scripts may veto any operation, with two exceptions that are not safe.  A player who
  logs out must be let go by \<open>onLeave\<close>, and a party whose leader goes with nobody to take
  over must be let go by \<open>onDisband\<close> (\<open>may_go\<close>).  A script may ask a player into a party, or
  make one a member, only if the player is in no party: the methods do not check it.
  In a \<open>t\<close>idy history scripts moreover veto no disbanding and create no party on their own.
\<close>

inductive party_step :: "bool \<Rightarrow> world \<Rightarrow> world \<Rightarrow> bool" for t where
  invite: "parties w fresh = None \<Longrightarrow> party_step t w (playerInviteToParty env fresh x y w)"
| join: "party_step t w (playerJoinParty env x l w)"
| revoke: "t \<longrightarrow> onDisband env \<Longrightarrow> party_step t w (playerRevokePartyInvitation env x y w)"
| pass_on: "party_step t w (playerPassPartyLeadership env x y w)"
| leave: "t \<longrightarrow> onDisband env \<Longrightarrow> may_go env x w \<Longrightarrow> party_step t w (playerLeaveParty env x w)"
| share: "party_step t w (playerEnableSharedPartyExperience env x active w)"
| fight: "member_party (member_of w x) = Some g \<Longrightarrow> party_step t w (updatePlayerTicks env g x points w)"
| idle: "member_party (member_of w x) = Some g \<Longrightarrow> party_step t w (clearPlayerPoints env g x w)"
| change: "member_party (f (member_of w x)) = member_party (member_of w x) \<Longrightarrow>
    invitePartyList (f (member_of w x)) = invitePartyList (member_of w x) \<Longrightarrow> party_step t w (upd_member x f w)"
| login: "party_step t w (w\<lparr>is_online := (is_online w)(x := True)\<rparr>)"
| logout: "t \<longrightarrow> onDisband env \<Longrightarrow> may_go env x (clearPartyInvitations env x w) \<Longrightarrow>
    onLeave env \<or> member_party (member_of w x) = None \<Longrightarrow> party_step t w (party_logout env x w)"
| lua_create: "\<not> t \<Longrightarrow> parties w fresh = None \<Longrightarrow> is_online w x \<Longrightarrow> party_step t w (luaPartyCreate fresh x w)"
| lua_disband: "parties w g = Some p \<Longrightarrow> party_step t w (luaPartyDisband env g w)"
| lua_leader: "parties w g = Some p \<Longrightarrow> party_step t w (snd (luaPartySetLeader env g x w))"
| lua_invite: "parties w g = Some p \<Longrightarrow> is_online w x \<Longrightarrow> member_party (member_of w x) = None \<Longrightarrow>
    party_step t w (snd (luaPartyAddInvite g x w))"
| lua_uninvite: "t \<longrightarrow> onDisband env \<Longrightarrow> parties w g = Some p \<Longrightarrow> party_step t w (snd (luaPartyRemoveInvite env g x w))"
| lua_add: "parties w g = Some p \<Longrightarrow> member_party (member_of w x) = None \<Longrightarrow>
    party_step t w (snd (luaPartyAddMember env g x w))"
| lua_remove: "t \<longrightarrow> onDisband env \<Longrightarrow> may_go env x w \<Longrightarrow> parties w g = Some p \<Longrightarrow>
    party_step t w (snd (luaPartyRemoveMember env g x w))"
| lua_share: "parties w g = Some p \<Longrightarrow> party_step t w (snd (luaPartySetSharedExperience env g active w))"

definition party_start :: "(nat \<Rightarrow> member) \<Rightarrow> world" where
  "party_start m = \<lparr>member_of = (\<lambda>x. (m x)\<lparr>member_party := None, invitePartyList := []\<rparr>),
     is_online = (\<lambda>x. False), parties = Map.empty, notices = []\<rparr>"

inductive party_reachable :: "bool \<Rightarrow> world \<Rightarrow> bool" for t where
  init: "party_reachable t (party_start m)"
| step: "party_reachable t w \<Longrightarrow> party_step t w w' \<Longrightarrow> party_reachable t w'"

lemma ok_leader_step:
  assumes "roster_ok t (roster w)" "belongs (roster w) x = Some g" "leader (the_party g w) = l"
  shows "\<exists>ms is. groups (roster w) g = Some (l, ms, is)"
  using belongs_group [OF assms(1,2)] assms(3) the_party_group [of w g] by auto

lemma ok_playerInvite:
  assumes "roster_ok t (roster w)" "parties w fresh = None"
  shows "roster_ok t (roster (playerInviteToParty env fresh x y w))"
proof (cases "x = y \<or> \<not> is_online w x \<or> \<not> is_online w y \<or> isInviting w y x \<or> member_party (member_of w y) \<noteq> None")
  case True
  then show ?thesis using assms(1) by (auto simp: playerInviteToParty_def)
next
  case False
  then have y: "belongs (roster w) y = None" "around (roster w) y" "around (roster w) x" "x \<noteq> y"
    by (auto simp: roster_sel)
  show ?thesis
  proof (cases "belongs (roster w) x")
    case (Some g)
    obtain l ms "is" where grp: "groups (roster w) g = Some (l, ms, is)" using belongs_group [OF assms(1) Some] by blast
    have "roster ((setParty x None w)\<lparr>parties := (parties w)(g := None)\<rparr>) = r_disband g (x, [], []) (roster w)"
      by (auto simp: roster_def setParty_def upd_member_def r_disband_def fun_eq_iff)
    then have "roster_ok t (roster ((setParty x None w)\<lparr>parties := (parties w)(g := None)\<rparr>))"
      if "leader (the_party g w) = x" "party_empty (the_party g w)"
      using ok_disband [OF assms(1) grp] the_party_group [OF grp] that by (simp add: party_empty_def)
    then show ?thesis
      using False Some assms(1) ok_invitePlayer [OF assms(1) grp y(1,2)]
      by (auto simp: playerInviteToParty_def roster_sel Let_def)
  next
    case None
    let ?u = "new_party fresh x w" and ?r = "(roster w)\<lparr>belongs := (belongs (roster w))(x := Some fresh)\<rparr>"
    have unused: "unused (roster w) fresh"
      using roster_okD(2) [OF assms(1), of fresh] assms(2) by (simp add: roster_sel)
    have u: "roster ?u = set_group fresh (x, [], []) ?r"
      by (auto simp: new_party_def setParty_def upd_member_def roster_def set_group_def group_of_def fun_eq_iff)
    then have grp: "groups (roster ?u) fresh = Some (x, [], [])" by simp
    have empty: "party_empty (the_party fresh ?u)" using the_party_group [OF grp] by (simp add: party_empty_def)
    show ?thesis
    proof (cases "onInvite env")
      case True
      have "roster (playerInviteToParty env fresh x y w) = set_group fresh (x, [], [y]) (set_asked y (fresh # asked (roster w) y) ?r)"
        using False None True u roster_invite [OF grp, of y] unused
        by (auto simp: playerInviteToParty_def roster_sel Let_def set_asked_def unused_def)
      moreover have "roster_ok t (set_group fresh (x, [], [y]) (set_asked y (fresh # asked (roster w) y) ?r))"
        using None y unused roster_okD(3,4) [OF assms(1)]
        by (intro roster_ok_change [OF assms(1), of "{x}" _ fresh]) (auto simp: group_ok_def unused_def)
      ultimately show ?thesis by simp
    next
      case vetoed: False
      have "playerInviteToParty env fresh x y w
          = (setParty x None ?u)\<lparr>parties := (parties (setParty x None ?u))(fresh := None)\<rparr>"
        using False None vetoed empty by (auto simp: playerInviteToParty_def roster_sel Let_def)
      moreover have "groups (roster w) fresh = None" using assms(2) by (simp add: roster_sel)
      ultimately have "roster (playerInviteToParty env fresh x y w) = roster w"
        using None by (simp only: roster_delete roster_setParty u) (auto simp: set_group_def fun_eq_iff intro!: roster.equality)
      then show ?thesis using assms(1) by simp
    qed
  qed
qed

lemma ok_new_party:
  assumes "roster_ok False (roster w)" "parties w fresh = None" "is_online w x" "member_party (member_of w x) = None"
  shows "roster_ok False (roster (new_party fresh x w))"
proof -
  let ?r = "(roster w)\<lparr>belongs := (belongs (roster w))(x := Some fresh)\<rparr>"
  have "unused (roster w) fresh" using roster_okD(2) [OF assms(1), of fresh] assms(2) by (simp add: roster_sel)
  then have "roster_ok False (set_group fresh (x, [], []) ?r)"
    using assms(3,4) roster_okD(3,4) [OF assms(1)]
    by (intro roster_ok_change [OF assms(1), of "{x}" _ fresh]) (auto simp: group_ok_def unused_def roster_sel)
  moreover have "roster (new_party fresh x w) = set_group fresh (x, [], []) ?r"
    by (auto simp: new_party_def setParty_def upd_member_def roster_def set_group_def group_of_def fun_eq_iff)
  ultimately show ?thesis by simp
qed

text \<open>A party a player belongs to is alive.\<close>

lemma own_party: "roster_ok t (roster w) \<Longrightarrow> member_party (member_of w x) = Some g \<Longrightarrow> \<exists>p. parties w g = Some p"
  using belongs_group [of t "roster w" x g] by (auto simp: roster_sel)

lemma live_group: "parties w g = Some p \<Longrightarrow> groups (roster w) g = Some (group_of p)"
  by (simp add: roster_sel)

lemma ok_ops:
  assumes "roster_ok t (roster w)" "parties w g = Some p"
  shows "roster_ok t (roster (disband env g w))"
    and "roster_ok t (roster (snd (passPartyLeadership env g x forced w)))"
    and "t \<longrightarrow> onDisband env \<Longrightarrow> roster_ok t (roster (snd (removeInvite env g x True w)))"
    and "t \<longrightarrow> onDisband env \<Longrightarrow> roster_ok t (roster (revokeInvitation env g x w))"
    and "member_party (member_of w x) = None \<Longrightarrow> roster_ok t (roster (snd (joinParty env g x w)))"
    and "is_online w x \<Longrightarrow> member_party (member_of w x) = None \<Longrightarrow> roster_ok t (roster (snd (invitePlayer g x w)))"
proof -
  note grp = live_group [OF assms(2)]
  obtain l ms "is" where v: "groups (roster w) g = Some (l, ms, is)" using grp by (simp add: group_of_def)
  show "roster_ok t (roster (disband env g w))"
    using ok_disband [OF assms(1) grp] roster_disband [OF grp, of env] disband_vetoed [of env g w] assms(1)
    by (cases "onDisband env") simp_all
  show "roster_ok t (roster (snd (passPartyLeadership env g x forced w)))" by (rule ok_pass [OF assms(1) v])
  show "roster_ok t (roster (snd (removeInvite env g x True w)))" if "t \<longrightarrow> onDisband env"
    using ok_removeInvite [OF assms(1) that v] by simp
  show "roster_ok t (roster (revokeInvitation env g x w))" if "t \<longrightarrow> onDisband env"
    using ok_removeInvite [of t "tell ns w" env g "(l, ms, is)" x for ns] assms(1) that v
    by (simp add: revokeInvitation_def Let_def)
  show "roster_ok t (roster (snd (joinParty env g x w)))" if "member_party (member_of w x) = None"
    using ok_joinParty [OF assms(1) v] that by (simp add: roster_sel)
  show "roster_ok t (roster (snd (invitePlayer g x w)))" if "is_online w x" "member_party (member_of w x) = None"
    using ok_invitePlayer [OF assms(1) v] that by (simp add: roster_sel)
qed

lemma ok_handlers:
  assumes "roster_ok t (roster w)"
  shows "roster_ok t (roster (playerJoinParty env x l w))"
    and "t \<longrightarrow> onDisband env \<Longrightarrow> roster_ok t (roster (playerRevokePartyInvitation env x y w))"
    and "roster_ok t (roster (playerPassPartyLeadership env x y w))"
    and "t \<longrightarrow> onDisband env \<Longrightarrow> may_go env x w \<Longrightarrow> roster_ok t (roster (playerLeaveParty env x w))"
    and "roster_ok t (roster (playerEnableSharedPartyExperience env x active w))"
proof -
  have own: "roster_ok t (roster (case member_party (member_of w k) of None \<Rightarrow> w | Some g \<Rightarrow> f g))"
    if "\<And>g p. parties w g = Some p \<Longrightarrow> roster_ok t (roster (f g))" for k f
  proof (cases "member_party (member_of w k)")
    case (Some g)
    then show ?thesis using own_party [OF assms Some] that by auto
  qed (use assms in simp)
  show "roster_ok t (roster (playerJoinParty env x l w))"
    unfolding playerJoinParty_def using assms ok_ops(5) [OF assms]
    by (auto intro!: own)
  show "roster_ok t (roster (playerRevokePartyInvitation env x y w))" if "t \<longrightarrow> onDisband env"
    unfolding playerRevokePartyInvitation_def using assms ok_ops(4) [OF assms _ that]
    by (auto intro!: own)
  show "roster_ok t (roster (playerPassPartyLeadership env x y w))"
    unfolding playerPassPartyLeadership_def using assms ok_ops(2) [OF assms]
    by (auto intro!: own)
  show "roster_ok t (roster (playerLeaveParty env x w))" if "t \<longrightarrow> onDisband env" "may_go env x w"
    unfolding playerLeaveParty_def using assms ok_leaveParty [OF assms _ that(2,1)]
    by (auto intro!: own)
  show "roster_ok t (roster (playerEnableSharedPartyExperience env x active w))"
    unfolding playerEnableSharedPartyExperience_def using assms
    by (auto intro!: own)
qed

lemma party_consistent_step:
  assumes "roster_ok t (roster w)" "party_step t w w'"
  shows "roster_ok t (roster w')"
  using assms(2,1)
proof cases
  case (login x)
  have "roster w' = (roster w)\<lparr>around := (around (roster w))(x := True)\<rparr>"
    using login by (simp add: roster_def)
  then show ?thesis by (simp only:, intro roster_ok_around assms(1)) (auto split: if_splits)
next
  case (logout env x)
  then show ?thesis using ok_party_logout [OF assms(1), of env x] by (simp add: roster_sel)
next
  case (lua_create fresh x)
  then show ?thesis using ok_new_party [of w fresh x] assms(1) by (auto simp: luaPartyCreate_def)
qed (use assms(1) ok_handlers [OF assms(1)] ok_ops [OF assms(1)] ok_leaveParty [OF assms(1)] ok_playerInvite [OF assms(1)] in
    \<open>simp_all add: roster_upd_member luaPartyDisband_def luaPartySetLeader_def luaPartyAddInvite_def
      luaPartyRemoveInvite_def luaPartyAddMember_def luaPartyRemoveMember_def luaPartySetSharedExperience_def\<close>)

lemma party_consistent: "party_reachable t w \<Longrightarrow> roster_ok t (roster w)"
proof (induction rule: party_reachable.induct)
  case (init m)
  show ?case by (simp add: roster_ok_def roster_def party_start_def unused_def)
next
  case (step w w')
  then show ?case by (blast intro: party_consistent_step)
qed

text \<open>
  C12: parties and players agree.  After any sequence of requests, fights, logins, logouts and
  calls of scripts, with any answers of the event scripts except that \<open>onLeave\<close> does not hold
  back a player who logs out and \<open>onDisband\<close> does not hold a party whose leader goes with nobody
  to take over, and with scripts that invite and add only players who are in no party: the
  players whose party pointer points to a party are exactly its leader and members, the
  players with its invitation are exactly its invitees, nobody is listed twice, no pointer
  points to a deleted party, and players who are offline are in no party and have no
  invitation.  If scripts also veto no disbanding and create no parties, no party is empty.
\<close>

theorem parties_consistent:
  assumes "party_reachable t w"
  shows "roster_ok t (roster w)"
  using party_consistent [OF assms] .

definition quiet_env :: party_env where
  "quiet_env = \<lparr>onDisband = True, onLeave = True, onPassLeadership = True, onJoin = True,
     onRevokeInvitation = True, onInvite = True, now = 5000, pzLocked = 60000\<rparr>"

definition hero :: member where
  "hero = \<lparr>member_party = None, invitePartyList = [], level = 100, member_pos = Position 100 100 7,
     notGainInFight = False, infight = False, inProtectionZone = False, member_name = ''Ann'', female = True\<rparr>"

definition three_online :: world where
  "three_online = (party_start (\<lambda>_. hero))\<lparr>is_online := (\<lambda>x. False)(11 := True, 12 := True, 13 := True)\<rparr>"

definition asked_12 :: world where
  "asked_12 = playerInviteToParty quiet_env 5 11 12 three_online"

definition asked_13 :: world where
  "asked_13 = playerInviteToParty quiet_env 6 11 13 (playerJoinParty quiet_env 12 11 asked_12)"

lemma login_reachable: "party_reachable t w \<Longrightarrow> party_reachable t (w\<lparr>is_online := (is_online w)(x := True)\<rparr>)"
  by (erule party_reachable.step) (rule party_step.login)

lemma three_online_reachable: "party_reachable t three_online"
  using login_reachable [OF login_reachable [OF login_reachable [OF party_reachable.init, where x = 11], where x = 12], where x = 13]
  by (simp add: three_online_def party_start_def)

lemmas party_eval = three_online_def party_start_def hero_def quiet_env_def playerInviteToParty_def asked_12_def
  isInviting_def new_party_def setParty_def upd_member_def invitePlayer_def isPlayerInvited_def party_empty_def
  the_party_def tell_def upd_party_def addPartyInvitation_def removePartyInvitation_def Let_def

lemma asked_12_reachable: "party_reachable t asked_12"
  unfolding asked_12_def
  by (rule party_reachable.step [OF three_online_reachable], rule party_step.invite) (simp_all add: party_eval)

lemma asked_12_state:
  "parties asked_12 = [5 \<mapsto> \<lparr>leader = 11, memberList = [], inviteList = [12], ticksMap = Map.empty,
     sharedExpActive = False, sharedExpEnabled = False\<rparr>]"
  "member_party (member_of asked_12 x) = (if x = 11 then Some 5 else None)"
  "invitePartyList (member_of asked_12 x) = (if x = 12 then [5] else [])"
  "is_online asked_12 = (\<lambda>x. False)(11 := True, 12 := True, 13 := True)"
  by (simp_all add: party_eval)

lemma parties_consistent_witness:
  "groups (roster asked_12) = [5 \<mapsto> (11, [], [12])] \<and> roster_ok True (roster asked_12)"
  using parties_consistent [OF asked_12_reachable] by (auto simp: asked_12_state roster_def group_of_def)

text \<open>
  Succession:  When the leader leaves a party that has other members, and is not about
  to be alone, the first member becomes leader, the others keep their order, the invitations
  stay, and nobody else's party changes.
\<close>

theorem leader_leaves:
  assumes "party_reachable t w" "parties w g = Some p" "memberList p = y # ys" "ys \<noteq> [] \<or> inviteList p \<noteq> []"
    and "onDisband env" "onLeave env"
  shows "groups (roster (snd (leaveParty env g (leader p) w))) g = Some (y, ys, inviteList p) \<and>
    belongs (roster (snd (leaveParty env g (leader p) w))) = (belongs (roster w))(leader p := None)"
proof -
  have ok: "roster_ok t (roster w)" using assms(1) by (rule party_consistent)
  have grp: "groups (roster w) g = Some (leader p, y # ys, inviteList p)"
    using assms(2,3) by (simp add: roster_sel group_of_def)
  have "belongs (roster w) (leader p) = Some g"
    using group_okD(5) [OF roster_okD(1) [OF ok grp]] by simp
  from roster_leave [OF ok grp this _ assms(6)] assms(5) show ?thesis
    using assms(4) by (auto simp: r_leave_def r_alone_def)
qed

lemma asked_13_reachable: "party_reachable t asked_13"
  and asked_13_group: "groups (roster asked_13) 5 = Some (11, [12], [13])"
proof -
  let ?j = "snd (joinParty quiet_env 5 12 asked_12)"
  have joined: "playerJoinParty quiet_env 12 11 asked_12 = ?j"
    by (simp add: playerJoinParty_def asked_12_state isInviting_def the_party_def isPlayerInvited_def)
  have "groups (roster asked_12) 5 = Some (11, [], [12])" by (simp add: roster_sel asked_12_state group_of_def)
  then have j: "roster ?j = set_group 5 (11, [12], [])
      (set_asked 12 (removeAll 5 (asked (roster asked_12) 12)) ((roster asked_12)\<lparr>belongs := (belongs (roster asked_12))(12 := Some 5)\<rparr>))"
    using roster_join [of asked_12 5 11 "[]" "[12]" quiet_env 12] by (simp add: quiet_env_def)
  then have jg: "groups (roster ?j) 5 = Some (11, [12], [])" "groups (roster ?j) 6 = None"
    by (simp_all add: roster_sel asked_12_state)
  have b: "belongs (roster ?j) 11 = Some 5" "belongs (roster ?j) 13 = None" "around (roster ?j) 11" "around (roster ?j) 13"
    unfolding j by (simp_all add: roster_sel asked_12_state)
  show "party_reachable t asked_13" unfolding asked_13_def joined
  proof (rule party_reachable.step, rule party_reachable.step [OF asked_12_reachable])
    show "party_step t asked_12 ?j" using party_step.join [of t asked_12 quiet_env 12 11] joined by simp
    show "party_step t ?j (playerInviteToParty quiet_env 6 11 13 ?j)"
      by (rule party_step.invite) (use jg(2) in \<open>auto simp: quiet_env_def roster_sel\<close>)
  qed
  have "onInvite quiet_env" by (simp add: quiet_env_def)
  then have "playerInviteToParty quiet_env 6 11 13 ?j = snd (invitePlayer 5 13 ?j)"
    using b the_party_group [OF jg(1)]
    by (simp add: playerInviteToParty_def roster_sel isInviting_def)
  then have "asked_13 = snd (invitePlayer 5 13 ?j)"
    by (simp only: asked_13_def joined)
  then show "groups (roster asked_13) 5 = Some (11, [12], [13])"
    using roster_invite [OF jg(1), of 13] by simp
qed

lemma leader_leaves_witness:
  "groups (roster (snd (leaveParty quiet_env 5 11 asked_13))) 5 = Some (12, [], [13])"
proof -
  obtain p where p: "parties asked_13 5 = Some p" "leader p = 11" "memberList p = [12]" "inviteList p = [13]"
    using asked_13_group by (auto simp: roster_sel group_of_def)
  then show ?thesis
    using leader_leaves [OF asked_13_reachable p(1,3), of quiet_env] by (simp add: quiet_env_def)
qed

section \<open>The vetoes that are not safe\<close>

lemma roster_ok_loose:
  assumes "roster_ok t r"
  shows "roster_ok False r"
proof -
  have "group_ok False r g v" if "group_ok t r g v" for g v
    using that by (auto simp: group_ok_def)
  then have "case groups r g of None \<Rightarrow> unused r g | Some v \<Rightarrow> group_ok False r g v" for g
    using roster_okD(1,2) [OF assms, of g] by (cases "groups r g") auto
  then show ?thesis using roster_okD(3,4) [OF assms] unfolding roster_ok_def by blast
qed

lemma held_back_logout:
  assumes "roster_ok t (roster w)" "member_party (member_of w x) = Some g" "\<not> onLeave env"
  shows "\<not> around (roster (party_logout env x w)) x \<and> belongs (roster (party_logout env x w)) x = Some g"
proof -
  have "belongs (roster (clearPartyInvitations env x w)) x = Some g"
    using ok_clear [OF roster_ok_loose [OF assms(1)], of env x] assms(2) by (simp add: roster_sel)
  then show ?thesis
    using assms(3) by (simp add: party_logout_def Let_def leaveParty_def roster_sel)
qed

lemma held_back_disband:
  assumes "roster_ok t (roster w)" "groups (roster w) g = Some v" "r_alone x v" "onLeave env" "\<not> onDisband env"
  shows "\<exists>u. groups (roster (snd (leaveParty env g x w))) g = Some (x, u) \<and>
    belongs (roster (snd (leaveParty env g x w))) x = None"
proof -
  obtain ms "is" where v: "v = (x, ms, is)" "ms = [] \<or> length ms = 1 \<and> is = []"
    using assms(3) by (cases v) (auto simp: r_alone_def)
  note grp = assms(2) [unfolded v(1)]
  have "snd (leaveParty env g x w) = leaveRest env g x True w"
    using v(2) assms(4) the_party_group [OF grp] by (auto simp: leaveParty_def Let_def)
  then show ?thesis using roster_leaveRest [OF grp, of env x True] assms(5) by (simp add: Let_def)
qed

text \<open>
  Two answers of the event scripts lead out of the consistent states, and the code does not
  guard against them.  If \<open>onLeave\<close> holds back a party member who logs out, the player is
  gone and the party keeps the pointer.  If \<open>onDisband\<close> holds the party of a leader who leaves
  with nobody to take over, the party lives on under a leader whose own party pointer is
  null.  Neither state is one of the consistent ones.
\<close>

theorem vetoes_strand_members:
  assumes "party_reachable t w" "member_party (member_of w x) = Some g" "groups (roster w) g = Some v"
  shows "(\<not> onLeave env \<longrightarrow>
      \<not> is_online (party_logout env x w) x \<and> member_party (member_of (party_logout env x w) x) = Some g \<and>
      \<not> roster_ok False (roster (party_logout env x w))) \<and>
    (r_alone x v \<and> onLeave env \<and> \<not> onDisband env \<longrightarrow>
      (\<exists>p. parties (snd (leaveParty env g x w)) g = Some p \<and> leader p = x) \<and>
      member_party (member_of (snd (leaveParty env g x w)) x) = None \<and>
      \<not> roster_ok False (roster (snd (leaveParty env g x w))))"
proof (intro conjI impI)
  note ok = party_consistent [OF assms(1)]
  {
    assume "\<not> onLeave env"
    note h = held_back_logout [OF ok assms(2) this]
    show "\<not> is_online (party_logout env x w) x" "member_party (member_of (party_logout env x w) x) = Some g"
      using h assms(2) by (simp_all add: roster_sel)
    show "\<not> roster_ok False (roster (party_logout env x w))"
      using h assms(2) roster_okD(4) [of False "roster (party_logout env x w)" x] by auto
  next
    assume "r_alone x v \<and> onLeave env \<and> \<not> onDisband env"
    then obtain u where u: "groups (roster (snd (leaveParty env g x w))) g = Some (x, u)"
        "belongs (roster (snd (leaveParty env g x w))) x = None"
      using held_back_disband [OF ok assms(3)] by blast
    show "\<exists>p. parties (snd (leaveParty env g x w)) g = Some p \<and> leader p = x"
      using u(1) by (auto simp: roster_sel group_of_def)
    show "member_party (member_of (snd (leaveParty env g x w)) x) = None" using u(2) by (simp add: roster_sel)
    show "\<not> roster_ok False (roster (snd (leaveParty env g x w)))"
    proof
      assume "roster_ok False (roster (snd (leaveParty env g x w)))"
      from roster_okD(1) [OF this u(1)] have "belongs (roster (snd (leaveParty env g x w))) x = Some g"
        by (cases u) (simp add: group_ok_def)
      then show False using u(2) by simp
    qed
  }
qed

text \<open>Ann has asked 12 into her new party: a vetoed logout, and a vetoed end of the party.\<close>

theorem vetoes_strand_members_witness:
  "member_party (member_of (party_logout (quiet_env\<lparr>onLeave := False\<rparr>) 11 asked_13) 11) = Some 5 \<and>
   \<not> is_online (party_logout (quiet_env\<lparr>onLeave := False\<rparr>) 11 asked_13) 11 \<and>
   member_party (member_of (snd (leaveParty (quiet_env\<lparr>onDisband := False\<rparr>) 5 11 asked_12)) 11) = None \<and>
   parties (snd (leaveParty (quiet_env\<lparr>onDisband := False\<rparr>) 5 11 asked_12)) 5 \<noteq> None"
proof -
  have a: "groups (roster asked_12) 5 = Some (11, [], [12])" by (simp add: roster_sel asked_12_state group_of_def)
  have b: "member_party (member_of asked_13 11) = Some 5"
    using group_okD(5) [OF roster_okD(1) [OF party_consistent [OF asked_13_reachable] asked_13_group], of 11]
    by (simp add: roster_sel)
  show ?thesis
    using vetoes_strand_members [OF asked_13_reachable b asked_13_group, of "quiet_env\<lparr>onLeave := False\<rparr>"]
      vetoes_strand_members [OF asked_12_reachable _ a, of 11 "quiet_env\<lparr>onDisband := False\<rparr>"]
    by (auto simp: asked_12_state r_alone_def quiet_env_def)
qed

section \<open>Shared experience is current\<close>

definition shared_current :: "party_env \<Rightarrow> nat \<Rightarrow> world \<Rightarrow> bool" where
  "shared_current env g w =
     (case parties w g of None \<Rightarrow> True
      | Some p \<Rightarrow> sharedExpActive p \<longrightarrow> sharedExpEnabled p = canEnableSharedExperience env w p)"

lemma canEnable_cong:
  assumes "member_of w' = member_of w" "leader p' = leader p" "memberList p' = memberList p" "ticksMap p' = ticksMap p"
  shows "canEnableSharedExperience env w' p' = canEnableSharedExperience env w p"
proof -
  have "canUseSharedExperience env w' p' = canUseSharedExperience env w p"
    unfolding canUseSharedExperience_def highestLevel_def assms ..
  then show ?thesis using assms by (simp add: canEnableSharedExperience_def)
qed

lemma shared_current_tell [simp]: "shared_current env g (tell ns w) = shared_current env g w"
  by (auto simp: shared_current_def tell_def canEnable_cong [of "w\<lparr>notices := n\<rparr>" w for n] split: option.splits)

lemma shared_current_update: "parties w g \<noteq> None \<Longrightarrow> shared_current env g (updateSharedExperience env g w)"
proof -
  assume "parties w g \<noteq> None"
  then obtain p where p: "parties w g = Some p" by auto
  have "member_of (upd_party g f w) = member_of w" for f by (simp add: upd_party_def)
  then have "canEnableSharedExperience env (upd_party g (\<lambda>p. p\<lparr>sharedExpEnabled := b\<rparr>) w) (p\<lparr>sharedExpEnabled := b\<rparr>)
      = canEnableSharedExperience env w p" for b
    by (intro canEnable_cong) simp_all
  then show ?thesis using p
    by (auto simp: updateSharedExperience_def the_party_def Let_def updateAllPartyIcons_def)
      (auto simp: shared_current_def)
qed

lemma shared_current_broadcast [simp]: "shared_current env g (broadcastPartyMessage g m b w) = shared_current env g w"
  by (simp add: broadcastPartyMessage_def Let_def)

lemma shared_current_clear: "shared_current env g w \<Longrightarrow> parties w g \<noteq> None \<Longrightarrow> shared_current env g (clearPlayerPoints env g x w)"
  by (auto simp: clearPlayerPoints_def split: option.splits intro!: shared_current_update)

lemma shared_current_disband: "onDisband env \<Longrightarrow> shared_current env g (disband env g w)"
  by (simp add: disband_def Let_def shared_current_def)

lemma parties_updateShared: "parties w g \<noteq> None \<Longrightarrow> parties (updateSharedExperience env g w) g \<noteq> None"
  by (auto simp: updateSharedExperience_def Let_def updateAllPartyIcons_def)

text \<open>
  C13: whether experience is shared is decided anew whenever the membership changes.  After a
  player joined, after one left, and after the leadership passed, the enabled flag of an
  active party says whether the party as it is now may share experience.
\<close>

theorem shared_experience_current:
  assumes "parties w g \<noteq> None" "onDisband env"
  shows "(fst (joinParty env g x w) \<longrightarrow> shared_current env g (snd (joinParty env g x w))) \<and>
    (fst (leaveParty env g x w) \<longrightarrow> shared_current env g (snd (leaveParty env g x w))) \<and>
    (fst (passPartyLeadership env g x forced w) \<longrightarrow> shared_current env g (snd (passPartyLeadership env g x forced w)))"
proof (intro conjI impI)
  have update: "shared_current env g (updateSharedExperience env g u)" if "parties u g \<noteq> None" for u
    using shared_current_update that by blast
  show "shared_current env g (snd (joinParty env g x w))" if "fst (joinParty env g x w)"
    using that assms(1) by (auto simp: joinParty_def Let_def intro!: update)
  show "shared_current env g (snd (passPartyLeadership env g x forced w))" if "fst (passPartyLeadership env g x forced w)"
    using that assms(1) by (auto simp: passPartyLeadership_def Let_def intro!: update split: if_splits)
  have rest: "shared_current env g (leaveRest env g x m u)" if "parties u g \<noteq> None" for m u
    using that assms(2) parties_updateShared
    by (auto simp: leaveRest_def Let_def intro!: shared_current_disband shared_current_clear update)
  have "parties (snd (passPartyLeadership env g y True w)) g \<noteq> None" for y
    using assms(1) parties_updateShared by (auto simp: passPartyLeadership_def Let_def)
  then have "shared_current env g (leaveRest env g x m w)"
      "shared_current env g (leaveRest env g x m (snd (passPartyLeadership env g y True w)))" for m y
    using rest assms(1) by blast+
  then show "shared_current env g (snd (leaveParty env g x w))" if "fst (leaveParty env g x w)"
    using that by (simp add: leaveParty_def Let_def split: if_splits)
qed

lemma shared_experience_current_witness:
  "fst (joinParty quiet_env 5 12 asked_12) \<and> shared_current quiet_env 5 (snd (joinParty quiet_env 5 12 asked_12))"
proof -
  have "parties asked_12 5 \<noteq> None" "onDisband quiet_env" by (simp_all add: asked_12_state quiet_env_def)
  moreover have "fst (joinParty quiet_env 5 12 asked_12)"
    by (simp add: joinParty_def asked_12_state the_party_def quiet_env_def Let_def)
  ultimately show ?thesis using shared_experience_current [of asked_12 5 quiet_env 12] by blast
qed

end
