(* ===== verification/Sight.thy ===== *)
theory Sight
  imports Prelude Positions
begin

text \<open>
  The line of sight of \<open>src/src/map.cpp\<close>: \<open>checkSightLine\<close>, \<open>isTileClear\<close>, \<open>isSightClear\<close> and
  \<open>canThrowObjectTo\<close>.  Coordinates are the integer values of the \<open>uint16_t\<close> variables, and the
  walk steps them modulo \<open>2 ^ 16\<close>; the line equation is computed in \<open>int32_t\<close>, every product and
  sum cut to 32 bits by \<open>s32\<close>: a product of two coordinates can be larger.  The walk has no
  obvious bound: it is a partial function whose result is \<open>None\<close> if it does not end.
\<close>

section \<open>The definitions\<close>

text \<open>What the functions ask of a tile: has it ground, and does it block projectiles?\<close>

record sight_tile =
  getGround :: bool
  blockProjectile :: bool

type_synonym sight_map = "int \<Rightarrow> int \<Rightarrow> int \<Rightarrow> sight_tile option"

definition isTileClear :: "sight_map \<Rightarrow> int \<Rightarrow> int \<Rightarrow> int \<Rightarrow> bool \<Rightarrow> bool" where
  "isTileClear tiles x y z blockFloor =
     (case tiles x y z of
        None \<Rightarrow> True
      | Some tile \<Rightarrow> if blockFloor \<and> getGround tile then False else \<not> blockProjectile tile)"

text \<open>
  The value of the line equation at a point, \<open>A * x + B * y + C\<close>, and the body of the loop:
  where the walk goes from \<open>(x, y)\<close>.
\<close>

definition line_value :: "int \<Rightarrow> int \<Rightarrow> int \<Rightarrow> int \<Rightarrow> int \<Rightarrow> int" where
  "line_value A B C x y = s32 \<bar>s32 (s32 (s32 (A * x) + s32 (B * y)) + C)\<bar>"

definition sight_step :: "int \<Rightarrow> int \<Rightarrow> int \<Rightarrow> int \<Rightarrow> int \<Rightarrow> int \<Rightarrow> int \<Rightarrow> int \<times> int \<Rightarrow> int \<times> int" where
  "sight_step A B C mx my x1 y1 p =
     (case p of (x, y) \<Rightarrow>
        let move_hor = line_value A B C (x + mx) y;
            move_ver = line_value A B C x (y + my);
            move_cross = line_value A B C (x + mx) (y + my);
            y' = (if y \<noteq> y1 \<and> (x = x1 \<or> move_hor > move_ver \<or> move_hor > move_cross)
                  then (y + my) mod 2 ^ 16 else y);
            x' = (if x \<noteq> x1 \<and> (y' = y1 \<or> move_ver > move_hor \<or> move_ver > move_cross)
                  then (x + mx) mod 2 ^ 16 else x)
        in (x', y'))"

partial_function (option) sight_loop ::
  "(int \<times> int \<Rightarrow> bool) \<Rightarrow> (int \<times> int \<Rightarrow> int \<times> int) \<Rightarrow> int \<times> int \<Rightarrow> int \<times> int \<Rightarrow> bool option" where
  "sight_loop clear move dest start =
     (if start \<noteq> dest then
        (if \<not> clear (move start) then Some False else sight_loop clear move dest (move start))
      else Some True)"

definition line_move :: "int \<times> int \<Rightarrow> int \<times> int \<Rightarrow> int \<times> int \<Rightarrow> int \<times> int" where
  "line_move start dest =
     (case (start, dest) of ((x0, y0), (x1, y1)) \<Rightarrow>
        let mx = (if x0 < x1 then 1 else if x0 = x1 then 0 else - 1);
            my = (if y0 < y1 then 1 else if y0 = y1 then 0 else - 1);
            A = y1 - y0;
            B = x0 - x1;
            C = s32 (- s32 (s32 (A * x1) + s32 (B * y1)))
        in sight_step A B C mx my x1 y1)"

definition checkSightLine :: "sight_map \<Rightarrow> int \<Rightarrow> int \<Rightarrow> int \<Rightarrow> int \<Rightarrow> int \<Rightarrow> bool option" where
  "checkSightLine tiles x0 y0 x1 y1 z =
     (if x0 = x1 \<and> y0 = y1 then Some True
      else sight_loop (\<lambda>(x, y). isTileClear tiles x y z False) (line_move (x0, y0) (x1, y1)) (x1, y1) (x0, y0))"

text \<open>C++'s \<open>&&\<close> and \<open>||\<close>: the right operand only runs when it is needed.\<close>

definition and_then :: "bool option \<Rightarrow> bool option \<Rightarrow> bool option" where
  "and_then p q = (case p of None \<Rightarrow> None | Some b \<Rightarrow> if b then q else Some False)"

definition or_else :: "bool option \<Rightarrow> bool option \<Rightarrow> bool option" where
  "or_else p q = (case p of None \<Rightarrow> None | Some b \<Rightarrow> if b then Some True else q)"

definition isSightClear :: "sight_map \<Rightarrow> position \<Rightarrow> position \<Rightarrow> bool \<Rightarrow> bool option" where
  "isSightClear tiles fromPos toPos sameFloor =
     (let fx = getX fromPos; fy = getY fromPos; fz = getZ fromPos; tx = getX toPos; ty = getY toPos; tz = getZ toPos
      in if fz = tz then
           if getDistanceX fromPos toPos < 2 \<and> getDistanceY fromPos toPos < 2 then Some True
           else
             (case or_else (checkSightLine tiles fx fy tx ty fz) (checkSightLine tiles tx ty fx fy fz) of
                None \<Rightarrow> None
              | Some sightClear \<Rightarrow>
                  if sightClear \<or> sameFloor then Some sightClear
                  else if fz = 0 then Some True
                  else and_then (Some (isTileClear tiles fx fy (fz - 1) True \<and> isTileClear tiles tx ty (fz - 1) True))
                         (checkSightLine tiles fx fy tx ty (fz - 1)))
         else if sameFloor then Some False
         else if fz < 8 \<and> tz > 7 \<or> fz > 7 \<and> tz < 8 then Some False
         else if fz > tz then
           if getDistanceZ fromPos toPos > 1 then Some False
           else and_then (Some (isTileClear tiles fx fy (fz - 1) True)) (checkSightLine tiles fx fy tx ty (fz - 1))
         else if \<not> list_all (\<lambda>z. isTileClear tiles tx ty z True) [fz..tz - 1] then Some False
         else checkSightLine tiles fx fy tx ty fz)"

definition canThrowObjectTo :: "sight_map \<Rightarrow> position \<Rightarrow> position \<Rightarrow> bool \<Rightarrow> bool \<Rightarrow> int \<Rightarrow> int \<Rightarrow> bool option" where
  "canThrowObjectTo tiles fromPos toPos checkLineOfSight sameFloor rangex rangey =
     (if getDistanceX fromPos toPos > rangex \<or> getDistanceY fromPos toPos > rangey then Some False
      else or_else (Some (\<not> checkLineOfSight)) (isSightClear tiles fromPos toPos sameFloor))"

section \<open>The walk makes progress\<close>

text \<open>How far the walk still has to go, and what holds on its way: it does not overshoot.\<close>

definition dist1 :: "int \<times> int \<Rightarrow> int \<times> int \<Rightarrow> nat" where
  "dist1 p q = nat (\<bar>fst p - fst q\<bar> + \<bar>snd p - snd q\<bar>)"

definition on_way :: "int \<Rightarrow> int \<Rightarrow> int \<Rightarrow> bool" where
  "on_way a b x \<longleftrightarrow> (a \<le> x \<and> x \<le> b) \<or> (b \<le> x \<and> x \<le> a)"

definition between :: "int \<times> int \<Rightarrow> int \<times> int \<Rightarrow> int \<times> int \<Rightarrow> bool" where
  "between s d p \<longleftrightarrow> on_way (fst s) (fst d) (fst p) \<and> on_way (snd s) (snd d) (snd p)"

text \<open>The error of a point: how far it is off the line, in units of the line's slope.\<close>

definition line_error :: "int \<times> int \<Rightarrow> int \<times> int \<Rightarrow> int \<times> int \<Rightarrow> int" where
  "line_error s d p = (snd d - snd s) * (fst p - fst d) - (fst d - fst s) * (snd p - snd d)"

text \<open>How far from the line a point may be: half a step along the steeper axis.\<close>

definition near_line :: "int \<times> int \<Rightarrow> int \<times> int \<Rightarrow> int \<times> int \<Rightarrow> bool" where
  "near_line s d p \<longleftrightarrow> 2 * \<bar>line_error s d p\<bar> \<le> max \<bar>fst d - fst s\<bar> \<bar>snd d - snd s\<bar>"

text \<open>The points a \<open>uint16_t\<close> position can name.\<close>

definition grid :: "int \<times> int \<Rightarrow> bool" where
  "grid p \<longleftrightarrow> 0 \<le> fst p \<and> fst p < 2 ^ 16 \<and> 0 \<le> snd p \<and> snd p < 2 ^ 16"

text \<open>A walk in progress: between its end points and close to the line.\<close>

definition on_line :: "int \<times> int \<Rightarrow> int \<times> int \<Rightarrow> int \<times> int \<Rightarrow> bool" where
  "on_line s d p \<longleftrightarrow> grid s \<and> grid d \<and> between s d p \<and> near_line s d p"

lemma of_int_s32 [simp]: "word_of_int (s32 x) = (word_of_int x :: u32)"
  by (simp add: s32_def)

lemma s32_cong: "(word_of_int x :: u32) = word_of_int y \<Longrightarrow> s32 x = s32 y"
  by (simp add: s32_def)

text \<open>
  The products of the line equation may be cut, but its value is small near the line, and a
  small value survives the cuts.
\<close>

lemma line_value_exact:
  assumes "C = s32 (- s32 (s32 (A * x1) + s32 (B * y1)))"
    and "v = A * x + B * y - (A * x1 + B * y1)" and "\<bar>v\<bar> < 2 ^ 31"
  shows "line_value A B C x y = \<bar>v\<bar>"
proof -
  have "s32 (s32 (s32 (A * x) + s32 (B * y)) + C) = s32 v"
    unfolding assms(1,2) by (rule s32_cong) (simp add: algebra_simps)
  also have "s32 v = v" using assms(3) by (intro s32_id) auto
  finally show ?thesis using assms(3) unfolding line_value_def by (simp add: s32_id)
qed

lemma abs_sgn_le: "\<bar>x * sgn y\<bar> \<le> \<bar>x :: int\<bar>"
  by (simp add: sgn_if)

lemma on_way_step:
  "on_way s d x \<Longrightarrow> x \<noteq> d \<Longrightarrow> on_way s d (x + sgn (d - s)) \<and> \<bar>x + sgn (d - s) - d\<bar> = \<bar>x - d\<bar> - 1 \<and> d \<noteq> s"
  by (auto simp: on_way_def sgn_if)

lemma on_way_grid: "on_way s d x \<Longrightarrow> 0 \<le> s \<Longrightarrow> s < n \<Longrightarrow> 0 \<le> d \<Longrightarrow> d < n \<Longrightarrow> x mod n = (x :: int)"
  by (auto simp: on_way_def)

text \<open>A step is one of three moves; the side moves change the error by \<open>a\<close> and \<open>- b\<close>.\<close>

lemma line_move_cases:
  fixes s d p
  defines "mx \<equiv> sgn (fst d - fst s)" and "my \<equiv> sgn (snd d - snd s)"
  defines "e \<equiv> line_error s d p" and "a \<equiv> (snd d - snd s) * mx" and "b \<equiv> (fst d - fst s) * my"
  assumes "on_line s d p"
  shows "line_move s d p =
    (let y' = (if snd p \<noteq> snd d \<and> (fst p = fst d \<or> \<bar>e + a\<bar> > \<bar>e - b\<bar> \<or> \<bar>e + a\<bar> > \<bar>e + a - b\<bar>) then snd p + my else snd p);
         x' = (if fst p \<noteq> fst d \<and> (y' = snd d \<or> \<bar>e - b\<bar> > \<bar>e + a\<bar> \<or> \<bar>e - b\<bar> > \<bar>e + a - b\<bar>) then fst p + mx else fst p)
     in (x', y'))"
proof -
  obtain x0 y0 x1 y1 x y where sp: "s = (x0, y0)" "d = (x1, y1)" "p = (x, y)" by (cases s; cases d; cases p)
  have m: "(if x0 < x1 then 1 else if x0 = x1 then 0 else - 1) = mx"
    "(if y0 < y1 then 1 else if y0 = y1 then 0 else - 1) = my"
    by (auto simp: mx_def my_def sp sgn_if)
  have g: "0 \<le> x0" "x0 < 2 ^ 16" "0 \<le> x1" "x1 < 2 ^ 16" "0 \<le> y0" "y0 < 2 ^ 16" "0 \<le> y1" "y1 < 2 ^ 16"
    and way: "on_way x0 x1 x" "on_way y0 y1 y"
    using assms by (simp_all add: on_line_def grid_def between_def sp)
  have dist: "\<bar>x1 - x0\<bar> < 2 ^ 16" "\<bar>y1 - y0\<bar> < 2 ^ 16" using g by auto
  then have e: "\<bar>e\<bar> < 2 ^ 16"
    using assms by (auto simp: on_line_def near_line_def sp)
  have "\<bar>a\<bar> < 2 ^ 16" "\<bar>b\<bar> < 2 ^ 16"
    using dist abs_sgn_le [of "y1 - y0" "x1 - x0"] abs_sgn_le [of "x1 - x0" "y1 - y0"]
    by (simp_all add: a_def b_def mx_def my_def sp)
  with e have small: "\<bar>e + a\<bar> < 2 ^ 31" "\<bar>e - b\<bar> < 2 ^ 31" "\<bar>e + a - b\<bar> < 2 ^ 31" by auto
  note exact = line_value_exact [OF refl, of _ "y1 - y0" _ "x0 - x1" _ x1 y1]
  have hor: "line_value (y1 - y0) (x0 - x1) (s32 (- s32 (s32 ((y1 - y0) * x1) + s32 ((x0 - x1) * y1)))) (x + mx) y = \<bar>e + a\<bar>"
    and ver: "line_value (y1 - y0) (x0 - x1) (s32 (- s32 (s32 ((y1 - y0) * x1) + s32 ((x0 - x1) * y1)))) x (y + my) = \<bar>e - b\<bar>"
    and cross: "line_value (y1 - y0) (x0 - x1) (s32 (- s32 (s32 ((y1 - y0) * x1) + s32 ((x0 - x1) * y1)))) (x + mx) (y + my) = \<bar>e + a - b\<bar>"
    by (rule exact [OF _ small(1)] exact [OF _ small(2)] exact [OF _ small(3)],
        simp add: e_def a_def b_def line_error_def sp algebra_simps)+
  have wrap: "y \<noteq> y1 \<Longrightarrow> (y + my) mod 2 ^ 16 = y + my" "x \<noteq> x1 \<Longrightarrow> (x + mx) mod 2 ^ 16 = x + mx"
    using on_way_step [OF way(2)] on_way_step [OF way(1)] on_way_grid [of y0 y1 "y + my" "2 ^ 16"]
      on_way_grid [of x0 x1 "x + mx" "2 ^ 16"] g by (simp_all add: mx_def my_def sp)
  show ?thesis unfolding line_move_def sight_step_def sp prod.case Let_def m hor ver cross
    using wrap by simp
qed

lemma abs_balance:
  fixes e a b :: int
  assumes "0 < a \<and> 0 < b \<or> a < 0 \<and> b < 0"
  shows "\<bar>e + a\<bar> > \<bar>e - b\<bar> \<or> \<bar>e + a\<bar> > \<bar>e + a - b\<bar> \<or> \<bar>e - b\<bar> > \<bar>e + a\<bar> \<or> \<bar>e - b\<bar> > \<bar>e + a - b\<bar>"
  using assms by arith

lemma slopes:
  fixes dx dy :: int
  shows "dx \<noteq> 0 \<Longrightarrow> dy \<noteq> 0 \<Longrightarrow> 0 < dy * sgn dx \<and> 0 < dx * sgn dy \<or> dy * sgn dx < 0 \<and> dx * sgn dy < 0"
  by (auto simp: sgn_if)

lemma line_move_progress:
  assumes "on_line s d p" "p \<noteq> d"
  shows "between s d (line_move s d p) \<and> dist1 (line_move s d p) d < dist1 p d"
proof -
  obtain x0 y0 x1 y1 x y where sp: "s = (x0, y0)" "d = (x1, y1)" "p = (x, y)" by (cases s; cases d; cases p)
  let ?mx = "sgn (x1 - x0)" and ?my = "sgn (y1 - y0)"
  have way: "on_way x0 x1 x" "on_way y0 y1 y" using assms(1) by (simp_all add: on_line_def between_def sp)
  note sx = on_way_step [OF way(1)] and sy = on_way_step [OF way(2)]
  define e a b where "e = line_error s d p" and "a = (y1 - y0) * ?mx" and "b = (x1 - x0) * ?my"
  have bal: "x \<noteq> x1 \<Longrightarrow> y \<noteq> y1 \<Longrightarrow>
      \<bar>e + a\<bar> > \<bar>e - b\<bar> \<or> \<bar>e + a\<bar> > \<bar>e + a - b\<bar> \<or> \<bar>e - b\<bar> > \<bar>e + a\<bar> \<or> \<bar>e - b\<bar> > \<bar>e + a - b\<bar>"
    using abs_balance [OF slopes, of "x1 - x0" "y1 - y0" e] sx sy unfolding a_def b_def by simp
  have move: "line_move s d p =
    (let y' = (if y \<noteq> y1 \<and> (x = x1 \<or> \<bar>e + a\<bar> > \<bar>e - b\<bar> \<or> \<bar>e + a\<bar> > \<bar>e + a - b\<bar>) then y + ?my else y);
         x' = (if x \<noteq> x1 \<and> (y' = y1 \<or> \<bar>e - b\<bar> > \<bar>e + a\<bar> \<or> \<bar>e - b\<bar> > \<bar>e + a - b\<bar>) then x + ?mx else x)
     in (x', y'))"
    using line_move_cases [OF assms(1)] unfolding sp fst_conv snd_conv e_def a_def b_def .
  have ne: "x \<noteq> x1 \<or> y \<noteq> y1" using assms(2) by (simp add: sp)
  define P where "P \<longleftrightarrow> y \<noteq> y1 \<and> (x = x1 \<or> \<bar>e + a\<bar> > \<bar>e - b\<bar> \<or> \<bar>e + a\<bar> > \<bar>e + a - b\<bar>)"
  define Q where "Q \<longleftrightarrow> x \<noteq> x1 \<and> ((if P then y + ?my else y) = y1 \<or> \<bar>e - b\<bar> > \<bar>e + a\<bar> \<or> \<bar>e - b\<bar> > \<bar>e + a - b\<bar>)"
  have "P \<or> Q" using ne bal unfolding P_def Q_def by auto
  moreover have "line_move s d p = (if Q then x + ?mx else x, if P then y + ?my else y)"
    unfolding move P_def Q_def Let_def ..
  moreover have "P \<Longrightarrow> y \<noteq> y1" "Q \<Longrightarrow> x \<noteq> x1" by (simp_all add: P_def Q_def)
  ultimately show ?thesis
    using way sx sy by (cases P; cases Q) (auto simp: between_def dist1_def sp)
qed

lemma abs2_le: "2 * x \<le> b \<Longrightarrow> - b \<le> 2 * x \<Longrightarrow> 2 * \<bar>x\<bar> \<le> (b :: int)"
  by (simp add: abs_if)

lemma abs_step_pos:
  fixes e a b :: int
  assumes "0 < a" "0 < b" "2 * \<bar>e\<bar> \<le> max a b"
  shows "2 * \<bar>e + a\<bar> \<le> max a b \<or> 2 * \<bar>e - b\<bar> \<le> max a b \<or> 2 * \<bar>e + a - b\<bar> \<le> max a b"
proof (cases "a \<le> b")
  case True
  then have "max a b = b" by simp
  then have "- b \<le> 2 * e" "2 * e \<le> b" using assms(3) by linarith+
  then have "2 * \<bar>e + a\<bar> \<le> b \<or> 2 * \<bar>e + a - b\<bar> \<le> b"
    using assms(1,2) True abs2_le [of "e + a" b] abs2_le [of "e + a - b" b]
    by (cases "2 * (e + a) \<le> b") simp_all
  then show ?thesis using \<open>max a b = b\<close> by auto
next
  case False
  then have "max a b = a" by simp
  then have "- a \<le> 2 * e" "2 * e \<le> a" using assms(3) by linarith+
  then have "2 * \<bar>e - b\<bar> \<le> a \<or> 2 * \<bar>e + a - b\<bar> \<le> a"
    using assms(1,2) False abs2_le [of "e - b" a] abs2_le [of "e + a - b" a]
    by (cases "- a \<le> 2 * (e - b)") simp_all
  then show ?thesis using \<open>max a b = a\<close> by auto
qed

lemma abs_step:
  fixes e a b :: int
  assumes "0 < a \<and> 0 < b \<or> a < 0 \<and> b < 0" "2 * \<bar>e\<bar> \<le> max \<bar>a\<bar> \<bar>b\<bar>"
  shows "2 * \<bar>e + a\<bar> \<le> max \<bar>a\<bar> \<bar>b\<bar> \<or> 2 * \<bar>e - b\<bar> \<le> max \<bar>a\<bar> \<bar>b\<bar> \<or> 2 * \<bar>e + a - b\<bar> \<le> max \<bar>a\<bar> \<bar>b\<bar>"
proof (cases "0 < a \<and> 0 < b")
  case True
  then show ?thesis using abs_step_pos [of a b e] assms(2) by simp
next
  case False
  then have neg: "0 < - a" "0 < - b" using assms(1) by auto
  have "\<bar>- e + - a\<bar> = \<bar>e + a\<bar>" "\<bar>- e - - b\<bar> = \<bar>e - b\<bar>" "\<bar>- e + - a - - b\<bar> = \<bar>e + a - b\<bar>"
    "\<bar>a\<bar> = - a" "\<bar>b\<bar> = - b" using neg by auto
  then show ?thesis using abs_step_pos [OF neg, of "- e"] assms(2) by simp
qed

lemma max_slopes:
  fixes dx dy :: int
  shows "dx \<noteq> 0 \<Longrightarrow> dy \<noteq> 0 \<Longrightarrow> max \<bar>dy * sgn dx\<bar> \<bar>dx * sgn dy\<bar> = max \<bar>dx\<bar> \<bar>dy\<bar>"
  by (simp add: abs_mult max.commute)

lemma shrink: "\<bar>u\<bar> < \<bar>v\<bar> \<Longrightarrow> \<bar>k * u\<bar> \<le> \<bar>k * (v :: int)\<bar>"
  by (simp add: abs_mult mult_left_mono)

lemma line_move_near:
  assumes "on_line s d p" "p \<noteq> d"
  shows "near_line s d (line_move s d p)"
proof -
  obtain x0 y0 x1 y1 x y where sp: "s = (x0, y0)" "d = (x1, y1)" "p = (x, y)" by (cases s; cases d; cases p)
  let ?mx = "sgn (x1 - x0)" and ?my = "sgn (y1 - y0)"
  have way: "on_way x0 x1 x" "on_way y0 y1 y" using assms(1) by (simp_all add: on_line_def between_def sp)
  note sx = on_way_step [OF way(1)] and sy = on_way_step [OF way(2)]
  define e a b where "e = line_error s d p" and "a = (y1 - y0) * ?mx" and "b = (x1 - x0) * ?my"
  define P where "P \<longleftrightarrow> y \<noteq> y1 \<and> (x = x1 \<or> \<bar>e + a\<bar> > \<bar>e - b\<bar> \<or> \<bar>e + a\<bar> > \<bar>e + a - b\<bar>)"
  define Q where "Q \<longleftrightarrow> x \<noteq> x1 \<and> ((if P then y + ?my else y) = y1 \<or> \<bar>e - b\<bar> > \<bar>e + a\<bar> \<or> \<bar>e - b\<bar> > \<bar>e + a - b\<bar>)"
  have move: "line_move s d p = (if Q then x + ?mx else x, if P then y + ?my else y)"
    using line_move_cases [OF assms(1)] unfolding sp fst_conv snd_conv e_def a_def b_def P_def Q_def Let_def .
  have err: "line_error s d (line_move s d p) = e + (if Q then a else 0) - (if P then b else 0)"
    unfolding move by (simp add: line_error_def e_def a_def b_def sp algebra_simps)
  define M where "M = max \<bar>x1 - x0\<bar> \<bar>y1 - y0\<bar>"
  have e: "2 * \<bar>e\<bar> \<le> M" using assms(1) by (simp add: on_line_def near_line_def M_def e_def sp)
  have "2 * \<bar>e + (if Q then a else 0) - (if P then b else 0)\<bar> \<le> M"
  proof (cases "x = x1 \<or> y = y1")
    case True
    show ?thesis
    proof (cases "x = x1")
      case True
      then have "P" "\<not> Q" "y \<noteq> y1" using assms(2) by (auto simp: P_def Q_def sp)
      moreover have "e = - (x1 - x0) * (y - y1)" "e - b = - (x1 - x0) * (y + ?my - y1)"
        using True by (simp_all add: e_def b_def line_error_def sp algebra_simps)
      ultimately show ?thesis using shrink [of "y + ?my - y1" "y - y1" "- (x1 - x0)"] sy e by simp
    next
      case False
      then have "y = y1" "\<not> P" "Q" using \<open>x = x1 \<or> y = y1\<close> by (auto simp: P_def Q_def)
      moreover have "e = (y1 - y0) * (x - x1)" "e + a = (y1 - y0) * (x + ?mx - x1)"
        using \<open>y = y1\<close> by (simp_all add: e_def a_def line_error_def sp algebra_simps)
      ultimately show ?thesis using shrink [of "x + ?mx - x1" "x - x1" "y1 - y0"] sx False e by simp
    qed
  next
    case False
    then have ne: "x1 - x0 \<noteq> 0" "y1 - y0 \<noteq> 0" using sx sy by auto
    have best: "2 * \<bar>e + a\<bar> \<le> M \<or> 2 * \<bar>e - b\<bar> \<le> M \<or> 2 * \<bar>e + a - b\<bar> \<le> M"
      using abs_step [OF slopes [OF ne], of e] e max_slopes [OF ne] unfolding M_def a_def b_def by simp
    have reached: "\<bar>e + a - b\<bar> \<le> \<bar>e - b\<bar>" if "y + ?my = y1"
    proof -
      have "e - b = (y1 - y0) * (x - x1) - (x1 - x0) * (y + ?my - y1)"
        "e + a - b = (y1 - y0) * (x + ?mx - x1) - (x1 - x0) * (y + ?my - y1)"
        by (simp_all add: e_def a_def b_def line_error_def sp algebra_simps)
      then have "e - b = (y1 - y0) * (x - x1)" "e + a - b = (y1 - y0) * (x + ?mx - x1)"
        unfolding that by simp_all
      then show ?thesis using shrink [of "x + ?mx - x1" "x - x1" "y1 - y0"] sx False by simp
    qed
    show ?thesis
      using best reached False abs_balance [OF slopes [OF ne], of e] unfolding P_def Q_def a_def [symmetric] b_def [symmetric]
      by (auto split: if_splits)
  qed
  then show ?thesis unfolding near_line_def err M_def by (simp add: sp)
qed

lemma line_move_on_line:
  "on_line s d p \<Longrightarrow> p \<noteq> d \<Longrightarrow> on_line s d (line_move s d p) \<and> dist1 (line_move s d p) d < dist1 p d"
  using line_move_progress [of s d p] line_move_near [of s d p] by (simp add: on_line_def)

text \<open>
  How many steps are left: the distance on the longer axis of the line.  Every step moves on
  that axis: the side move on the other axis alone is never the best of the three.
\<close>

definition steps_left :: "int \<times> int \<Rightarrow> int \<times> int \<Rightarrow> int \<times> int \<Rightarrow> nat" where
  "steps_left s d p = nat (if \<bar>snd d - snd s\<bar> \<le> \<bar>fst d - fst s\<bar> then \<bar>fst p - fst d\<bar> else \<bar>snd p - snd d\<bar>)"

lemma short_axis_worse:
  fixes e a b :: int
  assumes "0 < a \<and> 0 < b \<or> a < 0 \<and> b < 0" "2 * \<bar>e\<bar> \<le> max \<bar>a\<bar> \<bar>b\<bar>"
  shows "\<bar>a\<bar> < \<bar>b\<bar> \<Longrightarrow> \<bar>e - b\<bar> > \<bar>e + a - b\<bar>" "\<bar>b\<bar> < \<bar>a\<bar> \<Longrightarrow> \<bar>e + a\<bar> > \<bar>e + a - b\<bar>"
  using assms by (auto simp: abs_if split: if_splits)

lemma near_end:
  fixes k v :: int
  assumes "2 * \<bar>k * v\<bar> \<le> \<bar>k\<bar>" "k \<noteq> 0"
  shows "v = 0"
proof (rule ccontr)
  assume "v \<noteq> 0"
  then have "\<bar>k\<bar> * 1 \<le> \<bar>k\<bar> * \<bar>v\<bar>" by (intro mult_left_mono) auto
  then show False using assms by (simp add: abs_mult)
qed

lemma diagonal_error:
  fixes k m u v :: int
  assumes "\<bar>k\<bar> = \<bar>m\<bar>" "k \<noteq> 0" "2 * \<bar>k * u - m * v\<bar> \<le> \<bar>k\<bar>"
  shows "k * u - m * v = 0"
proof -
  obtain w where w: "k * u - m * v = k * w"
  proof (cases "k = m")
    case True
    then show ?thesis by (intro that [of "u - v"]) (simp add: algebra_simps)
  next
    case False
    then have "m = - k" using assms(1) by auto
    then show ?thesis by (intro that [of "u + v"]) (simp add: algebra_simps)
  qed
  then show ?thesis using near_end [of k w] assms(2,3) by simp
qed

lemma line_move_steps:
  assumes "on_line s d p" "p \<noteq> d"
  shows "steps_left s d p = Suc (steps_left s d (line_move s d p))"
proof -
  obtain x0 y0 x1 y1 x y where sp: "s = (x0, y0)" "d = (x1, y1)" "p = (x, y)" by (cases s; cases d; cases p)
  let ?mx = "sgn (x1 - x0)" and ?my = "sgn (y1 - y0)"
  have way: "on_way x0 x1 x" "on_way y0 y1 y" using assms(1) by (simp_all add: on_line_def between_def sp)
  note sx = on_way_step [OF way(1)] and sy = on_way_step [OF way(2)]
  define e a b where "e = line_error s d p" and "a = (y1 - y0) * ?mx" and "b = (x1 - x0) * ?my"
  define P where "P \<longleftrightarrow> y \<noteq> y1 \<and> (x = x1 \<or> \<bar>e + a\<bar> > \<bar>e - b\<bar> \<or> \<bar>e + a\<bar> > \<bar>e + a - b\<bar>)"
  define Q where "Q \<longleftrightarrow> x \<noteq> x1 \<and> ((if P then y + ?my else y) = y1 \<or> \<bar>e - b\<bar> > \<bar>e + a\<bar> \<or> \<bar>e - b\<bar> > \<bar>e + a - b\<bar>)"
  have move: "line_move s d p = (if Q then x + ?mx else x, if P then y + ?my else y)"
    using line_move_cases [OF assms(1)] unfolding sp fst_conv snd_conv e_def a_def b_def P_def Q_def Let_def .
  have e: "2 * \<bar>e\<bar> \<le> max \<bar>x1 - x0\<bar> \<bar>y1 - y0\<bar>" "e = (y1 - y0) * (x - x1) - (x1 - x0) * (y - y1)"
    using assms(1) by (simp_all add: on_line_def near_line_def e_def line_error_def sp)
  have ne: "x \<noteq> x1 \<or> y \<noteq> y1" using assms(2) by (simp add: sp)
  have abs_eq: "\<bar>a\<bar> = \<bar>y1 - y0\<bar>" "\<bar>b\<bar> = \<bar>x1 - x0\<bar>" if "x \<noteq> x1" "y \<noteq> y1"
    using sx sy that by (simp_all add: a_def b_def abs_mult)
  have sides: "0 < a \<and> 0 < b \<or> a < 0 \<and> b < 0" if "x \<noteq> x1" "y \<noteq> y1"
    using slopes [of "x1 - x0" "y1 - y0"] sx sy that by (simp add: a_def b_def)
  show ?thesis
  proof (cases "\<bar>y1 - y0\<bar> \<le> \<bar>x1 - x0\<bar>")
    case True
    have "x \<noteq> x1"
    proof
      assume "x = x1"
      then have "y \<noteq> y1" using ne by simp
      then have "x1 - x0 \<noteq> 0" using sy True by auto
      then show False using near_end [of "x1 - x0" "y - y1"] e True \<open>x = x1\<close> \<open>y \<noteq> y1\<close> by simp
    qed
    moreover have "Q"
    proof (cases "y = y1")
      case True
      then show ?thesis using \<open>x \<noteq> x1\<close> by (simp add: Q_def P_def)
    next
      case False
      note s = sides [OF \<open>x \<noteq> x1\<close> False] and ab = abs_eq [OF \<open>x \<noteq> x1\<close> False]
      show ?thesis
      proof (cases "\<bar>a\<bar> < \<bar>b\<bar>")
        case True
        then have "\<bar>e - b\<bar> > \<bar>e + a - b\<bar>" using short_axis_worse(1) [OF s] e(1) ab by (simp add: max.commute)
        then show ?thesis using \<open>x \<noteq> x1\<close> by (simp add: Q_def)
      next
        case False
        then have "\<bar>a\<bar> = \<bar>b\<bar>" using True ab by simp
        then have "e = 0" using diagonal_error [of "y1 - y0" "x1 - x0" "x - x1" "y - y1"] e ab s by auto
        then have "\<bar>e - b\<bar> > \<bar>e + a - b\<bar>" using s \<open>\<bar>a\<bar> = \<bar>b\<bar>\<close> by auto
        then show ?thesis using \<open>x \<noteq> x1\<close> by (simp add: Q_def)
      qed
    qed
    ultimately show ?thesis using sx True by (simp add: steps_left_def move) (simp add: sp)
  next
    case False
    have "y \<noteq> y1"
    proof
      assume "y = y1"
      then show False using near_end [of "y1 - y0" "x - x1"] e False ne by auto
    qed
    moreover have "P"
    proof (cases "x = x1")
      case True
      then show ?thesis using \<open>y \<noteq> y1\<close> by (simp add: P_def)
    next
      case x: False
      note s = sides [OF x \<open>y \<noteq> y1\<close>] and ab = abs_eq [OF x \<open>y \<noteq> y1\<close>]
      have "\<bar>e + a\<bar> > \<bar>e + a - b\<bar>"
        using short_axis_worse(2) [OF s] e(1) ab False by (simp add: max.commute)
      then show ?thesis using \<open>y \<noteq> y1\<close> by (simp add: P_def)
    qed
    ultimately show ?thesis using sy False by (simp add: steps_left_def move) (simp add: sp)
  qed
qed

section \<open>The tiles the walk visits\<close>

primrec walk :: "(int \<times> int \<Rightarrow> int \<times> int) \<Rightarrow> int \<times> int \<Rightarrow> nat \<Rightarrow> int \<times> int \<Rightarrow> (int \<times> int) list" where
  "walk move dest 0 p = []"
| "walk move dest (Suc n) p = (if p = dest then [] else move p # walk move dest n (move p))"

definition sight_path :: "int \<times> int \<Rightarrow> int \<times> int \<Rightarrow> (int \<times> int) list" where
  "sight_path s d = walk (line_move s d) d (dist1 s d) s"

lemma sight_loop_walk:
  "on_line s d p \<Longrightarrow> dist1 p d \<le> n \<Longrightarrow>
     sight_loop clear (line_move s d) d p = Some (list_all clear (walk (line_move s d) d n p))"
proof (induction n arbitrary: p)
  case 0
  then have "p = d" by (auto simp: dist1_def prod_eq_iff)
  then show ?case by (subst sight_loop.simps) simp
next
  case (Suc n)
  show ?case
  proof (cases "p = d")
    case True
    then show ?thesis by (subst sight_loop.simps) simp
  next
    case False
    then have "on_line s d (line_move s d p)" "dist1 (line_move s d p) d \<le> n"
      using line_move_on_line [OF Suc.prems(1)] Suc.prems(2) by auto
    from Suc.IH [OF this] False show ?thesis by (subst sight_loop.simps) simp
  qed
qed

lemma on_line_start: "grid s \<Longrightarrow> grid d \<Longrightarrow> on_line s d s"
  by (auto simp: on_line_def between_def on_way_def near_line_def line_error_def algebra_simps)

lemma checkSightLine_path:
  assumes "grid (x0, y0)" "grid (x1, y1)"
  shows "checkSightLine tiles x0 y0 x1 y1 z
     = Some (list_all (\<lambda>(x, y). isTileClear tiles x y z False) (sight_path (x0, y0) (x1, y1)))"
proof (cases "x0 = x1 \<and> y0 = y1")
  case True
  then show ?thesis by (simp add: checkSightLine_def sight_path_def dist1_def)
next
  case False
  then show ?thesis
    using sight_loop_walk [OF on_line_start order_refl, OF assms]
    by (auto simp: checkSightLine_def sight_path_def)
qed

lemma walk_props:
  "on_line s d p \<Longrightarrow> dist1 p d \<le> n \<Longrightarrow>
     (\<forall>q\<in>set (walk (line_move s d) d n p). on_line s d q) \<and>
     length (walk (line_move s d) d n p) = steps_left s d p \<and>
     (p \<noteq> d \<longrightarrow> walk (line_move s d) d n p \<noteq> [] \<and> last (walk (line_move s d) d n p) = d)"
proof (induction n arbitrary: p)
  case 0
  then show ?case by (auto simp: dist1_def prod_eq_iff steps_left_def)
next
  case (Suc n)
  show ?case
  proof (cases "p = d")
    case True
    then show ?thesis by (simp add: steps_left_def)
  next
    case False
    have step: "on_line s d (line_move s d p)" "dist1 (line_move s d p) d \<le> n"
      using line_move_on_line [OF Suc.prems(1) False] Suc.prems(2) by auto
    have "walk (line_move s d) d n d = []" by (cases n) auto
    then show ?thesis using Suc.IH [OF step] step line_move_steps [OF Suc.prems(1) False] False by auto
  qed
qed

lemma grid_position [simp]: "grid (getX p, getY p)"
  using uint_bounded [of "pos_x p"] uint_bounded [of "pos_y p"] by (simp add: grid_def getX_def getY_def)

section \<open>The theorems\<close>

text \<open>
  C14: the line of sight.  For any two positions \<open>checkSightLine\<close> ends, whatever the 32-bit
  products of its line equation are cut to.  Its answer is whether the tiles on one list are
  clear; the list depends on the end points only, has exactly as many tiles as the longer of
  the two axis distances, ends at the target, and holds only tiles between the end points
  that are at most half a tile off the straight line (along its less steep axis).
\<close>

theorem checkSightLine_straight:
  "checkSightLine tiles (getX p) (getY p) (getX q) (getY q) z
     = Some (list_all (\<lambda>(x, y). isTileClear tiles x y z False) (sight_path (getX p, getY p) (getX q, getY q))) \<and>
   set (sight_path (getX p, getY p) (getX q, getY q)) \<subseteq>
     {v. between (getX p, getY p) (getX q, getY q) v \<and>
         2 * \<bar>(getY q - getY p) * (fst v - getX q) - (getX q - getX p) * (snd v - getY q)\<bar>
         \<le> max \<bar>getX q - getX p\<bar> \<bar>getY q - getY p\<bar>} \<and>
   length (sight_path (getX p, getY p) (getX q, getY q)) = nat (max \<bar>getX p - getX q\<bar> \<bar>getY p - getY q\<bar>) \<and>
   last ((getX p, getY p) # sight_path (getX p, getY p) (getX q, getY q)) = (getX q, getY q)"
proof -
  let ?s = "(getX p, getY p)" and ?d = "(getX q, getY q)"
  note props = walk_props [OF on_line_start [OF grid_position grid_position] order_refl, of p q]
  have "sight_path ?s ?d = []" if "?s = ?d" using that by (simp add: sight_path_def dist1_def)
  moreover have "steps_left ?s ?d ?s = nat (max \<bar>getX p - getX q\<bar> \<bar>getY p - getY q\<bar>)"
    by (simp add: steps_left_def max_def abs_minus_commute)
  ultimately show ?thesis
    using props checkSightLine_path [OF grid_position grid_position, of tiles p q z]
    by (auto simp: sight_path_def on_line_def near_line_def line_error_def)
qed

lemma and_then_Some [simp]: "and_then (Some a) (Some b) = Some (a \<and> b)"
  by (simp add: and_then_def)

lemma or_else_Some [simp]: "or_else (Some a) (Some b) = Some (a \<or> b)"
  by (simp add: or_else_def)

lemma getDistance_sym: "getDistanceX p q = getDistanceX q p" "getDistanceY p q = getDistanceY q p"
  by (simp_all add: getDistanceX_def getDistanceY_def getOffsetX_def getOffsetY_def abs_minus_commute)

lemma isSightClear_total: "\<exists>b. isSightClear tiles p q sameFloor = Some b"
proof -
  have "isSightClear tiles p q sameFloor \<noteq> None"
    by (simp add: isSightClear_def checkSightLine_path Let_def not_None_eq ex_bool_eq del: not_None_eq)
  then show ?thesis by blast
qed

text \<open>
  sight on one floor.  \<open>isSightClear\<close> always gives an answer; on one floor, when only
  that floor counts, it does not depend on which of the two positions looks at the other.
\<close>

theorem isSightClear_symmetric:
  "(\<exists>b. isSightClear tiles p q sameFloor = Some b) \<and>
   isSightClear tiles p q True = isSightClear tiles q p True"
proof
  show "\<exists>b. isSightClear tiles p q sameFloor = Some b" by (rule isSightClear_total)
  show "isSightClear tiles p q True = isSightClear tiles q p True"
    by (cases "getZ p = getZ q") (auto simp: isSightClear_def checkSightLine_path Let_def getDistance_sym)
qed

text \<open>
  Throwing:  An object can be thrown to a tile exactly if the tile is in range and, when
  the line of sight counts, in sight; nothing can be thrown between the surface and the
  underground, and what is thrown up goes up one floor at most.
\<close>

theorem canThrowObjectTo_floors:
  assumes "canThrowObjectTo tiles p q True sameFloor rangex rangey = Some True"
  shows "getDistanceX p q \<le> rangex \<and> getDistanceY p q \<le> rangey \<and>
    (getZ p < 8 \<longleftrightarrow> getZ q < 8) \<and> getZ p - getZ q \<le> 1"
proof -
  have range: "getDistanceX p q \<le> rangex" "getDistanceY p q \<le> rangey"
    and sight: "isSightClear tiles p q sameFloor = Some True"
    using assms isSightClear_total [of tiles p q sameFloor]
    by (auto simp: canThrowObjectTo_def split: if_splits)
  have "(getZ p < 8 \<longleftrightarrow> getZ q < 8) \<and> getZ p - getZ q \<le> 1"
    using sight by (auto simp: isSightClear_def Let_def getDistanceZ_def getOffsetZ_def split: if_splits)
  then show ?thesis using range by simp
qed

lemma canThrowObjectTo_floors_witness:
  "\<exists>p q. canThrowObjectTo (\<lambda>x y z. None) p q True False 8 6 = Some True \<and> getZ p = 7 \<and> getZ q = 6 \<and>
    getZ p - getZ q \<le> 1"
proof -
  let ?p = "Position 100 100 7" and ?q = "Position 103 102 6"
  have "canThrowObjectTo (\<lambda>x y z. None) ?p ?q True False 8 6 = Some True"
    by (simp add: canThrowObjectTo_def isSightClear_def Let_def getDistanceX_def getDistanceY_def getDistanceZ_def
      getOffsetX_def getOffsetY_def getOffsetZ_def getX_def getY_def getZ_def checkSightLine_path grid_def isTileClear_def list_all_iff)
  moreover from canThrowObjectTo_floors [OF this] have "getZ ?p - getZ ?q \<le> 1" by simp
  ultimately show ?thesis by (intro exI [of _ ?p] exI [of _ ?q]) (simp add: getZ_def)
qed

end
