(* ===== verification/AStar.thy ===== *)
theory AStar
  imports Sight
begin

text \<open>
  Path finding: \<open>AStarNodes\<close> and \<open>Map::getPathMatching\<close> of \<open>src/src/map.cpp\<close> with the condition it
  searches for, \<open>FrozenPathingConditionCall\<close> of \<open>creature.cpp\<close>.  The arrays \<open>nodes\<close> and
  \<open>openNodes\<close> are one list of the nodes in use, so that \<open>curNode\<close> is its length; a pointer to a
  node is its index.  The search ends for every map and every condition; following the
  parents back does because every parent is cheaper.
\<close>

section \<open>Nodes\<close>

record anode =
  an_parent :: "nat option"
  an_f :: nat
  an_x :: u16
  an_y :: u16
  an_open :: bool

record astar =
  nodes :: "anode list"
  nodeTable :: "u32 \<Rightarrow> nat option"
  closedNodes :: int

definition MAX_NODES :: nat where
  "MAX_NODES = 512"

definition node_key :: "u16 \<Rightarrow> u16 \<Rightarrow> u32" where
  "node_key x y = push_bit 16 (ucast x) OR ucast y"

definition AStarNodes :: "u16 \<Rightarrow> u16 \<Rightarrow> astar" where
  "AStarNodes x y =
     \<lparr>nodes = [\<lparr>an_parent = None, an_f = 0, an_x = x, an_y = y, an_open = True\<rparr>],
      nodeTable = [node_key x y \<mapsto> 0], closedNodes = 0\<rparr>"

definition createOpenNode :: "nat \<Rightarrow> u16 \<Rightarrow> u16 \<Rightarrow> nat \<Rightarrow> astar \<Rightarrow> astar option" where
  "createOpenNode parent x y f a =
     (if length (nodes a) \<ge> MAX_NODES then None
      else Some (a\<lparr>nodes := nodes a @ [\<lparr>an_parent = Some parent, an_f = f, an_x = x, an_y = y, an_open = True\<rparr>],
                   nodeTable := (nodeTable a)(node_key x y \<mapsto> length (nodes a))\<rparr>))"

text \<open>The scan for the cheapest open node, the first of several.\<close>

fun best_scan :: "anode list \<Rightarrow> nat \<Rightarrow> int \<Rightarrow> nat option \<Rightarrow> nat option" where
  "best_scan [] i best_node_f best_node = best_node"
| "best_scan (n # ns) i best_node_f best_node =
     (if an_open n \<and> int (an_f n) < best_node_f then best_scan ns (Suc i) (int (an_f n)) (Some i)
      else best_scan ns (Suc i) best_node_f best_node)"

definition getBestNode :: "astar \<Rightarrow> nat option" where
  "getBestNode a = best_scan (nodes a) 0 (2 ^ 31 - 1) None"

definition closeNode :: "nat \<Rightarrow> astar \<Rightarrow> astar" where
  "closeNode i a = a\<lparr>nodes := (nodes a)[i := (nodes a ! i)\<lparr>an_open := False\<rparr>], closedNodes := closedNodes a + 1\<rparr>"

definition openNode :: "nat \<Rightarrow> astar \<Rightarrow> astar" where
  "openNode i a =
     (if \<not> an_open (nodes a ! i)
      then a\<lparr>nodes := (nodes a)[i := (nodes a ! i)\<lparr>an_open := True\<rparr>], closedNodes := closedNodes a - 1\<rparr>
      else a)"

definition getNodeByPosition :: "u16 \<Rightarrow> u16 \<Rightarrow> astar \<Rightarrow> nat option" where
  "getNodeByPosition x y a = nodeTable a (node_key x y)"

definition getMapWalkCost :: "anode \<Rightarrow> position \<Rightarrow> nat" where
  "getMapWalkCost n p =
     (if \<bar>uint (an_x n) - getX p\<bar> = \<bar>uint (an_y n) - getY p\<bar> then 25 else 10)"

text \<open>What \<open>getTileWalkCost\<close> asks: is there a creature it sees, is there a field, and may the
  creature ignore it?\<close>

record walk_tile =
  topVisibleCreature :: bool
  fieldItem :: bool
  isImmune :: bool
  hasFieldCondition :: bool
  isMonster :: bool
  canWalkOnFieldType :: bool

definition getTileWalkCost :: "walk_tile \<Rightarrow> nat" where
  "getTileWalkCost t =
     (if topVisibleCreature t then 10 * 3 else 0)
     + (if fieldItem t \<and> \<not> isImmune t \<and> \<not> hasFieldCondition t \<and> (isMonster t \<and> \<not> canWalkOnFieldType t)
        then 10 * 18 else 0)"

section \<open>The condition of a search\<close>

record path_env =
  path_start :: position
  path_target :: position
  fullPathSearch :: bool
  clearSight :: bool
  allowDiagonal :: bool
  keepDistance :: bool
  maxSearchDist :: int
  minTargetDist :: int
  maxTargetDist :: int
  canWalkTo :: "position \<Rightarrow> bool"
  tile_at :: "position \<Rightarrow> walk_tile"
  sight_tiles :: sight_map

definition isInRange :: "path_env \<Rightarrow> position \<Rightarrow> bool" where
  "isInRange e testPos =
     (let t = path_target e; d = maxTargetDist e; dx = getOffsetX (path_start e) t; dy = getOffsetY (path_start e) t
      in if fullPathSearch e then
           if getX testPos > getX t + d then False
           else if getX testPos < getX t - d then False
           else if getY testPos > getY t + d then False
           else if getY testPos < getY t - d then False
           else True
         else
           if getX testPos > getX t + (if dx \<ge> 0 then d else 0) then False
           else if getX testPos < getX t - (if dx \<le> 0 then d else 0) then False
           else if getY testPos > getY t + (if dy \<ge> 0 then d else 0) then False
           else if getY testPos < getY t - (if dy \<le> 0 then d else 0) then False
           else True)"

text \<open>\<open>operator()\<close>: the answer and the new \<open>bestMatchDist\<close>.\<close>

definition pathCondition :: "path_env \<Rightarrow> position \<Rightarrow> int \<Rightarrow> bool \<times> int" where
  "pathCondition e testPos bestMatchDist =
     (if \<not> isInRange e testPos then (False, bestMatchDist)
      else if clearSight e \<and> isSightClear (sight_tiles e) testPos (path_target e) True \<noteq> Some True
      then (False, bestMatchDist)
      else
        let testDist = max (getDistanceX (path_target e) testPos) (getDistanceY (path_target e) testPos)
        in if maxTargetDist e = 1 then
             (if testDist < minTargetDist e \<or> testDist > maxTargetDist e then (False, bestMatchDist)
              else (True, bestMatchDist))
           else if testDist \<le> maxTargetDist e then
             (if testDist < minTargetDist e then (False, bestMatchDist)
              else if testDist = maxTargetDist e then (True, 0)
              else if testDist > bestMatchDist then (True, testDist)
              else (False, bestMatchDist))
           else (False, bestMatchDist))"

section \<open>The search\<close>

definition allNeighbors :: "(int \<times> int) list" where
  "allNeighbors = [(-1, 0), (0, 1), (1, 0), (0, -1), (-1, -1), (1, -1), (1, 1), (-1, 1)]"

fun dirNeighbors :: "direction \<Rightarrow> (int \<times> int) list" where
  "dirNeighbors DIRECTION_NORTH = [(-1, 0), (0, 1), (1, 0), (1, 1), (-1, 1)]"
| "dirNeighbors DIRECTION_EAST = [(-1, 0), (0, 1), (0, -1), (-1, -1), (-1, 1)]"
| "dirNeighbors DIRECTION_SOUTH = [(-1, 0), (1, 0), (0, -1), (-1, -1), (1, -1)]"
| "dirNeighbors DIRECTION_WEST = [(0, 1), (1, 0), (0, -1), (1, -1), (1, 1)]"
| "dirNeighbors DIRECTION_SOUTHWEST = [(1, 0), (0, -1), (-1, -1), (1, -1), (1, 1)]"
| "dirNeighbors DIRECTION_SOUTHEAST = [(-1, 0), (0, -1), (-1, -1), (1, -1), (-1, 1)]"
| "dirNeighbors DIRECTION_NORTHWEST = [(0, 1), (1, 0), (1, -1), (1, 1), (-1, 1)]"
| "dirNeighbors DIRECTION_NORTHEAST = [(-1, 0), (0, 1), (-1, -1), (1, 1), (-1, 1)]"
| "dirNeighbors DIRECTION_NONE = []"

definition neighbors_of :: "path_env \<Rightarrow> astar \<Rightarrow> anode \<Rightarrow> (int \<times> int) list" where
  "neighbors_of e a n =
     (case an_parent n of
        Some p \<Rightarrow>
          let offset_x = uint (an_x (nodes a ! p)) - uint (an_x n);
              offset_y = uint (an_y (nodes a ! p)) - uint (an_y n);
              dir = (if offset_y = 0 then
                       if offset_x = -1 then DIRECTION_WEST else DIRECTION_EAST
                     else if \<not> allowDiagonal e \<or> offset_x = 0 then
                       if offset_y = -1 then DIRECTION_NORTH else DIRECTION_SOUTH
                     else if offset_y = -1 then
                       if offset_x = -1 then DIRECTION_NORTHWEST else DIRECTION_NORTHEAST
                     else if offset_x = -1 then DIRECTION_SOUTHWEST
                     else DIRECTION_SOUTHEAST)
          in take (if allowDiagonal e then 5 else 3) (dirNeighbors dir)
      | None \<Rightarrow> take 8 allNeighbors)"

text \<open>The two tests that skip a neighbour before it is looked up.\<close>

definition skipped :: "path_env \<Rightarrow> position \<Rightarrow> bool" where
  "skipped e p \<longleftrightarrow>
     maxSearchDist e \<noteq> 0 \<and> (getDistanceX (path_start e) p > maxSearchDist e \<or> getDistanceY (path_start e) p > maxSearchDist e)
     \<or> keepDistance e \<and> \<not> isInRange e p"

text \<open>The loop over the neighbours of the node with index \<open>i\<close>, whose record and cost at its start
  are \<open>n\<close> and \<open>f\<close>.  \<open>None\<close> is \<open>return false\<close>.\<close>

fun expand :: "path_env \<Rightarrow> bool \<Rightarrow> nat \<Rightarrow> anode \<Rightarrow> (int \<times> int) list \<Rightarrow> astar \<Rightarrow> astar option" where
  "expand e found i n [] a = Some a"
| "expand e found i n ((dx, dy) # ns) a =
     (let x = an_x n + word_of_int dx; y = an_y n + word_of_int dy; p = Position x y (pos_z (path_start e))
      in if skipped e p then expand e found i n ns a
         else case getNodeByPosition x y a of
           Some j \<Rightarrow>
             let newf = an_f n + getMapWalkCost n p + getTileWalkCost (tile_at e p)
             in if an_f (nodes a ! j) \<le> newf then expand e found i n ns a
                else expand e found i n ns
                  (openNode j (a\<lparr>nodes := (nodes a)[j := (nodes a ! j)\<lparr>an_f := newf, an_parent := Some i\<rparr>]\<rparr>))
         | None \<Rightarrow>
             if \<not> canWalkTo e p then expand e found i n ns a
             else case createOpenNode i x y (an_f n + getMapWalkCost n p + getTileWalkCost (tile_at e p)) a of
               None \<Rightarrow> if found then Some a else None
             | Some a' \<Rightarrow> expand e found i n ns a')"

subsection \<open>The search ends\<close>

text \<open>Nodes are created at most 511 times; otherwise the cost of some node sinks; otherwise only
  open nodes are closed.\<close>

definition costs :: "astar \<Rightarrow> nat" where
  "costs a = sum_list (map an_f (nodes a))"

definition opens :: "astar \<Rightarrow> nat" where
  "opens a = length (filter an_open (nodes a))"

definition search_measure :: "(astar \<times> astar) set" where
  "search_measure = inv_image (less_than <*lex*> less_than <*lex*> less_than)
     (\<lambda>a. (MAX_NODES - length (nodes a), costs a, opens a))"

lemma wf_search_measure: "wf search_measure"
  unfolding search_measure_def by (intro wf_inv_image wf_lex_prod wf_less_than)

lemma length_closeNode [simp]: "length (nodes (closeNode i a)) = length (nodes a)"
  by (simp add: closeNode_def)

lemma length_openNode [simp]: "length (nodes (openNode i a)) = length (nodes a)"
  by (simp add: openNode_def)

lemma sum_list_update_nat:
  "i < length xs \<Longrightarrow> sum_list (xs[i := v]) + xs ! i = sum_list xs + (v :: nat)"
  by (induction xs arbitrary: i) (auto split: nat.split)

lemma costs_update:
  "i < length (nodes a) \<Longrightarrow> costs (a\<lparr>nodes := (nodes a)[i := v]\<rparr>) + an_f (nodes a ! i) = costs a + an_f v"
  using sum_list_update_nat [of i "map an_f (nodes a)" "an_f v"] by (simp add: costs_def map_update)

lemma costs_flag: "an_f v = an_f (nodes a ! i) \<Longrightarrow> costs (a\<lparr>nodes := (nodes a)[i := v]\<rparr>) = costs a"
  using costs_update [of i a v] by (cases "i < length (nodes a)") (auto simp: list_update_beyond costs_def)

lemma costs_closed [simp]: "costs (a\<lparr>closedNodes := c\<rparr>) = costs a" "costs (closedNodes_update h a) = costs a"
  by (simp_all add: costs_def)

lemma costs_closeNode [simp]: "costs (closeNode i a) = costs a"
  using costs_flag [of "(nodes a ! i)\<lparr>an_open := False\<rparr>" a i] by (simp add: closeNode_def costs_def)

lemma costs_openNode [simp]: "costs (openNode i a) = costs a"
  using costs_flag [of "(nodes a ! i)\<lparr>an_open := True\<rparr>" a i] by (simp add: openNode_def costs_def)

text \<open>What the loop over the neighbours does to the measure.\<close>

definition progressed :: "astar \<Rightarrow> astar \<Rightarrow> bool" where
  "progressed a a' \<longleftrightarrow> a' = a \<or> length (nodes a) < length (nodes a') \<and> length (nodes a') \<le> MAX_NODES
     \<or> length (nodes a') = length (nodes a) \<and> costs a' < costs a
     \<or> length (nodes a') = length (nodes a) \<and> costs a' = costs a \<and> nodes a' = nodes a"

lemma progressed_trans: "progressed a b \<Longrightarrow> progressed b c \<Longrightarrow> progressed a c"
  by (auto simp: progressed_def)

lemma progressed_reopen:
  assumes "\<not> an_f (nodes a ! j) \<le> f"
  shows "progressed a (openNode j (a\<lparr>nodes := (nodes a)[j := (nodes a ! j)\<lparr>an_f := f, an_parent := p\<rparr>]\<rparr>))"
proof (cases "j < length (nodes a)")
  case True
  then show ?thesis
    using costs_update [OF True, of "(nodes a ! j)\<lparr>an_f := f, an_parent := p\<rparr>"] assms
    by (auto simp: progressed_def)
next
  case False
  then show ?thesis by (auto simp: progressed_def openNode_def list_update_beyond costs_def)
qed

lemma expand_progressed: "expand e found i n ns a = Some a' \<Longrightarrow> progressed a a'"
proof (induction e found i n ns a rule: expand.induct)
  case (1 e found i n a)
  then show ?case by (simp add: progressed_def)
next
  case (2 e found i n dx dy ns a)
  let ?x = "an_x n + word_of_int dx" and ?y = "an_y n + word_of_int dy"
  let ?p = "Position ?x ?y (pos_z (path_start e))"
  let ?newf = "an_f n + getMapWalkCost n ?p + getTileWalkCost (tile_at e ?p)"
  show ?case
  proof (cases "skipped e ?p")
    case True
    then show ?thesis using 2 by (simp add: Let_def)
  next
    case ns: False
    show ?thesis
    proof (cases "getNodeByPosition ?x ?y a")
      case (Some j)
      show ?thesis
      proof (cases "an_f (nodes a ! j) \<le> ?newf")
        case True
        then show ?thesis using 2 ns Some by (simp add: Let_def)
      next
        case False
        let ?b = "openNode j (a\<lparr>nodes := (nodes a)[j := (nodes a ! j)\<lparr>an_f := ?newf, an_parent := Some i\<rparr>]\<rparr>)"
        have "progressed ?b a'" using 2 ns Some False by (simp add: Let_def)
        then show ?thesis using progressed_reopen [OF False] progressed_trans by blast
      qed
    next
      case None
      show ?thesis
      proof (cases "canWalkTo e ?p")
        case False
        then show ?thesis using 2 ns None by (simp add: Let_def)
      next
        case True
        show ?thesis
        proof (cases "createOpenNode i ?x ?y ?newf a")
          case None': None
          then have "a' = a" using 2 ns None True by (auto simp: Let_def split: if_splits)
          then show ?thesis by (simp add: progressed_def)
        next
          case (Some b)
          then have "progressed a b"
            by (auto simp: createOpenNode_def progressed_def MAX_NODES_def split: if_splits)
          moreover have "progressed b a'" using 2 ns None True Some by (simp add: Let_def)
          ultimately show ?thesis by (rule progressed_trans)
        qed
      qed
    qed
  qed
qed

lemma best_scan_Some:
  "best_scan ns i f b = Some j \<Longrightarrow> b = Some j \<or> (i \<le> j \<and> j - i < length ns \<and> an_open (ns ! (j - i)))"
proof (induction ns i f b rule: best_scan.induct)
  case (2 n ns i f b)
  show ?case
  proof (cases "an_open n \<and> int (an_f n) < f")
    case True
    then show ?thesis using 2 by (auto simp: nth_Cons' Suc_diff_Suc split: if_splits)
  next
    case False
    then show ?thesis using 2 by (auto simp: nth_Cons' Suc_diff_Suc split: if_splits)
  qed
qed simp

lemma getBestNode_Some: "getBestNode a = Some i \<Longrightarrow> i < length (nodes a) \<and> an_open (nodes a ! i)"
  unfolding getBestNode_def by (drule best_scan_Some) auto

lemma opens_close:
  assumes "i < length (nodes a)" "an_open (nodes a ! i)"
  shows "opens (closeNode i a) < opens a"
proof -
  have "length (filter an_open (xs[i := (xs ! i)\<lparr>an_open := False\<rparr>])) < length (filter an_open xs)"
    if "i < length xs" "an_open (xs ! i)" for i and xs :: "anode list"
    using that
  proof (induction xs arbitrary: i)
    case (Cons x xs)
    then show ?case by (cases i) auto
  qed simp
  from this [OF assms] show ?thesis by (simp add: opens_def closeNode_def)
qed

lemma search_decreases:
  assumes "getBestNode a = Some i" "progressed a a'"
  shows "(closeNode i a', a) \<in> search_measure"
proof -
  note i = getBestNode_Some [OF assms(1)]
  have "opens (closeNode i a') < opens a" if "nodes a' = nodes a"
    using opens_close [of i a'] i that by (simp add: opens_def)
  then show ?thesis using assms(2) by (auto simp: search_measure_def progressed_def)
qed

text \<open>The main loop: the nodes, the node found and its position when it stops, or \<open>None\<close> for
  \<open>return false\<close> inside the loop.\<close>

function search :: "path_env \<Rightarrow> astar \<Rightarrow> nat option \<Rightarrow> position \<Rightarrow> int \<Rightarrow> (astar \<times> nat option \<times> position) option" where
  "search e a found endPos bestMatch =
     (if maxSearchDist e \<noteq> 0 \<or> closedNodes a < 100 then
        case getBestNode a of
          None \<Rightarrow> (if found \<noteq> None then Some (a, found, endPos) else None)
        | Some i \<Rightarrow>
            let n = nodes a ! i;
                pos = Position (an_x n) (an_y n) (pos_z (path_start e));
                (ok, bestMatch) = pathCondition e pos bestMatch;
                found = (if ok then Some i else found);
                endPos = (if ok then pos else endPos)
            in if ok \<and> bestMatch = 0 then Some (a, found, endPos)
               else case expand e (found \<noteq> None) i n (neighbors_of e a n) a of
                 None \<Rightarrow> None
               | Some a' \<Rightarrow> search e (closeNode i a') found endPos bestMatch
      else Some (a, found, endPos))"
  by pat_completeness auto
termination
proof (relation "inv_image search_measure (\<lambda>(e, a, found, endPos, bestMatch). a)")
  show "wf (inv_image search_measure (\<lambda>(e, a, found, endPos, bestMatch). a))"
    by (intro wf_inv_image wf_search_measure)
qed (auto dest: expand_progressed intro: search_decreases)

declare search.simps [simp del]

text \<open>Following the parents back; the directions are pushed last step first.\<close>

definition direction_back :: "int \<Rightarrow> int \<Rightarrow> direction list" where
  "direction_back dx dy =
     (if dx = 1 \<and> dy = 1 then [DIRECTION_NORTHWEST]
      else if dx = -1 \<and> dy = 1 then [DIRECTION_NORTHEAST]
      else if dx = 1 \<and> dy = -1 then [DIRECTION_SOUTHWEST]
      else if dx = -1 \<and> dy = -1 then [DIRECTION_SOUTHEAST]
      else if dx = 1 then [DIRECTION_WEST]
      else if dx = -1 then [DIRECTION_EAST]
      else if dy = 1 then [DIRECTION_NORTH]
      else if dy = -1 then [DIRECTION_SOUTH]
      else [])"

partial_function (option) backtrack :: "anode list \<Rightarrow> nat option \<Rightarrow> u16 \<Rightarrow> u16 \<Rightarrow> direction list \<Rightarrow> direction list option" where
  "backtrack ns found prevx prevy dirList =
     (case found of
        None \<Rightarrow> Some dirList
      | Some i \<Rightarrow>
          let n = ns ! i
          in backtrack ns (an_parent n) (an_x n) (an_y n)
               (dirList @ direction_back (uint (an_x n) - uint prevx) (uint (an_y n) - uint prevy)))"

text \<open>\<open>getPathMatching\<close>: \<open>Some dirList\<close> is \<open>return true\<close>; the outer option is termination.\<close>

definition getPathMatching :: "path_env \<Rightarrow> direction list \<Rightarrow> direction list option option" where
  "getPathMatching e dirList =
     (let s = path_start e
      in case search e (AStarNodes (pos_x s) (pos_y s)) None (Position 0 0 0) 0 of
           None \<Rightarrow> Some None
         | Some (a, found, endPos) \<Rightarrow>
             (case found of
                None \<Rightarrow> Some None
              | Some i \<Rightarrow> map_option Some
                  (backtrack (nodes a) (an_parent (nodes a ! i)) (pos_x endPos) (pos_y endPos) dirList)))"

section \<open>Walking\<close>

fun getNextPosition :: "direction \<Rightarrow> position \<Rightarrow> position" where
  "getNextPosition DIRECTION_NORTH (Position x y z) = Position x (y - 1) z"
| "getNextPosition DIRECTION_SOUTH (Position x y z) = Position x (y + 1) z"
| "getNextPosition DIRECTION_WEST (Position x y z) = Position (x - 1) y z"
| "getNextPosition DIRECTION_EAST (Position x y z) = Position (x + 1) y z"
| "getNextPosition DIRECTION_SOUTHWEST (Position x y z) = Position (x - 1) (y + 1) z"
| "getNextPosition DIRECTION_NORTHWEST (Position x y z) = Position (x - 1) (y - 1) z"
| "getNextPosition DIRECTION_NORTHEAST (Position x y z) = Position (x + 1) (y - 1) z"
| "getNextPosition DIRECTION_SOUTHEAST (Position x y z) = Position (x + 1) (y + 1) z"
| "getNextPosition DIRECTION_NONE p = p"

definition getDirectionTo :: "position \<Rightarrow> position \<Rightarrow> direction" where
  "getDirectionTo from to =
     (if from = to then DIRECTION_NONE
      else
        let x_offset = getOffsetX from to; y_offset = getOffsetY from to;
            dir = (if x_offset < 0 then DIRECTION_EAST else DIRECTION_WEST);
            x_offset = \<bar>x_offset\<bar>
        in if y_offset \<ge> 0 then
             if y_offset > x_offset then DIRECTION_NORTH
             else if y_offset = x_offset then
               (if dir = DIRECTION_EAST then DIRECTION_NORTHEAST else DIRECTION_NORTHWEST)
             else dir
           else
             let y_offset = \<bar>y_offset\<bar>
             in if y_offset > x_offset then DIRECTION_SOUTH
                else if y_offset = x_offset then
                  (if dir = DIRECTION_EAST then DIRECTION_SOUTHEAST else DIRECTION_SOUTHWEST)
                else dir)"

section \<open>Paths are walkable\<close>

definition passable :: "path_env \<Rightarrow> position \<Rightarrow> bool" where
  "passable e p \<longleftrightarrow> canWalkTo e p \<and> \<not> skipped e p"

definition node_pos :: "path_env \<Rightarrow> anode \<Rightarrow> position" where
  "node_pos e n = Position (an_x n) (an_y n) (pos_z (path_start e))"

definition one_step :: "anode \<Rightarrow> anode \<Rightarrow> bool" where
  "one_step m n \<longleftrightarrow> (\<exists>d\<in>set allNeighbors. an_x n = an_x m + word_of_int (fst d) \<and> an_y n = an_y m + word_of_int (snd d))"

text \<open>Every node but the first was reached from a cheaper one next to it.\<close>

definition reached :: "path_env \<Rightarrow> anode list \<Rightarrow> nat \<Rightarrow> bool" where
  "reached e ns i \<longleftrightarrow> (\<exists>j. an_parent (ns ! i) = Some j \<and> j < length ns \<and> an_f (ns ! j) + 10 \<le> an_f (ns ! i)
     \<and> one_step (ns ! j) (ns ! i) \<and> passable e (node_pos e (ns ! i)))"

definition nodes_ok :: "path_env \<Rightarrow> anode list \<Rightarrow> bool" where
  "nodes_ok e ns \<longleftrightarrow> ns \<noteq> [] \<and> an_parent (ns ! 0) = None \<and> an_f (ns ! 0) = 0 \<and> node_pos e (ns ! 0) = path_start e \<and>
     (\<forall>i. 0 < i \<and> i < length ns \<longrightarrow> reached e ns i)"

definition table_ok :: "astar \<Rightarrow> bool" where
  "table_ok a \<longleftrightarrow> (\<forall>k i. nodeTable a k = Some i \<longrightarrow>
     i < length (nodes a) \<and> node_key (an_x (nodes a ! i)) (an_y (nodes a ! i)) = k)"

lemma node_key_inj: "node_key x y = node_key x' y' \<longleftrightarrow> x = x' \<and> y = y'"
proof
  assume eq: "node_key x y = node_key x' y'"
  have lo: "bit (node_key x y) k \<longleftrightarrow> bit y k" if "k < 16" for x y k
    using that by (auto simp: node_key_def bit_simps)
  have hi: "bit (node_key x y) (k + 16) \<longleftrightarrow> bit x k" if "k < 16" for x y :: u16 and k
    using that bit_imp_le_length [of y "k + 16"] by (auto simp: node_key_def bit_simps)
  have "y = y'"
  proof (rule bit_word_eqI)
    fix n assume "n < LENGTH(16)"
    then show "bit y n = bit y' n" using lo [of n x y] lo [of n x' y'] eq by simp
  qed
  moreover have "x = x'"
  proof (rule bit_word_eqI)
    fix n assume "n < LENGTH(16)"
    then show "bit x n = bit x' n" using hi [of n x y] hi [of n x' y'] eq by simp
  qed
  ultimately show "x = x' \<and> y = y'" by simp
qed simp

lemma table_lookup:
  assumes "table_ok a" "getNodeByPosition x y a = Some j"
  shows "j < length (nodes a) \<and> an_x (nodes a ! j) = x \<and> an_y (nodes a ! j) = y"
  using assms node_key_inj unfolding table_ok_def getNodeByPosition_def by blast

text \<open>Changes of the list that keep it so: opening and closing, a cheaper parent, a new node.\<close>

lemma nodes_ok_flag:
  assumes "nodes_ok e ns"
  shows "nodes_ok e (ns[i := (ns ! i)\<lparr>an_open := b\<rparr>])"
proof (cases "i < length ns")
  case True
  have eq: "an_parent (ns[i := (ns ! i)\<lparr>an_open := b\<rparr>] ! k) = an_parent (ns ! k)"
    "an_f (ns[i := (ns ! i)\<lparr>an_open := b\<rparr>] ! k) = an_f (ns ! k)"
    "an_x (ns[i := (ns ! i)\<lparr>an_open := b\<rparr>] ! k) = an_x (ns ! k)"
    "an_y (ns[i := (ns ! i)\<lparr>an_open := b\<rparr>] ! k) = an_y (ns ! k)" for k
    using True by (cases "k = i"; simp)+
  show ?thesis using assms by (simp add: nodes_ok_def reached_def node_pos_def one_step_def eq)
next
  case False
  then show ?thesis using assms by (simp add: list_update_beyond)
qed

lemma nodes_ok_reparent:
  assumes ok: "nodes_ok e ns" and ij: "i < length ns" "j < length ns" "i \<noteq> j"
    and f: "an_f (ns ! i) + 10 \<le> f" "f < an_f (ns ! j)" and step: "one_step (ns ! i) (ns ! j)"
  shows "nodes_ok e (ns[j := (ns ! j)\<lparr>an_f := f, an_parent := Some i\<rparr>])"
proof -
  let ?v = "(ns ! j)\<lparr>an_f := f, an_parent := Some i\<rparr>" and ?ns = "ns[j := (ns ! j)\<lparr>an_f := f, an_parent := Some i\<rparr>]"
  have "0 < j" using ok f(2) by (cases j) (auto simp: nodes_ok_def)
  have le: "an_f (?ns ! k) \<le> an_f (ns ! k)" "an_x (?ns ! k) = an_x (ns ! k)" "an_y (?ns ! k) = an_y (ns ! k)" for k
    using ij f by (cases "k = j"; simp)+
  have "reached e ?ns k" if k: "0 < k" "k < length ns" for k
  proof -
    have "reached e ns k" using ok k by (simp add: nodes_ok_def)
    then obtain m where m: "an_parent (ns ! k) = Some m" "m < length ns" "an_f (ns ! m) + 10 \<le> an_f (ns ! k)"
        "one_step (ns ! m) (ns ! k)" "passable e (node_pos e (ns ! k))"
      unfolding reached_def by blast
    have pos: "one_step (?ns ! m) (?ns ! k) = one_step (ns ! m) (ns ! k)" "node_pos e (?ns ! k) = node_pos e (ns ! k)" for m k
      by (simp_all add: one_step_def node_pos_def le)
    show ?thesis
    proof (cases "k = j")
      case True
      then have "an_parent (?ns ! k) = Some i" "an_f (?ns ! k) = f" "?ns ! i = ns ! i" using ij by simp_all
      then show ?thesis using f(1) step m(5) ij True unfolding reached_def one_step_def node_pos_def by auto
    next
      case False
      then have "?ns ! k = ns ! k" by simp
      moreover have "an_f (?ns ! m) + 10 \<le> an_f (ns ! k)" using le(1) [of m] m(3) by simp
      ultimately have "an_parent (?ns ! k) = Some m \<and> m < length ?ns \<and> an_f (?ns ! m) + 10 \<le> an_f (?ns ! k)"
        using m(1,2) by simp
      moreover have "one_step (?ns ! m) (?ns ! k) \<and> passable e (node_pos e (?ns ! k))"
        unfolding pos using m(4,5) by simp
      ultimately show ?thesis unfolding reached_def by blast
    qed
  qed
  then show ?thesis using ok \<open>0 < j\<close> by (simp add: nodes_ok_def node_pos_def)
qed

lemma nodes_ok_new:
  assumes ok: "nodes_ok e ns" and i: "i < length ns" and v: "an_parent v = Some i" "an_f (ns ! i) + 10 \<le> an_f v"
    "one_step (ns ! i) v" "passable e (node_pos e v)"
  shows "nodes_ok e (ns @ [v])"
proof -
  have "reached e (ns @ [v]) k" if k: "0 < k" "k < Suc (length ns)" for k
  proof (cases "k = length ns")
    case True
    then show ?thesis using i v by (auto simp: reached_def nth_append)
  next
    case False
    then have "reached e ns k" "k < length ns" using ok k by (auto simp: nodes_ok_def)
    then show ?thesis by (force simp: reached_def nth_append)
  qed
  then show ?thesis using ok by (auto simp: nodes_ok_def nth_append)
qed

definition astar_ok :: "path_env \<Rightarrow> astar \<Rightarrow> bool" where
  "astar_ok e a \<longleftrightarrow> nodes_ok e (nodes a) \<and> table_ok a"

text \<open>The nodes that are there keep their places.\<close>

definition kept :: "astar \<Rightarrow> astar \<Rightarrow> bool" where
  "kept a a' \<longleftrightarrow> length (nodes a) \<le> length (nodes a') \<and>
     (\<forall>i < length (nodes a). an_x (nodes a' ! i) = an_x (nodes a ! i) \<and> an_y (nodes a' ! i) = an_y (nodes a ! i))"

lemma kept_trans: "kept a b \<Longrightarrow> kept b c \<Longrightarrow> kept a c"
  by (auto simp: kept_def)

lemma kept_refl [simp]: "kept a a"
  by (simp add: kept_def)

lemma table_ok_kept:
  "table_ok a \<Longrightarrow> kept a a' \<Longrightarrow> nodeTable a' = nodeTable a \<Longrightarrow> table_ok a'"
  unfolding table_ok_def kept_def by (metis order.strict_trans2)

lemma nth_flag: "an_x (ns[i := (ns ! i)\<lparr>an_open := b\<rparr>] ! k) = an_x (ns ! k)"
  "an_y (ns[i := (ns ! i)\<lparr>an_open := b\<rparr>] ! k) = an_y (ns ! k)"
  "an_f (ns[i := (ns ! i)\<lparr>an_open := b\<rparr>] ! k) = an_f (ns ! k)"
  by (cases "i < length ns"; cases "k = i"; simp add: list_update_beyond)+

lemma kept_closeNode: "kept a (closeNode i a)"
  by (simp add: kept_def closeNode_def nth_flag)

lemma kept_openNode: "kept a (openNode i a)"
  by (simp add: kept_def openNode_def nth_flag)

lemma astar_ok_closeNode: "astar_ok e a \<Longrightarrow> astar_ok e (closeNode i a)"
  using table_ok_kept [OF _ kept_closeNode [of a i]] nodes_ok_flag [of e "nodes a" i False]
  by (simp add: astar_ok_def closeNode_def)

lemma astar_ok_openNode: "astar_ok e a \<Longrightarrow> astar_ok e (openNode i a)"
  using table_ok_kept [OF _ kept_openNode [of a i]] nodes_ok_flag [of e "nodes a" i True]
  by (simp add: astar_ok_def openNode_def)

lemma cost_at_least: "10 \<le> getMapWalkCost n p"
  by (simp add: getMapWalkCost_def)

lemma neighbor_differs: "d \<in> set allNeighbors \<Longrightarrow> word_of_int (fst d) \<noteq> (0 :: u16) \<or> word_of_int (snd d) \<noteq> (0 :: u16)"
  by (auto simp: allNeighbors_def)

text \<open>What \<open>expand\<close> needs to know of the node it expands.\<close>

definition at_node :: "nat \<Rightarrow> anode \<Rightarrow> astar \<Rightarrow> bool" where
  "at_node i n a \<longleftrightarrow> i < length (nodes a) \<and> an_x (nodes a ! i) = an_x n \<and> an_y (nodes a ! i) = an_y n \<and>
     an_f (nodes a ! i) = an_f n"

lemma at_node_openNode: "at_node i n a \<Longrightarrow> at_node i n (openNode j a)"
  by (simp add: at_node_def openNode_def nth_flag)

lemma expand_reparent:
  assumes "astar_ok e a" "at_node i n a" "d \<in> set allNeighbors"
    and "getNodeByPosition (an_x n + word_of_int (fst d)) (an_y n + word_of_int (snd d)) a = Some j"
    and "an_f n + 10 \<le> f" "\<not> an_f (nodes a ! j) \<le> f"
  defines "b \<equiv> openNode j (a\<lparr>nodes := (nodes a)[j := (nodes a ! j)\<lparr>an_f := f, an_parent := Some i\<rparr>]\<rparr>)"
  shows "astar_ok e b \<and> at_node i n b \<and> kept a b"
proof -
  let ?c = "a\<lparr>nodes := (nodes a)[j := (nodes a ! j)\<lparr>an_f := f, an_parent := Some i\<rparr>]\<rparr>"
  have j: "j < length (nodes a)" "an_x (nodes a ! j) = an_x n + word_of_int (fst d)"
      "an_y (nodes a ! j) = an_y n + word_of_int (snd d)"
    using table_lookup [OF _ assms(4)] assms(1) by (auto simp: astar_ok_def)
  have ij: "i \<noteq> j" using neighbor_differs [OF assms(3)] assms(2) j by (auto simp: at_node_def)
  have step: "one_step (nodes a ! i) (nodes a ! j)"
    using assms(2,3) j by (auto simp: one_step_def at_node_def)
  have "nodes_ok e (nodes ?c)"
    using nodes_ok_reparent [of e "nodes a" i j f] assms(1,2,5,6) ij j step by (simp add: astar_ok_def at_node_def)
  moreover have k: "kept a ?c" using j by (auto simp: kept_def nth_list_update)
  ultimately have c: "astar_ok e ?c" using table_ok_kept [OF _ k] assms(1) by (simp add: astar_ok_def)
  have "at_node i n ?c" using assms(2) ij by (simp add: at_node_def)
  then have "at_node i n b" unfolding b_def by (rule at_node_openNode)
  then show ?thesis using astar_ok_openNode [OF c] kept_trans [OF k kept_openNode] by (simp add: b_def)
qed

lemma expand_create:
  assumes "astar_ok e a" "at_node i n a" "d \<in> set allNeighbors" "an_f n + 10 \<le> f"
    and "passable e (Position (an_x n + word_of_int (fst d)) (an_y n + word_of_int (snd d)) (pos_z (path_start e)))"
    and "createOpenNode i (an_x n + word_of_int (fst d)) (an_y n + word_of_int (snd d)) f a = Some b"
  shows "astar_ok e b \<and> at_node i n b \<and> kept a b"
proof -
  let ?v = "\<lparr>an_parent = Some i, an_f = f, an_x = an_x n + word_of_int (fst d), an_y = an_y n + word_of_int (snd d), an_open = True\<rparr>"
  have b: "nodes b = nodes a @ [?v]" "nodeTable b = (nodeTable a)(node_key (an_x ?v) (an_y ?v) \<mapsto> length (nodes a))"
    using assms(6) by (auto simp: createOpenNode_def split: if_splits)
  have i: "i < length (nodes a)" using assms(2) by (simp add: at_node_def)
  have "one_step (nodes a ! i) ?v" using assms(2,3) by (auto simp: one_step_def at_node_def)
  then have "nodes_ok e (nodes b)"
    using nodes_ok_new [of e "nodes a" i ?v] assms(1,2,4,5) i unfolding b by (simp add: astar_ok_def at_node_def node_pos_def)
  moreover have "table_ok b"
    using assms(1) by (auto simp: astar_ok_def table_ok_def b nth_append less_Suc_eq)
  moreover have "at_node i n b" using assms(2) by (simp add: at_node_def b nth_append)
  moreover have "kept a b" by (simp add: kept_def b nth_append)
  ultimately show ?thesis by (simp add: astar_ok_def)
qed

lemma expand_ok:
  "expand e found i n ns a = Some a' \<Longrightarrow> astar_ok e a \<Longrightarrow> at_node i n a \<Longrightarrow> set ns \<subseteq> set allNeighbors
     \<Longrightarrow> astar_ok e a' \<and> kept a a'"
proof (induction e found i n ns a rule: expand.induct)
  case (1 e found i n a)
  then show ?case by simp
next
  case (2 e found i n dx dy ns a)
  let ?x = "an_x n + word_of_int dx" and ?y = "an_y n + word_of_int dy"
  let ?p = "Position ?x ?y (pos_z (path_start e))"
  let ?newf = "an_f n + getMapWalkCost n ?p + getTileWalkCost (tile_at e ?p)"
  have newf: "an_f n + 10 \<le> ?newf" using cost_at_least [of n ?p] by simp
  have d: "(dx, dy) \<in> set allNeighbors" "set ns \<subseteq> set allNeighbors" using "2.prems"(4) by auto
  consider (skip) "skipped e ?p"
    | (old) j where "\<not> skipped e ?p" "getNodeByPosition ?x ?y a = Some j" "an_f (nodes a ! j) \<le> ?newf"
    | (cheaper) j where "\<not> skipped e ?p" "getNodeByPosition ?x ?y a = Some j" "\<not> an_f (nodes a ! j) \<le> ?newf"
    | (wall) "\<not> skipped e ?p" "getNodeByPosition ?x ?y a = None" "\<not> canWalkTo e ?p"
    | (full) "\<not> skipped e ?p" "getNodeByPosition ?x ?y a = None" "canWalkTo e ?p" "createOpenNode i ?x ?y ?newf a = None"
    | (new) b where "\<not> skipped e ?p" "getNodeByPosition ?x ?y a = None" "canWalkTo e ?p" "createOpenNode i ?x ?y ?newf a = Some b"
    by (cases "getNodeByPosition ?x ?y a"; cases "createOpenNode i ?x ?y ?newf a") blast+
  then show ?case
  proof cases
    case cheaper
    let ?b = "openNode j (a\<lparr>nodes := (nodes a)[j := (nodes a ! j)\<lparr>an_f := ?newf, an_parent := Some i\<rparr>]\<rparr>)"
    have b: "astar_ok e ?b \<and> at_node i n ?b \<and> kept a ?b"
      using expand_reparent [OF "2.prems"(2,3) d(1), of j ?newf] cheaper newf by simp
    have "astar_ok e a' \<and> kept ?b a'" using 2 cheaper b d(2) by (simp add: Let_def)
    then show ?thesis using b kept_trans by blast
  next
    case new
    have b: "astar_ok e b \<and> at_node i n b \<and> kept a b"
      using expand_create [OF "2.prems"(2,3) d(1) newf, of b] new by (simp add: passable_def)
    have "astar_ok e a' \<and> kept b a'" using 2 new b d(2) by (simp add: Let_def)
    then show ?thesis using b kept_trans by blast
  next
    case full
    then have "a' = a" using "2.prems"(1) by (simp add: Let_def split: if_splits)
    then show ?thesis using "2.prems" by simp
  qed (use 2 d(2) in \<open>simp_all add: Let_def\<close>)
qed

lemma neighbors_subset: "set (neighbors_of e a n) \<subseteq> set allNeighbors"
proof -
  have dir: "set (dirNeighbors d) \<subseteq> set allNeighbors" for d
    by (cases d) (simp_all add: allNeighbors_def)
  have "set (take k (dirNeighbors d)) \<subseteq> set allNeighbors" for k d
    using dir [of d] set_take_subset [of k "dirNeighbors d"] by (rule subset_trans [rotated])
  then show ?thesis
    by (cases "an_parent n") (simp_all only: neighbors_of_def option.case Let_def set_take_subset)
qed

text \<open>What the search keeps: the node found is the node at \<open>endPos\<close>, where the condition held.\<close>

definition found_ok :: "path_env \<Rightarrow> astar \<Rightarrow> nat option \<Rightarrow> position \<Rightarrow> bool" where
  "found_ok e a found endPos \<longleftrightarrow> (case found of None \<Rightarrow> True
     | Some i \<Rightarrow> i < length (nodes a) \<and> node_pos e (nodes a ! i) = endPos \<and> (\<exists>b. fst (pathCondition e endPos b)))"

lemma found_ok_kept: "found_ok e a found endPos \<Longrightarrow> kept a a' \<Longrightarrow> found_ok e a' found endPos"
  by (auto simp: found_ok_def kept_def node_pos_def split: option.splits)

lemma search_ok:
  "search e a found endPos best = Some (a', found', endPos') \<Longrightarrow> astar_ok e a \<Longrightarrow> found_ok e a found endPos
     \<Longrightarrow> astar_ok e a' \<and> found_ok e a' found' endPos'"
proof (induction e a found endPos best rule: search.induct)
  case (1 e a found endPos best)
  show ?case
  proof (cases "maxSearchDist e \<noteq> 0 \<or> closedNodes a < 100")
    case False
    then show ?thesis using "1.prems" by (simp add: search.simps [of e a])
  next
    case go: True
    show ?thesis
    proof (cases "getBestNode a")
      case None
      then show ?thesis using "1.prems" go by (simp add: search.simps [of e a] split: if_splits)
    next
      case (Some i)
      let ?n = "nodes a ! i"
      let ?pos = "Position (an_x ?n) (an_y ?n) (pos_z (path_start e))"
      obtain ok best' where cond: "pathCondition e ?pos best = (ok, best')" by (cases "pathCondition e ?pos best")
      let ?found = "if ok then Some i else found" and ?endPos = "if ok then ?pos else endPos"
      have i: "i < length (nodes a)" using getBestNode_Some [OF Some] by simp
      have "\<exists>b. fst (pathCondition e ?pos b)" if ok using cond that by (intro exI [of _ best]) simp
      then have f: "found_ok e a ?found ?endPos" using "1.prems"(3) i by (simp add: found_ok_def node_pos_def)
      show ?thesis
      proof (cases "ok \<and> best' = 0")
        case True
        then show ?thesis using "1.prems" go Some cond f by (auto simp: search.simps [of e a] Let_def)
      next
        case more: False
        obtain b where b: "expand e (?found \<noteq> None) i ?n (neighbors_of e a ?n) a = Some b"
            "search e (closeNode i b) ?found ?endPos best' = Some (a', found', endPos')"
          using "1.prems"(1) go Some cond more by (auto simp: search.simps [of e a] Let_def split: option.splits if_splits)
        have "astar_ok e b \<and> kept a b"
          by (rule expand_ok [OF b(1) "1.prems"(2) _ neighbors_subset]) (simp add: at_node_def i)
        then have "astar_ok e (closeNode i b)" "found_ok e (closeNode i b) ?found ?endPos"
          using astar_ok_closeNode found_ok_kept [OF f kept_trans [OF _ kept_closeNode]] by auto
        then show ?thesis
          using "1.IH" [OF go Some refl refl cond [symmetric] refl refl refl more b(1)] b(2) by simp
      qed
    qed
  qed
qed

section \<open>Following a path\<close>

text \<open>The positions a creature passes that takes the steps of a list.\<close>

primrec route :: "direction list \<Rightarrow> position \<Rightarrow> position list" where
  "route [] p = []"
| "route (d # ds) p = getNextPosition d p # route ds (getNextPosition d p)"

lemma route_append: "route (ds @ es) p = route ds p @ route es (last (p # route ds p))"
  by (induction ds arbitrary: p) auto

text \<open>Away from the edge of the coordinate range steps do not wrap around.\<close>

definition inner :: "position \<Rightarrow> bool" where
  "inner p \<longleftrightarrow> 0 < pos_x p \<and> pos_x p < 65535 \<and> 0 < pos_y p \<and> pos_y p < 65535"

lemma uint_minus_1: "0 < (x :: u16) \<Longrightarrow> uint (x - 1) = uint x - 1"
  by (metis uint_1 uint_minus_simple_alt word_le_sub1 word_gt_0 uint_minus_simple_iff word_less_1 not_less order_refl)

lemma uint_plus_1: "(x :: u16) < 65535 \<Longrightarrow> uint (x + 1) = uint x + 1"
proof -
  assume "x < 65535"
  then have "uint x < 65535" by (simp add: word_less_def)
  then show ?thesis by (simp add: uint_word_ariths)
qed

lemma minus_one_word [simp]: "word_of_int (- 1) = (- 1 :: u16)"
  by simp

lemma one_step_back:
  assumes "one_step m n" "inner (node_pos e m)"
  shows "\<exists>d. direction_back (uint (an_x m) - uint (an_x n)) (uint (an_y m) - uint (an_y n)) = [d] \<and>
    getNextPosition d (node_pos e m) = node_pos e n"
proof -
  have x: "uint (an_x m - 1) = uint (an_x m) - 1" "uint (an_x m + 1) = uint (an_x m) + 1"
    and y: "uint (an_y m - 1) = uint (an_y m) - 1" "uint (an_y m + 1) = uint (an_y m) + 1"
    using assms(2) by (auto simp: inner_def node_pos_def uint_minus_1 uint_plus_1)
  show ?thesis
    using assms(1) x y
    by (auto simp: one_step_def allNeighbors_def direction_back_def node_pos_def)
qed

lemma backtrack_None [simp]: "backtrack ns None x y dl = Some dl"
  by (subst backtrack.simps) simp

lemma backtrack_Some:
  "backtrack ns (Some i) x y dl = backtrack ns (an_parent (ns ! i)) (an_x (ns ! i)) (an_y (ns ! i))
     (dl @ direction_back (uint (an_x (ns ! i)) - uint x) (uint (an_y (ns ! i)) - uint y))"
  by (subst backtrack.simps) (simp add: Let_def)

text \<open>A walk over neighbouring tiles; at the edge of the coordinates a neighbour wraps around.\<close>

definition adjacent :: "position \<Rightarrow> position \<Rightarrow> bool" where
  "adjacent p q \<longleftrightarrow> pos_z q = pos_z p \<and>
     (\<exists>d\<in>set allNeighbors. pos_x q = pos_x p + word_of_int (fst d) \<and> pos_y q = pos_y p + word_of_int (snd d))"

fun tile_walk :: "position \<Rightarrow> position list \<Rightarrow> bool" where
  "tile_walk p [] = True"
| "tile_walk p (q # qs) = (adjacent p q \<and> tile_walk q qs)"

lemma tile_walk_append: "tile_walk p (qs @ [q]) \<longleftrightarrow> tile_walk p qs \<and> adjacent (last (p # qs)) q"
  by (induction qs arbitrary: p) auto

lemma one_step_adjacent: "one_step m n \<Longrightarrow> adjacent (node_pos e m) (node_pos e n)"
  by (simp add: one_step_def adjacent_def node_pos_def)

text \<open>
  \<open>backtrack\<close> ends, and what it gives is a walk from the start; the directions retrace it
  unless it touches the edge of the coordinates.
\<close>

lemma backtrack_ok:
  assumes "nodes_ok e ns" "i < length ns"
  shows "\<exists>ds ps. (\<forall>dl. backtrack ns (an_parent (ns ! i)) (an_x (ns ! i)) (an_y (ns ! i)) dl = Some (dl @ ds)) \<and>
    tile_walk (path_start e) ps \<and> set ps \<subseteq> {p. passable e p} \<and> last (path_start e # ps) = node_pos e (ns ! i) \<and>
    ((\<forall>p\<in>set (path_start e # ps). inner p) \<longrightarrow> route (rev ds) (path_start e) = ps)"
  using assms(2)
proof (induction "an_f (ns ! i)" arbitrary: i rule: less_induct)
  case less
  show ?case
  proof (cases "i = 0")
    case True
    then show ?thesis using assms(1) by (intro exI [of _ "[]"]) (simp add: nodes_ok_def)
  next
    case False
    then obtain j where j: "an_parent (ns ! i) = Some j" "j < length ns" "an_f (ns ! j) + 10 \<le> an_f (ns ! i)"
        "one_step (ns ! j) (ns ! i)" "passable e (node_pos e (ns ! i))"
      using assms(1) less.prems by (auto simp: nodes_ok_def reached_def)
    obtain ds ps where ds: "\<forall>dl. backtrack ns (an_parent (ns ! j)) (an_x (ns ! j)) (an_y (ns ! j)) dl = Some (dl @ ds)"
        "tile_walk (path_start e) ps" "set ps \<subseteq> {p. passable e p}" "last (path_start e # ps) = node_pos e (ns ! j)"
        "(\<forall>p\<in>set (path_start e # ps). inner p) \<longrightarrow> route (rev ds) (path_start e) = ps"
      using less.hyps [OF _ j(2)] j(3) by auto
    define turn where
      "turn = direction_back (uint (an_x (ns ! j)) - uint (an_x (ns ! i))) (uint (an_y (ns ! j)) - uint (an_y (ns ! i)))"
    have "route (rev (turn @ ds)) (path_start e) = ps @ [node_pos e (ns ! i)]"
      if inner: "\<forall>p\<in>set (path_start e # ps @ [node_pos e (ns ! i)]). inner p"
    proof -
      have "last (path_start e # ps) \<in> set (path_start e # ps)" by (rule last_in_set) simp
      then have "inner (node_pos e (ns ! j))" using inner ds(4) by auto
      then obtain d where "turn = [d]" "getNextPosition d (node_pos e (ns ! j)) = node_pos e (ns ! i)"
        using one_step_back [OF j(4)] unfolding turn_def by blast
      then show ?thesis using ds(4,5) inner by (simp add: route_append)
    qed
    then show ?thesis
      using ds(1-4) j(1,5) one_step_adjacent [OF j(4), of e]
      by (intro exI [of _ "turn @ ds"] exI [of _ "ps @ [node_pos e (ns ! i)]"])
        (simp add: backtrack_Some tile_walk_append turn_def)
  qed
qed

lemma pathCondition_sound:
  "fst (pathCondition e p b) \<Longrightarrow> isInRange e p \<and> (\<not> clearSight e \<or> isSightClear (sight_tiles e) p (path_target e) True = Some True)
     \<and> minTargetDist e \<le> max (getDistanceX (path_target e) p) (getDistanceY (path_target e) p)
     \<and> max (getDistanceX (path_target e) p) (getDistanceY (path_target e) p) \<le> maxTargetDist e"
  by (auto simp: pathCondition_def Let_def split: if_splits)

definition arrived :: "path_env \<Rightarrow> position \<Rightarrow> bool" where
  "arrived e p \<longleftrightarrow> isInRange e p \<and> (clearSight e \<longrightarrow> isSightClear (sight_tiles e) p (path_target e) True = Some True) \<and>
     minTargetDist e \<le> max (getDistanceX (path_target e) p) (getDistanceY (path_target e) p) \<and>
     max (getDistanceX (path_target e) p) (getDistanceY (path_target e) p) \<le> maxTargetDist e"

text \<open>
  C15: path finding is sound and ends.  For every map, creature and search parameters
  \<open>getPathMatching\<close> returns.  If it returns a path, there is a walk over neighbouring
  positions from the creature's, all of them positions the creature can walk on and the
  parameters allow, to one that is in range of the target, at an allowed distance, and sees
  the target if sight counts.  If no position of this walk has a coordinate 0 or 65535, the
  directions of the path, taken in the order creatures take them (the last first), are exactly
  this walk.  (At the edge of the coordinates the search steps around modulo \<open>2 ^ 16\<close> and the
  directions are lost.)
\<close>

theorem getPathMatching_sound:
  "case getPathMatching e [] of None \<Rightarrow> False | Some None \<Rightarrow> True
    | Some (Some ds) \<Rightarrow> \<exists>ps. tile_walk (path_start e) ps \<and> set ps \<subseteq> {p. passable e p} \<and>
        arrived e (last (path_start e # ps)) \<and>
        ((\<forall>p\<in>set (path_start e # ps). inner p) \<longrightarrow> route (rev ds) (path_start e) = ps)"
proof -
  let ?s = "path_start e" and ?a0 = "AStarNodes (pos_x (path_start e)) (pos_y (path_start e))"
  have a0: "astar_ok e ?a0"
    by (cases ?s) (auto simp: astar_ok_def nodes_ok_def table_ok_def AStarNodes_def node_pos_def)
  show ?thesis
  proof (cases "search e ?a0 None (Position 0 0 0) 0")
    case None
    then show ?thesis by (simp add: getPathMatching_def)
  next
    case (Some r)
    obtain a found endPos where r: "r = (a, found, endPos)" by (cases r) auto
    have ok: "astar_ok e a" "found_ok e a found endPos"
      using search_ok [OF Some [unfolded r] a0] by (auto simp: found_ok_def)
    show ?thesis
    proof (cases found)
      case None
      then show ?thesis using Some r by (simp add: getPathMatching_def)
    next
      case i: (Some i)
      then have f: "i < length (nodes a)" "node_pos e (nodes a ! i) = endPos" "\<exists>b. fst (pathCondition e endPos b)"
        using ok(2) by (auto simp: found_ok_def)
      obtain ds ps where ds:
          "backtrack (nodes a) (an_parent (nodes a ! i)) (an_x (nodes a ! i)) (an_y (nodes a ! i)) [] = Some ds"
          "tile_walk ?s ps" "set ps \<subseteq> {p. passable e p}" "last (?s # ps) = endPos"
          "(\<forall>p\<in>set (?s # ps). inner p) \<longrightarrow> route (rev ds) ?s = ps"
        using backtrack_ok [of e "nodes a" i] ok(1) f(1,2) by (auto simp: astar_ok_def)
      have "getPathMatching e [] = Some (Some ds)"
        using Some r i ds(1) f(2) by (auto simp: getPathMatching_def node_pos_def)
      moreover have "arrived e endPos" using f(3) pathCondition_sound by (auto simp: arrived_def)
      with ds(2-5) have "\<exists>ps. tile_walk ?s ps \<and> set ps \<subseteq> {p. passable e p} \<and> arrived e (last (?s # ps)) \<and>
          ((\<forall>p\<in>set (?s # ps). inner p) \<longrightarrow> route (rev ds) ?s = ps)"
        by (intro exI [of _ ps] conjI) (simp_all only:)
      ultimately show ?thesis by (simp only: option.case)
    qed
  qed
qed

definition corridor :: path_env where
  "corridor = \<lparr>path_start = Position 100 100 7, path_target = Position 102 98 7, fullPathSearch = True,
     clearSight = False, allowDiagonal = False, keepDistance = False, maxSearchDist = 0, minTargetDist = 1,
     maxTargetDist = 1, canWalkTo = (\<lambda>p. p = Position 101 99 7), tile_at = (\<lambda>p. \<lparr>topVisibleCreature = False,
       fieldItem = False, isImmune = False, hasFieldCondition = False, isMonster = False, canWalkOnFieldType = False\<rparr>),
     sight_tiles = (\<lambda>x y z. None)\<rparr>"

lemmas search_eval = search.simps getPathMatching_def AStarNodes_def getBestNode_def pathCondition_def isInRange_def
  neighbors_of_def allNeighbors_def skipped_def getNodeByPosition_def node_key_def createOpenNode_def MAX_NODES_def
  closeNode_def getTileWalkCost_def getMapWalkCost_def getX_def getY_def getOffsetX_def getOffsetY_def
  getDistanceX_def getDistanceY_def backtrack_Some direction_back_def

lemma corridor_path: "getPathMatching corridor [] = Some (Some [DIRECTION_NORTHEAST])"
  by (simp add: corridor_def search_eval Let_def)

text \<open>The corridor's only free tile is the one to the north east.\<close>

lemma getPathMatching_sound_witness:
  "getPathMatching corridor [] = Some (Some [DIRECTION_NORTHEAST]) \<and>
   (\<exists>ps. tile_walk (path_start corridor) ps \<and> set ps \<subseteq> {Position 101 99 7} \<and>
     arrived corridor (last (path_start corridor # ps)) \<and>
     route [DIRECTION_NORTHEAST] (path_start corridor) = ps)"
proof -
  obtain ps where ps: "tile_walk (path_start corridor) ps" "set ps \<subseteq> {p. passable corridor p}"
      "arrived corridor (last (path_start corridor # ps))"
      "(\<forall>p\<in>set (path_start corridor # ps). inner p) \<longrightarrow> route [DIRECTION_NORTHEAST] (path_start corridor) = ps"
    using getPathMatching_sound [of corridor] unfolding corridor_path by auto
  moreover have "set ps \<subseteq> {Position 101 99 7}" using ps(2) by (auto simp: passable_def corridor_def)
  moreover from this have "\<forall>p\<in>set (path_start corridor # ps). inner p"
    by (auto simp: corridor_def inner_def)
  ultimately show ?thesis using corridor_path by blast
qed

end
