(* ===== verification/QuadTree.thy ===== *)
theory QuadTree
  imports Prelude
begin

text \<open>
  The quadtree of \<open>src/src/map.cpp\<close> and \<open>map.h\<close>: \<open>QTreeNode\<close> with \<open>getLeaf\<close>, \<open>getLeafStatic\<close> and
  \<open>createLeaf\<close>.  A leaf covers eight by eight coordinates; the thirteen upper bits of both
  coordinates select it.  The theory shows that the tree is a partial map from such cells to
  leaves, with the usual laws.
\<close>

section \<open>The tree\<close>

datatype 'l qtree = Leaf 'l | Node "'l qtree option list"

text \<open>A new inner node has four null children.\<close>

definition new_node :: "'l qtree" where
  "new_node = Node [None, None, None, None]"

definition quad :: "u32 \<Rightarrow> u32 \<Rightarrow> nat" where
  "quad x y = unat (drop_bit 15 (x AND 0x8000) OR drop_bit 14 (y AND 0x8000))"

definition child :: "'l qtree option list \<Rightarrow> nat \<Rightarrow> 'l qtree option" where
  "child cs i = (if i < length cs then cs ! i else None)"

lemma child_smaller [termination_simp]: "child cs i = Some n \<Longrightarrow> size n < Suc (size_list (size_option size) cs)"
proof -
  assume "child cs i = Some n"
  then have "Some n \<in> set cs" by (metis child_def nth_mem option.distinct(1))
  then have "size_option size (Some n) \<le> size_list (size_option size) cs"
    by (rule size_list_estimation') simp
  then show ?thesis by simp
qed

fun getLeaf :: "'l qtree \<Rightarrow> u32 \<Rightarrow> u32 \<Rightarrow> 'l option" where
  "getLeaf (Leaf l) x y = Some l"
| "getLeaf (Node cs) x y =
     (case child cs (quad x y) of None \<Rightarrow> None | Some n \<Rightarrow> getLeaf n (push_bit 1 x) (push_bit 1 y))"

text \<open>\<open>createLeaf\<close> at a given level, with the value of the static flag \<open>newLeaf\<close> afterwards if it
  was clear before; \<open>l0\<close> is a new leaf.  The levels are 15 at the root and 3 above the leaves.\<close>

definition FLOOR_BITS :: nat where
  "FLOOR_BITS = 3"

fun createLeaf :: "'l \<Rightarrow> u32 \<Rightarrow> u32 \<Rightarrow> nat \<Rightarrow> 'l qtree \<Rightarrow> 'l qtree \<times> bool" where
  "createLeaf l0 x y level (Leaf l) = (Leaf l, False)"
| "createLeaf l0 x y (Suc level) (Node cs) =
     (let i = quad x y;
          (c, fresh) = (case child cs i of
             Some c \<Rightarrow> (c, False)
           | None \<Rightarrow> if Suc level \<noteq> FLOOR_BITS then (new_node, False) else (Leaf l0, True));
          (c, fresh') = (case createLeaf l0 (x * 2) (y * 2) level c of (c, b) \<Rightarrow> (c, fresh \<or> b))
      in (Node (cs[i := Some c]), fresh'))"

text \<open>Writing to a leaf through a pointer to it.\<close>

fun modifyLeaf :: "('l \<Rightarrow> 'l) \<Rightarrow> u32 \<Rightarrow> u32 \<Rightarrow> 'l qtree \<Rightarrow> 'l qtree" where
  "modifyLeaf f x y (Leaf l) = Leaf (f l)"
| "modifyLeaf f x y (Node cs) =
     (case child cs (quad x y) of None \<Rightarrow> Node cs
      | Some n \<Rightarrow> Node (cs[quad x y := Some (modifyLeaf f (push_bit 1 x) (push_bit 1 y) n)]))"

section \<open>Cells\<close>

text \<open>A tree of depth \<open>d\<close>: all leaves are at the bottom.\<close>

fun full :: "nat \<Rightarrow> 'l qtree \<Rightarrow> bool" where
  "full 0 (Leaf l) = True"
| "full 0 (Node cs) = False"
| "full (Suc d) (Leaf l) = False"
| "full (Suc d) (Node cs) \<longleftrightarrow> length cs = 4 \<and> (\<forall>c\<in>set cs. case c of None \<Rightarrow> True | Some n \<Rightarrow> full d n)"

text \<open>Two coordinates select the same cell of a tree of depth \<open>d\<close>.\<close>

definition same_bits :: "nat \<Rightarrow> u32 \<Rightarrow> u32 \<Rightarrow> bool" where
  "same_bits d x x' \<longleftrightarrow> (\<forall>k<d. bit x (15 - k) = bit x' (15 - k))"

lemma quad_bits: "quad x y = of_bool (bit x 15) + 2 * of_bool (bit y 15)"
proof -
  have m: "v AND 0x8000 = (if bit v 15 then (0x8000 :: u32) else 0)" for v :: u32
  proof (rule bit_word_eqI)
    fix n assume n: "n < LENGTH(32)"
    have p: "(0x8000 :: u32) = push_bit 15 1" by (simp add: push_bit_eq_mult)
    have q: "bit (0x8000 :: u32) n \<longleftrightarrow> n = 15"
      unfolding p bit_push_bit_iff bit_1_iff using n by auto
    show "bit (v AND 0x8000) n = bit (if bit v 15 then (0x8000 :: u32) else 0) n"
    proof (cases "bit v 15")
      case True
      show ?thesis unfolding if_P [OF True] bit_and_iff q using True by blast
    next
      case False
      show ?thesis unfolding if_not_P [OF False] bit_and_iff q using False by auto
    qed
  qed
  have d: "drop_bit 15 (0x8000 :: u32) = 1" "drop_bit 14 (0x8000 :: u32) = 2" "(1 :: u32) OR 2 = 3"
    by simp_all
  show ?thesis unfolding quad_def m by (cases "bit x 15"; cases "bit y 15") (simp_all add: d)
qed

lemma quad_less [simp]: "quad x y < 4"
  by (simp add: quad_bits)

lemma quad_eq: "quad x y = quad x' y' \<longleftrightarrow> bit x 15 = bit x' 15 \<and> bit y 15 = bit y' 15"
  by (auto simp: quad_bits)

lemma same_bits_0 [simp]: "same_bits 0 x x'"
  by (simp add: same_bits_def)

lemma same_bits_refl [simp]: "same_bits d x x"
  by (simp add: same_bits_def)

lemma same_bits_sym: "same_bits d x x' \<longleftrightarrow> same_bits d x' x"
  by (auto simp: same_bits_def)

lemma same_bits_Suc:
  assumes "d \<le> 14"
  shows "same_bits (Suc d) x x' \<longleftrightarrow> bit x 15 = bit x' 15 \<and> same_bits d (push_bit 1 x) (push_bit 1 x')"
proof -
  have shift: "bit (push_bit 1 v) (15 - k) = bit v (15 - Suc k)" if "k < d" for k and v :: u32
  proof -
    have e: "15 - k - 1 = 15 - Suc k" and "1 \<le> 15 - k" "15 - k < 32" using that assms by simp_all
    then show ?thesis unfolding bit_push_bit_iff by simp
  qed
  have "(\<forall>k<d. bit (push_bit 1 x) (15 - k) = bit (push_bit 1 x') (15 - k))
      \<longleftrightarrow> (\<forall>k<d. bit x (15 - Suc k) = bit x' (15 - Suc k))"
    using shift [of _ x] shift [of _ x'] by metis
  moreover have "(\<forall>k<Suc d. bit x (15 - k) = bit x' (15 - k))
      \<longleftrightarrow> bit x 15 = bit x' 15 \<and> (\<forall>k<d. bit x (15 - Suc k) = bit x' (15 - Suc k))"
    unfolding All_less_Suc2 by simp
  ultimately show ?thesis unfolding same_bits_def by blast
qed

definition same_cell :: "nat \<Rightarrow> u32 \<Rightarrow> u32 \<Rightarrow> u32 \<Rightarrow> u32 \<Rightarrow> bool" where
  "same_cell d x y x' y' \<longleftrightarrow> same_bits d x x' \<and> same_bits d y y'"

lemma same_cell_Suc:
  "d \<le> 14 \<Longrightarrow> same_cell (Suc d) x y x' y' \<longleftrightarrow>
     quad x y = quad x' y' \<and> same_cell d (push_bit 1 x) (push_bit 1 y) (push_bit 1 x') (push_bit 1 y')"
  by (auto simp: same_cell_def same_bits_Suc quad_eq)

lemma times_2: "(x :: u32) * 2 = push_bit 1 x"
  by (simp add: push_bit_eq_mult)

section \<open>The laws\<close>

lemma full_child: "full (Suc d) (Node cs) \<Longrightarrow> child cs i = Some n \<Longrightarrow> full d n"
proof -
  assume full: "full (Suc d) (Node cs)" and "child cs i = Some n"
  then have "Some n \<in> set cs" by (metis child_def nth_mem option.distinct(1))
  with full show "full d n" by fastforce
qed

lemma child_update: "length cs = 4 \<Longrightarrow> j < 4 \<Longrightarrow> child (cs[i := v]) j = (if j = i then v else child cs j)"
  by (auto simp: child_def nth_list_update)

lemma full_update:
  "full (Suc d) (Node cs) \<Longrightarrow> full d n \<Longrightarrow> full (Suc d) (Node (cs[i := Some n]))"
  using set_update_subset_insert [of cs i "Some n"] by auto

lemma full_new_node: "full (Suc d) new_node"
  by (simp add: new_node_def)

lemma getLeaf_new_node: "getLeaf new_node x y = None"
proof -
  have "child [None, None, None, None] i = None" for i
    by (auto simp: child_def less_Suc_eq)
  then show ?thesis unfolding new_node_def getLeaf.simps(2) by (metis option.case(1))
qed

lemma modifyLeaf_full: "full d t \<Longrightarrow> full d (modifyLeaf f x y t)"
proof (induction d arbitrary: t x y)
  case 0
  then show ?case by (cases t) auto
next
  case (Suc d)
  then obtain cs where t: "t = Node cs" by (cases t) auto
  show ?case
  proof (cases "child cs (quad x y)")
    case None
    then show ?thesis using Suc.prems by (simp add: t)
  next
    case (Some n)
    then show ?thesis
      using full_update [OF Suc.prems [unfolded t] Suc.IH [OF full_child [OF Suc.prems [unfolded t] Some]]]
      by (simp only: t modifyLeaf.simps option.case)
  qed
qed

lemma getLeaf_modifyLeaf:
  "full d t \<Longrightarrow> d \<le> 13 \<Longrightarrow> getLeaf (modifyLeaf f x y t) x' y' =
     (if same_cell d x y x' y' then map_option f (getLeaf t x' y') else getLeaf t x' y')"
proof (induction d arbitrary: t x y x' y')
  case 0
  then show ?case by (cases t) (auto simp: same_cell_def)
next
  case (Suc d)
  then obtain cs where t: "t = Node cs" by (cases t) auto
  have len: "length cs = 4" using Suc.prems by (simp add: t)
  have d: "d \<le> 14" "d \<le> 13" using Suc.prems by simp_all
  show ?case
  proof (cases "child cs (quad x y)")
    case None
    then show ?thesis using d by (auto simp: t same_cell_Suc split: option.split)
  next
    case (Some n)
    then have "full d n" using full_child Suc.prems t by blast
    from Suc.IH [OF this d(2), of "push_bit 1 x" "push_bit 1 y" "push_bit 1 x'" "push_bit 1 y'"] show ?thesis
      using Some d len quad_less [of x y] quad_less [of x' y']
      by (auto simp: t same_cell_Suc child_update split: option.split)
  qed
qed

text \<open>The child that \<open>createLeaf\<close> goes on with.\<close>

definition next_child :: "'l \<Rightarrow> nat \<Rightarrow> 'l qtree option \<Rightarrow> 'l qtree" where
  "next_child l0 d c = (case c of Some n \<Rightarrow> n | None \<Rightarrow> if d = 0 then Leaf l0 else new_node)"

lemma createLeaf_Node:
  "fst (createLeaf l0 x y (Suc d + 2) (Node cs)) =
     Node (cs[quad x y := Some (fst (createLeaf l0 (push_bit 1 x) (push_bit 1 y) (d + 2) (next_child l0 d (child cs (quad x y)))))])"
  "snd (createLeaf l0 x y (Suc d + 2) (Node cs)) \<longleftrightarrow> (child cs (quad x y) = None \<and> d = 0)
     \<or> snd (createLeaf l0 (push_bit 1 x) (push_bit 1 y) (d + 2) (next_child l0 d (child cs (quad x y))))"
  by (cases "child cs (quad x y)"; simp add: Let_def next_child_def FLOOR_BITS_def split: prod.split)+

lemma full_next_child: "full (Suc d) (Node cs) \<Longrightarrow> full d (next_child l0 d (child cs i))"
  by (cases "child cs i"; cases d) (simp_all add: next_child_def full_new_node full_child del: full.simps(4))

lemma createLeaf_full: "full d t \<Longrightarrow> d \<le> 13 \<Longrightarrow> full d (fst (createLeaf l0 x y (d + 2) t))"
proof (induction d arbitrary: t x y)
  case 0
  then show ?case by (cases t) auto
next
  case (Suc d)
  then obtain cs where t: "t = Node cs" by (cases t) auto
  have f: "full (Suc d) (Node cs)" and d: "d \<le> 13" using Suc.prems by (simp_all add: t)
  show ?case
    unfolding t createLeaf_Node(1) by (rule full_update [OF f Suc.IH [OF full_next_child [OF f] d]])
qed

lemma getLeaf_next_child:
  "getLeaf (next_child l0 d c) u v =
     (case c of Some n \<Rightarrow> getLeaf n u v | None \<Rightarrow> if d = 0 then Some l0 else None)"
  by (cases c) (simp_all add: next_child_def getLeaf_new_node)

lemma getLeaf_update:
  assumes "full (Suc d) (Node cs)"
  shows "getLeaf (Node (cs[quad x y := Some n])) x' y' =
    (if quad x y = quad x' y' then getLeaf n (push_bit 1 x') (push_bit 1 y') else getLeaf (Node cs) x' y')"
  using assms by (simp add: child_update)

definition or_new :: "'l \<Rightarrow> 'l option \<Rightarrow> 'l option" where
  "or_new l0 v = (case v of None \<Rightarrow> Some l0 | Some l \<Rightarrow> Some l)"

lemma or_new_simps [simp]: "or_new l0 None = Some l0" "or_new l0 (Some l) = Some l"
  by (simp_all add: or_new_def)

lemma getLeaf_createLeaf:
  "full d t \<Longrightarrow> d \<le> 13 \<Longrightarrow>
     getLeaf (fst (createLeaf l0 x y (d + 2) t)) x' y' =
       (if same_cell d x y x' y' then or_new l0 (getLeaf t x' y') else getLeaf t x' y')"
proof (induction d arbitrary: t x y x' y')
  case 0
  then show ?case by (cases t) (auto simp: same_cell_def)
next
  case (Suc d)
  then obtain cs where t: "t = Node cs" by (cases t) auto
  have f: "full (Suc d) (Node cs)" and d: "d \<le> 14" "d \<le> 13" using Suc.prems by (simp_all add: t)
  let ?c = "next_child l0 d (child cs (quad x y))"
  note IH = Suc.IH [OF full_next_child [OF f] d(2)]
  note start = t createLeaf_Node(1) getLeaf_update [OF f] IH same_cell_Suc [OF d(1)]
  show ?case
  proof (cases "quad x y = quad x' y'")
    case True
    show ?thesis
      unfolding start getLeaf_next_child unfolding True getLeaf.simps(2)
      by (cases "child cs (quad x' y')"; cases "d = 0") (simp_all add: same_cell_def)
  next
    case False
    show ?thesis unfolding start by (simp only: False if_False simp_thms)
  qed
qed

text \<open>The static flag \<open>newLeaf\<close> is set exactly if the leaf was not there.\<close>

lemma createLeaf_newLeaf:
  "full d t \<Longrightarrow> d \<le> 13 \<Longrightarrow> snd (createLeaf l0 x y (d + 2) t) \<longleftrightarrow> getLeaf t x y = None"
proof (induction d arbitrary: t x y)
  case 0
  then show ?case by (cases t) auto
next
  case (Suc d)
  then obtain cs where t: "t = Node cs" by (cases t) auto
  have f: "full (Suc d) (Node cs)" and d: "d \<le> 13" using Suc.prems by (simp_all add: t)
  show ?case
    unfolding t createLeaf_Node(2) Suc.IH [OF full_next_child [OF f] d] getLeaf_next_child getLeaf.simps(2)
    by (cases "child cs (quad x y)") auto
qed

section \<open>The tree as a store of leaves\<close>

text \<open>The static variant used by the map starts below the root and looks at the flag of the node it
  has reached; on the root it agrees with \<open>getLeaf\<close>.\<close>

function getLeafStatic :: "'l qtree \<Rightarrow> u32 \<Rightarrow> u32 \<Rightarrow> 'l option" where
  "getLeafStatic (Leaf l) x y = None"
| "getLeafStatic (Node cs) x y =
     (case child cs (quad x y) of
        None \<Rightarrow> None
      | Some (Leaf l) \<Rightarrow> Some l
      | Some (Node cs') \<Rightarrow> getLeafStatic (Node cs') (push_bit 1 x) (push_bit 1 y))"
  by pat_completeness auto
termination by (relation "measure (\<lambda>(t, x, y). size t)") (auto dest: child_smaller)

declare getLeafStatic.simps(2) [simp del]

lemma getLeafStatic_getLeaf: "getLeafStatic (Node cs) x y = getLeaf (Node cs) x y"
proof (induction "Node cs" x y arbitrary: cs rule: getLeafStatic.induct)
  case (2 cs x y)
  show ?case
  proof (cases "child cs (quad x y)")
    case None
    then show ?thesis by (subst getLeafStatic.simps(2)) simp
  next
    case (Some n)
    then show ?thesis
    proof (cases n)
      case (Leaf l)
      then show ?thesis using Some by (subst getLeafStatic.simps(2)) simp
    next
      case (Node cs')
      have "getLeafStatic (Node cs) x y = getLeafStatic (Node cs') (push_bit 1 x) (push_bit 1 y)"
        by (subst getLeafStatic.simps(2)) (simp only: Some Node option.case qtree.case)
      also have "\<dots> = getLeaf (Node cs') (push_bit 1 x) (push_bit 1 y)" by (rule 2 [OF Some Node])
      also have "\<dots> = getLeaf (Node cs) x y" by (simp only: getLeaf.simps(2) Some Node option.case)
      finally show ?thesis .
    qed
  qed
qed

text \<open>What the map relies on: a store of leaves addressed by cell.  \<open>same\<close> says that two coordinates
  address the same cell.\<close>

locale cell_store =
  fixes get :: "'s \<Rightarrow> u32 \<Rightarrow> u32 \<Rightarrow> 'l option"
    and modify :: "('l \<Rightarrow> 'l) \<Rightarrow> u32 \<Rightarrow> u32 \<Rightarrow> 's \<Rightarrow> 's"
    and create :: "'l \<Rightarrow> u32 \<Rightarrow> u32 \<Rightarrow> 's \<Rightarrow> 's \<times> bool"
    and ok :: "'s \<Rightarrow> bool"
    and same :: "u32 \<Rightarrow> u32 \<Rightarrow> u32 \<Rightarrow> u32 \<Rightarrow> bool"
  assumes ok_modify: "ok s \<Longrightarrow> ok (modify f x y s)"
    and ok_create: "ok s \<Longrightarrow> ok (fst (create l0 x y s))"
    and get_modify: "ok s \<Longrightarrow> get (modify f x y s) x' y' =
          (if same x y x' y' then map_option f (get s x' y') else get s x' y')"
    and get_create: "ok s \<Longrightarrow> get (fst (create l0 x y s)) x' y' =
          (if same x y x' y' then or_new l0 (get s x' y') else get s x' y')"
    and create_flag: "ok s \<Longrightarrow> snd (create l0 x y s) \<longleftrightarrow> get s x y = None"
    and same_refl: "same x y x y"
    and same_get: "ok s \<Longrightarrow> same x y x' y' \<Longrightarrow> get s x y = get s x' y'"
begin

lemma get_create_present: "ok s \<Longrightarrow> get s x y = Some l \<Longrightarrow> get (fst (create l0 x y s)) = get s"
  by (rule ext)+ (simp add: get_create or_new_def same_get split: option.split, metis same_get option.distinct(1))

lemma get_create_self: "ok s \<Longrightarrow> get (fst (create l0 x y s)) x y \<noteq> None"
  by (simp add: get_create same_refl or_new_def split: option.split)

lemma modify_absent: "ok s \<Longrightarrow> get s x y = None \<Longrightarrow> get (modify f x y s) = get s"
  by (rule ext)+ (auto simp: get_modify, metis same_get option.map_disc_iff)

end

definition DEPTH :: nat where
  "DEPTH = 13"

lemma same_cell_getLeaf: "full d t \<Longrightarrow> d \<le> 13 \<Longrightarrow> same_cell d x y x' y' \<Longrightarrow> getLeaf t x y = getLeaf t x' y'"
proof (induction d arbitrary: t x y x' y')
  case 0
  then show ?case by (cases t) auto
next
  case (Suc d)
  then obtain cs where t: "t = Node cs" by (cases t) auto
  have q: "quad x y = quad x' y'" and s: "same_cell d (push_bit 1 x) (push_bit 1 y) (push_bit 1 x') (push_bit 1 y')"
    using Suc.prems same_cell_Suc [of d x y x' y'] by simp_all
  show ?case
  proof (cases "child cs (quad x' y')")
    case None
    then show ?thesis unfolding t getLeaf.simps(2) q by simp
  next
    case (Some n)
    have "full d n" using full_child Suc.prems(1) Some t by blast
    with Suc.IH [OF this _ s] Suc.prems(2) show ?thesis unfolding t getLeaf.simps(2) q Some by simp
  qed
qed

interpretation quadtree: cell_store getLeaf modifyLeaf "\<lambda>l0 x y. createLeaf l0 x y 15" "full DEPTH" "same_cell DEPTH"
proof unfold_locales
  fix s :: "'l qtree" and l0 f x y x' y'
  assume s: "full DEPTH s"
  have D: "DEPTH \<le> 13" "DEPTH + 2 = 15" by (simp_all add: DEPTH_def)
  show "full DEPTH (modifyLeaf f x y s)" by (rule modifyLeaf_full [OF s])
  show "full DEPTH (fst (createLeaf l0 x y 15 s))" using createLeaf_full [OF s D(1)] unfolding D .
  show "getLeaf (modifyLeaf f x y s) x' y' =
    (if same_cell DEPTH x y x' y' then map_option f (getLeaf s x' y') else getLeaf s x' y')"
    by (rule getLeaf_modifyLeaf [OF s D(1)])
  show "getLeaf (fst (createLeaf l0 x y 15 s)) x' y' =
    (if same_cell DEPTH x y x' y' then or_new l0 (getLeaf s x' y') else getLeaf s x' y')"
    using getLeaf_createLeaf [OF s D(1)] unfolding D .
  show "snd (createLeaf l0 x y 15 s) \<longleftrightarrow> getLeaf s x y = None"
    using createLeaf_newLeaf [OF s D(1)] unfolding D .
  show "getLeaf s x y = getLeaf s x' y'" if "same_cell DEPTH x y x' y'"
    by (rule same_cell_getLeaf [OF s D(1) that])
qed (simp add: same_cell_def)

end
