(* ===== verification/MapGrid.thy ===== *)
theory MapGrid
  imports QuadTree Positions
begin

text \<open>
  The world map of \<open>src/src/map.cpp\<close>: tiles in the leaves of the quadtree, the links between
  neighbouring leaves, the lists of creatures a leaf keeps, and \<open>getSpectators\<close>, which walks
  over the leaves around a position along those links and caches its results.  Creatures are
  numbers; the map of creatures gives for each one on the map its position and whether it is a
  player.  A pointer to a leaf is a pair of coordinates of its cell: leaves are never freed while
  the map exists, so following a pointer is a lookup.
\<close>

section \<open>State\<close>

type_synonym leaf_ptr = "u32 \<times> u32"

record 'i mtile =
  ground :: "'i option"
  tile_items :: "'i list"

type_synonym 'i floor = "nat \<Rightarrow> nat \<Rightarrow> 'i mtile option"

record 'i map_leaf =
  leafS :: "leaf_ptr option"
  leafE :: "leaf_ptr option"
  floors :: "nat \<Rightarrow> 'i floor option"
  creature_list :: "nat list"
  player_list :: "nat list"

definition new_leaf :: "'i map_leaf" where
  "new_leaf = \<lparr>leafS = None, leafE = None, floors = (\<lambda>_. None), creature_list = [], player_list = []\<rparr>"

type_synonym spectator_cache = "position \<Rightarrow> nat list option"

record 'i gmap =
  root :: "'i map_leaf qtree"
  creatures :: "nat \<Rightarrow> (position \<times> bool) option"
  spectatorCache :: spectator_cache
  playersSpectatorCache :: spectator_cache

definition new_map :: "'i gmap" where
  "new_map = \<lparr>root = new_node, creatures = (\<lambda>_. None), spectatorCache = (\<lambda>_. None), playersSpectatorCache = (\<lambda>_. None)\<rparr>"

definition MAP_MAX_LAYERS :: nat where
  "MAP_MAX_LAYERS = 16"

definition FLOOR_SIZE :: "'a::numeral" where
  "FLOOR_SIZE = 8"

definition FLOOR_MASK :: u16 where
  "FLOOR_MASK = 7"

section \<open>Tiles\<close>

definition getTile :: "'i gmap \<Rightarrow> u16 \<Rightarrow> u16 \<Rightarrow> u8 \<Rightarrow> 'i mtile option" where
  "getTile m x y z =
     (if unat z \<ge> MAP_MAX_LAYERS then None
      else case getLeafStatic (root m) (ucast x) (ucast y) of
        None \<Rightarrow> None
      | Some leaf \<Rightarrow> (case floors leaf (unat z) of
          None \<Rightarrow> None
        | Some floor \<Rightarrow> floor (unat (x AND FLOOR_MASK)) (unat (y AND FLOOR_MASK))))"

text \<open>The things of a new tile go to the tile that is there; \<open>addThing\<close> is \<open>Tile::addThing\<close>.\<close>

definition merge_tile :: "('i \<Rightarrow> 'i mtile \<Rightarrow> 'i mtile) \<Rightarrow> 'i mtile \<Rightarrow> 'i mtile \<Rightarrow> 'i mtile" where
  "merge_tile addThing newTile tile =
     (let tile = fold addThing (rev (tile_items newTile)) tile
      in case ground newTile of None \<Rightarrow> tile | Some g \<Rightarrow> addThing g tile)"

definition createFloor :: "nat \<Rightarrow> (nat \<Rightarrow> 'i floor option) \<Rightarrow> 'i floor" where
  "createFloor z fs = (case fs z of None \<Rightarrow> (\<lambda>_ _. None) | Some f \<Rightarrow> f)"

definition put_tile :: "('i \<Rightarrow> 'i mtile \<Rightarrow> 'i mtile) \<Rightarrow> u16 \<Rightarrow> u16 \<Rightarrow> nat \<Rightarrow> 'i mtile \<Rightarrow> 'i map_leaf \<Rightarrow> 'i map_leaf" where
  "put_tile addThing x y z newTile leaf =
     (let floor = createFloor z (floors leaf);
          offsetX = unat (x AND FLOOR_MASK);
          offsetY = unat (y AND FLOOR_MASK);
          tile = (case floor offsetX offsetY of Some tile \<Rightarrow> merge_tile addThing newTile tile | None \<Rightarrow> newTile)
      in leaf\<lparr>floors := (floors leaf)(z := Some (floor(offsetX := (floor offsetX)(offsetY := Some tile))))\<rparr>)"

text \<open>A new leaf is linked with its four neighbours.\<close>

definition link_leaf :: "u32 \<Rightarrow> u32 \<Rightarrow> 'i map_leaf qtree \<Rightarrow> 'i map_leaf qtree" where
  "link_leaf x y r =
     (let r = modifyLeaf (leafS_update (\<lambda>_. Some (x, y))) x (y - FLOOR_SIZE) r;
          r = modifyLeaf (leafE_update (\<lambda>_. Some (x, y))) (x - FLOOR_SIZE) y r;
          r = (case getLeaf r x (y + FLOOR_SIZE) of None \<Rightarrow> r
               | Some _ \<Rightarrow> modifyLeaf (leafS_update (\<lambda>_. Some (x, y + FLOOR_SIZE))) x y r)
      in case getLeaf r (x + FLOOR_SIZE) y of None \<Rightarrow> r
         | Some _ \<Rightarrow> modifyLeaf (leafE_update (\<lambda>_. Some (x + FLOOR_SIZE, y))) x y r)"

definition setTile :: "('i \<Rightarrow> 'i mtile \<Rightarrow> 'i mtile) \<Rightarrow> u16 \<Rightarrow> u16 \<Rightarrow> u8 \<Rightarrow> 'i mtile \<Rightarrow> 'i gmap \<Rightarrow> 'i gmap" where
  "setTile addThing x y z newTile m =
     (if unat z \<ge> MAP_MAX_LAYERS then m
      else let (r, newLeaf) = createLeaf new_leaf (ucast x) (ucast y) 15 (root m);
               r = (if newLeaf then link_leaf (ucast x) (ucast y) r else r)
           in m\<lparr>root := modifyLeaf (put_tile addThing x y (unat z) newTile) (ucast x) (ucast y) r\<rparr>)"

section \<open>Creatures\<close>

text \<open>The lists of a leaf.\<close>

definition addCreature :: "nat \<Rightarrow> bool \<Rightarrow> 'i map_leaf \<Rightarrow> 'i map_leaf" where
  "addCreature c isPlayer leaf =
     (let leaf = leaf\<lparr>creature_list := creature_list leaf @ [c]\<rparr>
      in if isPlayer then leaf\<lparr>player_list := player_list leaf @ [c]\<rparr> else leaf)"

definition removeCreature :: "nat \<Rightarrow> bool \<Rightarrow> 'i map_leaf \<Rightarrow> 'i map_leaf" where
  "removeCreature c isPlayer leaf =
     (let leaf = leaf\<lparr>creature_list := swap_remove c (creature_list leaf)\<rparr>
      in if isPlayer then leaf\<lparr>player_list := swap_remove c (player_list leaf)\<rparr> else leaf)"

text \<open>Adding a creature to a tile or removing it from one clears the caches.\<close>

definition clear_caches :: "bool \<Rightarrow> 'i gmap \<Rightarrow> 'i gmap" where
  "clear_caches isPlayer m =
     (let m = m\<lparr>spectatorCache := (\<lambda>_. None)\<rparr>
      in if isPlayer then m\<lparr>playersSpectatorCache := (\<lambda>_. None)\<rparr> else m)"

definition at_leaf :: "('i map_leaf \<Rightarrow> 'i map_leaf) \<Rightarrow> position \<Rightarrow> 'i gmap \<Rightarrow> 'i gmap option" where
  "at_leaf f p m =
     (case getLeafStatic (root m) (ucast (pos_x p)) (ucast (pos_y p)) of
        None \<Rightarrow> None
      | Some _ \<Rightarrow> Some (m\<lparr>root := modifyLeaf f (ucast (pos_x p)) (ucast (pos_y p)) (root m)\<rparr>))"

text \<open>The end of \<open>placeCreature\<close>: the creature is put on the tile at \<open>p\<close> and into the leaf.  None
  is a null leaf, which the code does not check.\<close>

definition place :: "nat \<Rightarrow> bool \<Rightarrow> position \<Rightarrow> 'i gmap \<Rightarrow> 'i gmap option" where
  "place c isPlayer p m =
     (let m = clear_caches isPlayer m;
          m = m\<lparr>creatures := (creatures m)(c \<mapsto> (p, isPlayer))\<rparr>
      in at_leaf (addCreature c isPlayer) p m)"

text \<open>\<open>Tile::removeCreature\<close>.\<close>

definition unplace :: "nat \<Rightarrow> 'i gmap \<Rightarrow> 'i gmap option" where
  "unplace c m =
     (case creatures m c of None \<Rightarrow> None
      | Some (p, isPlayer) \<Rightarrow>
          map_option (\<lambda>m. clear_caches isPlayer (m\<lparr>creatures := (creatures m)(c := None)\<rparr>))
            (at_leaf (removeCreature c isPlayer) p m))"

section \<open>Spectators\<close>

definition deref :: "'i map_leaf qtree \<Rightarrow> leaf_ptr option \<Rightarrow> 'i map_leaf option" where
  "deref r p = (case p of None \<Rightarrow> None | Some (x, y) \<Rightarrow> getLeaf r x y)"

definition leaf_at :: "'i map_leaf qtree \<Rightarrow> int \<Rightarrow> int \<Rightarrow> leaf_ptr option" where
  "leaf_at r x y =
     (case getLeafStatic r (word_of_int x) (word_of_int y) of
        None \<Rightarrow> None | Some _ \<Rightarrow> Some (word_of_int x, word_of_int y))"

record scan_range =
  min_x :: int
  max_x :: int
  min_y :: int
  max_y :: int
  min_z :: int
  max_z :: int

text \<open>The two tests a creature of the leaf passes before it is put into the result.\<close>

definition in_scan :: "position \<Rightarrow> scan_range \<Rightarrow> position \<Rightarrow> bool" where
  "in_scan centerPos s cpos \<longleftrightarrow>
     \<not> (min_z s > getZ cpos \<or> max_z s < getZ cpos) \<and>
     (let offsetZ = getOffsetZ centerPos cpos
      in \<not> (min_y s + offsetZ > getY cpos \<or> max_y s + offsetZ < getY cpos \<or>
            min_x s + offsetZ > getX cpos \<or> max_x s + offsetZ < getX cpos))"

definition visit_leaf :: "'i gmap \<Rightarrow> position \<Rightarrow> scan_range \<Rightarrow> bool \<Rightarrow> 'i map_leaf \<Rightarrow> nat list" where
  "visit_leaf m centerPos s onlyPlayers leaf =
     filter (\<lambda>c. case creatures m c of None \<Rightarrow> False | Some (cpos, _) \<Rightarrow> in_scan centerPos s cpos)
       (if onlyPlayers then player_list leaf else creature_list leaf)"

text \<open>One row of leaves, from \<open>nx\<close> on; \<open>E\<close> is the pointer \<open>leafE\<close> of the code.\<close>

function scan_row :: "'i map_leaf qtree \<Rightarrow> ('i map_leaf \<Rightarrow> nat list) \<Rightarrow> int \<Rightarrow> int \<Rightarrow> int \<Rightarrow> leaf_ptr option \<Rightarrow> nat list \<Rightarrow> nat list" where
  "scan_row r visit ny endx nx E spectators =
     (if nx \<le> endx then
        (case deref r E of
           Some leaf \<Rightarrow> scan_row r visit ny endx (nx + FLOOR_SIZE) (leafE leaf) (spectators @ visit leaf)
         | None \<Rightarrow> scan_row r visit ny endx (nx + FLOOR_SIZE) (leaf_at r (nx + FLOOR_SIZE) ny) spectators)
      else spectators)"
  by pat_completeness auto
termination
  by (relation "measure (\<lambda>(r, visit, ny, endx, nx, E, spectators). nat (endx + 8 - nx))") (auto simp: FLOOR_SIZE_def)

function scan_rows :: "'i map_leaf qtree \<Rightarrow> ('i map_leaf \<Rightarrow> nat list) \<Rightarrow> int \<Rightarrow> int \<Rightarrow> int \<Rightarrow> int \<Rightarrow> leaf_ptr option \<Rightarrow> nat list \<Rightarrow> nat list" where
  "scan_rows r visit startx endx endy ny S spectators =
     (if ny \<le> endy then
        (let spectators = scan_row r visit ny endx startx S spectators;
             S = (case deref r S of Some leaf \<Rightarrow> leafS leaf | None \<Rightarrow> leaf_at r startx (ny + FLOOR_SIZE))
         in scan_rows r visit startx endx endy (ny + FLOOR_SIZE) S spectators)
      else spectators)"
  by pat_completeness auto
termination
  by (relation "measure (\<lambda>(r, visit, startx, endx, endy, ny, S, spectators). nat (endy + 8 - ny))") (auto simp: FLOOR_SIZE_def)

declare scan_row.simps [simp del] scan_rows.simps [simp del]

text \<open>Clamping to an unsigned 16-bit coordinate, and the start of its leaf.\<close>

definition clamp16 :: "int \<Rightarrow> int" where
  "clamp16 v = min 0xFFFF (max 0 v)"

definition leaf_start :: "int \<Rightarrow> int" where
  "leaf_start v = v - v mod FLOOR_SIZE"

definition getSpectatorsInternal ::
    "nat list \<Rightarrow> position \<Rightarrow> int \<Rightarrow> int \<Rightarrow> int \<Rightarrow> int \<Rightarrow> int \<Rightarrow> int \<Rightarrow> bool \<Rightarrow> 'i gmap \<Rightarrow> nat list" where
  "getSpectatorsInternal spectators centerPos minRangeX maxRangeX minRangeY maxRangeY minRangeZ maxRangeZ onlyPlayers m =
     (let s = \<lparr>min_x = getX centerPos + minRangeX, max_x = getX centerPos + maxRangeX,
               min_y = getY centerPos + minRangeY, max_y = getY centerPos + maxRangeY,
               min_z = minRangeZ, max_z = maxRangeZ\<rparr>;
          minoffset = getZ centerPos - maxRangeZ;
          x1 = clamp16 (min_x s + minoffset);
          y1 = clamp16 (min_y s + minoffset);
          maxoffset = getZ centerPos - minRangeZ;
          x2 = clamp16 (max_x s + maxoffset);
          y2 = clamp16 (max_y s + maxoffset)
      in scan_rows (root m) (visit_leaf m centerPos s onlyPlayers) (leaf_start x1) (leaf_start x2) (leaf_start y2)
           (leaf_start y1) (leaf_at (root m) (leaf_start x1) (leaf_start y1)) spectators)"

text \<open>\<open>SpectatorVec\<close>.\<close>

definition addSpectators :: "nat list \<Rightarrow> nat list \<Rightarrow> nat list" where
  "addSpectators vec spectators = fold (\<lambda>c vec. if c \<in> set vec then vec else vec @ [c]) spectators vec"

definition maxViewportX :: int where
  "maxViewportX = 11"

definition maxViewportY :: int where
  "maxViewportY = 11"

text \<open>The floors a query looks at.\<close>

definition floor_range :: "position \<Rightarrow> bool \<Rightarrow> int \<times> int" where
  "floor_range centerPos multifloor =
     (let z = getZ centerPos in
      if multifloor then
        if z > 7 then (max (z - 2) 0, min (z + 2) (int MAP_MAX_LAYERS - 1))
        else if z = 6 then (0, 8)
        else if z = 7 then (0, 9)
        else (0, 7)
      else (z, z))"

definition isPlayer :: "'i gmap \<Rightarrow> nat \<Rightarrow> bool" where
  "isPlayer m c = (case creatures m c of None \<Rightarrow> False | Some (_, b) \<Rightarrow> b)"

definition from_cache :: "nat list \<Rightarrow> nat list \<Rightarrow> nat list" where
  "from_cache spectators cached = (if spectators \<noteq> [] then addSpectators spectators cached else cached)"

text \<open>The two lookups, and storing a result.\<close>

definition lookup_caches :: "nat list \<Rightarrow> position \<Rightarrow> bool \<Rightarrow> 'i gmap \<Rightarrow> nat list option" where
  "lookup_caches spectators centerPos onlyPlayers m =
     (case (if onlyPlayers then playersSpectatorCache m centerPos else None) of
        Some cached \<Rightarrow> Some (from_cache spectators cached)
      | None \<Rightarrow> (case spectatorCache m centerPos of
          None \<Rightarrow> None
        | Some cached \<Rightarrow>
            Some (if \<not> onlyPlayers then from_cache spectators cached
                  else spectators @ filter (isPlayer m) cached)))"

definition store_result :: "position \<Rightarrow> bool \<Rightarrow> nat list \<Rightarrow> 'i gmap \<Rightarrow> 'i gmap" where
  "store_result centerPos onlyPlayers result m =
     (if onlyPlayers then m\<lparr>playersSpectatorCache := (playersSpectatorCache m)(centerPos \<mapsto> result)\<rparr>
      else m\<lparr>spectatorCache := (spectatorCache m)(centerPos \<mapsto> result)\<rparr>)"

text \<open>A range of zero stands for the viewport.\<close>

definition low_range :: "int \<Rightarrow> int \<Rightarrow> int" where
  "low_range maxViewport minRange = (if minRange = 0 then - maxViewport else - minRange)"

definition high_range :: "int \<Rightarrow> int \<Rightarrow> int" where
  "high_range maxViewport maxRange = (if maxRange = 0 then maxViewport else maxRange)"

definition cachable :: "int \<Rightarrow> int \<Rightarrow> int \<Rightarrow> int \<Rightarrow> bool \<Rightarrow> bool" where
  "cachable minRangeX maxRangeX minRangeY maxRangeY multifloor \<longleftrightarrow>
     minRangeX = - maxViewportX \<and> maxRangeX = maxViewportX \<and>
     minRangeY = - maxViewportY \<and> maxRangeY = maxViewportY \<and> multifloor"

definition getSpectators ::
    "nat list \<Rightarrow> position \<Rightarrow> bool \<Rightarrow> bool \<Rightarrow> int \<Rightarrow> int \<Rightarrow> int \<Rightarrow> int \<Rightarrow> 'i gmap \<Rightarrow> nat list \<times> 'i gmap" where
  "getSpectators spectators centerPos multifloor onlyPlayers minRangeX maxRangeX minRangeY maxRangeY m =
     (if unat (pos_z centerPos) \<ge> MAP_MAX_LAYERS then (spectators, m)
      else
        let minRangeX = low_range maxViewportX minRangeX;
            maxRangeX = high_range maxViewportX maxRangeX;
            minRangeY = low_range maxViewportY minRangeY;
            maxRangeY = high_range maxViewportY maxRangeY;
            cacheResult = cachable minRangeX maxRangeX minRangeY maxRangeY multifloor
        in case (if cacheResult then lookup_caches spectators centerPos onlyPlayers m else None) of
             Some result \<Rightarrow> (result, m)
           | None \<Rightarrow>
               let (minRangeZ, maxRangeZ) = floor_range centerPos multifloor;
                   result = getSpectatorsInternal spectators centerPos minRangeX maxRangeX minRangeY maxRangeY
                              minRangeZ maxRangeZ onlyPlayers m
               in (result, if cacheResult then store_result centerPos onlyPlayers result m else m))"

text \<open>What \<open>moveCreature\<close> does to the map: it asks for the spectators of both positions, takes the
  creature off its tile, moves it between leaves if they differ and adds it to the new tile.\<close>

definition moveCreature :: "nat \<Rightarrow> position \<Rightarrow> 'i gmap \<Rightarrow> (nat list \<times> 'i gmap) option" where
  "moveCreature c newPos m =
     (case creatures m c of None \<Rightarrow> None
      | Some (oldPos, b) \<Rightarrow>
          let (spectators, m) = getSpectators [] oldPos True False 0 0 0 0 m;
              (newPosSpectators, m) = getSpectators [] newPos True False 0 0 0 0 m;
              spectators = addSpectators spectators newPosSpectators;
              m = clear_caches b m
          in map_option (\<lambda>m. (spectators, clear_caches b (m\<lparr>creatures := (creatures m)(c \<mapsto> (newPos, b))\<rparr>)))
               (if \<not> same_cell DEPTH (ucast (pos_x oldPos)) (ucast (pos_y oldPos)) (ucast (pos_x newPos)) (ucast (pos_y newPos))
                then Option.bind (at_leaf (removeCreature c b) oldPos m) (at_leaf (addCreature c b) newPos)
                else Some m))"

section \<open>Cells by number\<close>

definition cell :: "u32 \<Rightarrow> int" where
  "cell x = uint x div 8 mod 8192"

lemma bit_cell: "bit (cell x) k \<longleftrightarrow> k < 13 \<and> bit x (k + 3)"
proof -
  have "cell x = take_bit 13 (drop_bit 3 (uint x))"
    by (simp add: cell_def take_bit_eq_mod drop_bit_eq_div)
  then show ?thesis
    by (auto simp: bit_simps add.commute dest: bit_imp_le_length)
qed

lemma same_bits_cell: "same_bits DEPTH x x' \<longleftrightarrow> cell x = cell x'"
proof -
  have "(\<forall>k<13. bit x (15 - k) = bit x' (15 - k)) \<longleftrightarrow> (\<forall>k<13. bit x (k + 3) = bit x' (k + 3))"
  proof -
    have "15 - (12 - k) = k + 3" "12 - (12 - k) = k" "12 - k < 13" "12 - k + 3 = 15 - k" if "k < 13" for k :: nat
      using that by simp_all
    then show ?thesis by metis
  qed
  moreover have "cell x = cell x' \<longleftrightarrow> (\<forall>k. bit (cell x) k = bit (cell x') k)"
    by (simp add: bit_eq_iff)
  ultimately show ?thesis by (auto simp: same_bits_def DEPTH_def bit_cell)
qed

lemma same_cell_cell: "same_cell DEPTH x y x' y' \<longleftrightarrow> cell x = cell x' \<and> cell y = cell y'"
  by (simp add: same_cell_def same_bits_cell)

lemma cell_of_int: "cell (word_of_int a) = a div 8 mod 8192"
proof -
  have "cell (word_of_int a) = take_bit 13 (drop_bit 3 (take_bit 32 a))"
    by (simp add: cell_def take_bit_eq_mod drop_bit_eq_div uint_word_of_int)
  also have "\<dots> = take_bit 13 (drop_bit 3 a)"
    by (rule bit_eqI) (auto simp: bit_simps)
  finally show ?thesis by (simp add: take_bit_eq_mod drop_bit_eq_div)
qed

lemma cell_plus_8: "cell (x + 8) = (cell x + 1) mod 8192"
proof -
  have "cell (x + 8) = cell (word_of_int (uint x + 8))" by simp
  also have "\<dots> = (uint x div 8 + 1) mod 8192" unfolding cell_of_int by (rule arg_cong [where f = "\<lambda>v. v mod 8192"]) presburger
  also have "\<dots> = (cell x + 1) mod 8192" by (simp add: cell_def mod_add_left_eq)
  finally show ?thesis .
qed

lemma cell_minus_8: "cell (x - 8) = (cell x - 1) mod 8192"
proof -
  have "cell (x - 8) = cell (word_of_int (uint x - 8))" by simp
  also have "\<dots> = (uint x div 8 - 1) mod 8192" unfolding cell_of_int by (rule arg_cong [where f = "\<lambda>v. v mod 8192"]) presburger
  also have "\<dots> = (cell x - 1) mod 8192" by (simp add: cell_def mod_diff_left_eq)
  finally show ?thesis .
qed

lemma cell_bounds [simp]: "0 \<le> cell x" "cell x < 8192"
  by (simp_all add: cell_def)

lemma cell_shift: "cell x = cell y \<Longrightarrow> cell (x + 8) = cell (y + 8)"
  by (simp add: cell_plus_8)

lemma cell_neighbour: "cell (x - 8) = cell y \<longleftrightarrow> cell x = cell (y + 8)"
proof -
  have "(a - 1) mod 8192 = b \<longleftrightarrow> a = (b + 1) mod 8192" if "0 \<le> a" "a < 8192" "0 \<le> b" "b < 8192" for a b :: int
    using that by (cases "a = 0"; cases "b = 8191") (auto simp: zmod_minus1)
  from this [OF cell_bounds cell_bounds] show ?thesis unfolding cell_plus_8 cell_minus_8 .
qed

lemma cell_ucast: "cell (ucast (x :: u16)) = uint x div 8"
proof -
  have "uint (ucast x :: u32) = uint x" by (rule uint_up_ucast) (simp add: is_up)
  moreover have "uint x div 8 < 8192" "0 \<le> uint x div 8" using uint_bounded [of x] by (simp_all add: div_int_pos_iff)
  ultimately show ?thesis by (simp add: cell_def)
qed

section \<open>Links\<close>

text \<open>A link to the leaf of a cell: null exactly if there is no leaf.\<close>

definition linked :: "'i map_leaf qtree \<Rightarrow> leaf_ptr option \<Rightarrow> u32 \<Rightarrow> u32 \<Rightarrow> bool" where
  "linked r p x y \<longleftrightarrow>
     (case p of None \<Rightarrow> getLeaf r x y = None
      | Some (a, b) \<Rightarrow> getLeaf r x y \<noteq> None \<and> same_cell DEPTH a b x y)"

definition links_ok :: "'i map_leaf qtree \<Rightarrow> bool" where
  "links_ok r \<longleftrightarrow> full DEPTH r \<and>
     (\<forall>x y l. getLeaf r x y = Some l \<longrightarrow> linked r (leafS l) x (y + 8) \<and> linked r (leafE l) (x + 8) y)"

lemma deref_linked: "full DEPTH r \<Longrightarrow> linked r p x y \<Longrightarrow> deref r p = getLeaf r x y"
  by (auto simp: linked_def deref_def quadtree.same_get split: option.splits)

lemma static_getLeaf: "full DEPTH r \<Longrightarrow> getLeafStatic r x y = getLeaf r x y"
  by (cases r) (simp_all add: DEPTH_def numeral_eq_Suc getLeafStatic_getLeaf)

lemma linked_leaf_at: "full DEPTH r \<Longrightarrow> linked r (leaf_at r x y) (word_of_int x) (word_of_int y)"
  by (auto simp: leaf_at_def static_getLeaf linked_def quadtree.same_refl split: option.split)

lemma link_S: "links_ok r \<Longrightarrow> getLeaf r x y = Some l \<Longrightarrow> linked r (leafS l) x (y + 8)"
  and link_E: "links_ok r \<Longrightarrow> getLeaf r x y = Some l \<Longrightarrow> linked r (leafE l) (x + 8) y"
  by (auto simp: links_ok_def)

lemma full_modify: "full DEPTH r \<Longrightarrow> full DEPTH (modifyLeaf f x y r)"
  by (rule quadtree.ok_modify)

lemma present_modify: "full DEPTH r \<Longrightarrow> getLeaf (modifyLeaf f x y r) x' y' = None \<longleftrightarrow> getLeaf r x' y' = None"
  by (simp add: quadtree.get_modify)

text \<open>Writes that keep the two links keep the invariant.\<close>

lemma links_ok_modify:
  assumes ok: "links_ok r" and f: "\<And>l. leafS (f l) = leafS l" "\<And>l. leafE (f l) = leafE l"
  shows "links_ok (modifyLeaf f x y r)"
proof -
  have full: "full DEPTH r" using ok by (simp add: links_ok_def)
  have linked: "linked (modifyLeaf f x y r) p u v \<longleftrightarrow> linked r p u v" for p u v
    by (cases p) (auto simp: linked_def present_modify [OF full])
  show ?thesis
    unfolding links_ok_def linked
    using ok full_modify [OF full] by (auto simp: links_ok_def quadtree.get_modify [OF full] f split: if_splits)
qed

lemma same_cell_north: "same_cell DEPTH x (y - 8) x' y' \<longleftrightarrow> same_cell DEPTH x y x' (y' + 8)"
  by (simp add: same_cell_cell cell_neighbour)

lemma same_cell_west: "same_cell DEPTH (x - 8) y x' y' \<longleftrightarrow> same_cell DEPTH x y (x' + 8) y'"
  by (simp add: same_cell_cell cell_neighbour)

definition relink :: "'i map_leaf qtree \<Rightarrow> u32 \<Rightarrow> u32 \<Rightarrow> u32 \<Rightarrow> u32 \<Rightarrow> 'i map_leaf \<Rightarrow> 'i map_leaf" where
  "relink r x y x' y' l = l\<lparr>
     leafS := (if same_cell DEPTH x y x' y' \<and> getLeaf r x (y + 8) \<noteq> None then Some (x, y + 8)
               else if same_cell DEPTH x y x' (y' + 8) then Some (x, y) else leafS l),
     leafE := (if same_cell DEPTH x y x' y' \<and> getLeaf r (x + 8) y \<noteq> None then Some (x + 8, y)
               else if same_cell DEPTH x y (x' + 8) y' then Some (x, y) else leafE l)\<rparr>"

lemma get_link_leaf:
  assumes "full DEPTH r"
  shows "getLeaf (link_leaf x y r) x' y' = map_option (relink r x y x' y') (getLeaf r x' y')"
    and "full DEPTH (link_leaf x y r)"
proof -
  define r1 where "r1 = modifyLeaf (leafS_update (\<lambda>_. Some (x, y))) x (y - 8) r"
  define r2 where "r2 = modifyLeaf (leafE_update (\<lambda>_. Some (x, y))) (x - 8) y r1"
  define r3 where "r3 = (if getLeaf r x (y + 8) = None then r2 else modifyLeaf (leafS_update (\<lambda>_. Some (x, y + 8))) x y r2)"
  have f1: "full DEPTH r1" unfolding r1_def by (rule full_modify [OF assms])
  have f2: "full DEPTH r2" unfolding r2_def by (rule full_modify [OF f1])
  have f3: "full DEPTH r3" unfolding r3_def using f2 full_modify by auto
  have none: "getLeaf r1 u v = None \<longleftrightarrow> getLeaf r u v = None" "getLeaf r2 u v = None \<longleftrightarrow> getLeaf r u v = None"
    "getLeaf r3 u v = None \<longleftrightarrow> getLeaf r u v = None" for u v
    using present_modify [OF assms] present_modify [OF f1] present_modify [OF f2] by (auto simp: r1_def r2_def r3_def)
  have link: "link_leaf x y r =
    (if getLeaf r (x + 8) y = None then r3 else modifyLeaf (leafE_update (\<lambda>_. Some (x + 8, y))) x y r3)"
    using none [of x "y + 8"] none [of "x + 8" y]
    unfolding link_leaf_def Let_def FLOOR_SIZE_def r1_def [symmetric] r2_def [symmetric]
    by (auto simp: r3_def split: option.splits)
  show "full DEPTH (link_leaf x y r)" unfolding link using f3 full_modify by auto
  have get1: "getLeaf r1 x' y' = map_option (\<lambda>l. if same_cell DEPTH x y x' (y' + 8) then l\<lparr>leafS := Some (x, y)\<rparr> else l) (getLeaf r x' y')"
    by (simp add: r1_def quadtree.get_modify [OF assms] same_cell_north option.map_ident)
  have get2: "getLeaf r2 x' y' = map_option (\<lambda>l. if same_cell DEPTH x y (x' + 8) y' then l\<lparr>leafE := Some (x, y)\<rparr> else l) (getLeaf r1 x' y')"
    by (simp add: r2_def quadtree.get_modify [OF f1] same_cell_west option.map_ident)
  have get3: "getLeaf r3 x' y' = map_option (\<lambda>l. if same_cell DEPTH x y x' y' \<and> getLeaf r x (y + 8) \<noteq> None
      then l\<lparr>leafS := Some (x, y + 8)\<rparr> else l) (getLeaf r2 x' y')"
    by (cases "getLeaf r x (y + 8)"; cases "same_cell DEPTH x y x' y'")
      (simp_all add: r3_def quadtree.get_modify [OF f2] option.map_ident)
  have get4: "getLeaf (link_leaf x y r) x' y' = map_option (\<lambda>l. if same_cell DEPTH x y x' y' \<and> getLeaf r (x + 8) y \<noteq> None
      then l\<lparr>leafE := Some (x + 8, y)\<rparr> else l) (getLeaf r3 x' y')"
    by (cases "getLeaf r (x + 8) y"; cases "same_cell DEPTH x y x' y'")
      (simp_all add: link quadtree.get_modify [OF f3] option.map_ident)
  show "getLeaf (link_leaf x y r) x' y' = map_option (relink r x y x' y') (getLeaf r x' y')"
    unfolding get4 get3 get2 get1 option.map_comp comp_def
    by (cases "getLeaf r x (y + 8)"; cases "getLeaf r (x + 8) y"; rule option.map_cong0) (simp_all add: relink_def)
qed

lemma cell_no_loop: "cell (x + 8) \<noteq> cell x"
proof -
  have "(a + 1) mod 8192 \<noteq> a" if "0 \<le> a" "a < 8192" for a :: int
    using that by (cases "a = 8191") auto
  from this [OF cell_bounds] show ?thesis unfolding cell_plus_8 .
qed

lemma links_ok_create:
  assumes ok: "links_ok r" and new: "createLeaf new_leaf x y 15 r = (r', newLeaf)"
  shows "links_ok (if newLeaf then link_leaf x y r' else r')"
proof -
  have full: "full DEPTH r" using ok by (simp add: links_ok_def)
  have full': "full DEPTH r'" using quadtree.ok_create [OF full, of new_leaf x y] new by simp
  have get': "getLeaf r' u v = (if same_cell DEPTH x y u v then or_new new_leaf (getLeaf r u v) else getLeaf r u v)" for u v
    using quadtree.get_create [OF full, of new_leaf x y u v] new by simp
  have flag: "newLeaf \<longleftrightarrow> getLeaf r x y = None" using quadtree.create_flag [OF full, of new_leaf x y] new by simp
  show ?thesis
  proof (cases newLeaf)
    case False
    then have "getLeaf r' = getLeaf r"
      using flag quadtree.get_create_present [OF full, of x y _ new_leaf] new by auto
    then have "linked r' = linked r" by (intro ext) (simp only: linked_def)
    with False ok full' \<open>getLeaf r' = getLeaf r\<close> show ?thesis by (simp add: links_ok_def)
  next
    case True
    let ?r = "link_leaf x y r'"
    have absent: "getLeaf r u v = None" if "same_cell DEPTH x y u v" for u v
      using True flag quadtree.same_get [OF full that] by simp
    have get'': "getLeaf r' u v = (if same_cell DEPTH x y u v then Some new_leaf else getLeaf r u v)" for u v
      using absent by (simp add: get')
    have present: "getLeaf ?r u v = None \<longleftrightarrow> \<not> same_cell DEPTH x y u v \<and> getLeaf r u v = None" for u v
      by (simp add: get_link_leaf(1) [OF full'] get'')
    have grow: "linked ?r p u v" if "linked r p u v" "\<not> same_cell DEPTH x y u v" for p u v
      using that by (auto simp: linked_def present split: option.splits)
    have "linked ?r (leafS l) u (v + 8) \<and> linked ?r (leafE l) (u + 8) v" if l: "getLeaf ?r u v = Some l" for u v l
    proof -
      obtain l0 where l0: "getLeaf r' u v = Some l0" and l: "l = relink r' x y u v l0"
        using l by (auto simp: get_link_leaf(1) [OF full'])
      show ?thesis
      proof (cases "same_cell DEPTH x y u v")
        case same: True
        have l0: "l0 = new_leaf" using l0 same by (simp add: get'')
        have S: "\<not> same_cell DEPTH x y u (v + 8)" "\<not> same_cell DEPTH x y (u + 8) v"
          and S': "same_cell DEPTH x (y + 8) u (v + 8)" "same_cell DEPTH (x + 8) y (u + 8) v"
          and S'': "\<not> same_cell DEPTH x y x (y + 8)" "\<not> same_cell DEPTH x y (x + 8) y"
          using same cell_no_loop [of u] cell_no_loop [of v] cell_no_loop [of x] cell_no_loop [of y]
            cell_shift [of x u] cell_shift [of y v]
          by (auto simp: same_cell_cell)
        have "getLeaf r x (y + 8) = getLeaf r u (v + 8)" "getLeaf r (x + 8) y = getLeaf r (u + 8) v"
          using quadtree.same_get [OF full S'(1)] quadtree.same_get [OF full S'(2)] by simp_all
        then show ?thesis
          using S S' S'' same by (auto simp: l l0 relink_def linked_def present get'' new_leaf_def)
      next
        case other: False
        then have "getLeaf r u v = Some l0" using l0 by (simp add: get'')
        then have "linked r (leafS l0) u (v + 8)" "linked r (leafE l0) (u + 8) v"
          using link_S [OF ok] link_E [OF ok] by blast+
        then show ?thesis
          using other grow by (auto simp: l relink_def linked_def present)
      qed
    qed
    with True get_link_leaf(2) [OF full'] show ?thesis by (simp add: links_ok_def)
  qed
qed

section \<open>The scan visits every leaf of the area once\<close>

function stride :: "int \<Rightarrow> int \<Rightarrow> int list" where
  "stride lo hi = (if lo \<le> hi then lo # stride (lo + 8) hi else [])"
  by pat_completeness auto
termination
  by (relation "measure (\<lambda>(lo, hi). nat (hi + 8 - lo))") auto

declare stride.simps [simp del]

lemma set_stride: "set (stride lo hi) = {v. lo \<le> v \<and> v \<le> hi \<and> (v - lo) mod 8 = 0}"
proof (induction lo hi rule: stride.induct)
  case (1 lo hi)
  show ?case
  proof (cases "lo \<le> hi")
    case True
    have "(lo \<le> v \<and> v \<le> hi \<and> (v - lo) mod 8 = 0) \<longleftrightarrow>
        v = lo \<or> (lo + 8 \<le> v \<and> v \<le> hi \<and> (v - (lo + 8)) mod 8 = 0)" for v
      using True by presburger
    with 1 True show ?thesis by (subst stride.simps) auto
  next
    case False
    then show ?thesis by (subst stride.simps) auto
  qed
qed

lemma distinct_stride: "distinct (stride lo hi)"
proof (induction lo hi rule: stride.induct)
  case (1 lo hi)
  then show ?case by (subst stride.simps) (auto simp: set_stride)
qed

definition visit_at :: "'i map_leaf qtree \<Rightarrow> ('i map_leaf \<Rightarrow> nat list) \<Rightarrow> int \<Rightarrow> int \<Rightarrow> nat list" where
  "visit_at r visit x y =
     (case getLeaf r (word_of_int x) (word_of_int y) of None \<Rightarrow> [] | Some l \<Rightarrow> visit l)"

lemma linked_E: "links_ok r \<Longrightarrow> linked r E (word_of_int x) (word_of_int y) \<Longrightarrow>
    linked r (case deref r E of Some l \<Rightarrow> leafE l | None \<Rightarrow> leaf_at r (x + 8) y) (word_of_int (x + 8)) (word_of_int y)"
  using link_E [of r "word_of_int x" "word_of_int y"] linked_leaf_at [of r "x + 8" y]
  by (auto simp: links_ok_def deref_linked split: option.split)

lemma linked_S: "links_ok r \<Longrightarrow> linked r S (word_of_int x) (word_of_int y) \<Longrightarrow>
    linked r (case deref r S of Some l \<Rightarrow> leafS l | None \<Rightarrow> leaf_at r x (y + 8)) (word_of_int x) (word_of_int (y + 8))"
  using link_S [of r "word_of_int x" "word_of_int y"] linked_leaf_at [of r x "y + 8"]
  by (auto simp: links_ok_def deref_linked split: option.split)

lemma scan_row_visits:
  assumes "links_ok r" "linked r E (word_of_int nx) (word_of_int ny)"
  shows "scan_row r visit ny endx nx E spectators = spectators @ concat (map (\<lambda>x. visit_at r visit x ny) (stride nx endx))"
  using assms
proof (induction r visit ny endx nx E spectators rule: scan_row.induct)
  case (1 r visit ny endx nx E spectators)
  have get: "deref r E = getLeaf r (word_of_int nx) (word_of_int ny)"
    using 1 deref_linked by (auto simp: links_ok_def)
  note next_link = linked_E [OF 1(3,4)]
  show ?case
  proof (cases "nx \<le> endx")
    case False
    then show ?thesis by (simp add: scan_row.simps stride.simps)
  next
    case True
    show ?thesis
    proof (cases "deref r E")
      case None
      with next_link have "linked r (leaf_at r (nx + 8) ny) (word_of_int (nx + 8)) (word_of_int ny)" by simp
      with 1(1) [OF True None] 1(3) True None get show ?thesis
        by (subst scan_row.simps, subst stride.simps) (simp add: FLOOR_SIZE_def visit_at_def)
    next
      case (Some l)
      with next_link have "linked r (leafE l) (word_of_int (nx + 8)) (word_of_int ny)" by simp
      with 1(2) [OF True Some] 1(3) True Some get show ?thesis
        by (subst scan_row.simps, subst stride.simps) (simp add: FLOOR_SIZE_def visit_at_def)
    qed
  qed
qed

lemma scan_rows_visits:
  assumes "links_ok r" "linked r S (word_of_int startx) (word_of_int ny)"
  shows "scan_rows r visit startx endx endy ny S spectators = spectators @
    concat (map (\<lambda>y. concat (map (\<lambda>x. visit_at r visit x y) (stride startx endx))) (stride ny endy))"
  using assms
proof (induction r visit startx endx endy ny S spectators rule: scan_rows.induct)
  case (1 r visit startx endx endy ny S spectators)
  note next_link = linked_S [OF 1(2,3)]
  note row = scan_row_visits [OF 1(2,3), of visit endx spectators]
  show ?case
  proof (cases "ny \<le> endy")
    case True
    then show ?thesis
      using 1(1) [OF True refl refl, unfolded FLOOR_SIZE_def] 1(2) next_link row
      by (subst scan_rows.simps, subst stride.simps [of ny endy], unfold FLOOR_SIZE_def) (simp add: Let_def)
  next
    case False
    then show ?thesis by (simp add: scan_rows.simps stride.simps [of ny endy])
  qed
qed

section \<open>The invariant\<close>

definition in_cell :: "'i gmap \<Rightarrow> nat \<Rightarrow> u32 \<Rightarrow> u32 \<Rightarrow> bool" where
  "in_cell m c x y \<longleftrightarrow> (case creatures m c of None \<Rightarrow> False
     | Some (p, _) \<Rightarrow> same_cell DEPTH (ucast (pos_x p)) (ucast (pos_y p)) x y)"

definition lists_ok :: "'i gmap \<Rightarrow> u32 \<Rightarrow> u32 \<Rightarrow> 'i map_leaf \<Rightarrow> bool" where
  "lists_ok m x y l \<longleftrightarrow> distinct (creature_list l) \<and> distinct (player_list l) \<and>
     set (creature_list l) = {c. in_cell m c x y} \<and>
     set (player_list l) = {c. in_cell m c x y \<and> isPlayer m c}"

definition map_ok :: "'i gmap \<Rightarrow> bool" where
  "map_ok m \<longleftrightarrow> links_ok (root m) \<and>
     (\<forall>x y l. getLeaf (root m) x y = Some l \<longrightarrow> lists_ok m x y l) \<and>
     (\<forall>c x y. in_cell m c x y \<longrightarrow> getLeaf (root m) x y \<noteq> None)"

text \<open>Who is in the range of a query.\<close>

definition spectators_in :: "'i gmap \<Rightarrow> position \<Rightarrow> scan_range \<Rightarrow> bool \<Rightarrow> nat set" where
  "spectators_in m centerPos s onlyPlayers =
     {c. case creatures m c of None \<Rightarrow> False
         | Some (p, b) \<Rightarrow> in_scan centerPos s p \<and> (onlyPlayers \<longrightarrow> b)}"

lemma visit_leaf_set:
  assumes "map_ok m" "getLeaf (root m) x y = Some l"
  shows "set (visit_leaf m centerPos s onlyPlayers l) = {c \<in> spectators_in m centerPos s onlyPlayers. in_cell m c x y}"
    and "distinct (visit_leaf m centerPos s onlyPlayers l)"
proof -
  have l: "lists_ok m x y l" using assms by (auto simp: map_ok_def)
  then show "set (visit_leaf m centerPos s onlyPlayers l) = {c \<in> spectators_in m centerPos s onlyPlayers. in_cell m c x y}"
    by (auto simp: lists_ok_def visit_leaf_def spectators_in_def isPlayer_def in_cell_def split: option.splits if_splits)
  show "distinct (visit_leaf m centerPos s onlyPlayers l)" using l by (auto simp: lists_ok_def visit_leaf_def)
qed

lemma visit_at_set:
  assumes "map_ok m"
  shows "set (visit_at (root m) (visit_leaf m centerPos s onlyPlayers) x y) =
      {c \<in> spectators_in m centerPos s onlyPlayers. in_cell m c (word_of_int x) (word_of_int y)}"
    and "distinct (visit_at (root m) (visit_leaf m centerPos s onlyPlayers) x y)"
proof -
  let ?l = "getLeaf (root m) (word_of_int x) (word_of_int y)"
  have "c \<notin> spectators_in m centerPos s onlyPlayers \<or> \<not> in_cell m c (word_of_int x) (word_of_int y)" if "?l = None" for c
    using that assms unfolding map_ok_def by blast
  then show "set (visit_at (root m) (visit_leaf m centerPos s onlyPlayers) x y) =
      {c \<in> spectators_in m centerPos s onlyPlayers. in_cell m c (word_of_int x) (word_of_int y)}"
    using visit_leaf_set(1) [OF assms] by (cases ?l) (auto simp: visit_at_def)
  show "distinct (visit_at (root m) (visit_leaf m centerPos s onlyPlayers) x y)"
    using visit_leaf_set(2) [OF assms] by (cases ?l) (auto simp: visit_at_def)
qed

section \<open>Exactness\<close>

lemma leaf_start_clamp: "leaf_start (clamp16 v) mod 8 = 0" "0 \<le> leaf_start (clamp16 v)" "leaf_start (clamp16 v) < 65536"
proof -
  have "0 \<le> clamp16 v" "clamp16 v < 65536" by (auto simp: clamp16_def)
  then show "leaf_start (clamp16 v) mod 8 = 0" "0 \<le> leaf_start (clamp16 v)" "leaf_start (clamp16 v) < 65536"
    unfolding leaf_start_def FLOOR_SIZE_def by presburger+
qed

lemma leaf_start_mono: "a \<le> b \<Longrightarrow> leaf_start a \<le> leaf_start b"
  unfolding leaf_start_def FLOOR_SIZE_def by presburger

lemma stride_cells:
  assumes "x \<in> set (stride (leaf_start (clamp16 v)) (leaf_start (clamp16 w)))"
  shows "0 \<le> x" "x < 65536" "x mod 8 = 0"
  using assms leaf_start_clamp [of v] leaf_start_clamp [of w] unfolding set_stride by (simp_all, presburger)

lemma cell_start: "0 \<le> a \<Longrightarrow> a < 65536 \<Longrightarrow> cell (word_of_int (leaf_start a)) = a div 8"
proof -
  assume "0 \<le> a" "a < 65536"
  then have "leaf_start a div 8 = a div 8" "0 \<le> a div 8" "a div 8 < 8192"
    unfolding leaf_start_def FLOOR_SIZE_def by presburger+
  then show ?thesis by (simp add: cell_of_int)
qed

lemma cell_inj:
  assumes "0 \<le> a" "a < 65536" "a mod 8 = 0" "0 \<le> b" "b < 65536" "b mod 8 = 0"
    and "cell (word_of_int a) = cell (word_of_int b)"
  shows "a = b"
proof -
  have "a div 8 < 8192" "b div 8 < 8192" "0 \<le> a div 8" "0 \<le> b div 8" using assms by presburger+
  with assms(7) have "a div 8 = b div 8" by (simp add: cell_of_int)
  with assms(3,6) show ?thesis by presburger
qed

lemma in_cellD: "in_cell m c x y \<Longrightarrow> in_cell m c x' y' \<Longrightarrow> cell x = cell x' \<and> cell y = cell y'"
  by (auto simp: in_cell_def same_cell_cell split: option.splits)

lemma u16_range: "0 \<le> uint (x :: u16)" "uint (x :: u16) < 65536"
  using uint_bounded [of x] by simp_all

lemma axis_covered:
  assumes "0 \<le> p" "p < 65536" "lo + off \<le> p" "p \<le> hi + off" "minoff \<le> off" "off \<le> maxoff"
  shows "leaf_start p \<in> set (stride (leaf_start (clamp16 (lo + minoff))) (leaf_start (clamp16 (hi + maxoff))))"
proof -
  have "clamp16 (lo + minoff) \<le> p" "p \<le> clamp16 (hi + maxoff)" using assms by (auto simp: clamp16_def)
  then have "leaf_start (clamp16 (lo + minoff)) \<le> leaf_start p" "leaf_start p \<le> leaf_start (clamp16 (hi + maxoff))"
    by (simp_all add: leaf_start_mono)
  moreover have "(leaf_start p - leaf_start (clamp16 (lo + minoff))) mod 8 = 0"
    unfolding leaf_start_def FLOOR_SIZE_def by presburger
  ultimately show ?thesis by (simp add: set_stride)
qed

definition range_around :: "position \<Rightarrow> int \<Rightarrow> int \<Rightarrow> int \<Rightarrow> int \<Rightarrow> int \<Rightarrow> int \<Rightarrow> scan_range" where
  "range_around p minRangeX maxRangeX minRangeY maxRangeY minRangeZ maxRangeZ =
     \<lparr>min_x = getX p + minRangeX, max_x = getX p + maxRangeX,
      min_y = getY p + minRangeY, max_y = getY p + maxRangeY, min_z = minRangeZ, max_z = maxRangeZ\<rparr>"

lemma getSpectatorsInternal_exact:
  fixes m :: "'i gmap" and p ax bx ay b_y az bz onlyPlayers
  defines "s \<equiv> range_around p ax bx ay b_y az bz"
  assumes ok: "map_ok m"
  shows "set (getSpectatorsInternal [] p ax bx ay b_y az bz onlyPlayers m) = spectators_in m p s onlyPlayers"
    and "distinct (getSpectatorsInternal [] p ax bx ay b_y az bz onlyPlayers m)"
proof -
  define minoff maxoff where "minoff = getZ p - bz" and "maxoff = getZ p - az"
  define xs where "xs = stride (leaf_start (clamp16 (min_x s + minoff))) (leaf_start (clamp16 (max_x s + maxoff)))"
  define ys where "ys = stride (leaf_start (clamp16 (min_y s + minoff))) (leaf_start (clamp16 (max_y s + maxoff)))"
  let ?v = "visit_at (root m) (visit_leaf m p s onlyPlayers)"
  have links: "links_ok (root m)" using ok by (simp add: map_ok_def)
  then have full: "full DEPTH (root m)" by (simp add: links_ok_def)
  have scan: "getSpectatorsInternal [] p ax bx ay b_y az bz onlyPlayers m = concat (map (\<lambda>y. concat (map (\<lambda>x. ?v x y) xs)) ys)"
    using scan_rows_visits [OF links linked_leaf_at [OF full]]
    by (simp add: getSpectatorsInternal_def Let_def s_def range_around_def xs_def ys_def minoff_def maxoff_def)
  have covered: "\<exists>y\<in>set ys. \<exists>x\<in>set xs. in_cell m c (word_of_int x) (word_of_int y)"
    if c: "c \<in> spectators_in m p s onlyPlayers" for c
  proof -
    obtain q b where q: "creatures m c = Some (q, b)" "in_scan p s q"
      using c by (auto simp: spectators_in_def split: option.splits)
    define off where "off = getZ p - getZ q"
    have off: "minoff \<le> off" "off \<le> maxoff" "min_x s + off \<le> getX q" "getX q \<le> max_x s + off"
      "min_y s + off \<le> getY q" "getY q \<le> max_y s + off"
      using q(2) by (auto simp: in_scan_def Let_def getOffsetZ_def off_def minoff_def maxoff_def s_def range_around_def)
    have "leaf_start (getX q) \<in> set xs" "leaf_start (getY q) \<in> set ys"
      unfolding xs_def ys_def using off u16_range [of "pos_x q"] u16_range [of "pos_y q"]
      by (auto intro!: axis_covered [of _ _ off] simp: getX_def getY_def)
    moreover have "in_cell m c (word_of_int (leaf_start (getX q))) (word_of_int (leaf_start (getY q)))"
      using u16_range [of "pos_x q"] u16_range [of "pos_y q"]
      by (simp add: in_cell_def q(1) same_cell_cell cell_ucast cell_start getX_def getY_def)
    ultimately show ?thesis by blast
  qed
  then show "set (getSpectatorsInternal [] p ax bx ay b_y az bz onlyPlayers m) = spectators_in m p s onlyPlayers"
    unfolding scan by (auto simp: visit_at_set(1) [OF ok])
  have disjoint: "x = x' \<and> y = y'" if "x \<in> set xs" "x' \<in> set xs" "y \<in> set ys" "y' \<in> set ys"
    "c \<in> set (?v x y)" "c \<in> set (?v x' y')" for x x' y y' c
  proof -
    have "cell (word_of_int x) = cell (word_of_int x') \<and> cell (word_of_int y) = cell (word_of_int y')"
    proof (rule in_cellD)
      show "in_cell m c (word_of_int x) (word_of_int y)" "in_cell m c (word_of_int x') (word_of_int y')"
        using that(5,6) by (simp_all add: visit_at_set(1) [OF ok])
    qed
    moreover note in_stride = stride_cells [OF that(1) [unfolded xs_def]] stride_cells [OF that(2) [unfolded xs_def]]
      stride_cells [OF that(3) [unfolded ys_def]] stride_cells [OF that(4) [unfolded ys_def]]
    ultimately show ?thesis using cell_inj [OF in_stride(1-6)] cell_inj [OF in_stride(7-12)] by blast
  qed
  show "distinct (getSpectatorsInternal [] p ax bx ay b_y az bz onlyPlayers m)"
    unfolding scan
  proof (intro distinct_concat_map)
    show "distinct ys" "distinct xs" by (simp_all add: xs_def ys_def distinct_stride)
    show "distinct (?v x y)" for x y by (rule visit_at_set(2) [OF ok])
    show "set (?v x y) \<inter> set (?v x' y) = {}" if "y \<in> set ys" "x \<in> set xs" "x' \<in> set xs" "x \<noteq> x'" for x x' y
      using disjoint [OF that(2,3,1,1)] that(4) by blast
    show "set (concat (map (\<lambda>x. ?v x y) xs)) \<inter> set (concat (map (\<lambda>x. ?v x y') xs)) = {}"
      if "y \<in> set ys" "y' \<in> set ys" "y \<noteq> y'" for y y'
      using disjoint that by fastforce
  qed
qed

section \<open>What keeps the invariant\<close>

lemma map_okD:
  assumes "map_ok m"
  shows "links_ok (root m)" "full DEPTH (root m)"
    and "getLeaf (root m) x y = Some l \<Longrightarrow> lists_ok m x y l"
    and "in_cell m c x y \<Longrightarrow> getLeaf (root m) x y \<noteq> None"
  using assms by (auto simp: map_ok_def links_ok_def)

lemma map_ok_cong: "root m = root m' \<Longrightarrow> creatures m = creatures m' \<Longrightarrow> map_ok m = map_ok m'"
  by (auto simp: map_ok_def lists_ok_def in_cell_def isPlayer_def)

lemma map_ok_caches [simp]:
  "map_ok (m\<lparr>spectatorCache := sc\<rparr>) = map_ok m" "map_ok (m\<lparr>playersSpectatorCache := pc\<rparr>) = map_ok m"
  by (auto simp: map_ok_def lists_ok_def in_cell_def isPlayer_def)

lemma map_ok_clear [simp]: "map_ok (clear_caches b m) = map_ok m"
  by (simp add: clear_caches_def Let_def)

lemma clear_caches_simps [simp]:
  "creatures (clear_caches b m) = creatures m" "root (clear_caches b m) = root m"
  "spectatorCache (clear_caches b m) = (\<lambda>_. None)"
  "playersSpectatorCache (clear_caches b m) = (if b then (\<lambda>_. None) else playersSpectatorCache m)"
  by (auto simp: clear_caches_def Let_def)

lemma new_map_ok: "map_ok new_map"
  by (simp add: map_ok_def links_ok_def new_map_def DEPTH_def full_new_node numeral_eq_Suc getLeaf_new_node in_cell_def)

text \<open>Changing the lists of the leaf of \<open>p\<close> together with the map of creatures.\<close>

lemma map_ok_at_leaf:
  assumes ok: "map_ok m" and at: "at_leaf f p m = Some m'"
    and f: "\<And>l. leafS (f l) = leafS l" "\<And>l. leafE (f l) = leafE l"
    and here: "\<And>x y l. lists_ok m x y l \<Longrightarrow> same_cell DEPTH (ucast (pos_x p)) (ucast (pos_y p)) x y \<Longrightarrow>
        lists_ok (m'\<lparr>creatures := C\<rparr>) x y (f l)"
    and there: "\<And>x y l. lists_ok m x y l \<Longrightarrow> \<not> same_cell DEPTH (ucast (pos_x p)) (ucast (pos_y p)) x y \<Longrightarrow>
        lists_ok (m'\<lparr>creatures := C\<rparr>) x y l"
    and grow: "\<And>c x y. in_cell (m'\<lparr>creatures := C\<rparr>) c x y \<Longrightarrow>
        in_cell m c x y \<or> same_cell DEPTH (ucast (pos_x p)) (ucast (pos_y p)) x y"
  shows "map_ok (m'\<lparr>creatures := C\<rparr>)"
proof -
  let ?x = "ucast (pos_x p) :: u32" and ?y = "ucast (pos_y p) :: u32"
  note D = map_okD [OF ok]
  have present: "getLeaf (root m) ?x ?y \<noteq> None" and r: "root m' = modifyLeaf f ?x ?y (root m)"
    using at D(2) by (auto simp: at_leaf_def static_getLeaf split: option.splits)
  have get: "getLeaf (root m') x y = (if same_cell DEPTH ?x ?y x y then map_option f (getLeaf (root m) x y) else getLeaf (root m) x y)" for x y
    by (simp add: r quadtree.get_modify [OF D(2)])
  have "links_ok (root m')" unfolding r by (rule links_ok_modify [OF D(1) f])
  moreover have "lists_ok (m'\<lparr>creatures := C\<rparr>) x y l" if "getLeaf (root m') x y = Some l" for x y l
    using that here there D(3) by (auto simp: get split: if_splits)
  moreover have "getLeaf (root m') x y \<noteq> None" if "in_cell (m'\<lparr>creatures := C\<rparr>) c x y" for c x y
  proof (cases "same_cell DEPTH ?x ?y x y")
    case True
    with present show ?thesis using quadtree.same_get [OF D(2) True] by (simp add: get)
  next
    case False
    with grow [OF that] D(4) show ?thesis by (simp add: get)
  qed
  ultimately show ?thesis by (simp add: map_ok_def)
qed

lemma at_leaf_creatures: "at_leaf f p m = Some m' \<Longrightarrow> creatures m' = creatures m"
  by (auto simp: at_leaf_def split: option.splits)

lemma at_leaf_caches:
  "at_leaf f p m = Some m' \<Longrightarrow> spectatorCache m' = spectatorCache m \<and> playersSpectatorCache m' = playersSpectatorCache m"
  by (auto simp: at_leaf_def split: option.splits)

lemma at_leaf_Some: "full DEPTH (root m) \<Longrightarrow> (\<exists>m'. at_leaf f p m = Some m') \<longleftrightarrow> getLeaf (root m) (ucast (pos_x p)) (ucast (pos_y p)) \<noteq> None"
  by (auto simp: at_leaf_def static_getLeaf split: option.splits)

lemma addCreature_links [simp]: "leafS (addCreature c b l) = leafS l" "leafE (addCreature c b l) = leafE l"
  by (simp_all add: addCreature_def Let_def)

lemma removeCreature_links [simp]: "leafS (removeCreature c b l) = leafS l" "leafE (removeCreature c b l) = leafE l"
  by (simp_all add: removeCreature_def Let_def)

lemma add_lists_ok:
  assumes "lists_ok m x y l" "creatures m c = None" "creatures m' = (creatures m)(c \<mapsto> (p, b))"
  shows "same_cell DEPTH (ucast (pos_x p)) (ucast (pos_y p)) x y \<Longrightarrow> lists_ok m' x y (addCreature c b l)"
    and "\<not> same_cell DEPTH (ucast (pos_x p)) (ucast (pos_y p)) x y \<Longrightarrow> lists_ok m' x y l"
  using assms by (auto simp: lists_ok_def addCreature_def in_cell_def isPlayer_def Let_def split: option.splits if_splits)

lemma remove_lists_ok:
  assumes "lists_ok m x y l" "creatures m c = Some (p, b)" "creatures m' = (creatures m)(c := None)"
  shows "same_cell DEPTH (ucast (pos_x p)) (ucast (pos_y p)) x y \<Longrightarrow> lists_ok m' x y (removeCreature c b l)"
    and "\<not> same_cell DEPTH (ucast (pos_x p)) (ucast (pos_y p)) x y \<Longrightarrow> lists_ok m' x y l"
  using assms
  by (auto simp: lists_ok_def removeCreature_def in_cell_def isPlayer_def Let_def set_swap_remove distinct_swap_remove
      split: option.splits if_splits)

lemma place_ok:
  assumes ok: "map_ok m" and new: "creatures m c = None" and at: "place c b p m = Some m'"
  shows "map_ok m'" "creatures m' = (creatures m)(c \<mapsto> (p, b))"
proof -
  define C where "C = (creatures m)(c \<mapsto> (p, b))"
  obtain m1 where m1: "at_leaf (addCreature c b) p (clear_caches b m) = Some m1"
    and m': "m' = m1\<lparr>creatures := C\<rparr>"
    using at by (auto simp: place_def Let_def at_leaf_def C_def split: option.splits)
  show "creatures m' = (creatures m)(c \<mapsto> (p, b))" by (simp add: m' C_def)
  show "map_ok m'" unfolding m'
  proof (rule map_ok_at_leaf [OF _ m1])
    show "map_ok (clear_caches b m)" using ok by simp
    fix x y l assume l: "lists_ok (clear_caches b m) x y l"
    note L = add_lists_ok [OF l, of c "m1\<lparr>creatures := C\<rparr>" p b]
    show "same_cell DEPTH (ucast (pos_x p)) (ucast (pos_y p)) x y \<Longrightarrow> lists_ok (m1\<lparr>creatures := C\<rparr>) x y (addCreature c b l)"
      using L(1) new by (simp add: C_def)
    show "\<not> same_cell DEPTH (ucast (pos_x p)) (ucast (pos_y p)) x y \<Longrightarrow> lists_ok (m1\<lparr>creatures := C\<rparr>) x y l"
      using L(2) new by (simp add: C_def)
  qed (auto simp: in_cell_def C_def split: option.splits if_splits)
qed

lemma unplace_ok:
  assumes ok: "map_ok m" and at: "unplace c m = Some m'"
  shows "map_ok m'" "creatures m' = (creatures m)(c := None)"
proof -
  define C where "C = (creatures m)(c := None)"
  obtain p b m1 where c: "creatures m c = Some (p, b)" and m1: "at_leaf (removeCreature c b) p m = Some m1"
    and m': "m' = clear_caches b (m1\<lparr>creatures := C\<rparr>)"
    using at by (cases "creatures m c") (auto simp: unplace_def C_def at_leaf_creatures)
  show "creatures m' = (creatures m)(c := None)" by (simp add: m' C_def)
  have "map_ok (m1\<lparr>creatures := C\<rparr>)"
  proof (rule map_ok_at_leaf [OF ok m1])
    fix x y l assume l: "lists_ok m x y l"
    note L = remove_lists_ok [OF l c, of "m1\<lparr>creatures := C\<rparr>"]
    show "same_cell DEPTH (ucast (pos_x p)) (ucast (pos_y p)) x y \<Longrightarrow> lists_ok (m1\<lparr>creatures := C\<rparr>) x y (removeCreature c b l)"
      using L(1) by (simp add: C_def)
    show "\<not> same_cell DEPTH (ucast (pos_x p)) (ucast (pos_y p)) x y \<Longrightarrow> lists_ok (m1\<lparr>creatures := C\<rparr>) x y l"
      using L(2) by (simp add: C_def)
  qed (auto simp: in_cell_def C_def split: option.splits if_splits)
  then show "map_ok m'" by (simp add: m')
qed

lemma at_leaf_set_creatures: "at_leaf f p (m\<lparr>creatures := C\<rparr>) = map_option (\<lambda>m. m\<lparr>creatures := C\<rparr>) (at_leaf f p m)"
  by (simp add: at_leaf_def split: option.split)

lemma map_ok_same_cell:
  assumes ok: "map_ok m" and c: "creatures m c = Some (p, b)"
    and same: "same_cell DEPTH (ucast (pos_x p)) (ucast (pos_y p)) (ucast (pos_x q)) (ucast (pos_y q))"
  shows "map_ok (m\<lparr>creatures := (creatures m)(c \<mapsto> (q, b))\<rparr>)"
proof -
  have "in_cell (m\<lparr>creatures := (creatures m)(c \<mapsto> (q, b))\<rparr>) = in_cell m"
    using c same by (auto simp: fun_eq_iff in_cell_def same_cell_cell)
  moreover have "isPlayer (m\<lparr>creatures := (creatures m)(c \<mapsto> (q, b))\<rparr>) = isPlayer m"
    using c by (auto simp: fun_eq_iff isPlayer_def)
  ultimately show ?thesis using ok by (simp add: map_ok_def lists_ok_def)
qed

lemma map_ok_other_cell:
  assumes ok: "map_ok m" and c: "creatures m c = Some (p, b)"
    and m1: "at_leaf (removeCreature c b) p m = Some m1" and m2: "at_leaf (addCreature c b) q m1 = Some m2"
  shows "map_ok (m2\<lparr>creatures := (creatures m)(c \<mapsto> (q, b))\<rparr>)"
proof -
  define C where "C = (creatures m)(c := None)"
  have "unplace c m = Some (clear_caches b (m1\<lparr>creatures := C\<rparr>))"
    using c m1 at_leaf_creatures [OF m1] by (simp add: unplace_def C_def)
  then have ok1: "map_ok (m1\<lparr>creatures := C\<rparr>)" using unplace_ok [OF ok] by fastforce
  obtain m3 where m3: "place c b q (m1\<lparr>creatures := C\<rparr>) = Some m3" "root m3 = root m2"
    using m2 by (cases b) (auto simp: place_def Let_def clear_caches_def at_leaf_def split: option.splits)
  have "map_ok m3" "creatures m3 = C(c \<mapsto> (q, b))"
    using place_ok [OF ok1 _ m3(1)] by (simp_all add: C_def)
  moreover have "map_ok (m2\<lparr>creatures := C(c \<mapsto> (q, b))\<rparr>) = map_ok m3"
    by (rule map_ok_cong) (simp_all add: m3 \<open>creatures m3 = C(c \<mapsto> (q, b))\<close>)
  ultimately show ?thesis by (simp add: C_def)
qed

section \<open>Queries and their caches\<close>

definition query_range :: "position \<Rightarrow> bool \<Rightarrow> int \<Rightarrow> int \<Rightarrow> int \<Rightarrow> int \<Rightarrow> scan_range" where
  "query_range p multifloor minRangeX maxRangeX minRangeY maxRangeY =
     range_around p (low_range maxViewportX minRangeX) (high_range maxViewportX maxRangeX)
       (low_range maxViewportY minRangeY) (high_range maxViewportY maxRangeY)
       (fst (floor_range p multifloor)) (snd (floor_range p multifloor))"

definition default_range :: "position \<Rightarrow> scan_range" where
  "default_range p = query_range p True 0 0 0 0"

definition cached_ok :: "'i gmap \<Rightarrow> bool \<Rightarrow> spectator_cache \<Rightarrow> bool" where
  "cached_ok m onlyPlayers cache \<longleftrightarrow>
     (\<forall>p v. cache p = Some v \<longrightarrow> distinct v \<and> set v = spectators_in m p (default_range p) onlyPlayers)"

definition caches_ok :: "'i gmap \<Rightarrow> bool" where
  "caches_ok m \<longleftrightarrow> cached_ok m False (spectatorCache m) \<and> cached_ok m True (playersSpectatorCache m)"

lemma cached_ok_empty [simp]: "cached_ok m b (\<lambda>_. None)"
  by (simp add: cached_ok_def)

lemma cached_ok_put:
  "cached_ok m b cache \<Longrightarrow> distinct v \<Longrightarrow> set v = spectators_in m p (default_range p) b \<Longrightarrow>
     cached_ok m b (cache(p \<mapsto> v))"
  by (simp add: cached_ok_def)

lemma cached_ok_creatures: "creatures m = creatures m' \<Longrightarrow> cached_ok m = cached_ok m'"
  by (auto simp: cached_ok_def spectators_in_def fun_eq_iff)

lemma players_among: "{c \<in> spectators_in m p s False. isPlayer m c} = spectators_in m p s True"
  by (auto simp: spectators_in_def isPlayer_def split: option.splits)

lemma cachable_range:
  "cachable (low_range maxViewportX minX) (high_range maxViewportX maxX) (low_range maxViewportY minY)
     (high_range maxViewportY maxY) multifloor \<Longrightarrow> query_range p multifloor minX maxX minY maxY = default_range p"
  by (simp add: cachable_def default_range_def query_range_def low_range_def high_range_def)

lemma lookup_caches_exact:
  assumes "caches_ok m" "lookup_caches [] p onlyPlayers m = Some v"
  shows "distinct v \<and> set v = spectators_in m p (default_range p) onlyPlayers"
proof -
  have C: "spectatorCache m p = Some u \<Longrightarrow> distinct u \<and> set u = spectators_in m p (default_range p) False"
    "playersSpectatorCache m p = Some u \<Longrightarrow> distinct u \<and> set u = spectators_in m p (default_range p) True" for u
    using assms(1) by (simp_all add: caches_ok_def cached_ok_def)
  show ?thesis
  proof (cases "if onlyPlayers then playersSpectatorCache m p else None")
    case (Some u)
    then show ?thesis using assms(2) C(2) [of u] by (auto simp: lookup_caches_def from_cache_def split: if_splits)
  next
    case None
    then obtain u where u: "spectatorCache m p = Some u" "v = (if \<not> onlyPlayers then u else filter (isPlayer m) u)"
      using assms(2) by (auto simp: lookup_caches_def from_cache_def split: option.splits)
    with C(1) [of u] players_among [of m p "default_range p"] show ?thesis by auto
  qed
qed

lemma store_result_ok:
  assumes "caches_ok m" "distinct v" "set v = spectators_in m p (default_range p) onlyPlayers"
  shows "caches_ok (store_result p onlyPlayers v m)"
proof -
  have "cached_ok (store_result p onlyPlayers v m) = cached_ok m"
    by (rule cached_ok_creatures) (simp add: store_result_def)
  then show ?thesis
    using assms by (cases onlyPlayers) (simp_all add: caches_ok_def store_result_def cached_ok_put)
qed

lemma store_result_frame [simp]:
  "root (store_result p b v m) = root m" "creatures (store_result p b v m) = creatures m"
  by (simp_all add: store_result_def)

lemma getSpectators_exact:
  assumes ok: "map_ok m" "caches_ok m" and z: "unat (pos_z p) < MAP_MAX_LAYERS"
    and q: "getSpectators [] p multifloor onlyPlayers minX maxX minY maxY m = (v, m')"
  shows "distinct v \<and> set v = spectators_in m p (query_range p multifloor minX maxX minY maxY) onlyPlayers \<and>
     caches_ok m' \<and> root m' = root m \<and> creatures m' = creatures m"
proof -
  define cacheResult where "cacheResult \<longleftrightarrow> cachable (low_range maxViewportX minX) (high_range maxViewportX maxX)
      (low_range maxViewportY minY) (high_range maxViewportY maxY) multifloor"
  define w where "w = getSpectatorsInternal [] p (low_range maxViewportX minX) (high_range maxViewportX maxX)
      (low_range maxViewportY minY) (high_range maxViewportY maxY)
      (fst (floor_range p multifloor)) (snd (floor_range p multifloor)) onlyPlayers m"
  have w: "distinct w" "set w = spectators_in m p (query_range p multifloor minX maxX minY maxY) onlyPlayers"
    unfolding w_def query_range_def using getSpectatorsInternal_exact [OF ok(1)] by blast+
  have default: "cacheResult \<Longrightarrow> query_range p multifloor minX maxX minY maxY = default_range p"
    unfolding cacheResult_def by (rule cachable_range)
  have get: "(v, m') = (case if cacheResult then lookup_caches [] p onlyPlayers m else None of
       Some u \<Rightarrow> (u, m) | None \<Rightarrow> (w, if cacheResult then store_result p onlyPlayers w m else m))"
    using z unfolding q [symmetric] getSpectators_def Let_def case_prod_beta cacheResult_def w_def by simp
  show ?thesis
  proof (cases "if cacheResult then lookup_caches [] p onlyPlayers m else None")
    case (Some u)
    then have "cacheResult" "lookup_caches [] p onlyPlayers m = Some v" "m' = m"
      using get by (auto split: if_splits)
    then show ?thesis using lookup_caches_exact [OF ok(2)] default ok by simp
  next
    case None
    then have "v = w" "m' = (if cacheResult then store_result p onlyPlayers w m else m)"
      using get by auto
    then show ?thesis using w default ok store_result_ok [OF ok(2), of w p onlyPlayers] by auto
  qed
qed

section \<open>Setting tiles\<close>

text \<open>What links do not touch in a leaf.\<close>

definition leaf_rest :: "'i map_leaf \<Rightarrow> (nat \<Rightarrow> 'i floor option) \<times> nat list \<times> nat list" where
  "leaf_rest l = (floors l, creature_list l, player_list l)"

definition rest_at :: "'i map_leaf qtree \<Rightarrow> u32 \<Rightarrow> u32 \<Rightarrow> ((nat \<Rightarrow> 'i floor option) \<times> nat list \<times> nat list) option" where
  "rest_at r x y = map_option leaf_rest (getLeaf r x y)"

lemma leaf_rest_relink [simp]: "leaf_rest (relink r x y u v l) = leaf_rest l"
  by (simp add: leaf_rest_def relink_def)

lemma rest_link_leaf: "full DEPTH r \<Longrightarrow> rest_at (link_leaf x y r) u v = rest_at r u v"
  by (simp add: rest_at_def get_link_leaf(1) option.map_comp comp_def)

text \<open>The leaf of a tile that is set.\<close>

definition prepare_leaf :: "u32 \<Rightarrow> u32 \<Rightarrow> 'i map_leaf qtree \<Rightarrow> 'i map_leaf qtree" where
  "prepare_leaf x y r = (let (r, newLeaf) = createLeaf new_leaf x y 15 r in if newLeaf then link_leaf x y r else r)"

lemma setTile_prepare:
  "setTile addThing x y z t m =
     (if unat z \<ge> MAP_MAX_LAYERS then m
      else m\<lparr>root := modifyLeaf (put_tile addThing x y (unat z) t) (ucast x) (ucast y)
                     (prepare_leaf (ucast x) (ucast y) (root m))\<rparr>)"
  by (simp add: setTile_def prepare_leaf_def Let_def case_prod_beta)

lemma prepare_leaf:
  assumes "links_ok r"
  shows "links_ok (prepare_leaf x y r)"
    and "rest_at (prepare_leaf x y r) u v =
      (if same_cell DEPTH x y u v then Some (case rest_at r u v of None \<Rightarrow> leaf_rest new_leaf | Some w \<Rightarrow> w) else rest_at r u v)"
proof -
  obtain r' newLeaf where r': "createLeaf new_leaf x y 15 r = (r', newLeaf)" by fastforce
  show "links_ok (prepare_leaf x y r)" using links_ok_create [OF assms r'] by (simp add: prepare_leaf_def r')
  have full: "full DEPTH r" using assms by (simp add: links_ok_def)
  have full': "full DEPTH r'" using quadtree.ok_create [OF full, of new_leaf x y] r' by simp
  have "getLeaf r' u v = (if same_cell DEPTH x y u v then or_new new_leaf (getLeaf r u v) else getLeaf r u v)"
    using quadtree.get_create [OF full, of new_leaf x y u v] r' by simp
  then have "rest_at r' u v =
      (if same_cell DEPTH x y u v then Some (case rest_at r u v of None \<Rightarrow> leaf_rest new_leaf | Some w \<Rightarrow> w) else rest_at r u v)"
    by (simp add: rest_at_def split: option.split)
  then show "rest_at (prepare_leaf x y r) u v =
      (if same_cell DEPTH x y u v then Some (case rest_at r u v of None \<Rightarrow> leaf_rest new_leaf | Some w \<Rightarrow> w) else rest_at r u v)"
    by (simp add: prepare_leaf_def r' rest_link_leaf [OF full'])
qed

lemma lists_ok_rest: "leaf_rest l = leaf_rest l' \<Longrightarrow> lists_ok m x y l = lists_ok m x y l'"
  by (simp add: leaf_rest_def lists_ok_def)

lemma put_tile_links [simp]: "leafS (put_tile addThing x y z t l) = leafS l" "leafE (put_tile addThing x y z t l) = leafE l"
  "creature_list (put_tile addThing x y z t l) = creature_list l" "player_list (put_tile addThing x y z t l) = player_list l"
  by (simp_all add: put_tile_def Let_def)

lemma put_tile_lists [simp]: "lists_ok m u v (put_tile addThing x y z t l) = lists_ok m u v l"
  by (simp add: lists_ok_def)

lemma setTile_ok:
  assumes ok: "map_ok m"
  shows "map_ok (setTile addThing x y z t m)"
proof (cases "unat z \<ge> MAP_MAX_LAYERS")
  case True
  with ok show ?thesis by (simp add: setTile_def)
next
  case False
  let ?x = "ucast x :: u32" and ?y = "ucast y :: u32"
  let ?r = "prepare_leaf ?x ?y (root m)"
  define r' where "r' = modifyLeaf (put_tile addThing x y (unat z) t) ?x ?y ?r"
  note D = map_okD [OF ok]
  have links: "links_ok ?r" by (rule prepare_leaf [OF D(1)])
  then have full: "full DEPTH ?r" by (simp add: links_ok_def)
  have get: "getLeaf r' u v = (if same_cell DEPTH ?x ?y u v then map_option (put_tile addThing x y (unat z) t) (getLeaf ?r u v) else getLeaf ?r u v)" for u v
    by (simp add: r'_def quadtree.get_modify [OF full])
  have lists: "lists_ok m u v l" if "getLeaf ?r u v = Some l" for u v l
  proof (cases "getLeaf (root m) u v")
    case (Some l0)
    then have "leaf_rest l = leaf_rest l0"
      using prepare_leaf(2) [OF D(1), of ?x ?y u v] that by (simp add: rest_at_def split: if_splits)
    then have "lists_ok m u v l = lists_ok m u v l0" by (rule lists_ok_rest)
    with D(3) [OF Some] show ?thesis by simp
  next
    case None
    then have "leaf_rest l = leaf_rest new_leaf"
      using prepare_leaf(2) [OF D(1), of ?x ?y u v] that by (simp add: rest_at_def split: if_splits)
    then have "lists_ok m u v l = lists_ok m u v new_leaf" by (rule lists_ok_rest)
    moreover have "\<not> in_cell m c u v" for c using None D(4) by blast
    ultimately show ?thesis by (simp add: lists_ok_def new_leaf_def)
  qed
  have "lists_ok m u v l" if "getLeaf r' u v = Some l" for u v l
    using that lists by (auto simp: get split: if_splits)
  moreover have "links_ok r'" unfolding r'_def by (rule links_ok_modify [OF links]) simp_all
  moreover have "getLeaf r' u v \<noteq> None" if "in_cell m c u v" for c u v
  proof -
    have "rest_at (root m) u v \<noteq> None" using D(4) [OF that] by (simp add: rest_at_def)
    then have "rest_at ?r u v \<noteq> None" by (subst prepare_leaf(2) [OF D(1)]) (simp del: not_None_eq)
    then show ?thesis by (auto simp: get rest_at_def)
  qed
  moreover have "in_cell (m\<lparr>root := r'\<rparr>) = in_cell m" "lists_ok (m\<lparr>root := r'\<rparr>) = lists_ok m"
    by (auto simp: fun_eq_iff in_cell_def lists_ok_def isPlayer_def)
  ultimately have "map_ok (m\<lparr>root := r'\<rparr>)" by (simp add: map_ok_def)
  with False show ?thesis by (simp add: setTile_prepare r'_def)
qed

lemma setTile_frame [simp]:
  "creatures (setTile addThing x y z t m) = creatures m" "spectatorCache (setTile addThing x y z t m) = spectatorCache m"
  "playersSpectatorCache (setTile addThing x y z t m) = playersSpectatorCache m"
  by (simp_all add: setTile_prepare)

text \<open>The tile of a position, from the part of the leaf that links leave alone.\<close>

lemma getTile_rest:
  "full DEPTH (root m) \<Longrightarrow> getTile m x y z =
     (if unat z \<ge> MAP_MAX_LAYERS then None
      else case rest_at (root m) (ucast x) (ucast y) of None \<Rightarrow> None
        | Some (fs, _) \<Rightarrow> createFloor (unat z) fs (unat (x AND FLOOR_MASK)) (unat (y AND FLOOR_MASK)))"
  by (auto simp: getTile_def static_getLeaf rest_at_def leaf_rest_def createFloor_def split: option.split)

lemma and_mask: "unat (x AND FLOOR_MASK) = unat x mod 8"
proof -
  have "x AND FLOOR_MASK = take_bit 3 x" by (simp add: FLOOR_MASK_def take_bit_eq_mask mask_eq_exp_minus_1)
  then have "unat (x AND FLOOR_MASK) = take_bit 3 (unat x)" by (simp only: unsigned_take_bit_eq)
  then show ?thesis by (simp add: take_bit_eq_mod)
qed

lemma u16_from_cell: "cell (ucast x) = cell (ucast (x' :: u16)) \<and> unat (x AND FLOOR_MASK) = unat (x' AND FLOOR_MASK) \<longleftrightarrow> x = x'"
proof -
  have "uint x = uint x'" if "uint x div 8 = uint x' div 8" "unat x mod 8 = unat x' mod 8"
  proof -
    have "uint x mod 8 = uint x' mod 8" using that(2) by (metis of_nat_mod of_nat_numeral uint_nat)
    with that(1) show ?thesis by (metis div_mult_mod_eq)
  qed
  then show ?thesis by (auto simp: cell_ucast and_mask simp flip: word_uint_eq_iff)
qed

lemma getTile_setTile:
  assumes ok: "map_ok m"
  shows "getTile (setTile addThing x y z t m) x' y' z' =
    (if x' = x \<and> y' = y \<and> z' = z \<and> unat z < MAP_MAX_LAYERS
     then Some (case getTile m x y z of None \<Rightarrow> t | Some old \<Rightarrow> merge_tile addThing t old)
     else getTile m x' y' z')"
proof (cases "unat z \<ge> MAP_MAX_LAYERS \<or> unat z' \<ge> MAP_MAX_LAYERS")
  case True
  then show ?thesis by (auto simp: setTile_def getTile_def)
next
  case False
  let ?x = "ucast x :: u32" and ?y = "ucast y :: u32" and ?x' = "ucast x' :: u32" and ?y' = "ucast y' :: u32"
  let ?r = "prepare_leaf ?x ?y (root m)" and ?m = "setTile addThing x y z t m"
  note D = map_okD [OF ok]
  have full: "full DEPTH ?r" using prepare_leaf(1) [OF D(1)] by (simp add: links_ok_def)
  have full': "full DEPTH (root ?m)" by (rule map_okD(2) [OF setTile_ok [OF ok]])
  have root: "root ?m = modifyLeaf (put_tile addThing x y (unat z) t) ?x ?y ?r"
    using False by (simp add: setTile_prepare)
  have rest: "rest_at (root ?m) ?x' ?y' =
     (if same_cell DEPTH ?x ?y ?x' ?y' then
        (case rest_at (root m) ?x' ?y' of
           None \<Rightarrow> Some (leaf_rest (put_tile addThing x y (unat z) t new_leaf))
         | Some (fs, cs, ps) \<Rightarrow> Some (leaf_rest (put_tile addThing x y (unat z) t (new_leaf\<lparr>floors := fs, creature_list := cs, player_list := ps\<rparr>))))
      else rest_at (root m) ?x' ?y')"
  proof -
    have put: "leaf_rest (put_tile addThing x y (unat z) t l) = leaf_rest (put_tile addThing x y (unat z) t l')"
      if "leaf_rest l = leaf_rest l'" for l l'
      using that by (simp add: leaf_rest_def put_tile_def Let_def)
    show ?thesis
    proof (cases "same_cell DEPTH ?x ?y ?x' ?y'")
      case False
      then show ?thesis
        using prepare_leaf(2) [OF D(1), of ?x ?y ?x' ?y'] by (simp add: rest_at_def root quadtree.get_modify [OF full])
    next
      case True
      then obtain l where l: "getLeaf ?r ?x' ?y' = Some l"
        "leaf_rest l = (case rest_at (root m) ?x' ?y' of None \<Rightarrow> leaf_rest new_leaf | Some w \<Rightarrow> w)"
        using prepare_leaf(2) [OF D(1), of ?x ?y ?x' ?y'] by (auto simp: rest_at_def)
      have "rest_at (root ?m) ?x' ?y' = Some (leaf_rest (put_tile addThing x y (unat z) t l))"
        using True by (simp add: rest_at_def root quadtree.get_modify [OF full] l(1))
      also have "\<dots> = (case rest_at (root m) ?x' ?y' of
           None \<Rightarrow> Some (leaf_rest (put_tile addThing x y (unat z) t new_leaf))
         | Some (fs, cs, ps) \<Rightarrow> Some (leaf_rest (put_tile addThing x y (unat z) t (new_leaf\<lparr>floors := fs, creature_list := cs, player_list := ps\<rparr>))))"
        using l(2) by (auto intro!: put simp: leaf_rest_def [of "new_leaf\<lparr>floors := _, creature_list := _, player_list := _\<rparr>"] split: option.split)
      finally show ?thesis using True by simp
    qed
  qed
  have same_rest: "rest_at (root m) ?x' ?y' = rest_at (root m) ?x ?y" if "same_cell DEPTH ?x ?y ?x' ?y'"
    using quadtree.same_get [OF D(2) that] by (simp add: rest_at_def)
  have eq: "x' = x \<and> y' = y \<longleftrightarrow> same_cell DEPTH ?x ?y ?x' ?y' \<and>
      unat (x' AND FLOOR_MASK) = unat (x AND FLOOR_MASK) \<and> unat (y' AND FLOOR_MASK) = unat (y AND FLOOR_MASK)"
    using u16_from_cell [of x x'] u16_from_cell [of y y'] by (auto simp: same_cell_cell)
  have z: "unat z' = unat z \<longleftrightarrow> z' = z" by (simp add: word_unat_eq_iff)
  show ?thesis
  proof (cases "same_cell DEPTH ?x ?y ?x' ?y'")
    case False
    then have "\<not> (x' = x \<and> y' = y)" using eq by blast
    then show ?thesis using False rest by (auto simp: getTile_rest [OF full'] getTile_rest [OF D(2)])
  next
    case True
    show ?thesis
      using False True rest same_rest [OF True] eq z
      by (cases "rest_at (root m) ?x ?y")
        (auto simp: getTile_rest [OF full'] getTile_rest [OF D(2)] leaf_rest_def put_tile_def createFloor_def new_leaf_def Let_def
          split: option.splits)
  qed
qed

lemma getTile_new_map: "getTile (new_map :: 'i gmap) x y z = None"
proof -
  have "rest_at (root (new_map :: 'i gmap)) u v = None" for u v
    by (simp add: rest_at_def new_map_def getLeaf_new_node)
  then show ?thesis by (simp add: getTile_rest [OF map_okD(2) [OF new_map_ok]])
qed

section \<open>Reachable maps\<close>

lemma caches_clear: "cached_ok (clear_caches b m\<lparr>creatures := C\<rparr>) True (playersSpectatorCache (clear_caches b m))"
  if "cached_ok m True (playersSpectatorCache m)" "\<And>c. c \<in> dom C \<union> dom (creatures m) \<Longrightarrow> \<not> b \<Longrightarrow>
     C c = creatures m c \<or> (\<forall>p. C c \<noteq> Some (p, True) \<and> creatures m c \<noteq> Some (p, True))" for C b
proof (cases b)
  case True
  then show ?thesis by simp
next
  case False
  have same: "(case C c of None \<Rightarrow> False | Some (p, b) \<Rightarrow> in_scan q s p \<and> b) \<longleftrightarrow>
      (case creatures m c of None \<Rightarrow> False | Some (p, b) \<Rightarrow> in_scan q s p \<and> b)" for c q s
    using that(2) [of c] False by (cases "C c"; cases "creatures m c") fastforce+
  have "spectators_in (clear_caches b m\<lparr>creatures := C\<rparr>) q s True = spectators_in m q s True" for q s
    using same by (simp add: spectators_in_def cong: option.case_cong)
  with that(1) False show ?thesis by (simp add: cached_ok_def)
qed

text \<open>A state whose caches were cleared when the creature \<open>c\<close> changed.\<close>

lemma caches_ok_change:
  assumes ok: "caches_ok m" and C: "creatures m' = (creatures m)(c := v)"
    and b: "\<And>p. creatures m c = Some (p, True) \<Longrightarrow> b" "\<And>p. v = Some (p, True) \<Longrightarrow> b"
    and caches: "spectatorCache m' = (\<lambda>_. None)" "playersSpectatorCache m' = (if b then (\<lambda>_. None) else playersSpectatorCache m)"
  shows "caches_ok m'"
proof -
  have "cached_ok (clear_caches b m\<lparr>creatures := (creatures m)(c := v)\<rparr>) True (playersSpectatorCache (clear_caches b m))"
    using ok b by (intro caches_clear) (auto simp: caches_ok_def)
  moreover have "cached_ok (clear_caches b m\<lparr>creatures := (creatures m)(c := v)\<rparr>) = cached_ok m'"
    by (rule cached_ok_creatures) (simp add: C)
  ultimately show ?thesis by (simp add: caches_ok_def caches)
qed

lemma place_caches:
  assumes "caches_ok m" "creatures m c = None" "place c b p m = Some m'"
  shows "caches_ok m'"
proof (rule caches_ok_change [OF assms(1), of m' c "Some (p, b)" b])
  show "creatures m' = (creatures m)(c := Some (p, b))" "spectatorCache m' = (\<lambda>_. None)"
    "playersSpectatorCache m' = (if b then (\<lambda>_. None) else playersSpectatorCache m)"
    using assms(3) by (auto simp: place_def Let_def at_leaf_def split: option.splits)
qed (use assms in auto)

lemma unplace_caches:
  assumes "caches_ok m" "unplace c m = Some m'"
  shows "caches_ok m'"
proof -
  obtain p b m1 where c: "creatures m c = Some (p, b)" and m1: "at_leaf (removeCreature c b) p m = Some m1"
    and m': "m' = clear_caches b (m1\<lparr>creatures := (creatures m1)(c := None)\<rparr>)"
    using assms(2) by (cases "creatures m c") (auto simp: unplace_def)
  show ?thesis
    using c at_leaf_creatures [OF m1] at_leaf_caches [OF m1]
    by (intro caches_ok_change [OF assms(1), of m' c None b]) (auto simp: m')
qed

lemma moveCreature_ok:
  assumes ok: "map_ok m" "caches_ok m" and z: "\<And>p b. creatures m c = Some (p, b) \<Longrightarrow> unat (pos_z p) < MAP_MAX_LAYERS"
    "unat (pos_z q) < MAP_MAX_LAYERS"
    and move: "moveCreature c q m = Some (v, m')"
  shows "map_ok m' \<and> caches_ok m' \<and> (\<exists>p b. creatures m c = Some (p, b) \<and> creatures m' = (creatures m)(c \<mapsto> (q, b)) \<and>
     set v = spectators_in m p (default_range p) False \<union> spectators_in m q (default_range q) False)"
proof -
  obtain p b where c: "creatures m c = Some (p, b)" using move by (auto simp: moveCreature_def split: option.splits)
  obtain v1 m1 where q1: "getSpectators [] p True False 0 0 0 0 m = (v1, m1)" by fastforce
  obtain v2 m2 where q2: "getSpectators [] q True False 0 0 0 0 m1 = (v2, m2)" by fastforce
  note E1 = getSpectators_exact [OF ok z(1) [OF c] q1]
  have ok1: "map_ok m1" using E1 ok(1) map_ok_cong [of m1 m] by simp
  note E2 = getSpectators_exact [OF ok1 _ z(2) q2]
  have ok2: "map_ok m2" using E1 E2 ok1 map_ok_cong [of m2 m1] by simp
  have C2: "creatures m2 = creatures m" and caches2: "caches_ok m2" using E1 E2 by simp_all
  define m3 where "m3 = clear_caches b m2"
  have ok3: "map_ok m3" by (simp add: m3_def ok2)
  have C3: "creatures m3 = creatures m" by (simp add: m3_def C2)
  define step where "step = (if \<not> same_cell DEPTH (ucast (pos_x p)) (ucast (pos_y p)) (ucast (pos_x q)) (ucast (pos_y q))
      then Option.bind (at_leaf (removeCreature c b) p m3) (at_leaf (addCreature c b) q) else Some m3)"
  have "moveCreature c q m = map_option (\<lambda>m. (addSpectators v1 v2, clear_caches b (m\<lparr>creatures := (creatures m)(c \<mapsto> (q, b))\<rparr>))) step"
    by (simp add: moveCreature_def c q1 q2 Let_def m3_def step_def)
  then obtain m4 where m4: "step = Some m4" and m': "m' = clear_caches b (m4\<lparr>creatures := (creatures m4)(c \<mapsto> (q, b))\<rparr>)"
    and v: "v = addSpectators v1 v2"
    using move by (cases step) auto
  have m4_frame: "creatures m4 = creatures m \<and> spectatorCache m4 = spectatorCache m3 \<and>
      playersSpectatorCache m4 = playersSpectatorCache m3"
  proof (cases "same_cell DEPTH (ucast (pos_x p)) (ucast (pos_y p)) (ucast (pos_x q)) (ucast (pos_y q))")
    case True
    then show ?thesis using m4 C3 by (simp add: step_def)
  next
    case False
    then obtain mid where "at_leaf (removeCreature c b) p m3 = Some mid" "at_leaf (addCreature c b) q mid = Some m4"
      using m4 by (auto simp: step_def bind_eq_Some_conv)
    then show ?thesis using C3 at_leaf_creatures at_leaf_caches by metis
  qed
  have "map_ok (m4\<lparr>creatures := (creatures m)(c \<mapsto> (q, b))\<rparr>)"
    using m4 map_ok_same_cell [OF ok3, of c p b q] map_ok_other_cell [OF ok3, of c p b] C3 c
    by (auto simp: step_def split: if_splits bind_splits)
  then have "map_ok m'" by (simp add: m' m4_frame)
  moreover have "caches_ok m'"
  proof (rule caches_ok_change [OF caches2, of m' c "Some (q, b)" b])
    show "creatures m' = (creatures m2)(c := Some (q, b))" by (simp add: m' m4_frame C2)
    show "playersSpectatorCache m' = (if b then \<lambda>_. None else playersSpectatorCache m2)"
      by (simp add: m' m4_frame m3_def)
  qed (use c in \<open>auto simp: m' C2\<close>)
  moreover have "set v = set v1 \<union> set v2"
  proof -
    have "set (fold (\<lambda>c vec. if c \<in> set vec then vec else vec @ [c]) ys xs) = set xs \<union> set ys" for xs ys :: "nat list"
      by (induction ys arbitrary: xs) auto
    then show ?thesis by (simp add: v addSpectators_def)
  qed
  moreover have "spectators_in m1 q s False = spectators_in m q s False" for s
    using E1 by (simp add: spectators_in_def)
  ultimately show ?thesis
    using c E1 E2 m4_frame by (auto simp: m' default_range_def)
qed

text \<open>What happens to a map, from the empty one: tiles are set, creatures enter, move and leave,
  spectators are asked for, always into an empty vector as all callers do.\<close>

inductive map_reachable :: "('i \<Rightarrow> 'i mtile \<Rightarrow> 'i mtile) \<Rightarrow> 'i gmap \<Rightarrow> bool" for addThing where
  reach_new: "map_reachable addThing new_map"
| reach_tile: "map_reachable addThing m \<Longrightarrow> map_reachable addThing (setTile addThing x y z t m)"
| reach_place: "map_reachable addThing m \<Longrightarrow> creatures m c = None \<Longrightarrow> unat (pos_z p) < MAP_MAX_LAYERS \<Longrightarrow>
    place c b p m = Some m' \<Longrightarrow> map_reachable addThing m'"
| reach_unplace: "map_reachable addThing m \<Longrightarrow> unplace c m = Some m' \<Longrightarrow> map_reachable addThing m'"
| reach_move: "map_reachable addThing m \<Longrightarrow> unat (pos_z q) < MAP_MAX_LAYERS \<Longrightarrow>
    moveCreature c q m = Some (v, m') \<Longrightarrow> map_reachable addThing m'"
| reach_query: "map_reachable addThing m \<Longrightarrow> getSpectators [] p multifloor onlyPlayers minX maxX minY maxY m = (v, m') \<Longrightarrow>
    map_reachable addThing m'"

definition on_floors :: "'i gmap \<Rightarrow> bool" where
  "on_floors m \<longleftrightarrow> (\<forall>c p b. creatures m c = Some (p, b) \<longrightarrow> unat (pos_z p) < MAP_MAX_LAYERS)"

lemma getSpectators_high:
  "\<not> unat (pos_z p) < MAP_MAX_LAYERS \<Longrightarrow> getSpectators w p multifloor onlyPlayers minX maxX minY maxY m = (w, m)"
  by (simp add: getSpectators_def)

lemma reachable_ok: "map_reachable addThing m \<Longrightarrow> map_ok m \<and> caches_ok m \<and> on_floors m"
proof (induction rule: map_reachable.induct)
  case reach_new
  then show ?case by (simp add: new_map_ok caches_ok_def on_floors_def) (simp add: new_map_def)
next
  case (reach_tile m x y z t)
  then show ?case
    using setTile_ok [of m addThing x y z t] cached_ok_creatures [of "setTile addThing x y z t m" m]
    by (simp add: caches_ok_def on_floors_def)
next
  case (reach_place m c p b m')
  then show ?case using place_ok [of m c b p m'] place_caches [of m c b p m'] by (auto simp: on_floors_def)
next
  case (reach_unplace m c m')
  then show ?case using unplace_ok [of m c m'] unplace_caches [of m c m'] by (auto simp: on_floors_def split: if_splits)
next
  case (reach_move m q c v m')
  then show ?case
    using moveCreature_ok [of m c q v m'] by (fastforce simp: on_floors_def split: if_splits)
next
  case (reach_query m p multifloor onlyPlayers minX maxX minY maxY v m')
  show ?case
  proof (cases "unat (pos_z p) < MAP_MAX_LAYERS")
    case True
    then have "caches_ok m' \<and> root m' = root m \<and> creatures m' = creatures m"
      using getSpectators_exact [OF _ _ True reach_query(2)] reach_query.IH by simp
    then show ?thesis using reach_query.IH map_ok_cong [of m' m] by (simp add: on_floors_def)
  next
    case False
    then have "m' = m" using reach_query(2) by (simp add: getSpectators_high)
    then show ?thesis using reach_query.IH by simp
  qed
qed

section \<open>The theorems\<close>

text \<open>
  C16: tiles.  On every reachable map, setting a tile changes the tile of that position only: a free
  position gets the new tile, a used one keeps its tile with the things of the new one added; a
  floor above the limit is refused.  No position is lost through the tree.
\<close>

theorem tile_store:
  assumes "map_reachable addThing m"
  shows "getTile (setTile addThing x y z t m) x' y' z' =
    (if x' = x \<and> y' = y \<and> z' = z \<and> unat z < 16
     then Some (case getTile m x y z of None \<Rightarrow> t | Some old \<Rightarrow> merge_tile addThing t old)
     else getTile m x' y' z')"
  using getTile_setTile [of m addThing x y z t x' y' z'] reachable_ok [OF assms] by (simp add: MAP_MAX_LAYERS_def)

lemma tile_store_witness:
  "getTile (setTile (\<lambda>i t. t\<lparr>tile_items := i # tile_items t\<rparr>) 1000 1001 7 \<lparr>ground = Some (5::nat), tile_items = []\<rparr> new_map) 1000 1001 7
     = Some \<lparr>ground = Some 5, tile_items = []\<rparr> \<and>
   getTile (setTile (\<lambda>i t. t\<lparr>tile_items := i # tile_items t\<rparr>) 1000 1001 7 \<lparr>ground = Some (5::nat), tile_items = []\<rparr> new_map) 1000 1001 6 = None"
  by (simp add: tile_store [OF map_reachable.reach_new] getTile_new_map)

text \<open>
  C17: spectators.  On every reachable map a query from a valid floor returns, without repetition,
  exactly the creatures (or players) whose position lies in the queried window of the queried
  floors, shifted by one field for each floor of difference, whether the answer was scanned from
  the leaves or found in one of the two caches; and the map stays as it is.
\<close>

theorem spectators_exact:
  assumes "map_reachable addThing m" "unat (pos_z p) < MAP_MAX_LAYERS"
    and "getSpectators [] p multifloor onlyPlayers minX maxX minY maxY m = (v, m')"
  shows "distinct v \<and> root m' = root m \<and> creatures m' = creatures m \<and>
    set v = {c. case creatures m c of None \<Rightarrow> False
       | Some (q, isP) \<Rightarrow> in_scan p (query_range p multifloor minX maxX minY maxY) q \<and> (onlyPlayers \<longrightarrow> isP)}"
  using getSpectators_exact [OF _ _ assms(2,3)] reachable_ok [OF assms(1)] by (simp add: spectators_in_def)

text \<open>A map with two tiles, a player and a monster.\<close>

definition sample_tile :: "nat mtile" where
  "sample_tile = \<lparr>ground = Some 5, tile_items = []\<rparr>"

definition add_on_top :: "nat \<Rightarrow> nat mtile \<Rightarrow> nat mtile" where
  "add_on_top i t = t\<lparr>tile_items := i # tile_items t\<rparr>"

definition sample_map :: "nat gmap" where
  "sample_map = setTile add_on_top 100 100 7 sample_tile (setTile add_on_top 107 100 7 sample_tile new_map)"

lemma place_Some:
  assumes "map_ok m" "getTile m (pos_x p) (pos_y p) z \<noteq> None"
  shows "\<exists>m'. place c b p m = Some m'"
proof -
  have full: "full DEPTH (root m)" by (rule map_okD(2) [OF assms(1)])
  have "rest_at (root m) (ucast (pos_x p)) (ucast (pos_y p)) \<noteq> None"
    using assms(2) by (auto simp: getTile_rest [OF full] split: if_splits option.splits)
  then have "getLeaf (root m) (ucast (pos_x p)) (ucast (pos_y p)) \<noteq> None" by (simp add: rest_at_def)
  then show ?thesis by (auto simp: place_def Let_def at_leaf_def static_getLeaf full)
qed

lemma sample_map_reachable: "map_reachable add_on_top sample_map"
  unfolding sample_map_def by (intro map_reachable.intros)

lemma addCreature_floors: "floors (addCreature c b l) = floors l"
  by (simp add: addCreature_def Let_def)

lemma place_tiles:
  assumes "map_ok m" "creatures m c = None" "place c b p m = Some m'"
  shows "getTile m' x y z = getTile m x y z"
proof -
  have full: "full DEPTH (root m)" "full DEPTH (root m')"
    using map_okD(2) assms(1) place_ok(1) [OF assms] by blast+
  have "root m' = modifyLeaf (addCreature c b) (ucast (pos_x p)) (ucast (pos_y p)) (root m)"
    using assms(3) by (auto simp: place_def Let_def at_leaf_def split: option.splits)
  then have "map_option fst (rest_at (root m') u v) = map_option fst (rest_at (root m) u v)" for u v
    by (simp add: rest_at_def quadtree.get_modify [OF full(1)] option.map_comp comp_def leaf_rest_def addCreature_floors)
  from this [of "ucast x" "ucast y"] show ?thesis
    by (auto simp: getTile_rest [OF full(1)] getTile_rest [OF full(2)] split: option.split)
qed

lemma sample_tiles: "getTile sample_map 100 100 7 \<noteq> None" "getTile sample_map 107 100 7 \<noteq> None"
proof -
  note R = map_reachable.reach_new [of add_on_top] and ok = reachable_ok
  have R1: "map_ok (setTile add_on_top 107 100 7 sample_tile new_map)" by (rule setTile_ok [OF new_map_ok])
  show "getTile sample_map 100 100 7 \<noteq> None" "getTile sample_map 107 100 7 \<noteq> None"
    by (simp_all add: sample_map_def getTile_setTile [OF R1] getTile_setTile [OF new_map_ok] MAP_MAX_LAYERS_def)
qed

lemma sample_creatures: "creatures sample_map = (\<lambda>_. None)"
  by (simp add: sample_map_def) (simp add: new_map_def)

lemma two_creatures:
  "\<exists>m. map_reachable add_on_top m \<and> creatures m = [10 \<mapsto> (Position 100 100 7, True), 11 \<mapsto> (Position 107 100 7, False)]"
proof -
  let ?p = "Position 100 100 7" and ?q = "Position 107 100 7"
  have ok: "map_ok sample_map" using reachable_ok [OF sample_map_reachable] by simp
  obtain m1 where m1: "place 10 True ?p sample_map = Some m1"
    using place_Some [OF ok, of ?p 7 10 True] sample_tiles by auto
  have new: "creatures sample_map 10 = None" by (simp add: sample_creatures)
  note ok1 = place_ok [OF ok new m1]
  obtain m2 where m2: "place 11 False ?q m1 = Some m2"
    using place_Some [OF ok1(1), of ?q 7 11 False] place_tiles [OF ok new m1] sample_tiles by auto
  have new1: "creatures m1 11 = None" by (simp add: ok1(2) sample_creatures)
  have "map_reachable add_on_top m1"
    using map_reachable.reach_place [OF sample_map_reachable new _ m1] by (simp add: MAP_MAX_LAYERS_def)
  then have "map_reachable add_on_top m2"
    using map_reachable.reach_place [OF _ new1 _ m2] by (simp add: MAP_MAX_LAYERS_def)
  moreover have "creatures m2 = [10 \<mapsto> (?p, True), 11 \<mapsto> (?q, False)]"
    by (simp add: place_ok(2) [OF ok1(1) new1 m2] ok1(2) sample_creatures)
  ultimately show ?thesis by blast
qed

lemma spectators_exact_witness:
  "\<exists>m :: nat gmap. map_reachable add_on_top m \<and>
     set (fst (getSpectators [] (Position 100 100 7) True False 0 0 0 0 m)) = {10, 11} \<and>
     set (fst (getSpectators [] (Position 100 100 7) True False 5 5 5 5 m)) = {10}"
proof -
  obtain m where m: "map_reachable add_on_top m"
    "creatures m = [10 \<mapsto> (Position 100 100 7, True), 11 \<mapsto> (Position 107 100 7, False)]"
    using two_creatures by blast
  have z: "unat (pos_z (Position 100 100 7)) < MAP_MAX_LAYERS" by (simp add: MAP_MAX_LAYERS_def)
  note E = spectators_exact [OF m(1) z surjective_pairing]
  have "set (fst (getSpectators [] (Position 100 100 7) True False 0 0 0 0 m)) = {10, 11}"
    using E [of True False 0 0 0 0]
    by (auto simp: m(2) in_scan_def query_range_def range_around_def low_range_def high_range_def floor_range_def
        maxViewportX_def maxViewportY_def getX_def getY_def getZ_def getOffsetZ_def Let_def split: if_splits)
  moreover have "set (fst (getSpectators [] (Position 100 100 7) True False 5 5 5 5 m)) = {10}"
    using E [of True False 5 5 5 5]
    by (auto simp: m(2) in_scan_def query_range_def range_around_def low_range_def high_range_def floor_range_def
        maxViewportX_def maxViewportY_def getX_def getY_def getZ_def getOffsetZ_def Let_def split: if_splits)
  ultimately show ?thesis using m(1) by blast
qed

end
