(* ===== verification/PropStream.thy ===== *)
theory PropStream
  imports Prelude
begin

text \<open>
  \<open>PropStream\<close> and \<open>PropWriteStream\<close> of \<open>src/src/fileloader.h\<close>: the byte streams in which the
  server keeps item attributes and conditions.  A stream is the list of the bytes that are left;
  a read that does not fit leaves the stream where it was, as the code does.
\<close>

type_synonym bytes = "u8 list"

datatype 'a read_result = Value 'a | Refused | OutOfBounds

text \<open>\<open>read<T>\<close> for an integer type of \<open>n\<close> bytes.\<close>

definition ps_read :: "nat \<Rightarrow> bytes \<Rightarrow> 'w::len word read_result \<times> bytes" where
  "ps_read n s = (if length s < n then (Refused, s) else (Value (of_le (take n s)), drop n s))"

definition ps_readString :: "bytes \<Rightarrow> bytes read_result \<times> bytes" where
  "ps_readString s =
     (case ps_read 2 s of
        (Value strLen, s) \<Rightarrow>
          (let n = unat (strLen :: u16)
           in if length s < n then (Refused, s) else (Value (take n s), drop n s))
      | (_, s) \<Rightarrow> (Refused, s))"

definition ps_skip :: "nat \<Rightarrow> bytes \<Rightarrow> bool \<times> bytes" where
  "ps_skip n s = (if length s < n then (False, s) else (True, drop n s))"

text \<open>Writing appends to the buffer.\<close>

definition ps_write :: "nat \<Rightarrow> 'w::len word \<Rightarrow> bytes" where
  "ps_write n w = le_bytes n w"

definition ps_writeString :: "bytes \<Rightarrow> bytes" where
  "ps_writeString str =
     (if length str > 65535 then ps_write 2 (0 :: u16)
      else ps_write 2 (of_nat (length str) :: u16) @ str)"

section \<open>Reading back what was written\<close>

named_theorems stream_simps \<open>reads of written bytes\<close>

lemma ps_read_write [stream_simps]:
  "LENGTH('a) \<le> 8 * n \<Longrightarrow> ps_read n (ps_write n (w :: 'a::len word) @ s) = (Value w, s)"
  by (simp add: ps_read_def ps_write_def of_le_le_bytes)

lemma ps_read_write_u32 [stream_simps]: "ps_read 4 (ps_write 4 (w :: u32) @ s) = (Value w, s)"
  by (rule ps_read_write) simp

lemma ps_read_write_u16 [stream_simps]: "ps_read 2 (ps_write 2 (w :: u16) @ s) = (Value w, s)"
  by (rule ps_read_write) simp

lemma ps_read_byte [stream_simps]: "ps_read (Suc 0) (b # s) = (Value (b :: u8), s)"
  by (simp add: ps_read_def)

lemma ps_read_byte_Nil [stream_simps]: "ps_read (Suc 0) [] = (Refused, [])"
  by (simp add: ps_read_def)

lemma ps_readString_write [stream_simps]:
  "length str \<le> 65535 \<Longrightarrow> ps_readString (ps_writeString str @ s) = (Value str, s)"
proof -
  assume "length str \<le> 65535"
  moreover from this have "unat (of_nat (length str) :: u16) = length str"
    by (simp add: unsigned_of_nat take_bit_nat_eq_self)
  ultimately show ?thesis
    by (simp add: ps_readString_def ps_writeString_def ps_read_write_u16 Let_def)
qed

text \<open>A string that does not fit its length field is written as the empty string.\<close>

lemma ps_readString_too_long:
  "length str > 65535 \<Longrightarrow> ps_readString (ps_writeString str @ s) = (Value [], s)"
  by (simp add: ps_readString_def ps_writeString_def ps_read_write_u16 Let_def)

lemma ps_skip_append [stream_simps]: "length b = n \<Longrightarrow> ps_skip n (b @ s) = (True, s)"
  by (auto simp: ps_skip_def)

lemma length_ps_write [simp]: "length (ps_write n w) = n"
  by (simp add: ps_write_def)

text \<open>Reads never lengthen the stream.\<close>

lemma ps_read_length: "ps_read n s = (r, s') \<Longrightarrow> length s' \<le> length s"
  by (auto simp: ps_read_def split: if_splits)

lemma ps_read_Value: "ps_read n s = (Value v, s') \<Longrightarrow> length s = n + length s'"
  by (auto simp: ps_read_def split: if_splits)

lemma ps_readString_length: "ps_readString s = (r, s') \<Longrightarrow> length s' \<le> length s"
  by (auto simp: ps_readString_def Let_def dest!: ps_read_length split: prod.splits read_result.splits if_splits)

lemma ps_read_outcomes: "fst (ps_read n s) \<noteq> OutOfBounds"
  by (simp add: ps_read_def)

end
