(* ===== verification/Conditions.thy ===== *)
theory Conditions
  imports PropStream
begin

text \<open>
  The conditions of creatures, \<open>src/src/condition.cpp\<close> and \<open>condition.h\<close>: the data of every
  class derived from \<open>Condition\<close>, how one is created, and the byte format in which
  \<open>iologindata.cpp\<close> stores a player's conditions between two logins.  A condition is a record of
  the members of the base class with a \<open>kind\<close> for the derived class.  Signed 32-bit members are
  kept as words and read with \<open>sint\<close> where the code compares them; a \<open>float\<close> is its bit pattern.
\<close>

section \<open>Attributes and types\<close>

text \<open>\<open>ConditionAttr_t\<close>.\<close>

definition CONDITIONATTR_TYPE :: u8 where "CONDITIONATTR_TYPE = 1"
definition CONDITIONATTR_ID :: u8 where "CONDITIONATTR_ID = 2"
definition CONDITIONATTR_TICKS :: u8 where "CONDITIONATTR_TICKS = 3"
definition CONDITIONATTR_HEALTHTICKS :: u8 where "CONDITIONATTR_HEALTHTICKS = 4"
definition CONDITIONATTR_HEALTHGAIN :: u8 where "CONDITIONATTR_HEALTHGAIN = 5"
definition CONDITIONATTR_MANATICKS :: u8 where "CONDITIONATTR_MANATICKS = 6"
definition CONDITIONATTR_MANAGAIN :: u8 where "CONDITIONATTR_MANAGAIN = 7"
definition CONDITIONATTR_DELAYED :: u8 where "CONDITIONATTR_DELAYED = 8"
definition CONDITIONATTR_OWNER :: u8 where "CONDITIONATTR_OWNER = 9"
definition CONDITIONATTR_INTERVALDATA :: u8 where "CONDITIONATTR_INTERVALDATA = 10"
definition CONDITIONATTR_SPEEDDELTA :: u8 where "CONDITIONATTR_SPEEDDELTA = 11"
definition CONDITIONATTR_FORMULA_MINA :: u8 where "CONDITIONATTR_FORMULA_MINA = 12"
definition CONDITIONATTR_FORMULA_MINB :: u8 where "CONDITIONATTR_FORMULA_MINB = 13"
definition CONDITIONATTR_FORMULA_MAXA :: u8 where "CONDITIONATTR_FORMULA_MAXA = 14"
definition CONDITIONATTR_FORMULA_MAXB :: u8 where "CONDITIONATTR_FORMULA_MAXB = 15"
definition CONDITIONATTR_LIGHTCOLOR :: u8 where "CONDITIONATTR_LIGHTCOLOR = 16"
definition CONDITIONATTR_LIGHTLEVEL :: u8 where "CONDITIONATTR_LIGHTLEVEL = 17"
definition CONDITIONATTR_LIGHTTICKS :: u8 where "CONDITIONATTR_LIGHTTICKS = 18"
definition CONDITIONATTR_LIGHTINTERVAL :: u8 where "CONDITIONATTR_LIGHTINTERVAL = 19"
definition CONDITIONATTR_SOULTICKS :: u8 where "CONDITIONATTR_SOULTICKS = 20"
definition CONDITIONATTR_SOULGAIN :: u8 where "CONDITIONATTR_SOULGAIN = 21"
definition CONDITIONATTR_SKILLS :: u8 where "CONDITIONATTR_SKILLS = 22"
definition CONDITIONATTR_STATS :: u8 where "CONDITIONATTR_STATS = 23"
definition CONDITIONATTR_OUTFIT :: u8 where "CONDITIONATTR_OUTFIT = 24"
definition CONDITIONATTR_PERIODDAMAGE :: u8 where "CONDITIONATTR_PERIODDAMAGE = 25"
definition CONDITIONATTR_ISBUFF :: u8 where "CONDITIONATTR_ISBUFF = 26"
definition CONDITIONATTR_SUBID :: u8 where "CONDITIONATTR_SUBID = 27"
definition CONDITIONATTR_ISAGGRESSIVE :: u8 where "CONDITIONATTR_ISAGGRESSIVE = 28"
definition CONDITIONATTR_DISABLEDEFENSE :: u8 where "CONDITIONATTR_DISABLEDEFENSE = 29"
definition CONDITIONATTR_SPECIALSKILLS :: u8 where "CONDITIONATTR_SPECIALSKILLS = 30"
definition CONDITIONATTR_END :: u8 where "CONDITIONATTR_END = 254"

lemmas attr_defs =
  CONDITIONATTR_TYPE_def CONDITIONATTR_ID_def CONDITIONATTR_TICKS_def
  CONDITIONATTR_HEALTHTICKS_def CONDITIONATTR_HEALTHGAIN_def CONDITIONATTR_MANATICKS_def
  CONDITIONATTR_MANAGAIN_def CONDITIONATTR_DELAYED_def CONDITIONATTR_OWNER_def
  CONDITIONATTR_INTERVALDATA_def CONDITIONATTR_SPEEDDELTA_def CONDITIONATTR_FORMULA_MINA_def
  CONDITIONATTR_FORMULA_MINB_def CONDITIONATTR_FORMULA_MAXA_def CONDITIONATTR_FORMULA_MAXB_def
  CONDITIONATTR_LIGHTCOLOR_def CONDITIONATTR_LIGHTLEVEL_def CONDITIONATTR_LIGHTTICKS_def
  CONDITIONATTR_LIGHTINTERVAL_def CONDITIONATTR_SOULTICKS_def CONDITIONATTR_SOULGAIN_def
  CONDITIONATTR_SKILLS_def CONDITIONATTR_STATS_def CONDITIONATTR_OUTFIT_def
  CONDITIONATTR_PERIODDAMAGE_def CONDITIONATTR_ISBUFF_def CONDITIONATTR_SUBID_def
  CONDITIONATTR_ISAGGRESSIVE_def CONDITIONATTR_DISABLEDEFENSE_def CONDITIONATTR_SPECIALSKILLS_def
  CONDITIONATTR_END_def

text \<open>\<open>ConditionType_t\<close>: one bit each.\<close>

definition CONDITION_POISON :: u32 where "CONDITION_POISON = 1"
definition CONDITION_FIRE :: u32 where "CONDITION_FIRE = 2"
definition CONDITION_ENERGY :: u32 where "CONDITION_ENERGY = 4"
definition CONDITION_BLEEDING :: u32 where "CONDITION_BLEEDING = 8"
definition CONDITION_HASTE :: u32 where "CONDITION_HASTE = 16"
definition CONDITION_PARALYZE :: u32 where "CONDITION_PARALYZE = 32"
definition CONDITION_OUTFIT :: u32 where "CONDITION_OUTFIT = 64"
definition CONDITION_INVISIBLE :: u32 where "CONDITION_INVISIBLE = 128"
definition CONDITION_LIGHT :: u32 where "CONDITION_LIGHT = 256"
definition CONDITION_MANASHIELD :: u32 where "CONDITION_MANASHIELD = 512"
definition CONDITION_INFIGHT :: u32 where "CONDITION_INFIGHT = 1024"
definition CONDITION_DRUNK :: u32 where "CONDITION_DRUNK = 2048"
definition CONDITION_EXHAUST_WEAPON :: u32 where "CONDITION_EXHAUST_WEAPON = 4096"
definition CONDITION_REGENERATION :: u32 where "CONDITION_REGENERATION = 8192"
definition CONDITION_SOUL :: u32 where "CONDITION_SOUL = 16384"
definition CONDITION_DROWN :: u32 where "CONDITION_DROWN = 32768"
definition CONDITION_MUTED :: u32 where "CONDITION_MUTED = 65536"
definition CONDITION_CHANNELMUTEDTICKS :: u32 where "CONDITION_CHANNELMUTEDTICKS = 131072"
definition CONDITION_YELLTICKS :: u32 where "CONDITION_YELLTICKS = 262144"
definition CONDITION_ATTRIBUTES :: u32 where "CONDITION_ATTRIBUTES = 524288"
definition CONDITION_FREEZING :: u32 where "CONDITION_FREEZING = 1048576"
definition CONDITION_DAZZLED :: u32 where "CONDITION_DAZZLED = 2097152"
definition CONDITION_CURSED :: u32 where "CONDITION_CURSED = 4194304"
definition CONDITION_ROOTED :: u32 where "CONDITION_ROOTED = 8388608"
definition CONDITION_EXHAUST_COMBAT :: u32 where "CONDITION_EXHAUST_COMBAT = 16777216"
definition CONDITION_EXHAUST_HEAL :: u32 where "CONDITION_EXHAUST_HEAL = 33554432"
definition CONDITION_PACIFIED :: u32 where "CONDITION_PACIFIED = 67108864"
definition CONDITION_SPELLCOOLDOWN :: u32 where "CONDITION_SPELLCOOLDOWN = 134217728"
definition CONDITION_SPELLGROUPCOOLDOWN :: u32 where "CONDITION_SPELLGROUPCOOLDOWN = 268435456"

lemmas type_defs =
  CONDITION_POISON_def CONDITION_FIRE_def CONDITION_ENERGY_def
  CONDITION_BLEEDING_def CONDITION_HASTE_def CONDITION_PARALYZE_def
  CONDITION_OUTFIT_def CONDITION_INVISIBLE_def CONDITION_LIGHT_def
  CONDITION_MANASHIELD_def CONDITION_INFIGHT_def CONDITION_DRUNK_def
  CONDITION_EXHAUST_WEAPON_def CONDITION_REGENERATION_def CONDITION_SOUL_def
  CONDITION_DROWN_def CONDITION_MUTED_def CONDITION_CHANNELMUTEDTICKS_def
  CONDITION_YELLTICKS_def CONDITION_ATTRIBUTES_def CONDITION_FREEZING_def
  CONDITION_DAZZLED_def CONDITION_CURSED_def CONDITION_ROOTED_def
  CONDITION_EXHAUST_COMBAT_def CONDITION_EXHAUST_HEAL_def CONDITION_PACIFIED_def
  CONDITION_SPELLCOOLDOWN_def CONDITION_SPELLGROUPCOOLDOWN_def

text \<open>\<open>ConditionId_t\<close>, an \<open>int8_t\<close>.\<close>

definition CONDITIONID_DEFAULT :: u8 where "CONDITIONID_DEFAULT = -1"
definition CONDITIONID_COMBAT :: u8 where "CONDITIONID_COMBAT = 0"

section \<open>The classes\<close>

record condition_attributes =
  skills :: "u32 list"
  skillsPercent :: "u32 list"
  specialSkills :: "u32 list"
  stats :: "u32 list"
  statsPercent :: "u32 list"
  currentSkill :: nat
  currentSpecialSkill :: nat
  currentStat :: nat
  disableDefense :: bool

record condition_regeneration =
  internalHealthTicks :: u32
  internalManaTicks :: u32
  healthTicks :: u32
  manaTicks :: u32
  healthGain :: u32
  manaGain :: u32

record condition_soul =
  internalSoulTicks :: u32
  soulTicks :: u32
  soulGain :: u32

record interval_info =
  timeLeft :: u32
  interval_value :: u32
  interval :: u32

record condition_damage =
  maxDamage :: u32
  minDamage :: u32
  startDamage :: u32
  periodDamage :: u32
  periodDamageTick :: u32
  tickInterval :: u32
  initDamage :: u32
  forceUpdate :: bool
  delayed :: bool
  field :: bool
  damage_owner :: u32
  damageList :: "interval_info list"

record condition_speed =
  speedDelta :: u32
  mina :: u32
  minb :: u32
  maxa :: u32
  maxb :: u32

record outfit =
  lookType :: u16
  lookTypeEx :: u16
  lookMount :: u16
  lookHead :: u8
  lookBody :: u8
  lookLegs :: u8
  lookFeet :: u8
  lookAddons :: u8

record condition_light =
  lightLevel :: u8
  lightColor :: u8
  internalLightTicks :: u32
  lightChangeInterval :: u32

datatype (plugins only:) condition_kind =
    ConditionGeneric
  | ConditionAttributes condition_attributes
  | ConditionRegeneration condition_regeneration
  | ConditionSoul condition_soul
  | ConditionInvisible
  | ConditionDamage condition_damage
  | ConditionSpeed condition_speed
  | ConditionOutfit outfit
  | ConditionLight condition_light
  | ConditionDrunk u8
  | ConditionSpellCooldown
  | ConditionSpellGroupCooldown

record condition =
  endTime :: int
  subId :: u32
  ticks :: u32
  conditionType :: u32
  isBuff :: bool
  aggressive :: bool
  condition_id :: u8
  kind :: condition_kind

section \<open>Construction\<close>

definition new_attributes :: condition_attributes where
  "new_attributes = \<lparr>skills = replicate 7 0, skillsPercent = replicate 7 0, specialSkills = replicate 6 0,
     stats = replicate 4 0, statsPercent = replicate 4 0, currentSkill = 0, currentSpecialSkill = 0, currentStat = 0,
     disableDefense = False\<rparr>"

definition new_regeneration :: condition_regeneration where
  "new_regeneration = \<lparr>internalHealthTicks = 0, internalManaTicks = 0, healthTicks = 1000, manaTicks = 1000,
     healthGain = 0, manaGain = 0\<rparr>"

definition new_soul :: condition_soul where
  "new_soul = \<lparr>internalSoulTicks = 0, soulTicks = 0, soulGain = 0\<rparr>"

definition new_damage :: condition_damage where
  "new_damage = \<lparr>maxDamage = 0, minDamage = 0, startDamage = 0, periodDamage = 0, periodDamageTick = 0,
     tickInterval = 2000, initDamage = 0, forceUpdate = False, delayed = False, field = False,
     damage_owner = 0, damageList = []\<rparr>"

definition new_speed :: "u32 \<Rightarrow> condition_speed" where
  "new_speed changeSpeed = \<lparr>speedDelta = changeSpeed, mina = 0, minb = 0, maxa = 0, maxb = 0\<rparr>"

definition new_outfit :: outfit where
  "new_outfit = \<lparr>lookType = 0, lookTypeEx = 0, lookMount = 0, lookHead = 0, lookBody = 0, lookLegs = 0, lookFeet = 0, lookAddons = 0\<rparr>"

definition new_light :: "u8 \<Rightarrow> u8 \<Rightarrow> condition_light" where
  "new_light lightlevel lightcolor = \<lparr>lightLevel = lightlevel, lightColor = lightcolor, internalLightTicks = 0, lightChangeInterval = 0\<rparr>"

definition new_drunk :: "u8 \<Rightarrow> condition_kind" where
  "new_drunk drunkenness = ConditionDrunk (if drunkenness \<noteq> 0 then drunkenness else 25)"

definition INT64_MAX :: int where
  "INT64_MAX = 9223372036854775807"

text \<open>The constructor of the base class.\<close>

definition new_condition :: "u8 \<Rightarrow> u32 \<Rightarrow> u32 \<Rightarrow> bool \<Rightarrow> u32 \<Rightarrow> bool \<Rightarrow> condition_kind \<Rightarrow> condition" where
  "new_condition i type t buff sub aggr k =
     \<lparr>endTime = (if t = -1 then INT64_MAX else 0), subId = sub, ticks = t, conditionType = type,
      isBuff = buff, aggressive = aggr, condition_id = i, kind = k\<rparr>"

definition damage_types :: "u32 list" where
  "damage_types = [CONDITION_POISON, CONDITION_FIRE, CONDITION_ENERGY, CONDITION_DROWN, CONDITION_FREEZING,
     CONDITION_DAZZLED, CONDITION_CURSED, CONDITION_BLEEDING]"

definition generic_types :: "u32 list" where
  "generic_types = [CONDITION_ROOTED, CONDITION_INFIGHT, CONDITION_EXHAUST_WEAPON, CONDITION_EXHAUST_COMBAT,
     CONDITION_EXHAUST_HEAL, CONDITION_MUTED, CONDITION_CHANNELMUTEDTICKS, CONDITION_YELLTICKS,
     CONDITION_PACIFIED, CONDITION_MANASHIELD]"

definition createCondition :: "u8 \<Rightarrow> u32 \<Rightarrow> u32 \<Rightarrow> u32 \<Rightarrow> bool \<Rightarrow> u32 \<Rightarrow> bool \<Rightarrow> condition option" where
  "createCondition i type t param buff sub aggr =
     (if type \<in> set damage_types then Some (new_condition i type 0 buff sub aggr (ConditionDamage new_damage))
      else if type = CONDITION_HASTE \<or> type = CONDITION_PARALYZE then
        Some (new_condition i type t buff sub aggr (ConditionSpeed (new_speed param)))
      else if type = CONDITION_INVISIBLE then Some (new_condition i type t buff sub aggr ConditionInvisible)
      else if type = CONDITION_OUTFIT then Some (new_condition i type t buff sub aggr (ConditionOutfit new_outfit))
      else if type = CONDITION_LIGHT then
        Some (new_condition i type t buff sub aggr
          (ConditionLight (new_light (ucast (param AND 0xFF)) (ucast (drop_bit 8 (param AND 0xFF00))))))
      else if type = CONDITION_REGENERATION then
        Some (new_condition i type t buff sub aggr (ConditionRegeneration new_regeneration))
      else if type = CONDITION_SOUL then Some (new_condition i type t buff sub aggr (ConditionSoul new_soul))
      else if type = CONDITION_ATTRIBUTES then
        Some (new_condition i type t buff sub aggr (ConditionAttributes new_attributes))
      else if type = CONDITION_DRUNK then Some (new_condition i type t buff sub aggr (new_drunk (ucast param)))
      else if type = CONDITION_SPELLCOOLDOWN then Some (new_condition i type t buff sub False ConditionSpellCooldown)
      else if type = CONDITION_SPELLGROUPCOOLDOWN then Some (new_condition i type t buff sub False ConditionSpellGroupCooldown)
      else if type \<in> set generic_types then Some (new_condition i type t buff sub aggr ConditionGeneric)
      else None)"

section \<open>Serialization\<close>

definition serialize_base :: "condition \<Rightarrow> bytes" where
  "serialize_base c =
     CONDITIONATTR_TYPE # ps_write 4 (conditionType c) @
     CONDITIONATTR_ID # ps_write 4 (scast (condition_id c) :: u32) @
     CONDITIONATTR_TICKS # ps_write 4 (ticks c) @
     CONDITIONATTR_ISBUFF # of_bool (isBuff c) #
     CONDITIONATTR_SUBID # ps_write 4 (subId c) @
     CONDITIONATTR_ISAGGRESSIVE # [of_bool (aggressive c)]"

definition write_all :: "u8 \<Rightarrow> u32 list \<Rightarrow> bytes" where
  "write_all attr vs = concat (map (\<lambda>v. attr # ps_write 4 v) vs)"

definition serialize_attributes :: "condition_attributes \<Rightarrow> bytes" where
  "serialize_attributes a =
     write_all CONDITIONATTR_SKILLS (skills a) @
     write_all CONDITIONATTR_STATS (stats a) @
     [CONDITIONATTR_DISABLEDEFENSE, of_bool (disableDefense a)] @
     write_all CONDITIONATTR_SPECIALSKILLS (specialSkills a)"

definition serialize_regeneration :: "condition_regeneration \<Rightarrow> bytes" where
  "serialize_regeneration r =
     CONDITIONATTR_HEALTHTICKS # ps_write 4 (healthTicks r) @
     CONDITIONATTR_HEALTHGAIN # ps_write 4 (healthGain r) @
     CONDITIONATTR_MANATICKS # ps_write 4 (manaTicks r) @
     CONDITIONATTR_MANAGAIN # ps_write 4 (manaGain r)"

definition serialize_soul :: "condition_soul \<Rightarrow> bytes" where
  "serialize_soul r =
     CONDITIONATTR_SOULGAIN # ps_write 4 (soulGain r) @ CONDITIONATTR_SOULTICKS # ps_write 4 (soulTicks r)"

text \<open>\<open>IntervalInfo\<close> is three 32-bit integers without padding.\<close>

definition interval_bytes :: "interval_info \<Rightarrow> bytes" where
  "interval_bytes i = ps_write 4 (timeLeft i) @ ps_write 4 (interval_value i) @ ps_write 4 (interval i)"

definition serialize_damage :: "condition_damage \<Rightarrow> bytes" where
  "serialize_damage d =
     [CONDITIONATTR_DELAYED, of_bool (delayed d)] @
     CONDITIONATTR_PERIODDAMAGE # ps_write 4 (periodDamage d) @
     concat (map (\<lambda>i. CONDITIONATTR_INTERVALDATA # interval_bytes i) (damageList d))"

definition serialize_speed :: "condition_speed \<Rightarrow> bytes" where
  "serialize_speed v =
     CONDITIONATTR_SPEEDDELTA # ps_write 4 (speedDelta v) @
     CONDITIONATTR_FORMULA_MINA # ps_write 4 (mina v) @
     CONDITIONATTR_FORMULA_MINB # ps_write 4 (minb v) @
     CONDITIONATTR_FORMULA_MAXA # ps_write 4 (maxa v) @
     CONDITIONATTR_FORMULA_MAXB # ps_write 4 (maxb v)"

text \<open>\<open>Outfit_t\<close> takes twelve bytes; the last one is padding, whose value C++ leaves open.\<close>

definition outfit_bytes :: "u8 \<Rightarrow> outfit \<Rightarrow> bytes" where
  "outfit_bytes pad v =
     ps_write 2 (lookType v) @ ps_write 2 (lookTypeEx v) @ ps_write 2 (lookMount v) @
     [lookHead v, lookBody v, lookLegs v, lookFeet v, lookAddons v, pad]"

definition serialize_light :: "condition_light \<Rightarrow> bytes" where
  "serialize_light l =
     CONDITIONATTR_LIGHTCOLOR # ps_write 4 (ucast (lightColor l) :: u32) @
     CONDITIONATTR_LIGHTLEVEL # ps_write 4 (ucast (lightLevel l) :: u32) @
     CONDITIONATTR_LIGHTTICKS # ps_write 4 (internalLightTicks l) @
     CONDITIONATTR_LIGHTINTERVAL # ps_write 4 (lightChangeInterval l)"

definition serialize :: "u8 \<Rightarrow> condition \<Rightarrow> bytes" where
  "serialize pad c = serialize_base c @
     (case kind c of
        ConditionAttributes a \<Rightarrow> serialize_attributes a
      | ConditionRegeneration r \<Rightarrow> serialize_regeneration r
      | ConditionSoul r \<Rightarrow> serialize_soul r
      | ConditionDamage d \<Rightarrow> serialize_damage d
      | ConditionSpeed v \<Rightarrow> serialize_speed v
      | ConditionOutfit v \<Rightarrow> CONDITIONATTR_OUTFIT # outfit_bytes pad v
      | ConditionLight l \<Rightarrow> serialize_light l
      | _ \<Rightarrow> [])"

section \<open>Unserialization\<close>

text \<open>One read, whose result updates the condition.\<close>

definition read_into :: "nat \<Rightarrow> bytes \<Rightarrow> ('w::len word \<Rightarrow> condition) \<Rightarrow> condition read_result \<times> bytes" where
  "read_into n s f =
     (case ps_read n s of (Value v, s) \<Rightarrow> (Value (f v), s) | (Refused, s) \<Rightarrow> (Refused, s) | (OutOfBounds, s) \<Rightarrow> (OutOfBounds, s))"

definition unserializeProp_base :: "u8 \<Rightarrow> condition \<Rightarrow> bytes \<Rightarrow> condition read_result \<times> bytes" where
  "unserializeProp_base attr c s =
     (if attr = CONDITIONATTR_TYPE then read_into 4 s (\<lambda>v :: u32. c\<lparr>conditionType := v\<rparr>)
      else if attr = CONDITIONATTR_ID then read_into 4 s (\<lambda>v :: u32. c\<lparr>condition_id := ucast v\<rparr>)
      else if attr = CONDITIONATTR_TICKS then read_into 4 s (\<lambda>v :: u32. c\<lparr>ticks := v\<rparr>)
      else if attr = CONDITIONATTR_ISBUFF then read_into 1 s (\<lambda>v :: u8. c\<lparr>isBuff := (v \<noteq> 0)\<rparr>)
      else if attr = CONDITIONATTR_SUBID then read_into 4 s (\<lambda>v :: u32. c\<lparr>subId := v\<rparr>)
      else if attr = CONDITIONATTR_ISAGGRESSIVE then read_into 1 s (\<lambda>v :: u8. c\<lparr>aggressive := (v \<noteq> 0)\<rparr>)
      else if attr = CONDITIONATTR_END then (Value c, s)
      else (Refused, s))"

text \<open>The reads of \<open>ConditionAttributes\<close> go to the next element of an array.  The code does not
  check the index; here an index past the end is \<open>OutOfBounds\<close>.\<close>

definition read_element :: "nat \<Rightarrow> nat \<Rightarrow> bytes \<Rightarrow> (u32 \<Rightarrow> condition) \<Rightarrow> condition read_result \<times> bytes" where
  "read_element i n s f = (if i < n then read_into 4 s f else (OutOfBounds, s))"

definition unserializeProp_attributes :: "condition_attributes \<Rightarrow> u8 \<Rightarrow> condition \<Rightarrow> bytes \<Rightarrow> condition read_result \<times> bytes" where
  "unserializeProp_attributes a attr c s =
     (if attr = CONDITIONATTR_SKILLS then
        read_element (currentSkill a) (length (skills a)) s
          (\<lambda>v. c\<lparr>kind := ConditionAttributes (a\<lparr>skills := (skills a)[currentSkill a := v], currentSkill := Suc (currentSkill a)\<rparr>)\<rparr>)
      else if attr = CONDITIONATTR_SPECIALSKILLS then
        read_element (currentSpecialSkill a) (length (specialSkills a)) s
          (\<lambda>v. c\<lparr>kind := ConditionAttributes (a\<lparr>specialSkills := (specialSkills a)[currentSpecialSkill a := v],
                                              currentSpecialSkill := Suc (currentSpecialSkill a)\<rparr>)\<rparr>)
      else if attr = CONDITIONATTR_STATS then
        read_element (currentStat a) (length (stats a)) s
          (\<lambda>v. c\<lparr>kind := ConditionAttributes (a\<lparr>stats := (stats a)[currentStat a := v], currentStat := Suc (currentStat a)\<rparr>)\<rparr>)
      else if attr = CONDITIONATTR_DISABLEDEFENSE then
        read_into 1 s (\<lambda>v :: u8. c\<lparr>kind := ConditionAttributes (a\<lparr>disableDefense := (v \<noteq> 0)\<rparr>)\<rparr>)
      else unserializeProp_base attr c s)"

definition unserializeProp_regeneration :: "condition_regeneration \<Rightarrow> u8 \<Rightarrow> condition \<Rightarrow> bytes \<Rightarrow> condition read_result \<times> bytes" where
  "unserializeProp_regeneration r attr c s =
     (if attr = CONDITIONATTR_HEALTHTICKS then read_into 4 s (\<lambda>v. c\<lparr>kind := ConditionRegeneration (r\<lparr>healthTicks := v\<rparr>)\<rparr>)
      else if attr = CONDITIONATTR_HEALTHGAIN then read_into 4 s (\<lambda>v. c\<lparr>kind := ConditionRegeneration (r\<lparr>healthGain := v\<rparr>)\<rparr>)
      else if attr = CONDITIONATTR_MANATICKS then read_into 4 s (\<lambda>v. c\<lparr>kind := ConditionRegeneration (r\<lparr>manaTicks := v\<rparr>)\<rparr>)
      else if attr = CONDITIONATTR_MANAGAIN then read_into 4 s (\<lambda>v. c\<lparr>kind := ConditionRegeneration (r\<lparr>manaGain := v\<rparr>)\<rparr>)
      else unserializeProp_base attr c s)"

definition unserializeProp_soul :: "condition_soul \<Rightarrow> u8 \<Rightarrow> condition \<Rightarrow> bytes \<Rightarrow> condition read_result \<times> bytes" where
  "unserializeProp_soul r attr c s =
     (if attr = CONDITIONATTR_SOULGAIN then read_into 4 s (\<lambda>v. c\<lparr>kind := ConditionSoul (r\<lparr>soulGain := v\<rparr>)\<rparr>)
      else if attr = CONDITIONATTR_SOULTICKS then read_into 4 s (\<lambda>v. c\<lparr>kind := ConditionSoul (r\<lparr>soulTicks := v\<rparr>)\<rparr>)
      else unserializeProp_base attr c s)"

definition setTicks :: "int \<Rightarrow> u32 \<Rightarrow> condition \<Rightarrow> condition" where
  "setTicks now newTicks c = c\<lparr>ticks := newTicks, endTime := sint newTicks + now\<rparr>"

definition read_interval :: "bytes \<Rightarrow> interval_info" where
  "read_interval b = \<lparr>timeLeft = of_le (take 4 b), interval_value = of_le (take 4 (drop 4 b)), interval = of_le (take 4 (drop 8 b))\<rparr>"

definition add_interval :: "int \<Rightarrow> condition_damage \<Rightarrow> interval_info \<Rightarrow> condition \<Rightarrow> condition" where
  "add_interval now d i c =
     (let c = c\<lparr>kind := ConditionDamage (d\<lparr>damageList := damageList d @ [i]\<rparr>)\<rparr>
      in if ticks c \<noteq> -1 then setTicks now (ticks c + interval i) c else c)"

definition unserializeProp_damage :: "int \<Rightarrow> condition_damage \<Rightarrow> u8 \<Rightarrow> condition \<Rightarrow> bytes \<Rightarrow> condition read_result \<times> bytes" where
  "unserializeProp_damage now d attr c s =
     (if attr = CONDITIONATTR_DELAYED then read_into 1 s (\<lambda>v :: u8. c\<lparr>kind := ConditionDamage (d\<lparr>delayed := (v \<noteq> 0)\<rparr>)\<rparr>)
      else if attr = CONDITIONATTR_PERIODDAMAGE then read_into 4 s (\<lambda>v. c\<lparr>kind := ConditionDamage (d\<lparr>periodDamage := v\<rparr>)\<rparr>)
      else if attr = CONDITIONATTR_OWNER then (case ps_skip 4 s of (b, s) \<Rightarrow> (if b then Value c else Refused, s))
      else if attr = CONDITIONATTR_INTERVALDATA then
        (if length s < 12 then (Refused, s) else (Value (add_interval now d (read_interval s) c), drop 12 s))
      else unserializeProp_base attr c s)"

definition unserializeProp_speed :: "condition_speed \<Rightarrow> u8 \<Rightarrow> condition \<Rightarrow> bytes \<Rightarrow> condition read_result \<times> bytes" where
  "unserializeProp_speed v attr c s =
     (if attr = CONDITIONATTR_SPEEDDELTA then read_into 4 s (\<lambda>w. c\<lparr>kind := ConditionSpeed (v\<lparr>speedDelta := w\<rparr>)\<rparr>)
      else if attr = CONDITIONATTR_FORMULA_MINA then read_into 4 s (\<lambda>w. c\<lparr>kind := ConditionSpeed (v\<lparr>mina := w\<rparr>)\<rparr>)
      else if attr = CONDITIONATTR_FORMULA_MINB then read_into 4 s (\<lambda>w. c\<lparr>kind := ConditionSpeed (v\<lparr>minb := w\<rparr>)\<rparr>)
      else if attr = CONDITIONATTR_FORMULA_MAXA then read_into 4 s (\<lambda>w. c\<lparr>kind := ConditionSpeed (v\<lparr>maxa := w\<rparr>)\<rparr>)
      else if attr = CONDITIONATTR_FORMULA_MAXB then read_into 4 s (\<lambda>w. c\<lparr>kind := ConditionSpeed (v\<lparr>maxb := w\<rparr>)\<rparr>)
      else unserializeProp_base attr c s)"

definition read_outfit :: "bytes \<Rightarrow> outfit" where
  "read_outfit b = \<lparr>lookType = of_le (take 2 b), lookTypeEx = of_le (take 2 (drop 2 b)), lookMount = of_le (take 2 (drop 4 b)),
     lookHead = b ! 6, lookBody = b ! 7, lookLegs = b ! 8, lookFeet = b ! 9, lookAddons = b ! 10\<rparr>"

definition unserializeProp_outfit :: "u8 \<Rightarrow> condition \<Rightarrow> bytes \<Rightarrow> condition read_result \<times> bytes" where
  "unserializeProp_outfit attr c s =
     (if attr = CONDITIONATTR_OUTFIT then
        (if length s < 12 then (Refused, s) else (Value (c\<lparr>kind := ConditionOutfit (read_outfit s)\<rparr>), drop 12 s))
      else unserializeProp_base attr c s)"

definition unserializeProp_light :: "condition_light \<Rightarrow> u8 \<Rightarrow> condition \<Rightarrow> bytes \<Rightarrow> condition read_result \<times> bytes" where
  "unserializeProp_light l attr c s =
     (if attr = CONDITIONATTR_LIGHTCOLOR then read_into 4 s (\<lambda>v :: u32. c\<lparr>kind := ConditionLight (l\<lparr>lightColor := ucast v\<rparr>)\<rparr>)
      else if attr = CONDITIONATTR_LIGHTLEVEL then read_into 4 s (\<lambda>v :: u32. c\<lparr>kind := ConditionLight (l\<lparr>lightLevel := ucast v\<rparr>)\<rparr>)
      else if attr = CONDITIONATTR_LIGHTTICKS then read_into 4 s (\<lambda>v. c\<lparr>kind := ConditionLight (l\<lparr>internalLightTicks := v\<rparr>)\<rparr>)
      else if attr = CONDITIONATTR_LIGHTINTERVAL then read_into 4 s (\<lambda>v. c\<lparr>kind := ConditionLight (l\<lparr>lightChangeInterval := v\<rparr>)\<rparr>)
      else unserializeProp_base attr c s)"

text \<open>The virtual call.\<close>

definition unserializeProp :: "int \<Rightarrow> u8 \<Rightarrow> condition \<Rightarrow> bytes \<Rightarrow> condition read_result \<times> bytes" where
  "unserializeProp now attr c s =
     (case kind c of
        ConditionAttributes a \<Rightarrow> unserializeProp_attributes a attr c s
      | ConditionRegeneration r \<Rightarrow> unserializeProp_regeneration r attr c s
      | ConditionSoul r \<Rightarrow> unserializeProp_soul r attr c s
      | ConditionDamage d \<Rightarrow> unserializeProp_damage now d attr c s
      | ConditionSpeed v \<Rightarrow> unserializeProp_speed v attr c s
      | ConditionOutfit v \<Rightarrow> unserializeProp_outfit attr c s
      | ConditionLight l \<Rightarrow> unserializeProp_light l attr c s
      | _ \<Rightarrow> unserializeProp_base attr c s)"

lemma read_into_length: "read_into n s f = (r, s') \<Longrightarrow> length s' \<le> length s"
  by (auto simp: read_into_def dest: ps_read_length split: prod.splits read_result.splits)

lemma read_element_length: "read_element i n s f = (r, s') \<Longrightarrow> length s' \<le> length s"
  by (auto simp: read_element_def dest: read_into_length split: if_splits)

lemma unserializeProp_base_length: "unserializeProp_base attr c s = (r, s') \<Longrightarrow> length s' \<le> length s"
  by (auto simp: unserializeProp_base_def dest: read_into_length split: if_splits)

lemma unserializeProp_length: "unserializeProp now attr c s = (r, s') \<Longrightarrow> length s' \<le> length s"
  unfolding unserializeProp_def unserializeProp_attributes_def unserializeProp_regeneration_def
    unserializeProp_soul_def unserializeProp_damage_def unserializeProp_speed_def unserializeProp_outfit_def
    unserializeProp_light_def ps_skip_def
  by (cases "kind c")
    (auto dest: read_into_length read_element_length unserializeProp_base_length split: if_splits)

function unserialize :: "int \<Rightarrow> condition \<Rightarrow> bytes \<Rightarrow> condition read_result \<times> bytes" where
  "unserialize now c s =
     (case ps_read 1 s of
        (Value attr_type, s') \<Rightarrow>
          if attr_type = CONDITIONATTR_END then (Value c, s')
          else (case unserializeProp now attr_type c s' of
            (Value c, s'') \<Rightarrow> unserialize now c s''
          | r \<Rightarrow> r)
      | (_, s') \<Rightarrow> (Value c, s'))"
  by pat_completeness auto
termination
  by (relation "measure (\<lambda>(now, c, s). length s)")
    (auto dest!: ps_read_Value [OF sym] unserializeProp_length [OF sym])

declare unserialize.simps [simp del]

text \<open>The header of a stored condition.\<close>

definition expect :: "u8 \<Rightarrow> nat \<Rightarrow> bytes \<Rightarrow> 'w::len word read_result \<times> bytes" where
  "expect attr n s =
     (case ps_read 1 s of
        (Value a, s) \<Rightarrow> if a \<noteq> attr then (Refused, s) else ps_read n s
      | (_, s) \<Rightarrow> (Refused, s))"

definition createCondition_stream :: "bytes \<Rightarrow> condition option \<times> bytes" where
  "createCondition_stream s =
     (case expect CONDITIONATTR_TYPE 4 s of (Value type, s) \<Rightarrow>
       (case expect CONDITIONATTR_ID 4 s of (Value i, s) \<Rightarrow>
         (case expect CONDITIONATTR_TICKS 4 s of (Value t, s) \<Rightarrow>
           (case expect CONDITIONATTR_ISBUFF 1 s of (Value buff, s) \<Rightarrow>
             (case expect CONDITIONATTR_SUBID 4 s of (Value sub, s) \<Rightarrow>
               (case expect CONDITIONATTR_ISAGGRESSIVE 1 s of (Value aggr, s) \<Rightarrow>
                 (createCondition (ucast (i :: u32)) type t 0 ((buff :: u8) \<noteq> 0) sub ((aggr :: u8) \<noteq> 0), s)
               | (_, s) \<Rightarrow> (None, s))
             | (_, s) \<Rightarrow> (None, s))
           | (_, s) \<Rightarrow> (None, s))
         | (_, s) \<Rightarrow> (None, s))
       | (_, s) \<Rightarrow> (None, s))
     | (_, s) \<Rightarrow> (None, s))"

lemma expect_length: "expect attr n s = (r, s') \<Longrightarrow> length s' \<le> length s"
  by (auto simp: expect_def dest!: ps_read_length split: prod.splits read_result.splits if_splits)

lemma expect_Value: "expect attr n s = (Value v, s') \<Longrightarrow> length s' < length s"
  by (auto simp: expect_def dest!: ps_read_Value split: prod.splits read_result.splits if_splits)

lemma createCondition_stream_length: "createCondition_stream s = (Some c, s') \<Longrightarrow> length s' < length s"
  unfolding createCondition_stream_def
  by (auto dest!: expect_Value split: prod.splits read_result.splits)

lemma unserialize_length: "unserialize now c s = (r, s') \<Longrightarrow> length s' \<le> length s"
proof (induction now c s arbitrary: r s' rule: unserialize.induct)
  case (1 now c s)
  show ?case
  proof (cases "ps_read 1 s :: u8 read_result \<times> bytes")
    case (Pair a s1)
    note read = Pair and read' = Pair [unfolded One_nat_def]
    show ?thesis
    proof (cases a)
      case (Value attr)
      note a = Value
      have len: "length s1 \<le> length s" using ps_read_length [OF read] .
      show ?thesis
      proof (cases "attr = CONDITIONATTR_END")
        case True
        then show ?thesis using 1(2) len by (subst (asm) unserialize.simps) (simp add: read' a)
      next
        case False
        obtain p s2 where p: "unserializeProp now attr c s1 = (p, s2)" by fastforce
        have len2: "length s2 \<le> length s1" by (rule unserializeProp_length [OF p])
        show ?thesis
          using 1(2) len len2 1(1) [OF read [symmetric] a False p [symmetric]] False
          by (subst (asm) unserialize.simps) (cases p; fastforce simp: read' a p)
      qed
    next
      case Refused
      then show ?thesis using 1(2) ps_read_length [OF read] by (subst (asm) unserialize.simps) (simp add: read' Refused)
    next
      case OutOfBounds
      then show ?thesis using 1(2) ps_read_length [OF read] by (subst (asm) unserialize.simps) (simp add: read' OutOfBounds)
    qed
  qed
qed

section \<open>Saving and loading a player's conditions\<close>

definition isPersistent :: "condition \<Rightarrow> bool" where
  "isPersistent c \<longleftrightarrow>
     ticks c \<noteq> -1 \<and>
     (condition_id c = CONDITIONID_DEFAULT \<or> condition_id c = CONDITIONID_COMBAT \<or> conditionType c = CONDITION_MUTED)"

definition saveConditions :: "u8 \<Rightarrow> condition list \<Rightarrow> bytes" where
  "saveConditions pad cs = concat (map (\<lambda>c. if isPersistent c then serialize pad c @ [CONDITIONATTR_END] else []) cs)"

text \<open>\<open>loadConditions\<close>: what is read goes to the front of the list.  None stands for the
  out-of-bounds write.\<close>

function loadConditions :: "int \<Rightarrow> bytes \<Rightarrow> condition list \<Rightarrow> condition list option" where
  "loadConditions now s stored =
     (case createCondition_stream s of
        (None, _) \<Rightarrow> Some stored
      | (Some c, s) \<Rightarrow>
          (case unserialize now c s of
             (Value c, s) \<Rightarrow> loadConditions now s (c # stored)
           | (Refused, s) \<Rightarrow> loadConditions now s stored
           | (OutOfBounds, s) \<Rightarrow> None))"
  by pat_completeness auto
termination
  by (relation "measure (\<lambda>(now, s, stored). length s)")
    (auto dest!: createCondition_stream_length[OF sym] unserialize_length[OF sym])

declare loadConditions.simps [simp del]

section \<open>What a restored condition is\<close>

text \<open>The percentages of attribute conditions, the inner clocks of regeneration and soul, the
  strength of drunkenness and most of the members of damage conditions are not stored; a damage
  condition gets its duration from its intervals, and a cooldown is never aggressive.\<close>

definition restored_attributes :: "condition_attributes \<Rightarrow> condition_attributes" where
  "restored_attributes a =
     a\<lparr>skillsPercent := replicate 7 0, statsPercent := replicate 4 0, currentSkill := 7, currentSpecialSkill := 6, currentStat := 4\<rparr>"

definition restored_damage :: "condition_damage \<Rightarrow> condition_damage" where
  "restored_damage d = new_damage\<lparr>delayed := delayed d, periodDamage := periodDamage d, damageList := damageList d\<rparr>"

definition total_interval :: "condition_damage \<Rightarrow> u32" where
  "total_interval d = sum_list (map interval (damageList d))"

definition restored :: "int \<Rightarrow> condition \<Rightarrow> condition" where
  "restored now c =
     (let c0 = c\<lparr>endTime := (if ticks c = -1 then INT64_MAX else 0)\<rparr>
      in case kind c of
        ConditionAttributes a \<Rightarrow> c0\<lparr>kind := ConditionAttributes (restored_attributes a)\<rparr>
      | ConditionRegeneration r \<Rightarrow> c0\<lparr>kind := ConditionRegeneration (r\<lparr>internalHealthTicks := 0, internalManaTicks := 0\<rparr>)\<rparr>
      | ConditionSoul r \<Rightarrow> c0\<lparr>kind := ConditionSoul (r\<lparr>internalSoulTicks := 0\<rparr>)\<rparr>
      | ConditionDamage d \<Rightarrow>
          c\<lparr>ticks := total_interval d,
            endTime := (if damageList d = [] then 0 else sint (total_interval d) + now),
            kind := ConditionDamage (restored_damage d)\<rparr>
      | ConditionDrunk v \<Rightarrow> c0\<lparr>kind := ConditionDrunk 25\<rparr>
      | ConditionSpellCooldown \<Rightarrow> c0\<lparr>aggressive := False\<rparr>
      | ConditionSpellGroupCooldown \<Rightarrow> c0\<lparr>aggressive := False\<rparr>
      | _ \<Rightarrow> c0)"

text \<open>The type of a condition belongs to its class and arrays have their size.\<close>

definition shape_ok :: "condition \<Rightarrow> bool" where
  "shape_ok c \<longleftrightarrow>
     (case kind c of
        ConditionGeneric \<Rightarrow> conditionType c \<in> set generic_types
      | ConditionAttributes a \<Rightarrow> conditionType c = CONDITION_ATTRIBUTES \<and> length (skills a) = 7 \<and> length (skillsPercent a) = 7 \<and>
          length (specialSkills a) = 6 \<and> length (stats a) = 4 \<and> length (statsPercent a) = 4
      | ConditionRegeneration r \<Rightarrow> conditionType c = CONDITION_REGENERATION
      | ConditionSoul r \<Rightarrow> conditionType c = CONDITION_SOUL
      | ConditionInvisible \<Rightarrow> conditionType c = CONDITION_INVISIBLE
      | ConditionDamage d \<Rightarrow> conditionType c \<in> set damage_types
      | ConditionSpeed v \<Rightarrow> conditionType c = CONDITION_HASTE \<or> conditionType c = CONDITION_PARALYZE
      | ConditionOutfit v \<Rightarrow> conditionType c = CONDITION_OUTFIT
      | ConditionLight l \<Rightarrow> conditionType c = CONDITION_LIGHT
      | ConditionDrunk v \<Rightarrow> conditionType c = CONDITION_DRUNK
      | ConditionSpellCooldown \<Rightarrow> conditionType c = CONDITION_SPELLCOOLDOWN
      | ConditionSpellGroupCooldown \<Rightarrow> conditionType c = CONDITION_SPELLGROUPCOOLDOWN)"

text \<open>Also, the intervals of a damage condition are durations whose sum is one.\<close>

definition intervals_ok :: "condition_kind \<Rightarrow> bool" where
  "intervals_ok k \<longleftrightarrow>
     (case k of
        ConditionDamage d \<Rightarrow>
          (\<forall>i\<in>set (damageList d). 0 \<le> sint (interval i)) \<and> sum_list (map (\<lambda>i. sint (interval i)) (damageList d)) < 2 ^ 31
      | _ \<Rightarrow> True)"

definition condition_ok :: "condition \<Rightarrow> bool" where
  "condition_ok c \<longleftrightarrow> shape_ok c \<and> intervals_ok (kind c)"

section \<open>The round trip\<close>

lemma unserialize_end: "unserialize now c (CONDITIONATTR_END # s) = (Value c, s)"
  by (subst unserialize.simps) (simp add: stream_simps)

lemma unserialize_step:
  "attr \<noteq> CONDITIONATTR_END \<Longrightarrow> unserializeProp now attr c s = (Value c', s') \<Longrightarrow>
     unserialize now c (attr # s) = unserialize now c' s'"
  by (subst unserialize.simps) (simp add: stream_simps)

lemma read_into_u32: "read_into 4 (ps_write 4 (w :: u32) @ s) f = (Value (f w), s)"
  by (simp add: read_into_def stream_simps)

lemma read_into_byte: "read_into (Suc 0) (b # s) f = (Value (f (b :: u8)), s)"
  by (simp add: read_into_def stream_simps)

lemma expect_u32: "expect attr 4 (attr # ps_write 4 (w :: u32) @ s) = (Value w, s)"
  by (simp add: expect_def stream_simps)

lemma expect_byte: "expect attr (Suc 0) (attr # b # s) = (Value (b :: u8), s)"
  by (simp add: expect_def stream_simps)

lemma of_bool_byte: "((of_bool b :: u8) \<noteq> 0) = b"
  by simp

lemma id_cast: "ucast (scast (i :: u8) :: u32) = i"
  by (rule bit_word_eqI) (auto simp: bit_simps)

lemma header_roundtrip:
  "createCondition_stream (serialize_base c @ s) =
     (createCondition (condition_id c) (conditionType c) (ticks c) 0 (isBuff c) (subId c) (aggressive c), s)"
  by (simp add: createCondition_stream_def serialize_base_def expect_u32 expect_byte id_cast)

text \<open>Reading the elements of an array: \<open>A ys i\<close> is the condition with the array \<open>ys\<close> and the index \<open>i\<close>.\<close>

lemma unserialize_array:
  assumes "attr \<noteq> CONDITIONATTR_END"
    and step: "\<And>ys i v s. i < length ys \<Longrightarrow>
      unserializeProp now attr (A ys i) (ps_write 4 (v :: u32) @ s) = (Value (A (ys[i := v]) (Suc i)), s)"
  shows "length xs \<le> length post \<Longrightarrow> unserialize now (A (pre @ post) (length pre)) (write_all attr xs @ s) =
    unserialize now (A (pre @ xs @ drop (length xs) post) (length pre + length xs)) s"
proof (induction xs arbitrary: pre post)
  case Nil
  then show ?case by (simp add: write_all_def)
next
  case (Cons x xs)
  then obtain p post' where post: "post = p # post'" by (cases post) auto
  have "unserialize now (A (pre @ post) (length pre)) (write_all attr (x # xs) @ s) =
      unserialize now (A ((pre @ post)[length pre := x]) (Suc (length pre))) (write_all attr xs @ s)"
    using step [of "length pre" "pre @ post" x "write_all attr xs @ s"] assms(1)
    by (simp add: write_all_def post unserialize_step)
  also have "(pre @ post)[length pre := x] = (pre @ [x]) @ post'" by (simp add: post)
  also have "unserialize now (A ((pre @ [x]) @ post') (Suc (length pre))) (write_all attr xs @ s) =
      unserialize now (A ((pre @ [x]) @ xs @ drop (length xs) post') (length (pre @ [x]) + length xs)) s"
    using Cons.IH [of post' "pre @ [x]"] Cons.prems post by simp
  finally show ?case by (simp add: post)
qed

lemma unserialize_whole_array:
  assumes "attr \<noteq> CONDITIONATTR_END"
    and "\<And>ys i v s. i < length ys \<Longrightarrow>
      unserializeProp now attr (A ys i) (ps_write 4 (v :: u32) @ s) = (Value (A (ys[i := v]) (Suc i)), s)"
    and "length ys = length xs"
  shows "unserialize now (A ys 0) (write_all attr xs @ s) = unserialize now (A xs (length xs)) s"
  using unserialize_array [OF assms(1,2), of xs ys "[]" s] assms(3) by simp

lemma skills_roundtrip:
  "length ys = length xs \<Longrightarrow>
   unserialize now (c\<lparr>kind := ConditionAttributes (a\<lparr>skills := ys, currentSkill := 0\<rparr>)\<rparr>) (write_all CONDITIONATTR_SKILLS xs @ s) =
   unserialize now (c\<lparr>kind := ConditionAttributes (a\<lparr>skills := xs, currentSkill := length xs\<rparr>)\<rparr>) s"
  by (rule unserialize_whole_array [where A = "\<lambda>ys i. c\<lparr>kind := ConditionAttributes (a\<lparr>skills := ys, currentSkill := i\<rparr>)\<rparr>"])
    (simp_all add: unserializeProp_def unserializeProp_attributes_def read_element_def read_into_u32 attr_defs)

lemma stats_roundtrip:
  "length ys = length xs \<Longrightarrow>
   unserialize now (c\<lparr>kind := ConditionAttributes (a\<lparr>stats := ys, currentStat := 0\<rparr>)\<rparr>) (write_all CONDITIONATTR_STATS xs @ s) =
   unserialize now (c\<lparr>kind := ConditionAttributes (a\<lparr>stats := xs, currentStat := length xs\<rparr>)\<rparr>) s"
  by (rule unserialize_whole_array [where A = "\<lambda>ys i. c\<lparr>kind := ConditionAttributes (a\<lparr>stats := ys, currentStat := i\<rparr>)\<rparr>"])
    (simp_all add: unserializeProp_def unserializeProp_attributes_def read_element_def read_into_u32 attr_defs)

lemma special_roundtrip:
  "length ys = length xs \<Longrightarrow>
   unserialize now (c\<lparr>kind := ConditionAttributes (a\<lparr>specialSkills := ys, currentSpecialSkill := 0\<rparr>)\<rparr>) (write_all CONDITIONATTR_SPECIALSKILLS xs @ s) =
   unserialize now (c\<lparr>kind := ConditionAttributes (a\<lparr>specialSkills := xs, currentSpecialSkill := length xs\<rparr>)\<rparr>) s"
  by (rule unserialize_whole_array [where A = "\<lambda>ys i. c\<lparr>kind := ConditionAttributes (a\<lparr>specialSkills := ys, currentSpecialSkill := i\<rparr>)\<rparr>"])
    (simp_all add: unserializeProp_def unserializeProp_attributes_def read_element_def read_into_u32 attr_defs)

text \<open>One lemma per class: what the class writes takes a new condition to the restored one.\<close>

lemma attributes_roundtrip:
  assumes len: "length (skills a) = 7" "length (specialSkills a) = 6" "length (stats a) = 4"
  shows "unserialize now (c\<lparr>kind := ConditionAttributes new_attributes\<rparr>) (serialize_attributes a @ CONDITIONATTR_END # s) =
    (Value (c\<lparr>kind := ConditionAttributes (restored_attributes a)\<rparr>), s)"
proof -
  let ?a1 = "new_attributes\<lparr>skills := skills a, currentSkill := 7\<rparr>"
  let ?a2 = "?a1\<lparr>stats := stats a, currentStat := 4\<rparr>"
  let ?a3 = "?a2\<lparr>disableDefense := disableDefense a\<rparr>"
  let ?a4 = "?a3\<lparr>specialSkills := specialSkills a, currentSpecialSkill := 6\<rparr>"
  let ?s3 = "write_all CONDITIONATTR_SPECIALSKILLS (specialSkills a) @ CONDITIONATTR_END # s"
  have 1: "unserialize now (c\<lparr>kind := ConditionAttributes new_attributes\<rparr>) (write_all CONDITIONATTR_SKILLS (skills a) @ t) =
      unserialize now (c\<lparr>kind := ConditionAttributes ?a1\<rparr>) t" for t
    using skills_roundtrip [of "replicate 7 0" "skills a" now new_attributes c t] len by (simp add: new_attributes_def)
  have 2: "unserialize now (c\<lparr>kind := ConditionAttributes ?a1\<rparr>) (write_all CONDITIONATTR_STATS (stats a) @ t) =
      unserialize now (c\<lparr>kind := ConditionAttributes ?a2\<rparr>) t" for t
    using stats_roundtrip [of "replicate 4 0" "stats a" now ?a1 c t] len by (simp add: new_attributes_def)
  have 3: "unserialize now (c\<lparr>kind := ConditionAttributes ?a2\<rparr>) (CONDITIONATTR_DISABLEDEFENSE # of_bool (disableDefense a) # t) =
      unserialize now (c\<lparr>kind := ConditionAttributes ?a3\<rparr>) t" for t
    by (rule unserialize_step) (simp_all add: unserializeProp_def unserializeProp_attributes_def read_into_byte attr_defs)
  have 4: "unserialize now (c\<lparr>kind := ConditionAttributes ?a3\<rparr>) ?s3 = unserialize now (c\<lparr>kind := ConditionAttributes ?a4\<rparr>) (CONDITIONATTR_END # s)"
    using special_roundtrip [of "replicate 6 0" "specialSkills a" now ?a3 c "CONDITIONATTR_END # s"] len by (simp add: new_attributes_def)
  have "?a4 = restored_attributes a"
    by (rule condition_attributes.equality) (simp_all add: restored_attributes_def new_attributes_def)
  then show ?thesis by (simp add: serialize_attributes_def 1 2 3 4 unserialize_end)
qed

lemma regeneration_step:
  "unserialize now (c\<lparr>kind := ConditionRegeneration q\<rparr>) (CONDITIONATTR_HEALTHTICKS # ps_write 4 (w :: u32) @ t) =
     unserialize now (c\<lparr>kind := ConditionRegeneration (q\<lparr>healthTicks := w\<rparr>)\<rparr>) t"
  "unserialize now (c\<lparr>kind := ConditionRegeneration q\<rparr>) (CONDITIONATTR_HEALTHGAIN # ps_write 4 (w :: u32) @ t) =
     unserialize now (c\<lparr>kind := ConditionRegeneration (q\<lparr>healthGain := w\<rparr>)\<rparr>) t"
  "unserialize now (c\<lparr>kind := ConditionRegeneration q\<rparr>) (CONDITIONATTR_MANATICKS # ps_write 4 (w :: u32) @ t) =
     unserialize now (c\<lparr>kind := ConditionRegeneration (q\<lparr>manaTicks := w\<rparr>)\<rparr>) t"
  "unserialize now (c\<lparr>kind := ConditionRegeneration q\<rparr>) (CONDITIONATTR_MANAGAIN # ps_write 4 (w :: u32) @ t) =
     unserialize now (c\<lparr>kind := ConditionRegeneration (q\<lparr>manaGain := w\<rparr>)\<rparr>) t"
  by (rule unserialize_step; simp add: unserializeProp_def unserializeProp_regeneration_def read_into_u32 read_into_byte attr_defs)+

lemma regeneration_roundtrip:
  "unserialize now (c\<lparr>kind := ConditionRegeneration new_regeneration\<rparr>) (serialize_regeneration r @ CONDITIONATTR_END # s) =
    (Value (c\<lparr>kind := ConditionRegeneration (r\<lparr>internalHealthTicks := 0, internalManaTicks := 0\<rparr>)\<rparr>), s)"
proof -
  have "new_regeneration\<lparr>healthTicks := healthTicks r, healthGain := healthGain r, manaTicks := manaTicks r, manaGain := manaGain r\<rparr>
      = r\<lparr>internalHealthTicks := 0, internalManaTicks := 0\<rparr>"
    by (rule condition_regeneration.equality) (simp_all add: new_regeneration_def)
  then show ?thesis by (simp add: serialize_regeneration_def regeneration_step unserialize_end)
qed

lemma soul_step:
  "unserialize now (c\<lparr>kind := ConditionSoul q\<rparr>) (CONDITIONATTR_SOULGAIN # ps_write 4 (w :: u32) @ t) =
     unserialize now (c\<lparr>kind := ConditionSoul (q\<lparr>soulGain := w\<rparr>)\<rparr>) t"
  "unserialize now (c\<lparr>kind := ConditionSoul q\<rparr>) (CONDITIONATTR_SOULTICKS # ps_write 4 (w :: u32) @ t) =
     unserialize now (c\<lparr>kind := ConditionSoul (q\<lparr>soulTicks := w\<rparr>)\<rparr>) t"
  by (rule unserialize_step; simp add: unserializeProp_def unserializeProp_soul_def read_into_u32 read_into_byte attr_defs)+

lemma soul_roundtrip:
  "unserialize now (c\<lparr>kind := ConditionSoul new_soul\<rparr>) (serialize_soul r @ CONDITIONATTR_END # s) =
    (Value (c\<lparr>kind := ConditionSoul (r\<lparr>internalSoulTicks := 0\<rparr>)\<rparr>), s)"
proof -
  have "new_soul\<lparr>soulGain := soulGain r, soulTicks := soulTicks r\<rparr> = r\<lparr>internalSoulTicks := 0\<rparr>"
    by (rule condition_soul.equality) (simp_all add: new_soul_def)
  then show ?thesis by (simp add: serialize_soul_def soul_step unserialize_end)
qed

lemma speed_step:
  "unserialize now (c\<lparr>kind := ConditionSpeed q\<rparr>) (CONDITIONATTR_SPEEDDELTA # ps_write 4 (w :: u32) @ t) =
     unserialize now (c\<lparr>kind := ConditionSpeed (q\<lparr>speedDelta := w\<rparr>)\<rparr>) t"
  "unserialize now (c\<lparr>kind := ConditionSpeed q\<rparr>) (CONDITIONATTR_FORMULA_MINA # ps_write 4 (w :: u32) @ t) =
     unserialize now (c\<lparr>kind := ConditionSpeed (q\<lparr>mina := w\<rparr>)\<rparr>) t"
  "unserialize now (c\<lparr>kind := ConditionSpeed q\<rparr>) (CONDITIONATTR_FORMULA_MINB # ps_write 4 (w :: u32) @ t) =
     unserialize now (c\<lparr>kind := ConditionSpeed (q\<lparr>minb := w\<rparr>)\<rparr>) t"
  "unserialize now (c\<lparr>kind := ConditionSpeed q\<rparr>) (CONDITIONATTR_FORMULA_MAXA # ps_write 4 (w :: u32) @ t) =
     unserialize now (c\<lparr>kind := ConditionSpeed (q\<lparr>maxa := w\<rparr>)\<rparr>) t"
  "unserialize now (c\<lparr>kind := ConditionSpeed q\<rparr>) (CONDITIONATTR_FORMULA_MAXB # ps_write 4 (w :: u32) @ t) =
     unserialize now (c\<lparr>kind := ConditionSpeed (q\<lparr>maxb := w\<rparr>)\<rparr>) t"
  by (rule unserialize_step; simp add: unserializeProp_def unserializeProp_speed_def read_into_u32 read_into_byte attr_defs)+

lemma speed_roundtrip:
  "unserialize now (c\<lparr>kind := ConditionSpeed (new_speed 0)\<rparr>) (serialize_speed v @ CONDITIONATTR_END # s) =
    (Value (c\<lparr>kind := ConditionSpeed v\<rparr>), s)"
proof -
  have "(new_speed 0)\<lparr>speedDelta := speedDelta v, mina := mina v, minb := minb v, maxa := maxa v, maxb := maxb v\<rparr> = v"
    by (rule condition_speed.equality) (simp_all add: new_speed_def)
  then show ?thesis by (simp add: serialize_speed_def speed_step unserialize_end)
qed

lemma light_step:
  "unserialize now (c\<lparr>kind := ConditionLight q\<rparr>) (CONDITIONATTR_LIGHTCOLOR # ps_write 4 (w :: u32) @ t) =
     unserialize now (c\<lparr>kind := ConditionLight (q\<lparr>lightColor := ucast w\<rparr>)\<rparr>) t"
  "unserialize now (c\<lparr>kind := ConditionLight q\<rparr>) (CONDITIONATTR_LIGHTLEVEL # ps_write 4 (w :: u32) @ t) =
     unserialize now (c\<lparr>kind := ConditionLight (q\<lparr>lightLevel := ucast w\<rparr>)\<rparr>) t"
  "unserialize now (c\<lparr>kind := ConditionLight q\<rparr>) (CONDITIONATTR_LIGHTTICKS # ps_write 4 (w :: u32) @ t) =
     unserialize now (c\<lparr>kind := ConditionLight (q\<lparr>internalLightTicks := w\<rparr>)\<rparr>) t"
  "unserialize now (c\<lparr>kind := ConditionLight q\<rparr>) (CONDITIONATTR_LIGHTINTERVAL # ps_write 4 (w :: u32) @ t) =
     unserialize now (c\<lparr>kind := ConditionLight (q\<lparr>lightChangeInterval := w\<rparr>)\<rparr>) t"
  by (rule unserialize_step; simp add: unserializeProp_def unserializeProp_light_def read_into_u32 read_into_byte attr_defs)+

lemma byte_cast: "ucast (ucast (v :: u8) :: u32) = v"
  by (rule bit_word_eqI) (auto simp: bit_simps)

lemma light_roundtrip:
  "unserialize now (c\<lparr>kind := ConditionLight l0\<rparr>) (serialize_light l @ CONDITIONATTR_END # s) =
    (Value (c\<lparr>kind := ConditionLight l\<rparr>), s)"
proof -
  have "l0\<lparr>lightColor := lightColor l, lightLevel := lightLevel l, internalLightTicks := internalLightTicks l,
      lightChangeInterval := lightChangeInterval l\<rparr> = l"
    by (rule condition_light.equality) simp_all
  then show ?thesis by (simp add: serialize_light_def light_step unserialize_end byte_cast)
qed

lemma read_outfit_bytes: "length (outfit_bytes pad v) = 12" "read_outfit (outfit_bytes pad v @ s) = v"
  by (simp_all add: outfit_bytes_def read_outfit_def ps_write_def of_le_le_bytes nth_append)

lemma outfit_roundtrip:
  "unserialize now (c\<lparr>kind := ConditionOutfit v0\<rparr>) (CONDITIONATTR_OUTFIT # outfit_bytes pad v @ CONDITIONATTR_END # s) =
    (Value (c\<lparr>kind := ConditionOutfit v\<rparr>), s)"
proof -
  have "unserialize now (c\<lparr>kind := ConditionOutfit v0\<rparr>) (CONDITIONATTR_OUTFIT # outfit_bytes pad v @ CONDITIONATTR_END # s) =
      unserialize now (c\<lparr>kind := ConditionOutfit v\<rparr>) (CONDITIONATTR_END # s)"
    by (rule unserialize_step)
      (simp_all add: unserializeProp_def unserializeProp_outfit_def read_outfit_bytes attr_defs)
  then show ?thesis by (simp add: unserialize_end)
qed

lemma damage_step:
  "unserialize now (c\<lparr>kind := ConditionDamage q\<rparr>) (CONDITIONATTR_DELAYED # of_bool b # t) =
     unserialize now (c\<lparr>kind := ConditionDamage (q\<lparr>delayed := b\<rparr>)\<rparr>) t"
  "unserialize now (c\<lparr>kind := ConditionDamage q\<rparr>) (CONDITIONATTR_PERIODDAMAGE # ps_write 4 (w :: u32) @ t) =
     unserialize now (c\<lparr>kind := ConditionDamage (q\<lparr>periodDamage := w\<rparr>)\<rparr>) t"
  by (rule unserialize_step; simp add: unserializeProp_def unserializeProp_damage_def read_into_u32 read_into_byte attr_defs)+

lemma read_interval_bytes: "length (interval_bytes i) = 12" "read_interval (interval_bytes i @ s) = i"
  by (simp_all add: interval_bytes_def read_interval_def ps_write_def of_le_le_bytes)

lemma sint_plus: "0 \<le> sint (a :: u32) \<Longrightarrow> 0 \<le> sint b \<Longrightarrow> sint a + sint b < 2 ^ 31 \<Longrightarrow> sint (a + b) = sint a + sint b"
  by (simp add: sint_word_ariths signed_take_bit_int_eq_self)

lemma interval_step:
  "unserialize now (c\<lparr>kind := ConditionDamage d\<rparr>) (CONDITIONATTR_INTERVALDATA # interval_bytes i @ s) =
   unserialize now (add_interval now d i (c\<lparr>kind := ConditionDamage d\<rparr>)) s"
  by (rule unserialize_step) (simp_all add: unserializeProp_def unserializeProp_damage_def read_interval_bytes attr_defs)

lemma intervals_roundtrip:
  assumes "0 \<le> sint (ticks c)" "\<forall>i\<in>set is. 0 \<le> sint (interval i)"
    and "sint (ticks c) + sum_list (map (\<lambda>i. sint (interval i)) is) < 2 ^ 31"
  shows "unserialize now (c\<lparr>kind := ConditionDamage d\<rparr>)
      (concat (map (\<lambda>i. CONDITIONATTR_INTERVALDATA # interval_bytes i) is) @ CONDITIONATTR_END # s) =
    (Value (c\<lparr>ticks := ticks c + sum_list (map interval is),
              endTime := (if is = [] then endTime c else sint (ticks c + sum_list (map interval is)) + now),
              kind := ConditionDamage (d\<lparr>damageList := damageList d @ is\<rparr>)\<rparr>), s)"
  using assms
proof (induction "is" arbitrary: c d)
  case Nil
  then show ?case by (simp add: unserialize_end)
next
  case (Cons i "is")
  have pos: "0 \<le> sum_list (map (\<lambda>i. sint (interval i)) is)" using Cons.prems by (intro sum_list_nonneg) auto
  let ?c = "c\<lparr>ticks := ticks c + interval i, endTime := sint (ticks c + interval i) + now\<rparr>"
  let ?d = "d\<lparr>damageList := damageList d @ [i]\<rparr>"
  have sum: "sint (ticks c + interval i) = sint (ticks c) + sint (interval i)"
    using Cons.prems pos by (intro sint_plus) auto
  have "ticks c \<noteq> -1" using Cons.prems(1) by auto
  then have "add_interval now d i (c\<lparr>kind := ConditionDamage d\<rparr>) = ?c\<lparr>kind := ConditionDamage ?d\<rparr>"
    by (intro condition.equality) (simp_all add: add_interval_def setTicks_def Let_def)
  then have "unserialize now (c\<lparr>kind := ConditionDamage d\<rparr>)
      (concat (map (\<lambda>i. CONDITIONATTR_INTERVALDATA # interval_bytes i) (i # is)) @ CONDITIONATTR_END # s) =
    unserialize now (?c\<lparr>kind := ConditionDamage ?d\<rparr>)
      (concat (map (\<lambda>i. CONDITIONATTR_INTERVALDATA # interval_bytes i) is) @ CONDITIONATTR_END # s)"
    by (simp add: interval_step)
  also have "\<dots> = (Value (?c\<lparr>ticks := ticks ?c + sum_list (map interval is),
              endTime := (if is = [] then endTime ?c else sint (ticks ?c + sum_list (map interval is)) + now),
              kind := ConditionDamage (?d\<lparr>damageList := damageList ?d @ is\<rparr>)\<rparr>), s)"
    by (rule Cons.IH) (use Cons.prems sum in \<open>simp_all add: algebra_simps\<close>)
  also have "\<dots> = (Value (c\<lparr>ticks := ticks c + sum_list (map interval (i # is)),
              endTime := (if i # is = [] then endTime c else sint (ticks c + sum_list (map interval (i # is))) + now),
              kind := ConditionDamage (d\<lparr>damageList := damageList d @ i # is\<rparr>)\<rparr>), s)"
    by (auto simp: add.assoc intro!: condition.equality)
  finally show ?case .
qed

lemma damage_roundtrip:
  assumes "\<forall>i\<in>set (damageList d). 0 \<le> sint (interval i)" "sum_list (map (\<lambda>i. sint (interval i)) (damageList d)) < 2 ^ 31"
    and "ticks c = 0"
  shows "unserialize now (c\<lparr>kind := ConditionDamage new_damage\<rparr>) (serialize_damage d @ CONDITIONATTR_END # s) =
    (Value (c\<lparr>ticks := total_interval d,
              endTime := (if damageList d = [] then endTime c else sint (total_interval d) + now),
              kind := ConditionDamage (restored_damage d)\<rparr>), s)"
  using intervals_roundtrip [of c "damageList d" now "new_damage\<lparr>delayed := delayed d, periodDamage := periodDamage d\<rparr>" s] assms
  by (simp add: serialize_damage_def damage_step total_interval_def restored_damage_def) (simp add: new_damage_def)

lemma unserialize_nothing: "unserialize now c ([] @ CONDITIONATTR_END # s) = (Value c, s)"
  by (simp add: unserialize_end)

lemma condition_kind_update [simp]: "c\<lparr>kind := kind c\<rparr> = c"
  by simp

lemmas create_simps = createCondition_def damage_types_def generic_types_def type_defs new_condition_def

definition serialize_kind :: "u8 \<Rightarrow> condition_kind \<Rightarrow> bytes" where
  "serialize_kind pad k =
     (case k of
        ConditionAttributes a \<Rightarrow> serialize_attributes a
      | ConditionRegeneration r \<Rightarrow> serialize_regeneration r
      | ConditionSoul r \<Rightarrow> serialize_soul r
      | ConditionDamage d \<Rightarrow> serialize_damage d
      | ConditionSpeed v \<Rightarrow> serialize_speed v
      | ConditionOutfit v \<Rightarrow> CONDITIONATTR_OUTFIT # outfit_bytes pad v
      | ConditionLight l \<Rightarrow> serialize_light l
      | _ \<Rightarrow> [])"

lemma serialize_split: "serialize pad c = serialize_base c @ serialize_kind pad (kind c)"
  by (simp add: serialize_def serialize_kind_def)

text \<open>What the header of a stored condition creates.\<close>

definition created :: "condition \<Rightarrow> condition_kind \<Rightarrow> condition" where
  "created c k = c\<lparr>endTime := (if ticks c = -1 then INT64_MAX else 0), kind := k\<rparr>"

definition created_kind :: "condition_kind \<Rightarrow> condition_kind" where
  "created_kind k =
     (case k of
        ConditionAttributes a \<Rightarrow> ConditionAttributes new_attributes
      | ConditionRegeneration r \<Rightarrow> ConditionRegeneration new_regeneration
      | ConditionSoul r \<Rightarrow> ConditionSoul new_soul
      | ConditionDamage d \<Rightarrow> ConditionDamage new_damage
      | ConditionSpeed v \<Rightarrow> ConditionSpeed (new_speed 0)
      | ConditionOutfit v \<Rightarrow> ConditionOutfit new_outfit
      | ConditionLight l \<Rightarrow> ConditionLight (new_light 0 0)
      | ConditionDrunk v \<Rightarrow> ConditionDrunk 25
      | k \<Rightarrow> k)"

definition created_base :: "condition \<Rightarrow> condition" where
  "created_base c =
     (case kind c of
        ConditionDamage d \<Rightarrow> c\<lparr>ticks := 0\<rparr>
      | ConditionSpellCooldown \<Rightarrow> c\<lparr>aggressive := False\<rparr>
      | ConditionSpellGroupCooldown \<Rightarrow> c\<lparr>aggressive := False\<rparr>
      | _ \<Rightarrow> c)"

lemma new_condition_created:
  "new_condition (condition_id c) (conditionType c) (ticks c) (isBuff c) (subId c) (aggressive c) k = created c k"
  by (intro condition.equality) (simp_all add: new_condition_def created_def)

lemma create_damage:
  "type \<in> set damage_types \<Longrightarrow> createCondition i type t p b s a = Some (new_condition i type 0 b s a (ConditionDamage new_damage))"
  by (simp only: createCondition_def if_True)

lemma create_speed:
  "type = CONDITION_HASTE \<or> type = CONDITION_PARALYZE \<Longrightarrow>
     createCondition i type t p b s a = Some (new_condition i type t b s a (ConditionSpeed (new_speed p)))"
  by (elim disjE) (simp_all add: createCondition_def damage_types_def type_defs)

lemma create_generic:
  "type \<in> set generic_types \<Longrightarrow> createCondition i type t p b s a = Some (new_condition i type t b s a ConditionGeneric)"
proof -
  assume "type \<in> set generic_types"
  then have "type \<notin> set damage_types" "type \<notin> {CONDITION_HASTE, CONDITION_PARALYZE, CONDITION_INVISIBLE, CONDITION_OUTFIT,
      CONDITION_LIGHT, CONDITION_REGENERATION, CONDITION_SOUL, CONDITION_ATTRIBUTES, CONDITION_DRUNK, CONDITION_SPELLCOOLDOWN,
      CONDITION_SPELLGROUPCOOLDOWN}"
    by (auto simp: generic_types_def damage_types_def type_defs)
  then show ?thesis using \<open>type \<in> set generic_types\<close> by (simp add: createCondition_def)
qed

lemma create_others:
  "createCondition i CONDITION_INVISIBLE t p b s a = Some (new_condition i CONDITION_INVISIBLE t b s a ConditionInvisible)"
  "createCondition i CONDITION_OUTFIT t p b s a = Some (new_condition i CONDITION_OUTFIT t b s a (ConditionOutfit new_outfit))"
  "createCondition i CONDITION_LIGHT t 0 b s a = Some (new_condition i CONDITION_LIGHT t b s a (ConditionLight (new_light 0 0)))"
  "createCondition i CONDITION_REGENERATION t p b s a = Some (new_condition i CONDITION_REGENERATION t b s a (ConditionRegeneration new_regeneration))"
  "createCondition i CONDITION_SOUL t p b s a = Some (new_condition i CONDITION_SOUL t b s a (ConditionSoul new_soul))"
  "createCondition i CONDITION_ATTRIBUTES t p b s a = Some (new_condition i CONDITION_ATTRIBUTES t b s a (ConditionAttributes new_attributes))"
  "createCondition i CONDITION_DRUNK t 0 b s a = Some (new_condition i CONDITION_DRUNK t b s a (ConditionDrunk 25))"
  "createCondition i CONDITION_SPELLCOOLDOWN t p b s a = Some (new_condition i CONDITION_SPELLCOOLDOWN t b s False ConditionSpellCooldown)"
  "createCondition i CONDITION_SPELLGROUPCOOLDOWN t p b s a = Some (new_condition i CONDITION_SPELLGROUPCOOLDOWN t b s False ConditionSpellGroupCooldown)"
  by (simp_all add: createCondition_def damage_types_def type_defs new_drunk_def)

lemma createCondition_created:
  assumes "condition_ok c"
  shows "createCondition (condition_id c) (conditionType c) (ticks c) 0 (isBuff c) (subId c) (aggressive c) =
    Some (created (created_base c) (created_kind (kind c)))"
proof -
  have "createCondition (condition_id c) (conditionType c) (ticks c) 0 (isBuff c) (subId c) (aggressive c) =
      Some (new_condition (condition_id (created_base c)) (conditionType (created_base c)) (ticks (created_base c))
        (isBuff (created_base c)) (subId (created_base c)) (aggressive (created_base c)) (created_kind (kind c)))"
    using assms
    by (cases "kind c")
      (auto simp: condition_ok_def shape_ok_def intervals_ok_def created_kind_def created_base_def create_damage create_speed create_generic create_others)
  then show ?thesis by (simp only: new_condition_created)
qed

lemma kind_roundtrip:
  assumes "condition_ok c"
  shows "unserialize now (created (created_base c) (created_kind (kind c))) (serialize_kind pad (kind c) @ CONDITIONATTR_END # s) =
    (Value (restored now c), s)"
proof -
  let ?c = "\<lambda>k. (created_base c)\<lparr>endTime := (if ticks (created_base c) = -1 then INT64_MAX else 0), kind := k\<rparr>"
  have fin: "unserialize now x (CONDITIONATTR_END # s) = (Value x, s)" for x by (rule unserialize_end)
  note defs = created_kind_def serialize_kind_def created_base_def restored_def
  show ?thesis
  proof (cases "kind c")
    case (ConditionAttributes a)
    then show ?thesis
      using attributes_roundtrip [of a now "?c ConditionGeneric" s] assms
      by (simp add: created_def defs condition_ok_def shape_ok_def intervals_ok_def)
  next
    case (ConditionRegeneration r)
    then show ?thesis
      using regeneration_roundtrip [of now "?c ConditionGeneric" r s] by (simp add: created_def defs)
  next
    case (ConditionSoul r)
    then show ?thesis
      using soul_roundtrip [of now "?c ConditionGeneric" r s] by (simp add: created_def defs)
  next
    case (ConditionDamage d)
    then show ?thesis
      using damage_roundtrip [of d "?c ConditionGeneric" now s] assms
      by (simp add: created_def defs condition_ok_def shape_ok_def intervals_ok_def)
  next
    case (ConditionSpeed v)
    then show ?thesis
      using speed_roundtrip [of now "?c ConditionGeneric" v s] by (simp add: created_def defs)
  next
    case (ConditionOutfit v)
    then show ?thesis
      using outfit_roundtrip [of now new_outfit "?c ConditionGeneric" pad v s] by (simp add: created_def defs)
  next
    case (ConditionLight l)
    then show ?thesis
      using light_roundtrip [of now "new_light 0 0" "?c ConditionGeneric" l s] by (simp add: created_def defs)
  qed (simp_all add: created_def defs fin)
qed

text \<open>Stored conditions come back in reverse order.\<close>

lemma loadConditions_step:
  assumes "condition_ok c"
  shows "loadConditions now (serialize pad c @ CONDITIONATTR_END # s) stored = loadConditions now s (restored now c # stored)"
  using createCondition_created [OF assms] kind_roundtrip [OF assms, of now pad s]
  by (subst loadConditions.simps) (simp add: serialize_split header_roundtrip)

lemma loadConditions_Nil: "loadConditions now [] stored = Some stored"
  by (subst loadConditions.simps) (simp add: createCondition_stream_def expect_def stream_simps)

lemma loadConditions_save:
  assumes "\<forall>c\<in>set cs. condition_ok c"
  shows "loadConditions now (saveConditions pad cs) stored = Some (rev (map (restored now) (filter isPersistent cs)) @ stored)"
  using assms
proof (induction cs arbitrary: stored)
  case Nil
  then show ?case by (simp add: saveConditions_def loadConditions_Nil)
next
  case (Cons c cs)
  have "saveConditions pad (c # cs) = (if isPersistent c then serialize pad c @ CONDITIONATTR_END # saveConditions pad cs else saveConditions pad cs)"
    by (simp add: saveConditions_def)
  with Cons show ?case by (simp add: loadConditions_step)
qed

section \<open>The theorems\<close>

text \<open>
  C18: a logout and a login.  Whatever list of well-formed conditions a player has, loading what was
  saved gives every persistent one back, in reverse order, with all its stored members, and reads
  the stream to its end.
\<close>

theorem conditions_roundtrip:
  assumes "\<forall>c\<in>set cs. condition_ok c"
  shows "loadConditions now (saveConditions pad cs) [] = Some (rev (map (restored now) (filter isPersistent cs)))"
  using loadConditions_save [OF assms, of now pad "[]"] by simp

definition sample_poison :: condition where
  "sample_poison = \<lparr>endTime = 5000, subId = 0, ticks = 4000, conditionType = CONDITION_POISON, isBuff = False,
     aggressive = True, condition_id = CONDITIONID_COMBAT,
     kind = ConditionDamage (new_damage\<lparr>delayed := True,
       damageList := [\<lparr>timeLeft = 1500, interval_value = -5, interval = 2000\<rparr>, \<lparr>timeLeft = 2000, interval_value = -4, interval = 2000\<rparr>]\<rparr>)\<rparr>"

definition sample_light :: condition where
  "sample_light = \<lparr>endTime = 9000, subId = 3, ticks = 8000, conditionType = CONDITION_LIGHT, isBuff = True,
     aggressive = False, condition_id = CONDITIONID_DEFAULT,
     kind = ConditionLight \<lparr>lightLevel = 7, lightColor = 215, internalLightTicks = 10, lightChangeInterval = 1000\<rparr>\<rparr>"

lemma conditions_roundtrip_witness:
  "loadConditions 100000 (saveConditions 0 [sample_poison, sample_light, sample_light\<lparr>ticks := -1\<rparr>]) [] =
     Some [sample_light\<lparr>endTime := 0\<rparr>, restored 100000 sample_poison] \<and>
   ticks (restored 100000 sample_poison) = 4000 \<and> endTime (restored 100000 sample_poison) = 104000"
proof -
  have ok: "\<forall>c\<in>set [sample_poison, sample_light, sample_light\<lparr>ticks := -1\<rparr>]. condition_ok c"
    by (simp add: condition_ok_def shape_ok_def intervals_ok_def sample_poison_def sample_light_def damage_types_def)
  have "filter isPersistent [sample_poison, sample_light, sample_light\<lparr>ticks := -1\<rparr>] = [sample_poison, sample_light]"
    by (simp add: isPersistent_def sample_poison_def sample_light_def CONDITIONID_DEFAULT_def CONDITIONID_COMBAT_def)
  moreover have "restored 100000 sample_light = sample_light\<lparr>endTime := 0\<rparr>"
    by (simp add: restored_def sample_light_def)
  moreover have "ticks (restored 100000 sample_poison) = 4000" "endTime (restored 100000 sample_poison) = 104000"
    by (simp_all add: restored_def sample_poison_def total_interval_def)
  ultimately show ?thesis using conditions_roundtrip [OF ok, of 100000 0] by simp
qed

text \<open>
  C19: a stored attribute condition with more than seven skill entries.  The stream is read element
  by element into an array of seven; the eighth write is out of bounds, whatever follows.
\<close>

theorem skills_overflow:
  assumes "length xs > 7"
  shows "fst (unserialize now (c\<lparr>kind := ConditionAttributes new_attributes\<rparr>) (write_all CONDITIONATTR_SKILLS xs @ s)) = OutOfBounds"
proof -
  obtain x ys where xs: "xs = take 7 xs @ x # ys" using assms by (metis id_take_nth_drop)
  have split: "write_all CONDITIONATTR_SKILLS xs @ s =
      write_all CONDITIONATTR_SKILLS (take 7 xs) @ CONDITIONATTR_SKILLS # ps_write 4 x @ write_all CONDITIONATTR_SKILLS ys @ s"
    by (subst xs) (simp add: write_all_def)
  let ?a = "new_attributes\<lparr>skills := take 7 xs, currentSkill := 7\<rparr>"
  have 1: "unserialize now (c\<lparr>kind := ConditionAttributes new_attributes\<rparr>) (write_all CONDITIONATTR_SKILLS (take 7 xs) @ t) =
      unserialize now (c\<lparr>kind := ConditionAttributes ?a\<rparr>) t" for t
    using skills_roundtrip [of "replicate 7 0" "take 7 xs" now new_attributes c t] assms by (simp add: new_attributes_def)
  have 2: "unserializeProp now CONDITIONATTR_SKILLS (c\<lparr>kind := ConditionAttributes ?a\<rparr>) t = (OutOfBounds, t)" for t
    using assms by (simp add: unserializeProp_def unserializeProp_attributes_def read_element_def)
  show ?thesis unfolding split 1
    by (subst unserialize.simps) (simp add: stream_simps 2 CONDITIONATTR_SKILLS_def [symmetric], simp add: attr_defs)
qed

lemma skills_overflow_witness:
  "fst (unserialize 0 (sample_light\<lparr>kind := ConditionAttributes new_attributes\<rparr>)
     (write_all CONDITIONATTR_SKILLS [1, 2, 3, 4, 5, 6, 7, 8] @ [CONDITIONATTR_END])) = OutOfBounds"
  by (rule skills_overflow) simp

end
