(* ===== verification/ConditionParams.thy ===== *)
theory ConditionParams
  imports Conditions
begin

text \<open>
  Parameters of conditions, \<open>src/src/condition.cpp\<close>: \<open>setParam\<close> and \<open>getParam\<close> of every class, through
  which scripts build conditions, and \<open>getIcons\<close>.  The numbers of the parameters are those of
  \<open>ConditionParam_t\<close>; values are 32-bit words read as signed where the code compares them.
\<close>

section \<open>The parameters\<close>

definition CONDITION_PARAM_OWNER :: nat where "CONDITION_PARAM_OWNER = 1"
definition CONDITION_PARAM_TICKS :: nat where "CONDITION_PARAM_TICKS = 2"
definition CONDITION_PARAM_HEALTHGAIN :: nat where "CONDITION_PARAM_HEALTHGAIN = 4"
definition CONDITION_PARAM_HEALTHTICKS :: nat where "CONDITION_PARAM_HEALTHTICKS = 5"
definition CONDITION_PARAM_MANAGAIN :: nat where "CONDITION_PARAM_MANAGAIN = 6"
definition CONDITION_PARAM_MANATICKS :: nat where "CONDITION_PARAM_MANATICKS = 7"
definition CONDITION_PARAM_DELAYED :: nat where "CONDITION_PARAM_DELAYED = 8"
definition CONDITION_PARAM_SPEED :: nat where "CONDITION_PARAM_SPEED = 9"
definition CONDITION_PARAM_LIGHT_LEVEL :: nat where "CONDITION_PARAM_LIGHT_LEVEL = 10"
definition CONDITION_PARAM_LIGHT_COLOR :: nat where "CONDITION_PARAM_LIGHT_COLOR = 11"
definition CONDITION_PARAM_SOULGAIN :: nat where "CONDITION_PARAM_SOULGAIN = 12"
definition CONDITION_PARAM_SOULTICKS :: nat where "CONDITION_PARAM_SOULTICKS = 13"
definition CONDITION_PARAM_MINVALUE :: nat where "CONDITION_PARAM_MINVALUE = 14"
definition CONDITION_PARAM_MAXVALUE :: nat where "CONDITION_PARAM_MAXVALUE = 15"
definition CONDITION_PARAM_STARTVALUE :: nat where "CONDITION_PARAM_STARTVALUE = 16"
definition CONDITION_PARAM_TICKINTERVAL :: nat where "CONDITION_PARAM_TICKINTERVAL = 17"
definition CONDITION_PARAM_FORCEUPDATE :: nat where "CONDITION_PARAM_FORCEUPDATE = 18"
definition CONDITION_PARAM_SKILL_MELEE :: nat where "CONDITION_PARAM_SKILL_MELEE = 19"
definition CONDITION_PARAM_SKILL_FIST :: nat where "CONDITION_PARAM_SKILL_FIST = 20"
definition CONDITION_PARAM_SKILL_CLUB :: nat where "CONDITION_PARAM_SKILL_CLUB = 21"
definition CONDITION_PARAM_SKILL_SWORD :: nat where "CONDITION_PARAM_SKILL_SWORD = 22"
definition CONDITION_PARAM_SKILL_AXE :: nat where "CONDITION_PARAM_SKILL_AXE = 23"
definition CONDITION_PARAM_SKILL_DISTANCE :: nat where "CONDITION_PARAM_SKILL_DISTANCE = 24"
definition CONDITION_PARAM_SKILL_SHIELD :: nat where "CONDITION_PARAM_SKILL_SHIELD = 25"
definition CONDITION_PARAM_SKILL_FISHING :: nat where "CONDITION_PARAM_SKILL_FISHING = 26"
definition CONDITION_PARAM_STAT_MAXHITPOINTS :: nat where "CONDITION_PARAM_STAT_MAXHITPOINTS = 27"
definition CONDITION_PARAM_STAT_MAXMANAPOINTS :: nat where "CONDITION_PARAM_STAT_MAXMANAPOINTS = 28"
definition CONDITION_PARAM_STAT_MAGICPOINTS :: nat where "CONDITION_PARAM_STAT_MAGICPOINTS = 30"
definition CONDITION_PARAM_STAT_MAXHITPOINTSPERCENT :: nat where "CONDITION_PARAM_STAT_MAXHITPOINTSPERCENT = 31"
definition CONDITION_PARAM_STAT_MAXMANAPOINTSPERCENT :: nat where "CONDITION_PARAM_STAT_MAXMANAPOINTSPERCENT = 32"
definition CONDITION_PARAM_STAT_MAGICPOINTSPERCENT :: nat where "CONDITION_PARAM_STAT_MAGICPOINTSPERCENT = 34"
definition CONDITION_PARAM_PERIODICDAMAGE :: nat where "CONDITION_PARAM_PERIODICDAMAGE = 35"
definition CONDITION_PARAM_SKILL_MELEEPERCENT :: nat where "CONDITION_PARAM_SKILL_MELEEPERCENT = 36"
definition CONDITION_PARAM_SKILL_FISTPERCENT :: nat where "CONDITION_PARAM_SKILL_FISTPERCENT = 37"
definition CONDITION_PARAM_SKILL_CLUBPERCENT :: nat where "CONDITION_PARAM_SKILL_CLUBPERCENT = 38"
definition CONDITION_PARAM_SKILL_SWORDPERCENT :: nat where "CONDITION_PARAM_SKILL_SWORDPERCENT = 39"
definition CONDITION_PARAM_SKILL_AXEPERCENT :: nat where "CONDITION_PARAM_SKILL_AXEPERCENT = 40"
definition CONDITION_PARAM_SKILL_DISTANCEPERCENT :: nat where "CONDITION_PARAM_SKILL_DISTANCEPERCENT = 41"
definition CONDITION_PARAM_SKILL_SHIELDPERCENT :: nat where "CONDITION_PARAM_SKILL_SHIELDPERCENT = 42"
definition CONDITION_PARAM_SKILL_FISHINGPERCENT :: nat where "CONDITION_PARAM_SKILL_FISHINGPERCENT = 43"
definition CONDITION_PARAM_BUFF_SPELL :: nat where "CONDITION_PARAM_BUFF_SPELL = 44"
definition CONDITION_PARAM_SUBID :: nat where "CONDITION_PARAM_SUBID = 45"
definition CONDITION_PARAM_FIELD :: nat where "CONDITION_PARAM_FIELD = 46"
definition CONDITION_PARAM_DISABLE_DEFENSE :: nat where "CONDITION_PARAM_DISABLE_DEFENSE = 47"
definition CONDITION_PARAM_SPECIALSKILL_CRITICALHITCHANCE :: nat where "CONDITION_PARAM_SPECIALSKILL_CRITICALHITCHANCE = 48"
definition CONDITION_PARAM_SPECIALSKILL_CRITICALHITAMOUNT :: nat where "CONDITION_PARAM_SPECIALSKILL_CRITICALHITAMOUNT = 49"
definition CONDITION_PARAM_SPECIALSKILL_LIFELEECHCHANCE :: nat where "CONDITION_PARAM_SPECIALSKILL_LIFELEECHCHANCE = 50"
definition CONDITION_PARAM_SPECIALSKILL_LIFELEECHAMOUNT :: nat where "CONDITION_PARAM_SPECIALSKILL_LIFELEECHAMOUNT = 51"
definition CONDITION_PARAM_SPECIALSKILL_MANALEECHCHANCE :: nat where "CONDITION_PARAM_SPECIALSKILL_MANALEECHCHANCE = 52"
definition CONDITION_PARAM_SPECIALSKILL_MANALEECHAMOUNT :: nat where "CONDITION_PARAM_SPECIALSKILL_MANALEECHAMOUNT = 53"
definition CONDITION_PARAM_AGGRESSIVE :: nat where "CONDITION_PARAM_AGGRESSIVE = 54"
definition CONDITION_PARAM_DRUNKENNESS :: nat where "CONDITION_PARAM_DRUNKENNESS = 55"

lemmas param_defs =
  CONDITION_PARAM_OWNER_def CONDITION_PARAM_TICKS_def
  CONDITION_PARAM_HEALTHGAIN_def CONDITION_PARAM_HEALTHTICKS_def
  CONDITION_PARAM_MANAGAIN_def CONDITION_PARAM_MANATICKS_def
  CONDITION_PARAM_DELAYED_def CONDITION_PARAM_SPEED_def
  CONDITION_PARAM_LIGHT_LEVEL_def CONDITION_PARAM_LIGHT_COLOR_def
  CONDITION_PARAM_SOULGAIN_def CONDITION_PARAM_SOULTICKS_def
  CONDITION_PARAM_MINVALUE_def CONDITION_PARAM_MAXVALUE_def
  CONDITION_PARAM_STARTVALUE_def CONDITION_PARAM_TICKINTERVAL_def
  CONDITION_PARAM_FORCEUPDATE_def CONDITION_PARAM_SKILL_MELEE_def
  CONDITION_PARAM_SKILL_FIST_def CONDITION_PARAM_SKILL_CLUB_def
  CONDITION_PARAM_SKILL_SWORD_def CONDITION_PARAM_SKILL_AXE_def
  CONDITION_PARAM_SKILL_DISTANCE_def CONDITION_PARAM_SKILL_SHIELD_def
  CONDITION_PARAM_SKILL_FISHING_def CONDITION_PARAM_STAT_MAXHITPOINTS_def
  CONDITION_PARAM_STAT_MAXMANAPOINTS_def CONDITION_PARAM_STAT_MAGICPOINTS_def
  CONDITION_PARAM_STAT_MAXHITPOINTSPERCENT_def CONDITION_PARAM_STAT_MAXMANAPOINTSPERCENT_def
  CONDITION_PARAM_STAT_MAGICPOINTSPERCENT_def CONDITION_PARAM_PERIODICDAMAGE_def
  CONDITION_PARAM_SKILL_MELEEPERCENT_def CONDITION_PARAM_SKILL_FISTPERCENT_def
  CONDITION_PARAM_SKILL_CLUBPERCENT_def CONDITION_PARAM_SKILL_SWORDPERCENT_def
  CONDITION_PARAM_SKILL_AXEPERCENT_def CONDITION_PARAM_SKILL_DISTANCEPERCENT_def
  CONDITION_PARAM_SKILL_SHIELDPERCENT_def CONDITION_PARAM_SKILL_FISHINGPERCENT_def
  CONDITION_PARAM_BUFF_SPELL_def CONDITION_PARAM_SUBID_def
  CONDITION_PARAM_FIELD_def CONDITION_PARAM_DISABLE_DEFENSE_def
  CONDITION_PARAM_SPECIALSKILL_CRITICALHITCHANCE_def CONDITION_PARAM_SPECIALSKILL_CRITICALHITAMOUNT_def
  CONDITION_PARAM_SPECIALSKILL_LIFELEECHCHANCE_def CONDITION_PARAM_SPECIALSKILL_LIFELEECHAMOUNT_def
  CONDITION_PARAM_SPECIALSKILL_MANALEECHCHANCE_def CONDITION_PARAM_SPECIALSKILL_MANALEECHAMOUNT_def
  CONDITION_PARAM_AGGRESSIVE_def CONDITION_PARAM_DRUNKENNESS_def

text \<open>Indices of skills, special skills and stats are their numbers in \<open>enums.h\<close>.\<close>

definition INT32_MAX :: u32 where
  "INT32_MAX = 0x7FFFFFFF"

definition abs32 :: "u32 \<Rightarrow> u32" where
  "abs32 v = (if sint v < 0 then - v else v)"

definition max32 :: "u32 \<Rightarrow> u32 \<Rightarrow> u32" where
  "max32 a b = (if sint a < sint b then b else a)"

section \<open>Setting\<close>

definition setParam_base :: "nat \<Rightarrow> u32 \<Rightarrow> condition \<Rightarrow> bool \<times> condition" where
  "setParam_base param v c =
     (if param = CONDITION_PARAM_TICKS then (True, c\<lparr>ticks := v\<rparr>)
      else if param = CONDITION_PARAM_BUFF_SPELL then (True, c\<lparr>isBuff := (v \<noteq> 0)\<rparr>)
      else if param = CONDITION_PARAM_SUBID then (True, c\<lparr>subId := v\<rparr>)
      else if param = CONDITION_PARAM_AGGRESSIVE then (True, c\<lparr>aggressive := (v \<noteq> 0)\<rparr>)
      else (False, c))"

definition setParam_attributes :: "nat \<Rightarrow> u32 \<Rightarrow> condition_attributes \<Rightarrow> condition_attributes option" where
  "setParam_attributes param v a =
     (if param = CONDITION_PARAM_SKILL_MELEE then Some (a\<lparr>skills := (skills a)[1 := v, 3 := v, 2 := v]\<rparr>)
      else if param = CONDITION_PARAM_SKILL_MELEEPERCENT then Some (a\<lparr>skillsPercent := (skillsPercent a)[1 := v, 3 := v, 2 := v]\<rparr>)
      else if param = CONDITION_PARAM_SKILL_FIST then Some (a\<lparr>skills := (skills a)[0 := v]\<rparr>)
      else if param = CONDITION_PARAM_SKILL_FISTPERCENT then Some (a\<lparr>skillsPercent := (skillsPercent a)[0 := v]\<rparr>)
      else if param = CONDITION_PARAM_SKILL_CLUB then Some (a\<lparr>skills := (skills a)[1 := v]\<rparr>)
      else if param = CONDITION_PARAM_SKILL_CLUBPERCENT then Some (a\<lparr>skillsPercent := (skillsPercent a)[1 := v]\<rparr>)
      else if param = CONDITION_PARAM_SKILL_SWORD then Some (a\<lparr>skills := (skills a)[2 := v]\<rparr>)
      else if param = CONDITION_PARAM_SKILL_SWORDPERCENT then Some (a\<lparr>skillsPercent := (skillsPercent a)[2 := v]\<rparr>)
      else if param = CONDITION_PARAM_SKILL_AXE then Some (a\<lparr>skills := (skills a)[3 := v]\<rparr>)
      else if param = CONDITION_PARAM_SKILL_AXEPERCENT then Some (a\<lparr>skillsPercent := (skillsPercent a)[3 := v]\<rparr>)
      else if param = CONDITION_PARAM_SKILL_DISTANCE then Some (a\<lparr>skills := (skills a)[4 := v]\<rparr>)
      else if param = CONDITION_PARAM_SKILL_DISTANCEPERCENT then Some (a\<lparr>skillsPercent := (skillsPercent a)[4 := v]\<rparr>)
      else if param = CONDITION_PARAM_SKILL_SHIELD then Some (a\<lparr>skills := (skills a)[5 := v]\<rparr>)
      else if param = CONDITION_PARAM_SKILL_SHIELDPERCENT then Some (a\<lparr>skillsPercent := (skillsPercent a)[5 := v]\<rparr>)
      else if param = CONDITION_PARAM_SKILL_FISHING then Some (a\<lparr>skills := (skills a)[6 := v]\<rparr>)
      else if param = CONDITION_PARAM_SKILL_FISHINGPERCENT then Some (a\<lparr>skillsPercent := (skillsPercent a)[6 := v]\<rparr>)
      else if param = CONDITION_PARAM_SPECIALSKILL_CRITICALHITCHANCE then Some (a\<lparr>specialSkills := (specialSkills a)[0 := v]\<rparr>)
      else if param = CONDITION_PARAM_SPECIALSKILL_CRITICALHITAMOUNT then Some (a\<lparr>specialSkills := (specialSkills a)[1 := v]\<rparr>)
      else if param = CONDITION_PARAM_SPECIALSKILL_LIFELEECHCHANCE then Some (a\<lparr>specialSkills := (specialSkills a)[2 := v]\<rparr>)
      else if param = CONDITION_PARAM_SPECIALSKILL_LIFELEECHAMOUNT then Some (a\<lparr>specialSkills := (specialSkills a)[3 := v]\<rparr>)
      else if param = CONDITION_PARAM_SPECIALSKILL_MANALEECHCHANCE then Some (a\<lparr>specialSkills := (specialSkills a)[4 := v]\<rparr>)
      else if param = CONDITION_PARAM_SPECIALSKILL_MANALEECHAMOUNT then Some (a\<lparr>specialSkills := (specialSkills a)[5 := v]\<rparr>)
      else if param = CONDITION_PARAM_STAT_MAXHITPOINTS then Some (a\<lparr>stats := (stats a)[0 := v]\<rparr>)
      else if param = CONDITION_PARAM_STAT_MAXMANAPOINTS then Some (a\<lparr>stats := (stats a)[1 := v]\<rparr>)
      else if param = CONDITION_PARAM_STAT_MAGICPOINTS then Some (a\<lparr>stats := (stats a)[3 := v]\<rparr>)
      else if param = CONDITION_PARAM_STAT_MAXHITPOINTSPERCENT then Some (a\<lparr>statsPercent := (statsPercent a)[0 := max32 0 v]\<rparr>)
      else if param = CONDITION_PARAM_STAT_MAXMANAPOINTSPERCENT then Some (a\<lparr>statsPercent := (statsPercent a)[1 := max32 0 v]\<rparr>)
      else if param = CONDITION_PARAM_STAT_MAGICPOINTSPERCENT then Some (a\<lparr>statsPercent := (statsPercent a)[3 := max32 0 v]\<rparr>)
      else if param = CONDITION_PARAM_DISABLE_DEFENSE then Some (a\<lparr>disableDefense := (v \<noteq> 0)\<rparr>)
      else None)"

definition setParam_regeneration :: "nat \<Rightarrow> u32 \<Rightarrow> condition_regeneration \<Rightarrow> condition_regeneration option" where
  "setParam_regeneration param v r =
     (if param = CONDITION_PARAM_HEALTHGAIN then Some (r\<lparr>healthGain := v\<rparr>)
      else if param = CONDITION_PARAM_HEALTHTICKS then Some (r\<lparr>healthTicks := v\<rparr>)
      else if param = CONDITION_PARAM_MANAGAIN then Some (r\<lparr>manaGain := v\<rparr>)
      else if param = CONDITION_PARAM_MANATICKS then Some (r\<lparr>manaTicks := v\<rparr>)
      else None)"

definition setParam_soul :: "nat \<Rightarrow> u32 \<Rightarrow> condition_soul \<Rightarrow> condition_soul option" where
  "setParam_soul param v r =
     (if param = CONDITION_PARAM_SOULGAIN then Some (r\<lparr>soulGain := v\<rparr>)
      else if param = CONDITION_PARAM_SOULTICKS then Some (r\<lparr>soulTicks := v\<rparr>)
      else None)"

text \<open>The switch of \<open>ConditionDamage\<close>: whether it returns true by itself, and the new members.\<close>

definition setParam_damage :: "nat \<Rightarrow> u32 \<Rightarrow> condition_damage \<Rightarrow> (bool \<times> condition_damage) option" where
  "setParam_damage param v d =
     (if param = CONDITION_PARAM_OWNER then Some (True, d\<lparr>damage_owner := v\<rparr>)
      else if param = CONDITION_PARAM_FORCEUPDATE then Some (True, d\<lparr>forceUpdate := (v \<noteq> 0)\<rparr>)
      else if param = CONDITION_PARAM_DELAYED then Some (True, d\<lparr>delayed := (v \<noteq> 0)\<rparr>)
      else if param = CONDITION_PARAM_MAXVALUE then Some (False, d\<lparr>maxDamage := abs32 v\<rparr>)
      else if param = CONDITION_PARAM_MINVALUE then Some (False, d\<lparr>minDamage := abs32 v\<rparr>)
      else if param = CONDITION_PARAM_STARTVALUE then Some (False, d\<lparr>startDamage := abs32 v\<rparr>)
      else if param = CONDITION_PARAM_TICKINTERVAL then Some (False, d\<lparr>tickInterval := abs32 v\<rparr>)
      else if param = CONDITION_PARAM_PERIODICDAMAGE then Some (False, d\<lparr>periodDamage := v\<rparr>)
      else if param = CONDITION_PARAM_FIELD then Some (False, d\<lparr>field := (v \<noteq> 0)\<rparr>)
      else None)"

definition setParam_light :: "nat \<Rightarrow> u32 \<Rightarrow> condition_light \<Rightarrow> condition_light option" where
  "setParam_light param v l =
     (if param = CONDITION_PARAM_LIGHT_LEVEL then Some (l\<lparr>lightLevel := ucast v\<rparr>)
      else if param = CONDITION_PARAM_LIGHT_COLOR then Some (l\<lparr>lightColor := ucast v\<rparr>)
      else None)"

definition setParam_speed :: "nat \<Rightarrow> u32 \<Rightarrow> condition_speed \<Rightarrow> condition \<Rightarrow> bool \<times> condition" where
  "setParam_speed param v s c =
     (if param \<noteq> CONDITION_PARAM_SPEED then (False, c)
      else (True, c\<lparr>kind := ConditionSpeed (s\<lparr>speedDelta := v\<rparr>),
                    conditionType := (if sint v > 0 then CONDITION_HASTE else CONDITION_PARALYZE)\<rparr>))"

definition setParam_drunk :: "bool \<Rightarrow> nat \<Rightarrow> u32 \<Rightarrow> condition \<Rightarrow> bool \<times> condition" where
  "setParam_drunk ret param v c =
     (if param = CONDITION_PARAM_DRUNKENNESS then (True, c\<lparr>kind := ConditionDrunk (ucast v)\<rparr>) else (ret, c))"

definition setParam :: "nat \<Rightarrow> u32 \<Rightarrow> condition \<Rightarrow> bool \<times> condition" where
  "setParam param v c =
     (let (ret, c) = setParam_base param v c in
      case kind c of
        ConditionAttributes a \<Rightarrow>
          (case setParam_attributes param v a of
             Some a \<Rightarrow> (True, c\<lparr>kind := ConditionAttributes a\<rparr>)
           | None \<Rightarrow> if param = CONDITION_PARAM_AGGRESSIVE then (True, c\<lparr>aggressive := (v \<noteq> 0)\<rparr>) else (ret, c))
      | ConditionRegeneration r \<Rightarrow>
          (case setParam_regeneration param v r of Some r \<Rightarrow> (True, c\<lparr>kind := ConditionRegeneration r\<rparr>) | None \<Rightarrow> (ret, c))
      | ConditionSoul r \<Rightarrow>
          (case setParam_soul param v r of Some r \<Rightarrow> (True, c\<lparr>kind := ConditionSoul r\<rparr>) | None \<Rightarrow> (ret, c))
      | ConditionDamage d \<Rightarrow>
          (case setParam_damage param v d of
             Some (b, d) \<Rightarrow> (b \<or> ret, c\<lparr>kind := ConditionDamage d\<rparr>) | None \<Rightarrow> (False, c))
      | ConditionSpeed s \<Rightarrow> setParam_speed param v s c
      | ConditionLight l \<Rightarrow>
          (if ret then (False, c)
           else case setParam_light param v l of Some l \<Rightarrow> (True, c\<lparr>kind := ConditionLight l\<rparr>) | None \<Rightarrow> (False, c))
      | ConditionDrunk s \<Rightarrow> setParam_drunk ret param v c
      | _ \<Rightarrow> (ret, c))"

section \<open>Reading\<close>

lemmas setParam_defs = setParam_def setParam_speed_def setParam_drunk_def

definition getParam_base :: "nat \<Rightarrow> condition \<Rightarrow> u32" where
  "getParam_base param c =
     (if param = CONDITION_PARAM_TICKS then ticks c
      else if param = CONDITION_PARAM_BUFF_SPELL then of_bool (isBuff c)
      else if param = CONDITION_PARAM_SUBID then subId c
      else INT32_MAX)"

definition getParam_attributes :: "nat \<Rightarrow> condition_attributes \<Rightarrow> condition \<Rightarrow> u32" where
  "getParam_attributes param a c =
     (if param = CONDITION_PARAM_SKILL_FIST then skills a ! 0
      else if param = CONDITION_PARAM_SKILL_FISTPERCENT then skillsPercent a ! 0
      else if param = CONDITION_PARAM_SKILL_CLUB then skills a ! 1
      else if param = CONDITION_PARAM_SKILL_CLUBPERCENT then skillsPercent a ! 1
      else if param = CONDITION_PARAM_SKILL_SWORD then skills a ! 2
      else if param = CONDITION_PARAM_SKILL_SWORDPERCENT then skillsPercent a ! 2
      else if param = CONDITION_PARAM_SKILL_AXE then skills a ! 3
      else if param = CONDITION_PARAM_SKILL_AXEPERCENT then skillsPercent a ! 3
      else if param = CONDITION_PARAM_SKILL_DISTANCE then skills a ! 4
      else if param = CONDITION_PARAM_SKILL_DISTANCEPERCENT then skillsPercent a ! 4
      else if param = CONDITION_PARAM_SKILL_SHIELD then skills a ! 5
      else if param = CONDITION_PARAM_SKILL_SHIELDPERCENT then skillsPercent a ! 5
      else if param = CONDITION_PARAM_SKILL_FISHING then skills a ! 6
      else if param = CONDITION_PARAM_SKILL_FISHINGPERCENT then skillsPercent a ! 6
      else if param = CONDITION_PARAM_STAT_MAXHITPOINTS then stats a ! 0
      else if param = CONDITION_PARAM_STAT_MAXMANAPOINTS then stats a ! 1
      else if param = CONDITION_PARAM_STAT_MAGICPOINTS then stats a ! 3
      else if param = CONDITION_PARAM_STAT_MAXHITPOINTSPERCENT then statsPercent a ! 0
      else if param = CONDITION_PARAM_STAT_MAXMANAPOINTSPERCENT then statsPercent a ! 1
      else if param = CONDITION_PARAM_STAT_MAGICPOINTSPERCENT then statsPercent a ! 3
      else if param = CONDITION_PARAM_DISABLE_DEFENSE then of_bool (disableDefense a)
      else if param = CONDITION_PARAM_SPECIALSKILL_CRITICALHITCHANCE then specialSkills a ! 0
      else if param = CONDITION_PARAM_SPECIALSKILL_CRITICALHITAMOUNT then specialSkills a ! 1
      else if param = CONDITION_PARAM_SPECIALSKILL_LIFELEECHCHANCE then specialSkills a ! 2
      else if param = CONDITION_PARAM_SPECIALSKILL_LIFELEECHAMOUNT then specialSkills a ! 3
      else if param = CONDITION_PARAM_SPECIALSKILL_MANALEECHCHANCE then specialSkills a ! 4
      else if param = CONDITION_PARAM_SPECIALSKILL_MANALEECHAMOUNT then specialSkills a ! 5
      else getParam_base param c)"

definition getParam_regeneration :: "nat \<Rightarrow> condition_regeneration \<Rightarrow> condition \<Rightarrow> u32" where
  "getParam_regeneration param r c =
     (if param = CONDITION_PARAM_HEALTHGAIN then healthGain r
      else if param = CONDITION_PARAM_HEALTHTICKS then healthTicks r
      else if param = CONDITION_PARAM_MANAGAIN then manaGain r
      else if param = CONDITION_PARAM_MANATICKS then manaTicks r
      else getParam_base param c)"

definition getParam_soul :: "nat \<Rightarrow> condition_soul \<Rightarrow> condition \<Rightarrow> u32" where
  "getParam_soul param r c =
     (if param = CONDITION_PARAM_SOULGAIN then soulGain r
      else if param = CONDITION_PARAM_SOULTICKS then soulTicks r
      else getParam_base param c)"

definition getParam_damage :: "nat \<Rightarrow> condition_damage \<Rightarrow> condition \<Rightarrow> u32" where
  "getParam_damage param d c =
     (if param = CONDITION_PARAM_OWNER then damage_owner d
      else if param = CONDITION_PARAM_FORCEUPDATE then of_bool (forceUpdate d)
      else if param = CONDITION_PARAM_DELAYED then of_bool (delayed d)
      else if param = CONDITION_PARAM_MAXVALUE then maxDamage d
      else if param = CONDITION_PARAM_MINVALUE then minDamage d
      else if param = CONDITION_PARAM_STARTVALUE then startDamage d
      else if param = CONDITION_PARAM_TICKINTERVAL then tickInterval d
      else if param = CONDITION_PARAM_PERIODICDAMAGE then periodDamage d
      else if param = CONDITION_PARAM_FIELD then of_bool (field d)
      else getParam_base param c)"

definition getParam_speed :: "nat \<Rightarrow> condition_speed \<Rightarrow> condition \<Rightarrow> u32" where
  "getParam_speed param s c = (if param = CONDITION_PARAM_SPEED then speedDelta s else getParam_base param c)"

definition getParam_light :: "nat \<Rightarrow> condition_light \<Rightarrow> condition \<Rightarrow> u32" where
  "getParam_light param l c =
     (if param = CONDITION_PARAM_LIGHT_LEVEL then ucast (lightLevel l)
      else if param = CONDITION_PARAM_LIGHT_COLOR then ucast (lightColor l)
      else getParam_base param c)"

definition getParam :: "nat \<Rightarrow> condition \<Rightarrow> u32" where
  "getParam param c =
     (case kind c of
        ConditionAttributes a \<Rightarrow> getParam_attributes param a c
      | ConditionRegeneration r \<Rightarrow> getParam_regeneration param r c
      | ConditionSoul r \<Rightarrow> getParam_soul param r c
      | ConditionDamage d \<Rightarrow> getParam_damage param d c
      | ConditionSpeed s \<Rightarrow> getParam_speed param s c
      | ConditionLight l \<Rightarrow> getParam_light param l c
      | _ \<Rightarrow> getParam_base param c)"

lemmas getParam_defs = getParam_def getParam_regeneration_def getParam_soul_def getParam_damage_def getParam_speed_def
  getParam_light_def

section \<open>What a class can be asked\<close>

text \<open>The parameters a class reads back, and what it makes of a value.\<close>

definition base_params :: "nat list" where
  "base_params = [CONDITION_PARAM_TICKS, CONDITION_PARAM_BUFF_SPELL, CONDITION_PARAM_SUBID]"

definition attribute_params :: "nat list" where
  "attribute_params = [CONDITION_PARAM_SKILL_FIST,
     CONDITION_PARAM_SKILL_FISTPERCENT,
     CONDITION_PARAM_SKILL_CLUB,
     CONDITION_PARAM_SKILL_CLUBPERCENT,
     CONDITION_PARAM_SKILL_SWORD,
     CONDITION_PARAM_SKILL_SWORDPERCENT,
     CONDITION_PARAM_SKILL_AXE,
     CONDITION_PARAM_SKILL_AXEPERCENT,
     CONDITION_PARAM_SKILL_DISTANCE,
     CONDITION_PARAM_SKILL_DISTANCEPERCENT,
     CONDITION_PARAM_SKILL_SHIELD,
     CONDITION_PARAM_SKILL_SHIELDPERCENT,
     CONDITION_PARAM_SKILL_FISHING,
     CONDITION_PARAM_SKILL_FISHINGPERCENT,
     CONDITION_PARAM_STAT_MAXHITPOINTS,
     CONDITION_PARAM_STAT_MAXMANAPOINTS,
     CONDITION_PARAM_STAT_MAGICPOINTS,
     CONDITION_PARAM_STAT_MAXHITPOINTSPERCENT,
     CONDITION_PARAM_STAT_MAXMANAPOINTSPERCENT,
     CONDITION_PARAM_STAT_MAGICPOINTSPERCENT,
     CONDITION_PARAM_DISABLE_DEFENSE,
     CONDITION_PARAM_SPECIALSKILL_CRITICALHITCHANCE,
     CONDITION_PARAM_SPECIALSKILL_CRITICALHITAMOUNT,
     CONDITION_PARAM_SPECIALSKILL_LIFELEECHCHANCE,
     CONDITION_PARAM_SPECIALSKILL_LIFELEECHAMOUNT,
     CONDITION_PARAM_SPECIALSKILL_MANALEECHCHANCE,
     CONDITION_PARAM_SPECIALSKILL_MANALEECHAMOUNT]"

definition damage_params :: "nat list" where
  "damage_params = [CONDITION_PARAM_OWNER, CONDITION_PARAM_FORCEUPDATE, CONDITION_PARAM_DELAYED, CONDITION_PARAM_MAXVALUE,
     CONDITION_PARAM_MINVALUE, CONDITION_PARAM_STARTVALUE, CONDITION_PARAM_TICKINTERVAL, CONDITION_PARAM_PERIODICDAMAGE,
     CONDITION_PARAM_FIELD]"

definition class_params :: "condition_kind \<Rightarrow> nat list" where
  "class_params k =
     (case k of
        ConditionAttributes a \<Rightarrow> attribute_params
      | ConditionRegeneration r \<Rightarrow> [CONDITION_PARAM_HEALTHGAIN, CONDITION_PARAM_HEALTHTICKS, CONDITION_PARAM_MANAGAIN, CONDITION_PARAM_MANATICKS]
      | ConditionSoul r \<Rightarrow> [CONDITION_PARAM_SOULGAIN, CONDITION_PARAM_SOULTICKS]
      | ConditionDamage d \<Rightarrow> damage_params
      | ConditionSpeed s \<Rightarrow> [CONDITION_PARAM_SPEED]
      | ConditionLight l \<Rightarrow> [CONDITION_PARAM_LIGHT_LEVEL, CONDITION_PARAM_LIGHT_COLOR]
      | _ \<Rightarrow> [])"

text \<open>Parameters that can be set and not read.\<close>

definition write_only_params :: "condition_kind \<Rightarrow> nat list" where
  "write_only_params k =
     (case k of
        ConditionAttributes a \<Rightarrow> [CONDITION_PARAM_SKILL_MELEE, CONDITION_PARAM_SKILL_MELEEPERCENT]
      | ConditionDrunk s \<Rightarrow> [CONDITION_PARAM_DRUNKENNESS]
      | _ \<Rightarrow> [])"

definition stored_value :: "nat \<Rightarrow> u32 \<Rightarrow> u32" where
  "stored_value param v =
     (if param \<in> {CONDITION_PARAM_BUFF_SPELL, CONDITION_PARAM_FORCEUPDATE, CONDITION_PARAM_DELAYED, CONDITION_PARAM_FIELD,
        CONDITION_PARAM_DISABLE_DEFENSE} then of_bool (v \<noteq> 0)
      else if param \<in> {CONDITION_PARAM_MAXVALUE, CONDITION_PARAM_MINVALUE, CONDITION_PARAM_STARTVALUE,
        CONDITION_PARAM_TICKINTERVAL} then abs32 v
      else if param \<in> {CONDITION_PARAM_STAT_MAXHITPOINTSPERCENT, CONDITION_PARAM_STAT_MAXMANAPOINTSPERCENT,
        CONDITION_PARAM_STAT_MAGICPOINTSPERCENT} then max32 0 v
      else if param \<in> {CONDITION_PARAM_LIGHT_LEVEL, CONDITION_PARAM_LIGHT_COLOR} then v AND 0xFF
      else v)"

section \<open>The theorem\<close>

text \<open>Setting a parameter of the class.\<close>

lemma byte_mask: "ucast (ucast (v :: u32) :: u8) = v AND 0xFF"
proof -
  have "ucast (ucast v :: u8) = take_bit 8 v" by (rule bit_word_eqI) (auto simp: bit_simps dest: u8_bit_less)
  then show ?thesis by (simp add: take_bit_eq_mask mask_eq_exp_minus_1)
qed

lemma attribute_param:
  assumes "param \<in> set attribute_params" "length (skills a) = 7" "length (skillsPercent a) = 7"
    "length (specialSkills a) = 6" "length (stats a) = 4" "length (statsPercent a) = 4"
  shows "\<exists>a'. setParam_attributes param v a = Some a' \<and> (\<forall>c. getParam_attributes param a' c = stored_value param v)"
  using assms
  by (simp add: attribute_params_def param_defs)
    (elim disjE; simp add: setParam_attributes_def getParam_attributes_def stored_value_def param_defs)

lemma class_base_disjoint: "param \<in> set base_params \<Longrightarrow> param \<notin> set (class_params k)"
  by (cases k; simp add: class_params_def base_params_def attribute_params_def damage_params_def param_defs; elim disjE; simp)

lemma base_param:
  "param \<in> set base_params \<Longrightarrow> getParam_base param (snd (setParam_base param v c)) = stored_value param v"
  by (simp add: base_params_def) (elim disjE; simp add: setParam_base_def getParam_base_def stored_value_def param_defs)

lemma setParam_base_kind [simp]: "kind (snd (setParam_base param v c)) = kind c"
  by (simp add: setParam_base_def)

lemma getParam_base_kind [simp]: "getParam_base param (c\<lparr>kind := k\<rparr>) = getParam_base param c"
  by (simp add: getParam_base_def)

text \<open>None of the parameters of the base class is one of a derived class.\<close>

lemma setParam_base_params:
  assumes "param \<in> set base_params"
  shows "getParam param (snd (setParam param v c)) = getParam_base param (snd (setParam_base param v c))"
proof -
  have p: "param = 2 \<or> param = 44 \<or> param = 45" using assms by (auto simp: base_params_def param_defs)
  have set: "setParam_attributes param v a = None" "setParam_regeneration param v r = None" "setParam_soul param v q = None"
    "setParam_damage param v d = None" "param \<noteq> CONDITION_PARAM_SPEED" "param \<noteq> CONDITION_PARAM_DRUNKENNESS"
    "param \<noteq> CONDITION_PARAM_AGGRESSIVE" "fst (setParam_base param v c)" for a r q d
    using p
    by (elim disjE; simp add: setParam_attributes_def setParam_regeneration_def setParam_soul_def setParam_damage_def
        setParam_base_def param_defs)+
  have attr: "getParam_attributes param a x = getParam_base param x" for a x
    using p by (elim disjE; simp add: getParam_attributes_def param_defs)
  have get: "getParam param x = getParam_base param x" for x
    using p attr by (elim disjE; cases "kind x"; simp add: getParam_defs param_defs)
  show ?thesis unfolding get
    by (cases "kind c") (simp_all add: setParam_defs set case_prod_beta)
qed

lemma class_param:
  assumes "param \<in> set (class_params (kind c))" "condition_ok c"
  shows "getParam param (snd (setParam param v c)) = stored_value param v"
proof (cases "kind c")
  case (ConditionAttributes a)
  have "param \<in> set attribute_params" "length (skills a) = 7" "length (skillsPercent a) = 7"
    "length (specialSkills a) = 6" "length (stats a) = 4" "length (statsPercent a) = 4"
    using assms ConditionAttributes by (simp_all add: class_params_def condition_ok_def shape_ok_def intervals_ok_def)
  from attribute_param [OF this, of v] obtain a' where
    a': "setParam_attributes param v a = Some a'" "\<And>c. getParam_attributes param a' c = stored_value param v" by blast
  then show ?thesis using ConditionAttributes by (simp add: setParam_defs getParam_defs case_prod_beta)
qed (use assms in \<open>simp_all add: class_params_def damage_params_def setParam_defs getParam_defs setParam_base_def
    setParam_regeneration_def setParam_soul_def setParam_damage_def setParam_light_def stored_value_def byte_mask
    param_defs case_prod_beta\<close>, (elim disjE; simp)+)

lemma unknown_param:
  assumes "param \<notin> set (class_params (kind c) @ write_only_params (kind c) @ base_params @ [CONDITION_PARAM_AGGRESSIVE])"
  shows "setParam param v c = (False, c)"
proof -
  have base: "setParam_base param v c = (False, c)" using assms by (auto simp: setParam_base_def base_params_def)
  show ?thesis
    using assms
    by (cases "kind c")
      (auto simp: setParam_defs base class_params_def write_only_params_def attribute_params_def damage_params_def
        setParam_attributes_def setParam_regeneration_def setParam_soul_def setParam_damage_def setParam_light_def)
qed

text \<open>
  C20: parameters.  On a well-formed condition, reading back a parameter of the class or of the base
  class after setting it gives the value in the form the class keeps it (a flag as 0 or 1, a damage
  bound as its absolute value, a stat percentage cut at zero, a light value as a byte); a parameter
  the class does not know is refused and changes nothing.
\<close>

theorem param_roundtrip:
  assumes "condition_ok c"
  shows "(param \<in> set (class_params (kind c) @ base_params) \<longrightarrow>
      getParam param (snd (setParam param v c)) = stored_value param v) \<and>
    (param \<notin> set (class_params (kind c) @ write_only_params (kind c) @ base_params @ [CONDITION_PARAM_AGGRESSIVE]) \<longrightarrow>
      setParam param v c = (False, c))"
  using class_param [OF _ assms] setParam_base_params base_param unknown_param by auto

lemma param_roundtrip_witness:
  "getParam CONDITION_PARAM_MAXVALUE (snd (setParam CONDITION_PARAM_MAXVALUE (-30) sample_poison)) = 30 \<and>
   setParam CONDITION_PARAM_SKILL_FIST 10 sample_poison = (False, sample_poison)"
proof -
  have ok: "condition_ok sample_poison" by (simp add: condition_ok_def shape_ok_def intervals_ok_def sample_poison_def damage_types_def)
  have "CONDITION_PARAM_MAXVALUE \<in> set (class_params (kind sample_poison) @ base_params)"
    "CONDITION_PARAM_SKILL_FIST \<notin> set (class_params (kind sample_poison) @ write_only_params (kind sample_poison) @ base_params @ [CONDITION_PARAM_AGGRESSIVE])"
    by (simp_all add: sample_poison_def class_params_def write_only_params_def damage_params_def base_params_def param_defs)
  moreover have "stored_value CONDITION_PARAM_MAXVALUE (-30) = 30"
    by (simp add: stored_value_def abs32_def param_defs)
  ultimately show ?thesis
    using param_roundtrip [OF ok, of CONDITION_PARAM_MAXVALUE "-30"] param_roundtrip [OF ok, of CONDITION_PARAM_SKILL_FIST 10] by metis
qed

end
