(* ===== verification/CreatureConditions.thy ===== *)
theory CreatureConditions
  imports ConditionParams
begin

text \<open>
  The conditions of a creature, \<open>src/src/creature.cpp\<close> with the virtual operations of
  \<open>condition.cpp\<close>: adding a condition (starting a new one or merging it into the one of the same
  type, id and sub-id), executing all of them, ending and removing them, and what they do to the
  creature while they last: speed, skills, special skills, stats, defence, drunkenness, light and
  outfit.

  An \<open>env\<close> holds what an operation asks of the rest of the server: the time, the delay of the next
  step, the suppressed and immune types, the zone, the field on the tile, the results of random
  and floating-point formulas, and whether damage can be done.  What is sent to clients and what
  happens to health, mana and soul is a log.  A condition of the list is identified by its key;
  None as a result is a division by zero.
\<close>

section \<open>State\<close>

record env =
  now :: int
  walkDelay :: int
  suppressed :: "u32 \<Rightarrow> bool"
  in_protection_zone :: bool
  field_combat :: "u32 option"
  items_light :: "u8 \<times> u8"
  formula_speed :: "condition_speed \<Rightarrow> u32"
  percent_skill :: "nat \<Rightarrow> u32 \<Rightarrow> u32"
  percent_stat :: "nat \<Rightarrow> u32 \<Rightarrow> u32"
  random_damage :: "u32 \<Rightarrow> u32 \<Rightarrow> u32"
  damage_list :: "u32 \<Rightarrow> u32 \<Rightarrow> u32 list"
  can_damage :: "condition \<Rightarrow> u32 \<Rightarrow> bool"
  outfit_allowed :: "outfit \<Rightarrow> bool"
  mount_speed :: u32

datatype (plugins only:) happening =
    Damage u32
  | Heal u32
  | GainMana u32
  | GainSoul u32
  | LightChanged
  | Visible bool
  | OutfitChanged outfit
  | DelayedAdd condition
  | DelayedRemove u32
  | FightEnded

type_synonym condition_key = "u32 \<times> u8 \<times> u32"

definition key :: "condition \<Rightarrow> condition_key" where
  "key c = (conditionType c, condition_id c, subId c)"

record victim =
  conditions :: "condition list"
  varSpeed :: u32
  varSkills :: "nat \<Rightarrow> u32"
  varSpecialSkills :: "nat \<Rightarrow> u32"
  varStats :: "nat \<Rightarrow> u32"
  canUseDefense :: bool
  drunkenness :: u8
  internalLight :: "u8 \<times> u8"
  currentOutfit :: outfit
  defaultOutfit :: outfit
  victim_player :: bool
  happenings :: "happening list"

definition happen :: "happening \<Rightarrow> victim \<Rightarrow> victim" where
  "happen h v = v\<lparr>happenings := happenings v @ [h]\<rparr>"

definition changeSpeed :: "u32 \<Rightarrow> victim \<Rightarrow> victim" where
  "changeSpeed delta v = v\<lparr>varSpeed := varSpeed v + delta\<rparr>"

definition setCreatureLight :: "u8 \<times> u8 \<Rightarrow> victim \<Rightarrow> victim" where
  "setCreatureLight l v = happen LightChanged (v\<lparr>internalLight := l\<rparr>)"

definition getCreatureLight :: "env \<Rightarrow> victim \<Rightarrow> u8 \<times> u8" where
  "getCreatureLight e v =
     (if victim_player v \<and> \<not> fst (internalLight v) > fst (items_light e) then items_light e else internalLight v)"

definition isInvisible :: "victim \<Rightarrow> bool" where
  "isInvisible v \<longleftrightarrow> (\<exists>c\<in>set (conditions v). conditionType c = CONDITION_INVISIBLE)"

definition changeOutfit :: "env \<Rightarrow> outfit \<Rightarrow> victim \<Rightarrow> victim" where
  "changeOutfit e o' v =
     (if \<not> outfit_allowed e o' then v
      else let v = v\<lparr>currentOutfit := o'\<rparr> in if isInvisible v then v else happen (OutfitChanged o') v)"

section \<open>Attributes\<close>

text \<open>The number of skills, special skills and stats.\<close>

definition SKILLS :: nat where "SKILLS = 7"
definition SPECIALSKILLS :: nat where "SPECIALSKILLS = 6"
definition STATS :: nat where "STATS = 4"

definition updatePercentSkills :: "env \<Rightarrow> condition_attributes \<Rightarrow> condition_attributes" where
  "updatePercentSkills e a =
     a\<lparr>skills := map (\<lambda>i. if skillsPercent a ! i = 0 then skills a ! i else percent_skill e i (skillsPercent a ! i)) [0..<SKILLS]\<rparr>"

definition updatePercentStats :: "env \<Rightarrow> condition_attributes \<Rightarrow> condition_attributes" where
  "updatePercentStats e a =
     a\<lparr>stats := map (\<lambda>i. if statsPercent a ! i = 0 \<or> i = 2 then stats a ! i else percent_stat e i (statsPercent a ! i)) [0..<STATS]\<rparr>"

definition updateSkills :: "condition_attributes \<Rightarrow> victim \<Rightarrow> victim" where
  "updateSkills a v =
     v\<lparr>varSkills := (\<lambda>i. if i < SKILLS \<and> skills a ! i \<noteq> 0 then varSkills v i + skills a ! i else varSkills v i),
       varSpecialSkills := (\<lambda>i. if i < SPECIALSKILLS \<and> specialSkills a ! i \<noteq> 0 then varSpecialSkills v i + specialSkills a ! i
                                else varSpecialSkills v i)\<rparr>"

definition updateStats :: "condition_attributes \<Rightarrow> victim \<Rightarrow> victim" where
  "updateStats a v =
     v\<lparr>varStats := (\<lambda>i. if i < STATS \<and> stats a ! i \<noteq> 0 then varStats v i + stats a ! i else varStats v i)\<rparr>"

definition apply_attributes :: "env \<Rightarrow> condition_attributes \<Rightarrow> victim \<Rightarrow> condition_attributes \<times> victim" where
  "apply_attributes e a v =
     (if victim_player v then
        let a = updatePercentSkills e a; v = updateSkills a v; a = updatePercentStats e a
        in (a, updateStats a v)
      else (a, v))"

definition end_attributes :: "condition_attributes \<Rightarrow> victim \<Rightarrow> victim" where
  "end_attributes a v =
     (let v = (if victim_player v then
          v\<lparr>varSkills := (\<lambda>i. if i < SKILLS \<and> (skills a ! i \<noteq> 0 \<or> skillsPercent a ! i \<noteq> 0)
                              then varSkills v i - skills a ! i else varSkills v i),
            varSpecialSkills := (\<lambda>i. if i < SPECIALSKILLS \<and> specialSkills a ! i \<noteq> 0
                              then varSpecialSkills v i - specialSkills a ! i else varSpecialSkills v i),
            varStats := (\<lambda>i. if i < STATS \<and> stats a ! i \<noteq> 0 then varStats v i - stats a ! i else varStats v i)\<rparr>
        else v)
      in if disableDefense a then v\<lparr>canUseDefense := True\<rparr> else v)"

section \<open>Damage\<close>

definition EVENT_CREATURE_THINK_INTERVAL :: u32 where
  "EVENT_CREATURE_THINK_INTERVAL = 1000"

text \<open>\<open>addDamage\<close>; the flag is its result.\<close>

definition addDamage :: "int \<Rightarrow> u32 \<Rightarrow> u32 \<Rightarrow> u32 \<Rightarrow> condition_damage \<Rightarrow> condition \<Rightarrow> bool \<times> condition" where
  "addDamage t rounds time v d c =
     (let time = max32 time EVENT_CREATURE_THINK_INTERVAL in
      if rounds = -1 then
        (True, c\<lparr>ticks := -1, kind := ConditionDamage (d\<lparr>periodDamage := v, tickInterval := abs32 time\<rparr>)\<rparr>)
      else if sint (periodDamage d) > 0 then (False, c)
      else
        let i = \<lparr>timeLeft = time, interval_value = v, interval = time\<rparr>
        in (True, snd (((\<lambda>(d, c). (d\<lparr>damageList := damageList d @ [i]\<rparr>, add_interval t d i c)) ^^ nat (sint rounds)) (d, c))))"

definition the_damage :: "condition \<Rightarrow> condition_damage" where
  "the_damage c = (case kind c of ConditionDamage d \<Rightarrow> d | _ \<Rightarrow> new_damage)"

text \<open>The start value: the maximum if it is above it, or a twentieth of the amount if there is none.\<close>

definition start_value :: "u32 \<Rightarrow> condition_damage \<Rightarrow> u32" where
  "start_value amount d =
     (if sint (startDamage d) > sint (maxDamage d) then maxDamage d
      else if startDamage d = 0 then word_of_int (max 1 (- ((- sint amount) div 20)))
      else startDamage d)"

definition init :: "env \<Rightarrow> condition \<Rightarrow> bool \<times> condition" where
  "init e c =
     (let d = the_damage c in
      if periodDamage d \<noteq> 0 then (True, c)
      else if damageList d \<noteq> [] then (True, c)
      else
        let c = setTicks (now e) 0 c;
            amount = random_damage e (minDamage d) (maxDamage d);
            c = (if amount = 0 then c
                 else
                   let d = d\<lparr>startDamage := start_value amount d\<rparr>;
                       c = c\<lparr>kind := ConditionDamage d\<rparr>
                   in fold (\<lambda>w c. snd (addDamage (now e) 1 (tickInterval (the_damage c)) (- w) (the_damage c) c))
                        (damage_list e amount (startDamage d)) c)
        in (damageList (the_damage c) \<noteq> [], c))"

text \<open>\<open>doDamage\<close>: whether damage was done, which the log records.\<close>

definition doDamage :: "env \<Rightarrow> condition \<Rightarrow> u32 \<Rightarrow> victim \<Rightarrow> bool \<times> victim" where
  "doDamage e c healthChange v =
     (if suppressed e (conditionType c) then (False, v)
      else if can_damage e c healthChange then (True, happen (Damage healthChange) v)
      else (False, v))"

text \<open>\<open>onTickCondition\<close>: a field of the same kind under the creature keeps the condition from being
  used up.\<close>

definition field_of :: "u32 \<Rightarrow> u32 option" where
  "field_of type =
     (if type = CONDITION_FIRE then Some 8
      else if type = CONDITION_ENERGY then Some 2
      else if type = CONDITION_POISON then Some 4
      else if type = CONDITION_FREEZING then Some 512
      else if type = CONDITION_DAZZLED then Some 1024
      else if type = CONDITION_CURSED then Some 2048
      else if type = CONDITION_DROWN then Some 256
      else if type = CONDITION_BLEEDING then Some 1
      else None)"

definition onTickCondition :: "env \<Rightarrow> u32 \<Rightarrow> bool \<Rightarrow> bool" where
  "onTickCondition e type bRemove =
     (case field_combat e of None \<Rightarrow> bRemove
      | Some f \<Rightarrow> (case field_of type of Some g \<Rightarrow> f \<noteq> g | None \<Rightarrow> bRemove))"

section \<open>Starting\<close>

definition start_base :: "env \<Rightarrow> condition \<Rightarrow> condition" where
  "start_base e c = (if sint (ticks c) > 0 then c\<lparr>endTime := sint (ticks c) + now e\<rparr> else c)"

definition light_interval :: "condition \<Rightarrow> u8 \<Rightarrow> u32 option" where
  "light_interval c level = (if level = 0 then None else Some (word_of_int (cdiv (sint (ticks c)) (uint level))))"

definition start_attributes :: "env \<Rightarrow> condition_attributes \<Rightarrow> condition \<Rightarrow> victim \<Rightarrow> bool \<times> condition \<times> victim" where
  "start_attributes e a c v =
     (let c = start_base e c;
          v = v\<lparr>canUseDefense := \<not> disableDefense a\<rparr>;
          (a, v) = apply_attributes e a v
      in (True, c\<lparr>kind := ConditionAttributes a\<rparr>, v))"

definition start_damage :: "env \<Rightarrow> condition_damage \<Rightarrow> condition \<Rightarrow> victim \<Rightarrow> bool \<times> condition \<times> victim" where
  "start_damage e d c v =
     (let c = start_base e c;
          (done, v) = (if delayed d then (True, v) else doDamage e c (initDamage d) v)
      in if \<not> done then (False, c, v)
         else let (ok, c) = init e c in (ok, c, v))"

definition start_speed :: "env \<Rightarrow> condition_speed \<Rightarrow> condition \<Rightarrow> victim \<Rightarrow> bool \<times> condition \<times> victim" where
  "start_speed e s c v =
     (let c = start_base e c;
          s = (if speedDelta s = 0 then s\<lparr>speedDelta := formula_speed e s\<rparr> else s)
      in (True, c\<lparr>kind := ConditionSpeed s\<rparr>, changeSpeed (speedDelta s) v))"

definition start_invisible :: "env \<Rightarrow> condition \<Rightarrow> victim \<Rightarrow> bool \<times> condition \<times> victim" where
  "start_invisible e c v = (True, start_base e c, happen (Visible False) v)"

definition start_outfit :: "env \<Rightarrow> outfit \<Rightarrow> condition \<Rightarrow> victim \<Rightarrow> bool \<times> condition \<times> victim" where
  "start_outfit e o' c v = (True, start_base e c, changeOutfit e o' v)"

definition start_light :: "env \<Rightarrow> condition_light \<Rightarrow> condition \<Rightarrow> victim \<Rightarrow> (bool \<times> condition \<times> victim) option" where
  "start_light e l c v =
     (let c = start_base e c
      in map_option (\<lambda>i. (True, c\<lparr>kind := ConditionLight (l\<lparr>internalLightTicks := 0, lightChangeInterval := i\<rparr>)\<rparr>,
                          setCreatureLight (lightLevel l, lightColor l) v))
           (light_interval c (lightLevel l)))"

definition start_drunk :: "env \<Rightarrow> u8 \<Rightarrow> condition \<Rightarrow> victim \<Rightarrow> bool \<times> condition \<times> victim" where
  "start_drunk e s c v = (True, start_base e c, v\<lparr>drunkenness := s\<rparr>)"

definition startCondition :: "env \<Rightarrow> condition \<Rightarrow> victim \<Rightarrow> (bool \<times> condition \<times> victim) option" where
  "startCondition e c v =
     (case kind c of
        ConditionAttributes a \<Rightarrow> Some (start_attributes e a c v)
      | ConditionDamage d \<Rightarrow> Some (start_damage e d c v)
      | ConditionSpeed s \<Rightarrow> Some (start_speed e s c v)
      | ConditionInvisible \<Rightarrow> Some (start_invisible e c v)
      | ConditionOutfit o' \<Rightarrow> Some (start_outfit e o' c v)
      | ConditionLight l \<Rightarrow> start_light e l c v
      | ConditionDrunk s \<Rightarrow> Some (start_drunk e s c v)
      | _ \<Rightarrow> Some (True, start_base e c, v))"

lemmas startCondition_defs = startCondition_def start_attributes_def start_damage_def start_speed_def start_invisible_def
  start_outfit_def start_light_def start_drunk_def

section \<open>Ending\<close>

text \<open>The condition has left the list when it ends.\<close>

definition end_speed :: "condition_speed \<Rightarrow> victim \<Rightarrow> victim" where
  "end_speed s v = changeSpeed (- speedDelta s) v"

definition end_invisible :: "victim \<Rightarrow> victim" where
  "end_invisible v = (if \<not> isInvisible v then happen (Visible True) v else v)"

definition end_outfit :: "env \<Rightarrow> victim \<Rightarrow> victim" where
  "end_outfit e v = changeOutfit e (defaultOutfit v) v"

definition end_light :: "victim \<Rightarrow> victim" where
  "end_light v = setCreatureLight (0, 215) v"

definition end_drunk :: "victim \<Rightarrow> victim" where
  "end_drunk v = v\<lparr>drunkenness := 0\<rparr>"

definition endCondition :: "env \<Rightarrow> condition \<Rightarrow> victim \<Rightarrow> victim" where
  "endCondition e c v =
     (case kind c of
        ConditionAttributes a \<Rightarrow> end_attributes a v
      | ConditionSpeed s \<Rightarrow> end_speed s v
      | ConditionInvisible \<Rightarrow> end_invisible v
      | ConditionOutfit o' \<Rightarrow> end_outfit e v
      | ConditionLight l \<Rightarrow> end_light v
      | ConditionDrunk s \<Rightarrow> end_drunk v
      | _ \<Rightarrow> v)"

lemmas endCondition_defs = endCondition_def end_speed_def end_invisible_def end_outfit_def end_light_def end_drunk_def

section \<open>Merging\<close>

definition update_base :: "env \<Rightarrow> condition \<Rightarrow> condition \<Rightarrow> bool" where
  "update_base e c add \<longleftrightarrow>
     \<not> (conditionType c \<noteq> conditionType add) \<and>
     \<not> (ticks c = -1 \<and> sint (ticks add) > 0) \<and>
     \<not> (sint (ticks add) \<ge> 0 \<and> endTime c > now e + sint (ticks add))"

definition getTotalDamage :: "condition_damage \<Rightarrow> u32" where
  "getTotalDamage d =
     abs32 (if damageList d \<noteq> [] then sum_list (map interval_value (damageList d))
            else minDamage d + word_of_int (cdiv (sint (maxDamage d - minDamage d)) 2))"

definition update_damage :: "condition \<Rightarrow> condition_damage \<Rightarrow> condition \<Rightarrow> condition_damage \<Rightarrow> bool" where
  "update_damage c d add d' \<longleftrightarrow>
     (if forceUpdate d' then True
      else if ticks c = -1 \<and> sint (ticks add) > 0 then False
      else sint (getTotalDamage d') > sint (getTotalDamage d))"

definition getNextDamage :: "condition \<Rightarrow> (u32 \<times> condition) option" where
  "getNextDamage c =
     (let d = the_damage c in
      if periodDamage d \<noteq> 0 then Some (periodDamage d, c)
      else case damageList d of
        [] \<Rightarrow> None
      | i # is' \<Rightarrow> Some (interval_value i, if ticks c \<noteq> -1 then c\<lparr>kind := ConditionDamage (d\<lparr>damageList := is'\<rparr>)\<rparr> else c))"

definition set_first_timeLeft :: "u32 \<Rightarrow> interval_info list \<Rightarrow> interval_info list" where
  "set_first_timeLeft t is' = (case is' of [] \<Rightarrow> [] | i # js \<Rightarrow> i\<lparr>timeLeft := t\<rparr> # js)"

definition merge_damage :: "env \<Rightarrow> condition \<Rightarrow> condition_damage \<Rightarrow> condition \<Rightarrow> condition_damage \<Rightarrow> victim \<Rightarrow> condition \<times> victim" where
  "merge_damage e c d add d' v =
     (if conditionType add \<noteq> conditionType c \<or> \<not> update_damage c d add d' then (c, v)
      else
        let nextTimeLeft = (case damageList d of [] \<Rightarrow> tickInterval d' | i # _ \<Rightarrow> timeLeft i);
            d = d\<lparr>damage_owner := damage_owner d', maxDamage := maxDamage d', minDamage := minDamage d', startDamage := startDamage d',
                  tickInterval := tickInterval d', periodDamage := periodDamage d', damageList := damageList d'\<rparr>;
            c = (setTicks (now e) (ticks add) c)\<lparr>kind := ConditionDamage d\<rparr>;
            (ok, c) = init e c
        in if \<not> ok then (c, v)
           else
             let d = the_damage c;
                 c = c\<lparr>kind := ConditionDamage (d\<lparr>damageList := set_first_timeLeft nextTimeLeft (damageList d)\<rparr>)\<rparr>
             in if delayed d then (c, v)
                else case getNextDamage c of
                  None \<Rightarrow> (c, v)
                | Some (damage, c) \<Rightarrow> (c, snd (doDamage e c damage v)))"

text \<open>\<open>addCondition\<close> of a condition \<open>c\<close> of the list with a new one; the classes of both are the same
  because their types are.\<close>

definition merge_generic :: "env \<Rightarrow> condition \<Rightarrow> condition \<Rightarrow> condition" where
  "merge_generic e c add = (if update_base e c add then setTicks (now e) (ticks add) c else c)"

definition merge_attributes ::
    "env \<Rightarrow> condition \<Rightarrow> condition_attributes \<Rightarrow> condition \<Rightarrow> condition_attributes \<Rightarrow> victim \<Rightarrow> condition \<times> victim" where
  "merge_attributes e c a add a' v =
     (if update_base e c add then
        let c = setTicks (now e) (ticks add) c;
            v = end_attributes a v;
            a = a\<lparr>skills := skills a', specialSkills := specialSkills a', skillsPercent := skillsPercent a',
                  stats := stats a', statsPercent := statsPercent a', disableDefense := disableDefense a'\<rparr>;
            (a, v) = apply_attributes e a v
        in (c\<lparr>kind := ConditionAttributes a\<rparr>, v)
      else (c, v))"

definition merge_regeneration :: "env \<Rightarrow> condition \<Rightarrow> condition_regeneration \<Rightarrow> condition \<Rightarrow> condition_regeneration \<Rightarrow> condition" where
  "merge_regeneration e c r add r' =
     (if update_base e c add then
        (setTicks (now e) (ticks add) c)\<lparr>kind := ConditionRegeneration
          (r\<lparr>healthTicks := healthTicks r', manaTicks := manaTicks r', healthGain := healthGain r', manaGain := manaGain r'\<rparr>)\<rparr>
      else c)"

definition merge_soul :: "env \<Rightarrow> condition \<Rightarrow> condition_soul \<Rightarrow> condition \<Rightarrow> condition_soul \<Rightarrow> condition" where
  "merge_soul e c r add r' =
     (if update_base e c add then
        (setTicks (now e) (ticks add) c)\<lparr>kind := ConditionSoul (r\<lparr>soulTicks := soulTicks r', soulGain := soulGain r'\<rparr>)\<rparr>
      else c)"

definition merge_speed :: "env \<Rightarrow> condition \<Rightarrow> condition_speed \<Rightarrow> condition \<Rightarrow> condition_speed \<Rightarrow> victim \<Rightarrow> condition \<times> victim" where
  "merge_speed e c s add s' v =
     (if conditionType c \<noteq> conditionType add then (c, v)
      else if ticks c = -1 \<and> sint (ticks add) > 0 then (c, v)
      else
        let c = setTicks (now e) (ticks add) c;
            oldSpeedDelta = speedDelta s;
            s = s\<lparr>speedDelta := speedDelta s', mina := mina s', maxa := maxa s', minb := minb s', maxb := maxb s'\<rparr>;
            s = (if speedDelta s = 0 then s\<lparr>speedDelta := formula_speed e s\<rparr> else s);
            newSpeedChange = speedDelta s - oldSpeedDelta
        in (c\<lparr>kind := ConditionSpeed s\<rparr>, if newSpeedChange \<noteq> 0 then changeSpeed newSpeedChange v else v))"

definition merge_outfit :: "env \<Rightarrow> condition \<Rightarrow> condition \<Rightarrow> outfit \<Rightarrow> victim \<Rightarrow> condition \<times> victim" where
  "merge_outfit e c add o'' v =
     (if update_base e c add then
        ((setTicks (now e) (ticks add) c)\<lparr>kind := ConditionOutfit o''\<rparr>, changeOutfit e o'' v)
      else (c, v))"

definition merge_light :: "env \<Rightarrow> condition \<Rightarrow> condition \<Rightarrow> condition_light \<Rightarrow> victim \<Rightarrow> (condition \<times> victim) option" where
  "merge_light e c add l' v =
     (if update_base e c add then
        let c = setTicks (now e) (ticks add) c
        in map_option (\<lambda>i. (c\<lparr>kind := ConditionLight \<lparr>lightLevel = lightLevel l', lightColor = lightColor l',
                                internalLightTicks = 0, lightChangeInterval = i\<rparr>\<rparr>,
                              setCreatureLight (lightLevel l', lightColor l') v))
             (light_interval c (lightLevel l'))
      else Some (c, v))"

definition update_drunk :: "u8 \<Rightarrow> u8 \<Rightarrow> bool" where
  "update_drunk s s' \<longleftrightarrow> s' > s"

definition merge_drunk :: "env \<Rightarrow> condition \<Rightarrow> u8 \<Rightarrow> condition \<Rightarrow> u8 \<Rightarrow> victim \<Rightarrow> condition \<times> victim" where
  "merge_drunk e c s add s' v =
     (if \<not> update_drunk s s' then (c, v) else (setTicks (now e) (ticks add) c, v\<lparr>drunkenness := s'\<rparr>))"

definition mergeCondition :: "env \<Rightarrow> condition \<Rightarrow> condition \<Rightarrow> victim \<Rightarrow> (condition \<times> victim) option" where
  "mergeCondition e c add v =
     (case (kind c, kind add) of
        (ConditionAttributes a, ConditionAttributes a') \<Rightarrow> Some (merge_attributes e c a add a' v)
      | (ConditionRegeneration r, ConditionRegeneration r') \<Rightarrow> Some (merge_regeneration e c r add r', v)
      | (ConditionSoul r, ConditionSoul r') \<Rightarrow> Some (merge_soul e c r add r', v)
      | (ConditionDamage d, ConditionDamage d') \<Rightarrow> Some (merge_damage e c d add d' v)
      | (ConditionSpeed s, ConditionSpeed s') \<Rightarrow> Some (merge_speed e c s add s' v)
      | (ConditionOutfit o', ConditionOutfit o'') \<Rightarrow> Some (merge_outfit e c add o'' v)
      | (ConditionLight l, ConditionLight l') \<Rightarrow> merge_light e c add l' v
      | (ConditionDrunk s, ConditionDrunk s') \<Rightarrow> Some (merge_drunk e c s add s' v)
      | _ \<Rightarrow> Some (merge_generic e c add, v))"

lemmas mergeCondition_defs = mergeCondition_def merge_attributes_def merge_regeneration_def merge_soul_def merge_speed_def
  merge_outfit_def merge_light_def merge_drunk_def update_drunk_def merge_generic_def

section \<open>Executing\<close>

definition execute_base :: "env \<Rightarrow> u32 \<Rightarrow> condition \<Rightarrow> bool \<times> condition" where
  "execute_base e i c =
     (if ticks c = -1 then (True, c)
      else let c = c\<lparr>ticks := word_of_int (max 0 (sint (ticks c) - sint i))\<rparr>
           in (endTime c \<ge> now e, c))"

definition execute_damage :: "env \<Rightarrow> u32 \<Rightarrow> condition \<Rightarrow> condition_damage \<Rightarrow> victim \<Rightarrow> bool \<times> condition \<times> victim" where
  "execute_damage e i c d v =
     (if periodDamage d \<noteq> 0 then
        let tick = periodDamageTick d + i;
            due = (sint tick \<ge> sint (tickInterval d));
            c = c\<lparr>kind := ConditionDamage (d\<lparr>periodDamageTick := (if due then 0 else tick)\<rparr>)\<rparr>;
            v = (if due then snd (doDamage e c (periodDamage d) v) else v);
            (alive, c) = execute_base e i c
        in (alive, c, v)
      else case damageList d of
        [] \<Rightarrow> (let (alive, c) = execute_base e i c in (alive, c, v))
      | j # js \<Rightarrow>
          let bRemove = onTickCondition e (conditionType c) (ticks c \<noteq> -1);
              left = timeLeft j - i;
              due = (sint left \<le> 0);
              js = (if \<not> due then j\<lparr>timeLeft := left\<rparr> # js
                    else if bRemove then js else j\<lparr>timeLeft := interval j\<rparr> # js);
              c = c\<lparr>kind := ConditionDamage (d\<lparr>damageList := js\<rparr>)\<rparr>;
              v = (if due then snd (doDamage e c (interval_value j) v) else v);
              c = (if \<not> bRemove \<and> sint (ticks c) > 0 then c\<lparr>endTime := endTime c + sint i\<rparr> else c);
              (alive, c) = execute_base e (if bRemove then i else 0) c
          in (alive, c, v))"

definition execute_regeneration :: "env \<Rightarrow> u32 \<Rightarrow> condition_regeneration \<Rightarrow> victim \<Rightarrow> condition_regeneration \<times> victim" where
  "execute_regeneration e i r v =
     (let r = r\<lparr>internalHealthTicks := internalHealthTicks r + i, internalManaTicks := internalManaTicks r + i\<rparr> in
      if in_protection_zone e then (r, v)
      else
        let (r, v) = (if internalHealthTicks r \<ge> healthTicks r
                      then (r\<lparr>internalHealthTicks := 0\<rparr>, happen (Heal (healthGain r)) v) else (r, v))
        in if internalManaTicks r \<ge> manaTicks r
           then (r\<lparr>internalManaTicks := 0\<rparr>, if victim_player v then happen (GainMana (manaGain r)) v else v)
           else (r, v))"

definition execute_soul :: "env \<Rightarrow> u32 \<Rightarrow> condition_soul \<Rightarrow> victim \<Rightarrow> condition_soul \<times> victim" where
  "execute_soul e i r v =
     (let r = r\<lparr>internalSoulTicks := internalSoulTicks r + i\<rparr> in
      if victim_player v \<and> \<not> in_protection_zone e \<and> internalSoulTicks r \<ge> soulTicks r
      then (r\<lparr>internalSoulTicks := 0\<rparr>, happen (GainSoul (soulGain r)) v) else (r, v))"

definition execute_light :: "env \<Rightarrow> u32 \<Rightarrow> condition_light \<Rightarrow> victim \<Rightarrow> condition_light \<times> victim" where
  "execute_light e i l v =
     (let l = l\<lparr>internalLightTicks := internalLightTicks l + i\<rparr> in
      if internalLightTicks l \<ge> lightChangeInterval l then
        let shown = getCreatureLight e v
        in (l\<lparr>internalLightTicks := 0\<rparr>, if fst shown > 0 then setCreatureLight (fst shown - 1, snd shown) v else v)
      else (l, v))"

definition executeCondition :: "env \<Rightarrow> u32 \<Rightarrow> condition \<Rightarrow> victim \<Rightarrow> bool \<times> condition \<times> victim" where
  "executeCondition e i c v =
     (case kind c of
        ConditionDamage d \<Rightarrow> execute_damage e i c d v
      | ConditionRegeneration r \<Rightarrow>
          (let (r, v) = execute_regeneration e i r v; (alive, c) = execute_base e i (c\<lparr>kind := ConditionRegeneration r\<rparr>)
           in (alive, c, v))
      | ConditionSoul r \<Rightarrow>
          (let (r, v) = execute_soul e i r v; (alive, c) = execute_base e i (c\<lparr>kind := ConditionSoul r\<rparr>)
           in (alive, c, v))
      | ConditionLight l \<Rightarrow>
          (let (l, v) = execute_light e i l v; (alive, c) = execute_base e i (c\<lparr>kind := ConditionLight l\<rparr>)
           in (alive, c, v))
      | _ \<Rightarrow> (let (alive, c) = execute_base e i c in (alive, c, v)))"

section \<open>The list of conditions of a creature\<close>

definition getCondition :: "condition_key \<Rightarrow> victim \<Rightarrow> condition option" where
  "getCondition k v = List.find (\<lambda>c. key c = k) (conditions v)"

definition set_condition :: "condition_key \<Rightarrow> condition \<Rightarrow> victim \<Rightarrow> victim" where
  "set_condition k c v = v\<lparr>conditions := map (\<lambda>c'. if key c' = k then c else c') (conditions v)\<rparr>"

definition erase_condition :: "condition_key \<Rightarrow> victim \<Rightarrow> victim" where
  "erase_condition k v = v\<lparr>conditions := filter (\<lambda>c. key c \<noteq> k) (conditions v)\<rparr>"

definition hasCondition :: "env \<Rightarrow> u32 \<Rightarrow> u32 \<Rightarrow> victim \<Rightarrow> bool" where
  "hasCondition e type sub v \<longleftrightarrow>
     \<not> suppressed e type \<and>
     (\<exists>c\<in>set (conditions v). conditionType c = type \<and> subId c = sub \<and> (endTime c \<ge> now e \<or> ticks c = -1))"

text \<open>\<open>onEndCondition\<close> of a player and of other creatures.\<close>

definition onEndCondition :: "u32 \<Rightarrow> victim \<Rightarrow> victim" where
  "onEndCondition type v = (if victim_player v \<and> type = CONDITION_INFIGHT then happen FightEnded v else v)"

definition finish :: "env \<Rightarrow> condition \<Rightarrow> victim \<Rightarrow> victim" where
  "finish e c v = onEndCondition (conditionType c) (endCondition e c (erase_condition (key c) v))"

text \<open>\<open>removeCondition(type, force)\<close> and its variants: a paralysis is only removed once the creature may
  walk.\<close>

fun remove_matching :: "env \<Rightarrow> (condition \<Rightarrow> bool) \<Rightarrow> bool \<Rightarrow> condition list \<Rightarrow> victim \<Rightarrow> victim" where
  "remove_matching e P force [] v = v"
| "remove_matching e P force (c # cs) v =
     (if \<not> P c then remove_matching e P force cs v
      else if \<not> force \<and> conditionType c = CONDITION_PARALYZE \<and> walkDelay e > 0 then happen (DelayedRemove (conditionType c)) v
      else remove_matching e P force cs (finish e c v))"

definition removeCondition_type :: "env \<Rightarrow> u32 \<Rightarrow> bool \<Rightarrow> victim \<Rightarrow> victim" where
  "removeCondition_type e type force v = remove_matching e (\<lambda>c. conditionType c = type) force (conditions v) v"

definition removeCondition_type_id :: "env \<Rightarrow> u32 \<Rightarrow> u8 \<Rightarrow> bool \<Rightarrow> victim \<Rightarrow> victim" where
  "removeCondition_type_id e type i force v =
     remove_matching e (\<lambda>c. conditionType c = type \<and> condition_id c = i) force (conditions v) v"

text \<open>The loop of \<open>Player::death\<close>.\<close>

definition removePersistent :: "env \<Rightarrow> victim \<Rightarrow> victim" where
  "removePersistent e v = remove_matching e isPersistent True (conditions v) v"

definition removeCondition :: "env \<Rightarrow> condition_key \<Rightarrow> bool \<Rightarrow> victim \<Rightarrow> victim" where
  "removeCondition e k force v =
     (case getCondition k v of None \<Rightarrow> v
      | Some c \<Rightarrow>
          if \<not> force \<and> conditionType c = CONDITION_PARALYZE \<and> walkDelay e > 0 then happen (DelayedRemove (conditionType c)) v
          else finish e c v)"

definition removeCombatCondition :: "env \<Rightarrow> u32 \<Rightarrow> victim \<Rightarrow> victim" where
  "removeCombatCondition e type v =
     fold (\<lambda>k. removeCondition e k False) (map key (filter (\<lambda>c. conditionType c = type) (conditions v))) v"

definition dismount :: "env \<Rightarrow> victim \<Rightarrow> victim" where
  "dismount e v =
     (let v = (if sint (mount_speed e) > 0 then changeSpeed (- mount_speed e) v else v)
      in v\<lparr>defaultOutfit := (defaultOutfit v)\<lparr>lookMount := 0\<rparr>\<rparr>)"

definition onAddCondition :: "env \<Rightarrow> u32 \<Rightarrow> victim \<Rightarrow> victim" where
  "onAddCondition e type v =
     (let v =
        (if type = CONDITION_PARALYZE \<and> hasCondition e CONDITION_HASTE 0 v then removeCondition_type e CONDITION_HASTE False v
         else if type = CONDITION_HASTE \<and> hasCondition e CONDITION_PARALYZE 0 v then removeCondition_type e CONDITION_PARALYZE False v
         else v)
      in if victim_player v \<and> type = CONDITION_OUTFIT \<and> lookMount (defaultOutfit v) \<noteq> 0 then dismount e v else v)"

definition addCondition :: "env \<Rightarrow> condition \<Rightarrow> bool \<Rightarrow> victim \<Rightarrow> (bool \<times> victim) option" where
  "addCondition e c force v =
     (if \<not> force \<and> conditionType c = CONDITION_HASTE \<and> hasCondition e CONDITION_PARALYZE 0 v \<and> walkDelay e > 0
      then Some (False, happen (DelayedAdd c) v)
      else case getCondition (key c) v of
        Some prevCond \<Rightarrow>
          map_option (\<lambda>(p, v). (True, set_condition (key c) p v)) (mergeCondition e prevCond c v)
      | None \<Rightarrow>
          map_option (\<lambda>(started, c, v).
              if started then (True, onAddCondition e (conditionType c) (v\<lparr>conditions := conditions v @ [c]\<rparr>))
              else (False, v))
            (startCondition e c v))"

text \<open>\<open>executeConditions\<close> runs over a copy of the list.\<close>

fun execute_all :: "env \<Rightarrow> u32 \<Rightarrow> condition_key list \<Rightarrow> victim \<Rightarrow> victim" where
  "execute_all e i [] v = v"
| "execute_all e i (k # ks) v =
     (case getCondition k v of
        None \<Rightarrow> execute_all e i ks v
      | Some c \<Rightarrow>
          (let (alive, c, v) = executeCondition e i c v;
               v = set_condition k c v
           in execute_all e i ks (if alive then v else finish e c v)))"

definition executeConditions :: "env \<Rightarrow> u32 \<Rightarrow> victim \<Rightarrow> victim" where
  "executeConditions e i v = execute_all e i (map key (conditions v)) v"

section \<open>Modifiers\<close>

text \<open>The sums that conditions add to and take from, and what a condition of the list accounts for.\<close>

datatype gauge = Speed | Skill nat | SpecialSkill nat | Stat nat

definition read_gauge :: "gauge \<Rightarrow> victim \<Rightarrow> u32" where
  "read_gauge g v =
     (case g of Speed \<Rightarrow> varSpeed v | Skill i \<Rightarrow> varSkills v i | SpecialSkill i \<Rightarrow> varSpecialSkills v i | Stat i \<Rightarrow> varStats v i)"

definition attribute_share :: "bool \<Rightarrow> gauge \<Rightarrow> condition_attributes \<Rightarrow> u32" where
  "attribute_share player g a =
     (if \<not> player then 0
      else case g of Speed \<Rightarrow> 0
        | Skill i \<Rightarrow> if i < SKILLS then skills a ! i else 0
        | SpecialSkill i \<Rightarrow> if i < SPECIALSKILLS then specialSkills a ! i else 0
        | Stat i \<Rightarrow> if i < STATS then stats a ! i else 0)"

definition share :: "bool \<Rightarrow> gauge \<Rightarrow> condition \<Rightarrow> u32" where
  "share player g c =
     (case kind c of
        ConditionAttributes a \<Rightarrow> attribute_share player g a
      | ConditionSpeed s \<Rightarrow> if g = Speed then speedDelta s else 0
      | _ \<Rightarrow> 0)"

definition total_share :: "bool \<Rightarrow> gauge \<Rightarrow> condition list \<Rightarrow> u32" where
  "total_share player g cs = sum_list (map (share player g) cs)"

text \<open>An update of a creature that leaves these sums and the list alone.\<close>

definition quiet :: "victim \<Rightarrow> victim \<Rightarrow> bool" where
  "quiet v v' \<longleftrightarrow> conditions v' = conditions v \<and> victim_player v' = victim_player v \<and> defaultOutfit v' = defaultOutfit v \<and>
     (\<forall>g. read_gauge g v' = read_gauge g v)"

lemma quietI: "conditions v' = conditions v \<Longrightarrow> victim_player v' = victim_player v \<Longrightarrow>
    defaultOutfit v' = defaultOutfit v \<Longrightarrow> varSpeed v' = varSpeed v \<Longrightarrow>
    varSkills v' = varSkills v \<Longrightarrow> varSpecialSkills v' = varSpecialSkills v \<Longrightarrow> varStats v' = varStats v \<Longrightarrow> quiet v v'"
  by (auto simp: quiet_def read_gauge_def split: gauge.split)

lemma quiet_refl [simp]: "quiet v v"
  by (simp add: quiet_def)

lemma quiet_trans: "quiet v v' \<Longrightarrow> quiet v' v'' \<Longrightarrow> quiet v v''"
  by (simp add: quiet_def)

lemma quiet_happen [simp]: "quiet v (happen h w) \<longleftrightarrow> quiet v w"
proof -
  have "quiet w (happen h w)"
    by (rule quietI) (simp_all add: happen_def)
  then show ?thesis
    by (simp add: quiet_def)
qed

lemma quiet_light [simp]: "quiet v (setCreatureLight l v)"
  by (rule quietI) (simp_all add: setCreatureLight_def happen_def)

lemma quiet_outfit [simp]: "quiet v (changeOutfit e o' v)"
  by (rule quietI) (simp_all add: changeOutfit_def happen_def Let_def)

lemma quiet_defense [simp]: "quiet v (v\<lparr>canUseDefense := b\<rparr>)"
  by (rule quietI) simp_all

lemma quiet_drunkenness [simp]: "quiet v (v\<lparr>drunkenness := s\<rparr>)"
  by (rule quietI) simp_all

lemma quiet_doDamage [simp]: "quiet v (snd (doDamage e c h v))"
  by (simp add: doDamage_def)

text \<open>A change of the sums by a share, with the list left alone.\<close>

definition shifts :: "victim \<Rightarrow> (gauge \<Rightarrow> u32) \<Rightarrow> victim \<Rightarrow> bool" where
  "shifts v d v' \<longleftrightarrow> conditions v' = conditions v \<and> victim_player v' = victim_player v \<and> defaultOutfit v' = defaultOutfit v \<and>
     (\<forall>g. read_gauge g v' = read_gauge g v + d g)"

lemma quiet_shifts: "quiet v v' \<Longrightarrow> shifts v (\<lambda>g. 0) v'"
  by (simp add: quiet_def shifts_def)

lemma shifts_trans: "shifts v d v' \<Longrightarrow> shifts v' d' v'' \<Longrightarrow> shifts v (\<lambda>g. d g + d' g) v''"
  by (simp add: shifts_def)

lemma shifts_changeSpeed: "shifts v (\<lambda>g. if g = Speed then x else 0) (changeSpeed x v)"
  by (auto simp: shifts_def changeSpeed_def read_gauge_def split: gauge.split)

lemma shifts_apply:
  "apply_attributes e a v = (a', v') \<Longrightarrow> shifts v (\<lambda>g. attribute_share (victim_player v) g a') v'"
  by (auto simp: apply_attributes_def shifts_def read_gauge_def attribute_share_def Let_def updateSkills_def updateStats_def
        updatePercentSkills_def updatePercentStats_def split: gauge.split if_splits)

lemma shifts_end_attributes: "shifts v (\<lambda>g. - attribute_share (victim_player v) g a) (end_attributes a v)"
  by (auto simp: end_attributes_def shifts_def read_gauge_def attribute_share_def Let_def split: gauge.split)

lemma shifts_end: "shifts v (\<lambda>g. - share (victim_player v) g c) (endCondition e c v)"
proof (cases "kind c")
  case (ConditionSpeed s)
  then have *: "(\<lambda>g. - share (victim_player v) g c) = (\<lambda>g. if g = Speed then - speedDelta s else 0)"
    by (auto simp: share_def fun_eq_iff)
  show ?thesis
    unfolding * using shifts_changeSpeed by (simp add: endCondition_defs ConditionSpeed)
next
  case (ConditionAttributes a)
  then show ?thesis
    using shifts_end_attributes [of v a] by (simp add: endCondition_defs share_def)
qed (use quiet_shifts in \<open>auto simp: endCondition_defs share_def\<close>)

subsection \<open>Keys are kept\<close>

definition is_damage :: "condition \<Rightarrow> bool" where
  "is_damage c \<longleftrightarrow> (case kind c of ConditionDamage d \<Rightarrow> True | _ \<Rightarrow> False)"

lemma share_damage [simp]: "is_damage c \<Longrightarrow> share p g c = 0"
  by (auto simp: is_damage_def share_def split: condition_kind.splits)

lemma key_simps [simp]:
  "key (c\<lparr>kind := k\<rparr>) = key c" "key (c\<lparr>ticks := t\<rparr>) = key c" "key (c\<lparr>endTime := n\<rparr>) = key c"
  "key (setTicks t0 t c) = key c" "key (start_base e c) = key c"
  by (simp_all add: key_def setTicks_def start_base_def)

lemma kind_simps [simp]:
  "kind (setTicks t0 t c) = kind c" "kind (start_base e c) = kind c"
  by (simp_all add: setTicks_def start_base_def)

lemma is_damage_simps [simp]:
  "is_damage (c\<lparr>kind := ConditionDamage d\<rparr>)" "is_damage (c\<lparr>ticks := t\<rparr>) = is_damage c" "is_damage (c\<lparr>endTime := n\<rparr>) = is_damage c"
  "is_damage (setTicks t0 t c) = is_damage c"
  by (simp_all add: is_damage_def)

lemma key_add_interval [simp]: "key (add_interval t d i c) = key c"
  by (simp add: add_interval_def Let_def)

lemma is_damage_add_interval [simp]: "is_damage (add_interval t d i c)"
  by (simp add: add_interval_def Let_def)

lemma addDamage_keeps:
  assumes "is_damage c"
  shows "key (snd (addDamage t r i x d c)) = key c \<and> is_damage (snd (addDamage t r i x d c))"
proof -
  let ?f = "\<lambda>iv (d, c). (d\<lparr>damageList := damageList d @ [iv]\<rparr>, add_interval t d iv c)"
  have "key (snd ((?f iv ^^ n) (d, c))) = key c \<and> is_damage (snd ((?f iv ^^ n) (d, c)))" for n iv
    by (induction n) (use assms in \<open>auto simp: case_prod_beta\<close>)
  then show ?thesis
    using assms by (simp add: addDamage_def Let_def)
qed

lemma init_keeps:
  assumes "is_damage c"
  shows "key (snd (init e c)) = key c \<and> is_damage (snd (init e c))"
proof -
  let ?f = "\<lambda>w c. snd (addDamage (now e) 1 (tickInterval (the_damage c)) (- w) (the_damage c) c)"
  have fold: "key (fold ?f ws c') = key c' \<and> is_damage (fold ?f ws c')" if "is_damage c'" for ws c'
    using that by (induction ws arbitrary: c') (simp_all add: addDamage_keeps)
  show ?thesis
    using assms fold by (simp add: init_def Let_def)
qed

lemma getNextDamage_keeps: "getNextDamage c = Some (x, c') \<Longrightarrow> key c' = key c \<and> (is_damage c \<longrightarrow> is_damage c')"
  by (auto simp: getNextDamage_def Let_def split: if_splits list.splits)

lemma merge_damage_keeps:
  assumes "kind c = ConditionDamage d" "merge_damage e c d add d' v = (c', v')"
  shows "key c' = key c \<and> is_damage c' \<and> quiet v v'"
proof -
  have dmg: "is_damage c"
    using assms(1) by (simp add: is_damage_def)
  obtain ok c1 where i: "init e ((setTicks (now e) (ticks add) c)\<lparr>kind := ConditionDamage (d\<lparr>damage_owner := damage_owner d',
       maxDamage := maxDamage d', minDamage := minDamage d', startDamage := startDamage d', tickInterval := tickInterval d',
       periodDamage := periodDamage d', damageList := damageList d'\<rparr>)\<rparr>) = (ok, c1)"
    by fastforce
  have c1: "key c1 = key c" "is_damage c1"
    using init_keeps [of _ e, unfolded] i by (metis is_damage_simps(1) key_simps(1,4) snd_conv)+
  show ?thesis
    using assms(2) c1 dmg i
    by (auto simp: merge_damage_def Let_def split: if_splits option.splits dest: getNextDamage_keeps)
qed

subsection \<open>Shares of the operations\<close>

lemma shifts_start:
  assumes "startCondition e c v = Some (ok, c', v')"
  shows "key c' = key c \<and> shifts v (\<lambda>g. if ok then share (victim_player v) g c' else 0) v'"
proof (cases "kind c")
  case (ConditionAttributes a)
  let ?v = "v\<lparr>canUseDefense := \<not> disableDefense a\<rparr>"
  obtain a1 v1 where ap: "apply_attributes e a ?v = (a1, v1)"
    by fastforce
  with assms ConditionAttributes have r: "ok" "c' = (start_base e c)\<lparr>kind := ConditionAttributes a1\<rparr>" "v' = v1"
    by (auto simp: startCondition_defs Let_def)
  show ?thesis
    using shifts_trans [OF quiet_shifts [OF quiet_defense] shifts_apply [OF ap]] by (simp add: r share_def)
next
  case (ConditionSpeed s)
  let ?s = "if speedDelta s = 0 then s\<lparr>speedDelta := formula_speed e s\<rparr> else s"
  have r: "ok" "c' = (start_base e c)\<lparr>kind := ConditionSpeed ?s\<rparr>" "v' = changeSpeed (speedDelta ?s) v"
    using assms ConditionSpeed by (auto simp: startCondition_defs Let_def)
  have "(\<lambda>g. share (victim_player v) g c') = (\<lambda>g. if g = Speed then speedDelta ?s else 0)"
    by (simp add: r share_def fun_eq_iff)
  then show ?thesis
    using shifts_changeSpeed [of v "speedDelta ?s"] by (simp only: r key_simps if_True HOL.simp_thms)
next
  case (ConditionDamage d)
  have dmg: "is_damage (start_base e c)"
    by (simp add: is_damage_def ConditionDamage)
  have "quiet v v' \<and> key c' = key c \<and> is_damage c'"
    using assms ConditionDamage init_keeps [OF dmg, of e] dmg
    by (auto simp: startCondition_defs Let_def doDamage_def split: if_splits prod.splits)
  then show ?thesis
    by (simp add: quiet_shifts cong: if_cong)
qed (use assms in \<open>auto simp: startCondition_defs Let_def share_def quiet_shifts\<close>)

lemma shifts_merge:
  assumes "mergeCondition e c add v = Some (c', v')"
  shows "key c' = key c \<and> shifts v (\<lambda>g. share (victim_player v) g c' - share (victim_player v) g c) v'"
proof -
  have same: ?thesis if "kind c' = kind c" "key c' = key c" "quiet v v'"
    using that quiet_shifts [of v v'] by (simp add: share_def)
  consider (attributes) a a' where "kind c = ConditionAttributes a" "kind add = ConditionAttributes a'" "update_base e c add"
    | (speed) s s' where "kind c = ConditionSpeed s" "kind add = ConditionSpeed s'"
        "conditionType c = conditionType add" "\<not> (ticks c = -1 \<and> sint (ticks add) > 0)"
    | (damage) d d' where "kind c = ConditionDamage d" "kind add = ConditionDamage d'"
    | (other) "quiet v v' \<and> key c' = key c \<and> (\<forall>p g. share p g c' = share p g c)"
    using assms
    by (cases "kind c"; cases "kind add")
      (auto simp: mergeCondition_defs share_def Let_def split: if_splits)
  then show ?thesis
  proof cases
    case (attributes a a')
    let ?a = "a\<lparr>skills := skills a', specialSkills := specialSkills a', skillsPercent := skillsPercent a',
                       stats := stats a', statsPercent := statsPercent a', disableDefense := disableDefense a'\<rparr>"
    obtain a1 v1 where ap: "apply_attributes e ?a (end_attributes a v) = (a1, v1)"
      by fastforce
    have r: "c' = (setTicks (now e) (ticks add) c)\<lparr>kind := ConditionAttributes a1\<rparr>" "v' = v1"
      using assms attributes ap by (auto simp: mergeCondition_defs Let_def)
    show ?thesis
      using shifts_trans [OF shifts_end_attributes shifts_apply [OF ap]]
      by (simp add: r share_def attributes shifts_def end_attributes_def Let_def)
  next
    case (speed s s')
    let ?s = "s\<lparr>speedDelta := speedDelta s', mina := mina s', maxa := maxa s', minb := minb s', maxb := maxb s'\<rparr>"
    let ?t = "if speedDelta ?s = 0 then ?s\<lparr>speedDelta := formula_speed e ?s\<rparr> else ?s"
    let ?x = "speedDelta ?t - speedDelta s"
    have r: "c' = (setTicks (now e) (ticks add) c)\<lparr>kind := ConditionSpeed ?t\<rparr>" "v' = (if ?x \<noteq> 0 then changeSpeed ?x v else v)"
      using assms speed by (simp_all add: mergeCondition_defs Let_def)
    have "v' = changeSpeed ?x v"
      unfolding r(2) by (simp add: changeSpeed_def)
    moreover have "(\<lambda>g. share (victim_player v) g c' - share (victim_player v) g c) = (\<lambda>g. if g = Speed then ?x else 0)"
      by (simp add: r(1) share_def speed fun_eq_iff)
    moreover have "key c' = key c"
      by (simp add: r(1))
    ultimately show ?thesis
      using shifts_changeSpeed [of v ?x] by simp
  next
    case (damage d d')
    then have "merge_damage e c d add d' v = (c', v')"
      using assms by (simp add: mergeCondition_defs)
    from merge_damage_keeps [OF damage(1) this] show ?thesis
      using damage(1) by (simp add: quiet_shifts share_def is_damage_def split: condition_kind.splits)
  qed (simp add: quiet_shifts)
qed

lemma execute_base_keeps:
  "execute_base e i c = (alive, c') \<Longrightarrow> key c' = key c \<and> kind c' = kind c \<and> (alive \<longleftrightarrow> ticks c = -1 \<or> now e \<le> endTime c)"
  by (auto simp: execute_base_def Let_def split: if_splits)

lemma execute_damage_keeps:
  assumes "kind c = ConditionDamage d" "execute_damage e i c d v = (alive, c', v')"
  shows "key c' = key c \<and> is_damage c' \<and> quiet v v'"
  using assms
  by (auto simp: execute_damage_def Let_def is_damage_def split: if_splits list.splits prod.splits dest!: execute_base_keeps)

lemma execute_quiet:
  assumes "executeCondition e i c v = (alive, c', v')"
  shows "key c' = key c \<and> quiet v v' \<and> (\<forall>p g. share p g c' = share p g c)"
proof (cases "kind c")
  case (ConditionDamage d)
  then have "execute_damage e i c d v = (alive, c', v')"
    using assms by (simp add: executeCondition_def)
  from execute_damage_keeps [OF ConditionDamage this] show ?thesis
    by (simp add: share_def ConditionDamage is_damage_def split: condition_kind.splits)
next
  case (ConditionRegeneration r)
  then show ?thesis
    using assms
    by (auto simp: executeCondition_def execute_regeneration_def Let_def share_def split: if_splits prod.splits
        dest!: execute_base_keeps)
next
  case (ConditionSoul r)
  then show ?thesis
    using assms
    by (auto simp: executeCondition_def execute_soul_def Let_def share_def split: if_splits prod.splits dest!: execute_base_keeps)
next
  case (ConditionLight l)
  then show ?thesis
    using assms
    by (auto simp: executeCondition_def execute_light_def Let_def share_def split: if_splits prod.splits dest!: execute_base_keeps)
qed (use assms in \<open>auto simp: executeCondition_def share_def split: prod.splits dest!: execute_base_keeps\<close>)

subsection \<open>The list\<close>

definition keys_ok :: "victim \<Rightarrow> bool" where
  "keys_ok v \<longleftrightarrow> distinct (map key (conditions v))"

definition excess :: "gauge \<Rightarrow> victim \<Rightarrow> u32" where
  "excess g v = read_gauge g v - total_share (victim_player v) g (conditions v)"

text \<open>A step that leaves the part of the sums alone that conditions do not account for.\<close>

definition balanced :: "victim \<Rightarrow> victim \<Rightarrow> bool" where
  "balanced v v' \<longleftrightarrow> keys_ok v' \<and> victim_player v' = victim_player v \<and> defaultOutfit v' = defaultOutfit v \<and>
     (\<forall>g. excess g v' = excess g v)"

lemma balanced_refl: "keys_ok v \<Longrightarrow> balanced v v"
  by (simp add: balanced_def)

lemma balanced_trans: "balanced v v' \<Longrightarrow> balanced v' v'' \<Longrightarrow> balanced v v''"
  by (simp add: balanced_def)

lemma balanced_keys: "balanced v v' \<Longrightarrow> keys_ok v'"
  by (simp add: balanced_def)

lemma balanced_quiet: "keys_ok v \<Longrightarrow> quiet v v' \<Longrightarrow> balanced v v'"
  by (simp add: balanced_def quiet_def keys_ok_def excess_def)

lemma getCondition_Some: "getCondition k v = Some c \<Longrightarrow> c \<in> set (conditions v) \<and> key c = k"
  unfolding getCondition_def by (auto simp: find_Some_iff)

lemma getCondition_None: "getCondition k v = None \<longleftrightarrow> k \<notin> key ` set (conditions v)"
  unfolding getCondition_def by (auto simp: find_None_iff)

lemma key_inj: "distinct (map key cs) \<Longrightarrow> c \<in> set cs \<Longrightarrow> c' \<in> set cs \<Longrightarrow> key c = key c' \<longleftrightarrow> c = c'"
  by (metis distinct_map inj_onD)

lemma total_share_Nil [simp]: "total_share p g [] = 0"
  by (simp add: total_share_def)

lemma total_share_Cons [simp]: "total_share p g (c # cs) = share p g c + total_share p g cs"
  by (simp add: total_share_def)

lemma total_share_append [simp]: "total_share p g (cs @ ds) = total_share p g cs + total_share p g ds"
  by (simp add: total_share_def)

lemma total_share_erase:
  "distinct (map key cs) \<Longrightarrow> c \<in> set cs \<Longrightarrow> total_share p g (filter (\<lambda>x. key x \<noteq> key c) cs) = total_share p g cs - share p g c"
proof (induction cs)
  case (Cons d cs)
  show ?case
  proof (cases "key d = key c")
    case True
    then have "filter (\<lambda>x. key x \<noteq> key c) cs = cs" "d = c"
      using Cons.prems key_inj [of "d # cs" d c] by (auto simp: filter_id_conv image_iff)
    then show ?thesis
      by simp
  qed (use Cons in auto)
qed simp

lemma total_share_set:
  "distinct (map key cs) \<Longrightarrow> c \<in> set cs \<Longrightarrow>
   total_share p g (map (\<lambda>x. if key x = key c then c' else x) cs) = total_share p g cs - share p g c + share p g c'"
proof (induction cs)
  case (Cons d cs)
  show ?case
  proof (cases "key d = key c")
    case True
    then have d: "d = c" and ne: "x \<in> set cs \<Longrightarrow> key x \<noteq> key c" for x
      using Cons.prems key_inj [of "d # cs" d c] by (auto simp: image_iff)
    have "map (\<lambda>x. if key x = key c then c' else x) cs = cs"
      by (rule map_idI) (simp add: ne)
    then show ?thesis
      by (simp add: d)
  qed (use Cons in auto)
qed simp

lemma keys_set: "key c' = k \<Longrightarrow> map (key \<circ> (\<lambda>x. if key x = k then c' else x)) cs = map key cs"
  by (induction cs) auto

text \<open>Replacing and removing a condition of the list.\<close>

lemma balanced_set:
  assumes "keys_ok v" "c \<in> set (conditions v)" "key c' = key c"
    and "shifts v (\<lambda>g. share (victim_player v) g c' - share (victim_player v) g c) v'"
  shows "balanced v (set_condition (key c) c' v')"
  using assms total_share_set [of "conditions v" c _ _ c']
  by (simp add: balanced_def keys_ok_def excess_def shifts_def set_condition_def read_gauge_def keys_set split: gauge.splits)

lemma quiet_onEnd: "quiet v (onEndCondition t v)"
  by (simp add: onEndCondition_def)

lemma balanced_finish:
  assumes "keys_ok v" "c \<in> set (conditions v)"
  shows "balanced v (finish e c v)"
proof -
  have e: "keys_ok (erase_condition (key c) v)"
    using assms(1) by (simp add: keys_ok_def erase_condition_def distinct_map_filter)
  have "shifts (erase_condition (key c) v) (\<lambda>g. - share (victim_player v) g c) (finish e c v)"
    using shifts_trans [OF shifts_end quiet_shifts [OF quiet_onEnd], of "erase_condition (key c) v" c "conditionType c"]
    by (simp add: finish_def erase_condition_def)
  then show ?thesis
    using e assms total_share_erase [of "conditions v" c]
    by (simp add: balanced_def keys_ok_def excess_def shifts_def erase_condition_def read_gauge_def split: gauge.splits)
qed

lemma conditions_finish: "conditions (finish e c v) = filter (\<lambda>x. key x \<noteq> key c) (conditions v)"
  using shifts_end [of "erase_condition (key c) v" c] quiet_onEnd [of "endCondition e c (erase_condition (key c) v)" "conditionType c"]
  by (simp add: finish_def shifts_def quiet_def erase_condition_def)

lemma balanced_remove_matching:
  assumes "keys_ok v" "set cs \<subseteq> set (conditions v)" "distinct (map key cs)"
  shows "balanced v (remove_matching e P force cs v)"
  using assms
proof (induction cs arbitrary: v)
  case (Cons c cs)
  then have c: "balanced v (finish e c v)" and sub: "set cs \<subseteq> set (conditions (finish e c v))"
    by (auto simp: balanced_finish conditions_finish image_iff)
  have "balanced (finish e c v) (remove_matching e P force cs (finish e c v))"
    using Cons.IH [OF balanced_keys [OF c] sub] Cons.prems by simp
  then show ?case
    using c Cons by (auto intro: balanced_trans balanced_quiet)
qed (simp add: balanced_refl)

lemma balanced_remove_type:
  assumes "keys_ok v"
  shows "balanced v (removeCondition_type e type force v)" "balanced v (removeCondition_type_id e type i force v)"
    "balanced v (removePersistent e v)"
  using assms
  by (simp_all add: removeCondition_type_def removeCondition_type_id_def removePersistent_def balanced_remove_matching
      keys_ok_def [symmetric])

lemma balanced_remove: "keys_ok v \<Longrightarrow> balanced v (removeCondition e k force v)"
  by (auto simp: removeCondition_def balanced_refl balanced_quiet balanced_finish dest: getCondition_Some split: option.split)

lemma balanced_remove_combat: "keys_ok v \<Longrightarrow> balanced v (removeCombatCondition e type v)"
proof -
  have "keys_ok w \<Longrightarrow> balanced w (fold (\<lambda>k. removeCondition e k False) ks w)" for ks w
    by (induction ks arbitrary: w) (auto intro: balanced_refl balanced_trans [OF balanced_remove] balanced_keys [OF balanced_remove])
  then show "keys_ok v \<Longrightarrow> ?thesis"
    by (simp add: removeCombatCondition_def)
qed

text \<open>A creature without a mount has none to leave.\<close>

lemma balanced_onAdd:
  assumes "keys_ok v" "lookMount (defaultOutfit v) = 0"
  shows "balanced v (onAddCondition e type v)"
proof -
  have *: "balanced v (removeCondition_type e t False v)" "defaultOutfit (removeCondition_type e t False v) = defaultOutfit v" for t
    using balanced_remove_type(1) [OF assms(1)] by (simp_all add: balanced_def)
  show ?thesis
    using assms * by (simp add: onAddCondition_def balanced_refl Let_def)
qed

lemma balanced_append:
  assumes "keys_ok v" "key c \<notin> key ` set (conditions v)" "shifts v (\<lambda>g. share (victim_player v) g c) v'"
  shows "balanced v (v'\<lparr>conditions := conditions v' @ [c]\<rparr>)"
  using assms by (simp add: balanced_def keys_ok_def excess_def shifts_def read_gauge_def split: gauge.splits)

lemma balanced_add:
  assumes v: "keys_ok v" "lookMount (defaultOutfit v) = 0" and add: "addCondition e c force v = Some (b, v')"
  shows "balanced v v'"
proof (cases "\<not> force \<and> conditionType c = CONDITION_HASTE \<and> hasCondition e CONDITION_PARALYZE 0 v \<and> walkDelay e > 0")
  case True
  then show ?thesis
    using v add by (auto simp: addCondition_def balanced_quiet)
next
  case now': False
  show ?thesis
  proof (cases "getCondition (key c) v")
    case (Some p)
    then obtain c' w where m: "mergeCondition e p c v = Some (c', w)" "v' = set_condition (key c) c' w"
      using add now' by (auto simp: addCondition_def)
    show ?thesis
      using balanced_set [OF v(1), of p c' w] getCondition_Some [OF Some] shifts_merge [OF m(1)] by (simp add: m(2))
  next
    case None
    with add now' have "startCondition e c v \<noteq> None"
      by (auto simp: addCondition_def)
    then obtain ok c' w where s: "startCondition e c v = Some (ok, c', w)"
      by (metis option.exhaust prod_cases3)
    then have r: "v' = (if ok then onAddCondition e (conditionType c') (w\<lparr>conditions := conditions w @ [c']\<rparr>) else w)"
      using add now' None by (auto simp: addCondition_def split: if_splits)
    note st = shifts_start [OF s]
    show ?thesis
    proof (cases ok)
      case True
      with st have "balanced v (w\<lparr>conditions := conditions w @ [c']\<rparr>)"
        using None by (intro balanced_append [OF v(1)]) (simp_all add: getCondition_None cong: if_cong)
      then show ?thesis
        using True r v(2) balanced_trans balanced_onAdd balanced_keys by (metis balanced_def)
    next
      case False
      with st show ?thesis
        using v r by (simp add: shifts_def quiet_def balanced_quiet)
    qed
  qed
qed

lemma execute_step:
  assumes v: "keys_ok v" and c: "getCondition k v = Some c" and ex: "executeCondition e i c v = (alive, c', v')"
  shows "balanced v (set_condition k c' v')" "key c' = k" "c' \<in> set (conditions (set_condition k c' v'))"
    "conditions v' = conditions v"
proof -
  note q = execute_quiet [OF ex] and s = getCondition_Some [OF c]
  show "balanced v (set_condition k c' v')"
    using balanced_set [OF v, of c c' v'] q s by (simp add: quiet_shifts)
  show "key c' = k" "conditions v' = conditions v"
    using q s by (simp_all add: quiet_def)
  then show "c' \<in> set (conditions (set_condition k c' v'))"
    using s by (auto simp: set_condition_def)
qed

lemma balanced_execute_all: "keys_ok v \<Longrightarrow> balanced v (execute_all e i ks v)"
proof (induction ks arbitrary: v)
  case (Cons k ks)
  show ?case
  proof (cases "getCondition k v")
    case (Some c)
    obtain alive c' w where ex: "executeCondition e i c v = (alive, c', w)"
      by (metis prod_cases3)
    define u where "u = (if alive then set_condition k c' w else finish e c' (set_condition k c' w))"
    note st = execute_step [OF Cons.prems Some ex]
    have "balanced v u"
      using st balanced_trans [OF st(1) balanced_finish [OF balanced_keys [OF st(1)] st(3)]] by (simp add: u_def)
    moreover have "execute_all e i (k # ks) v = execute_all e i ks u"
      by (simp add: Some ex u_def)
    ultimately show ?thesis
      using Cons.IH balanced_keys balanced_trans by metis
  qed (use Cons in simp)
qed (simp add: balanced_refl)

section \<open>Histories\<close>

inductive condition_step :: "victim \<Rightarrow> victim \<Rightarrow> bool" where
  add: "addCondition e c force v = Some (b, v') \<Longrightarrow> condition_step v v'"
| remove: "condition_step v (removeCondition e k force v)"
| remove_type: "condition_step v (removeCondition_type e type force v)"
| remove_type_id: "condition_step v (removeCondition_type_id e type i force v)"
| remove_combat: "condition_step v (removeCombatCondition e type v)"
| death: "condition_step v (removePersistent e v)"
| execute: "condition_step v (executeConditions e i v)"

lemma condition_step_balanced: "condition_step v v' \<Longrightarrow> keys_ok v \<Longrightarrow> lookMount (defaultOutfit v) = 0 \<Longrightarrow> balanced v v'"
  by (induction rule: condition_step.induct)
    (simp_all add: balanced_add balanced_remove balanced_remove_type balanced_remove_combat balanced_execute_all executeConditions_def)

lemma condition_steps_balanced:
  assumes "condition_step\<^sup>*\<^sup>* v v'" "keys_ok v" "lookMount (defaultOutfit v) = 0"
  shows "balanced v v'"
  using assms
proof (induction rule: rtranclp_induct)
  case (step y z)
  then have "balanced v y"
    by blast
  moreover from this step(2,5) have "balanced y z"
    by (intro condition_step_balanced) (simp_all add: balanced_def)
  ultimately show ?case
    by (rule balanced_trans)
qed (rule balanced_refl)

definition sample_env :: env where
  "sample_env = \<lparr>now = 5000, walkDelay = 0, suppressed = (\<lambda>t. False), in_protection_zone = False, field_combat = None,
     items_light = (0, 0), formula_speed = (\<lambda>s. 7), percent_skill = (\<lambda>i p. p), percent_stat = (\<lambda>i p. p),
     random_damage = (\<lambda>a b. b), damage_list = (\<lambda>a s. []), can_damage = (\<lambda>c h. True), outfit_allowed = (\<lambda>o'. True), mount_speed = 0\<rparr>"

definition sample_victim :: "condition list \<Rightarrow> victim" where
  "sample_victim cs = \<lparr>conditions = cs, varSpeed = 3, varSkills = (\<lambda>i. 0), varSpecialSkills = (\<lambda>i. 0), varStats = (\<lambda>i. 0),
     canUseDefense = True, drunkenness = 0, internalLight = (0, 215), currentOutfit = new_outfit, defaultOutfit = new_outfit,
     victim_player = True, happenings = []\<rparr>"

definition sample_condition :: "u32 \<Rightarrow> int \<Rightarrow> condition_kind \<Rightarrow> condition" where
  "sample_condition type n k = \<lparr>endTime = n, subId = 0, ticks = 1000, conditionType = type, isBuff = False,
     aggressive = False, condition_id = 0, kind = k\<rparr>"

lemmas sample_conditions = sample_env_def sample_victim_def sample_condition_def key_def

text \<open>C21: After any history of adding, merging, removing and executing conditions, starting with none, the
  speed of a creature without a mount and its skills, special skills and stats are what they were plus exactly what the
  conditions still on its list account for; no two of these have the same type, id and sub-id.  When
  the last condition is gone, every modifier is back where it was.\<close>

theorem modifiers_balanced:
  assumes "conditions v = []" and "lookMount (defaultOutfit v) = 0" and "condition_step\<^sup>*\<^sup>* v v'"
  shows "distinct (map key (conditions v')) \<and>
    read_gauge g v' = read_gauge g v + total_share (victim_player v) g (conditions v')"
proof -
  have "keys_ok v"
    using assms(1) by (simp add: keys_ok_def)
  from condition_steps_balanced [OF assms(3) this assms(2)] have "keys_ok v'" "victim_player v' = victim_player v" "excess g v' = excess g v"
    by (simp_all add: balanced_def)
  then show ?thesis
    using assms(1) by (simp add: keys_ok_def excess_def algebra_simps)
qed

lemma modifiers_balanced_witness:
  "\<exists>v'. addCondition sample_env (sample_condition CONDITION_HASTE 0 (ConditionSpeed (new_speed 20))) True (sample_victim []) = Some (True, v') \<and>
    read_gauge Speed v' = 3 + 20 \<and> read_gauge Speed (removeCondition sample_env (CONDITION_HASTE, 0, 0) True v') = 3"
proof -
  let ?c = "sample_condition CONDITION_HASTE 0 (ConditionSpeed (new_speed 20))"
  define w where "w = snd (the (addCondition sample_env ?c True (sample_victim [])))"
  have w: "addCondition sample_env ?c True (sample_victim []) = Some (True, w)"
    "map kind (conditions w) = [ConditionSpeed (new_speed 20)]"
    "conditions (removeCondition sample_env (CONDITION_HASTE, 0, 0) True w) = []"
    by (simp_all add: w_def sample_conditions addCondition_def getCondition_def startCondition_defs start_base_def Let_def
        new_speed_def changeSpeed_def onAddCondition_def hasCondition_def removeCondition_def conditions_finish type_defs
        finish_def erase_condition_def endCondition_defs onEndCondition_def happen_def)
  have s: "condition_step\<^sup>*\<^sup>* (sample_victim []) w" "condition_step\<^sup>*\<^sup>* (sample_victim []) (removeCondition sample_env (CONDITION_HASTE, 0, 0) True w)"
    using condition_step.add [OF w(1)] condition_step.remove by (meson r_into_rtranclp rtranclp.rtrancl_into_rtrancl)+
  obtain c where c: "conditions w = [c]" "kind c = ConditionSpeed (new_speed 20)"
    using w(2) by auto
  from c w(1,3) modifiers_balanced [OF _ _ s(1), of Speed] modifiers_balanced [OF _ _ s(2), of Speed] show ?thesis
    by (simp add: share_def new_speed_def sample_victim_def read_gauge_def new_outfit_def)
qed

section \<open>Expiry\<close>

text \<open>
  A magic field of its own kind under the creature feeds a condition that deals damage from a
  list: while it lasts, every execution puts the end off by the interval.
\<close>

definition fed_by_field :: "env \<Rightarrow> condition \<Rightarrow> bool" where
  "fed_by_field e c \<longleftrightarrow> field_combat e \<noteq> None \<and> field_of (conditionType c) = field_combat e \<and> sint (ticks c) > 0 \<and>
     (case kind c of ConditionDamage d \<Rightarrow> periodDamage d = 0 \<and> damageList d \<noteq> [] | _ \<Rightarrow> False)"

definition end_after :: "env \<Rightarrow> u32 \<Rightarrow> condition \<Rightarrow> int" where
  "end_after e i c = endTime c + (if fed_by_field e c then sint i else 0)"

definition lasting :: "env \<Rightarrow> u32 \<Rightarrow> condition \<Rightarrow> bool" where
  "lasting e i c \<longleftrightarrow> ticks c = -1 \<or> now e \<le> end_after e i c"

lemma onTickCondition_fed:
  "sint (ticks c) > 0 \<Longrightarrow> \<not> onTickCondition e (conditionType c) (ticks c \<noteq> -1) \<longleftrightarrow>
     field_combat e \<noteq> None \<and> field_of (conditionType c) = field_combat e"
  by (auto simp: onTickCondition_def split: option.splits)

lemma execute_alive:
  assumes "executeCondition e i c v = (alive, c', v')"
  shows "alive \<longleftrightarrow> lasting e i c"
proof (cases "\<exists>d j js. kind c = ConditionDamage d \<and> periodDamage d = 0 \<and> damageList d = j # js")
  case True
  then have "fed_by_field e c \<longleftrightarrow> sint (ticks c) > 0 \<and> \<not> onTickCondition e (conditionType c) (ticks c \<noteq> -1)"
    using onTickCondition_fed [of c e] by (auto simp: fed_by_field_def)
  with True assms show ?thesis
    by (auto simp: executeCondition_def execute_damage_def execute_base_def lasting_def end_after_def Let_def
        split: if_splits prod.splits)
next
  case False
  then have "\<not> fed_by_field e c" by (auto simp: fed_by_field_def neq_Nil_conv split: condition_kind.splits)
  with False assms show ?thesis
    by (auto simp: executeCondition_def execute_damage_def execute_base_def lasting_def end_after_def Let_def
        split: condition_kind.splits if_splits list.splits prod.splits)
qed

lemma conditions_execute_all:
  assumes "keys_ok v" "distinct ks"
  shows "map key (conditions (execute_all e i ks v)) = map key (filter (\<lambda>c. key c \<notin> set ks \<or> lasting e i c) (conditions v))"
  using assms
proof (induction ks arbitrary: v)
  case (Cons k ks)
  show ?case
  proof (cases "getCondition k v")
    case None
    then have "filter (\<lambda>c. key c \<notin> set (k # ks) \<or> lasting e i c) (conditions v) = filter (\<lambda>c. key c \<notin> set ks \<or> lasting e i c) (conditions v)"
      by (intro filter_cong) (auto simp: getCondition_None)
    then show ?thesis
      using Cons None by simp
  next
    case (Some c)
    obtain alive c' w where ex: "executeCondition e i c v = (alive, c', w)"
      by (metis prod_cases3)
    note st = execute_step [OF Cons.prems(1) Some ex] and al = execute_alive [OF ex]
    let ?h = "\<lambda>x. if key x = k then c' else x" and ?P = "\<lambda>c. key c \<notin> set ks \<or> lasting e i c"
    define u where "u = (if alive then set_condition k c' w else finish e c' (set_condition k c' w))"
    have u: "keys_ok u"
      using st balanced_keys [OF balanced_finish [OF balanced_keys [OF st(1)] st(3)]] by (simp add: u_def balanced_keys)
    have cu: "conditions u = filter (\<lambda>x. alive \<or> key x \<noteq> k) (map ?h (conditions v))"
      by (simp add: u_def conditions_finish set_condition_def st)
    have same: "key x = k \<Longrightarrow> x = c" if "x \<in> set (conditions v)" for x
      using that key_inj [of "conditions v" x c] Cons.prems getCondition_Some [OF Some] by (simp add: keys_ok_def)
    have kept: "?P (?h x) \<and> (alive \<or> key (?h x) \<noteq> k) \<longleftrightarrow> key x \<notin> set (k # ks) \<or> lasting e i x" if "x \<in> set (conditions v)" for x
      using same [OF that] Cons.prems(2) al st(2) by auto
    have "map key (filter ?P (conditions u)) = map (key \<circ> ?h) (filter (\<lambda>x. ?P (?h x) \<and> (alive \<or> key (?h x) \<noteq> k)) (conditions v))"
      by (simp add: cu filter_map o_def conj_commute)
    also have "\<dots> = map (key \<circ> ?h) (filter (\<lambda>c. key c \<notin> set (k # ks) \<or> lasting e i c) (conditions v))"
      by (rule arg_cong [OF filter_cong [OF refl kept]])
    also have "\<dots> = map key (filter (\<lambda>c. key c \<notin> set (k # ks) \<or> lasting e i c) (conditions v))"
      by (rule keys_set) (rule st(2))
    finally show ?thesis
      using Cons.IH [OF u] Cons.prems(2) by (simp add: Some ex u_def Let_def)
  qed
qed simp

text \<open>C22: executing a creature's conditions ends those whose time is over and only those.  What
  stays, in order, are the permanent conditions and the ones whose end is not yet reached,
  where the end of a damage condition that a magic field of its kind under the creature feeds
  is first put off by the interval.\<close>

theorem expired_removed:
  assumes "distinct (map key (conditions v))"
  shows "map key (conditions (executeConditions e i v)) =
    map key (filter (\<lambda>c. ticks c = -1 \<or> now e \<le> endTime c + (if fed_by_field e c then sint i else 0)) (conditions v))"
proof -
  have "filter (\<lambda>c. key c \<notin> set (map key (conditions v)) \<or> lasting e i c) (conditions v) = filter (lasting e i) (conditions v)"
    by (rule filter_cong) auto
  then show ?thesis
    using conditions_execute_all [of v "map key (conditions v)" e i] assms
    by (simp add: executeConditions_def keys_ok_def lasting_def [abs_def] end_after_def)
qed

text \<open>The haste is over; a fire of the same age goes on over a fire field.\<close>

definition burning :: condition_damage where
  "burning = new_damage\<lparr>damageList := [\<lparr>timeLeft = 2000, interval_value = -10, interval = 2000\<rparr>]\<rparr>"

lemma expired_removed_witness:
  "map key (conditions (executeConditions (sample_env\<lparr>field_combat := Some 8\<rparr>) 1000
     (sample_victim [sample_condition CONDITION_HASTE 4999 (ConditionSpeed (new_speed 20)),
       sample_condition CONDITION_FIRE 4999 (ConditionDamage burning),
       sample_condition CONDITION_MUTED 5000 ConditionGeneric]))) = [(CONDITION_FIRE, 0, 0), (CONDITION_MUTED, 0, 0)] \<and>
   map key (conditions (executeConditions sample_env 1000
     (sample_victim [sample_condition CONDITION_FIRE 4999 (ConditionDamage burning)]))) = []"
proof -
  let ?v = "sample_victim [sample_condition CONDITION_HASTE 4999 (ConditionSpeed (new_speed 20)),
       sample_condition CONDITION_FIRE 4999 (ConditionDamage burning),
       sample_condition CONDITION_MUTED 5000 ConditionGeneric]"
  have 1: "distinct (map key (conditions ?v))"
    and 2: "distinct (map key (conditions (sample_victim [sample_condition CONDITION_FIRE 4999 (ConditionDamage burning)])))"
    by (simp_all add: sample_conditions type_defs)
  show ?thesis
    using expired_removed [OF 1, of "sample_env\<lparr>field_combat := Some 8\<rparr>" 1000] expired_removed [OF 2, of sample_env 1000]
    by (simp add: sample_conditions fed_by_field_def field_of_def burning_def new_damage_def type_defs)
qed

section \<open>Drinking\<close>

lemma getCondition_set: "getCondition k v = Some p \<Longrightarrow> key c = k \<Longrightarrow> getCondition k (set_condition k c w) = Some c" if "conditions w = conditions v"
proof -
  have "List.find (\<lambda>c. key c = k) xs = Some p \<Longrightarrow> key c = k \<Longrightarrow> List.find (\<lambda>c. key c = k) (map (\<lambda>c'. if key c' = k then c else c') xs) = Some c" for xs
    by (induction xs) (auto split: if_splits)
  then show "getCondition k v = Some p \<Longrightarrow> key c = k \<Longrightarrow> getCondition k (set_condition k c w) = Some c"
    using that by (simp add: getCondition_def set_condition_def)
qed

lemma drink_more:
  assumes "getCondition (key a) v = Some p" "kind p = ConditionDrunk s" "kind a = ConditionDrunk s1" "s < s1"
  shows "\<exists>v' p'. addCondition e a True v = Some (True, v') \<and> drunkenness v' = s1 \<and>
    getCondition (key a) v' = Some p' \<and> kind p' = ConditionDrunk s"
proof -
  have "key p = key a"
    using getCondition_Some [OF assms(1)] by simp
  then have "getCondition (key a) (set_condition (key a) (setTicks (now e) (ticks a) p) (v\<lparr>drunkenness := s1\<rparr>)) =
      Some (setTicks (now e) (ticks a) p)"
    by (intro getCondition_set [OF _ assms(1)]) simp_all
  then show ?thesis
    using assms by (simp add: addCondition_def mergeCondition_defs) (simp add: set_condition_def)
qed

text \<open>A stronger drink raises the drunkenness of a drunk creature but not the strength its condition
  remembers, so a third one that is weaker than the second lowers the drunkenness again.\<close>

theorem weaker_drink_lowers:
  assumes "getCondition (key a) v = Some p" "kind p = ConditionDrunk s" "kind a = ConditionDrunk s1"
    and "key b = key a" "kind b = ConditionDrunk s2" "s < s2" "s2 < s1"
  shows "\<exists>v1 v2. addCondition e a True v = Some (True, v1) \<and> addCondition e' b True v1 = Some (True, v2) \<and>
    drunkenness v1 = s1 \<and> drunkenness v2 = s2"
proof -
  obtain v1 p1 where 1: "addCondition e a True v = Some (True, v1)" "drunkenness v1 = s1"
      "getCondition (key b) v1 = Some p1" "kind p1 = ConditionDrunk s"
    using drink_more [OF assms(1-3) less_trans [OF assms(6,7)], of e] assms(4) by auto
  then obtain v2 where "addCondition e' b True v1 = Some (True, v2)" "drunkenness v2 = s2"
    using drink_more [OF 1(3,4) assms(5,6)] by blast
  then show ?thesis
    using 1 by blast
qed

lemma weaker_drink_lowers_witness:
  "\<exists>v1 v2. addCondition sample_env (sample_condition CONDITION_DRUNK 0 (ConditionDrunk 60)) True
      (sample_victim [sample_condition CONDITION_DRUNK 6000 (ConditionDrunk 25)]) = Some (True, v1) \<and>
    addCondition sample_env (sample_condition CONDITION_DRUNK 0 (ConditionDrunk 30)) True v1 = Some (True, v2) \<and>
    drunkenness v1 = 60 \<and> drunkenness v2 = 30"
  by (rule weaker_drink_lowers [of _ _ "sample_condition CONDITION_DRUNK 6000 (ConditionDrunk 25)" 25])
    (simp_all add: sample_conditions getCondition_def)

end
