(* ===== verification/Icons.thy ===== *)
theory Icons
  imports CreatureConditions
begin

text \<open>
  The status icons of a player: \<open>getIcons\<close> of the condition classes (\<open>condition.cpp\<close>) and
  \<open>Player::getClientIcons\<close> (\<open>player.cpp\<close>), which cuts the set down to what the client can show.
  The \<open>std::bitset<20>\<close> is a word of twenty bits; reading it outside is None.
\<close>

section \<open>Icons of a condition\<close>

definition ICON_POISON :: u32 where "ICON_POISON = 1"
definition ICON_BURN :: u32 where "ICON_BURN = 2"
definition ICON_ENERGY :: u32 where "ICON_ENERGY = 4"
definition ICON_DRUNK :: u32 where "ICON_DRUNK = 8"
definition ICON_MANASHIELD :: u32 where "ICON_MANASHIELD = 16"
definition ICON_PARALYZE :: u32 where "ICON_PARALYZE = 32"
definition ICON_HASTE :: u32 where "ICON_HASTE = 64"
definition ICON_SWORDS :: u32 where "ICON_SWORDS = 128"
definition ICON_DROWNING :: u32 where "ICON_DROWNING = 256"
definition ICON_FREEZING :: u32 where "ICON_FREEZING = 512"
definition ICON_DAZZLED :: u32 where "ICON_DAZZLED = 1024"
definition ICON_CURSED :: u32 where "ICON_CURSED = 2048"
definition ICON_PARTY_BUFF :: u32 where "ICON_PARTY_BUFF = 4096"
definition ICON_REDSWORDS :: u32 where "ICON_REDSWORDS = 8192"
definition ICON_PIGEON :: u32 where "ICON_PIGEON = 16384"

lemmas icon_defs = ICON_POISON_def ICON_BURN_def ICON_ENERGY_def ICON_DRUNK_def ICON_MANASHIELD_def ICON_PARALYZE_def
  ICON_HASTE_def ICON_SWORDS_def ICON_DROWNING_def ICON_FREEZING_def ICON_DAZZLED_def ICON_CURSED_def
  ICON_PARTY_BUFF_def ICON_REDSWORDS_def ICON_PIGEON_def

definition getIcons_base :: "condition \<Rightarrow> u32" where
  "getIcons_base c = (if isBuff c then ICON_PARTY_BUFF else 0)"

definition getIcons_generic :: "condition \<Rightarrow> u32" where
  "getIcons_generic c =
     getIcons_base c OR
     (if conditionType c = CONDITION_MANASHIELD then ICON_MANASHIELD
      else if conditionType c = CONDITION_INFIGHT then ICON_SWORDS
      else 0)"

definition getIcons_damage :: "condition \<Rightarrow> u32" where
  "getIcons_damage c =
     getIcons_base c OR
     (if conditionType c = CONDITION_FIRE then ICON_BURN
      else if conditionType c = CONDITION_ENERGY then ICON_ENERGY
      else if conditionType c = CONDITION_DROWN then ICON_DROWNING
      else if conditionType c = CONDITION_POISON then ICON_POISON
      else if conditionType c = CONDITION_FREEZING then ICON_FREEZING
      else if conditionType c = CONDITION_DAZZLED then ICON_DAZZLED
      else if conditionType c = CONDITION_CURSED then ICON_CURSED
      else 0)"

definition getIcons_speed :: "condition \<Rightarrow> u32" where
  "getIcons_speed c =
     getIcons_base c OR
     (if conditionType c = CONDITION_HASTE then ICON_HASTE
      else if conditionType c = CONDITION_PARALYZE then ICON_PARALYZE
      else 0)"

definition getIcons :: "condition \<Rightarrow> u32" where
  "getIcons c =
     (case kind c of
        ConditionDamage d \<Rightarrow> getIcons_damage c
      | ConditionSpeed s \<Rightarrow> getIcons_speed c
      | ConditionDrunk s \<Rightarrow> ICON_DRUNK
      | ConditionOutfit o' \<Rightarrow> getIcons_base c
      | ConditionLight l \<Rightarrow> getIcons_base c
      | _ \<Rightarrow> getIcons_generic c)"

section \<open>Icons of a player\<close>

definition count_bits :: "20 word \<Rightarrow> nat" where
  "count_bits b = length (List.filter (bit b) [0..<20])"

function drop_icons :: "nat \<Rightarrow> nat \<Rightarrow> 20 word \<Rightarrow> 20 word option" where
  "drop_icons pos bits_set b =
     (if bits_set < 10 then Some b
      else if pos \<ge> 20 then None
      else if bit b pos then drop_icons (Suc pos) (bits_set - 1) (unset_bit pos b)
      else drop_icons (Suc pos) bits_set b)"
  by pat_completeness auto
termination
  by (relation "measure (\<lambda>(pos, _, _). 20 - pos)") auto

declare drop_icons.simps [simp del]

definition collect_icons :: "(u32 \<Rightarrow> bool) \<Rightarrow> bool \<Rightarrow> bool \<Rightarrow> condition list \<Rightarrow> u16" where
  "collect_icons suppress pzLocked protection_zone cs =
     (let icons = fold (\<lambda>c icons. if \<not> suppress (conditionType c) then icons OR ucast (getIcons c) else icons) cs 0;
          icons = (if pzLocked then icons OR ucast ICON_REDSWORDS else icons)
      in if protection_zone then (icons OR ucast ICON_PIGEON) AND NOT (ucast ICON_SWORDS) else icons)"

definition getClientIcons :: "(u32 \<Rightarrow> bool) \<Rightarrow> bool \<Rightarrow> bool \<Rightarrow> condition list \<Rightarrow> u16 option" where
  "getClientIcons suppress pzLocked protection_zone cs =
     (let b = ucast (collect_icons suppress pzLocked protection_zone cs)
      in map_option ucast (drop_icons 0 (count_bits b) b))"

section \<open>What the client gets\<close>

lemma count_bits_card: "count_bits b = card {i. i < 20 \<and> bit b i}"
proof -
  have "count_bits b = card (set (List.filter (bit b) [0..<20]))"
    unfolding count_bits_def by (rule distinct_card [symmetric]) simp
  also have "set (List.filter (bit b) [0..<20]) = {i. i < 20 \<and> bit b i}"
    by auto
  finally show ?thesis .
qed

lemma bits_unset:
  "i < 20 \<Longrightarrow> bit b i \<Longrightarrow> {j. j < 20 \<and> bit (unset_bit i b) j} = {j. j < 20 \<and> bit (b :: 20 word) j} - {i}"
  by (auto simp: bit_unset_bit_iff)

lemma count_bits_unset: "i < 20 \<Longrightarrow> bit b i \<Longrightarrow> count_bits (unset_bit i b) = count_bits b - 1"
  by (simp add: count_bits_card bits_unset)

text \<open>The bits below the position are gone; so a bit is left to find while ten or more are set.\<close>

lemma drop_icons_some:
  assumes "bits_set = count_bits b" "\<forall>i < pos. \<not> bit b i"
  shows "\<exists>r. drop_icons pos bits_set b = Some r \<and> count_bits r = min 9 (count_bits b) \<and>
    (\<forall>i. bit r i \<longrightarrow> bit b i) \<and> (\<forall>i j. bit r i \<longrightarrow> bit b j \<longrightarrow> \<not> bit r j \<longrightarrow> j < i)"
  using assms
proof (induction pos bits_set b rule: drop_icons.induct)
  case (1 pos bits_set b)
  show ?case
  proof (cases "bits_set < 10")
    case True
    then show ?thesis
      using 1(3) by (subst drop_icons.simps) auto
  next
    case big: False
    have "{i. i < 20 \<and> bit b i} \<noteq> {}"
    proof
      assume "{i. i < 20 \<and> bit b i} = {}"
      then have "bits_set = 0"
        using 1(3) by (simp only: count_bits_card card.empty)
      then show False
        using big by simp
    qed
    then obtain i where i: "i < 20" "bit b i"
      by blast
    have pos: "pos < 20"
    proof (rule ccontr)
      assume "\<not> pos < 20"
      then show False
        using i 1(4) by simp
    qed
    show ?thesis
    proof (cases "bit b pos")
      case True
      have clear: "\<forall>i < Suc pos. \<not> bit (unset_bit pos b) i"
        using 1(4) by (auto simp: bit_unset_bit_iff less_Suc_eq)
      have "bits_set - 1 = count_bits (unset_bit pos b)"
        using 1(3) count_bits_unset [OF pos True] by simp
      from 1(1) [OF big _ True this clear] pos obtain r where
        r: "drop_icons (Suc pos) (bits_set - 1) (unset_bit pos b) = Some r"
          "count_bits r = min 9 (count_bits (unset_bit pos b))"
          "\<And>i. bit r i \<Longrightarrow> bit (unset_bit pos b) i"
          "\<And>i j. bit r i \<Longrightarrow> bit (unset_bit pos b) j \<Longrightarrow> \<not> bit r j \<Longrightarrow> j < i"
        by auto
      have "j < i" if "bit r i" "bit b j" "\<not> bit r j" for i j
      proof (cases "j = pos")
        case True
        have "\<not> i < Suc pos"
          using r(3) [OF that(1)] clear by blast
        then show ?thesis
          using True by simp
      qed (use that r(4) in \<open>auto simp: bit_unset_bit_iff\<close>)
      moreover have "bit b i" if "bit r i" for i
        using r(3) [OF that] by (simp add: bit_unset_bit_iff)
      moreover have "count_bits r = min 9 (count_bits b)"
        using r(2) big 1(3) count_bits_unset [OF pos True] by simp
      ultimately show ?thesis
        using r(1) big pos True by (subst drop_icons.simps) auto
    next
      case False
      have "\<forall>i < Suc pos. \<not> bit b i"
        using 1(4) False by (simp add: less_Suc_eq)
      then show ?thesis
        using 1(2) [OF big _ False 1(3)] big pos False by (subst drop_icons.simps) simp
    qed
  qed
qed

text \<open>C23: The loop that cuts the icons down never reads outside the bit set and ends; the client gets at most
  nine icons, only icons the player has, all of them if there are no more than nine, and otherwise the
  ones with the highest numbers.\<close>

theorem client_icons:
  "\<exists>r. getClientIcons suppress pzLocked protection_zone cs = Some r \<and>
     card {i. bit r i} = min 9 (card {i. bit (collect_icons suppress pzLocked protection_zone cs) i}) \<and>
     {i. bit r i} \<subseteq> {i. bit (collect_icons suppress pzLocked protection_zone cs) i} \<and>
     {(i, j). bit r i \<and> bit (collect_icons suppress pzLocked protection_zone cs) j \<and> \<not> bit r j \<and> i \<le> j} = {}"
proof -
  let ?c = "collect_icons suppress pzLocked protection_zone cs"
  let ?b = "ucast ?c :: 20 word"
  obtain r where r: "drop_icons 0 (count_bits ?b) ?b = Some r" "count_bits r = min 9 (count_bits ?b)"
      "\<And>i. bit r i \<Longrightarrow> bit ?b i" "\<And>i j. bit r i \<Longrightarrow> bit ?b j \<Longrightarrow> \<not> bit r j \<Longrightarrow> j < i"
    using drop_icons_some [of "count_bits ?b" ?b 0] by auto
  have b: "bit ?b i \<longleftrightarrow> bit ?c i" for i
    using bit_imp_le_length [of ?c i] by (auto simp: bit_ucast_iff)
  have u: "bit (ucast r :: u16) i \<longleftrightarrow> bit r i" for i
    using r(3) [of i] b [of i] bit_imp_le_length [of ?c i] by (auto simp: bit_ucast_iff)
  have card: "card {i. i < 20 \<and> bit w i} = card {i. bit w i}" for w :: "20 word"
  proof -
    have "i < 20" if "bit w i" for i
      using bit_imp_le_length [OF that] by simp
    then show ?thesis
      by (metis (full_types))
  qed
  have n: "card {i. bit r i} = min 9 (card {i. bit ?c i})"
    using r(2) ext [of "bit ?b" "bit ?c", OF b] unfolding count_bits_card card by simp
  show ?thesis
    by (intro exI [of _ "ucast r :: u16"] conjI)
      (use r(1) n r(3) r(4) in \<open>auto simp: getClientIcons_def Let_def u b simp flip: not_less\<close>)
qed

end
