(* ===== verification/ItemAttributes.thy ===== *)
theory ItemAttributes
  imports PropStream "HOL-Library.AList"
begin

text \<open>
  The attributes of an item, \<open>ItemAttributes\<close> of \<open>src/src/item.h\<close> and \<open>item.cpp\<close>: a vector of
  typed values with a bit set that says which types are there.  The abstract specification is a
  map from types to values; the lemmas show that every operation of the vector implements the one
  of the map.  A \<open>std::map\<close> is a list sorted by its keys, an \<open>std::unordered_map\<close> a HOL map whose
  order of iteration is left open; 64-bit integers are words, a \<open>double\<close> is its bit pattern.
\<close>

section \<open>Types of attributes\<close>

text \<open>\<open>itemAttrTypes\<close>: one bit each.\<close>

definition ITEM_ATTRIBUTE_NONE :: u32 where "ITEM_ATTRIBUTE_NONE = 0"
definition ITEM_ATTRIBUTE_ACTIONID :: u32 where "ITEM_ATTRIBUTE_ACTIONID = 1"
definition ITEM_ATTRIBUTE_UNIQUEID :: u32 where "ITEM_ATTRIBUTE_UNIQUEID = 2"
definition ITEM_ATTRIBUTE_DESCRIPTION :: u32 where "ITEM_ATTRIBUTE_DESCRIPTION = 4"
definition ITEM_ATTRIBUTE_TEXT :: u32 where "ITEM_ATTRIBUTE_TEXT = 8"
definition ITEM_ATTRIBUTE_DATE :: u32 where "ITEM_ATTRIBUTE_DATE = 16"
definition ITEM_ATTRIBUTE_WRITER :: u32 where "ITEM_ATTRIBUTE_WRITER = 32"
definition ITEM_ATTRIBUTE_NAME :: u32 where "ITEM_ATTRIBUTE_NAME = 64"
definition ITEM_ATTRIBUTE_ARTICLE :: u32 where "ITEM_ATTRIBUTE_ARTICLE = 128"
definition ITEM_ATTRIBUTE_PLURALNAME :: u32 where "ITEM_ATTRIBUTE_PLURALNAME = 256"
definition ITEM_ATTRIBUTE_WEIGHT :: u32 where "ITEM_ATTRIBUTE_WEIGHT = 512"
definition ITEM_ATTRIBUTE_ATTACK :: u32 where "ITEM_ATTRIBUTE_ATTACK = 1024"
definition ITEM_ATTRIBUTE_DEFENSE :: u32 where "ITEM_ATTRIBUTE_DEFENSE = 2048"
definition ITEM_ATTRIBUTE_EXTRADEFENSE :: u32 where "ITEM_ATTRIBUTE_EXTRADEFENSE = 4096"
definition ITEM_ATTRIBUTE_ARMOR :: u32 where "ITEM_ATTRIBUTE_ARMOR = 8192"
definition ITEM_ATTRIBUTE_HITCHANCE :: u32 where "ITEM_ATTRIBUTE_HITCHANCE = 16384"
definition ITEM_ATTRIBUTE_SHOOTRANGE :: u32 where "ITEM_ATTRIBUTE_SHOOTRANGE = 32768"
definition ITEM_ATTRIBUTE_OWNER :: u32 where "ITEM_ATTRIBUTE_OWNER = 65536"
definition ITEM_ATTRIBUTE_DURATION :: u32 where "ITEM_ATTRIBUTE_DURATION = 131072"
definition ITEM_ATTRIBUTE_DECAYSTATE :: u32 where "ITEM_ATTRIBUTE_DECAYSTATE = 262144"
definition ITEM_ATTRIBUTE_CORPSEOWNER :: u32 where "ITEM_ATTRIBUTE_CORPSEOWNER = 524288"
definition ITEM_ATTRIBUTE_CHARGES :: u32 where "ITEM_ATTRIBUTE_CHARGES = 1048576"
definition ITEM_ATTRIBUTE_FLUIDTYPE :: u32 where "ITEM_ATTRIBUTE_FLUIDTYPE = 2097152"
definition ITEM_ATTRIBUTE_DOORID :: u32 where "ITEM_ATTRIBUTE_DOORID = 4194304"
definition ITEM_ATTRIBUTE_DECAYTO :: u32 where "ITEM_ATTRIBUTE_DECAYTO = 8388608"
definition ITEM_ATTRIBUTE_WRAPID :: u32 where "ITEM_ATTRIBUTE_WRAPID = 16777216"
definition ITEM_ATTRIBUTE_STOREITEM :: u32 where "ITEM_ATTRIBUTE_STOREITEM = 33554432"
definition ITEM_ATTRIBUTE_ATTACK_SPEED :: u32 where "ITEM_ATTRIBUTE_ATTACK_SPEED = 67108864"
definition ITEM_ATTRIBUTE_CLASSIFICATION :: u32 where "ITEM_ATTRIBUTE_CLASSIFICATION = 134217728"
definition ITEM_ATTRIBUTE_TIER :: u32 where "ITEM_ATTRIBUTE_TIER = 268435456"
definition ITEM_ATTRIBUTE_IMBUEMENTSLOTS :: u32 where "ITEM_ATTRIBUTE_IMBUEMENTSLOTS = 536870912"
definition ITEM_ATTRIBUTE_AUTOOPEN :: u32 where "ITEM_ATTRIBUTE_AUTOOPEN = 1073741824"
definition ITEM_ATTRIBUTE_CUSTOM :: u32 where "ITEM_ATTRIBUTE_CUSTOM = 2147483648"

lemmas item_attribute_defs =
  ITEM_ATTRIBUTE_NONE_def ITEM_ATTRIBUTE_ACTIONID_def ITEM_ATTRIBUTE_UNIQUEID_def
  ITEM_ATTRIBUTE_DESCRIPTION_def ITEM_ATTRIBUTE_TEXT_def ITEM_ATTRIBUTE_DATE_def ITEM_ATTRIBUTE_WRITER_def
  ITEM_ATTRIBUTE_NAME_def ITEM_ATTRIBUTE_ARTICLE_def ITEM_ATTRIBUTE_PLURALNAME_def ITEM_ATTRIBUTE_WEIGHT_def
  ITEM_ATTRIBUTE_ATTACK_def ITEM_ATTRIBUTE_DEFENSE_def ITEM_ATTRIBUTE_EXTRADEFENSE_def
  ITEM_ATTRIBUTE_ARMOR_def ITEM_ATTRIBUTE_HITCHANCE_def ITEM_ATTRIBUTE_SHOOTRANGE_def ITEM_ATTRIBUTE_OWNER_def
  ITEM_ATTRIBUTE_DURATION_def ITEM_ATTRIBUTE_DECAYSTATE_def ITEM_ATTRIBUTE_CORPSEOWNER_def
  ITEM_ATTRIBUTE_CHARGES_def ITEM_ATTRIBUTE_FLUIDTYPE_def ITEM_ATTRIBUTE_DOORID_def ITEM_ATTRIBUTE_DECAYTO_def
  ITEM_ATTRIBUTE_WRAPID_def ITEM_ATTRIBUTE_STOREITEM_def ITEM_ATTRIBUTE_ATTACK_SPEED_def
  ITEM_ATTRIBUTE_CLASSIFICATION_def ITEM_ATTRIBUTE_TIER_def ITEM_ATTRIBUTE_IMBUEMENTSLOTS_def
  ITEM_ATTRIBUTE_AUTOOPEN_def ITEM_ATTRIBUTE_CUSTOM_def

definition intAttributeTypes :: u32 where
  "intAttributeTypes =
     ITEM_ATTRIBUTE_ACTIONID OR ITEM_ATTRIBUTE_UNIQUEID OR ITEM_ATTRIBUTE_DATE OR ITEM_ATTRIBUTE_WEIGHT
      OR ITEM_ATTRIBUTE_ATTACK OR ITEM_ATTRIBUTE_DEFENSE OR ITEM_ATTRIBUTE_EXTRADEFENSE
      OR ITEM_ATTRIBUTE_ARMOR OR ITEM_ATTRIBUTE_HITCHANCE OR ITEM_ATTRIBUTE_SHOOTRANGE OR ITEM_ATTRIBUTE_OWNER
      OR ITEM_ATTRIBUTE_DURATION OR ITEM_ATTRIBUTE_DECAYSTATE OR ITEM_ATTRIBUTE_CORPSEOWNER
      OR ITEM_ATTRIBUTE_CHARGES OR ITEM_ATTRIBUTE_FLUIDTYPE OR ITEM_ATTRIBUTE_DOORID OR ITEM_ATTRIBUTE_DECAYTO
      OR ITEM_ATTRIBUTE_ATTACK_SPEED OR ITEM_ATTRIBUTE_CLASSIFICATION OR ITEM_ATTRIBUTE_TIER
      OR ITEM_ATTRIBUTE_IMBUEMENTSLOTS OR ITEM_ATTRIBUTE_AUTOOPEN"

definition stringAttributeTypes :: u32 where
  "stringAttributeTypes =
     ITEM_ATTRIBUTE_DESCRIPTION OR ITEM_ATTRIBUTE_TEXT OR ITEM_ATTRIBUTE_WRITER OR ITEM_ATTRIBUTE_NAME
      OR ITEM_ATTRIBUTE_ARTICLE OR ITEM_ATTRIBUTE_PLURALNAME"

definition isIntAttrType :: "u32 \<Rightarrow> bool" where
  "isIntAttrType type \<longleftrightarrow> type AND intAttributeTypes = type"

definition isStrAttrType :: "u32 \<Rightarrow> bool" where
  "isStrAttrType type \<longleftrightarrow> type AND stringAttributeTypes = type"

definition isCustomAttrType :: "u32 \<Rightarrow> bool" where
  "isCustomAttrType type \<longleftrightarrow> type AND ITEM_ATTRIBUTE_CUSTOM = type"

lemmas attr_kind_defs = isIntAttrType_def isStrAttrType_def isCustomAttrType_def intAttributeTypes_def
  stringAttributeTypes_def item_attribute_defs

section \<open>Values\<close>

datatype custom_attribute =
    Blank
  | CString bytes
  | CInt u64
  | CDouble u64
  | CBool bool

datatype attr_value =
    IntValue u64
  | StrValue bytes
  | CustomValue "bytes \<rightharpoonup> custom_attribute"

record item_attributes =
  attribute_list :: "(u32 \<times> attr_value) list"
  attributeBits :: u32
  reflect :: "(u16 \<times> u16 \<times> u16) list"
  boostPercent :: "(u16 \<times> u16) list"

definition no_attributes :: item_attributes where
  "no_attributes = \<lparr>attribute_list = [], attributeBits = 0, reflect = [], boostPercent = []\<rparr>"

text \<open>\<open>m[k] = v\<close> of a \<open>std::map\<close>.\<close>

fun map_put :: "u16 \<Rightarrow> 'v \<Rightarrow> (u16 \<times> 'v) list \<Rightarrow> (u16 \<times> 'v) list" where
  "map_put k v [] = [(k, v)]"
| "map_put k v ((m, w) # ks) =
     (if k = m then (k, v) # ks else if k < m then (k, v) # (m, w) # ks else (m, w) # map_put k v ks)"

text \<open>\<open>tolower\<close> in the C locale.\<close>

definition to_lower :: "u8 \<Rightarrow> u8" where
  "to_lower c = (if 65 \<le> c \<and> c \<le> 90 then c + 32 else c)"

definition lowerCaseBytes :: "bytes \<Rightarrow> bytes" where
  "lowerCaseBytes = map to_lower"

section \<open>Operations\<close>

definition hasAttribute :: "u32 \<Rightarrow> item_attributes \<Rightarrow> bool" where
  "hasAttribute type a \<longleftrightarrow> type AND attributeBits a \<noteq> 0"

definition getExistingAttr :: "u32 \<Rightarrow> item_attributes \<Rightarrow> attr_value option" where
  "getExistingAttr type a = (if hasAttribute type a then map_of (attribute_list a) type else None)"

text \<open>An assignment to the value of \<open>getAttr(type)\<close>, which makes the attribute when it is not there.\<close>

definition setAttr :: "u32 \<Rightarrow> attr_value \<Rightarrow> item_attributes \<Rightarrow> item_attributes" where
  "setAttr type v a =
     (if hasAttribute type a \<and> type \<in> fst ` set (attribute_list a)
      then a\<lparr>attribute_list := AList.update type v (attribute_list a)\<rparr>
      else a\<lparr>attributeBits := attributeBits a OR type, attribute_list := attribute_list a @ [(type, v)]\<rparr>)"

definition getStrAttr :: "u32 \<Rightarrow> item_attributes \<Rightarrow> bytes" where
  "getStrAttr type a =
     (if \<not> isStrAttrType type then []
      else case getExistingAttr type a of Some (StrValue s) \<Rightarrow> s | _ \<Rightarrow> [])"

definition setStrAttr :: "u32 \<Rightarrow> bytes \<Rightarrow> item_attributes \<Rightarrow> item_attributes" where
  "setStrAttr type s a =
     (if \<not> isStrAttrType type then a else if s = [] then a else setAttr type (StrValue s) a)"

definition getIntAttr :: "u32 \<Rightarrow> item_attributes \<Rightarrow> u64" where
  "getIntAttr type a =
     (if \<not> isIntAttrType type then 0
      else case getExistingAttr type a of Some (IntValue n) \<Rightarrow> n | _ \<Rightarrow> 0)"

definition setIntAttr :: "u32 \<Rightarrow> u64 \<Rightarrow> item_attributes \<Rightarrow> item_attributes" where
  "setIntAttr type n a =
     (if \<not> isIntAttrType type then a
      else setAttr type (IntValue (if type = ITEM_ATTRIBUTE_ATTACK_SPEED \<and> sint n < 100 then 100 else n)) a)"

definition increaseIntAttr :: "u32 \<Rightarrow> u64 \<Rightarrow> item_attributes \<Rightarrow> item_attributes" where
  "increaseIntAttr type n a = setIntAttr type (getIntAttr type a + n) a"

text \<open>\<open>removeAttribute\<close> looks for the type from the back, puts the last attribute in its place and drops
  the last one.\<close>

definition remove_from_back :: "u32 \<Rightarrow> (u32 \<times> 'v) list \<Rightarrow> (u32 \<times> 'v) list" where
  "remove_from_back type xs =
     (if fst (last xs) = type then butlast xs
      else case index_of type (map fst (rev xs)) of
        None \<Rightarrow> xs
      | Some i \<Rightarrow> butlast (xs[length xs - 1 - i := last xs]))"

definition removeAttribute :: "u32 \<Rightarrow> item_attributes \<Rightarrow> item_attributes" where
  "removeAttribute type a =
     (if \<not> hasAttribute type a then a
      else a\<lparr>attribute_list := remove_from_back type (attribute_list a), attributeBits := attributeBits a AND NOT type\<rparr>)"

definition getCustomAttributeMap :: "item_attributes \<Rightarrow> (bytes \<rightharpoonup> custom_attribute) option" where
  "getCustomAttributeMap a =
     (if \<not> hasAttribute ITEM_ATTRIBUTE_CUSTOM a then None
      else case getExistingAttr ITEM_ATTRIBUTE_CUSTOM a of Some (CustomValue m) \<Rightarrow> Some m | _ \<Rightarrow> Some Map.empty)"

definition getCustomAttribute :: "bytes \<Rightarrow> item_attributes \<Rightarrow> custom_attribute option" where
  "getCustomAttribute k a = (case getCustomAttributeMap a of None \<Rightarrow> None | Some m \<Rightarrow> m (lowerCaseBytes k))"

definition removeCustomAttribute :: "bytes \<Rightarrow> item_attributes \<Rightarrow> bool \<times> item_attributes" where
  "removeCustomAttribute k a =
     (case getCustomAttributeMap a of
        None \<Rightarrow> (False, a)
      | Some m \<Rightarrow>
          if m (lowerCaseBytes k) = None then (False, a)
          else (True, setAttr ITEM_ATTRIBUTE_CUSTOM (CustomValue (m(lowerCaseBytes k := None))) a))"

definition setCustomAttribute :: "bytes \<Rightarrow> custom_attribute \<Rightarrow> item_attributes \<Rightarrow> item_attributes" where
  "setCustomAttribute k c a =
     (let k = lowerCaseBytes k;
          a = (if hasAttribute ITEM_ATTRIBUTE_CUSTOM a then snd (removeCustomAttribute k a)
               else setAttr ITEM_ATTRIBUTE_CUSTOM (CustomValue Map.empty) a)
      in case getCustomAttributeMap a of
           None \<Rightarrow> a
         | Some m \<Rightarrow> setAttr ITEM_ATTRIBUTE_CUSTOM (CustomValue (m(k \<mapsto> c))) a)"

definition getReflect :: "u16 \<Rightarrow> item_attributes \<Rightarrow> u16 \<times> u16" where
  "getReflect combatType a = (case map_of (reflect a) combatType of Some r \<Rightarrow> r | None \<Rightarrow> (0, 0))"

definition getBoostPercent :: "u16 \<Rightarrow> item_attributes \<Rightarrow> u16" where
  "getBoostPercent combatType a = (case map_of (boostPercent a) combatType of Some p \<Rightarrow> p | None \<Rightarrow> 0)"

section \<open>The vector as a map\<close>

text \<open>What a store of keyed values promises: the laws of a map, for the keys it supports.\<close>

locale keyed_store =
  fixes empty :: 's
    and lookup :: "'s \<Rightarrow> 'k \<Rightarrow> 'v option"
    and update :: "'k \<Rightarrow> 'v \<Rightarrow> 's \<Rightarrow> 's"
    and delete :: "'k \<Rightarrow> 's \<Rightarrow> 's"
    and invar :: "'s \<Rightarrow> bool"
    and key_ok :: "'k \<Rightarrow> bool"
  assumes invar_empty: "invar empty"
    and lookup_empty: "lookup empty = Map.empty"
    and invar_update: "invar s \<Longrightarrow> key_ok k \<Longrightarrow> invar (update k v s)"
    and lookup_update: "invar s \<Longrightarrow> key_ok k \<Longrightarrow> lookup (update k v s) = (lookup s)(k \<mapsto> v)"
    and invar_delete: "invar s \<Longrightarrow> key_ok k \<Longrightarrow> invar (delete k s)"
    and lookup_delete: "invar s \<Longrightarrow> key_ok k \<Longrightarrow> lookup (delete k s) = (lookup s)(k := None)"
begin

text \<open>Storing a list of entries one after the other adds them to the map.\<close>

lemma store_all:
  assumes "invar s" "\<And>k v. (k, v) \<in> set es \<Longrightarrow> key_ok k" "distinct (map fst es)"
  shows "invar (fold (\<lambda>(k, v). update k v) es s) \<and> lookup (fold (\<lambda>(k, v). update k v) es s) = lookup s ++ map_of es"
  using assms
proof (induction es arbitrary: s)
  case (Cons e es)
  obtain k v where e: "e = (k, v)"
    by (cases e)
  have k: "key_ok k"
    using Cons.prems(2) [of k v] by (simp add: e)
  have IH: "invar (fold (\<lambda>(k, v). update k v) es (update k v s)) \<and>
      lookup (fold (\<lambda>(k, v). update k v) es (update k v s)) = lookup (update k v s) ++ map_of es"
    using Cons.prems k by (intro Cons.IH invar_update) (auto simp: e)
  have "map_of es k = None"
    using Cons.prems(3) by (simp add: e map_of_eq_None_iff)
  then have "(lookup s)(k \<mapsto> v) ++ map_of es = lookup s ++ map_of ((k, v) # es)"
    by (auto simp: map_add_def fun_eq_iff split: option.splits)
  then show ?case
    using IH Cons.prems(1) k by (simp only: e lookup_update fold_simps prod.case simp_thms)
qed simp

end

definition single :: "u32 \<Rightarrow> bool" where
  "single type \<longleftrightarrow> (\<exists>i < 32. type = 2 ^ i)"

abbreviation attr_map :: "item_attributes \<Rightarrow> u32 \<rightharpoonup> attr_value" where
  "attr_map a \<equiv> map_of (attribute_list a)"

definition attrs_ok :: "item_attributes \<Rightarrow> bool" where
  "attrs_ok a \<longleftrightarrow> distinct (map fst (attribute_list a)) \<and>
     (\<forall>type\<in>fst ` set (attribute_list a). single type) \<and>
     (\<forall>i < 32. bit (attributeBits a) i \<longleftrightarrow> 2 ^ i \<in> fst ` set (attribute_list a))"

lemma exp_eq: "i < 32 \<Longrightarrow> j < 32 \<Longrightarrow> (2 ^ i :: u32) = 2 ^ j \<longleftrightarrow> i = j"
proof -
  assume *: "i < 32" "j < 32"
  have "bit (2 ^ i :: u32) i" "bit (2 ^ j :: u32) i \<longleftrightarrow> i = j"
    using * by (auto simp: bit_simps)
  then show "(2 ^ i :: u32) = 2 ^ j \<longleftrightarrow> i = j"
    by auto
qed

lemma hasAttribute_bit: "i < 32 \<Longrightarrow> hasAttribute (2 ^ i) a \<longleftrightarrow> bit (attributeBits a) i"
  by (simp add: hasAttribute_def and_exp_eq_0_iff_not_bit and.commute [of "2 ^ i"])

lemma hasAttribute_iff: "attrs_ok a \<Longrightarrow> single type \<Longrightarrow> hasAttribute type a \<longleftrightarrow> type \<in> fst ` set (attribute_list a)"
  by (metis single_def hasAttribute_bit attrs_ok_def)

lemma getExistingAttr_map: "attrs_ok a \<Longrightarrow> single type \<Longrightarrow> getExistingAttr type a = attr_map a type"
  using map_of_eq_None_iff [of "attribute_list a" type] by (auto simp: getExistingAttr_def hasAttribute_iff)

lemma attrs_ok_empty [simp]: "attrs_ok no_attributes"
  by (simp add: attrs_ok_def no_attributes_def)

lemma attrs_ok_set:
  assumes "attrs_ok a" "single type"
  shows "attrs_ok (setAttr type v a)"
proof (cases "type \<in> fst ` set (attribute_list a)")
  case True
  then show ?thesis
    using assms unfolding setAttr_def hasAttribute_iff [OF assms] attrs_ok_def
    by (simp add: dom_update distinct_update insert_absorb)
next
  case False
  obtain i where i: "i < 32" "type = 2 ^ i"
    using assms(2) by (auto simp: single_def)
  show ?thesis
    using False assms i
    by (auto simp: setAttr_def hasAttribute_iff attrs_ok_def bit_or_iff bit_exp_iff exp_eq)
qed

lemma attr_map_set:
  assumes "attrs_ok a" "single type"
  shows "attr_map (setAttr type v a) = (attr_map a)(type \<mapsto> v)"
proof (cases "type \<in> fst ` set (attribute_list a)")
  case True
  then show ?thesis
    using assms by (simp add: setAttr_def hasAttribute_iff update_conv')
next
  case False
  then have "attr_map a type = None"
    by (simp add: map_of_eq_None_iff)
  moreover have "attribute_list (setAttr type v a) = attribute_list a @ [(type, v)]"
    using False by (simp add: setAttr_def)
  ultimately show ?thesis
    by (auto simp: map_add_def fun_eq_iff split: option.splits)
qed

lemma index_of_append: "x \<notin> set us \<Longrightarrow> index_of x (us @ x # vs) = Some (length us)"
  by (induction us) auto

lemma mset_remove_from_back:
  assumes "distinct (map fst xs)" "type \<in> fst ` set xs"
  shows "mset (remove_from_back type xs) = mset (AList.delete type xs)"
proof -
  obtain v where "(type, v) \<in> set xs"
    using assms(2) by auto
  then obtain ys zs where xs: "xs = ys @ (type, v) # zs"
    by (meson split_list)
  have n: "type \<notin> fst ` set ys" "type \<notin> fst ` set zs"
    using assms(1) by (auto simp: xs)
  have "AList.delete type (us @ ws) = AList.delete type us @ AList.delete type ws" for us ws :: "(u32 \<times> 'a) list"
    by (simp add: AList.delete_eq)
  then have del: "AList.delete type xs = ys @ zs"
    using n by (simp add: xs)
  show ?thesis
  proof (cases zs rule: rev_cases)
    case Nil
    then show ?thesis
      by (simp add: del remove_from_back_def) (simp add: xs)
  next
    case (snoc zs' l)
    have i: "index_of type (map fst (rev xs)) = Some (length zs)"
      using index_of_append [of type "map fst (rev zs)" "map fst (rev ys)"] n by (simp add: xs image_iff)
    have "fst (last xs) \<noteq> type"
      using n by (auto simp: xs snoc)
    then have "remove_from_back type xs = ys @ l # zs'"
      unfolding remove_from_back_def i by (simp add: xs snoc list_update_append butlast_append)
    then show ?thesis
      by (simp add: del snoc)
  qed
qed

lemma remove_from_back_map:
  assumes "distinct (map fst xs)" "type \<in> fst ` set xs"
  shows "distinct (map fst (remove_from_back type xs))" "map_of (remove_from_back type xs) = (map_of xs)(type := None)"
    "fst ` set (remove_from_back type xs) = fst ` set xs - {type}"
proof -
  note m = mset_remove_from_back [OF assms]
  have d: "distinct (map fst (AList.delete type xs))"
    using assms(1) by (rule distinct_delete)
  show d': "distinct (map fst (remove_from_back type xs))"
    using m d by (metis distinct_map mset_eq_imp_distinct_iff mset_map)
  show "map_of (remove_from_back type xs) = (map_of xs)(type := None)"
    using map_of_inject_set [OF d' d] mset_eq_setD [OF m] by (simp add: delete_conv')
  show "fst ` set (remove_from_back type xs) = fst ` set xs - {type}"
    using mset_eq_setD [OF m] arg_cong [OF delete_keys [of type xs], of set] by simp
qed

lemma remove_present:
  assumes "attrs_ok a" "single type"
  shows "attrs_ok (removeAttribute type a)" "attr_map (removeAttribute type a) = (attr_map a)(type := None)"
proof -
  obtain i where i: "i < 32" "type = 2 ^ i"
    using assms(2) by (auto simp: single_def)
  have *: "distinct (map fst (attribute_list a))"
    using assms(1) by (simp add: attrs_ok_def)
  show "attrs_ok (removeAttribute type a)"
  proof (cases "type \<in> fst ` set (attribute_list a)")
    case True
    then have "removeAttribute type a =
        a\<lparr>attribute_list := remove_from_back type (attribute_list a), attributeBits := attributeBits a AND NOT type\<rparr>"
      using assms by (simp add: removeAttribute_def hasAttribute_iff)
    then show ?thesis
      using assms(1) i remove_from_back_map [OF * True]
      by (auto simp: attrs_ok_def bit_simps exp_eq)
  next
    case False
    then show ?thesis
      using assms by (simp add: removeAttribute_def hasAttribute_iff)
  qed
  show "attr_map (removeAttribute type a) = (attr_map a)(type := None)"
    using assms remove_from_back_map(2) [OF *] map_of_eq_None_iff [of "attribute_list a" type]
    by (auto simp: removeAttribute_def hasAttribute_iff)
qed

interpretation attrs: keyed_store no_attributes attr_map setAttr removeAttribute attrs_ok single
  by unfold_locales (simp_all add: attrs_ok_set attr_map_set remove_present no_attributes_def [THEN arg_cong [of _ _ attribute_list]])

section \<open>Histories of an attribute vector\<close>

datatype attr_op =
    SetInt u32 u64
  | IncreaseInt u32 u64
  | SetStr u32 bytes
  | Remove u32
  | SetCustom bytes custom_attribute
  | RemoveCustom bytes

definition run_op :: "attr_op \<Rightarrow> item_attributes \<Rightarrow> item_attributes" where
  "run_op op' a =
     (case op' of
        SetInt type n \<Rightarrow> setIntAttr type n a
      | IncreaseInt type n \<Rightarrow> increaseIntAttr type n a
      | SetStr type s \<Rightarrow> setStrAttr type s a
      | Remove type \<Rightarrow> removeAttribute type a
      | SetCustom k c \<Rightarrow> setCustomAttribute k c a
      | RemoveCustom k \<Rightarrow> snd (removeCustomAttribute k a))"

text \<open>The specification: the same on a map from types to values.\<close>

type_synonym attr_spec = "u32 \<rightharpoonup> attr_value"

definition spec_int :: "u32 \<Rightarrow> attr_spec \<Rightarrow> u64" where
  "spec_int type m = (case m type of Some (IntValue n) \<Rightarrow> n | _ \<Rightarrow> 0)"

definition spec_str :: "u32 \<Rightarrow> attr_spec \<Rightarrow> bytes" where
  "spec_str type m = (case m type of Some (StrValue s) \<Rightarrow> s | _ \<Rightarrow> [])"

definition spec_custom :: "attr_spec \<Rightarrow> bytes \<rightharpoonup> custom_attribute" where
  "spec_custom m = (case m ITEM_ATTRIBUTE_CUSTOM of Some (CustomValue c) \<Rightarrow> c | _ \<Rightarrow> Map.empty)"

definition at_least_100 :: "u32 \<Rightarrow> u64 \<Rightarrow> u64" where
  "at_least_100 type n = (if type = ITEM_ATTRIBUTE_ATTACK_SPEED \<and> sint n < 100 then 100 else n)"

definition spec_op :: "attr_op \<Rightarrow> attr_spec \<Rightarrow> attr_spec" where
  "spec_op op' m =
     (case op' of
        SetInt type n \<Rightarrow> if isIntAttrType type then m(type \<mapsto> IntValue (at_least_100 type n)) else m
      | IncreaseInt type n \<Rightarrow> if isIntAttrType type then m(type \<mapsto> IntValue (at_least_100 type (spec_int type m + n))) else m
      | SetStr type s \<Rightarrow> if isStrAttrType type \<and> s \<noteq> [] then m(type \<mapsto> StrValue s) else m
      | Remove type \<Rightarrow> m(type := None)
      | SetCustom k c \<Rightarrow> m(ITEM_ATTRIBUTE_CUSTOM \<mapsto> CustomValue ((spec_custom m)(lowerCaseBytes k \<mapsto> c)))
      | RemoveCustom k \<Rightarrow>
          if spec_custom m (lowerCaseBytes k) = None then m
          else m(ITEM_ATTRIBUTE_CUSTOM \<mapsto> CustomValue ((spec_custom m)(lowerCaseBytes k := None))))"

definition op_type_ok :: "attr_op \<Rightarrow> bool" where
  "op_type_ok op' =
     (case op' of SetInt type n \<Rightarrow> single type | IncreaseInt type n \<Rightarrow> single type | SetStr type s \<Rightarrow> single type
      | Remove type \<Rightarrow> single type | SetCustom k c \<Rightarrow> True | RemoveCustom k \<Rightarrow> True)"

lemma single_CUSTOM [simp]: "single ITEM_ATTRIBUTE_CUSTOM"
  unfolding single_def by (rule exI [of _ 31]) (simp add: item_attribute_defs)

lemma to_lower_idem [simp]: "to_lower (to_lower c) = to_lower c"
proof (cases "65 \<le> c \<and> c \<le> 90")
  case True
  then have "97 \<le> uint (c + 32)"
    by (simp add: word_le_def uint_word_ariths)
  then show ?thesis
    using True by (simp add: to_lower_def word_le_def)
qed (simp add: to_lower_def)

lemma lowerCaseBytes_idem [simp]: "lowerCaseBytes (lowerCaseBytes s) = lowerCaseBytes s"
  by (simp add: lowerCaseBytes_def)

lemma getIntAttr_spec: "attrs_ok a \<Longrightarrow> single type \<Longrightarrow> getIntAttr type a = (if isIntAttrType type then spec_int type (attr_map a) else 0)"
  by (simp add: getIntAttr_def getExistingAttr_map spec_int_def)

lemma getStrAttr_spec: "attrs_ok a \<Longrightarrow> single type \<Longrightarrow> getStrAttr type a = (if isStrAttrType type then spec_str type (attr_map a) else [])"
  by (simp add: getStrAttr_def getExistingAttr_map spec_str_def)

lemma hasAttribute_spec: "attrs_ok a \<Longrightarrow> single type \<Longrightarrow> hasAttribute type a \<longleftrightarrow> attr_map a type \<noteq> None"
  by (simp add: hasAttribute_iff map_of_eq_None_iff)

lemma getCustomAttributeMap_spec:
  "attrs_ok a \<Longrightarrow> getCustomAttributeMap a = (if attr_map a ITEM_ATTRIBUTE_CUSTOM = None then None else Some (spec_custom (attr_map a)))"
  by (auto simp: getCustomAttributeMap_def hasAttribute_spec getExistingAttr_map spec_custom_def split: option.splits attr_value.splits)

lemma setIntAttr_map: "setIntAttr type n a = (if isIntAttrType type then setAttr type (IntValue (at_least_100 type n)) a else a)"
  by (simp add: setIntAttr_def at_least_100_def)

lemma run_op_refines:
  assumes "attrs_ok a" "op_type_ok op'"
  shows "attrs_ok (run_op op' a) \<and> attr_map (run_op op' a) = spec_op op' (attr_map a)"
proof (cases op')
  case (SetInt type n)
  then show ?thesis
    using assms by (simp add: run_op_def spec_op_def op_type_ok_def setIntAttr_map attrs_ok_set attr_map_set)
next
  case (IncreaseInt type n)
  then show ?thesis
    using assms
    by (simp add: run_op_def spec_op_def op_type_ok_def increaseIntAttr_def setIntAttr_map attrs_ok_set attr_map_set
        getIntAttr_spec)
next
  case (SetStr type s)
  then show ?thesis
    using assms by (simp add: run_op_def spec_op_def op_type_ok_def setStrAttr_def attrs_ok_set attr_map_set)
next
  case (Remove type)
  then show ?thesis
    using assms by (simp add: run_op_def spec_op_def op_type_ok_def remove_present)
next
  case (RemoveCustom k)
  then show ?thesis
    using assms
    by (auto simp: run_op_def spec_op_def removeCustomAttribute_def getCustomAttributeMap_spec attrs_ok_set attr_map_set
        spec_custom_def)
next
  case (SetCustom k c)
  define w where "w = (if hasAttribute ITEM_ATTRIBUTE_CUSTOM a then snd (removeCustomAttribute (lowerCaseBytes k) a)
            else setAttr ITEM_ATTRIBUTE_CUSTOM (CustomValue Map.empty) a)"
  have w: "attrs_ok w" "attr_map w ITEM_ATTRIBUTE_CUSTOM \<noteq> None"
      "(spec_custom (attr_map w))(lowerCaseBytes k \<mapsto> c) = (spec_custom (attr_map a))(lowerCaseBytes k \<mapsto> c)"
      "(attr_map w)(ITEM_ATTRIBUTE_CUSTOM \<mapsto> x) = (attr_map a)(ITEM_ATTRIBUTE_CUSTOM \<mapsto> x)" for x
    using assms(1)
    by (auto simp: w_def removeCustomAttribute_def getCustomAttributeMap_spec hasAttribute_spec attrs_ok_set attr_map_set
        spec_custom_def split: option.splits)
  have "setCustomAttribute k c a =
      setAttr ITEM_ATTRIBUTE_CUSTOM (CustomValue ((spec_custom (attr_map a))(lowerCaseBytes k \<mapsto> c))) w"
    using w(2) by (simp only: setCustomAttribute_def Let_def w_def [symmetric] getCustomAttributeMap_spec [OF w(1)] if_False
        option.case w(3))
  then show ?thesis
    using SetCustom w(1,4) by (simp add: run_op_def spec_op_def attrs_ok_set attr_map_set)
qed

lemma run_ops_refine:
  assumes "attrs_ok a" "\<forall>op'\<in>set ops. op_type_ok op'"
  shows "attrs_ok (fold run_op ops a) \<and> attr_map (fold run_op ops a) = fold spec_op ops (attr_map a)"
  using assms
proof (induction ops arbitrary: a)
  case (Cons op' ops)
  then show ?case
    using run_op_refines [of a op'] by simp
qed simp

text \<open>C24: Every history of setting, increasing and removing integer, string and custom attributes of an item
  implements the same history on a map from types to values: the bit set tells which types the map
  has, integer and string reads give the map's value or zero or the empty string, and a custom
  attribute is found under its key in any case.\<close>

theorem attributes_refine_map:
  assumes "\<forall>op'\<in>set ops. op_type_ok op'" and "single type"
  shows "(let a = fold run_op ops no_attributes; m = fold spec_op ops Map.empty in
     hasAttribute type a = (m type \<noteq> None) \<and>
     getIntAttr type a = (if isIntAttrType type then spec_int type m else 0) \<and>
     getStrAttr type a = (if isStrAttrType type then spec_str type m else []) \<and>
     getCustomAttribute k a = spec_custom m (lowerCaseBytes k))"
proof -
  have *: "attrs_ok (fold run_op ops no_attributes)" "attr_map (fold run_op ops no_attributes) = fold spec_op ops Map.empty"
    using run_ops_refine [OF attrs_ok_empty assms(1)] by (simp_all add: no_attributes_def)
  have "getCustomAttribute k (fold run_op ops no_attributes) = spec_custom (fold spec_op ops Map.empty) (lowerCaseBytes k)"
    unfolding getCustomAttribute_def getCustomAttributeMap_spec [OF *(1)] *(2) by (simp add: spec_custom_def)
  then show ?thesis
    using * assms(2) by (simp add: Let_def hasAttribute_spec getIntAttr_spec getStrAttr_spec)
qed

lemma attributes_refine_map_witness:
  "let a = fold run_op [SetInt ITEM_ATTRIBUTE_WEIGHT 5, SetStr ITEM_ATTRIBUTE_TEXT [7], SetInt ITEM_ATTRIBUTE_ATTACK_SPEED 3,
       SetInt ITEM_ATTRIBUTE_DATE 9, Remove ITEM_ATTRIBUTE_WEIGHT] no_attributes
   in getIntAttr ITEM_ATTRIBUTE_ATTACK_SPEED a = 100 \<and> hasAttribute ITEM_ATTRIBUTE_ATTACK_SPEED a"
proof -
  have s: "single ITEM_ATTRIBUTE_WEIGHT" "single ITEM_ATTRIBUTE_TEXT" "single ITEM_ATTRIBUTE_ATTACK_SPEED" "single ITEM_ATTRIBUTE_DATE"
    unfolding single_def
    by (rule exI [of _ 9], simp add: item_attribute_defs, rule exI [of _ 3], simp add: item_attribute_defs,
        rule exI [of _ 26], simp add: item_attribute_defs, rule exI [of _ 4], simp add: item_attribute_defs)
  have "\<forall>op'\<in>set [SetInt ITEM_ATTRIBUTE_WEIGHT 5, SetStr ITEM_ATTRIBUTE_TEXT [7], SetInt ITEM_ATTRIBUTE_ATTACK_SPEED 3,
       SetInt ITEM_ATTRIBUTE_DATE 9, Remove ITEM_ATTRIBUTE_WEIGHT]. op_type_ok op'"
    using s by (simp add: op_type_ok_def)
  from attributes_refine_map [OF this s(3)] show ?thesis
    by (simp add: Let_def spec_op_def spec_int_def attr_kind_defs at_least_100_def)
qed

section \<open>Types of the values\<close>

text \<open>Each value has the constructor of its type: the code reads the member of the union that the type
  selects.\<close>

definition value_typed :: "u32 \<Rightarrow> attr_value \<Rightarrow> bool" where
  "value_typed type v =
     (case v of IntValue n \<Rightarrow> isIntAttrType type | StrValue s \<Rightarrow> isStrAttrType type \<and> s \<noteq> [] | CustomValue m \<Rightarrow> isCustomAttrType type)"

lemma spec_op_typed:
  assumes "\<forall>type v. m type = Some v \<longrightarrow> value_typed type v"
  shows "\<forall>type v. spec_op op' m type = Some v \<longrightarrow> value_typed type v"
  using assms by (auto simp: spec_op_def value_typed_def isCustomAttrType_def split: attr_op.splits if_splits)

lemma spec_ops_typed:
  assumes "\<forall>type v. m type = Some v \<longrightarrow> value_typed type v"
  shows "\<forall>type v. fold spec_op ops m type = Some v \<longrightarrow> value_typed type v"
  using assms
proof (induction ops arbitrary: m)
  case (Cons op' ops)
  show ?case
    using Cons.IH [OF spec_op_typed [OF Cons.prems]] by simp
qed simp

text \<open>C25: In the vector of attributes of every history the value stored under a type is the kind of value
  the code reads for it: an integer for the integer types, a string that is not empty for the string
  types, a map for the custom attributes; no type has two values.\<close>

theorem attributes_typed:
  assumes "\<forall>op'\<in>set ops. op_type_ok op'"
  shows "list_all (\<lambda>(type, v). value_typed type v) (attribute_list (fold run_op ops no_attributes)) \<and>
    distinct (map fst (attribute_list (fold run_op ops no_attributes)))"
proof -
  have *: "attrs_ok (fold run_op ops no_attributes)" "attr_map (fold run_op ops no_attributes) = fold spec_op ops Map.empty"
    using run_ops_refine [OF attrs_ok_empty assms] by (simp_all add: no_attributes_def)
  have typed: "attr_map (fold run_op ops no_attributes) type = Some v \<Longrightarrow> value_typed type v" for type v
    using spec_ops_typed [of Map.empty ops] by (simp add: *(2))
  have d: "distinct (map fst (attribute_list (fold run_op ops no_attributes)))"
    using *(1) by (simp add: attrs_ok_def)
  show ?thesis
    using typed d by (auto simp: list_all_iff)
qed

lemma attributes_typed_witness:
  "list_all (\<lambda>(type, v). value_typed type v)
     (attribute_list (fold run_op [SetStr ITEM_ATTRIBUTE_TEXT [7], SetInt ITEM_ATTRIBUTE_TEXT 5] no_attributes))"
proof -
  have "single ITEM_ATTRIBUTE_TEXT"
    unfolding single_def by (rule exI [of _ 3]) (simp add: item_attribute_defs)
  then have "\<forall>op'\<in>set [SetStr ITEM_ATTRIBUTE_TEXT [7], SetInt ITEM_ATTRIBUTE_TEXT 5]. op_type_ok op'"
    by (simp add: op_type_ok_def)
  from attributes_typed [OF this] show ?thesis
    by blast
qed

end
