(* ===== verification/ItemStream.thy ===== *)
theory ItemStream
  imports ItemAttributes "HOL-Library.Sublist"
begin

text \<open>
  How the attributes of an item are stored and loaded: \<open>Item::serializeAttr\<close>, \<open>readAttr\<close> and
  \<open>unserializeAttr\<close> of \<open>src/src/item.cpp\<close>.  What the item type says about an item is a record of the
  fields these functions read; the order in which the hash map of custom attributes is walked, and
  whether a unique id is still free, are parameters.
\<close>

section \<open>Items\<close>

record item_type =
  fluid_or_splash :: bool
  stackable :: bool
  type_charges :: u32
  moveable :: bool
  unique_free :: "u16 \<Rightarrow> bool"

record item =
  item_id :: u16
  item_count :: u8
  item_attrs :: "item_attributes option"

definition getAttributes :: "item \<Rightarrow> item_attributes" where
  "getAttributes i = (case item_attrs i of None \<Rightarrow> no_attributes | Some a \<Rightarrow> a)"

definition item_getIntAttr :: "u32 \<Rightarrow> item \<Rightarrow> u64" where
  "item_getIntAttr type i = (case item_attrs i of None \<Rightarrow> 0 | Some a \<Rightarrow> getIntAttr type a)"

definition item_getStrAttr :: "u32 \<Rightarrow> item \<Rightarrow> bytes" where
  "item_getStrAttr type i = (case item_attrs i of None \<Rightarrow> [] | Some a \<Rightarrow> getStrAttr type a)"

definition item_hasAttribute :: "u32 \<Rightarrow> item \<Rightarrow> bool" where
  "item_hasAttribute type i \<longleftrightarrow> (case item_attrs i of None \<Rightarrow> False | Some a \<Rightarrow> hasAttribute type a)"

definition item_setIntAttr :: "u32 \<Rightarrow> u64 \<Rightarrow> item \<Rightarrow> item" where
  "item_setIntAttr type n i = i\<lparr>item_attrs := Some (setIntAttr type n (getAttributes i))\<rparr>"

definition item_setStrAttr :: "u32 \<Rightarrow> bytes \<Rightarrow> item \<Rightarrow> item" where
  "item_setStrAttr type s i = i\<lparr>item_attrs := Some (setStrAttr type s (getAttributes i))\<rparr>"

definition item_setCustomAttribute :: "bytes \<Rightarrow> custom_attribute \<Rightarrow> item \<Rightarrow> item" where
  "item_setCustomAttribute k c i = i\<lparr>item_attrs := Some (setCustomAttribute k c (getAttributes i))\<rparr>"

definition setActionId :: "u16 \<Rightarrow> item \<Rightarrow> item" where
  "setActionId n i = item_setIntAttr ITEM_ATTRIBUTE_ACTIONID (ucast (if n < 100 then 100 else n)) i"

definition getActionId :: "item \<Rightarrow> u16" where
  "getActionId i = ucast (item_getIntAttr ITEM_ATTRIBUTE_ACTIONID i)"

definition setItemUniqueId :: "item_type \<Rightarrow> u16 \<Rightarrow> item \<Rightarrow> item" where
  "setItemUniqueId it n i =
     (if item_hasAttribute ITEM_ATTRIBUTE_UNIQUEID i then i
      else if unique_free it n then item_setIntAttr ITEM_ATTRIBUTE_UNIQUEID (ucast n) i
      else i)"

definition setCharges :: "u16 \<Rightarrow> item \<Rightarrow> item" where
  "setCharges n i = item_setIntAttr ITEM_ATTRIBUTE_CHARGES (ucast n) i"

definition getCharges :: "item \<Rightarrow> u16" where
  "getCharges i = ucast (item_getIntAttr ITEM_ATTRIBUTE_CHARGES i)"

definition setFluidType :: "u16 \<Rightarrow> item \<Rightarrow> item" where
  "setFluidType n i = item_setIntAttr ITEM_ATTRIBUTE_FLUIDTYPE (ucast n) i"

definition getFluidType :: "item \<Rightarrow> u16" where
  "getFluidType i = ucast (item_getIntAttr ITEM_ATTRIBUTE_FLUIDTYPE i)"

definition setDate :: "u32 \<Rightarrow> item \<Rightarrow> item" where
  "setDate n i = item_setIntAttr ITEM_ATTRIBUTE_DATE (scast n) i"

definition getDate :: "item \<Rightarrow> u64" where
  "getDate i = item_getIntAttr ITEM_ATTRIBUTE_DATE i"

definition setDuration :: "u32 \<Rightarrow> item \<Rightarrow> item" where
  "setDuration time i = item_setIntAttr ITEM_ATTRIBUTE_DURATION (scast time) i"

definition DECAYING_FALSE :: u8 where "DECAYING_FALSE = 0"
definition DECAYING_TRUE :: u8 where "DECAYING_TRUE = 1"
definition DECAYING_PENDING :: u8 where "DECAYING_PENDING = 2"

definition setDecaying :: "u8 \<Rightarrow> item \<Rightarrow> item" where
  "setDecaying decayState i = item_setIntAttr ITEM_ATTRIBUTE_DECAYSTATE (ucast decayState) i"

definition getDecaying :: "item \<Rightarrow> u8" where
  "getDecaying i = (case item_attrs i of None \<Rightarrow> DECAYING_FALSE | Some a \<Rightarrow> ucast (getIntAttr ITEM_ATTRIBUTE_DECAYSTATE a))"

definition setItemCount :: "u8 \<Rightarrow> item \<Rightarrow> item" where
  "setItemCount n i = i\<lparr>item_count := n\<rparr>"

definition getSubType :: "item_type \<Rightarrow> item \<Rightarrow> u16" where
  "getSubType it i =
     (if fluid_or_splash it then getFluidType i
      else if stackable it then ucast (item_count i)
      else if type_charges it \<noteq> 0 then getCharges i
      else ucast (item_count i))"

definition setSubType :: "item_type \<Rightarrow> u16 \<Rightarrow> item \<Rightarrow> item" where
  "setSubType it n i =
     (if fluid_or_splash it then setFluidType n i
      else if stackable it then setItemCount (ucast n) i
      else if type_charges it \<noteq> 0 then setCharges n i
      else setItemCount (ucast n) i)"

section \<open>Tags\<close>

text \<open>\<open>AttrTypes_t\<close>.\<close>

definition ATTR_TILE_FLAGS :: u8 where "ATTR_TILE_FLAGS = 3"
definition ATTR_ACTION_ID :: u8 where "ATTR_ACTION_ID = 4"
definition ATTR_UNIQUE_ID :: u8 where "ATTR_UNIQUE_ID = 5"
definition ATTR_TEXT :: u8 where "ATTR_TEXT = 6"
definition ATTR_DESC :: u8 where "ATTR_DESC = 7"
definition ATTR_TELE_DEST :: u8 where "ATTR_TELE_DEST = 8"
definition ATTR_ITEM :: u8 where "ATTR_ITEM = 9"
definition ATTR_DEPOT_ID :: u8 where "ATTR_DEPOT_ID = 10"
definition ATTR_RUNE_CHARGES :: u8 where "ATTR_RUNE_CHARGES = 12"
definition ATTR_HOUSEDOORID :: u8 where "ATTR_HOUSEDOORID = 14"
definition ATTR_COUNT :: u8 where "ATTR_COUNT = 15"
definition ATTR_DURATION :: u8 where "ATTR_DURATION = 16"
definition ATTR_DECAYING_STATE :: u8 where "ATTR_DECAYING_STATE = 17"
definition ATTR_WRITTENDATE :: u8 where "ATTR_WRITTENDATE = 18"
definition ATTR_WRITTENBY :: u8 where "ATTR_WRITTENBY = 19"
definition ATTR_SLEEPERGUID :: u8 where "ATTR_SLEEPERGUID = 20"
definition ATTR_SLEEPSTART :: u8 where "ATTR_SLEEPSTART = 21"
definition ATTR_CHARGES :: u8 where "ATTR_CHARGES = 22"
definition ATTR_CONTAINER_ITEMS :: u8 where "ATTR_CONTAINER_ITEMS = 23"
definition ATTR_NAME :: u8 where "ATTR_NAME = 24"
definition ATTR_ARTICLE :: u8 where "ATTR_ARTICLE = 25"
definition ATTR_PLURALNAME :: u8 where "ATTR_PLURALNAME = 26"
definition ATTR_WEIGHT :: u8 where "ATTR_WEIGHT = 27"
definition ATTR_ATTACK :: u8 where "ATTR_ATTACK = 28"
definition ATTR_DEFENSE :: u8 where "ATTR_DEFENSE = 29"
definition ATTR_EXTRADEFENSE :: u8 where "ATTR_EXTRADEFENSE = 30"
definition ATTR_ARMOR :: u8 where "ATTR_ARMOR = 31"
definition ATTR_HITCHANCE :: u8 where "ATTR_HITCHANCE = 32"
definition ATTR_SHOOTRANGE :: u8 where "ATTR_SHOOTRANGE = 33"
definition ATTR_CUSTOM_ATTRIBUTES :: u8 where "ATTR_CUSTOM_ATTRIBUTES = 34"
definition ATTR_DECAYTO :: u8 where "ATTR_DECAYTO = 35"
definition ATTR_ATTACK_SPEED :: u8 where "ATTR_ATTACK_SPEED = 38"
definition ATTR_REFLECT :: u8 where "ATTR_REFLECT = 39"
definition ATTR_BOOST :: u8 where "ATTR_BOOST = 40"
definition ATTR_CLASSIFICATION :: u8 where "ATTR_CLASSIFICATION = 41"
definition ATTR_TIER :: u8 where "ATTR_TIER = 42"
definition ATTR_IMBUEMENTSLOTS :: u8 where "ATTR_IMBUEMENTSLOTS = 43"
definition ATTR_AUTOOPEN :: u8 where "ATTR_AUTOOPEN = 44"

lemmas attr_tag_defs =
  ATTR_TILE_FLAGS_def ATTR_ACTION_ID_def ATTR_UNIQUE_ID_def ATTR_TEXT_def ATTR_DESC_def ATTR_TELE_DEST_def
  ATTR_ITEM_def ATTR_DEPOT_ID_def ATTR_RUNE_CHARGES_def ATTR_HOUSEDOORID_def ATTR_COUNT_def ATTR_DURATION_def
  ATTR_DECAYING_STATE_def ATTR_WRITTENDATE_def ATTR_WRITTENBY_def ATTR_SLEEPERGUID_def ATTR_SLEEPSTART_def
  ATTR_CHARGES_def ATTR_CONTAINER_ITEMS_def ATTR_NAME_def ATTR_ARTICLE_def ATTR_PLURALNAME_def ATTR_WEIGHT_def
  ATTR_ATTACK_def ATTR_DEFENSE_def ATTR_EXTRADEFENSE_def ATTR_ARMOR_def ATTR_HITCHANCE_def ATTR_SHOOTRANGE_def
  ATTR_CUSTOM_ATTRIBUTES_def ATTR_DECAYTO_def ATTR_ATTACK_SPEED_def ATTR_REFLECT_def ATTR_BOOST_def
  ATTR_CLASSIFICATION_def ATTR_TIER_def ATTR_IMBUEMENTSLOTS_def ATTR_AUTOOPEN_def

datatype attr_read = ATTR_READ_CONTINUE | ATTR_READ_ERROR | ATTR_READ_END

section \<open>Writing\<close>

definition write8 :: "u8 \<Rightarrow> u32 \<Rightarrow> item \<Rightarrow> bytes" where
  "write8 tag type i = (if item_hasAttribute type i then [tag, ucast (item_getIntAttr type i)] else [])"

definition write32 :: "u8 \<Rightarrow> u32 \<Rightarrow> item \<Rightarrow> bytes" where
  "write32 tag type i = (if item_hasAttribute type i then tag # ps_write 4 (ucast (item_getIntAttr type i) :: u32) else [])"

definition write_str :: "u8 \<Rightarrow> u32 \<Rightarrow> item \<Rightarrow> bytes" where
  "write_str tag type i = (if item_hasAttribute type i then tag # ps_writeString (item_getStrAttr type i) else [])"

definition write_text :: "u8 \<Rightarrow> u32 \<Rightarrow> item \<Rightarrow> bytes" where
  "write_text tag type i = (let s = item_getStrAttr type i in if s \<noteq> [] then tag # ps_writeString s else [])"

definition serialize_custom :: "custom_attribute \<Rightarrow> bytes" where
  "serialize_custom c =
     (case c of
        Blank \<Rightarrow> [0]
      | CString s \<Rightarrow> 1 # ps_writeString s
      | CInt n \<Rightarrow> 2 # ps_write 8 n
      | CDouble n \<Rightarrow> 3 # ps_write 8 n
      | CBool b \<Rightarrow> [4, of_bool b])"

definition write_customs :: "(bytes \<times> custom_attribute) list \<Rightarrow> bytes" where
  "write_customs kcs = ps_write 8 (of_nat (length kcs) :: u64) @ concat (map (\<lambda>(k, c). ps_writeString k @ serialize_custom c) kcs)"

definition write_custom_map :: "((bytes \<rightharpoonup> custom_attribute) \<Rightarrow> (bytes \<times> custom_attribute) list) \<Rightarrow> item \<Rightarrow> bytes" where
  "write_custom_map walk i =
     (if item_hasAttribute ITEM_ATTRIBUTE_CUSTOM i then
        (case getCustomAttributeMap (getAttributes i) of
           None \<Rightarrow> []
         | Some m \<Rightarrow> ATTR_CUSTOM_ATTRIBUTES # write_customs (walk m))
      else [])"

definition write_reflects :: "item_attributes \<Rightarrow> bytes" where
  "write_reflects a =
     (if reflect a = [] then []
      else ATTR_REFLECT # ps_write 2 (of_nat (length (reflect a)) :: u16) @
             concat (map (\<lambda>(t, percent, chance). ps_write 2 t @ ps_write 2 percent @ ps_write 2 chance) (reflect a)))"

definition write_boosts :: "item_attributes \<Rightarrow> bytes" where
  "write_boosts a =
     (if boostPercent a = [] then []
      else ATTR_BOOST # ps_write 2 (of_nat (length (boostPercent a)) :: u16) @
             concat (map (\<lambda>(t, percent). ps_write 2 t @ ps_write 2 percent) (boostPercent a)))"

definition serialize_numbers :: "item \<Rightarrow> bytes" where
  "serialize_numbers i =
     write32 ATTR_WEIGHT ITEM_ATTRIBUTE_WEIGHT i @
     write32 ATTR_ATTACK ITEM_ATTRIBUTE_ATTACK i @
     write32 ATTR_ATTACK_SPEED ITEM_ATTRIBUTE_ATTACK_SPEED i @
     write32 ATTR_CLASSIFICATION ITEM_ATTRIBUTE_CLASSIFICATION i @
     write32 ATTR_TIER ITEM_ATTRIBUTE_TIER i @
     write32 ATTR_IMBUEMENTSLOTS ITEM_ATTRIBUTE_IMBUEMENTSLOTS i @
     write32 ATTR_DEFENSE ITEM_ATTRIBUTE_DEFENSE i @
     write32 ATTR_EXTRADEFENSE ITEM_ATTRIBUTE_EXTRADEFENSE i @
     write32 ATTR_ARMOR ITEM_ATTRIBUTE_ARMOR i @
     write8 ATTR_HITCHANCE ITEM_ATTRIBUTE_HITCHANCE i @
     write8 ATTR_SHOOTRANGE ITEM_ATTRIBUTE_SHOOTRANGE i @
     write32 ATTR_DECAYTO ITEM_ATTRIBUTE_DECAYTO i @
     write8 ATTR_AUTOOPEN ITEM_ATTRIBUTE_AUTOOPEN i"

definition serializeAttr ::
    "item_type \<Rightarrow> ((bytes \<rightharpoonup> custom_attribute) \<Rightarrow> (bytes \<times> custom_attribute) list) \<Rightarrow> item \<Rightarrow> bytes" where
  "serializeAttr it walk i =
     (if stackable it \<or> fluid_or_splash it then [ATTR_COUNT, ucast (getSubType it i)] else []) @
     (if getCharges i \<noteq> 0 then ATTR_CHARGES # ps_write 2 (getCharges i) else []) @
     (if moveable it \<and> getActionId i \<noteq> 0 then ATTR_ACTION_ID # ps_write 2 (getActionId i) else []) @
     write_text ATTR_TEXT ITEM_ATTRIBUTE_TEXT i @
     (if getDate i \<noteq> 0 then ATTR_WRITTENDATE # ps_write 4 (ucast (getDate i) :: u32) else []) @
     write_text ATTR_WRITTENBY ITEM_ATTRIBUTE_WRITER i @
     write_text ATTR_DESC ITEM_ATTRIBUTE_DESCRIPTION i @
     write32 ATTR_DURATION ITEM_ATTRIBUTE_DURATION i @
     (if getDecaying i = DECAYING_TRUE \<or> getDecaying i = DECAYING_PENDING then [ATTR_DECAYING_STATE, getDecaying i] else []) @
     write_str ATTR_NAME ITEM_ATTRIBUTE_NAME i @
     write_str ATTR_ARTICLE ITEM_ATTRIBUTE_ARTICLE i @
     write_str ATTR_PLURALNAME ITEM_ATTRIBUTE_PLURALNAME i @
     serialize_numbers i @
     write_custom_map walk i @
     (case item_attrs i of None \<Rightarrow> [] | Some a \<Rightarrow> write_reflects a @ write_boosts a)"

section \<open>Reading\<close>

definition read_value :: "nat \<Rightarrow> ('w::len word \<Rightarrow> item \<Rightarrow> item) \<Rightarrow> item \<Rightarrow> bytes \<Rightarrow> attr_read \<times> item \<times> bytes" where
  "read_value n f i s =
     (case ps_read n s of (Value v, s) \<Rightarrow> (ATTR_READ_CONTINUE, f v i, s) | (_, s) \<Rightarrow> (ATTR_READ_ERROR, i, s))"

definition read_string :: "u32 \<Rightarrow> item \<Rightarrow> bytes \<Rightarrow> attr_read \<times> item \<times> bytes" where
  "read_string type i s =
     (case ps_readString s of
        (Value v, s) \<Rightarrow> (ATTR_READ_CONTINUE, item_setStrAttr type v i, s) | (_, s) \<Rightarrow> (ATTR_READ_ERROR, i, s))"

definition skip_value :: "nat \<Rightarrow> item \<Rightarrow> bytes \<Rightarrow> attr_read \<times> item \<times> bytes" where
  "skip_value n i s = (case ps_skip n s of (ok, s) \<Rightarrow> (if ok then ATTR_READ_CONTINUE else ATTR_READ_ERROR, i, s))"

definition read_uint32 :: "u32 \<Rightarrow> item \<Rightarrow> bytes \<Rightarrow> attr_read \<times> item \<times> bytes" where
  "read_uint32 type = read_value 4 (\<lambda>v :: u32. item_setIntAttr type (ucast v))"

definition read_int32 :: "u32 \<Rightarrow> item \<Rightarrow> bytes \<Rightarrow> attr_read \<times> item \<times> bytes" where
  "read_int32 type = read_value 4 (\<lambda>v :: u32. item_setIntAttr type (scast v))"

definition read_uint8 :: "u32 \<Rightarrow> item \<Rightarrow> bytes \<Rightarrow> attr_read \<times> item \<times> bytes" where
  "read_uint8 type = read_value 1 (\<lambda>v :: u8. item_setIntAttr type (ucast v))"

definition read_int8 :: "u32 \<Rightarrow> item \<Rightarrow> bytes \<Rightarrow> attr_read \<times> item \<times> bytes" where
  "read_int8 type = read_value 1 (\<lambda>v :: u8. item_setIntAttr type (scast v))"

fun read_reflects :: "nat \<Rightarrow> item \<Rightarrow> bytes \<Rightarrow> attr_read \<times> item \<times> bytes" where
  "read_reflects 0 i s = (ATTR_READ_CONTINUE, i, s)"
| "read_reflects (Suc n) i s =
     (case ps_read 2 s of
        (Value t, s) \<Rightarrow>
          (case ps_read 2 s of
             (Value percent, s) \<Rightarrow>
               (case ps_read 2 s of
                  (Value chance, s) \<Rightarrow>
                    let a = getAttributes i
                    in read_reflects n (i\<lparr>item_attrs := Some (a\<lparr>reflect := map_put t (percent, chance) (reflect a)\<rparr>)\<rparr>) s
                | (_, s) \<Rightarrow> (ATTR_READ_ERROR, i, s))
           | (_, s) \<Rightarrow> (ATTR_READ_ERROR, i, s))
      | (_, s) \<Rightarrow> (ATTR_READ_ERROR, i, s))"

fun read_boosts :: "nat \<Rightarrow> item \<Rightarrow> bytes \<Rightarrow> attr_read \<times> item \<times> bytes" where
  "read_boosts 0 i s = (ATTR_READ_CONTINUE, i, s)"
| "read_boosts (Suc n) i s =
     (case ps_read 2 s of
        (Value t, s) \<Rightarrow>
          (case ps_read 2 s of
             (Value percent, s) \<Rightarrow>
               let a = getAttributes i
               in read_boosts n (i\<lparr>item_attrs := Some (a\<lparr>boostPercent := map_put t percent (boostPercent a)\<rparr>)\<rparr>) s
           | (_, s) \<Rightarrow> (ATTR_READ_ERROR, i, s))
      | (_, s) \<Rightarrow> (ATTR_READ_ERROR, i, s))"

definition unserialize_custom :: "bytes \<Rightarrow> custom_attribute option \<times> bytes" where
  "unserialize_custom s =
     (case ps_read 1 s of
        (Value pos, s) \<Rightarrow>
          if pos = (1 :: u8) then (case ps_readString s of (Value v, s) \<Rightarrow> (Some (CString v), s) | (_, s) \<Rightarrow> (None, s))
          else if pos = 2 then (case ps_read 8 s of (Value v, s) \<Rightarrow> (Some (CInt v), s) | (_, s) \<Rightarrow> (None, s))
          else if pos = 3 then (case ps_read 8 s of (Value v, s) \<Rightarrow> (Some (CDouble v), s) | (_, s) \<Rightarrow> (None, s))
          else if pos = 4 then (case ps_read 1 s of (Value v, s) \<Rightarrow> (Some (CBool ((v :: u8) \<noteq> 0)), s) | (_, s) \<Rightarrow> (None, s))
          else (None, s)
      | (_, s) \<Rightarrow> (None, s))"

fun read_customs :: "nat \<Rightarrow> item \<Rightarrow> bytes \<Rightarrow> attr_read \<times> item \<times> bytes" where
  "read_customs 0 i s = (ATTR_READ_CONTINUE, i, s)"
| "read_customs (Suc n) i s =
     (case ps_readString s of
        (Value k, s) \<Rightarrow>
          (case unserialize_custom s of
             (Some c, s) \<Rightarrow> read_customs n (item_setCustomAttribute k c i) s
           | (None, s) \<Rightarrow> (ATTR_READ_ERROR, i, s))
      | (_, s) \<Rightarrow> (ATTR_READ_ERROR, i, s))"

definition readAttr_rest :: "u8 \<Rightarrow> item \<Rightarrow> bytes \<Rightarrow> attr_read \<times> item \<times> bytes" where
  "readAttr_rest attr i s =
     (if attr = ATTR_REFLECT then
        (case ps_read 2 s of (Value n, s) \<Rightarrow> read_reflects (unat (n :: u16)) i s | (_, s) \<Rightarrow> (ATTR_READ_ERROR, i, s))
      else if attr = ATTR_BOOST then
        (case ps_read 2 s of (Value n, s) \<Rightarrow> read_boosts (unat (n :: u16)) i s | (_, s) \<Rightarrow> (ATTR_READ_ERROR, i, s))
      else if attr = ATTR_AUTOOPEN then read_int8 ITEM_ATTRIBUTE_AUTOOPEN i s
      else if attr = ATTR_DEPOT_ID then skip_value 2 i s
      else if attr = ATTR_HOUSEDOORID then skip_value 1 i s
      else if attr = ATTR_SLEEPERGUID \<or> attr = ATTR_SLEEPSTART then skip_value 4 i s
      else if attr = ATTR_TELE_DEST then skip_value 5 i s
      else if attr = ATTR_CUSTOM_ATTRIBUTES then
        (case ps_read 8 s of (Value n, s) \<Rightarrow> read_customs (unat (n :: u64)) i s | (_, s) \<Rightarrow> (ATTR_READ_ERROR, i, s))
      else (ATTR_READ_ERROR, i, s))"

definition readAttr_numbers :: "u8 \<Rightarrow> item \<Rightarrow> bytes \<Rightarrow> attr_read \<times> item \<times> bytes" where
  "readAttr_numbers attr i s =
     (if attr = ATTR_WEIGHT then read_uint32 ITEM_ATTRIBUTE_WEIGHT i s
      else if attr = ATTR_ATTACK then read_int32 ITEM_ATTRIBUTE_ATTACK i s
      else if attr = ATTR_ATTACK_SPEED then read_uint32 ITEM_ATTRIBUTE_ATTACK_SPEED i s
      else if attr = ATTR_CLASSIFICATION then read_uint32 ITEM_ATTRIBUTE_CLASSIFICATION i s
      else if attr = ATTR_TIER then read_uint32 ITEM_ATTRIBUTE_TIER i s
      else if attr = ATTR_IMBUEMENTSLOTS then read_uint32 ITEM_ATTRIBUTE_IMBUEMENTSLOTS i s
      else if attr = ATTR_DEFENSE then read_int32 ITEM_ATTRIBUTE_DEFENSE i s
      else if attr = ATTR_EXTRADEFENSE then read_int32 ITEM_ATTRIBUTE_EXTRADEFENSE i s
      else if attr = ATTR_ARMOR then read_int32 ITEM_ATTRIBUTE_ARMOR i s
      else if attr = ATTR_HITCHANCE then read_int8 ITEM_ATTRIBUTE_HITCHANCE i s
      else if attr = ATTR_SHOOTRANGE then read_uint8 ITEM_ATTRIBUTE_SHOOTRANGE i s
      else if attr = ATTR_DECAYTO then read_int32 ITEM_ATTRIBUTE_DECAYTO i s
      else readAttr_rest attr i s)"

definition readAttr :: "item_type \<Rightarrow> u8 \<Rightarrow> item \<Rightarrow> bytes \<Rightarrow> attr_read \<times> item \<times> bytes" where
  "readAttr it attr i s =
     (if attr = ATTR_COUNT \<or> attr = ATTR_RUNE_CHARGES then read_value 1 (\<lambda>count :: u8. setSubType it (ucast count)) i s
      else if attr = ATTR_ACTION_ID then read_value 2 setActionId i s
      else if attr = ATTR_UNIQUE_ID then read_value 2 (setItemUniqueId it) i s
      else if attr = ATTR_TEXT then read_string ITEM_ATTRIBUTE_TEXT i s
      else if attr = ATTR_WRITTENDATE then read_value 4 setDate i s
      else if attr = ATTR_WRITTENBY then read_string ITEM_ATTRIBUTE_WRITER i s
      else if attr = ATTR_DESC then read_string ITEM_ATTRIBUTE_DESCRIPTION i s
      else if attr = ATTR_CHARGES then read_value 2 (setSubType it) i s
      else if attr = ATTR_DURATION then read_value 4 (\<lambda>duration. setDuration (if sint duration < 0 then 0 else duration)) i s
      else if attr = ATTR_DECAYING_STATE then
        read_value 1 (\<lambda>state i. if state \<noteq> DECAYING_FALSE then setDecaying DECAYING_PENDING i else i) i s
      else if attr = ATTR_NAME then read_string ITEM_ATTRIBUTE_NAME i s
      else if attr = ATTR_ARTICLE then read_string ITEM_ATTRIBUTE_ARTICLE i s
      else if attr = ATTR_PLURALNAME then read_string ITEM_ATTRIBUTE_PLURALNAME i s
      else readAttr_numbers attr i s)"

lemmas readAttr_defs = readAttr_def readAttr_numbers_def readAttr_rest_def

lemma read_value_length: "read_value n f i s = (r, i', s') \<Longrightarrow> length s' \<le> length s"
  by (auto simp: read_value_def dest: ps_read_length split: prod.splits read_result.splits)

lemma read_string_length: "read_string type i s = (r, i', s') \<Longrightarrow> length s' \<le> length s"
  by (auto simp: read_string_def dest: ps_readString_length split: prod.splits read_result.splits)

lemma skip_value_length: "skip_value n i s = (r, i', s') \<Longrightarrow> length s' \<le> length s"
  by (auto simp: skip_value_def ps_skip_def split: if_splits)

lemma read_reflects_length: "read_reflects n i s = (r, i', s') \<Longrightarrow> length s' \<le> length s"
  by (induction n i s rule: read_reflects.induct)
    (auto simp: Let_def dest!: ps_read_length split: prod.splits read_result.splits, (meson order_trans)+)

lemma read_boosts_length: "read_boosts n i s = (r, i', s') \<Longrightarrow> length s' \<le> length s"
  by (induction n i s rule: read_boosts.induct)
    (auto simp: Let_def dest!: ps_read_length split: prod.splits read_result.splits, (meson order_trans)+)

lemma unserialize_custom_length: "unserialize_custom s = (r, s') \<Longrightarrow> length s' \<le> length s"
  by (auto simp: unserialize_custom_def dest!: ps_read_length ps_readString_length split: prod.splits read_result.splits if_splits)

lemma read_customs_length: "read_customs n i s = (r, i', s') \<Longrightarrow> length s' \<le> length s"
  by (induction n i s rule: read_customs.induct)
    (auto dest!: ps_readString_length unserialize_custom_length split: prod.splits read_result.splits option.splits,
      (meson order_trans)+)

lemma readAttr_length: "readAttr it attr i s = (r, i', s') \<Longrightarrow> length s' \<le> length s"
  unfolding readAttr_defs read_uint32_def read_int32_def read_uint8_def read_int8_def
  by (auto dest: read_value_length read_string_length skip_value_length split: if_splits prod.splits read_result.splits)
    (auto dest!: read_reflects_length read_boosts_length read_customs_length ps_read_length)

function unserializeAttr :: "item_type \<Rightarrow> item \<Rightarrow> bytes \<Rightarrow> bool \<times> item \<times> bytes" where
  "unserializeAttr it i s =
     (case ps_read 1 s of
        (Value attr_type, s) \<Rightarrow>
          if (attr_type :: u8) = 0 then (True, i, s)
          else (case readAttr it attr_type i s of
                  (ATTR_READ_CONTINUE, i, s) \<Rightarrow> unserializeAttr it i s
                | (ATTR_READ_ERROR, i, s) \<Rightarrow> (False, i, s)
                | (ATTR_READ_END, i, s) \<Rightarrow> (True, i, s))
      | (_, s) \<Rightarrow> (True, i, s))"
  by pat_completeness auto
termination
proof (relation "measure (\<lambda>(it, i, s). length s)")
  fix it :: item_type and i i' i'' :: item and s y z b :: bytes and p q r and attr :: u8 and v
  assume "(v, y) = ps_read 1 s" "v = Value attr" "(r, q) = readAttr it attr i y" "(i', b) = q"
  then have "length s = 1 + length y" "length b \<le> length y"
    using ps_read_Value [of 1 s attr y] readAttr_length [of it attr i y r i' b] by auto
  then show "((it, i', b), (it, i, s)) \<in> measure (\<lambda>(it, i, s). length s)"
    by simp
qed simp

declare unserializeAttr.simps [simp del]

section \<open>Reading back what was written\<close>

lemma unserializeAttr_Nil [simp]: "unserializeAttr it i [] = (True, i, [])"
  by (subst unserializeAttr.simps) (simp add: stream_simps)

lemma unserializeAttr_step:
  assumes "readAttr it tag i p = (ATTR_READ_CONTINUE, i', s)" "tag \<noteq> 0"
  shows "unserializeAttr it i (tag # p) = unserializeAttr it i' s"
  using assms by (subst unserializeAttr.simps) (simp add: stream_simps)

text \<open>An item after the entries of a list have been stored in its attributes.\<close>

definition store :: "(u32 \<times> attr_value) list \<Rightarrow> item \<Rightarrow> item" where
  "store es i = (if es = [] then i else i\<lparr>item_attrs := Some (fold (\<lambda>(t, v). setAttr t v) es (getAttributes i))\<rparr>)"

lemma store_Nil [simp]: "store [] i = i"
  by (simp add: store_def)

lemma store_store: "store fs (store es i) = store (es @ fs) i"
  by (simp add: store_def getAttributes_def)

lemma item_setIntAttr_store:
  "isIntAttrType type \<Longrightarrow> item_setIntAttr type n i = store [(type, IntValue (at_least_100 type n))] i"
  by (simp add: item_setIntAttr_def store_def setIntAttr_map)

lemma item_setStrAttr_store:
  "isStrAttrType type \<Longrightarrow> s \<noteq> [] \<Longrightarrow> item_setStrAttr type s i = store [(type, StrValue s)] i"
  by (simp add: item_setStrAttr_def store_def setStrAttr_def)

text \<open>What survives of one attribute.\<close>

definition entry32 :: "bool \<Rightarrow> u32 \<Rightarrow> item \<Rightarrow> (u32 \<times> attr_value) list" where
  "entry32 sgnd type i =
     (if item_hasAttribute type i then
        let n = (ucast (item_getIntAttr type i) :: u32)
        in [(type, IntValue (at_least_100 type (if sgnd then scast n else ucast n)))]
      else [])"

definition entry8 :: "bool \<Rightarrow> u32 \<Rightarrow> item \<Rightarrow> (u32 \<times> attr_value) list" where
  "entry8 sgnd type i =
     (if item_hasAttribute type i then
        let n = (ucast (item_getIntAttr type i) :: u8)
        in [(type, IntValue (at_least_100 type (if sgnd then scast n else ucast n)))]
      else [])"

definition entry_str :: "u32 \<Rightarrow> item \<Rightarrow> (u32 \<times> attr_value) list" where
  "entry_str type i = (let s = item_getStrAttr type i in if s \<noteq> [] then [(type, StrValue s)] else [])"

named_theorems segment_simps \<open>loading what one part of \<open>serializeAttr\<close> wrote\<close>

lemma segment32:
  assumes "\<And>i p. readAttr it tag i p = (if sgnd then read_int32 else read_uint32) type i p" "tag \<noteq> 0" "isIntAttrType type"
  shows "unserializeAttr it i0 (write32 tag type i @ s) = unserializeAttr it (store (entry32 sgnd type i) i0) s"
  using assms
  by (auto simp: write32_def entry32_def Let_def read_int32_def read_uint32_def read_value_def stream_simps item_setIntAttr_store
      intro!: unserializeAttr_step)

lemma segment8:
  assumes "\<And>i p. readAttr it tag i p = (if sgnd then read_int8 else read_uint8) type i p" "tag \<noteq> 0" "isIntAttrType type"
  shows "unserializeAttr it i0 (write8 tag type i @ s) = unserializeAttr it (store (entry8 sgnd type i) i0) s"
  using assms
  by (auto simp: write8_def entry8_def Let_def read_int8_def read_uint8_def read_value_def stream_simps item_setIntAttr_store
      intro!: unserializeAttr_step)

lemma read_string_write:
  assumes "length v \<le> 65535" "isStrAttrType type" "v \<noteq> []"
  shows "read_string type i (ps_writeString v @ s) = (ATTR_READ_CONTINUE, store [(type, StrValue v)] i, s)"
  using assms by (simp add: read_string_def stream_simps item_setStrAttr_store)

lemma segment_text:
  assumes "\<And>i p. readAttr it tag i p = read_string type i p" "tag \<noteq> 0" "isStrAttrType type"
    and "length (item_getStrAttr type i) \<le> 65535"
  shows "unserializeAttr it i0 (write_text tag type i @ s) = unserializeAttr it (store (entry_str type i) i0) s"
  using assms by (auto simp: write_text_def entry_str_def Let_def read_string_write intro!: unserializeAttr_step)

lemma segment_str:
  assumes "\<And>i p. readAttr it tag i p = read_string type i p" "tag \<noteq> 0" "isStrAttrType type"
    and "length (item_getStrAttr type i) \<le> 65535" "item_hasAttribute type i \<longleftrightarrow> item_getStrAttr type i \<noteq> []"
  shows "unserializeAttr it i0 (write_str tag type i @ s) = unserializeAttr it (store (entry_str type i) i0) s"
  using assms by (auto simp: write_str_def entry_str_def Let_def read_string_write intro!: unserializeAttr_step)

lemma segments_int [segment_simps]:
  "unserializeAttr it i0 (write32 ATTR_WEIGHT ITEM_ATTRIBUTE_WEIGHT i @ s) =
   unserializeAttr it (store (entry32 False ITEM_ATTRIBUTE_WEIGHT i) i0) s"
  "unserializeAttr it i0 (write32 ATTR_ATTACK ITEM_ATTRIBUTE_ATTACK i @ s) =
   unserializeAttr it (store (entry32 True ITEM_ATTRIBUTE_ATTACK i) i0) s"
  "unserializeAttr it i0 (write32 ATTR_ATTACK_SPEED ITEM_ATTRIBUTE_ATTACK_SPEED i @ s) =
   unserializeAttr it (store (entry32 False ITEM_ATTRIBUTE_ATTACK_SPEED i) i0) s"
  "unserializeAttr it i0 (write32 ATTR_CLASSIFICATION ITEM_ATTRIBUTE_CLASSIFICATION i @ s) =
   unserializeAttr it (store (entry32 False ITEM_ATTRIBUTE_CLASSIFICATION i) i0) s"
  "unserializeAttr it i0 (write32 ATTR_TIER ITEM_ATTRIBUTE_TIER i @ s) =
   unserializeAttr it (store (entry32 False ITEM_ATTRIBUTE_TIER i) i0) s"
  "unserializeAttr it i0 (write32 ATTR_IMBUEMENTSLOTS ITEM_ATTRIBUTE_IMBUEMENTSLOTS i @ s) =
   unserializeAttr it (store (entry32 False ITEM_ATTRIBUTE_IMBUEMENTSLOTS i) i0) s"
  "unserializeAttr it i0 (write32 ATTR_DEFENSE ITEM_ATTRIBUTE_DEFENSE i @ s) =
   unserializeAttr it (store (entry32 True ITEM_ATTRIBUTE_DEFENSE i) i0) s"
  "unserializeAttr it i0 (write32 ATTR_EXTRADEFENSE ITEM_ATTRIBUTE_EXTRADEFENSE i @ s) =
   unserializeAttr it (store (entry32 True ITEM_ATTRIBUTE_EXTRADEFENSE i) i0) s"
  "unserializeAttr it i0 (write32 ATTR_ARMOR ITEM_ATTRIBUTE_ARMOR i @ s) =
   unserializeAttr it (store (entry32 True ITEM_ATTRIBUTE_ARMOR i) i0) s"
  "unserializeAttr it i0 (write8 ATTR_HITCHANCE ITEM_ATTRIBUTE_HITCHANCE i @ s) =
   unserializeAttr it (store (entry8 True ITEM_ATTRIBUTE_HITCHANCE i) i0) s"
  "unserializeAttr it i0 (write8 ATTR_SHOOTRANGE ITEM_ATTRIBUTE_SHOOTRANGE i @ s) =
   unserializeAttr it (store (entry8 False ITEM_ATTRIBUTE_SHOOTRANGE i) i0) s"
  "unserializeAttr it i0 (write32 ATTR_DECAYTO ITEM_ATTRIBUTE_DECAYTO i @ s) =
   unserializeAttr it (store (entry32 True ITEM_ATTRIBUTE_DECAYTO i) i0) s"
  "unserializeAttr it i0 (write8 ATTR_AUTOOPEN ITEM_ATTRIBUTE_AUTOOPEN i @ s) =
   unserializeAttr it (store (entry8 True ITEM_ATTRIBUTE_AUTOOPEN i) i0) s"
  by ((rule segment32 segment8; simp add: readAttr_defs attr_tag_defs attr_kind_defs))+

lemma segments_str [segment_simps]:
  "length (item_getStrAttr ITEM_ATTRIBUTE_TEXT i) \<le> 65535 \<Longrightarrow>
   unserializeAttr it i0 (write_text ATTR_TEXT ITEM_ATTRIBUTE_TEXT i @ s) =
   unserializeAttr it (store (entry_str ITEM_ATTRIBUTE_TEXT i) i0) s"
  "length (item_getStrAttr ITEM_ATTRIBUTE_WRITER i) \<le> 65535 \<Longrightarrow>
   unserializeAttr it i0 (write_text ATTR_WRITTENBY ITEM_ATTRIBUTE_WRITER i @ s) =
   unserializeAttr it (store (entry_str ITEM_ATTRIBUTE_WRITER i) i0) s"
  "length (item_getStrAttr ITEM_ATTRIBUTE_DESCRIPTION i) \<le> 65535 \<Longrightarrow>
   unserializeAttr it i0 (write_text ATTR_DESC ITEM_ATTRIBUTE_DESCRIPTION i @ s) =
   unserializeAttr it (store (entry_str ITEM_ATTRIBUTE_DESCRIPTION i) i0) s"
  by (rule segment_text; simp add: readAttr_defs attr_tag_defs attr_kind_defs)+

definition str_ok :: "u32 \<Rightarrow> item \<Rightarrow> bool" where
  "str_ok type i \<longleftrightarrow> length (item_getStrAttr type i) \<le> 65535 \<and> (item_hasAttribute type i \<longleftrightarrow> item_getStrAttr type i \<noteq> [])"

lemma segments_name [segment_simps]:
  "str_ok ITEM_ATTRIBUTE_NAME i \<Longrightarrow>
   unserializeAttr it i0 (write_str ATTR_NAME ITEM_ATTRIBUTE_NAME i @ s) =
   unserializeAttr it (store (entry_str ITEM_ATTRIBUTE_NAME i) i0) s"
  "str_ok ITEM_ATTRIBUTE_ARTICLE i \<Longrightarrow>
   unserializeAttr it i0 (write_str ATTR_ARTICLE ITEM_ATTRIBUTE_ARTICLE i @ s) =
   unserializeAttr it (store (entry_str ITEM_ATTRIBUTE_ARTICLE i) i0) s"
  "str_ok ITEM_ATTRIBUTE_PLURALNAME i \<Longrightarrow>
   unserializeAttr it i0 (write_str ATTR_PLURALNAME ITEM_ATTRIBUTE_PLURALNAME i @ s) =
   unserializeAttr it (store (entry_str ITEM_ATTRIBUTE_PLURALNAME i) i0) s"
  unfolding str_ok_def by (rule segment_str; simp add: readAttr_defs attr_tag_defs attr_kind_defs)+

definition entry_actionid :: "item_type \<Rightarrow> item \<Rightarrow> (u32 \<times> attr_value) list" where
  "entry_actionid it i =
     (if moveable it \<and> getActionId i \<noteq> 0
      then [(ITEM_ATTRIBUTE_ACTIONID, IntValue (ucast (if getActionId i < 100 then 100 else getActionId i)))] else [])"

definition entry_date :: "item \<Rightarrow> (u32 \<times> attr_value) list" where
  "entry_date i = (if getDate i \<noteq> 0 then [(ITEM_ATTRIBUTE_DATE, IntValue (scast (ucast (getDate i) :: u32)))] else [])"

definition entry_duration :: "item \<Rightarrow> (u32 \<times> attr_value) list" where
  "entry_duration i =
     (if item_hasAttribute ITEM_ATTRIBUTE_DURATION i then
        let n = (ucast (item_getIntAttr ITEM_ATTRIBUTE_DURATION i) :: u32)
        in [(ITEM_ATTRIBUTE_DURATION, IntValue (scast (if sint n < 0 then 0 else n)))]
      else [])"

definition entry_decay :: "item \<Rightarrow> (u32 \<times> attr_value) list" where
  "entry_decay i =
     (if getDecaying i = DECAYING_TRUE \<or> getDecaying i = DECAYING_PENDING
      then [(ITEM_ATTRIBUTE_DECAYSTATE, IntValue (ucast DECAYING_PENDING))] else [])"

lemma kinds_int: "isIntAttrType ITEM_ATTRIBUTE_ACTIONID" "isIntAttrType ITEM_ATTRIBUTE_DATE"
    "isIntAttrType ITEM_ATTRIBUTE_DURATION" "isIntAttrType ITEM_ATTRIBUTE_DECAYSTATE"
  by (simp_all add: attr_kind_defs)

lemma not_speed [simp]:
  "at_least_100 ITEM_ATTRIBUTE_ACTIONID n = n" "at_least_100 ITEM_ATTRIBUTE_DATE n = n"
  "at_least_100 ITEM_ATTRIBUTE_DURATION n = n" "at_least_100 ITEM_ATTRIBUTE_DECAYSTATE n = n"
  by (simp_all add: at_least_100_def item_attribute_defs)

lemma segments_single [segment_simps]:
  "unserializeAttr it i0 ((if moveable it \<and> getActionId i \<noteq> 0 then ATTR_ACTION_ID # ps_write 2 (getActionId i) else []) @ s) =
   unserializeAttr it (store (entry_actionid it i) i0) s"
  "unserializeAttr it i0 ((if getDate i \<noteq> 0 then ATTR_WRITTENDATE # ps_write 4 (ucast (getDate i) :: u32) else []) @ s) =
   unserializeAttr it (store (entry_date i) i0) s"
  "unserializeAttr it i0 (write32 ATTR_DURATION ITEM_ATTRIBUTE_DURATION i @ s) =
   unserializeAttr it (store (entry_duration i) i0) s"
  "unserializeAttr it i0 ((if getDecaying i = DECAYING_TRUE \<or> getDecaying i = DECAYING_PENDING
      then [ATTR_DECAYING_STATE, getDecaying i] else []) @ s) =
   unserializeAttr it (store (entry_decay i) i0) s"
  by (auto simp: entry_actionid_def entry_date_def entry_duration_def entry_decay_def write32_def Let_def readAttr_defs
      read_value_def setActionId_def setDate_def setDuration_def setDecaying_def attr_tag_defs stream_simps item_setIntAttr_store
      kinds_int DECAYING_FALSE_def DECAYING_TRUE_def DECAYING_PENDING_def intro!: unserializeAttr_step)

text \<open>The sub-type and the charges, which loading gives to \<open>setSubType\<close>.\<close>

definition load_subtype :: "item_type \<Rightarrow> item \<Rightarrow> item \<Rightarrow> item" where
  "load_subtype it i i0 =
     (let i1 = (if stackable it \<or> fluid_or_splash it then setSubType it (ucast (ucast (getSubType it i) :: u8)) i0 else i0)
      in if getCharges i \<noteq> 0 then setSubType it (getCharges i) i1 else i1)"

lemma segment_subtype [segment_simps]:
  "unserializeAttr it i0
     ((if stackable it \<or> fluid_or_splash it then [ATTR_COUNT, ucast (getSubType it i)] else []) @
      (if getCharges i \<noteq> 0 then ATTR_CHARGES # ps_write 2 (getCharges i) else []) @ s) =
   unserializeAttr it (load_subtype it i i0) s"
proof -
  have count: "unserializeAttr it j (ATTR_COUNT # c # p) = unserializeAttr it (setSubType it (ucast c) j) p" for j c p
    by (rule unserializeAttr_step) (simp_all add: readAttr_defs read_value_def stream_simps attr_tag_defs)
  have charges: "unserializeAttr it j (ATTR_CHARGES # ps_write 2 n @ p) = unserializeAttr it (setSubType it n j) p" for j n p
    by (rule unserializeAttr_step) (simp_all add: readAttr_defs read_value_def stream_simps attr_tag_defs)
  show ?thesis
    by (simp add: load_subtype_def Let_def count charges)
qed

subsection \<open>Reflections and boosts\<close>

lemma map_put_last: "\<forall>k'\<in>fst ` set xs. k' < k \<Longrightarrow> map_put k v xs = xs @ [(k, v)]"
  by (induction xs) auto

lemma fold_map_put:
  assumes "sorted_wrt (<) (map fst (xs @ ys))"
  shows "fold (\<lambda>(k, v). map_put k v) ys xs = xs @ ys"
  using assms
proof (induction ys arbitrary: xs)
  case (Cons y ys)
  then have "map_put (fst y) (snd y) xs = xs @ [y]"
    by (auto intro!: map_put_last [THEN trans] simp: sorted_wrt_append)
  then show ?case
    using Cons.IH [of "xs @ [y]"] Cons.prems by (simp add: case_prod_beta)
qed simp

lemma read_reflects_write:
  "n = length rs \<Longrightarrow>
   read_reflects n i (concat (map (\<lambda>(t, percent, chance). ps_write 2 t @ ps_write 2 percent @ ps_write 2 chance) rs) @ s) =
   (ATTR_READ_CONTINUE,
    if rs = [] then i
    else i\<lparr>item_attrs := Some (getAttributes i\<lparr>reflect := fold (\<lambda>(k, v). map_put k v) rs (reflect (getAttributes i))\<rparr>)\<rparr>, s)"
  by (induction rs arbitrary: i n) (auto simp: stream_simps Let_def getAttributes_def)

lemma read_boosts_write:
  "n = length bs \<Longrightarrow>
   read_boosts n i (concat (map (\<lambda>(t, percent). ps_write 2 t @ ps_write 2 percent) bs) @ s) =
   (ATTR_READ_CONTINUE,
    if bs = [] then i
    else i\<lparr>item_attrs := Some (getAttributes i\<lparr>boostPercent := fold (\<lambda>(k, v). map_put k v) bs (boostPercent (getAttributes i))\<rparr>)\<rparr>, s)"
  by (induction bs arbitrary: i n) (auto simp: stream_simps Let_def getAttributes_def)

definition put_reflects :: "item_attributes \<Rightarrow> item \<Rightarrow> item" where
  "put_reflects a i = (if reflect a = [] then i else i\<lparr>item_attrs := Some (getAttributes i\<lparr>reflect := reflect a\<rparr>)\<rparr>)"

definition put_boosts :: "item_attributes \<Rightarrow> item \<Rightarrow> item" where
  "put_boosts a i = (if boostPercent a = [] then i else i\<lparr>item_attrs := Some (getAttributes i\<lparr>boostPercent := boostPercent a\<rparr>)\<rparr>)"

definition reflects_ok :: "item_attributes \<Rightarrow> bool" where
  "reflects_ok a \<longleftrightarrow> sorted_wrt (<) (map fst (reflect a)) \<and> length (reflect a) < 65536 \<and>
     sorted_wrt (<) (map fst (boostPercent a)) \<and> length (boostPercent a) < 65536"

lemma unat_of_nat_u16: "n < 65536 \<Longrightarrow> unat (of_nat n :: u16) = n"
  by (simp add: unsigned_of_nat take_bit_nat_eq_self)

lemma segments_reflect:
  assumes "reflects_ok a"
  shows "reflect (getAttributes i0) = [] \<Longrightarrow> unserializeAttr it i0 (write_reflects a @ s) = unserializeAttr it (put_reflects a i0) s"
    and "boostPercent (getAttributes i0) = [] \<Longrightarrow> unserializeAttr it i0 (write_boosts a @ s) = unserializeAttr it (put_boosts a i0) s"
  using assms fold_map_put [of "[]" "reflect a"] fold_map_put [of "[]" "boostPercent a"]
  by (auto simp: write_reflects_def write_boosts_def put_reflects_def put_boosts_def readAttr_defs stream_simps attr_tag_defs
      unat_of_nat_u16 reflects_ok_def read_reflects_write read_boosts_write intro!: unserializeAttr_step)

subsection \<open>Custom attributes\<close>

definition custom_ok :: "bytes \<times> custom_attribute \<Rightarrow> bool" where
  "custom_ok kc \<longleftrightarrow> length (fst kc) \<le> 65535 \<and> lowerCaseBytes (fst kc) = fst kc \<and>
     (case snd kc of Blank \<Rightarrow> False | CString s \<Rightarrow> length s \<le> 65535 | _ \<Rightarrow> True)"

lemma unserialize_serialize_custom:
  assumes "custom_ok (k, c)"
  shows "unserialize_custom (serialize_custom c @ s) = (Some c, s)"
proof -
  have r8: "ps_read 8 (ps_write 8 n @ s) = (Value n, s)" for n :: u64 and s
    by (rule ps_read_write) simp
  show ?thesis
    using assms
    by (cases c) (auto simp: custom_ok_def unserialize_custom_def serialize_custom_def stream_simps r8)
qed

lemma read_customs_write:
  assumes "\<forall>kc\<in>set kcs. custom_ok kc"
  shows "read_customs (length kcs) i (concat (map (\<lambda>(k, c). ps_writeString k @ serialize_custom c) kcs) @ s) =
    (ATTR_READ_CONTINUE, fold (\<lambda>(k, c). item_setCustomAttribute k c) kcs i, s)"
  using assms
proof (induction kcs arbitrary: i)
  case (Cons kc kcs)
  obtain k c where kc: "kc = (k, c)"
    by (cases kc)
  have "length k \<le> 65535" "custom_ok (k, c)"
    using Cons.prems by (auto simp: kc custom_ok_def)
  then show ?case
    using Cons by (simp add: kc stream_simps unserialize_serialize_custom [of k])
qed simp

definition put_customs :: "(bytes \<times> custom_attribute) list \<Rightarrow> item \<Rightarrow> item" where
  "put_customs kcs i = fold (\<lambda>(k, c). item_setCustomAttribute k c) kcs i"

lemma put_customs_run:
  "put_customs kcs i =
   (if kcs = [] then i else i\<lparr>item_attrs := Some (fold run_op (map (\<lambda>(k, c). SetCustom k c) kcs) (getAttributes i))\<rparr>)"
  unfolding put_customs_def
  by (induction kcs arbitrary: i) (auto simp: item_setCustomAttribute_def run_op_def getAttributes_def)

lemma spec_set_customs:
  assumes "\<forall>kc\<in>set kcs. custom_ok kc" "distinct (map fst kcs)" "kcs \<noteq> []"
  shows "fold spec_op (map (\<lambda>(k, c). SetCustom k c) kcs) m = m(ITEM_ATTRIBUTE_CUSTOM \<mapsto> CustomValue (spec_custom m ++ map_of kcs))"
  using assms
proof (induction kcs arbitrary: m)
  case (Cons kc kcs)
  obtain k c where kc: "kc = (k, c)"
    by (cases kc)
  have k: "lowerCaseBytes k = k" "map_of kcs k = None"
    using Cons.prems by (auto simp: kc custom_ok_def map_of_eq_None_iff)
  let ?m = "m(ITEM_ATTRIBUTE_CUSTOM \<mapsto> CustomValue ((spec_custom m)(k \<mapsto> c)))"
  have one: "spec_op (SetCustom k c) m = ?m" "spec_custom ?m = (spec_custom m)(k \<mapsto> c)"
    by (simp_all add: spec_op_def k spec_custom_def)
  have add: "(spec_custom m)(k \<mapsto> c) ++ map_of kcs = spec_custom m ++ (map_of kcs)(k \<mapsto> c)"
    using k(2) by (auto simp: map_add_def fun_eq_iff split: option.splits)
  show ?case
  proof (cases "kcs = []")
    case False
    then have "fold spec_op (map (\<lambda>(k, c). SetCustom k c) kcs) ?m = ?m(ITEM_ATTRIBUTE_CUSTOM \<mapsto> CustomValue (spec_custom ?m ++ map_of kcs))"
      using Cons by auto
    then show ?thesis
      by (simp only: kc one add list.map prod.case fold_simps map_of.simps fst_conv snd_conv fun_upd_upd)
  qed (simp only: kc one list.map prod.case fold_simps map_of.simps fst_conv snd_conv map_add_upd map_add_empty)
qed simp

lemma segment_customs:
  assumes "\<forall>kc\<in>set kcs. custom_ok kc" "length kcs < 2 ^ 64"
  shows "unserializeAttr it i0 (ATTR_CUSTOM_ATTRIBUTES # write_customs kcs @ s) = unserializeAttr it (put_customs kcs i0) s"
proof -
  have n: "unat (of_nat (length kcs) :: u64) = length kcs"
    using assms(2) by (simp add: unsigned_of_nat take_bit_nat_eq_self)
  have r8: "ps_read 8 (ps_write 8 m @ s) = (Value m, s)" for m :: u64 and s
    by (rule ps_read_write) simp
  show ?thesis
    using read_customs_write [OF assms(1), of i0 s]
    by (intro unserializeAttr_step) (simp_all add: readAttr_defs attr_tag_defs write_customs_def r8 n put_customs_def)
qed

section \<open>The round trip\<close>

text \<open>What is needed of an item: the shape that every history of its attributes has, strings and custom
  attributes that fit their length fields, no more than $2^{64}$ custom attributes.  The walk through
  the hash map visits each of its entries once.\<close>

definition item_ok :: "((bytes \<rightharpoonup> custom_attribute) \<Rightarrow> (bytes \<times> custom_attribute) list) \<Rightarrow> item \<Rightarrow> bool" where
  "item_ok walk i \<longleftrightarrow>
     attrs_ok (getAttributes i) \<and> reflects_ok (getAttributes i) \<and>
     (\<forall>type\<in>{ITEM_ATTRIBUTE_TEXT, ITEM_ATTRIBUTE_WRITER, ITEM_ATTRIBUTE_DESCRIPTION}. length (item_getStrAttr type i) \<le> 65535) \<and>
     (\<forall>type\<in>{ITEM_ATTRIBUTE_NAME, ITEM_ATTRIBUTE_ARTICLE, ITEM_ATTRIBUTE_PLURALNAME}. str_ok type i) \<and>
     (let m = spec_custom (attr_map (getAttributes i)); kcs = walk m in
        map_of kcs = m \<and> distinct (map fst kcs) \<and> (\<forall>kc\<in>set kcs. custom_ok kc) \<and> length kcs < 2 ^ 64)"

text \<open>The attributes that are stored with an item, as they come back; the unique id, the owners, the fluid
  type, the door id and the charges are not among them.\<close>

definition kept :: "item_type \<Rightarrow> item \<Rightarrow> (u32 \<times> attr_value) list" where
  "kept it i =
     entry_actionid it i @ entry_str ITEM_ATTRIBUTE_TEXT i @ entry_date i @ entry_str ITEM_ATTRIBUTE_WRITER i @
     entry_str ITEM_ATTRIBUTE_DESCRIPTION i @ entry_duration i @ entry_decay i @ entry_str ITEM_ATTRIBUTE_NAME i @
     entry_str ITEM_ATTRIBUTE_ARTICLE i @ entry_str ITEM_ATTRIBUTE_PLURALNAME i @ entry32 False ITEM_ATTRIBUTE_WEIGHT i @
     entry32 True ITEM_ATTRIBUTE_ATTACK i @ entry32 False ITEM_ATTRIBUTE_ATTACK_SPEED i @
     entry32 False ITEM_ATTRIBUTE_CLASSIFICATION i @ entry32 False ITEM_ATTRIBUTE_TIER i @
     entry32 False ITEM_ATTRIBUTE_IMBUEMENTSLOTS i @ entry32 True ITEM_ATTRIBUTE_DEFENSE i @
     entry32 True ITEM_ATTRIBUTE_EXTRADEFENSE i @ entry32 True ITEM_ATTRIBUTE_ARMOR i @ entry8 True ITEM_ATTRIBUTE_HITCHANCE i @
     entry8 False ITEM_ATTRIBUTE_SHOOTRANGE i @ entry32 True ITEM_ATTRIBUTE_DECAYTO i @ entry8 True ITEM_ATTRIBUTE_AUTOOPEN i"

definition kept_customs :: "item \<Rightarrow> (u32 \<times> attr_value) list" where
  "kept_customs i =
     (let m = spec_custom (attr_map (getAttributes i))
      in if m = Map.empty then [] else [(ITEM_ATTRIBUTE_CUSTOM, CustomValue m)])"

lemma segment_custom_map:
  assumes "item_ok walk i"
  shows "unserializeAttr it i0 (write_custom_map walk i @ s) =
    unserializeAttr it (put_customs (walk (spec_custom (attr_map (getAttributes i)))) i0) s"
proof (cases "item_attrs i = None \<or> attr_map (getAttributes i) ITEM_ATTRIBUTE_CUSTOM = None")
  case True
  then have no: "attr_map (getAttributes i) ITEM_ATTRIBUTE_CUSTOM = None"
    by (auto simp: getAttributes_def no_attributes_def)
  then have "spec_custom (attr_map (getAttributes i)) = Map.empty"
    by (simp add: spec_custom_def)
  moreover from this assms have "walk Map.empty = []"
    by (simp add: item_ok_def Let_def)
  moreover have "\<not> item_hasAttribute ITEM_ATTRIBUTE_CUSTOM i"
    using no assms hasAttribute_spec [of "getAttributes i" ITEM_ATTRIBUTE_CUSTOM]
    by (auto simp: item_hasAttribute_def getAttributes_def item_ok_def split: option.splits)
  ultimately show ?thesis
    by (simp add: write_custom_map_def put_customs_def)
next
  case False
  then have "item_hasAttribute ITEM_ATTRIBUTE_CUSTOM i"
    using assms hasAttribute_spec [of "getAttributes i" ITEM_ATTRIBUTE_CUSTOM]
    by (auto simp: item_hasAttribute_def getAttributes_def item_ok_def)
  moreover have "getCustomAttributeMap (getAttributes i) = Some (spec_custom (attr_map (getAttributes i)))"
    using False assms by (simp add: getCustomAttributeMap_spec item_ok_def)
  ultimately show ?thesis
    using assms by (simp add: write_custom_map_def segment_customs item_ok_def Let_def)
qed

lemma load_plain:
  assumes "item_ok walk i"
  shows "unserializeAttr it i0 (serializeAttr it walk i) =
    unserializeAttr it (store (kept it i) (load_subtype it i i0))
      (write_custom_map walk i @ write_reflects (getAttributes i) @ write_boosts (getAttributes i) @ [])"
proof -
  have last: "(case item_attrs i of None \<Rightarrow> [] | Some a \<Rightarrow> write_reflects a @ write_boosts a) =
      write_reflects (getAttributes i) @ write_boosts (getAttributes i) @ []"
    by (simp add: getAttributes_def no_attributes_def write_reflects_def write_boosts_def split: option.split)
  have strings: "length (item_getStrAttr ITEM_ATTRIBUTE_TEXT i) \<le> 65535" "length (item_getStrAttr ITEM_ATTRIBUTE_WRITER i) \<le> 65535"
      "length (item_getStrAttr ITEM_ATTRIBUTE_DESCRIPTION i) \<le> 65535" "str_ok ITEM_ATTRIBUTE_NAME i" "str_ok ITEM_ATTRIBUTE_ARTICLE i"
      "str_ok ITEM_ATTRIBUTE_PLURALNAME i"
    using assms by (simp_all add: item_ok_def)
  show ?thesis
    unfolding serializeAttr_def serialize_numbers_def last by (simp only: segment_simps strings store_store append_assoc kept_def)
qed

text \<open>What loading leaves alone.\<close>

lemma rest_setAttr [simp]: "reflect (setAttr t v a) = reflect a" "boostPercent (setAttr t v a) = boostPercent a"
  by (simp_all add: setAttr_def)

lemma rest_fold [simp]:
  "reflect (fold (\<lambda>(t, v). setAttr t v) es a) = reflect a" "boostPercent (fold (\<lambda>(t, v). setAttr t v) es a) = boostPercent a"
  by (induction es arbitrary: a) auto

lemma rest_store [simp]:
  "reflect (getAttributes (store es i)) = reflect (getAttributes i)"
  "boostPercent (getAttributes (store es i)) = boostPercent (getAttributes i)"
  "item_id (store es i) = item_id i" "item_count (store es i) = item_count i"
  by (auto simp: store_def getAttributes_def)

lemma rest_setSubType [simp]:
  "reflect (getAttributes (setSubType it n i)) = reflect (getAttributes i)"
  "boostPercent (getAttributes (setSubType it n i)) = boostPercent (getAttributes i)"
  "item_id (setSubType it n i) = item_id i"
  by (auto simp: setSubType_def setFluidType_def setItemCount_def setCharges_def item_setIntAttr_def setIntAttr_def getAttributes_def
      split: option.split)

lemma rest_load_subtype [simp]:
  "reflect (getAttributes (load_subtype it i i0)) = reflect (getAttributes i0)"
  "boostPercent (getAttributes (load_subtype it i i0)) = boostPercent (getAttributes i0)"
  "item_id (load_subtype it i i0) = item_id i0"
  by (simp_all add: load_subtype_def Let_def)

lemma rest_run_custom [simp]:
  "reflect (setCustomAttribute k c a) = reflect a" "boostPercent (setCustomAttribute k c a) = boostPercent a"
  by (auto simp: setCustomAttribute_def removeCustomAttribute_def Let_def split: option.splits)

lemma rest_put_customs [simp]:
  "reflect (getAttributes (put_customs kcs i)) = reflect (getAttributes i)"
  "boostPercent (getAttributes (put_customs kcs i)) = boostPercent (getAttributes i)"
  "item_id (put_customs kcs i) = item_id i" "item_count (put_customs kcs i) = item_count i"
  unfolding put_customs_def
  by (induction kcs arbitrary: i) (auto simp: item_setCustomAttribute_def getAttributes_def)

lemma rest_put_reflects [simp]:
  "attribute_list (getAttributes (put_reflects a i)) = attribute_list (getAttributes i)"
  "boostPercent (getAttributes (put_reflects a i)) = boostPercent (getAttributes i)"
  "item_id (put_reflects a i) = item_id i" "item_count (put_reflects a i) = item_count i"
  "reflect (getAttributes i) = [] \<Longrightarrow> reflect (getAttributes (put_reflects a i)) = reflect a"
  "attribute_list (getAttributes (put_boosts a i)) = attribute_list (getAttributes i)"
  "reflect (getAttributes (put_boosts a i)) = reflect (getAttributes i)"
  "item_id (put_boosts a i) = item_id i" "item_count (put_boosts a i) = item_count i"
  "boostPercent (getAttributes i) = [] \<Longrightarrow> boostPercent (getAttributes (put_boosts a i)) = boostPercent a"
  by (auto simp: put_reflects_def put_boosts_def getAttributes_def)

lemma attrs_ok_load_subtype:
  assumes "attrs_ok (getAttributes i0)"
  shows "attrs_ok (getAttributes (load_subtype it i i0))"
proof -
  have s: "single ITEM_ATTRIBUTE_FLUIDTYPE" "single ITEM_ATTRIBUTE_CHARGES"
    unfolding single_def by (rule exI [of _ 21], simp add: item_attribute_defs, rule exI [of _ 20], simp add: item_attribute_defs)
  have "attrs_ok (getAttributes (setSubType it n j))" if "attrs_ok (getAttributes j)" for n j
    using that s
    by (auto simp: setSubType_def setFluidType_def setItemCount_def setCharges_def item_setIntAttr_def setIntAttr_def getAttributes_def
        attrs_ok_set split: option.splits)
  then show ?thesis
    using assms by (simp add: load_subtype_def Let_def)
qed

text \<open>The types that are kept, each at most once.\<close>

definition kept_types :: "u32 list" where
  "kept_types =
     [ITEM_ATTRIBUTE_ACTIONID] @ [ITEM_ATTRIBUTE_TEXT] @ [ITEM_ATTRIBUTE_DATE] @ [ITEM_ATTRIBUTE_WRITER] @
     [ITEM_ATTRIBUTE_DESCRIPTION] @ [ITEM_ATTRIBUTE_DURATION] @ [ITEM_ATTRIBUTE_DECAYSTATE] @
     [ITEM_ATTRIBUTE_NAME] @ [ITEM_ATTRIBUTE_ARTICLE] @ [ITEM_ATTRIBUTE_PLURALNAME] @
     [ITEM_ATTRIBUTE_WEIGHT] @ [ITEM_ATTRIBUTE_ATTACK] @ [ITEM_ATTRIBUTE_ATTACK_SPEED] @
     [ITEM_ATTRIBUTE_CLASSIFICATION] @ [ITEM_ATTRIBUTE_TIER] @ [ITEM_ATTRIBUTE_IMBUEMENTSLOTS] @
     [ITEM_ATTRIBUTE_DEFENSE] @ [ITEM_ATTRIBUTE_EXTRADEFENSE] @ [ITEM_ATTRIBUTE_ARMOR] @
     [ITEM_ATTRIBUTE_HITCHANCE] @ [ITEM_ATTRIBUTE_SHOOTRANGE] @ [ITEM_ATTRIBUTE_DECAYTO] @
     [ITEM_ATTRIBUTE_AUTOOPEN]"

lemma kept_subseq: "subseq (map fst (kept it i)) kept_types"
  unfolding kept_def kept_types_def map_append
  by (intro list_emb_append_mono)
    (simp_all add: entry_actionid_def entry_str_def entry_date_def entry_duration_def entry_decay_def entry32_def entry8_def Let_def)

lemma distinct_kept_types: "distinct (ITEM_ATTRIBUTE_CUSTOM # kept_types)"
  by (simp add: kept_types_def item_attribute_defs)

lemma kept_types_single: "\<forall>type\<in>set kept_types. single type"
proof -
  have "\<forall>type\<in>set kept_types. type \<in> (\<lambda>i. 2 ^ i) ` set [0..<32]"
    by (simp add: kept_types_def item_attribute_defs upt_rec)
  then show ?thesis
    unfolding single_def by fastforce
qed

lemma subseq_distinct: "subseq xs ys \<Longrightarrow> distinct ys \<Longrightarrow> distinct xs"
  by (induction rule: list_emb.induct) (auto elim: list_emb_set)

lemma kept_keys:
  shows "distinct (map fst (kept it i))" "(k, v) \<in> set (kept it i) \<Longrightarrow> single k" "ITEM_ATTRIBUTE_CUSTOM \<notin> fst ` set (kept it i)"
proof -
  have sub: "set (map fst (kept it i)) \<subseteq> set kept_types"
  proof
    fix x
    assume "x \<in> set (map fst (kept it i))"
    with kept_subseq [of it i] show "x \<in> set kept_types"
      by (rule list_emb_set) simp
  qed
  show "distinct (map fst (kept it i))"
    using kept_subseq distinct_kept_types by (meson distinct.simps(2) subseq_distinct)
  show "single k" if "(k, v) \<in> set (kept it i)"
    using that sub kept_types_single by force
  show "ITEM_ATTRIBUTE_CUSTOM \<notin> fst ` set (kept it i)"
    using sub distinct_kept_types by auto
qed

definition blank_item :: "item \<Rightarrow> bool" where
  "blank_item i0 \<longleftrightarrow> attrs_ok (getAttributes i0) \<and> attr_map (getAttributes i0) ITEM_ATTRIBUTE_CUSTOM = None \<and>
     reflect (getAttributes i0) = [] \<and> boostPercent (getAttributes i0) = []"

lemma load_subtype_custom:
  assumes "blank_item i0"
  shows "attr_map (getAttributes (load_subtype it i i0)) ITEM_ATTRIBUTE_CUSTOM = None"
proof -
  have s: "single ITEM_ATTRIBUTE_FLUIDTYPE" "single ITEM_ATTRIBUTE_CHARGES"
    "ITEM_ATTRIBUTE_CUSTOM \<noteq> ITEM_ATTRIBUTE_FLUIDTYPE" "ITEM_ATTRIBUTE_CUSTOM \<noteq> ITEM_ATTRIBUTE_CHARGES"
    unfolding single_def
    by (rule exI [of _ 21], simp add: item_attribute_defs, rule exI [of _ 20], simp add: item_attribute_defs)
      (simp_all add: item_attribute_defs)
  have "attrs_ok (getAttributes (setSubType it n j)) \<and> attr_map (getAttributes (setSubType it n j)) ITEM_ATTRIBUTE_CUSTOM = None"
    if "attrs_ok (getAttributes j)" "attr_map (getAttributes j) ITEM_ATTRIBUTE_CUSTOM = None" for n j
    using that s
    by (auto simp: setSubType_def setFluidType_def setItemCount_def setCharges_def item_setIntAttr_def setIntAttr_def getAttributes_def
        attrs_ok_set attr_map_set split: option.splits)
  then show ?thesis
    using assms by (simp add: load_subtype_def Let_def blank_item_def)
qed

lemma attr_map_store:
  assumes "attrs_ok (getAttributes i)" "\<And>k v. (k, v) \<in> set es \<Longrightarrow> single k" "distinct (map fst es)"
  shows "attrs_ok (getAttributes (store es i)) \<and> attr_map (getAttributes (store es i)) = attr_map (getAttributes i) ++ map_of es"
  using attrs.store_all [OF assms] by (auto simp: store_def getAttributes_def)

lemma attr_map_put_customs:
  assumes "attrs_ok (getAttributes i)" "attr_map (getAttributes i) ITEM_ATTRIBUTE_CUSTOM = None"
    and "\<forall>kc\<in>set kcs. custom_ok kc" "distinct (map fst kcs)"
  shows "attr_map (getAttributes (put_customs kcs i)) =
    attr_map (getAttributes i) ++ map_of (if kcs = [] then [] else [(ITEM_ATTRIBUTE_CUSTOM, CustomValue (map_of kcs))])"
proof (cases "kcs = []")
  case False
  let ?ops = "map (\<lambda>(k, c). SetCustom k c) kcs"
  have "\<forall>op'\<in>set ?ops. op_type_ok op'"
    by (auto simp: op_type_ok_def)
  from run_ops_refine [OF assms(1) this] spec_set_customs [OF assms(3,4) False, of "attr_map (getAttributes i)"]
  have "attr_map (fold run_op ?ops (getAttributes i)) =
      (attr_map (getAttributes i))(ITEM_ATTRIBUTE_CUSTOM \<mapsto> CustomValue (spec_custom (attr_map (getAttributes i)) ++ map_of kcs))"
    by simp
  moreover have "spec_custom (attr_map (getAttributes i)) = Map.empty"
    using assms(2) by (simp add: spec_custom_def)
  ultimately show ?thesis
    using False by (simp add: put_customs_run) (simp add: getAttributes_def)
qed (simp add: put_customs_def)

text \<open>What becomes of the sub-type: the attribute that holds it after loading, and the count.\<close>

definition subtype_entry :: "item_type \<Rightarrow> item \<Rightarrow> (u32 \<times> attr_value) list" where
  "subtype_entry it i =
     (if fluid_or_splash it then
        [(ITEM_ATTRIBUTE_FLUIDTYPE, IntValue (if getCharges i \<noteq> 0 then ucast (getCharges i) else ucast (ucast (getFluidType i) :: u8)))]
      else if \<not> stackable it \<and> type_charges it \<noteq> 0 \<and> getCharges i \<noteq> 0 then
        [(ITEM_ATTRIBUTE_CHARGES, IntValue (ucast (getCharges i)))]
      else [])"

definition loaded_count :: "item_type \<Rightarrow> item \<Rightarrow> item \<Rightarrow> u8" where
  "loaded_count it i i0 =
     (if fluid_or_splash it then item_count i0
      else if stackable it then (if getCharges i \<noteq> 0 then ucast (getCharges i) else item_count i)
      else if type_charges it = 0 \<and> getCharges i \<noteq> 0 then ucast (getCharges i)
      else item_count i0)"


lemma subtype_types:
  "single ITEM_ATTRIBUTE_FLUIDTYPE" "single ITEM_ATTRIBUTE_CHARGES"
  "isIntAttrType ITEM_ATTRIBUTE_FLUIDTYPE" "isIntAttrType ITEM_ATTRIBUTE_CHARGES"
  "at_least_100 ITEM_ATTRIBUTE_FLUIDTYPE n = n" "at_least_100 ITEM_ATTRIBUTE_CHARGES n = n"
  unfolding single_def
  by (rule exI [of _ 21], simp add: item_attribute_defs, rule exI [of _ 20], simp add: item_attribute_defs)
    (simp_all add: attr_kind_defs at_least_100_def item_attribute_defs)

lemma load_subtype_spec:
  assumes "attrs_ok (getAttributes i0)"
  shows "attr_map (getAttributes (load_subtype it i i0)) = attr_map (getAttributes i0) ++ map_of (subtype_entry it i)"
    and "item_count (load_subtype it i i0) = loaded_count it i i0"
proof -
  have step: "attrs_ok (getAttributes (setSubType it n j)) \<and>
      attr_map (getAttributes (setSubType it n j)) =
        (if fluid_or_splash it then (attr_map (getAttributes j))(ITEM_ATTRIBUTE_FLUIDTYPE \<mapsto> IntValue (ucast n))
         else if \<not> stackable it \<and> type_charges it \<noteq> 0 then (attr_map (getAttributes j))(ITEM_ATTRIBUTE_CHARGES \<mapsto> IntValue (ucast n))
         else attr_map (getAttributes j))"
    if "attrs_ok (getAttributes j)" for n j
    using that attr_map_store [OF that, of "[(ITEM_ATTRIBUTE_FLUIDTYPE, IntValue (ucast n))]"]
      attr_map_store [OF that, of "[(ITEM_ATTRIBUTE_CHARGES, IntValue (ucast n))]"]
    by (auto simp: setSubType_def setFluidType_def setCharges_def setItemCount_def item_setIntAttr_store subtype_types getAttributes_def)
  have narrow: "ucast (ucast (n :: u8) :: u16) = n" for n
    by (rule bit_word_eqI) (auto simp: bit_simps dest: bit_imp_le_length)
  have wide: "ucast (ucast (n :: u8) :: u16) = (ucast n :: u64)" for n
    by (rule bit_word_eqI) (auto simp: bit_simps dest: bit_imp_le_length)
  show "attr_map (getAttributes (load_subtype it i i0)) = attr_map (getAttributes i0) ++ map_of (subtype_entry it i)"
    using step [OF assms] step [OF conjunct1 [OF step [OF assms]]]
    by (auto simp: wide load_subtype_def Let_def subtype_entry_def getSubType_def)
  show "item_count (load_subtype it i i0) = loaded_count it i i0"
    by (simp add: narrow load_subtype_def Let_def loaded_count_def setSubType_def getSubType_def setFluidType_def setCharges_def
        setItemCount_def item_setIntAttr_def)
qed




lemma attrs_ok_put_customs:
  assumes "attrs_ok (getAttributes i)"
  shows "attrs_ok (getAttributes (put_customs kcs i))"
proof -
  have "\<forall>op'\<in>set (map (\<lambda>(k, c). SetCustom k c) kcs). op_type_ok op'" by (auto simp: op_type_ok_def)
  from run_ops_refine [OF assms this] show ?thesis
    using assms by (simp add: put_customs_run) (simp add: getAttributes_def)
qed

lemma attrs_ok_put_reflects:
  "attrs_ok (getAttributes (put_reflects a i)) = attrs_ok (getAttributes i)"
  "attrs_ok (getAttributes (put_boosts a i)) = attrs_ok (getAttributes i)"
  by (simp_all add: attrs_ok_def put_reflects_def put_boosts_def getAttributes_def)

lemma item_reload:
  assumes "item_ok walk i" and "blank_item i0"
  shows "\<exists>r. unserializeAttr it i0 (serializeAttr it walk i) = (True, r, []) \<and>
    item_id r = item_id i0 \<and> item_count r = loaded_count it i i0 \<and> attrs_ok (getAttributes r) \<and>
    attr_map (getAttributes r) =
      attr_map (getAttributes i0) ++ map_of (subtype_entry it i) ++ map_of (kept it i) ++ map_of (kept_customs i) \<and>
    reflect (getAttributes r) = reflect (getAttributes i) \<and> boostPercent (getAttributes r) = boostPercent (getAttributes i)"
proof -
  let ?m = "spec_custom (attr_map (getAttributes i))"
  let ?a = "getAttributes i" and ?b = "store (kept it i) (load_subtype it i i0)" and ?w = "walk ?m"
  let ?r = "put_boosts ?a (put_reflects ?a (put_customs ?w ?b))"
  have w: "map_of ?w = ?m" "distinct (map fst ?w)" "\<forall>kc\<in>set ?w. custom_ok kc" and ok: "reflects_ok ?a"
    using assms(1) by (simp_all add: item_ok_def Let_def)
  have run: "unserializeAttr it i0 (serializeAttr it walk i) = (True, ?r, [])"
    using assms(2)
    by (simp add: load_plain [OF assms(1)] segment_custom_map [OF assms(1)] segments_reflect [OF ok] blank_item_def)
      (simp add: segments_reflect(2) [OF ok, where s = "[]", simplified])
  have i0: "attrs_ok (getAttributes i0)" using assms(2) by (simp add: blank_item_def)
  note l = attrs_ok_load_subtype [OF i0, of it i]
  have b: "attrs_ok (getAttributes ?b)"
      "attr_map (getAttributes ?b) = attr_map (getAttributes (load_subtype it i i0)) ++ map_of (kept it i)"
    using attr_map_store [OF l kept_keys(2,1)] by simp_all
  have c: "attr_map (getAttributes ?b) ITEM_ATTRIBUTE_CUSTOM = None"
    using load_subtype_custom [OF assms(2)] kept_keys(3) by (simp add: b(2) map_add_None map_of_eq_None_iff)
  have empty: "?w = [] \<longleftrightarrow> ?m = Map.empty"
    using map_of_eq_empty_iff [of ?w] w(1) by simp
  have "attr_map (getAttributes ?r) = attr_map (getAttributes ?b) ++ map_of (kept_customs i)"
    unfolding rest_put_reflects attr_map_put_customs [OF b(1) c w(3,2)] kept_customs_def Let_def w(1) empty ..
  moreover have "attrs_ok (getAttributes ?r)"
    using attrs_ok_put_customs [OF b(1), of ?w] by (simp add: attrs_ok_put_reflects)
  moreover have "reflect (getAttributes ?r) = reflect ?a" "boostPercent (getAttributes ?r) = boostPercent ?a"
    using assms(2) by (simp_all add: blank_item_def)
  moreover have "item_id ?r = item_id i0" "item_count ?r = loaded_count it i i0"
    by (simp_all add: load_subtype_spec(2) [OF i0])
  ultimately show ?thesis
    using run b(2) load_subtype_spec(1) [OF i0, of it i] by auto
qed


definition sample_ops :: "attr_op list" where
  "sample_ops = [SetInt ITEM_ATTRIBUTE_WEIGHT 5, SetStr ITEM_ATTRIBUTE_TEXT [104], SetInt ITEM_ATTRIBUTE_CHARGES 7, SetCustom [107] (CInt 9)]"

definition sample_item :: item where
  "sample_item = \<lparr>item_id = 2, item_count = 50, item_attrs = Some (fold run_op sample_ops no_attributes)\<rparr>"

definition sample_walk :: "(bytes \<rightharpoonup> custom_attribute) \<Rightarrow> (bytes \<times> custom_attribute) list" where
  "sample_walk m = [([107], CInt 9)]"

definition fresh_item :: item where
  "fresh_item = \<lparr>item_id = 2, item_count = 1, item_attrs = None\<rparr>"

lemma sample_map: "attrs_ok (getAttributes sample_item)"
  "attr_map (getAttributes sample_item) = [ITEM_ATTRIBUTE_WEIGHT \<mapsto> IntValue 5, ITEM_ATTRIBUTE_TEXT \<mapsto> StrValue [104],
     ITEM_ATTRIBUTE_CHARGES \<mapsto> IntValue 7, ITEM_ATTRIBUTE_CUSTOM \<mapsto> CustomValue [[107] \<mapsto> CInt 9]]"
proof -
  have s: "single ITEM_ATTRIBUTE_WEIGHT" "single ITEM_ATTRIBUTE_TEXT" "single ITEM_ATTRIBUTE_CHARGES"
    unfolding single_def
    by (rule exI [of _ 9], simp add: item_attribute_defs, rule exI [of _ 3], simp add: item_attribute_defs,
        rule exI [of _ 20], simp add: item_attribute_defs)
  have "\<forall>op'\<in>set sample_ops. op_type_ok op'"
    using s by (simp add: sample_ops_def op_type_ok_def)
  note r = run_ops_refine [OF attrs_ok_empty this]
  show "attrs_ok (getAttributes sample_item)"
    using r by (simp add: sample_item_def getAttributes_def)
  show "attr_map (getAttributes sample_item) = [ITEM_ATTRIBUTE_WEIGHT \<mapsto> IntValue 5, ITEM_ATTRIBUTE_TEXT \<mapsto> StrValue [104],
     ITEM_ATTRIBUTE_CHARGES \<mapsto> IntValue 7, ITEM_ATTRIBUTE_CUSTOM \<mapsto> CustomValue [[107] \<mapsto> CInt 9]]"
    using r
    by (simp add: sample_item_def getAttributes_def sample_ops_def spec_op_def spec_custom_def at_least_100_def attr_kind_defs
        no_attributes_def lowerCaseBytes_def to_lower_def)
qed

lemma sample_attributes:
  "getAttributes sample_item =
   \<lparr>attribute_list = [(ITEM_ATTRIBUTE_WEIGHT, IntValue 5), (ITEM_ATTRIBUTE_TEXT, StrValue [104]), (ITEM_ATTRIBUTE_CHARGES, IntValue 7),
      (ITEM_ATTRIBUTE_CUSTOM, CustomValue [[107] \<mapsto> CInt 9])],
    attributeBits = 0x80100208, reflect = [], boostPercent = []\<rparr>"
  by (simp add: sample_item_def sample_ops_def no_attributes_def run_op_def setIntAttr_def setStrAttr_def setCustomAttribute_def
      removeCustomAttribute_def getCustomAttributeMap_def getExistingAttr_def setAttr_def hasAttribute_def attr_kind_defs
      getAttributes_def lowerCaseBytes_def to_lower_def)

lemma sample_ok: "item_ok sample_walk sample_item" "blank_item fresh_item"
proof -
  have "item_attrs sample_item = Some (getAttributes sample_item)"
    by (simp add: sample_item_def getAttributes_def)
  then have str: "item_getStrAttr type sample_item = getStrAttr type (getAttributes sample_item)"
      "item_hasAttribute type sample_item = hasAttribute type (getAttributes sample_item)" for type
    by (simp_all add: item_getStrAttr_def item_hasAttribute_def)
  have "spec_custom (attr_map (getAttributes sample_item)) = [[107] \<mapsto> CInt 9]"
    unfolding sample_map(2) by (simp add: spec_custom_def)
  then show "item_ok sample_walk sample_item"
    using sample_map(1)
    by (simp add: item_ok_def str_ok_def str Let_def sample_walk_def custom_ok_def lowerCaseBytes_def to_lower_def)
      (simp add: sample_attributes reflects_ok_def getStrAttr_def getExistingAttr_def hasAttribute_def attr_kind_defs)
  show "blank_item fresh_item"
    by (simp add: blank_item_def fresh_item_def getAttributes_def) (simp add: no_attributes_def)
qed

text \<open>A type with charges: the charges come back, and the custom attribute.\<close>

lemma sample_charges: "getCharges sample_item = 7"
proof -
  have "item_attrs sample_item = Some (getAttributes sample_item)"
    by (simp add: sample_item_def getAttributes_def)
  then show ?thesis
    by (simp add: getCharges_def item_getIntAttr_def)
      (simp add: sample_attributes getIntAttr_def getExistingAttr_def hasAttribute_def attr_kind_defs)
qed


text \<open>An item that stacks and carries charges as well is not stored faithfully: the charges are read after the
  count and by the same function, so that the count comes back as the lowest byte of the charges.\<close>

theorem charges_replace_count:
  assumes "item_ok walk i" and "blank_item i0" and "stackable it" and "\<not> fluid_or_splash it" and "getCharges i \<noteq> 0"
  shows "\<exists>r. unserializeAttr it i0 (serializeAttr it walk i) = (True, r, []) \<and> item_count r = ucast (getCharges i)"
  using item_reload [OF assms(1,2), of it] assms(3-5)
  by (auto simp: loaded_count_def)

lemma charges_replace_count_witness:
  "\<exists>r. unserializeAttr \<lparr>fluid_or_splash = False, stackable = True, type_charges = 0, moveable = True, unique_free = (\<lambda>n. True)\<rparr>
      fresh_item (serializeAttr \<lparr>fluid_or_splash = False, stackable = True, type_charges = 0, moveable = True, unique_free = (\<lambda>n. True)\<rparr>
        sample_walk sample_item) = (True, r, []) \<and> item_count sample_item = 50 \<and> item_count r = 7"
  using charges_replace_count [OF sample_ok,
      of "\<lparr>fluid_or_splash = False, stackable = True, type_charges = 0, moveable = True, unique_free = (\<lambda>n. True)\<rparr>"]
  by (simp add: sample_charges) (simp add: sample_item_def)

end
