(* ===== verification/Levels.thy ===== *)
theory Levels
  imports Prelude
begin

text \<open>
  Experience and levels of a player, \<open>Player::addExperience\<close> and \<open>removeExperience\<close> of
  \<open>src/src/player.cpp\<close> with \<open>getExpForLevel\<close> of \<open>player.h\<close>.  Signed members are kept as words; what
  Lua makes of an amount of experience is a parameter; text messages to clients are left out, the other calls of a
  change of level are logged.
\<close>

section \<open>State\<close>

record vocation_gains =
  gainHP :: u32
  gainMana :: u32
  gainCap :: u32
  vocBaseSpeed :: u32

text \<open>What a change of level makes the game and the scripts do, in order\<close>

datatype level_call =
    ChangeSpeed | AddCreatureHealth | UpdateCreatureWalkthrough | UpdateSharedExperience | PlayerAdvance u32 u32 | SendStats

record progress =
  level :: u32
  experience :: u64
  healthMax :: u32
  health :: u32
  manaMax :: u32
  mana :: u32
  capacity :: u32
  levelPercent :: u8
  var_max_health :: u32
  var_max_mana :: u32
  baseSpeed :: u32
  set_max_speed :: bool
  in_party :: bool
  calls :: "level_call list"

definition updateBaseSpeed :: "vocation_gains \<Rightarrow> progress \<Rightarrow> progress" where
  "updateBaseSpeed v p = p\<lparr>baseSpeed := (if \<not> set_max_speed p then vocBaseSpeed v + 2 * (level p - 1) else 1500)\<rparr>"

definition getMaxHealth :: "progress \<Rightarrow> u32" where
  "getMaxHealth p = (let m = healthMax p + var_max_health p in if sint m < 1 then 1 else m)"

definition getMaxMana :: "progress \<Rightarrow> u32" where
  "getMaxMana p = (let m = manaMax p + var_max_mana p in if sint m < 0 then 0 else m)"

definition getExpForLevel :: "u64 \<Rightarrow> u64" where
  "getExpForLevel lv = (((lv - 6) * lv + 17) * lv - 12) div 6 * 100"

definition getPercentLevel :: "u64 \<Rightarrow> u64 \<Rightarrow> u8" where
  "getPercentLevel cnt nextLevelCount =
     (if nextLevelCount = 0 then 0
      else let result = ucast ((cnt * 100) div nextLevelCount) in if result > 100 then 0 else result)"

section \<open>Gaining experience\<close>

lemma unat_u64_less: "unat (w :: u64) < 18446744073709551616"
  using unsigned_less [of w] by simp

function gain_levels :: "vocation_gains \<Rightarrow> progress \<Rightarrow> u64 \<Rightarrow> u64 \<Rightarrow> progress \<times> u64 \<times> u64" where
  "gain_levels v p currLevelExp nextLevelExp =
     (if experience p \<ge> nextLevelExp then
        let p = p\<lparr>level := level p + 1, healthMax := healthMax p + gainHP v, health := health p + gainHP v,
                  manaMax := manaMax p + gainMana v, mana := mana p + gainMana v, capacity := capacity p + gainCap v\<rparr>;
            currLevelExp = nextLevelExp;
            nextLevelExp = getExpForLevel (ucast (level p + 1))
        in if currLevelExp \<ge> nextLevelExp then (p, currLevelExp, nextLevelExp)
           else gain_levels v p currLevelExp nextLevelExp
      else (p, currLevelExp, nextLevelExp))"
  by pat_completeness auto
termination
  by (relation "measure (\<lambda>(v, p, currLevelExp, nextLevelExp). 2 ^ 64 - unat nextLevelExp)")
    (auto simp: word_less_nat_alt not_le Let_def intro!: diff_less_mono2 unat_u64_less)

declare gain_levels.simps [simp del]

text \<open>The end of both operations\<close>

definition set_percent :: "u64 \<Rightarrow> u64 \<Rightarrow> progress \<Rightarrow> progress" where
  "set_percent currLevelExp nextLevelExp p =
     p\<lparr>levelPercent := (if nextLevelExp > currLevelExp
                        then getPercentLevel (experience p - currLevelExp) (nextLevelExp - currLevelExp) else 0),
       calls := calls p @ [SendStats]\<rparr>"

text \<open>What both operations do after the level changed from \<open>prevLevel\<close>\<close>

definition refill :: "vocation_gains \<Rightarrow> u32 \<Rightarrow> u32 \<Rightarrow> progress \<Rightarrow> progress" where
  "refill v protectionLevel prevLevel p =
     (if prevLevel \<noteq> level p then
        updateBaseSpeed v (p\<lparr>health := getMaxHealth p, mana := getMaxMana p,
          calls := calls p @ [ChangeSpeed, AddCreatureHealth] @
            (if prevLevel < protectionLevel \<and> level p \<ge> protectionLevel \<or>
                prevLevel \<ge> protectionLevel \<and> level p < protectionLevel
             then [UpdateCreatureWalkthrough] else []) @
            (if in_party p then [UpdateSharedExperience] else []) @
            (if prevLevel < level p then [PlayerAdvance prevLevel (level p)] else [])\<rparr>)
      else p)"

definition addExperience :: "u32 \<Rightarrow> (u64 \<Rightarrow> u64) \<Rightarrow> vocation_gains \<Rightarrow> u64 \<Rightarrow> progress \<Rightarrow> progress" where
  "addExperience pl onGain v exp p =
     (let currLevelExp = getExpForLevel (ucast (level p));
          nextLevelExp = getExpForLevel (ucast (level p + 1))
      in if currLevelExp \<ge> nextLevelExp then p\<lparr>levelPercent := 0, calls := calls p @ [SendStats]\<rparr>
         else
           let exp = onGain exp
           in if exp = 0 then p
              else
                let (q, currLevelExp, nextLevelExp) =
                      gain_levels v (p\<lparr>experience := experience p + exp\<rparr>) currLevelExp nextLevelExp
                in set_percent currLevelExp nextLevelExp (refill v pl (level p) q))"

section \<open>Losing experience\<close>

text \<open>\<open>std::max<int32_t>(0, x - gain)\<close>\<close>

definition lose_max :: "u32 \<Rightarrow> u32 \<Rightarrow> u32" where
  "lose_max x gain = (if sint (x - gain) < 0 then 0 else x - gain)"

function lose_levels :: "vocation_gains \<Rightarrow> progress \<Rightarrow> u64 \<Rightarrow> progress \<times> u64" where
  "lose_levels v p currLevelExp =
     (if level p > 1 \<and> experience p < currLevelExp then
        let p = p\<lparr>level := level p - 1, healthMax := lose_max (healthMax p) (gainHP v),
                  manaMax := lose_max (manaMax p) (gainMana v), capacity := lose_max (capacity p) (gainCap v)\<rparr>
        in lose_levels v p (getExpForLevel (ucast (level p)))
      else (p, currLevelExp))"
  by pat_completeness auto
termination
  by (relation "measure (\<lambda>(v, p, currLevelExp). unat (level p))")
    (auto simp: word_less_nat_alt unat_sub_if')

declare lose_levels.simps [simp del]

definition removeExperience :: "u32 \<Rightarrow> (u64 \<Rightarrow> u64) \<Rightarrow> vocation_gains \<Rightarrow> u64 \<Rightarrow> progress \<Rightarrow> progress" where
  "removeExperience pl onLose v exp p =
     (if experience p = 0 \<or> exp = 0 then p
      else
        let exp = onLose exp
        in if exp = 0 then p
           else
             let p = p\<lparr>experience := (if sint (experience p - exp) < 0 then 0 else experience p - exp)\<rparr>;
                 (q, currLevelExp) = lose_levels v p (getExpForLevel (ucast (level p)));
                 q = refill v pl (level p) q
             in set_percent currLevelExp (getExpForLevel (ucast (level q + 1))) q)"

section \<open>The table of experience\<close>

text \<open>\<open>exp_at l\<close> is the experience of level \<open>l\<close> over the integers; \<open>MAX_LEVEL\<close> is the last level whose
  successor the 64-bit formula still puts above it.\<close>

definition exp_at :: "int \<Rightarrow> int" where
  "exp_at l = (((l - 6) * l + 17) * l - 12) div 6 * 100"

abbreviation MAX_LEVEL :: int where
  "MAX_LEVEL \<equiv> 1034406"

lemma six_dvd: "6 dvd (((l - 6) * l + 17) * l - 12 :: int)"
proof -
  let ?P = "\<lambda>l. ((l - 6) * l + 17) * l - 12 :: int"
  have step: "6 dvd ?P (l + 1) \<longleftrightarrow> 6 dvd ?P l" for l
  proof -
    have "even (l * l - 3 * l + 4)" by simp
    then obtain k where k: "l * l - 3 * l + 4 = 2 * k" by (elim evenE)
    have "?P (l + 1) = ?P l + 3 * (l * l - 3 * l + 4)" by algebra
    then have "?P (l + 1) = ?P l + 6 * k" unfolding k by simp
    then show ?thesis by (simp only: dvd_add_left_iff dvd_triv_left)
  qed
  show ?thesis
  proof (induction l rule: int_induct [where k = 1])
    case (step2 i)
    then show ?case using step [of "i - 1"] by simp
  qed (simp_all only: step, simp)
qed

lemma exp_at_step: "exp_at (l + 1) = exp_at l + 50 * (l * l - 3 * l + 4)"
proof -
  obtain a where a: "((l - 6) * l + 17) * l - 12 = 6 * a"
    using six_dvd [of l] by (elim dvdE)
  obtain b where b: "((l + 1 - 6) * (l + 1) + 17) * (l + 1) - 12 = 6 * b"
    using six_dvd [of "l + 1"] by (elim dvdE)
  have "6 * b = 6 * a + 3 * (l * l - 3 * l + 4)"
    unfolding a [symmetric] b [symmetric] by algebra
  then have "2 * b = 2 * a + (l * l - 3 * l + 4)" by simp
  then show ?thesis
    unfolding exp_at_def a b by simp
qed

lemma exp_at_less_Suc: "exp_at l < exp_at (l + 1)"
proof -
  have "0 < l * l - 3 * l + 4"
  proof -
    have "4 * (l * l - 3 * l + 4) = (2 * l - 3) * (2 * l - 3) + 7"
      by algebra
    moreover have "0 \<le> (2 * l - 3) * (2 * l - 3)"
      by (rule zero_le_square)
    ultimately have "0 < 4 * (l * l - 3 * l + 4)" by linarith
    then show ?thesis unfolding zero_less_mult_iff by simp
  qed
  then show ?thesis by (simp add: exp_at_step)
qed

lemma exp_at_strict: "l < m \<Longrightarrow> exp_at l < exp_at m"
proof (induction "nat (m - l)" arbitrary: m)
  case 0
  then show ?case by simp
next
  case (Suc n)
  show ?case
  proof (cases "l = m - 1")
    case True
    then show ?thesis using exp_at_less_Suc [of l] by simp
  next
    case False
    then have "exp_at l < exp_at (m - 1)"
      using Suc by (intro Suc.hyps) auto
    then show ?thesis using exp_at_less_Suc [of "m - 1"] by simp
  qed
qed

lemma exp_at_mono: "l \<le> m \<Longrightarrow> exp_at l \<le> exp_at m"
  using exp_at_strict [of l m] by (cases "l = m") auto

lemma exp_at_1 [simp]: "exp_at 1 = 0"
  by (simp add: exp_at_def)

lemma exp_at_max [simp]: "exp_at MAX_LEVEL = 18446727123985721500"
  by (simp add: exp_at_def)

lemma uint_times_100: "uint (x * 100 :: u64) = (uint x * 100) mod 2 ^ 64"
  by (simp add: uint_word_ariths)

lemma uint_div_6: "uint (x div 6 :: u64) = uint x div 6"
  by (simp add: uint_div)

lemma getExpForLevel_int:
  assumes "1 \<le> l" "l \<le> MAX_LEVEL + 1"
  shows "uint (getExpForLevel (word_of_int l)) = exp_at l mod 2 ^ 64"
proof -
  let ?P = "((l - 6) * l + 17) * l - 12"
  let ?W = "((word_of_int l - 6) * word_of_int l + 17) * word_of_int l - (12 :: u64)"
  have "exp_at l \<le> exp_at (MAX_LEVEL + 1)"
    using assms(2) by (rule exp_at_mono)
  then have "?P div 6 * 100 \<le> 20000000000000000000"
    unfolding exp_at_def by simp
  then have small: "?P < 18446744073709551616" by linarith
  have "0 \<le> ?P div 6 * 100"
    using exp_at_mono [OF assms(1)] by (simp add: exp_at_def)
  then have nonneg: "0 \<le> ?P" by linarith
  have "?W = word_of_int ?P"
    by simp
  then have "uint ?W = ?P mod 2 ^ LENGTH(64)"
    by (simp only: uint_word_of_int)
  also have "\<dots> = ?P"
    using nonneg small by (intro mod_pos_pos_trivial) simp_all
  finally have "uint (?W div 6 * 100) = (?P div 6 * 100) mod 2 ^ 64"
    unfolding uint_times_100 uint_div_6 by (rule arg_cong)
  then show ?thesis
    unfolding getExpForLevel_def exp_at_def .
qed

lemma exp_at_after_max [simp]: "exp_at 1034407 = 18446780623619202600"
  by (simp add: exp_at_def)

lemma uint_level_Suc: "uint lv \<le> MAX_LEVEL \<Longrightarrow> uint (lv + 1 :: u32) = uint lv + 1"
  by (simp add: uint_word_ariths)

lemma level_exp:
  fixes lv :: u32
  assumes "1 \<le> uint lv" "uint lv \<le> MAX_LEVEL"
  shows "uint (getExpForLevel (ucast lv)) = exp_at (uint lv)"
proof -
  have "ucast lv = (word_of_int (uint lv) :: u64)" by (simp add: unsigned_ucast_eq)
  moreover have "exp_at (uint lv) \<le> exp_at MAX_LEVEL" "exp_at 1 \<le> exp_at (uint lv)"
    using assms by (auto intro: exp_at_mono simp del: exp_at_max exp_at_1)
  ultimately show ?thesis
    using getExpForLevel_int [of "uint lv"] assms by (simp only:) (simp add: unsigned_ucast_eq)
qed

lemma next_level_exp:
  fixes lv :: u32
  assumes "1 \<le> uint lv" "uint lv \<le> MAX_LEVEL"
  shows "uint (getExpForLevel (ucast (lv + 1))) = (if uint lv = MAX_LEVEL then 36549909650984 else exp_at (uint lv + 1))"
proof (cases "uint lv = MAX_LEVEL")
  case True
  then have "ucast (lv + 1) = (word_of_int (MAX_LEVEL + 1) :: u64)"
    using uint_level_Suc [of lv] by (simp add: ucast_eq)
  then show ?thesis
    using True by (simp add: getExpForLevel_int [of "MAX_LEVEL + 1", simplified])
next
  case False
  then show ?thesis
    using assms level_exp [of "lv + 1"] by (simp add: uint_level_Suc)
qed

lemma max_level_iff:
  fixes lv :: u32
  assumes "1 \<le> uint lv" "uint lv \<le> MAX_LEVEL"
  shows "getExpForLevel (ucast (lv + 1)) \<le> getExpForLevel (ucast lv) \<longleftrightarrow> uint lv = MAX_LEVEL"
  using assms exp_at_less_Suc [of "uint lv"]
  by (auto simp: word_le_def next_level_exp level_exp)

section \<open>The level belongs to the experience\<close>

definition level_ok :: "progress \<Rightarrow> bool" where
  "level_ok p \<longleftrightarrow> 1 \<le> uint (level p) \<and> uint (level p) \<le> MAX_LEVEL \<and> exp_at (uint (level p)) \<le> uint (experience p) \<and>
     (uint (level p) < MAX_LEVEL \<longrightarrow> uint (experience p) < exp_at (uint (level p) + 1))"

lemma level_ok_unique:
  assumes "level_ok p" "level_ok q" "experience p = experience q"
  shows "level p = level q"
proof (rule ccontr)
  assume ne: "level p \<noteq> level q"
  have False if "level_ok p" "level_ok q" "experience p = experience q" "uint (level p) < uint (level q)" for p q
    using that exp_at_mono [of "uint (level p) + 1" "uint (level q)"] unfolding level_ok_def by auto
  from this [of p q] this [of q p] assms ne show False
    by (metis linorder_less_linear word_uint_eq_iff)
qed

lemma gain_levels_ok:
  assumes "gain_levels v p c n = (q, c', n')"
    and "1 \<le> uint (level p)" "uint (level p) < MAX_LEVEL" "exp_at (uint (level p)) \<le> uint (experience p)"
    and "c = getExpForLevel (ucast (level p))" "n = getExpForLevel (ucast (level p + 1))"
  shows "level_ok q \<and> experience q = experience p \<and> uint (level p) \<le> uint (level q) \<and>
    c' = getExpForLevel (ucast (level q)) \<and> n' = getExpForLevel (ucast (level q + 1)) \<and>
    (\<exists>k. level q = level p + k \<and> healthMax q = healthMax p + k * gainHP v \<and>
      manaMax q = manaMax p + k * gainMana v \<and> capacity q = capacity p + k * gainCap v)"
  using assms
proof (induction v p c n arbitrary: q c' n' rule: gain_levels.induct)
  case (1 v p c n)
  let ?p = "p\<lparr>level := level p + 1, healthMax := healthMax p + gainHP v, health := health p + gainHP v,
     manaMax := manaMax p + gainMana v, mana := mana p + gainMana v, capacity := capacity p + gainCap v\<rparr>"
  note lv = 1(3,4)
  have n: "uint n = exp_at (uint (level p) + 1)"
    using lv 1(7) by (simp add: next_level_exp)
  have Suc: "uint (level ?p) = uint (level p) + 1"
    using lv by (simp add: uint_level_Suc)
  show ?case
  proof (cases "experience p \<ge> n")
    case False
    then have "q = p" "c' = c" "n' = n"
      using 1(2) by (auto simp: gain_levels.simps [of v p c n])
    then show ?thesis
      using False 1(4-7) lv n by (auto simp: level_ok_def word_le_def intro!: exI [of _ 0])
  next
    case up: True
    show ?thesis
    proof (cases "uint (level ?p) = MAX_LEVEL")
      case True
      then have "getExpForLevel (ucast (level ?p + 1)) \<le> n"
        using max_level_iff [of "level ?p"] Suc lv 1(7) by simp
      then have "q = ?p" "c' = n" "n' = getExpForLevel (ucast (level ?p + 1))"
        using 1(2) up by (auto simp: gain_levels.simps [of v p c n] Let_def)
      then show ?thesis
        using True Suc up 1(7) n by (auto simp: level_ok_def word_le_def intro!: exI [of _ 1])
    next
      case False
      have lt: "\<not> getExpForLevel (ucast (level ?p + 1)) \<le> n"
        using max_level_iff [of "level ?p"] Suc lv 1(7) False by simp
      then have rec: "gain_levels v ?p n (getExpForLevel (ucast (level ?p + 1))) = (q, c', n')"
        using 1(2) up by (auto simp: gain_levels.simps [of v p c n] Let_def)
      have "level_ok q \<and> experience q = experience ?p \<and> uint (level ?p) \<le> uint (level q) \<and>
        c' = getExpForLevel (ucast (level q)) \<and> n' = getExpForLevel (ucast (level q + 1)) \<and>
        (\<exists>k. level q = level ?p + k \<and> healthMax q = healthMax ?p + k * gainHP v \<and>
          manaMax q = manaMax ?p + k * gainMana v \<and> capacity q = capacity ?p + k * gainCap v)"
        by (rule 1(1) [OF up refl refl refl lt rec])
          (use Suc lv False up n 1(7) in \<open>auto simp: word_le_def\<close>)
      then obtain k where "level_ok q \<and> experience q = experience ?p \<and> uint (level ?p) \<le> uint (level q) \<and>
        c' = getExpForLevel (ucast (level q)) \<and> n' = getExpForLevel (ucast (level q + 1)) \<and>
        level q = level ?p + k \<and> healthMax q = healthMax ?p + k * gainHP v \<and>
          manaMax q = manaMax ?p + k * gainMana v \<and> capacity q = capacity ?p + k * gainCap v"
        by blast
      then show ?thesis
        using Suc by (auto simp: algebra_simps intro!: exI [of _ "k + 1"])
    qed
  qed
qed

lemma lose_levels_ok:
  assumes "lose_levels v p c = (q, c')"
    and "1 \<le> uint (level p)" "uint (level p) \<le> MAX_LEVEL"
      "uint (level p) < MAX_LEVEL \<longrightarrow> uint (experience p) < exp_at (uint (level p) + 1)"
    and "c = getExpForLevel (ucast (level p))"
  shows "level_ok q \<and> experience q = experience p \<and> c' = getExpForLevel (ucast (level q)) \<and>
    (\<exists>k. uint (level p) = uint (level q) + int k \<and>
      healthMax q = ((\<lambda>x. lose_max x (gainHP v)) ^^ k) (healthMax p) \<and>
      manaMax q = ((\<lambda>x. lose_max x (gainMana v)) ^^ k) (manaMax p) \<and>
      capacity q = ((\<lambda>x. lose_max x (gainCap v)) ^^ k) (capacity p))"
  using assms
proof (induction v p c arbitrary: q c' rule: lose_levels.induct)
  case (1 v p c)
  let ?p = "p\<lparr>level := level p - 1, healthMax := lose_max (healthMax p) (gainHP v),
     manaMax := lose_max (manaMax p) (gainMana v), capacity := lose_max (capacity p) (gainCap v)\<rparr>"
  note lv = 1(3,4)
  have c: "uint c = exp_at (uint (level p))"
    using lv 1(6) by (simp add: level_exp)
  show ?case
  proof (cases "level p > 1 \<and> experience p < c")
    case False
    then have "q = p" "c' = c"
      using 1(2) by (auto simp: lose_levels.simps [of v p c])
    moreover have "level_ok p"
    proof (cases "level p > 1")
      case True
      then show ?thesis using False c lv 1(5) by (simp add: level_ok_def word_le_def not_less)
    next
      case False
      then have "uint (level p) = 1" using lv by (simp add: word_less_def)
      then show ?thesis using 1(5) by (simp add: level_ok_def)
    qed
    ultimately show ?thesis
      using 1(6) by (auto intro!: exI [of _ 0])
  next
    case down: True
    then have Suc: "uint (level p - 1) + 1 = uint (level p)"
      by (simp add: word_less_def uint_sub_if_size)
    have rec: "lose_levels v ?p (getExpForLevel (ucast (level ?p))) = (q, c')"
      using 1(2) down by (simp add: lose_levels.simps [of v p c])
    have "level_ok q \<and> experience q = experience ?p \<and> c' = getExpForLevel (ucast (level q)) \<and>
      (\<exists>k. uint (level ?p) = uint (level q) + int k \<and>
        healthMax q = ((\<lambda>x. lose_max x (gainHP v)) ^^ k) (healthMax ?p) \<and>
        manaMax q = ((\<lambda>x. lose_max x (gainMana v)) ^^ k) (manaMax ?p) \<and>
        capacity q = ((\<lambda>x. lose_max x (gainCap v)) ^^ k) (capacity ?p))"
      by (rule 1(1) [OF down refl rec])
        (use Suc lv down c in \<open>auto simp: word_less_def\<close>)
    then obtain k where "level_ok q \<and> experience q = experience ?p \<and> c' = getExpForLevel (ucast (level q)) \<and>
      uint (level ?p) = uint (level q) + int k \<and>
        healthMax q = ((\<lambda>x. lose_max x (gainHP v)) ^^ k) (healthMax ?p) \<and>
        manaMax q = ((\<lambda>x. lose_max x (gainMana v)) ^^ k) (manaMax ?p) \<and>
        capacity q = ((\<lambda>x. lose_max x (gainCap v)) ^^ k) (capacity ?p)"
      by blast
    then show ?thesis
      using Suc by (auto simp: funpow_Suc_right simp del: funpow.simps intro!: exI [of _ "Suc k"])
  qed
qed

definition percent_ok :: "progress \<Rightarrow> bool" where
  "percent_ok p \<longleftrightarrow> (let l = uint (level p) in
     uint (levelPercent p) =
       (if l = MAX_LEVEL then 0
        else 100 * (uint (experience p) - exp_at l) div (exp_at (l + 1) - exp_at l)))"

lemma level_gap: "1 \<le> l \<Longrightarrow> l \<le> MAX_LEVEL \<Longrightarrow> exp_at (l + 1) - exp_at l \<le> 60000000000000"
proof -
  assume l: "1 \<le> l" "l \<le> MAX_LEVEL"
  then have "l * l \<le> MAX_LEVEL * MAX_LEVEL" by (intro mult_mono) auto
  then show ?thesis using l by (simp add: exp_at_step)
qed

lemma int_div_less:
  fixes x y m :: int
  assumes "0 < y" "x < m * y"
  shows "x div y < m"
proof (rule ccontr)
  assume "\<not> x div y < m"
  then have "m * y \<le> x div y * y" using assms(1) by (intro mult_right_mono) auto
  also have "\<dots> \<le> x" using assms(1) div_mult_mod_eq [of x y] pos_mod_sign [of y x] by linarith
  finally show False using assms(2) by simp
qed

lemma getPercentLevel_int:
  assumes "uint a < uint b" "uint b \<le> 60000000000000"
  shows "uint (getPercentLevel a b) = 100 * uint a div uint b"
proof -
  have "uint (a * 100) = 100 * uint a"
    using assms by (simp add: uint_times_100)
  moreover have lt: "100 * uint a div uint b < 100"
    by (rule int_div_less) (use assms uint_ge_0 [of a] in linarith)+
  moreover have b: "0 < uint b" using assms uint_ge_0 [of a] by linarith
  then have "0 \<le> 100 * uint a div uint b"
    by (simp add: pos_imp_zdiv_nonneg_iff)
  ultimately have u: "uint (ucast (a * 100 div b) :: u8) = 100 * uint a div uint b"
    by (simp add: unsigned_ucast_eq uint_div take_bit_int_eq_self)
  have "b \<noteq> 0" using b by auto
  moreover have "\<not> ucast (a * 100 div b) > (100 :: u8)"
    using u lt by (simp add: word_less_def)
  ultimately show ?thesis
    using u by (simp add: getPercentLevel_def Let_def)
qed

lemma set_percent_ok:
  assumes "level_ok p" "c = getExpForLevel (ucast (level p))" "n = getExpForLevel (ucast (level p + 1))"
  shows "level_ok (set_percent c n p) \<and> percent_ok (set_percent c n p)"
proof -
  let ?l = "uint (level p)"
  have lv: "1 \<le> ?l" "?l \<le> MAX_LEVEL" using assms(1) by (auto simp: level_ok_def)
  have "uint (if n > c then getPercentLevel (experience p - c) (n - c) else 0) =
     (if ?l = MAX_LEVEL then 0 else 100 * (uint (experience p) - exp_at ?l) div (exp_at (?l + 1) - exp_at ?l))"
  proof (cases "?l = MAX_LEVEL")
    case True
    then have "\<not> n > c" using max_level_iff [OF lv] assms(2,3) by (simp add: not_less)
    then show ?thesis using True by simp
  next
    case False
    then have c: "uint c = exp_at ?l" and n: "uint n = exp_at (?l + 1)"
      using assms(2,3) lv by (simp_all add: level_exp next_level_exp)
    have e: "exp_at ?l \<le> uint (experience p)" "uint (experience p) < exp_at (?l + 1)"
      using assms(1) False lv by (auto simp: level_ok_def)
    have "uint (n - c) = exp_at (?l + 1) - exp_at ?l" "uint (experience p - c) = uint (experience p) - exp_at ?l"
      using c n e by (simp_all add: uint_sub_if_size)
    then have "uint (getPercentLevel (experience p - c) (n - c)) =
       100 * (uint (experience p) - exp_at ?l) div (exp_at (?l + 1) - exp_at ?l)"
      using e level_gap [OF lv] by (simp add: getPercentLevel_int)
    moreover have "n > c" using c n e by (simp add: word_less_def)
    ultimately show ?thesis using False by simp
  qed
  then show ?thesis
    using assms(1) by (simp add: set_percent_def level_ok_def percent_ok_def)
qed

lemma refill_simps [simp]:
  "level (refill v pl l p) = level p" "experience (refill v pl l p) = experience p"
  "healthMax (refill v pl l p) = healthMax p" "manaMax (refill v pl l p) = manaMax p" "capacity (refill v pl l p) = capacity p"
  by (simp_all add: refill_def updateBaseSpeed_def)

lemma level_ok_refill [simp]: "level_ok (refill v pl l p) = level_ok p"
  by (simp add: level_ok_def)

lemma set_percent_simps [simp]:
  "level (set_percent c n p) = level p" "experience (set_percent c n p) = experience p"
  "healthMax (set_percent c n p) = healthMax p" "manaMax (set_percent c n p) = manaMax p"
  "capacity (set_percent c n p) = capacity p"
  by (simp_all add: set_percent_def)

lemma addExperience_facts:
  fixes p :: progress and pl :: u32 and v :: vocation_gains and e :: u64
  assumes "level_ok p" "percent_ok p" "uint (experience p) + uint (onGain e) < 2 ^ 64"
  defines "q \<equiv> addExperience pl onGain v e p"
  shows "level_ok q \<and> percent_ok q \<and>
    experience q = (if uint (level p) = MAX_LEVEL then experience p else experience p + onGain e) \<and>
    uint (level p) \<le> uint (level q) \<and>
    (\<exists>k. level q = level p + k \<and> healthMax q = healthMax p + k * gainHP v \<and>
      manaMax q = manaMax p + k * gainMana v \<and> capacity q = capacity p + k * gainCap v)"
proof -
  have lv: "1 \<le> uint (level p)" "uint (level p) \<le> MAX_LEVEL"
    using assms(1) by (auto simp: level_ok_def)
  show ?thesis
  proof (cases "uint (level p) = MAX_LEVEL")
    case True
    then have "q = p\<lparr>levelPercent := 0, calls := calls p @ [SendStats]\<rparr>"
      using max_level_iff [OF lv] by (simp add: q_def addExperience_def Let_def)
    then show ?thesis
      using True assms(1) by (auto simp: level_ok_def percent_ok_def intro!: exI [of _ 0])
  next
    case False
    then have open_end: "\<not> getExpForLevel (ucast (level p + 1)) \<le> getExpForLevel (ucast (level p))"
      using max_level_iff [OF lv] by simp
    show ?thesis
    proof (cases "onGain e = 0")
      case True
      then have "q = p" using open_end by (simp add: q_def addExperience_def Let_def)
      then show ?thesis using True assms(1,2) by (auto intro!: exI [of _ 0])
    next
      case gain: False
      let ?p = "p\<lparr>experience := experience p + onGain e\<rparr>"
      obtain r c n where r: "gain_levels v ?p (getExpForLevel (ucast (level p))) (getExpForLevel (ucast (level p + 1))) = (r, c, n)"
        using prod_cases3 by blast
      have exp: "uint (experience p + onGain e) = uint (experience p) + uint (onGain e)"
        using assms(3) by (simp add: uint_plus_if_size word_size)
      moreover have "exp_at (uint (level p)) \<le> uint (experience p) + uint (onGain e)"
        using assms(1) uint_ge_0 [of "onGain e"] unfolding level_ok_def by linarith
      ultimately have "exp_at (uint (level ?p)) \<le> uint (experience ?p)"
        by simp
      then have ok: "level_ok r \<and> experience r = experience ?p \<and> uint (level ?p) \<le> uint (level r) \<and>
          c = getExpForLevel (ucast (level r)) \<and> n = getExpForLevel (ucast (level r + 1)) \<and>
          (\<exists>k. level r = level ?p + k \<and> healthMax r = healthMax ?p + k * gainHP v \<and>
            manaMax r = manaMax ?p + k * gainMana v \<and> capacity r = capacity ?p + k * gainCap v)"
        using lv False by (intro gain_levels_ok [OF r]) auto
      have q: "q = set_percent c n (refill v pl (level p) r)"
        using open_end gain r by (simp add: q_def addExperience_def Let_def)
      have "level_ok (refill v pl (level p) r)" using ok by simp
      then have "level_ok q \<and> percent_ok q"
        unfolding q by (rule set_percent_ok) (use ok in auto)
      then show ?thesis
        using ok False by (simp add: q)
    qed
  qed
qed

lemma bounded_difference:
  fixes x y :: u64
  assumes "uint x < 2 ^ 63" "uint y \<le> 2 ^ 63"
  shows "uint (if 2 ^ 63 \<le> uint (x - y) then 0 else x - y) = max 0 (uint x - uint y)"
proof (cases "uint y \<le> uint x")
  case True
  then have "uint (x - y) = uint x - uint y" by (simp add: uint_sub_if_size)
  moreover have "\<not> 2 ^ 63 \<le> uint x - uint y" using assms(1) uint_ge_0 [of y] by linarith
  ultimately show ?thesis using True by (simp add: max_def)
next
  case False
  then have "uint (x - y) = uint x - uint y + 2 ^ 64" by (simp add: uint_sub_if_size word_size)
  moreover have "uint y \<le> 9223372036854775808" using assms(2) by simp
  then have "9223372036854775808 \<le> uint x - uint y + 18446744073709551616" using uint_ge_0 [of x] by linarith
  ultimately show ?thesis using False by (simp add: max_def)
qed

lemma removeExperience_facts:
  fixes p :: progress and pl :: u32 and v :: vocation_gains and e :: u64
  assumes "level_ok p" "percent_ok p" "uint (experience p) < 2 ^ 63" "uint (onLose e) \<le> 2 ^ 63"
    "experience p \<noteq> 0" "e \<noteq> 0"
  defines "q \<equiv> removeExperience pl onLose v e p"
  shows "level_ok q \<and> percent_ok q \<and> uint (experience q) = max 0 (uint (experience p) - uint (onLose e)) \<and>
    (\<exists>k. uint (level p) = uint (level q) + int k \<and>
      healthMax q = ((\<lambda>x. lose_max x (gainHP v)) ^^ k) (healthMax p) \<and>
      manaMax q = ((\<lambda>x. lose_max x (gainMana v)) ^^ k) (manaMax p) \<and>
      capacity q = ((\<lambda>x. lose_max x (gainCap v)) ^^ k) (capacity p))"
proof (cases "onLose e = 0")
  case True
  then have "q = p" by (simp add: q_def removeExperience_def)
  then show ?thesis using True assms(1,2) by (auto intro!: exI [of _ 0])
next
  case False
  let ?e = "if sint (experience p - onLose e) < 0 then 0 else experience p - onLose e"
  let ?p = "p\<lparr>experience := ?e\<rparr>"
  have e: "uint ?e = max 0 (uint (experience p) - uint (onLose e))"
    using assms(3,4) bounded_difference by (simp add: sint_neg_u64)
  have lv: "1 \<le> uint (level p)" "uint (level p) \<le> MAX_LEVEL"
    using assms(1) by (auto simp: level_ok_def)
  obtain r c where r: "lose_levels v ?p (getExpForLevel (ucast (level ?p))) = (r, c)"
    by (cases "lose_levels v ?p (getExpForLevel (ucast (level ?p)))")
  have "uint (level p) < MAX_LEVEL \<longrightarrow> uint ?e < exp_at (uint (level p) + 1)"
  proof
    assume "uint (level p) < MAX_LEVEL"
    then have "uint (experience p) < exp_at (uint (level p) + 1)" using assms(1) by (simp add: level_ok_def)
    then show "uint ?e < exp_at (uint (level p) + 1)"
      unfolding e using uint_ge_0 [of "onLose e"] uint_ge_0 [of "experience p"] by linarith
  qed
  then have ok: "level_ok r \<and> experience r = experience ?p \<and> c = getExpForLevel (ucast (level r)) \<and>
    (\<exists>k. uint (level ?p) = uint (level r) + int k \<and>
      healthMax r = ((\<lambda>x. lose_max x (gainHP v)) ^^ k) (healthMax ?p) \<and>
      manaMax r = ((\<lambda>x. lose_max x (gainMana v)) ^^ k) (manaMax ?p) \<and>
      capacity r = ((\<lambda>x. lose_max x (gainCap v)) ^^ k) (capacity ?p))"
    using lv by (intro lose_levels_ok [OF r]) auto
  have q: "q = set_percent c (getExpForLevel (ucast (level r + 1))) (refill v pl (level p) r)"
    using r False assms(5,6) by (simp add: q_def removeExperience_def Let_def)
  have "level_ok (refill v pl (level p) r)" using ok by simp
  then have "level_ok q \<and> percent_ok q"
    unfolding q by (rule set_percent_ok) (use ok in auto)
  then show ?thesis
    using ok e by (simp add: q)
qed

text \<open>C27: Whatever the scripts make of the amounts, the level of a player is the one the table of experience
  gives to the experience, and the percentage is the rounded share of the way to the next level, before and
  after each gain and each loss, as long as the experience stays a 64-bit number when gained and a signed one
  when lost.\<close>

theorem level_matches_experience:
  assumes "level_ok p \<and> percent_ok p"
  shows "(uint (experience p) + uint (onGain e) < 2 ^ 64 \<longrightarrow>
      level_ok (addExperience pl onGain v e p) \<and> percent_ok (addExperience pl onGain v e p)) \<and>
    (uint (experience p) < 2 ^ 63 \<and> uint (onLose e) \<le> 2 ^ 63 \<longrightarrow>
      level_ok (removeExperience pl onLose v e p) \<and> percent_ok (removeExperience pl onLose v e p))"
proof (cases "experience p = 0 \<or> e = 0")
  case True
  then have "removeExperience pl onLose v e p = p" by (simp add: removeExperience_def)
  then show ?thesis using assms addExperience_facts [of p onGain e pl v] by auto
next
  case False
  then show ?thesis using assms addExperience_facts [of p onGain e pl v] removeExperience_facts [of p onLose e pl v] by auto
qed

definition knight :: progress where
  "knight = \<lparr>level = 8, experience = 4200, healthMax = 185, health = 100, manaMax = 90, mana = 20, capacity = 470,
     levelPercent = 0, var_max_health = 0, var_max_mana = 0, baseSpeed = 234, set_max_speed = False, in_party = False,
     calls = []\<rparr>"

definition knight_gains :: vocation_gains where
  "knight_gains = \<lparr>gainHP = 15, gainMana = 5, gainCap = 25, vocBaseSpeed = 220\<rparr>"

lemma knight_ok: "level_ok knight \<and> percent_ok knight"
  by (simp add: level_ok_def percent_ok_def knight_def exp_at_def)

theorem level_matches_experience_witness:
  "level_ok (addExperience 1 (\<lambda>x. x) knight_gains 5000 knight) \<and> level_ok (removeExperience 1 (\<lambda>x. x) knight_gains 4000 knight)"
  using level_matches_experience [OF knight_ok, of "\<lambda>x. x" 5000 1 knight_gains "\<lambda>x. x"]
    level_matches_experience [OF knight_ok, of "\<lambda>x. x" 4000 1 knight_gains "\<lambda>x. x"]
  by (simp add: knight_def)

lemma lose_max_restores:
  "uint x + int k * uint g < 2 ^ 31 \<Longrightarrow> ((\<lambda>x. lose_max x g) ^^ k) (x + of_nat k * g) = (x :: u32)"
proof (induction k)
  case 0
  then show ?case by simp
next
  case (Suc k)
  have bound: "uint x + int k * uint g < 2 ^ 31"
    using Suc.prems uint_ge_0 [of g] unfolding of_nat_Suc distrib_right by linarith
  have "uint (x + of_nat k * g) = uint x + int k * uint g"
  proof -
    have "x + of_nat k * g = word_of_int (uint x + int k * uint g)"
      by simp
    then have "uint (x + of_nat k * g) = (uint x + int k * uint g) mod 2 ^ LENGTH(32)"
      by (simp only: uint_word_of_int)
    then show ?thesis using bound by simp
  qed
  then have "\<not> sint (x + of_nat k * g) < 0"
    using bound by (simp add: sint_neg_u32)
  then have "lose_max (x + of_nat (Suc k) * g) g = x + of_nat k * g"
    by (simp add: lose_max_def algebra_simps)
  then show ?case
    using Suc.IH [OF bound] by (simp add: funpow_Suc_right del: funpow.simps)
qed

text \<open>C28: Losing the experience just gained undoes the gain: the level, the experience, the maxima of health
  and mana and the capacity are as before, provided that the maxima after the gain fit a signed number, that the
  experience does, and that the scripts change both amounts alike.\<close>

theorem gain_lose_roundtrip:
  assumes "level_ok p \<and> percent_ok p" and "uint (experience p) + uint (onGain e) < 2 ^ 63" and "e \<noteq> 0"
    and "onLose e = onGain e" and "q = addExperience pl onGain v e p"
    and "uint (healthMax p) + (uint (level q) - uint (level p)) * uint (gainHP v) < 2 ^ 31"
    and "uint (manaMax p) + (uint (level q) - uint (level p)) * uint (gainMana v) < 2 ^ 31"
    and "uint (capacity p) + (uint (level q) - uint (level p)) * uint (gainCap v) < 2 ^ 31"
  shows "(let r = removeExperience pl onLose v e q in
     level r = level p \<and> experience r = experience p \<and> healthMax r = healthMax p \<and> manaMax r = manaMax p \<and>
     capacity r = capacity p)"
proof -
  let ?r = "removeExperience pl onLose v e q"
  have small: "uint (experience p) < 2 ^ 63" "uint (onGain e) \<le> 2 ^ 63"
    using assms(2) uint_ge_0 [of "onGain e"] uint_ge_0 [of "experience p"] by linarith+
  have low: "uint (level p) \<noteq> MAX_LEVEL"
    using assms(1) small(1) by (auto simp: level_ok_def)
  have q: "level_ok q" "percent_ok q" "experience q = experience p + onGain e"
    and "\<exists>k. level q = level p + k \<and> healthMax q = healthMax p + k * gainHP v \<and>
      manaMax q = manaMax p + k * gainMana v \<and> capacity q = capacity p + k * gainCap v"
    and up: "uint (level p) \<le> uint (level q)"
    using addExperience_facts [of p onGain e pl v] assms(1,2,5) low by auto
  then obtain k where k: "level q = level p + k" "healthMax q = healthMax p + k * gainHP v"
      "manaMax q = manaMax p + k * gainMana v" "capacity q = capacity p + k * gainCap v"
    by blast
  have exp: "uint (experience q) = uint (experience p) + uint (onGain e)"
    using q(3) assms(2) by (simp add: uint_plus_if_size word_size)
  show ?thesis
  proof (cases "experience q = 0")
    case True
    then have "uint (experience p) + uint (onGain e) = 0" using exp by simp
    then have "uint (onGain e) = 0"
      using uint_ge_0 [of "onGain e"] uint_ge_0 [of "experience p"] by linarith
    then have "onGain e = 0" by (metis uint_0_eq word_uint_eq_iff)
    then have e: "experience q = experience p" using q(3) by simp
    then have l: "level q = level p" using level_ok_unique q(1) assms(1) by blast
    then have "k = 0" using k(1) by simp
    then show ?thesis using True e l k by (simp add: removeExperience_def)
  next
    case False
    then have r: "level_ok ?r" "uint (experience ?r) = uint (experience p)"
      and "\<exists>k. uint (level q) = uint (level ?r) + int k \<and>
        healthMax ?r = ((\<lambda>x. lose_max x (gainHP v)) ^^ k) (healthMax q) \<and>
        manaMax ?r = ((\<lambda>x. lose_max x (gainMana v)) ^^ k) (manaMax q) \<and>
        capacity ?r = ((\<lambda>x. lose_max x (gainCap v)) ^^ k) (capacity q)"
      using removeExperience_facts [of q onLose e pl v] q exp assms(2-4) small by auto
    then obtain j where j: "uint (level q) = uint (level ?r) + int j"
        "healthMax ?r = ((\<lambda>x. lose_max x (gainHP v)) ^^ j) (healthMax q)"
        "manaMax ?r = ((\<lambda>x. lose_max x (gainMana v)) ^^ j) (manaMax q)"
        "capacity ?r = ((\<lambda>x. lose_max x (gainCap v)) ^^ j) (capacity q)"
      by blast
    have e: "experience ?r = experience p" using r(2) by (simp only: word_uint_eq_iff)
    then have l: "level ?r = level p" using level_ok_unique r(1) assms(1) by blast
    have "level p + of_nat j = level q"
      using j(1) l by (metis word_of_int_uint of_int_add of_int_of_nat_eq)
    then have "k = of_nat j" using k(1) by simp
    moreover have "int j = uint (level q) - uint (level p)" using j(1) l by simp
    ultimately show ?thesis
      using assms(6-8) e l by (simp add: Let_def j(2-4) k(2-4) lose_max_restores)
  qed
qed

lemma gain_knight: "addExperience 1 (\<lambda>x. x) knight_gains 5000 knight = \<lparr>level = 9, experience = 9200, healthMax = 200,
    health = 200, manaMax = 95, mana = 95, capacity = 495, levelPercent = 96, var_max_health = 0, var_max_mana = 0,
    baseSpeed = 236, set_max_speed = False, in_party = False, calls = [ChangeSpeed, AddCreatureHealth, PlayerAdvance 8 9, SendStats]\<rparr>"
  by (simp add: knight_def knight_gains_def addExperience_def getExpForLevel_def gain_levels.simps set_percent_def
    refill_def updateBaseSpeed_def getMaxHealth_def getMaxMana_def getPercentLevel_def)

theorem gain_lose_roundtrip_witness:
  "level (removeExperience 1 (\<lambda>x. x) knight_gains 5000 (addExperience 1 (\<lambda>x. x) knight_gains 5000 knight)) = 8"
proof -
  have "(let r = removeExperience 1 (\<lambda>x. x) knight_gains 5000 (addExperience 1 (\<lambda>x. x) knight_gains 5000 knight) in
     level r = level knight \<and> experience r = experience knight \<and> healthMax r = healthMax knight \<and>
     manaMax r = manaMax knight \<and> capacity r = capacity knight)"
    by (rule gain_lose_roundtrip [OF knight_ok, of "\<lambda>x. x" 5000 "\<lambda>x. x"])
      (simp_all add: gain_knight, simp_all add: knight_def knight_gains_def)
  then show ?thesis by (simp add: Let_def knight_def)
qed

end
