(* ===== verification/Skills.thy ===== *)
theory Skills
  imports Levels
begin

text \<open>
  Skills and magic level of a player, \<open>addSkillAdvance\<close>, \<open>removeSkillTries\<close>, \<open>addManaSpent\<close> and
  \<open>removeManaSpent\<close> of \<open>src/src/player.cpp\<close>.  What a level costs is the parameter \<open>req\<close>, because the vocation
  computes it with floating-point powers; what scripts make of an amount is \<open>onGain\<close>.
\<close>

section \<open>Advancing\<close>


text \<open>The loop that turns tries into levels is the same for skills and for the magic level.  Its first result
  says whether it ended at the last level.\<close>

function advance_loop ::
  "('a::len word \<Rightarrow> u64) \<Rightarrow> 'a word \<Rightarrow> u64 \<Rightarrow> u64 \<Rightarrow> u64 \<Rightarrow> u64 \<Rightarrow> bool \<times> 'a word \<times> u64 \<times> u64 \<times> u64 \<times> u64" where
  "advance_loop req lv pts cnt currReq nextReq =
     (if pts + cnt \<ge> nextReq then
        let cnt = cnt - (nextReq - pts);
            lv = lv + 1;
            currReq = nextReq;
            nextReq = req (lv + 1)
        in if currReq \<ge> nextReq then (True, lv, 0, cnt, currReq, nextReq)
           else advance_loop req lv 0 cnt currReq nextReq
      else (False, lv, pts, cnt, currReq, nextReq))"
  by pat_completeness auto
termination
  by (relation "measure (\<lambda>(req, lv, pts, cnt, currReq, nextReq). 2 ^ 64 - unat nextReq)")
    (auto simp: word_less_nat_alt not_le Let_def intro!: diff_less_mono2 unat_u64_less)

declare advance_loop.simps [simp del]


record magic =
  manaSpent :: u64
  magLevel :: u32
  magLevelPercent :: u8

definition addManaSpent :: "(u32 \<Rightarrow> u64) \<Rightarrow> (u64 \<Rightarrow> u64) \<Rightarrow> bool \<Rightarrow> u64 \<Rightarrow> magic \<Rightarrow> magic" where
  "addManaSpent req onGain notGainMana amount m =
     (if notGainMana then m
      else
        let currReqMana = req (magLevel m);
            nextReqMana = req (magLevel m + 1)
        in if currReqMana \<ge> nextReqMana then m
           else
             let amount = onGain amount
             in if amount = 0 then m
                else
                  let (maxed, lv, pts, amount, currReqMana, nextReqMana) =
                        advance_loop req (magLevel m) (manaSpent m) amount currReqMana nextReqMana
                  in if maxed then m\<lparr>magLevel := lv, manaSpent := pts\<rparr>
                     else let pts = pts + amount
                       in \<lparr>manaSpent = pts, magLevel = lv,
                           magLevelPercent = (if nextReqMana > currReqMana then getPercentLevel pts nextReqMana else 0)\<rparr>)"

section \<open>Losing\<close>






function mana_down :: "(u32 \<Rightarrow> u64) \<Rightarrow> u32 \<Rightarrow> u64 \<Rightarrow> u64 \<Rightarrow> u32 \<times> u64 \<times> u64" where
  "mana_down req lv pts amount =
     (if amount > pts \<and> lv > 0 then mana_down req (lv - 1) (req lv) (amount - pts) else (lv, pts, amount))"
  by pat_completeness auto
termination
  by (relation "measure (\<lambda>(req, lv, pts, amount). unat lv)") (auto simp: word_less_nat_alt unat_sub_if')

declare mana_down.simps [simp del]

definition removeManaSpent :: "(u32 \<Rightarrow> u64) \<Rightarrow> u64 \<Rightarrow> magic \<Rightarrow> magic" where
  "removeManaSpent req amount m =
     (if amount = 0 then m
      else
        let (lv, pts, amount) = mana_down req (magLevel m) (manaSpent m) amount;
            pts = pts - amount;
            nextReqMana = req (lv + 1)
        in \<lparr>manaSpent = pts, magLevel = lv,
            magLevelPercent = (if nextReqMana > req lv then getPercentLevel pts nextReqMana else 0)\<rparr>)"

section \<open>Points in total\<close>

text \<open>The points that all levels above \<open>base\<close> have cost, with those collected towards the next one.\<close>

definition total_points :: "('a::len word \<Rightarrow> u64) \<Rightarrow> nat \<Rightarrow> 'a word \<Rightarrow> u64 \<Rightarrow> nat" where
  "total_points req base lv pts = (\<Sum>k = base + 1..unat lv. unat (req (of_nat k))) + unat pts"

lemma unat_pred: "lv \<noteq> 0 \<Longrightarrow> unat lv = Suc (unat (lv - 1))" for lv :: "'a::len word"
  by (metis Suc_eq_plus1 add.commute diff_add_cancel unatSuc)

lemma total_points_Suc:
  assumes "base \<le> unat lv" "lv + 1 \<noteq> 0"
  shows "total_points req base (lv + 1) pts = total_points req base lv 0 + unat (req (lv + 1)) + unat pts"
proof -
  have u: "unat (lv + 1) = Suc (unat lv)"
    using assms(2) by (metis Suc_eq_plus1 add.commute unatSuc)
  have "of_nat (Suc (unat lv)) = lv + 1" by simp
  then show ?thesis
    using assms(1) unfolding total_points_def u by (simp add: sum.nat_ivl_Suc' add.commute)
qed

lemma total_points_0: "total_points req base lv pts = total_points req base lv 0 + unat pts"
  by (simp add: total_points_def)


lemma total_points_pred:
  assumes "base < unat lv"
  shows "total_points req base lv pts = total_points req base (lv - 1) (req lv) + unat pts"
proof -
  have "lv \<noteq> 0" using assms by auto
  then have u: "unat lv = Suc (unat (lv - 1))" by (rule unat_pred)
  then show ?thesis
    using assms total_points_Suc [of base "lv - 1" req pts] total_points_0 [of req base "lv - 1" "req lv"] \<open>lv \<noteq> 0\<close>
    by simp
qed

lemma total_points_sub:
  "c \<le> p \<Longrightarrow> total_points req base lv (p - c) = total_points req base lv p - unat c"
  by (simp add: total_points_def unat_sub word_le_nat_alt)


lemma mana_down_total:
  assumes "mana_down req lv pts amount = (lv', pts', amount')"
  shows "(amount' \<le> pts' \<or> lv' = 0) \<and> lv' \<le> lv \<and>
    int (total_points req 0 lv' pts') - uint amount' = int (total_points req 0 lv pts) - uint amount"
  using assms
proof (induction req lv pts amount arbitrary: lv' pts' amount' rule: mana_down.induct)
  case (1 req lv pts amount)
  show ?case
  proof (cases "amount > pts \<and> lv > 0")
    case False
    then have "lv' = lv" "pts' = pts" "amount' = amount"
      using 1(2) by (auto simp: mana_down.simps [of req lv pts amount])
    then show ?thesis using False by (auto simp: word_gt_0 not_less)
  next
    case True
    then have rec: "mana_down req (lv - 1) (req lv) (amount - pts) = (lv', pts', amount')"
      using 1(2) by (simp add: mana_down.simps [of req lv pts amount])
    have gt: "0 < unat lv" using True by (simp add: word_less_nat_alt)
    then have pred: "unat lv = Suc (unat (lv - 1))" by (intro unat_pred) auto
    have "uint (amount - pts) = uint amount - uint pts"
      using True by (simp add: uint_sub_if_size word_less_def)
    then show ?thesis
      using 1(1) [OF True rec] total_points_pred [OF gt, of req pts] pred by (simp add: word_le_nat_alt)
  qed
qed









text \<open>Taking more mana off than a player has ever spent ends at magic level 0 with the spent mana wrapped
  around, just below 2 to the 64; up to that amount exactly the points taken are missing.\<close>

theorem mana_underflow:
  "(let r = removeManaSpent req amount m; t = total_points req 0 (magLevel m) (manaSpent m) in
     if unat amount \<le> t then total_points req 0 (magLevel r) (manaSpent r) = t - unat amount
     else magLevel r = 0 \<and> uint (manaSpent r) = 2 ^ 64 - (uint amount - int t))"
proof (cases "amount = 0")
  case True
  then show ?thesis by (simp add: removeManaSpent_def)
next
  case False
  obtain lv pts n where l: "mana_down req (magLevel m) (manaSpent m) amount = (lv, pts, n)"
    by (metis prod_cases3)
  note facts = mana_down_total [OF l]
  have r: "magLevel (removeManaSpent req amount m) = lv" "manaSpent (removeManaSpent req amount m) = pts - n"
    using False l by (simp_all add: removeManaSpent_def Let_def)
  show ?thesis
  proof (cases "n \<le> pts")
    case True
    then have "uint n \<le> uint pts" by (simp add: word_le_def)
    then have le: "unat n \<le> unat pts" by (simp add: True word_le_nat_alt [symmetric])
    have "unat pts \<le> total_points req 0 lv pts" by (simp add: total_points_def)
    moreover have "int (total_points req 0 lv pts) - int (unat n) =
        int (total_points req 0 (magLevel m) (manaSpent m)) - int (unat amount)"
      using facts by simp
    ultimately have "unat amount \<le> total_points req 0 (magLevel m) (manaSpent m)"
      and "total_points req 0 lv pts - unat n = total_points req 0 (magLevel m) (manaSpent m) - unat amount"
      using le by linarith+
    then show ?thesis
      using total_points_sub [OF True, of req 0 lv] by (simp add: r Let_def)
  next
    case False
    then have lv: "lv = 0" using facts by simp
    then have "int (unat pts) - int (unat n) = int (total_points req 0 (magLevel m) (manaSpent m)) - int (unat amount)"
      using facts by (simp add: total_points_def)
    moreover have "unat pts < unat n" using False by (simp add: word_le_nat_alt)
    ultimately have "\<not> unat amount \<le> total_points req 0 (magLevel m) (manaSpent m)"
      by linarith
    moreover have "uint pts - uint n = int (total_points req 0 (magLevel m) (manaSpent m)) - uint amount"
      using facts lv by (simp add: total_points_def)
    moreover have "uint (pts - n) = uint pts - uint n + 2 ^ 64"
      using False by (simp add: uint_sub_if_size word_size word_le_def)
    ultimately show ?thesis by (simp add: r lv Let_def)
  qed
qed

end
