(* ===== verification/Trade.thy ===== *)
theory Trade
  imports Prelude Positions ReturnValues "HOL-Library.AList"
begin

text \<open>
  Trading between two players: \<open>playerRequestTrade\<close>, \<open>internalStartTrade\<close>, \<open>playerAcceptTrade\<close>,
  \<open>playerCloseTrade\<close> and \<open>internalCloseTrade\<close> of \<open>src/src/game.cpp\<close>, with the callbacks of
  \<open>player.cpp\<close> that close a trade.  Players and items are numbers, a null pointer is \<open>None\<close>; an operation
  that would dereference a null pointer has the result \<open>None\<close>.  What the world answers (sights, items, the results
  of moving items, the event scripts) is the record \<open>trade_env\<close>.
\<close>

section \<open>State\<close>

datatype (plugins only: size) tradestate =
  TRADE_NONE | TRADE_INITIATED | TRADE_ACCEPT | TRADE_ACKNOWLEDGE | TRADE_TRANSFER

datatype tradeevent = ON_TRADE_TRANSFER | ON_TRADE_CANCEL

datatype trade_note =
    CancelMessage nat string
  | ItemRequest nat nat "nat option" bool
  | WantsToTrade nat nat
  | TradeClose nat
  | TradeCancelled nat
  | ErrorText nat string
  | OnTradeEvent nat tradeevent nat
  | MoveItem nat nat
  | TradeCompleted nat nat nat nat bool
  | WalkTo nat

record trader =
  tradeState :: tradestate
  tradePartner :: "nat option"
  tradeItem :: "nat option"
  trader_pos :: position
  logged_in :: bool

record trades =
  trader_of :: "nat \<Rightarrow> trader"
  tradeItems :: "(nat \<times> nat) list"
  referenceCounter :: "nat \<Rightarrow> nat"
  toReleaseItems :: "nat list"
  trade_notes :: "trade_note list"

record trade_env =
  canThrow :: "position \<Rightarrow> position \<Rightarrow> bool"
  onTradeRequest :: "nat \<Rightarrow> nat \<Rightarrow> nat \<Rightarrow> bool"
  onTradeAccept :: "(nat \<Rightarrow> nat \<Rightarrow> nat \<Rightarrow> nat \<Rightarrow> bool) option"
  onTradeCompleted :: bool
  backpack :: "nat \<Rightarrow> nat option"
  slot_taken :: "nat \<Rightarrow> nat \<Rightarrow> bool"
  add_test :: "nat \<Rightarrow> nat \<Rightarrow> returnvalue"
  remove_test :: "nat \<Rightarrow> returnvalue"
  move_item :: "nat \<Rightarrow> nat \<Rightarrow> nat option \<Rightarrow> returnvalue"
  plural :: "nat \<Rightarrow> bool"
  weight_text :: "nat \<Rightarrow> string"
  requested :: "nat option"
  tradeable :: "nat \<Rightarrow> bool"
  not_invited :: "nat \<Rightarrow> nat \<Rightarrow> bool"
  item_pos :: "nat \<Rightarrow> position"
  has_path :: bool
  is_container :: "nat \<Rightarrow> bool"
  isHoldingItem :: "nat \<Rightarrow> nat \<Rightarrow> bool"
  holdingCount :: "nat \<Rightarrow> nat"
  parents :: "nat \<Rightarrow> nat list"

definition tell_trade :: "trade_note list \<Rightarrow> trades \<Rightarrow> trades" where
  "tell_trade ns w = w\<lparr>trade_notes := trade_notes w @ ns\<rparr>"

definition upd_trader :: "nat \<Rightarrow> (trader \<Rightarrow> trader) \<Rightarrow> trades \<Rightarrow> trades" where
  "upd_trader p f w = w\<lparr>trader_of := (trader_of w)(p := f (trader_of w p))\<rparr>"

definition setTradeState :: "tradestate \<Rightarrow> nat \<Rightarrow> trades \<Rightarrow> trades" where
  "setTradeState s p = upd_trader p (\<lambda>t. t\<lparr>tradeState := s\<rparr>)"

definition ReleaseItem :: "nat \<Rightarrow> trades \<Rightarrow> trades" where
  "ReleaseItem i w = w\<lparr>toReleaseItems := toReleaseItems w @ [i]\<rparr>"

text \<open>\<open>tradeItems.find\<close>, and if it is there, release and erase; a null pointer is never a key.\<close>

definition drop_trade_item :: "nat option \<Rightarrow> trades \<Rightarrow> trades" where
  "drop_trade_item item w =
     (case item of None \<Rightarrow> w
      | Some i \<Rightarrow> if map_of (tradeItems w) i \<noteq> None
                  then (ReleaseItem i w)\<lparr>tradeItems := AList.delete i (tradeItems w)\<rparr> else w)"

text \<open>The part of \<open>Game::cleanup\<close> that drops the references to items.\<close>

definition cleanup_items :: "trades \<Rightarrow> trades" where
  "cleanup_items w =
     w\<lparr>referenceCounter := fold (\<lambda>i rc. rc(i := rc i - 1)) (toReleaseItems w) (referenceCounter w), toReleaseItems := []\<rparr>"

section \<open>Closing\<close>

definition no_trade :: "nat \<Rightarrow> trades \<Rightarrow> trades" where
  "no_trade p = upd_trader p (\<lambda>t. t\<lparr>tradeState := TRADE_NONE, tradePartner := None, tradeItem := None\<rparr>)"

text \<open>One side of \<open>internalCloseTrade\<close>\<close>

definition close_side :: "bool \<Rightarrow> nat \<Rightarrow> trades \<Rightarrow> trades" where
  "close_side sendCancel p w =
     (let w = (case tradeItem (trader_of w p) of None \<Rightarrow> w
               | Some i \<Rightarrow> tell_trade [OnTradeEvent i ON_TRADE_CANCEL p] (drop_trade_item (Some i) w))
      in tell_trade ((if sendCancel then [TradeCancelled p] else []) @ [TradeClose p]) (no_trade p w))"

definition internalCloseTrade :: "bool \<Rightarrow> nat \<Rightarrow> trades \<Rightarrow> trades" where
  "internalCloseTrade sendCancel p w =
     (let partner = tradePartner (trader_of w p)
      in if (case partner of None \<Rightarrow> False | Some q \<Rightarrow> tradeState (trader_of w q) = TRADE_TRANSFER) \<or>
            tradeState (trader_of w p) = TRADE_TRANSFER then w
         else
           let w = close_side sendCancel p w
           in case partner of None \<Rightarrow> w | Some q \<Rightarrow> close_side sendCancel q w)"

definition playerCloseTrade :: "nat \<Rightarrow> trades \<Rightarrow> trades" where
  "playerCloseTrade p w = (if logged_in (trader_of w p) then internalCloseTrade True p w else w)"

section \<open>Starting\<close>

definition internalStartTrade :: "nat \<Rightarrow> nat \<Rightarrow> nat \<Rightarrow> trades \<Rightarrow> bool \<times> trades" where
  "internalStartTrade p q i w =
     (let P = trader_of w p; Q = trader_of w q
      in if tradeState P \<noteq> TRADE_NONE \<and> \<not> (tradeState P = TRADE_ACKNOWLEDGE \<and> tradePartner P = Some q)
         then (False, tell_trade [CancelMessage p (getReturnMessage RETURNVALUE_YOUAREALREADYTRADING)] w)
         else if tradeState Q \<noteq> TRADE_NONE \<and> tradePartner Q \<noteq> Some p
         then (False, tell_trade [CancelMessage p (getReturnMessage RETURNVALUE_THISPLAYERISALREADYTRADING)] w)
         else
           let w = upd_trader p (\<lambda>t. t\<lparr>tradePartner := Some q, tradeItem := Some i, tradeState := TRADE_INITIATED\<rparr>) w;
               w = w\<lparr>referenceCounter := (referenceCounter w)(i := referenceCounter w i + 1),
                     tradeItems := AList.update i p (tradeItems w)\<rparr>;
               w = tell_trade [ItemRequest p p (Some i) True] w
           in (True,
             if tradeState (trader_of w q) = TRADE_NONE
             then upd_trader q (\<lambda>t. t\<lparr>tradeState := TRADE_ACKNOWLEDGE, tradePartner := Some p\<rparr>) (tell_trade [WantsToTrade q p] w)
             else tell_trade [ItemRequest p q (tradeItem (trader_of w q)) False, ItemRequest q p (Some i) False] w))"

text \<open>The three tests against the items already in trade\<close>

definition already_traded :: "trade_env \<Rightarrow> nat list \<Rightarrow> nat \<Rightarrow> bool" where
  "already_traded env its i =
     list_ex (\<lambda>j. i = j \<or> (is_container env i \<and> isHoldingItem env i j) \<or> (is_container env j \<and> isHoldingItem env j i)) its"

definition playerRequestTrade :: "trade_env \<Rightarrow> nat \<Rightarrow> nat \<Rightarrow> trades \<Rightarrow> trades" where
  "playerRequestTrade env p q w =
     (let P = trader_of w p; Q = trader_of w q; cancel = (\<lambda>r. tell_trade [CancelMessage p r] w)
      in if \<not> logged_in P then w
         else if \<not> logged_in Q \<or> q = p then cancel ''Select a player to trade with.''
         else if \<not> areInRange3 2 2 0 (trader_pos Q) (trader_pos P)
         then cancel (getReturnMessage RETURNVALUE_DESTINATIONOUTOFREACH)
         else if \<not> canThrow env (trader_pos Q) (trader_pos P) then cancel (getReturnMessage RETURNVALUE_CANNOTTHROW)
         else case requested env of
           None \<Rightarrow> cancel (getReturnMessage RETURNVALUE_NOTPOSSIBLE)
         | Some i \<Rightarrow>
             if \<not> tradeable env i then cancel (getReturnMessage RETURNVALUE_NOTPOSSIBLE)
             else if not_invited env p i then cancel (getReturnMessage RETURNVALUE_PLAYERISNOTINVITED)
             else if getZ (trader_pos P) \<noteq> getZ (item_pos env i)
             then cancel (getReturnMessage (if getZ (trader_pos P) > getZ (item_pos env i)
                    then RETURNVALUE_FIRSTGOUPSTAIRS else RETURNVALUE_FIRSTGODOWNSTAIRS))
             else if \<not> areInRange 1 1 (item_pos env i) (trader_pos P)
             then if has_path env then tell_trade [WalkTo p] w else cancel (getReturnMessage RETURNVALUE_THEREISNOWAY)
             else if already_traded env (map fst (tradeItems w)) i then cancel ''This item is already being traded.''
             else if is_container env i \<and> holdingCount env i + 1 > 100
             then cancel ''You can only trade up to 100 objects at once.''
             else if \<not> onTradeRequest env p q i then w
             else snd (internalStartTrade p q i w))"

section \<open>Accepting\<close>

text \<open>The two events of \<open>events.cpp\<close> dereference both items (\<open>setItemMetatable\<close>) when their script is registered.\<close>

definition eventPlayerOnTradeAccept :: "trade_env \<Rightarrow> nat \<Rightarrow> nat \<Rightarrow> nat option \<Rightarrow> nat option \<Rightarrow> bool option" where
  "eventPlayerOnTradeAccept env p q a b =
     (case onTradeAccept env of None \<Rightarrow> Some True
      | Some f \<Rightarrow> (case (a, b) of (Some i, Some j) \<Rightarrow> Some (f p q i j) | _ \<Rightarrow> None))"

definition eventPlayerOnTradeCompleted :: "trade_env \<Rightarrow> nat \<Rightarrow> nat \<Rightarrow> nat option \<Rightarrow> nat option \<Rightarrow> bool \<Rightarrow> trades \<Rightarrow> trades option" where
  "eventPlayerOnTradeCompleted env p q a b success w =
     (if \<not> onTradeCompleted env then Some w
      else case (a, b) of (Some i, Some j) \<Rightarrow> Some (tell_trade [TradeCompleted p q i j success] w) | _ \<Rightarrow> None)"

definition getTradeErrorDescription :: "trade_env \<Rightarrow> returnvalue \<Rightarrow> nat option \<Rightarrow> string" where
  "getTradeErrorDescription env ret item =
     (let carry = (\<lambda>i. if plural env i then ''these objects'' else ''this object'')
      in case item of None \<Rightarrow> ''Trade could not be completed.''
         | Some i \<Rightarrow>
             if ret = RETURNVALUE_NOTENOUGHCAPACITY
             then ''You do not have enough capacity to carry '' @ carry i @ ''.'' @ [char_of (10 :: nat)] @ '' '' @ weight_text env i
             else if ret = RETURNVALUE_NOTENOUGHROOM \<or> ret = RETURNVALUE_CONTAINERNOTENOUGHROOM
             then ''You do not have enough room to carry '' @ carry i @ ''.''
             else ''Trade could not be completed.'')"

text \<open>What becomes of a player who gives the backpack slot's item: \<open>x\<close> owns the slot, \<open>given\<close> leaves it and
  \<open>got\<close> must find its slot free; its type is read from the item.\<close>

definition backpack_test :: "trade_env \<Rightarrow> nat \<Rightarrow> nat option \<Rightarrow> nat option \<Rightarrow> returnvalue option" where
  "backpack_test env x given got =
     (if backpack env x = given
      then (case got of None \<Rightarrow> None
            | Some i \<Rightarrow> Some (if slot_taken env x i then RETURNVALUE_NOTENOUGHROOM else RETURNVALUE_NOERROR))
      else Some RETURNVALUE_NOERROR)"

definition internalAddItem_test :: "trade_env \<Rightarrow> nat \<Rightarrow> nat option \<Rightarrow> returnvalue" where
  "internalAddItem_test env x item = (case item of None \<Rightarrow> RETURNVALUE_NOTPOSSIBLE | Some i \<Rightarrow> add_test env x i)"

text \<open>The tests and the two moves; the result is both return values, what happened and whether the exchange
  counts as a success.  \<open>MoveItem i q\<close> stands for an \<open>internalMoveItem\<close> of \<open>i\<close> to \<open>q\<close> that returned without an
  error.  The code ignores the result of the second move: whatever it is, the exchange is a
  success and both items are told that they changed hands.\<close>

definition exchange ::
  "trade_env \<Rightarrow> nat \<Rightarrow> nat \<Rightarrow> nat option \<Rightarrow> nat option \<Rightarrow> returnvalue \<Rightarrow> returnvalue \<Rightarrow> returnvalue \<times> returnvalue \<times> trade_note list \<times> bool" where
  "exchange env p q a b partnerRet playerRet =
     (let ok = (\<lambda>r s. r = RETURNVALUE_NOERROR \<and> s = RETURNVALUE_NOERROR)
      in if \<not> ok partnerRet playerRet then (partnerRet, playerRet, [], False)
         else
           let partnerRet = internalAddItem_test env q a; playerRet = internalAddItem_test env p b
           in case (a, b) of
                (Some i, Some j) \<Rightarrow>
                  if \<not> ok partnerRet playerRet then (partnerRet, playerRet, [], False)
                  else
                    let playerRet = remove_test env i; partnerRet = remove_test env j
                    in if \<not> ok partnerRet playerRet then (partnerRet, playerRet, [], False)
                       else
                         let partnerRet = move_item env i q (Some j)
                         in if partnerRet \<noteq> RETURNVALUE_NOERROR then (partnerRet, playerRet, [], False)
                            else (partnerRet, playerRet,
                              MoveItem i q # (if move_item env j p None = RETURNVALUE_NOERROR then [MoveItem j p] else []) @
                              [OnTradeEvent i ON_TRADE_TRANSFER q, OnTradeEvent j ON_TRADE_TRANSFER p],
                              True)
              | _ \<Rightarrow> (partnerRet, playerRet, [], False))"

definition failure_notes :: "trade_env \<Rightarrow> nat \<Rightarrow> nat option \<Rightarrow> returnvalue \<Rightarrow> nat option \<Rightarrow> trade_note list" where
  "failure_notes env x own ret other =
     (case own of None \<Rightarrow> []
      | Some i \<Rightarrow> [ErrorText x (getTradeErrorDescription env ret other), OnTradeEvent i ON_TRADE_CANCEL x])"

definition transfer :: "trade_env \<Rightarrow> nat \<Rightarrow> nat \<Rightarrow> trades \<Rightarrow> trades option" where
  "transfer env p q w =
     (let a = tradeItem (trader_of w p); b = tradeItem (trader_of w q);
          w = setTradeState TRADE_TRANSFER q (setTradeState TRADE_TRANSFER p w);
          w = drop_trade_item b (drop_trade_item a w)
      in case backpack_test env q b a of
           None \<Rightarrow> None
         | Some partnerRet \<Rightarrow>
             (case backpack_test env p a b of
                None \<Rightarrow> None
              | Some playerRet \<Rightarrow>
                  let playerRet = (if backpack env p = a \<and> backpack env q = b then RETURNVALUE_NOTENOUGHROOM else playerRet);
                      (partnerRet, playerRet, moves, success) = exchange env p q a b partnerRet playerRet;
                      w = tell_trade moves w;
                      w = (if success then w
                           else tell_trade (failure_notes env q b partnerRet a @ failure_notes env p a playerRet b) w)
                  in case eventPlayerOnTradeCompleted env p q a b success w of
                       None \<Rightarrow> None
                     | Some w \<Rightarrow> Some (tell_trade [TradeClose q] (no_trade q (tell_trade [TradeClose p] (no_trade p w))))))"

definition playerAcceptTrade :: "trade_env \<Rightarrow> nat \<Rightarrow> trades \<Rightarrow> trades option" where
  "playerAcceptTrade env p w =
     (if \<not> logged_in (trader_of w p) then Some w
      else if \<not> (tradeState (trader_of w p) = TRADE_ACKNOWLEDGE \<or> tradeState (trader_of w p) = TRADE_INITIATED) then Some w
      else case tradePartner (trader_of w p) of
        None \<Rightarrow> Some w
      | Some q \<Rightarrow>
          let w = setTradeState TRADE_ACCEPT p w
          in if tradeState (trader_of w q) \<noteq> TRADE_ACCEPT then Some w
             else if \<not> canThrow env (trader_pos (trader_of w q)) (trader_pos (trader_of w p))
             then Some (tell_trade [CancelMessage p (getReturnMessage RETURNVALUE_CANNOTTHROW),
                                    CancelMessage q (getReturnMessage RETURNVALUE_CANNOTTHROW)] (internalCloseTrade False p w))
             else case eventPlayerOnTradeAccept env p q (tradeItem (trader_of w p)) (tradeItem (trader_of w q)) of
                    None \<Rightarrow> None
                  | Some False \<Rightarrow> Some (internalCloseTrade False p w)
                  | Some True \<Rightarrow> transfer env p q w)"

section \<open>Callbacks that close a trade\<close>

definition checkTradeState :: "trade_env \<Rightarrow> nat \<Rightarrow> nat \<Rightarrow> trades \<Rightarrow> trades" where
  "checkTradeState env p i w =
     (let t = trader_of w p
      in case tradeItem t of None \<Rightarrow> w
         | Some j \<Rightarrow>
             if tradeState t = TRADE_TRANSFER then w
             else if j = i \<or> j \<in> set (parents env i) then internalCloseTrade True p w else w)"

text \<open>\<open>onRemoveTileItem\<close> and \<open>onRemoveInventoryItem\<close>\<close>

definition onRemoveItem :: "trade_env \<Rightarrow> nat \<Rightarrow> nat \<Rightarrow> trades \<Rightarrow> trades" where
  "onRemoveItem env p i w =
     (if tradeState (trader_of w p) = TRADE_TRANSFER then w
      else
        let w = checkTradeState env p i w
        in case tradeItem (trader_of w p) of None \<Rightarrow> w
           | Some j \<Rightarrow> if is_container env i \<and> isHoldingItem env i j then internalCloseTrade True p w else w)"

definition onUpdateTileItem :: "trade_env \<Rightarrow> nat \<Rightarrow> nat \<Rightarrow> nat \<Rightarrow> trades \<Rightarrow> trades" where
  "onUpdateTileItem env p oldItem newItem w =
     (let w = (if oldItem \<noteq> newItem then onRemoveItem env p oldItem w else w)
      in if tradeState (trader_of w p) \<noteq> TRADE_TRANSFER \<and> tradeItem (trader_of w p) = Some oldItem
         then internalCloseTrade True p w else w)"

definition onRemoveContainerItem :: "trade_env \<Rightarrow> nat \<Rightarrow> nat \<Rightarrow> nat \<Rightarrow> trades \<Rightarrow> trades" where
  "onRemoveContainerItem env p c i w =
     (if tradeState (trader_of w p) = TRADE_TRANSFER then w
      else
        let w = checkTradeState env p i w
        in case tradeItem (trader_of w p) of None \<Rightarrow> w
           | Some j \<Rightarrow>
               if (parents env j = [] \<or> hd (parents env j) \<noteq> c) \<and> isHoldingItem env c j
               then internalCloseTrade True p w else w)"

definition onUpdateContainerItem :: "trade_env \<Rightarrow> nat \<Rightarrow> nat \<Rightarrow> nat \<Rightarrow> nat \<Rightarrow> trades \<Rightarrow> trades" where
  "onUpdateContainerItem env p c oldItem newItem w =
     (let w = (if oldItem \<noteq> newItem then onRemoveContainerItem env p c oldItem w else w)
      in if tradeState (trader_of w p) \<noteq> TRADE_TRANSFER then checkTradeState env p oldItem w else w)"

definition onUpdateInventoryItem :: "trade_env \<Rightarrow> nat \<Rightarrow> nat \<Rightarrow> nat \<Rightarrow> trades \<Rightarrow> trades" where
  "onUpdateInventoryItem env p oldItem newItem w =
     (let w = (if oldItem \<noteq> newItem then onRemoveItem env p oldItem w else w)
      in if tradeState (trader_of w p) \<noteq> TRADE_TRANSFER then checkTradeState env p oldItem w else w)"

text \<open>The player \<open>p\<close> moves to \<open>newPos\<close>: the part of \<open>Player::onCreatureMove\<close> that looks at the trade.\<close>

definition trader_moves :: "trade_env \<Rightarrow> nat \<Rightarrow> position \<Rightarrow> trades \<Rightarrow> trades" where
  "trader_moves env p newPos w =
     (let w = upd_trader p (\<lambda>t. t\<lparr>trader_pos := newPos\<rparr>) w
      in if tradeState (trader_of w p) = TRADE_TRANSFER then w
         else
           let w = (case tradeItem (trader_of w p) of None \<Rightarrow> w
                    | Some i \<Rightarrow> if \<not> areInRange3 1 1 0 (item_pos env i) newPos then internalCloseTrade True p w else w)
           in case tradePartner (trader_of w p) of None \<Rightarrow> w
              | Some q \<Rightarrow> if \<not> areInRange3 2 2 0 (trader_pos (trader_of w q)) newPos
                          then internalCloseTrade True p w else w)"

text \<open>The part of \<open>Player::onRemoveCreature\<close> that looks at the trade, and the login of a fresh player.\<close>

definition trader_leaves :: "nat \<Rightarrow> trades \<Rightarrow> trades" where
  "trader_leaves p w =
     upd_trader p (\<lambda>t. t\<lparr>logged_in := False\<rparr>)
       (if tradePartner (trader_of w p) \<noteq> None then internalCloseTrade True p w else w)"

definition new_trader :: "position \<Rightarrow> trader" where
  "new_trader pos = \<lparr>tradeState = TRADE_NONE, tradePartner = None, tradeItem = None, trader_pos = pos, logged_in = True\<rparr>"

section \<open>What holds between operations\<close>

text \<open>The partners point at each other, are online and stand close together.\<close>

definition partners_linked :: "(nat \<Rightarrow> trader) \<Rightarrow> bool" where
  "partners_linked f \<longleftrightarrow> (\<forall>p q. tradePartner (f p) = Some q \<longrightarrow>
     tradePartner (f q) = Some p \<and> p \<noteq> q \<and> logged_in (f p) \<and> areInRange3 2 2 0 (trader_pos (f p)) (trader_pos (f q)))"

definition trader_ok :: "trader \<Rightarrow> bool" where
  "trader_ok t \<longleftrightarrow> (tradePartner t = None \<longleftrightarrow> tradeState t = TRADE_NONE) \<and> tradeState t \<noteq> TRADE_TRANSFER \<and>
     (tradeState t = TRADE_INITIATED \<longrightarrow> tradeItem t \<noteq> None) \<and>
     (tradeState t = TRADE_ACKNOWLEDGE \<or> tradeState t = TRADE_NONE \<longrightarrow> tradeItem t = None)"

definition pair_ok :: "trader \<Rightarrow> trader \<Rightarrow> bool" where
  "pair_ok s t \<longleftrightarrow> (tradeItem s \<noteq> None \<or> tradeItem t \<noteq> None) \<and> \<not> (tradeState s = TRADE_ACCEPT \<and> tradeState t = TRADE_ACCEPT)"

text \<open>The map of items in trade lists exactly the items the players offer, and each item has one reference for
  being listed and one for each time it waits to be released.\<close>

definition books :: "(nat \<times> nat) list \<Rightarrow> (nat \<Rightarrow> nat option) \<Rightarrow> (nat \<Rightarrow> nat) \<Rightarrow> nat list \<Rightarrow> bool" where
  "books its f rc rel \<longleftrightarrow> distinct (map fst its) \<and> (\<forall>i p. map_of its i = Some p \<longleftrightarrow> f p = Some i) \<and>
     (\<forall>i. rc i = (if map_of its i = None then 0 else 1) + count_list rel i)"

definition trades_ok :: "trades \<Rightarrow> bool" where
  "trades_ok w \<longleftrightarrow> partners_linked (trader_of w) \<and> (\<forall>p. trader_ok (trader_of w p)) \<and>
     (\<forall>p q. tradePartner (trader_of w p) = Some q \<longrightarrow> pair_ok (trader_of w p) (trader_of w q)) \<and>
     books (tradeItems w) (\<lambda>p. tradeItem (trader_of w p)) (referenceCounter w) (toReleaseItems w)"

lemma books_drop:
  assumes "books its f rc rel" "f p = Some i"
  shows "books (AList.delete i its) (f(p := None)) rc (rel @ [i])"
proof -
  have its: "distinct (map fst its)" "\<And>j q. map_of its j = Some q \<longleftrightarrow> f q = Some j"
      "\<And>j. rc j = (if map_of its j = None then 0 else 1) + count_list rel j"
    using assms(1) by (auto simp: books_def)
  have i: "map_of its i = Some p" using its(2) assms(2) by blast
  have del: "map_of (AList.delete i its) = (map_of its)(i := None)" by (rule AList.delete_conv')
  have "map_of (AList.delete i its) j = Some q \<longleftrightarrow> (f(p := None)) q = Some j" for j q
  proof (cases "j = i")
    case True
    then show ?thesis using i its(2) [of i q] by (auto simp: del)
  next
    case False
    then show ?thesis using its(2) [of j q] assms(2) by (auto simp: del)
  qed
  moreover have "rc j = (if map_of (AList.delete i its) j = None then 0 else 1) + count_list (rel @ [i]) j" for j
    using its(3) [of j] i by (auto simp: del)
  ultimately show ?thesis
    using AList.distinct_delete [OF its(1), of i] by (auto simp: books_def)
qed

lemma drop_trade_item_trader [simp]:
  "trader_of (drop_trade_item x w) = trader_of w" "referenceCounter (drop_trade_item x w) = referenceCounter w"
  by (simp_all add: drop_trade_item_def ReleaseItem_def split: option.split)

lemma drop_trade_item_books:
  assumes "books (tradeItems w) f rc (toReleaseItems w)" "x = f p"
  shows "books (tradeItems (drop_trade_item x w)) (f(p := None)) rc (toReleaseItems (drop_trade_item x w))"
proof (cases "f p")
  case None
  then have "f(p := None) = f" by auto
  then show ?thesis using assms None by (simp add: drop_trade_item_def)
next
  case (Some i)
  then have "map_of (tradeItems w) i = Some p" using assms(1) by (auto simp: books_def)
  then have "tradeItems (drop_trade_item x w) = AList.delete i (tradeItems w)"
      "toReleaseItems (drop_trade_item x w) = toReleaseItems w @ [i]"
    using assms(2) Some by (simp_all add: drop_trade_item_def ReleaseItem_def)
  then show ?thesis using books_drop [OF assms(1) Some] by simp
qed

lemma tell_trade_simps [simp]:
  "trader_of (tell_trade ns w) = trader_of w" "tradeItems (tell_trade ns w) = tradeItems w"
  "referenceCounter (tell_trade ns w) = referenceCounter w" "toReleaseItems (tell_trade ns w) = toReleaseItems w"
  by (simp_all add: tell_trade_def)

lemma upd_trader_simps [simp]:
  "trader_of (upd_trader p f w) = (trader_of w)(p := f (trader_of w p))" "tradeItems (upd_trader p f w) = tradeItems w"
  "referenceCounter (upd_trader p f w) = referenceCounter w" "toReleaseItems (upd_trader p f w) = toReleaseItems w"
  by (simp_all add: upd_trader_def)

definition idle :: "trader \<Rightarrow> trader" where
  "idle t = t\<lparr>tradeState := TRADE_NONE, tradePartner := None, tradeItem := None\<rparr>"

lemma idle_simps [simp]:
  "tradeState (idle t) = TRADE_NONE" "tradePartner (idle t) = None" "tradeItem (idle t) = None"
  "trader_pos (idle t) = trader_pos t" "logged_in (idle t) = logged_in t"
  by (simp_all add: idle_def)

lemma no_trade_simps [simp]:
  "trader_of (no_trade p w) = (trader_of w)(p := idle (trader_of w p))" "tradeItems (no_trade p w) = tradeItems w"
  "referenceCounter (no_trade p w) = referenceCounter w" "toReleaseItems (no_trade p w) = toReleaseItems w"
  by (simp_all add: no_trade_def idle_def)

lemma close_side_trader [simp]:
  "trader_of (close_side c p w) = (trader_of w)(p := idle (trader_of w p))"
  "referenceCounter (close_side c p w) = referenceCounter w"
  by (simp_all add: close_side_def Let_def split: option.split)

lemma close_side_books:
  assumes "books (tradeItems w) f (referenceCounter w) (toReleaseItems w)" "f p = tradeItem (trader_of w p)"
  shows "books (tradeItems (close_side c p w)) (f(p := None)) (referenceCounter w) (toReleaseItems (close_side c p w))"
proof (cases "tradeItem (trader_of w p)")
  case None
  then have "f(p := None) = f" using assms(2) by auto
  then show ?thesis using assms None by (simp add: close_side_def)
next
  case (Some i)
  then show ?thesis using drop_trade_item_books [OF assms(1), of "Some i" p] assms(2) by (simp add: close_side_def Let_def)
qed

lemma idle_pair_ok:
  assumes "partners_linked f" "\<And>x. x \<noteq> p \<Longrightarrow> x \<noteq> q \<Longrightarrow> trader_ok (f x)"
    and "\<And>x y. tradePartner (f x) = Some y \<Longrightarrow> x \<noteq> p \<Longrightarrow> x \<noteq> q \<Longrightarrow> pair_ok (f x) (f y)"
    and "tradePartner (f p) = Some q" "books its (\<lambda>x. tradeItem ((f(p := idle (f p), q := idle (f q))) x)) rc rel"
    and "trader_of w = f(p := idle (f p), q := idle (f q))" "tradeItems w = its" "referenceCounter w = rc" "toReleaseItems w = rel"
  shows "trades_ok w"
proof -
  have pq: "tradePartner (f q) = Some p" "p \<noteq> q" using assms(1,4) unfolding partners_linked_def by blast+
  have off: "y \<noteq> p \<and> y \<noteq> q" if "tradePartner (f x) = Some y" "x \<noteq> p" "x \<noteq> q" for x y
  proof -
    have "tradePartner (f y) = Some x" using assms(1) that(1) unfolding partners_linked_def by blast
    then show ?thesis using pq(1) assms(4) that(2,3) by auto
  qed
  have "partners_linked (trader_of w)"
    unfolding partners_linked_def assms(6)
  proof (intro allI impI)
    let ?g = "f(p := idle (f p), q := idle (f q))"
    fix x y
    assume xy: "tradePartner (?g x) = Some y"
    then have x: "x \<noteq> p" "x \<noteq> q" and fxy: "tradePartner (f x) = Some y" by (auto split: if_splits)
    have y: "y \<noteq> p" "y \<noteq> q" using off [OF fxy x] by auto
    have "tradePartner (f y) = Some x \<and> x \<noteq> y \<and> logged_in (f x) \<and> areInRange3 2 2 0 (trader_pos (f x)) (trader_pos (f y))"
      using assms(1) fxy unfolding partners_linked_def by blast
    then show "tradePartner (?g y) = Some x \<and> x \<noteq> y \<and> logged_in (?g x) \<and>
        areInRange3 2 2 0 (trader_pos (?g x)) (trader_pos (?g y))"
      using x y by simp
  qed
  moreover have "trader_ok (trader_of w x)" for x
    using assms(2) by (simp add: assms(6)) (simp add: trader_ok_def)
  moreover have "pair_ok (trader_of w x) (trader_of w y)" if "tradePartner (trader_of w x) = Some y" for x y
    using that assms(3) [of x y] off [of x y] by (auto simp: assms(6) split: if_splits)
  ultimately show ?thesis
    using assms(5-9) by (simp add: trades_ok_def)
qed

text \<open>Everything but the pair \<open>p\<close>, \<open>q\<close> is in order.\<close>

definition almost_ok :: "nat \<Rightarrow> nat \<Rightarrow> trades \<Rightarrow> bool" where
  "almost_ok p q w \<longleftrightarrow> partners_linked (trader_of w) \<and> (\<forall>x. x \<noteq> p \<longrightarrow> x \<noteq> q \<longrightarrow> trader_ok (trader_of w x)) \<and>
     (\<forall>x y. tradePartner (trader_of w x) = Some y \<longrightarrow> x \<noteq> p \<longrightarrow> x \<noteq> q \<longrightarrow> pair_ok (trader_of w x) (trader_of w y)) \<and>
     books (tradeItems w) (\<lambda>p. tradeItem (trader_of w p)) (referenceCounter w) (toReleaseItems w) \<and>
     tradePartner (trader_of w p) = Some q"

lemma trades_ok_almost: "trades_ok w \<Longrightarrow> tradePartner (trader_of w p) = Some q \<Longrightarrow> almost_ok p q w"
  by (simp add: trades_ok_def almost_ok_def)

lemma almost_ok_linked: "almost_ok p q w \<Longrightarrow> p \<noteq> q \<and> tradePartner (trader_of w q) = Some p"
  unfolding almost_ok_def partners_linked_def by blast

lemma almost_ok_idle:
  assumes "almost_ok p q w" "trader_of w' = (trader_of w)(p := idle (trader_of w p), q := idle (trader_of w q))"
    and "books (tradeItems w') (((\<lambda>p. tradeItem (trader_of w p))(p := None))(q := None)) (referenceCounter w') (toReleaseItems w')"
  shows "trades_ok w'"
proof (rule idle_pair_ok [of "trader_of w" p q])
  have "(\<lambda>x. tradeItem (((trader_of w)(p := idle (trader_of w p), q := idle (trader_of w q))) x)) =
      ((\<lambda>p. tradeItem (trader_of w p))(p := None))(q := None)"
    by auto
  then show "books (tradeItems w') (\<lambda>x. tradeItem (((trader_of w)(p := idle (trader_of w p), q := idle (trader_of w q))) x))
      (referenceCounter w') (toReleaseItems w')"
    using assms(3) by simp
qed (use assms in \<open>simp_all add: almost_ok_def\<close>)

lemma almost_ok_close:
  assumes "almost_ok p q w" "tradeState (trader_of w p) \<noteq> TRADE_TRANSFER" "tradeState (trader_of w q) \<noteq> TRADE_TRANSFER"
  shows "trades_ok (internalCloseTrade c p w) \<and>
    trader_of (internalCloseTrade c p w) = (trader_of w)(p := idle (trader_of w p), q := idle (trader_of w q))"
proof -
  have pq: "p \<noteq> q" "tradePartner (trader_of w p) = Some q"
    using almost_ok_linked [OF assms(1)] assms(1) by (auto simp: almost_ok_def)
  let ?w = "close_side c q (close_side c p w)"
  have w: "internalCloseTrade c p w = ?w"
    using assms(2,3) pq by (simp add: internalCloseTrade_def Let_def)
  let ?f = "\<lambda>p. tradeItem (trader_of w p)"
  have "books (tradeItems (close_side c p w)) (?f(p := None)) (referenceCounter w) (toReleaseItems (close_side c p w))"
    using assms(1) by (intro close_side_books) (simp_all add: almost_ok_def)
  then have "books (tradeItems ?w) (?f(p := None, q := None)) (referenceCounter w) (toReleaseItems ?w)"
    using close_side_books [of "close_side c p w" "?f(p := None)" q c] pq by simp
  then have "trades_ok ?w"
    using pq by (intro almost_ok_idle [OF assms(1)]) simp_all
  then show ?thesis using w pq by simp
qed

lemma trader_ok_idle: "trader_ok t \<Longrightarrow> tradePartner t = None \<Longrightarrow> idle t = t"
  by (auto simp: trader_ok_def idle_def)

lemma close_ok:
  assumes "trades_ok w"
  shows "trades_ok (internalCloseTrade c p w)"
proof (cases "tradePartner (trader_of w p)")
  case None
  have ok: "trader_ok (trader_of w p)" using assms by (simp add: trades_ok_def)
  then have "tradeState (trader_of w p) \<noteq> TRADE_TRANSFER" "tradeItem (trader_of w p) = None"
    using None by (auto simp: trader_ok_def)
  then have "internalCloseTrade c p w = tell_trade ((if c then [TradeCancelled p] else []) @ [TradeClose p]) (no_trade p w)"
    using None by (simp add: internalCloseTrade_def close_side_def Let_def)
  then show ?thesis
    using assms trader_ok_idle [OF ok None] by (simp add: trades_ok_def)
next
  case (Some q)
  have "trader_ok (trader_of w p)" "trader_ok (trader_of w q)" using assms by (simp_all add: trades_ok_def)
  then show ?thesis
    using almost_ok_close [OF trades_ok_almost [OF assms Some]] by (simp add: trader_ok_def)
qed

lemma close_frees:
  assumes "trades_ok w"
  shows "tradePartner (trader_of (internalCloseTrade c p w) p) = None"
proof (cases "tradePartner (trader_of w p)")
  case None
  then show ?thesis
    using assms by (auto simp: internalCloseTrade_def Let_def trades_ok_def trader_ok_def)
next
  case (Some q)
  have "trader_ok (trader_of w p)" "trader_ok (trader_of w q)" using assms by (simp_all add: trades_ok_def)
  then show ?thesis
    using almost_ok_close [OF trades_ok_almost [OF assms Some]] by (simp add: trader_ok_def)
qed

lemma close_pos: "trader_pos (trader_of (internalCloseTrade c p w) x) = trader_pos (trader_of w x)"
  by (auto simp: internalCloseTrade_def Let_def split: option.split)

lemma close_logged: "logged_in (trader_of (internalCloseTrade c p w) x) = logged_in (trader_of w x)"
  by (auto simp: internalCloseTrade_def Let_def split: option.split)

lemma setTradeState_simps [simp]:
  "trader_of (setTradeState s p w) = (trader_of w)(p := (trader_of w p)\<lparr>tradeState := s\<rparr>)"
  "tradeItems (setTradeState s p w) = tradeItems w"
  "referenceCounter (setTradeState s p w) = referenceCounter w" "toReleaseItems (setTradeState s p w) = toReleaseItems w"
  by (simp_all add: setTradeState_def)

lemma linked_cong:
  assumes "partners_linked f" "\<And>x. tradePartner (g x) = tradePartner (f x)" "\<And>x. logged_in (g x) = logged_in (f x)"
    "\<And>x. trader_pos (g x) = trader_pos (f x)"
  shows "partners_linked g"
  using assms(1) unfolding partners_linked_def assms(2-4) .

lemma almost_ok_setState:
  assumes "almost_ok p q w" "x = p \<or> x = q"
  shows "almost_ok p q (setTradeState s x w)"
proof -
  have lk: "partners_linked (trader_of w)" "tradePartner (trader_of w p) = Some q"
    using assms(1) by (simp_all add: almost_ok_def)
  have off: "y \<noteq> p \<and> y \<noteq> q" if "tradePartner (trader_of w z) = Some y" "z \<noteq> p" "z \<noteq> q" for y z
  proof -
    have "tradePartner (trader_of w y) = Some z" using lk that(1) unfolding partners_linked_def by blast
    then show ?thesis using almost_ok_linked [OF assms(1)] lk(2) that(2,3) by auto
  qed
  have "partners_linked (trader_of (setTradeState s x w))"
    by (rule linked_cong [OF lk(1)]) simp_all
  moreover have "(\<lambda>y. tradeItem (trader_of (setTradeState s x w) y)) = (\<lambda>y. tradeItem (trader_of w y))"
    by auto
  moreover have "pair_ok (trader_of (setTradeState s x w) z) (trader_of (setTradeState s x w) y)"
    if "tradePartner (trader_of (setTradeState s x w) z) = Some y" "z \<noteq> p" "z \<noteq> q" for z y
  proof -
    have z: "z \<noteq> x" and zy: "tradePartner (trader_of w z) = Some y" using that assms(2) by auto
    then have "y \<noteq> x" using off [OF zy that(2,3)] assms(2) by blast
    moreover have "pair_ok (trader_of w z) (trader_of w y)" using assms(1) zy that(2,3) by (simp add: almost_ok_def)
    ultimately show ?thesis using z by simp
  qed
  moreover have "trader_ok (trader_of (setTradeState s x w) z)" if "z \<noteq> p" "z \<noteq> q" for z
    using assms that by (auto simp: almost_ok_def)
  moreover have "tradePartner (trader_of (setTradeState s x w) p) = Some q"
    using lk(2) by (cases "p = x") auto
  ultimately show ?thesis
    using assms(1) by (simp add: almost_ok_def del: setTradeState_simps(1))
qed

section \<open>Every operation keeps the trades in order\<close>

lemma transfer_trader:
  assumes "p \<noteq> q" "transfer env p q w = Some w'"
  shows "trader_of w' = (trader_of w)(p := idle (trader_of w p), q := idle (trader_of w q))"
  using assms
  by (auto simp: transfer_def Let_def idle_def eventPlayerOnTradeCompleted_def split: option.splits prod.splits if_splits)

lemma transfer_ok:
  assumes "almost_ok p q w" "transfer env p q w = Some w'"
  shows "trades_ok w'"
proof -
  let ?f = "\<lambda>p. tradeItem (trader_of w p)"
  let ?s = "setTradeState TRADE_TRANSFER q (setTradeState TRADE_TRANSFER p w)"
  let ?d = "drop_trade_item (?f q) (drop_trade_item (?f p) ?s)"
  have pq: "p \<noteq> q" using almost_ok_linked [OF assms(1)] by simp
  have s: "almost_ok p q ?s"
    using assms(1) by (intro almost_ok_setState) simp_all
  have "books (tradeItems ?s) ?f (referenceCounter w) (toReleaseItems ?s)"
    using assms(1) by (simp add: almost_ok_def)
  then have "books (tradeItems (drop_trade_item (?f p) ?s)) (?f(p := None)) (referenceCounter w)
      (toReleaseItems (drop_trade_item (?f p) ?s))"
    by (rule drop_trade_item_books) simp
  then have books: "books (tradeItems ?d) (?f(p := None, q := None)) (referenceCounter w) (toReleaseItems ?d)"
    using pq drop_trade_item_books [of "drop_trade_item (?f p) ?s" "?f(p := None)" "referenceCounter w" "?f q" q] by simp
  have "trader_of w' = (trader_of w)(p := idle (trader_of w p), q := idle (trader_of w q)) \<and>
      tradeItems w' = tradeItems ?d \<and> referenceCounter w' = referenceCounter w \<and> toReleaseItems w' = toReleaseItems ?d"
    using assms(2) pq
    by (auto simp: transfer_def Let_def idle_def eventPlayerOnTradeCompleted_def split: option.splits prod.splits if_splits)
  then show ?thesis
    using almost_ok_idle [OF assms(1), of w'] books by simp
qed

lemma accept_ok:
  assumes "trades_ok w" "playerAcceptTrade env p w = Some w'"
  shows "trades_ok w'"
proof (cases "logged_in (trader_of w p) \<and>
    (tradeState (trader_of w p) = TRADE_ACKNOWLEDGE \<or> tradeState (trader_of w p) = TRADE_INITIATED)")
  case False
  then show ?thesis using assms by (auto simp: playerAcceptTrade_def split: if_splits)
next
  case True
  then obtain q where q: "tradePartner (trader_of w p) = Some q"
    using assms(1) by (auto simp: trades_ok_def trader_ok_def)
  let ?w = "setTradeState TRADE_ACCEPT p w"
  have almost: "almost_ok p q ?w"
    using trades_ok_almost [OF assms(1) q] by (intro almost_ok_setState) simp_all
  have pq: "p \<noteq> q" using almost_ok_linked [OF almost] by simp
  have okp: "trader_ok (trader_of w p)" and okq: "trader_ok (trader_of w q)" using assms(1) by (simp_all add: trades_ok_def)
  have close: "trades_ok (internalCloseTrade False p ?w)"
    using almost_ok_close [OF almost, of False] okq pq by (simp add: trader_ok_def)
  show ?thesis
  proof (cases "tradeState (trader_of w q) = TRADE_ACCEPT")
    case False
    then have w': "w' = ?w"
      using assms(2) True q pq by (simp add: playerAcceptTrade_def Let_def split: if_splits)
    have "trader_ok ((trader_of w p)\<lparr>tradeState := TRADE_ACCEPT\<rparr>)"
      using q by (simp add: trader_ok_def)
    then have "trader_ok (trader_of ?w x)" for x
      using assms(1) by (auto simp: trades_ok_def)
    moreover have "pair_ok (trader_of ?w x) (trader_of ?w y)" if "tradePartner (trader_of ?w x) = Some y" for x y
    proof -
      have xy: "tradePartner (trader_of w x) = Some y" using that by (simp split: if_splits)
      then have "pair_ok (trader_of w x) (trader_of w y)" "tradePartner (trader_of w y) = Some x" "x \<noteq> y"
        using assms(1) unfolding trades_ok_def partners_linked_def by blast+
      then show ?thesis using False xy q by (auto simp: pair_ok_def)
    qed
    moreover have "partners_linked (trader_of ?w)" "books (tradeItems ?w) (\<lambda>p. tradeItem (trader_of ?w p)) (referenceCounter ?w) (toReleaseItems ?w)"
      using almost by (simp_all only: almost_ok_def)
    ultimately show ?thesis unfolding w' trades_ok_def by blast
  next
    case accepted: True
    show ?thesis
      using assms(2) True q pq accepted close transfer_ok [OF almost, of env w']
      by (auto simp: playerAcceptTrade_def Let_def trades_ok_def split: if_splits option.splits bool.splits)
  qed
qed

lemma books_add:
  assumes "books its f rc rel" "map_of its i = None" "f p = None"
  shows "books (AList.update i p its) (f(p := Some i)) (rc(i := rc i + 1)) rel"
proof -
  have its: "distinct (map fst its)" "\<And>j q. map_of its j = Some q \<longleftrightarrow> f q = Some j"
      "\<And>j. rc j = (if map_of its j = None then 0 else 1) + count_list rel j"
    using assms(1) by (auto simp: books_def)
  have upd: "map_of (AList.update i p its) = (map_of its)(i \<mapsto> p)" by (rule AList.update_conv')
  have "map_of (AList.update i p its) j = Some q \<longleftrightarrow> (f(p := Some i)) q = Some j" for j q
  proof (cases "j = i")
    case True
    then show ?thesis using its(2) [of i q] assms(2) by (auto simp: upd)
  next
    case False
    then show ?thesis using its(2) [of j q] assms(3) by (auto simp: upd)
  qed
  moreover have "(rc(i := rc i + 1)) j = (if map_of (AList.update i p its) j = None then 0 else 1) + count_list rel j" for j
    using its(3) [of j] assms(2) by (auto simp: upd)
  ultimately show ?thesis
    using AList.distinct_update [OF its(1), of i p] by (simp add: books_def)
qed

lemma linked_new:
  assumes "partners_linked f" "tradePartner (f p) = None" "tradePartner (f q) = None" "p \<noteq> q"
    and "logged_in (f p)" "logged_in (f q)" "areInRange3 2 2 0 (trader_pos (f p)) (trader_pos (f q))"
      "areInRange3 2 2 0 (trader_pos (f q)) (trader_pos (f p))"
    and "\<And>x. tradePartner (g x) = (if x = p then Some q else if x = q then Some p else tradePartner (f x))"
    and "\<And>x. logged_in (g x) = logged_in (f x)" "\<And>x. trader_pos (g x) = trader_pos (f x)"
  shows "partners_linked g"
  unfolding partners_linked_def
proof (intro allI impI)
  fix x y
  assume xy: "tradePartner (g x) = Some y"
  consider "x = p" | "x = q" | "x \<noteq> p" "x \<noteq> q" by blast
  then show "tradePartner (g y) = Some x \<and> x \<noteq> y \<and> logged_in (g x) \<and> areInRange3 2 2 0 (trader_pos (g x)) (trader_pos (g y))"
  proof cases
    case 3
    then have fxy: "tradePartner (f x) = Some y" using xy assms(9) by simp
    then have "tradePartner (f y) = Some x \<and> x \<noteq> y \<and> logged_in (f x) \<and> areInRange3 2 2 0 (trader_pos (f x)) (trader_pos (f y))"
      using assms(1) unfolding partners_linked_def by blast
    then show ?thesis using assms(2,3,9-11) by auto
  qed (use xy assms(4-11) in auto)
qed

lemma start_ok:
  assumes "trades_ok w" "p \<noteq> q" "logged_in (trader_of w p)" "logged_in (trader_of w q)"
    and "areInRange3 2 2 0 (trader_pos (trader_of w q)) (trader_pos (trader_of w p))" "map_of (tradeItems w) i = None"
  shows "trades_ok (snd (internalStartTrade p q i w))"
proof -
  let ?P = "trader_of w p" and ?Q = "trader_of w q"
  let ?w = "snd (internalStartTrade p q i w)"
  let ?P' = "?P\<lparr>tradePartner := Some q, tradeItem := Some i, tradeState := TRADE_INITIATED\<rparr>"
  have okP: "trader_ok ?P" and okQ: "trader_ok ?Q" and lk: "partners_linked (trader_of w)"
    and pr: "\<And>x y. tradePartner (trader_of w x) = Some y \<Longrightarrow> pair_ok (trader_of w x) (trader_of w y)"
    and bk: "books (tradeItems w) (\<lambda>p. tradeItem (trader_of w p)) (referenceCounter w) (toReleaseItems w)"
    using assms(1) by (simp_all add: trades_ok_def)
  consider
    "\<not> (tradeState ?P = TRADE_NONE \<or> tradeState ?P = TRADE_ACKNOWLEDGE \<and> tradePartner ?P = Some q)"
    | "tradeState ?P = TRADE_NONE \<or> tradeState ?P = TRADE_ACKNOWLEDGE \<and> tradePartner ?P = Some q"
      "tradeState ?Q \<noteq> TRADE_NONE" "tradePartner ?Q \<noteq> Some p"
    | "tradeState ?P = TRADE_NONE" "tradeState ?Q = TRADE_NONE"
    | "tradeState ?P = TRADE_NONE" "tradePartner ?Q = Some p"
    | "tradePartner ?P = Some q" "tradeState ?Q = TRADE_NONE"
    | "tradeState ?P = TRADE_ACKNOWLEDGE" "tradePartner ?P = Some q" "tradeState ?Q \<noteq> TRADE_NONE"
    by blast
  then show ?thesis
  proof cases
    case 1
    then have "\<exists>ns. ?w = tell_trade ns w" by (auto simp: internalStartTrade_def)
    then show ?thesis using assms(1) by (auto simp: trades_ok_def)
  next
    case 2
    then have "\<exists>ns. ?w = tell_trade ns w" by (auto simp: internalStartTrade_def Let_def)
    then show ?thesis using assms(1) by (auto simp: trades_ok_def)
  next
    case 3
    let ?Q' = "?Q\<lparr>tradeState := TRADE_ACKNOWLEDGE, tradePartner := Some p\<rparr>"
    have none: "tradePartner ?P = None" "tradePartner ?Q = None" "tradeItem ?P = None" "tradeItem ?Q = None"
      using 3 okP okQ by (auto simp: trader_ok_def)
    have w: "trader_of ?w = (trader_of w)(p := ?P', q := ?Q')" "tradeItems ?w = AList.update i p (tradeItems w)"
        "referenceCounter ?w = (referenceCounter w)(i := referenceCounter w i + 1)" "toReleaseItems ?w = toReleaseItems w"
      using 3 assms(2) by (auto simp: internalStartTrade_def Let_def)
    have "partners_linked (trader_of ?w)"
      unfolding w using assms(2-5) areInRange3_sym
      by (intro linked_new [OF lk none(1,2) assms(2)]) auto
    moreover have "trader_ok (trader_of ?w x)" for x
    proof -
      have "trader_ok ?P'" "trader_ok ?Q'" using none by (simp_all add: trader_ok_def)
      then show ?thesis using assms(1) by (simp add: w trades_ok_def)
    qed
    moreover have "pair_ok (trader_of ?w x) (trader_of ?w y)" if "tradePartner (trader_of ?w x) = Some y" for x y
    proof (cases "x = p \<or> x = q")
      case True
      then show ?thesis using that assms(2) by (auto simp: w pair_ok_def)
    next
      case False
      then have xy: "tradePartner (trader_of w x) = Some y" using that by (simp add: w)
      then have "tradePartner (trader_of w y) = Some x" using lk unfolding partners_linked_def by blast
      then have "y \<noteq> p" "y \<noteq> q" using none by auto
      then show ?thesis using False pr [OF xy] by (simp add: w)
    qed
    moreover have "(\<lambda>x. tradeItem (trader_of ?w x)) = (\<lambda>p. tradeItem (trader_of w p))(p := Some i)"
      using none(4) assms(2) by (auto simp: w)
    then have "books (tradeItems ?w) (\<lambda>p. tradeItem (trader_of ?w p)) (referenceCounter ?w) (toReleaseItems ?w)"
      using books_add [OF bk assms(6), of p] none(3) unfolding w by simp
    ultimately show ?thesis unfolding trades_ok_def by blast
  next
    case 4
    then have "tradePartner ?P = Some q" using lk unfolding partners_linked_def by blast
    then show ?thesis using 4 okP by (simp add: trader_ok_def)
  next
    case 5
    then have "tradePartner ?Q = Some p" using lk unfolding partners_linked_def by blast
    then show ?thesis using 5 okQ by (simp add: trader_ok_def)
  next
    case 6
    then have q: "tradePartner ?Q = Some p" using lk unfolding partners_linked_def by blast
    have none: "tradeItem ?P = None" using 6 okP by (simp add: trader_ok_def)
    have w: "trader_of ?w = (trader_of w)(p := ?P')" "tradeItems ?w = AList.update i p (tradeItems w)"
        "referenceCounter ?w = (referenceCounter w)(i := referenceCounter w i + 1)" "toReleaseItems ?w = toReleaseItems w"
      using 6 q assms(2) by (auto simp: internalStartTrade_def Let_def)
    have "partners_linked (trader_of ?w)"
      unfolding w by (rule linked_cong [OF lk]) (use 6 in auto)
    moreover have "trader_ok (trader_of ?w x)" for x
    proof -
      have "trader_ok ?P'" by (simp add: trader_ok_def)
      then show ?thesis using assms(1) by (simp add: w trades_ok_def)
    qed
    moreover have "pair_ok (trader_of ?w x) (trader_of ?w y)" if "tradePartner (trader_of ?w x) = Some y" for x y
    proof -
      have xy: "tradePartner (trader_of w x) = Some y" using that 6 by (auto simp: w split: if_splits)
      then show ?thesis using pr [OF xy] by (auto simp: w pair_ok_def)
    qed
    moreover have "(\<lambda>x. tradeItem (trader_of ?w x)) = (\<lambda>p. tradeItem (trader_of w p))(p := Some i)"
      by (auto simp: w)
    then have "books (tradeItems ?w) (\<lambda>p. tradeItem (trader_of ?w p)) (referenceCounter ?w) (toReleaseItems ?w)"
      using books_add [OF bk assms(6), of p] none unfolding w by simp
    ultimately show ?thesis unfolding trades_ok_def by blast
  qed
qed

lemma tell_ok [simp]: "trades_ok (tell_trade ns w) = trades_ok w"
  by (simp add: trades_ok_def)

lemma request_ok:
  assumes "trades_ok w"
  shows "trades_ok (playerRequestTrade env p q w)"
proof -
  have fresh: "map_of (tradeItems w) i = None" if "\<not> already_traded env (map fst (tradeItems w)) i" for i
  proof -
    have "i \<notin> fst ` set (tradeItems w)"
      using that by (auto simp: already_traded_def list_ex_iff)
    then show ?thesis by (simp add: map_of_eq_None_iff)
  qed
  show ?thesis
    using assms start_ok [OF assms, of p q] fresh
    by (auto simp: playerRequestTrade_def Let_def split: option.split)
qed

lemma check_ok: "trades_ok w \<Longrightarrow> trades_ok (checkTradeState env p i w)"
  by (auto simp: checkTradeState_def Let_def close_ok split: option.split)

lemma remove_item_ok: "trades_ok w \<Longrightarrow> trades_ok (onRemoveItem env p i w)"
  using check_ok [of w env p i] by (auto simp: onRemoveItem_def Let_def close_ok split: option.split)

lemma remove_container_item_ok: "trades_ok w \<Longrightarrow> trades_ok (onRemoveContainerItem env p c i w)"
  using check_ok [of w env p i] by (auto simp: onRemoveContainerItem_def Let_def close_ok split: option.split)

lemma update_ok:
  assumes "trades_ok w"
  shows "trades_ok (onUpdateTileItem env p i j w)" "trades_ok (onUpdateInventoryItem env p i j w)"
    "trades_ok (onUpdateContainerItem env p c i j w)"
  using assms remove_item_ok [OF assms, of env p i] remove_container_item_ok [OF assms, of env p c i]
  by (simp_all add: onUpdateTileItem_def onUpdateInventoryItem_def onUpdateContainerItem_def Let_def close_ok check_ok)

lemma drop_trade_item_upd: "drop_trade_item x (upd_trader p f w) = upd_trader p f (drop_trade_item x w)"
  by (simp add: drop_trade_item_def upd_trader_def ReleaseItem_def split: option.split)

lemma tell_trade_upd: "tell_trade ns (upd_trader p f w) = upd_trader p f (tell_trade ns w)"
  by (simp add: tell_trade_def upd_trader_def)

abbreviation (input) moved :: "position \<Rightarrow> trader \<Rightarrow> trader" where
  "moved pos t \<equiv> t\<lparr>trader_pos := pos\<rparr>"

lemma close_side_moved: "close_side c x (upd_trader p (moved pos) w) = upd_trader p (moved pos) (close_side c x w)"
proof -
  have no: "no_trade x (upd_trader p (moved pos) w) = upd_trader p (moved pos) (no_trade x w)" for w
    by (auto simp: no_trade_def upd_trader_def fun_eq_iff)
  have item: "tradeItem (trader_of (upd_trader p (moved pos) w) x) = tradeItem (trader_of w x)" by simp
  show ?thesis
    unfolding close_side_def Let_def item
    by (cases "tradeItem (trader_of w x)") (simp_all only: option.case drop_trade_item_upd tell_trade_upd no)
qed

lemma close_moved:
  "internalCloseTrade c x (upd_trader p (moved pos) w) = upd_trader p (moved pos) (internalCloseTrade c x w)"
proof -
  have "tradePartner (trader_of (upd_trader p (moved pos) w) y) = tradePartner (trader_of w y)"
    "tradeState (trader_of (upd_trader p (moved pos) w) y) = tradeState (trader_of w y)" for y
    by simp_all
  then show ?thesis
    by (simp add: internalCloseTrade_def Let_def close_side_moved del: upd_trader_simps split: option.split)
qed

lemma moved_ok:
  assumes "trades_ok w" "\<And>q. tradePartner (trader_of w p) = Some q \<Longrightarrow> areInRange3 2 2 0 (trader_pos (trader_of w q)) pos"
  shows "trades_ok (upd_trader p (moved pos) w)"
proof -
  let ?g = "trader_of (upd_trader p (moved pos) w)"
  have lk: "partners_linked (trader_of w)" using assms(1) by (simp add: trades_ok_def)
  have "partners_linked ?g"
    unfolding partners_linked_def
  proof (intro allI impI)
    fix x y
    assume "tradePartner (?g x) = Some y"
    then have xy: "tradePartner (trader_of w x) = Some y" by (simp split: if_splits)
    have l: "tradePartner (trader_of w y) = Some x" "x \<noteq> y" "logged_in (trader_of w x)"
        "areInRange3 2 2 0 (trader_pos (trader_of w x)) (trader_pos (trader_of w y))"
      using lk xy unfolding partners_linked_def by blast+
    then show "tradePartner (?g y) = Some x \<and> x \<noteq> y \<and> logged_in (?g x) \<and> areInRange3 2 2 0 (trader_pos (?g x)) (trader_pos (?g y))"
      using assms(2) [of x] assms(2) [of y] xy areInRange3_sym [of 2 2 0 pos] by auto
  qed
  moreover have "(\<lambda>p. tradeItem (?g p)) = (\<lambda>p. tradeItem (trader_of w p))" by auto
  moreover have "trader_ok (?g x)" for x
    using assms(1) by (auto simp: trades_ok_def trader_ok_def)
  moreover have "pair_ok (?g x) (?g y)" if "tradePartner (?g x) = Some y" for x y
  proof -
    have "tradePartner (trader_of w x) = Some y" using that by (simp split: if_splits)
    then have "pair_ok (trader_of w x) (trader_of w y)" using assms(1) by (simp add: trades_ok_def)
    then show ?thesis by (auto simp: pair_ok_def)
  qed
  ultimately show ?thesis using assms(1) by (simp add: trades_ok_def)
qed

lemma moves_ok:
  assumes "trades_ok w"
  shows "trades_ok (trader_moves env p pos w)"
proof -
  let ?w = "upd_trader p (moved pos) w"
  have closed: "trades_ok (internalCloseTrade True p ?w)" "tradePartner (trader_of (internalCloseTrade True p ?w) p) = None"
    unfolding close_moved using moved_ok [OF close_ok [OF assms, of True p], of p pos] close_frees [OF assms, of True p]
    by simp_all
  have lk: "partners_linked (trader_of w)" and "trader_ok (trader_of w p)" using assms by (simp_all add: trades_ok_def)
  then have idle_state: "tradeState (trader_of w p) \<noteq> TRADE_TRANSFER" by (simp add: trader_ok_def)
  show ?thesis
  proof (cases "tradePartner (trader_of w p)")
    case None
    then show ?thesis
      using closed moved_ok [OF assms, of p pos]
      by (auto simp: trader_moves_def Let_def split: option.split)
  next
    case (Some q)
    then have "q \<noteq> p" using lk unfolding partners_linked_def by blast
    then show ?thesis
      using closed moved_ok [OF assms, of p pos] Some idle_state
      by (auto simp: trader_moves_def Let_def split: option.split)
  qed
qed

lemma unlinked_upd_ok:
  assumes "trades_ok w" "tradePartner (trader_of w p) = None" "tradePartner t = None" "trader_ok t"
  shows "trades_ok (upd_trader p (\<lambda>_. t) w)"
proof -
  let ?g = "(trader_of w)(p := t)"
  have lk: "partners_linked (trader_of w)" using assms by (simp add: trades_ok_def)
  have old: "tradePartner (trader_of w x) = Some y \<and> x \<noteq> p \<and> y \<noteq> p" if "tradePartner (?g x) = Some y" for x y
  proof -
    have x: "x \<noteq> p" "tradePartner (trader_of w x) = Some y" using that assms(3) by (auto split: if_splits)
    then have "tradePartner (trader_of w y) = Some x" using lk unfolding partners_linked_def by blast
    then show ?thesis using x assms(2) by auto
  qed
  have "partners_linked ?g"
    unfolding partners_linked_def
  proof (intro allI impI)
    fix x y
    assume "tradePartner (?g x) = Some y"
    note o = old [OF this]
    then have "tradePartner (trader_of w y) = Some x \<and> x \<noteq> y \<and> logged_in (trader_of w x) \<and>
        areInRange3 2 2 0 (trader_pos (trader_of w x)) (trader_pos (trader_of w y))"
      using lk unfolding partners_linked_def by blast
    then show "tradePartner (?g y) = Some x \<and> x \<noteq> y \<and> logged_in (?g x) \<and> areInRange3 2 2 0 (trader_pos (?g x)) (trader_pos (?g y))"
      using o by simp
  qed
  moreover have "tradeItem t = None" "tradeItem (trader_of w p) = None"
    using assms by (auto simp: trader_ok_def trades_ok_def)
  then have "(\<lambda>x. tradeItem (?g x)) = (\<lambda>x. tradeItem (trader_of w x))" by auto
  moreover have "pair_ok (?g x) (?g y)" if "tradePartner (?g x) = Some y" for x y
    using old [OF that] assms(1) by (simp add: trades_ok_def)
  ultimately show ?thesis
    using assms(1,4) by (simp add: trades_ok_def)
qed

lemma leaves_ok:
  assumes "trades_ok w"
  shows "trades_ok (trader_leaves p w)"
proof -
  let ?w = "if tradePartner (trader_of w p) \<noteq> None then internalCloseTrade True p w else w"
  have w: "trades_ok ?w" "tradePartner (trader_of ?w p) = None"
    using assms close_ok close_frees by auto
  then have "trader_ok ((trader_of ?w p)\<lparr>logged_in := False\<rparr>)"
    by (auto simp: trades_ok_def trader_ok_def)
  then have "trades_ok (upd_trader p (\<lambda>_. (trader_of ?w p)\<lparr>logged_in := False\<rparr>) ?w)"
    using w by (intro unlinked_upd_ok) auto
  then show ?thesis
    by (simp add: trader_leaves_def upd_trader_def)
qed

lemma login_ok:
  assumes "trades_ok w" "\<not> logged_in (trader_of w p)"
  shows "trades_ok (upd_trader p (\<lambda>_. new_trader pos) w)"
proof (rule unlinked_upd_ok [OF assms(1)])
  show "tradePartner (trader_of w p) = None"
    using assms unfolding trades_ok_def partners_linked_def by (metis not_None_eq)
qed (simp_all add: new_trader_def trader_ok_def)

lemma fold_release: "fold (\<lambda>i rc. rc(i := rc i - 1)) rel rc j = rc j - count_list rel j" for rc :: "nat \<Rightarrow> nat"
  by (induction rel arbitrary: rc) auto

lemma cleanup_ok: "trades_ok w \<Longrightarrow> trades_ok (cleanup_items w)"
  by (simp add: trades_ok_def books_def cleanup_items_def fold_release del: One_nat_def)

section \<open>Reachable trades\<close>

text \<open>Nobody is online and nothing is traded at the start; \<open>referenceCounter\<close> counts the references that trades
  take.  Between its operations the world may change at will, so that each step has its own answers.\<close>

definition no_trades :: trades where
  "no_trades = \<lparr>trader_of = (\<lambda>_. (new_trader (Position 0 0 0))\<lparr>logged_in := False\<rparr>), tradeItems = [],
     referenceCounter = (\<lambda>_. 0), toReleaseItems = [], trade_notes = []\<rparr>"

inductive trade_step :: "trades \<Rightarrow> trades \<Rightarrow> bool" where
  login: "\<not> logged_in (trader_of w p) \<Longrightarrow> trade_step w (upd_trader p (\<lambda>_. new_trader pos) w)"
| request: "trade_step w (playerRequestTrade env p q w)"
| accept: "playerAcceptTrade env p w = Some w' \<Longrightarrow> trade_step w w'"
| close: "trade_step w (playerCloseTrade p w)"
| check: "trade_step w (checkTradeState env p i w)"
| remove_item: "trade_step w (onRemoveItem env p i w)"
| remove_container_item: "trade_step w (onRemoveContainerItem env p c i w)"
| update_tile_item: "trade_step w (onUpdateTileItem env p i j w)"
| update_inventory_item: "trade_step w (onUpdateInventoryItem env p i j w)"
| update_container_item: "trade_step w (onUpdateContainerItem env p c i j w)"
| move: "trade_step w (trader_moves env p pos w)"
| leave: "trade_step w (trader_leaves p w)"
| cleanup: "trade_step w (cleanup_items w)"

inductive_cases trade_stepE: "trade_step w w'"

inductive trades_reachable :: "trades \<Rightarrow> bool" where
  start: "trades_reachable no_trades"
| step: "trades_reachable w \<Longrightarrow> trade_step w w' \<Longrightarrow> trades_reachable w'"

lemma step_ok:
  assumes "trade_step w w'" "trades_ok w"
  shows "trades_ok w'"
  using assms
proof (induction rule: trade_step.induct)
  case (close w p)
  then show ?case by (simp add: playerCloseTrade_def close_ok)
qed (auto simp: login_ok request_ok accept_ok check_ok remove_item_ok remove_container_item_ok update_ok moves_ok leaves_ok cleanup_ok)

lemma trades_in_order: "trades_reachable w \<Longrightarrow> trades_ok w"
proof (induction rule: trades_reachable.induct)
  case start
  show ?case
    by (simp add: trades_ok_def partners_linked_def trader_ok_def books_def no_trades_def new_trader_def)
next
  case (step w w')
  then show ?case using step_ok by blast
qed

section \<open>An example\<close>

text \<open>Players 1 and 2 stand next to each other; each answer of the world lets the trade go on.\<close>

definition demo :: "nat \<Rightarrow> trade_env" where
  "demo item = \<lparr>canThrow = (\<lambda>_ _. True), onTradeRequest = (\<lambda>_ _ _. True), onTradeAccept = Some (\<lambda>_ _ _ _. True),
     onTradeCompleted = False, backpack = (\<lambda>_. None), slot_taken = (\<lambda>_ _. False), add_test = (\<lambda>_ _. RETURNVALUE_NOERROR),
     remove_test = (\<lambda>_. RETURNVALUE_NOERROR), move_item = (\<lambda>_ _ _. RETURNVALUE_NOERROR), plural = (\<lambda>_. False),
     weight_text = (\<lambda>_. []), requested = Some item, tradeable = (\<lambda>_. True), not_invited = (\<lambda>_ _. False),
     item_pos = (\<lambda>_. Position 0 0 0), has_path = True, is_container = (\<lambda>_. False), isHoldingItem = (\<lambda>_ _. False),
     holdingCount = (\<lambda>_. 0), parents = (\<lambda>_. [])\<rparr>"

definition met :: trades where
  "met = upd_trader 2 (\<lambda>_. new_trader (Position 0 0 0)) (upd_trader 1 (\<lambda>_. new_trader (Position 0 0 0)) no_trades)"

definition offered :: trades where
  "offered = playerRequestTrade (demo 7) 1 2 met"

definition accepted :: trades where
  "accepted = setTradeState TRADE_ACCEPT 1 offered"

definition both_offered :: trades where
  "both_offered = playerRequestTrade (demo 8) 2 1 accepted"

lemma met_reachable: "trades_reachable met"
proof -
  have "trades_reachable (upd_trader 1 (\<lambda>_. new_trader (Position 0 0 0)) no_trades)"
    by (rule trades_reachable.step [OF trades_reachable.start trade_step.login]) (simp add: no_trades_def)
  then show ?thesis
    unfolding met_def by (rule trades_reachable.step [OF _ trade_step.login]) (simp add: no_trades_def)
qed

lemma offered_reachable: "trades_reachable offered"
  unfolding offered_def by (intro trades_reachable.step [OF met_reachable] trade_step.request)

lemmas demo_defs = offered_def met_def no_trades_def new_trader_def demo_def playerRequestTrade_def internalStartTrade_def
  areInRange3_def areInRange_def getDistanceX_def getDistanceY_def getDistanceZ_def getOffsetX_def getOffsetY_def getOffsetZ_def
  getX_def getY_def getZ_def already_traded_def

lemma offered_traders:
  "trader_of offered 1 = \<lparr>tradeState = TRADE_INITIATED, tradePartner = Some 2, tradeItem = Some 7, trader_pos = Position 0 0 0, logged_in = True\<rparr>"
  "trader_of offered 2 = \<lparr>tradeState = TRADE_ACKNOWLEDGE, tradePartner = Some 1, tradeItem = None, trader_pos = Position 0 0 0, logged_in = True\<rparr>"
  by (simp_all add: demo_defs Let_def)

lemma accepted_reachable: "trades_reachable accepted"
proof -
  have "playerAcceptTrade (demo 7) 1 offered = Some accepted"
    using offered_traders by (simp add: playerAcceptTrade_def Let_def accepted_def)
  then show ?thesis by (intro trades_reachable.step [OF offered_reachable] trade_step.accept)
qed

lemma both_offered_reachable: "trades_reachable both_offered"
  unfolding both_offered_def by (intro trades_reachable.step [OF accepted_reachable] trade_step.request)

lemma both_offered_traders:
  "trader_of both_offered 1 = \<lparr>tradeState = TRADE_ACCEPT, tradePartner = Some 2, tradeItem = Some 7, trader_pos = Position 0 0 0, logged_in = True\<rparr>"
  "trader_of both_offered 2 = \<lparr>tradeState = TRADE_INITIATED, tradePartner = Some 1, tradeItem = Some 8, trader_pos = Position 0 0 0, logged_in = True\<rparr>"
  by (simp_all add: both_offered_def accepted_def demo_defs Let_def)

lemma both_offered_exchange:
  "\<exists>w'. playerAcceptTrade (demo 7) 2 both_offered = Some w' \<and> trade_notes w' = trade_notes both_offered @
     [MoveItem 8 1, MoveItem 7 2, OnTradeEvent 8 ON_TRADE_TRANSFER 1, OnTradeEvent 7 ON_TRADE_TRANSFER 2, TradeClose 2, TradeClose 1]"
  using both_offered_traders
  by (simp add: playerAcceptTrade_def demo_def eventPlayerOnTradeAccept_def transfer_def backpack_test_def exchange_def
    internalAddItem_test_def eventPlayerOnTradeCompleted_def Let_def tell_trade_def no_trade_def upd_trader_def setTradeState_def
    drop_trade_item_def ReleaseItem_def)

section \<open>Items change hands only in an exchange\<close>

definition is_move :: "trade_note \<Rightarrow> bool" where
  "is_move n = (case n of MoveItem _ _ \<Rightarrow> True | _ \<Rightarrow> False)"

definition item_moves :: "trades \<Rightarrow> trade_note list" where
  "item_moves w = filter is_move (trade_notes w)"

lemma is_move_simps [simp]:
  "is_move (MoveItem i p)" "\<not> is_move (CancelMessage p s)" "\<not> is_move (ItemRequest p q x b)" "\<not> is_move (WantsToTrade p q)"
  "\<not> is_move (TradeClose p)" "\<not> is_move (TradeCancelled p)" "\<not> is_move (ErrorText p s)" "\<not> is_move (OnTradeEvent i e p)"
  "\<not> is_move (TradeCompleted p q i j b)" "\<not> is_move (WalkTo p)"
  by (simp_all add: is_move_def)

lemma item_moves_tell [simp]: "item_moves (tell_trade ns w) = item_moves w @ filter is_move ns"
  by (simp add: item_moves_def tell_trade_def)

lemma item_moves_same [simp]:
  "item_moves (upd_trader p f w) = item_moves w" "item_moves (no_trade p w) = item_moves w"
  "item_moves (setTradeState s p w) = item_moves w" "item_moves (drop_trade_item x w) = item_moves w"
  "item_moves (cleanup_items w) = item_moves w"
  "item_moves (w\<lparr>referenceCounter := rc\<rparr>) = item_moves w" "item_moves (w\<lparr>tradeItems := its\<rparr>) = item_moves w"
  by (simp_all add: item_moves_def upd_trader_def no_trade_def setTradeState_def drop_trade_item_def ReleaseItem_def
    cleanup_items_def split: option.split)

lemma item_moves_close [simp]: "item_moves (internalCloseTrade c p w) = item_moves w"
  by (simp add: internalCloseTrade_def close_side_def Let_def split: option.split)

lemma item_moves_check [simp]: "item_moves (checkTradeState env p i w) = item_moves w"
  by (simp add: checkTradeState_def Let_def split: option.split)

lemma item_moves_callbacks [simp]:
  "item_moves (onRemoveItem env p i w) = item_moves w" "item_moves (onRemoveContainerItem env p c i w) = item_moves w"
  "item_moves (trader_moves env p pos w) = item_moves w" "item_moves (trader_leaves p w) = item_moves w"
  "item_moves (snd (internalStartTrade p q i w)) = item_moves w"
  by (simp_all add: onRemoveItem_def onRemoveContainerItem_def trader_moves_def trader_leaves_def internalStartTrade_def Let_def
    split: option.split)

lemma item_moves_request [simp]: "item_moves (playerRequestTrade env p q w) = item_moves w"
  by (simp add: playerRequestTrade_def Let_def split: option.split)

lemma failure_notes_quiet [simp]: "filter is_move (failure_notes env x own ret other) = []"
  by (simp add: failure_notes_def split: option.split)

text \<open>Each item could be taken from its owner and given to the other, and the first move worked.\<close>

definition exchange_tests :: "trade_env \<Rightarrow> nat \<Rightarrow> nat \<Rightarrow> nat \<Rightarrow> nat \<Rightarrow> bool" where
  "exchange_tests env p q i j \<longleftrightarrow>
     add_test env q i = RETURNVALUE_NOERROR \<and> add_test env p j = RETURNVALUE_NOERROR \<and>
     remove_test env i = RETURNVALUE_NOERROR \<and> remove_test env j = RETURNVALUE_NOERROR \<and>
     move_item env i q (Some j) = RETURNVALUE_NOERROR"

lemma exchange_moves:
  assumes "exchange env p q a b r s = (r', s', moves, success)"
  shows "filter is_move moves = [] \<or> (\<exists>i j. a = Some i \<and> b = Some j \<and> exchange_tests env p q i j \<and>
    filter is_move moves = MoveItem i q # (if move_item env j p None = RETURNVALUE_NOERROR then [MoveItem j p] else []))"
proof (cases a)
  case (Some i)
  show ?thesis
  proof (cases b)
    case j: (Some j)
    show ?thesis
    proof (cases "exchange_tests env p q i j")
      case True
      then have "filter is_move moves = [] \<or>
          filter is_move moves = MoveItem i q # (if move_item env j p None = RETURNVALUE_NOERROR then [MoveItem j p] else [])"
        using assms Some j by (simp add: exchange_def exchange_tests_def internalAddItem_test_def Let_def split: if_split_asm) auto
      then show ?thesis using True Some j by blast
    next
      case False
      then have "moves = []"
        using assms Some j by (simp add: exchange_def exchange_tests_def internalAddItem_test_def Let_def split: if_split_asm)
      then show ?thesis by simp
    qed
  qed (use assms Some in \<open>simp add: exchange_def Let_def split: if_split_asm\<close>)
qed (use assms in \<open>simp add: exchange_def Let_def split: if_split_asm\<close>)

lemma transfer_moves:
  assumes "transfer env p q w = Some w'"
  shows "item_moves w' = item_moves w \<or> (\<exists>i j. tradeItem (trader_of w p) = Some i \<and> tradeItem (trader_of w q) = Some j \<and>
    exchange_tests env p q i j \<and>
    item_moves w' = item_moves w @ MoveItem i q # (if move_item env j p None = RETURNVALUE_NOERROR then [MoveItem j p] else []))"
proof -
  let ?a = "tradeItem (trader_of w p)" and ?b = "tradeItem (trader_of w q)"
  obtain r s r' s' moves success where x: "exchange env p q ?a ?b r s = (r', s', moves, success)"
    and w': "item_moves w' = item_moves w @ filter is_move moves"
    using assms
    by (auto simp: transfer_def Let_def eventPlayerOnTradeCompleted_def split: option.splits prod.splits if_splits)
  show ?thesis using exchange_moves [OF x] w' by auto
qed

lemma accept_moves:
  assumes "playerAcceptTrade env p w = Some w'" "item_moves w' \<noteq> item_moves w"
  obtains q where "tradePartner (trader_of w p) = Some q" "transfer env p q (setTradeState TRADE_ACCEPT p w) = Some w'"
    "tradeState (trader_of (setTradeState TRADE_ACCEPT p w) q) = TRADE_ACCEPT"
proof -
  have on: "logged_in (trader_of w p)" and
    st: "tradeState (trader_of w p) = TRADE_ACKNOWLEDGE \<or> tradeState (trader_of w p) = TRADE_INITIATED"
    using assms unfolding playerAcceptTrade_def by (metis option.inject)+
  obtain q where q: "tradePartner (trader_of w p) = Some q"
    using assms on st by (cases "tradePartner (trader_of w p)") (simp_all add: playerAcceptTrade_def)
  let ?w = "setTradeState TRADE_ACCEPT p w"
  note unfolded = assms(1) [unfolded playerAcceptTrade_def Let_def q option.case]
  have acc: "tradeState (trader_of ?w q) = TRADE_ACCEPT"
  proof (rule ccontr)
    assume "tradeState (trader_of ?w q) \<noteq> TRADE_ACCEPT"
    then have "w' = ?w" using unfolded on st by simp
    then show False using assms(2) by simp
  qed
  have throw: "canThrow env (trader_pos (trader_of ?w q)) (trader_pos (trader_of ?w p))"
  proof (rule ccontr)
    assume "\<not> ?thesis"
    then have "item_moves w' = item_moves w" using unfolded on st acc by (auto simp del: setTradeState_simps)
    then show False using assms(2) by simp
  qed
  have "eventPlayerOnTradeAccept env p q (tradeItem (trader_of ?w p)) (tradeItem (trader_of ?w q)) = Some True"
  proof (rule ccontr)
    assume "\<not> ?thesis"
    then have "item_moves w' = item_moves w"
      using unfolded on st acc throw by (auto simp del: setTradeState_simps split: option.splits bool.splits)
    then show False using assms(2) by simp
  qed
  then have "transfer env p q ?w = Some w'"
    using unfolded on st acc throw by (simp del: setTradeState_simps)
  then show thesis using that q acc by blast
qed

lemma item_moves_more [simp]:
  "item_moves (playerCloseTrade p w) = item_moves w" "item_moves (onUpdateTileItem env p i j w) = item_moves w"
  "item_moves (onUpdateInventoryItem env p i j w) = item_moves w" "item_moves (onUpdateContainerItem env p c i j w) = item_moves w"
  by (simp_all add: playerCloseTrade_def onUpdateTileItem_def onUpdateInventoryItem_def onUpdateContainerItem_def Let_def)

text \<open>C31: whatever the clients send and the world does, an item changes hands through a trade only when a player
  accepts whose partner has accepted before, both have offered an item, and the tests say that
  each item can be taken from its owner and given to the other.  Then the accepting player's
  item has moved to the partner.  The partner's item follows exactly if its own move works:
  the code ignores the result of that move, so that otherwise one player has both items.
  Either way the trade is over for both and neither item is listed as being in trade.\<close>

theorem items_move_by_agreement:
  assumes "trades_reachable w" "trade_step w w'" "item_moves w' \<noteq> item_moves w"
  shows "\<exists>env p q i j. playerAcceptTrade env p w = Some w' \<and>
    tradePartner (trader_of w p) = Some q \<and> tradeState (trader_of w q) = TRADE_ACCEPT \<and>
    tradeItem (trader_of w p) = Some i \<and> tradeItem (trader_of w q) = Some j \<and> exchange_tests env p q i j \<and>
    item_moves w' = item_moves w @ MoveItem i q # (if move_item env j p None = RETURNVALUE_NOERROR then [MoveItem j p] else []) \<and>
    (\<forall>x\<in>{p, q}. tradePartner (trader_of w' x) = None \<and> tradeItem (trader_of w' x) = None) \<and>
    map_of (tradeItems w') i = None \<and> map_of (tradeItems w') j = None"
  using assms(2)
proof (cases rule: trade_step.cases)
  case (accept env p)
  then obtain q where q: "tradePartner (trader_of w p) = Some q"
      "transfer env p q (setTradeState TRADE_ACCEPT p w) = Some w'"
      "tradeState (trader_of (setTradeState TRADE_ACCEPT p w) q) = TRADE_ACCEPT"
    using assms(3) by (elim accept_moves)
  then have "p \<noteq> q"
    using trades_in_order [OF assms(1)] unfolding trades_ok_def partners_linked_def by blast
  then obtain i j where ij: "tradeItem (trader_of w p) = Some i" "tradeItem (trader_of w q) = Some j"
      "exchange_tests env p q i j"
      "item_moves w' = item_moves w @ MoveItem i q # (if move_item env j p None = RETURNVALUE_NOERROR then [MoveItem j p] else [])"
    using transfer_moves [OF q(2)] assms(3) by auto
  have almost: "almost_ok p q (setTradeState TRADE_ACCEPT p w)"
    using trades_ok_almost [OF trades_in_order [OF assms(1)] q(1)] by (intro almost_ok_setState) simp_all
  let ?w = "setTradeState TRADE_ACCEPT p w"
  have idle: "tradeItem (trader_of w' x) = (if x = p \<or> x = q then None else tradeItem (trader_of w x))" for x
    using transfer_trader [OF \<open>p \<noteq> q\<close> q(2)] by auto
  have gone: "map_of (tradeItems w') k = None" if "k = i \<or> k = j" for k
  proof (rule ccontr)
    assume "map_of (tradeItems w') k \<noteq> None"
    then obtain x where "tradeItem (trader_of w' x) = Some k"
      using transfer_ok [OF almost q(2)] by (auto simp: trades_ok_def books_def)
    then have x: "x \<noteq> p" "x \<noteq> q" "tradeItem (trader_of w x) = Some k" by (auto simp: idle split: if_splits)
    have "books (tradeItems w) (\<lambda>p. tradeItem (trader_of w p)) (referenceCounter w) (toReleaseItems w)"
      using trades_in_order [OF assms(1)] by (simp add: trades_ok_def)
    then have owner: "map_of (tradeItems w) k = Some y" if "tradeItem (trader_of w y) = Some k" for y
      using that by (simp add: books_def)
    show False using owner [OF x(3)] owner [of p] owner [of q] ij(1,2) that x(1,2) by auto
  qed
  have "tradeState (trader_of w q) = TRADE_ACCEPT" using q(3) \<open>p \<noteq> q\<close> by simp
  moreover have "\<forall>x\<in>{p, q}. tradePartner (trader_of w' x) = None \<and> tradeItem (trader_of w' x) = None"
    using transfer_trader [OF \<open>p \<noteq> q\<close> q(2)] by auto
  ultimately show ?thesis using q(1) ij gone accept by blast
qed (use assms(3) in simp_all)

lemma one_sided_exchange:
  "\<exists>w'. playerAcceptTrade ((demo 7)\<lparr>move_item := (\<lambda>i q other. if other = None then RETURNVALUE_NOTENOUGHROOM else RETURNVALUE_NOERROR)\<rparr>)
     2 both_offered = Some w' \<and> trade_notes w' = trade_notes both_offered @
     [MoveItem 8 1, OnTradeEvent 8 ON_TRADE_TRANSFER 1, OnTradeEvent 7 ON_TRADE_TRANSFER 2, TradeClose 2, TradeClose 1]"
  using both_offered_traders
  by (simp add: playerAcceptTrade_def demo_def eventPlayerOnTradeAccept_def transfer_def backpack_test_def exchange_def
    internalAddItem_test_def eventPlayerOnTradeCompleted_def Let_def tell_trade_def no_trade_def upd_trader_def setTradeState_def
    drop_trade_item_def ReleaseItem_def)

text \<open>Both ways it can end: 7 and 8 swapped, and 1 with both items because 7 could not be moved.\<close>

theorem items_move_by_agreement_witness:
  "(\<exists>env w'. playerAcceptTrade env 2 both_offered = Some w' \<and>
     item_moves w' = item_moves both_offered @ [MoveItem 8 1, MoveItem 7 2] \<and> map_of (tradeItems w') 7 = None) \<and>
   (\<exists>env w'. playerAcceptTrade env 2 both_offered = Some w' \<and>
     item_moves w' = item_moves both_offered @ [MoveItem 8 1] \<and> map_of (tradeItems w') 8 = None)"
proof
  obtain w' where w': "playerAcceptTrade (demo 7) 2 both_offered = Some w'"
    "item_moves w' = item_moves both_offered @ [MoveItem 8 1, MoveItem 7 2]"
    using both_offered_exchange by (auto simp: item_moves_def)
  then show "\<exists>env w'. playerAcceptTrade env 2 both_offered = Some w' \<and>
     item_moves w' = item_moves both_offered @ [MoveItem 8 1, MoveItem 7 2] \<and> map_of (tradeItems w') 7 = None"
    using items_move_by_agreement [OF both_offered_reachable trade_step.accept [OF w'(1)]]
    by (auto split: if_splits)
next
  let ?env = "(demo 7)\<lparr>move_item := (\<lambda>i q other. if other = None then RETURNVALUE_NOTENOUGHROOM else RETURNVALUE_NOERROR)\<rparr>"
  obtain w' where w': "playerAcceptTrade ?env 2 both_offered = Some w'"
    "item_moves w' = item_moves both_offered @ [MoveItem 8 1]"
    using one_sided_exchange by (auto simp: item_moves_def)
  then show "\<exists>env w'. playerAcceptTrade env 2 both_offered = Some w' \<and>
     item_moves w' = item_moves both_offered @ [MoveItem 8 1] \<and> map_of (tradeItems w') 8 = None"
    using items_move_by_agreement [OF both_offered_reachable trade_step.accept [OF w'(1)]]
    by (auto split: if_splits)
qed

text \<open>C30: After any logins, trade requests, offers, acceptances, cancellations, moves, changes of items and clean-ups the
  trades are in order: partners point at each other, are online and stand within two squares; a player without
  partner offers nothing; at least one of two partners offers an item and they have not both accepted; the map of
  items in trade lists exactly the items offered; and each item holds one reference for being offered and one for
  each pending release, so that no reference is lost or dropped twice.\<close>

theorem trades_consistent:
  assumes "trades_reachable w"
  shows "partners_linked (trader_of w) \<and> (\<forall>p. trader_ok (trader_of w p)) \<and>
    (\<forall>p q. tradePartner (trader_of w p) = Some q \<longrightarrow> pair_ok (trader_of w p) (trader_of w q)) \<and>
    books (tradeItems w) (\<lambda>p. tradeItem (trader_of w p)) (referenceCounter w) (toReleaseItems w)"
  using trades_in_order [OF assms] unfolding trades_ok_def .

theorem trades_consistent_witness:
  "partners_linked (trader_of offered) \<and> books (tradeItems offered) (\<lambda>p. tradeItem (trader_of offered p)) (referenceCounter offered) (toReleaseItems offered)
   \<and> tradePartner (trader_of offered 1) = Some 2"
  using trades_consistent [OF offered_reachable] offered_traders by simp

section \<open>A crash\<close>

lemma backpack_test_None: "backpack_test env x given got = None \<longleftrightarrow> backpack env x = given \<and> got = None"
  by (simp add: backpack_test_def split: option.split)

lemma completed_None: "eventPlayerOnTradeCompleted env p q a b s w = None \<longleftrightarrow> onTradeCompleted env \<and> (a = None \<or> b = None)"
  by (auto simp: eventPlayerOnTradeCompleted_def split: option.split)

lemma Some_or_None: "(case x of None \<Rightarrow> None | Some y \<Rightarrow> Some (f y)) = None \<longleftrightarrow> x = None"
  by (cases x) auto

lemma transfer_None:
  "transfer env p q w = None \<longleftrightarrow>
     (let a = tradeItem (trader_of w p); b = tradeItem (trader_of w q) in
      backpack env q = b \<and> a = None \<or> backpack env p = a \<and> b = None \<or> onTradeCompleted env \<and> (a = None \<or> b = None))"
proof -
  let ?a = "tradeItem (trader_of w p)" and ?b = "tradeItem (trader_of w q)"
  note q = backpack_test_None [of env q ?b ?a] and p = backpack_test_None [of env p ?a ?b]
  show ?thesis
  proof (cases "backpack_test env q ?b ?a")
    case None
    then show ?thesis using q by (simp add: transfer_def Let_def)
  next
    case r: (Some r)
    show ?thesis
    proof (cases "backpack_test env p ?a ?b")
      case None
      then show ?thesis using p r by (simp add: transfer_def Let_def)
    next
      case s: (Some s)
      let ?s = "if backpack env p = ?a \<and> backpack env q = ?b then RETURNVALUE_NOTENOUGHROOM else s"
      obtain r' s' moves success where x: "exchange env p q ?a ?b r ?s = (r', s', moves, success)"
        by (cases "exchange env p q ?a ?b r ?s")
      have "transfer env p q w = None \<longleftrightarrow> onTradeCompleted env \<and> (?a = None \<or> ?b = None)"
        unfolding transfer_def Let_def r s option.case x prod.case
        by (simp only: Some_or_None completed_None)
      moreover have "\<not> (backpack env q = ?b \<and> ?a = None)" "\<not> (backpack env p = ?a \<and> ?b = None)"
        using p q r s by auto
      ultimately show ?thesis unfolding Let_def by argo
    qed
  qed
qed

text \<open>C32: In every reachable state the acceptance of a trade dereferences a null pointer exactly if the partner has
  accepted, is in sight, one of the two has offered nothing, and one of the scripts of the events
  onTradeAccept and onTradeCompleted is registered (the repository registers the first), or the offer is the item in
  the backpack slot of the player who makes it.\<close>

theorem accept_crashes:
  assumes "trades_reachable w" "tradePartner (trader_of w p) = Some q"
  shows "playerAcceptTrade env p w = None \<longleftrightarrow>
    (let a = tradeItem (trader_of w p); b = tradeItem (trader_of w q) in
     (tradeState (trader_of w p) = TRADE_ACKNOWLEDGE \<or> tradeState (trader_of w p) = TRADE_INITIATED) \<and>
     tradeState (trader_of w q) = TRADE_ACCEPT \<and> canThrow env (trader_pos (trader_of w q)) (trader_pos (trader_of w p)) \<and>
     (a = None \<or> b = None) \<and>
     (onTradeAccept env \<noteq> None \<or> onTradeCompleted env \<or> backpack env q = b \<and> a = None \<or> backpack env p = a \<and> b = None))"
proof -
  have ok: "trades_ok w" using trades_in_order [OF assms(1)] .
  then have "partners_linked (trader_of w)" by (simp add: trades_ok_def)
  then have on: "logged_in (trader_of w p)" and pq: "p \<noteq> q"
    using assms(2) unfolding partners_linked_def by blast+
  let ?w = "setTradeState TRADE_ACCEPT p w"
  have tr: "transfer env p q ?w = None \<longleftrightarrow>
     (let a = tradeItem (trader_of w p); b = tradeItem (trader_of w q) in
      backpack env q = b \<and> a = None \<or> backpack env p = a \<and> b = None \<or> onTradeCompleted env \<and> (a = None \<or> b = None))"
    using pq unfolding transfer_None by simp
  have ev: "eventPlayerOnTradeAccept env p q a b = None \<longleftrightarrow> onTradeAccept env \<noteq> None \<and> (a = None \<or> b = None)" for a b
    by (auto simp: eventPlayerOnTradeAccept_def split: option.split)
  have ev_True: "eventPlayerOnTradeAccept env p q a b = Some True" if "onTradeAccept env = None" for a b
    using that by (simp add: eventPlayerOnTradeAccept_def)
  have both: "eventPlayerOnTradeAccept env p q a b \<noteq> None" if "a \<noteq> None" "b \<noteq> None" for a b
    using that by (simp add: ev)
  let ?st = "tradeState (trader_of w p) = TRADE_ACKNOWLEDGE \<or> tradeState (trader_of w p) = TRADE_INITIATED"
  show ?thesis
  proof (cases "?st \<and> tradeState (trader_of w q) = TRADE_ACCEPT \<and> canThrow env (trader_pos (trader_of w q)) (trader_pos (trader_of w p))")
    case False
    then show ?thesis using on pq assms(2) by (auto simp: playerAcceptTrade_def Let_def)
  next
    case True
    let ?e = "eventPlayerOnTradeAccept env p q (tradeItem (trader_of w p)) (tradeItem (trader_of w q))"
    have "playerAcceptTrade env p w = (case ?e of None \<Rightarrow> None
        | Some False \<Rightarrow> Some (internalCloseTrade False p ?w) | Some True \<Rightarrow> transfer env p q ?w)"
      using True on pq assms(2) unfolding playerAcceptTrade_def by (simp add: Let_def)
    then have crash: "playerAcceptTrade env p w = None \<longleftrightarrow> ?e = None \<or> ?e = Some True \<and> transfer env p q ?w = None"
      by (auto split: option.splits bool.splits)
    show ?thesis
    proof (cases "onTradeAccept env")
      case None
      then show ?thesis using True crash tr ev_True by (auto simp: Let_def)
    next
      case (Some f)
      show ?thesis
      proof (cases "tradeItem (trader_of w p) = None \<or> tradeItem (trader_of w q) = None")
        case one: True
        then have "?e = None" unfolding ev using Some by simp
        then show ?thesis unfolding crash Let_def using True one Some by simp
      next
        case False
        then have "?e \<noteq> None" "transfer env p q ?w \<noteq> None" unfolding ev tr Let_def by auto
        then show ?thesis unfolding crash Let_def using False by blast
      qed
    qed
  qed
qed

theorem accept_crashes_witness:
  "playerAcceptTrade (demo 7) 2 accepted = None"
  using accept_crashes [OF accepted_reachable, of 2 1 "demo 7"] offered_traders
  by (simp add: accepted_def Let_def) (simp add: demo_def)

end
