(* ===== verification/Containers.thy ===== *)
theory Containers
  imports ItemStream ReturnValues
begin

unbundle bit_operations_syntax

text \<open>
  Items inside containers, \<open>src/src/container.cpp\<close>.  Items point at the cylinder they are in and containers list
  the items they hold; here items are numbers of a heap, so that sharing and cycles can be spoken of.  The
  cylinders that are no containers (tiles, creatures) are places; what they answer is the record \<open>outer\<close>.  A walk up
  the parents that would not end has the result \<open>None\<close>.
\<close>

section \<open>The heap of items\<close>

record ctype = item_type +
  pickupable :: bool
  type_weight :: u32
  is_quiver :: bool
  is_ammo :: bool
  decayTime :: u32
  stopTime :: bool
  decayTo :: int

datatype location = Nowhere | InContainer nat | OnTile nat | OnCreature nat | InVirtual

record container =
  itemlist :: "nat list"
  maxSize :: u32
  totalWeight :: u32
  ammoCount :: u32

record thing =
  th_item :: item
  th_parent :: location
  th_cont :: "container option"

datatype cont_note =
    OnAddContainerItem nat nat
  | OnUpdateContainerItem nat nat nat nat
  | OnRemoveContainerItem nat nat nat

record heap =
  things :: "nat \<Rightarrow> thing"
  next_thing :: nat
  released :: "nat list"
  cont_notes :: "cont_note list"

type_synonym types = "u16 \<Rightarrow> ctype"

definition FLAG_NOLIMIT :: u32 where "FLAG_NOLIMIT = 1"
definition FLAG_CHILDISOWNER :: u32 where "FLAG_CHILDISOWNER = 8"
definition FLAG_IGNORENOTMOVEABLE :: u32 where "FLAG_IGNORENOTMOVEABLE = 64"
definition FLAG_IGNOREAUTOSTACK :: u32 where "FLAG_IGNOREAUTOSTACK = 128"

definition hasBitSet :: "u32 \<Rightarrow> u32 \<Rightarrow> bool" where
  "hasBitSet flag flags \<longleftrightarrow> flags AND flag \<noteq> 0"

abbreviation INDEX_WHEREEVER :: int where "INDEX_WHEREEVER \<equiv> -1"

record outer =
  outer_queryAdd :: "nat \<Rightarrow> nat \<Rightarrow> u32 \<Rightarrow> u32 \<Rightarrow> heap \<Rightarrow> returnvalue"
  is_inbox :: "nat \<Rightarrow> bool"

definition type_of :: "types \<Rightarrow> item \<Rightarrow> ctype" where
  "type_of T i = T (item_id i)"

definition the_cont :: "heap \<Rightarrow> nat \<Rightarrow> container" where
  "the_cont h c = (case th_cont (things h c) of Some b \<Rightarrow> b
     | None \<Rightarrow> \<lparr>itemlist = [], maxSize = 0, totalWeight = 0, ammoCount = 0\<rparr>)"

definition upd_thing :: "nat \<Rightarrow> (thing \<Rightarrow> thing) \<Rightarrow> heap \<Rightarrow> heap" where
  "upd_thing i f h = h\<lparr>things := (things h)(i := f (things h i))\<rparr>"

definition upd_cont :: "nat \<Rightarrow> (container \<Rightarrow> container) \<Rightarrow> heap \<Rightarrow> heap" where
  "upd_cont c f = upd_thing c (\<lambda>t. t\<lparr>th_cont := map_option f (th_cont t)\<rparr>)"

definition upd_item :: "nat \<Rightarrow> (item \<Rightarrow> item) \<Rightarrow> heap \<Rightarrow> heap" where
  "upd_item i f = upd_thing i (\<lambda>t. t\<lparr>th_item := f (th_item t)\<rparr>)"

definition setParent :: "nat \<Rightarrow> location \<Rightarrow> heap \<Rightarrow> heap" where
  "setParent i pl = upd_thing i (\<lambda>t. t\<lparr>th_parent := pl\<rparr>)"

definition notify :: "cont_note list \<Rightarrow> heap \<Rightarrow> heap" where
  "notify ns h = h\<lparr>cont_notes := cont_notes h @ ns\<rparr>"

section \<open>Items\<close>

definition item_removeAttribute :: "u32 \<Rightarrow> item \<Rightarrow> item" where
  "item_removeAttribute type i =
     (case item_attrs i of None \<Rightarrow> i | Some a \<Rightarrow> i\<lparr>item_attrs := Some (removeAttribute type a)\<rparr>)"

definition getDuration :: "item \<Rightarrow> u32" where
  "getDuration i = (case item_attrs i of None \<Rightarrow> 0 | Some a \<Rightarrow> ucast (getIntAttr ITEM_ATTRIBUTE_DURATION a))"

definition setID :: "types \<Rightarrow> u16 \<Rightarrow> item \<Rightarrow> item" where
  "setID T newid i =
     (let prevIt = type_of T i;
          i = i\<lparr>item_id := newid\<rparr>;
          it = type_of T i;
          newDuration = decayTime it * 1000;
          i = (if newDuration = 0 \<and> \<not> stopTime it \<and> decayTo it < 0
               then item_removeAttribute ITEM_ATTRIBUTE_DURATION (item_removeAttribute ITEM_ATTRIBUTE_DECAYSTATE i) else i);
          i = item_removeAttribute ITEM_ATTRIBUTE_CORPSEOWNER i
      in if newDuration > 0 \<and> (\<not> stopTime prevIt \<or> \<not> item_hasAttribute ITEM_ATTRIBUTE_DURATION i)
         then setDuration newDuration (setDecaying DECAYING_FALSE i) else i)"

definition getBaseWeight :: "types \<Rightarrow> item \<Rightarrow> u32" where
  "getBaseWeight T i =
     (if item_hasAttribute ITEM_ATTRIBUTE_WEIGHT i then ucast (item_getIntAttr ITEM_ATTRIBUTE_WEIGHT i)
      else type_weight (type_of T i))"

definition item_weight :: "types \<Rightarrow> item \<Rightarrow> u32" where
  "item_weight T i =
     (if stackable (type_of T i) then getBaseWeight T i * max 1 (ucast (item_count i)) else getBaseWeight T i)"

definition item_setSubType :: "types \<Rightarrow> u16 \<Rightarrow> item \<Rightarrow> item" where
  "item_setSubType T n i = setSubType (item_type.truncate (type_of T i)) n i"

text \<open>Two values of one type; strings are compared by contents, all else by the word of the union, which for custom
  attributes is the address of a map of its own.\<close>

definition values_differ :: "attr_value \<Rightarrow> attr_value \<Rightarrow> bool" where
  "values_differ v w = (case (v, w) of (StrValue s, StrValue t) \<Rightarrow> s \<noteq> t | (IntValue m, IntValue n) \<Rightarrow> m \<noteq> n | _ \<Rightarrow> True)"

definition item_equals :: "item \<Rightarrow> item option \<Rightarrow> bool" where
  "item_equals i other =
     (case other of None \<Rightarrow> False
      | Some j \<Rightarrow>
          item_id i = item_id j \<and>
          (case item_attrs i of
             None \<Rightarrow> (case item_attrs j of None \<Rightarrow> True | Some b \<Rightarrow> attributeBits b = 0)
           | Some a \<Rightarrow>
               (case item_attrs j of
                  None \<Rightarrow> attributeBits a = 0
                | Some b \<Rightarrow> attributeBits a = attributeBits b \<and>
                    list_all (\<lambda>(type, v). list_all (\<lambda>(type', w). type = type' \<longrightarrow> \<not> values_differ v w) (attribute_list b))
                      (attribute_list a))))"

section \<open>Containers\<close>

text \<open>The containers around \<open>c\<close>, the innermost first, and the place of the outermost.\<close>

partial_function (option) ancestors :: "(nat \<Rightarrow> thing) \<Rightarrow> nat \<Rightarrow> (nat list \<times> location) option" where
  "ancestors t c =
     (case th_parent (t c) of
        InContainer p \<Rightarrow> Option.bind (ancestors t p) (\<lambda>(cs, pl). Some (p # cs, pl))
      | pl \<Rightarrow> Some ([], pl))"

definition getWeight :: "types \<Rightarrow> heap \<Rightarrow> nat \<Rightarrow> u32" where
  "getWeight T h i =
     item_weight T (th_item (things h i)) + (case th_cont (things h i) of None \<Rightarrow> 0 | Some b \<Rightarrow> totalWeight b)"

definition cont_size :: "heap \<Rightarrow> nat \<Rightarrow> nat" where
  "cont_size h c = length (itemlist (the_cont h c))"

definition capacity :: "heap \<Rightarrow> nat \<Rightarrow> u32" where
  "capacity h c = maxSize (the_cont h c)"

definition getItemByIndex :: "heap \<Rightarrow> nat \<Rightarrow> int \<Rightarrow> nat option" where
  "getItemByIndex h c index =
     (if 0 \<le> index \<and> index < int (cont_size h c) then Some (itemlist (the_cont h c) ! nat index) else None)"

definition getThingIndex :: "heap \<Rightarrow> nat \<Rightarrow> nat \<Rightarrow> int" where
  "getThingIndex h c i = (case index_of i (itemlist (the_cont h c)) of None \<Rightarrow> -1 | Some n \<Rightarrow> int n)"

definition addWeight :: "u32 \<Rightarrow> nat \<Rightarrow> heap \<Rightarrow> heap" where
  "addWeight diff c = upd_cont c (\<lambda>b. b\<lparr>totalWeight := totalWeight b + diff\<rparr>)"

definition updateItemWeight :: "u32 \<Rightarrow> nat \<Rightarrow> heap \<Rightarrow> heap option" where
  "updateItemWeight diff c h =
     (case ancestors (things h) c of None \<Rightarrow> None
      | Some (cs, _) \<Rightarrow> Some (fold (addWeight diff) (c # cs) h))"

definition addAmmo :: "u32 \<Rightarrow> nat \<Rightarrow> heap \<Rightarrow> heap" where
  "addAmmo n c = upd_cont c (\<lambda>b. b\<lparr>ammoCount := ammoCount b + n\<rparr>)"

definition item_ammo :: "heap \<Rightarrow> nat \<Rightarrow> u32" where
  "item_ammo h i = ucast (item_count (th_item (things h i)))"

definition has_place :: "heap \<Rightarrow> nat \<Rightarrow> bool" where
  "has_place h c \<longleftrightarrow> th_parent (things h c) \<noteq> Nowhere"

definition push_front :: "nat \<Rightarrow> nat \<Rightarrow> heap \<Rightarrow> heap" where
  "push_front c i h = upd_cont c (\<lambda>b. b\<lparr>itemlist := i # itemlist b\<rparr>) (setParent i (InContainer c) h)"

definition container_addItem :: "nat \<Rightarrow> nat \<Rightarrow> heap \<Rightarrow> heap" where
  "container_addItem c i h = setParent i (InContainer c) (upd_cont c (\<lambda>b. b\<lparr>itemlist := itemlist b @ [i]\<rparr>) h)"

definition notify_add :: "nat \<Rightarrow> nat \<Rightarrow> heap \<Rightarrow> heap" where
  "notify_add c i h =
     (if has_place h c \<and> th_parent (things h c) \<noteq> InVirtual then notify [OnAddContainerItem c i] h else h)"

definition addThing :: "types \<Rightarrow> nat \<Rightarrow> int \<Rightarrow> nat \<Rightarrow> heap \<Rightarrow> heap option" where
  "addThing T c index i h =
     (if index \<ge> sint (capacity h c) then Some h
      else
        let h = push_front c i h
        in map_option (\<lambda>h. notify_add c i (addAmmo (item_ammo h i) c h)) (updateItemWeight (getWeight T h i) c h))"

definition addItemBack :: "types \<Rightarrow> nat \<Rightarrow> nat \<Rightarrow> heap \<Rightarrow> heap option" where
  "addItemBack T c i h =
     (let h = container_addItem c i h
      in map_option (\<lambda>h. notify_add c i (addAmmo (item_ammo h i) c h)) (updateItemWeight (getWeight T h i) c h))"

definition internalAddThing :: "types \<Rightarrow> nat \<Rightarrow> nat \<Rightarrow> heap \<Rightarrow> heap option" where
  "internalAddThing T c i h =
     (let h = push_front c i h
      in map_option (\<lambda>h. addAmmo (item_ammo h i) c h) (updateItemWeight (getWeight T h i) c h))"

text \<open>One child of \<open>unserializeItemNode\<close>, its own contents already read: unlike the others it does not count
  the ammunition.\<close>

definition unserialize_child :: "types \<Rightarrow> nat \<Rightarrow> nat \<Rightarrow> heap \<Rightarrow> heap option" where
  "unserialize_child T c i h = (let h = container_addItem c i h in updateItemWeight (getWeight T h i) c h)"

definition updateThing :: "types \<Rightarrow> nat \<Rightarrow> nat \<Rightarrow> u16 \<Rightarrow> u32 \<Rightarrow> heap \<Rightarrow> heap option" where
  "updateThing T c i newId cnt h =
     (let index = getThingIndex h c i
      in if index = -1 then Some h
         else
           let h = addAmmo (- item_ammo h i) c (addAmmo cnt c h);
               oldWeight = getWeight T h i;
               h = upd_item i (\<lambda>x. item_setSubType T (ucast cnt) (setID T newId x)) h
           in map_option (\<lambda>h. if has_place h c then notify [OnUpdateContainerItem c (nat index) i i] h else h)
                (updateItemWeight (- oldWeight + getWeight T h i) c h))"

definition replaceThing :: "types \<Rightarrow> nat \<Rightarrow> int \<Rightarrow> nat \<Rightarrow> heap \<Rightarrow> heap option" where
  "replaceThing T c index i h =
     (case getItemByIndex h c index of None \<Rightarrow> Some h
      | Some r \<Rightarrow>
          let h = addAmmo (- item_ammo h r) c h;
              h = upd_cont c (\<lambda>b. b\<lparr>itemlist := (itemlist b)[nat index := i]\<rparr>) h;
              h = setParent i (InContainer c) h
          in map_option (\<lambda>h.
               let h = addAmmo (item_ammo h i) c h;
                   h = (if has_place h c then notify [OnUpdateContainerItem c (nat index) r i] h else h)
               in setParent r Nowhere h)
             (updateItemWeight (- getWeight T h r + getWeight T h i) c h))"

definition removeThing :: "types \<Rightarrow> nat \<Rightarrow> nat \<Rightarrow> u32 \<Rightarrow> heap \<Rightarrow> heap option" where
  "removeThing T c i cnt h =
     (let index = getThingIndex h c i; it = th_item (things h i)
      in if index = -1 then Some h
         else if stackable (type_of T it) \<and> cnt \<noteq> ucast (item_count it) then
           let newCount = ucast (if sint (ucast (item_count it) - cnt) < 0 then 0 else ucast (item_count it) - cnt) :: u8;
               oldWeight = getWeight T h i;
               h = addAmmo (- (ucast (item_count it) - ucast newCount)) c h;
               h = upd_item i (setItemCount newCount) h
           in map_option (\<lambda>h. if has_place h c then notify [OnUpdateContainerItem c (nat index) i i] h else h)
                (updateItemWeight (- oldWeight + getWeight T h i) c h)
         else
           map_option (\<lambda>h.
             let h = addAmmo (- item_ammo h i) c h;
                 h = (if has_place h c then notify [OnRemoveContainerItem c (nat index) i] h else h);
                 h = setParent i Nowhere h
             in upd_cont c (\<lambda>b. b\<lparr>itemlist := take (nat index) (itemlist b) @ drop (Suc (nat index)) (itemlist b)\<rparr>) h)
           (updateItemWeight (- getWeight T h i) c h))"

text \<open>A new item without parent\<close>

definition new_thing :: "item \<Rightarrow> u32 option \<Rightarrow> heap \<Rightarrow> nat \<times> heap" where
  "new_thing it box h =
     (next_thing h,
      h\<lparr>things := (things h)(next_thing h := \<lparr>th_item = it, th_parent = Nowhere,
          th_cont = map_option (\<lambda>n. \<lparr>itemlist = [], maxSize = n, totalWeight = 0, ammoCount = 0\<rparr>) box\<rparr>),
        next_thing := Suc (next_thing h)\<rparr>)"

section \<open>Queries\<close>

text \<open>The loop over the parents: with \<open>FLAG_NOLIMIT\<close> inboxes do not matter.\<close>

fun scan_parents :: "outer \<Rightarrow> bool \<Rightarrow> nat \<Rightarrow> nat list \<Rightarrow> returnvalue" where
  "scan_parents env nolimit i [] = RETURNVALUE_NOERROR"
| "scan_parents env nolimit i (c # cs) =
     (if c = i then RETURNVALUE_THISISIMPOSSIBLE
      else if \<not> nolimit \<and> is_inbox env c then RETURNVALUE_CONTAINERNOTENOUGHROOM
      else scan_parents env nolimit i cs)"

text \<open>A container at the top answers a query of a child with no error, so only creatures are asked.\<close>

definition queryAdd :: "types \<Rightarrow> outer \<Rightarrow> nat \<Rightarrow> int \<Rightarrow> nat \<Rightarrow> u32 \<Rightarrow> u32 \<Rightarrow> heap \<Rightarrow> returnvalue option" where
  "queryAdd T env c index i cnt flags h =
     (let it = th_item (things h i)
      in if hasBitSet FLAG_CHILDISOWNER flags then Some RETURNVALUE_NOERROR
         else if \<not> pickupable (type_of T it) then Some RETURNVALUE_CANNOTPICKUP
         else if i = c then Some RETURNVALUE_THISISIMPOSSIBLE
         else if is_quiver (type_of T (th_item (things h c))) \<and> \<not> is_ammo (type_of T it) then Some RETURNVALUE_QUIVERAMMOONLY
         else case ancestors (things h) c of None \<Rightarrow> None
         | Some (cs, pl) \<Rightarrow>
             let ret = scan_parents env (hasBitSet FLAG_NOLIMIT flags) i cs
             in Some (if ret \<noteq> RETURNVALUE_NOERROR then ret
                      else if \<not> hasBitSet FLAG_NOLIMIT flags \<and> index = INDEX_WHEREEVER \<and> int (cont_size h c) \<ge> uint (capacity h c)
                      then RETURNVALUE_CONTAINERNOTENOUGHROOM
                      else case pl of OnCreature k \<Rightarrow> outer_queryAdd env k i cnt (flags OR FLAG_CHILDISOWNER) h
                           | _ \<Rightarrow> RETURNVALUE_NOERROR))"

text \<open>The free places on the stacks of \<open>c\<close>; \<open>slotIndex\<close> counts the stacks asked so far.\<close>

fun stack_room :: "types \<Rightarrow> outer \<Rightarrow> nat \<Rightarrow> nat \<Rightarrow> u32 \<Rightarrow> u32 \<Rightarrow> heap \<Rightarrow> nat \<Rightarrow> nat list \<Rightarrow> u32 option" where
  "stack_room T env c i cnt flags h slotIndex [] = Some 0"
| "stack_room T env c i cnt flags h slotIndex (j # js) =
     (let x = th_item (things h j)
      in if j \<noteq> i \<and> item_equals x (Some (th_item (things h i))) \<and> item_count x < 100
         then Option.bind (queryAdd T env c (int slotIndex) i cnt flags h) (\<lambda>ret.
                map_option (\<lambda>n. (if ret = RETURNVALUE_NOERROR then 100 - ucast (item_count x) else 0) + n)
                  (stack_room T env c i cnt flags h (Suc slotIndex) js))
         else stack_room T env c i cnt flags h slotIndex js)"

definition freeSlots :: "heap \<Rightarrow> nat \<Rightarrow> int" where
  "freeSlots h c = max (s32 (uint (capacity h c) - int (cont_size h c))) 0"

definition queryMaxCount :: "types \<Rightarrow> outer \<Rightarrow> nat \<Rightarrow> int \<Rightarrow> nat \<Rightarrow> u32 \<Rightarrow> u32 \<Rightarrow> heap \<Rightarrow> (returnvalue \<times> u32) option" where
  "queryMaxCount T env c index i cnt flags h =
     (let it = th_item (things h i)
      in if hasBitSet FLAG_NOLIMIT flags then Some (RETURNVALUE_NOERROR, max 1 cnt)
         else if stackable (type_of T it) then
           map_option (\<lambda>n. let m = of_int (freeSlots h c) * 100 + n
                           in (if m < cnt then RETURNVALUE_CONTAINERNOTENOUGHROOM else RETURNVALUE_NOERROR, m))
             (if index = INDEX_WHEREEVER then stack_room T env c i cnt flags h 0 (itemlist (the_cont h c))
              else case getItemByIndex h c index of
                     None \<Rightarrow> Some 0
                   | Some d \<Rightarrow>
                       let x = th_item (things h d)
                       in if item_equals it (Some x) \<and> item_count x < 100
                          then map_option (\<lambda>ret. if ret = RETURNVALUE_NOERROR then 100 - ucast (item_count x) else 0)
                                 (queryAdd T env c index i cnt flags h)
                          else Some 0)
         else let m = of_int (freeSlots h c)
              in Some (if m = 0 then RETURNVALUE_CONTAINERNOTENOUGHROOM else RETURNVALUE_NOERROR, m))"

text \<open>The test for a house at the top never applies: \<open>getTopParent\<close> of a container is a container or a creature.\<close>

definition queryRemove :: "types \<Rightarrow> outer \<Rightarrow> nat \<Rightarrow> nat \<Rightarrow> u32 \<Rightarrow> u32 \<Rightarrow> heap \<Rightarrow> returnvalue option" where
  "queryRemove T env c i cnt flags h =
     (let it = th_item (things h i)
      in if getThingIndex h c i = -1 then Some RETURNVALUE_NOTPOSSIBLE
         else if cnt = 0 \<or> stackable (type_of T it) \<and> cnt > ucast (item_count it) then Some RETURNVALUE_NOTPOSSIBLE
         else if \<not> moveable (type_of T it) \<and> \<not> hasBitSet FLAG_IGNORENOTMOVEABLE flags then Some RETURNVALUE_NOTMOVEABLE
         else Some RETURNVALUE_NOERROR)"

text \<open>The first stack of the list, from position \<open>n\<close> on, that the item can join\<close>

fun find_stack :: "heap \<Rightarrow> nat \<Rightarrow> nat \<Rightarrow> nat list \<Rightarrow> (nat \<times> nat) option" where
  "find_stack h i n [] = None"
| "find_stack h i n (j # js) =
     (if j \<noteq> i \<and> item_equals (th_item (things h j)) (Some (th_item (things h i))) \<and> item_count (th_item (things h j)) < 100
      then Some (n, j) else find_stack h i (Suc n) js)"

text \<open>Joining a stack, unless the item comes from this container\<close>

definition join_stack :: "types \<Rightarrow> nat \<Rightarrow> int \<Rightarrow> nat \<Rightarrow> nat option \<Rightarrow> u32 \<Rightarrow> heap \<Rightarrow> nat \<times> int \<times> nat option" where
  "join_stack T c index i destItem flags h =
     (let it = th_item (things h i)
      in if \<not> hasBitSet FLAG_IGNOREAUTOSTACK flags \<and> stackable (type_of T it) \<and> th_parent (things h i) \<noteq> InContainer c then
           (if (case destItem of None \<Rightarrow> False
                | Some d \<Rightarrow> item_equals (th_item (things h d)) (Some it) \<and> item_count (th_item (things h d)) < 100)
            then (c, index, destItem)
            else case find_stack h i 0 (itemlist (the_cont h c)) of
                   Some (n, j) \<Rightarrow> (c, int n, Some j)
                 | None \<Rightarrow> (c, index, destItem))
         else (c, index, destItem))"

text \<open>The result is the cylinder, the index and the item to stack with.\<close>

definition queryDestination :: "types \<Rightarrow> nat \<Rightarrow> int \<Rightarrow> nat \<Rightarrow> nat option \<Rightarrow> u32 \<Rightarrow> heap \<Rightarrow> nat \<times> int \<times> nat option" where
  "queryDestination T c index i destItem flags h =
     (if index = 254 then
        (case th_parent (things h c) of InContainer p \<Rightarrow> (p, INDEX_WHEREEVER, None) | _ \<Rightarrow> (c, INDEX_WHEREEVER, None))
      else
        let (index, destItem) =
              (if index = 255 \<or> index \<ge> sint (capacity h c) then (INDEX_WHEREEVER, None) else (index, destItem));
            destItem = (if index \<noteq> INDEX_WHEREEVER then
                          (case getItemByIndex h c index of Some d \<Rightarrow> Some d | None \<Rightarrow> destItem) else destItem)
        in case (if index \<noteq> INDEX_WHEREEVER then destItem else None) of
             Some d \<Rightarrow>
               if th_cont (things h d) \<noteq> None then (d, INDEX_WHEREEVER, None)
               else join_stack T c index i destItem flags h
           | None \<Rightarrow> join_stack T c index i destItem flags h)"

section \<open>What the operations change\<close>

lemma things_simps [simp]:
  "things (upd_thing i f h) = (things h)(i := f (things h i))"
  "next_thing (upd_thing i f h) = next_thing h" "released (upd_thing i f h) = released h"
  "things (notify ns h) = things h" "next_thing (notify ns h) = next_thing h" "released (notify ns h) = released h"
  by (simp_all add: upd_thing_def notify_def)

lemma notify_add_simps [simp]:
  "things (notify_add c i h) = things h" "next_thing (notify_add c i h) = next_thing h"
  by (simp_all add: notify_add_def)

lemma the_cont_notify [simp]: "the_cont (notify ns h) c = the_cont h c" "the_cont (notify_add c i h) d = the_cont h d"
  by (simp_all add: the_cont_def)

lemma parent_simps [simp]:
  "th_parent (things (upd_cont c f h) x) = th_parent (things h x)"
  "th_parent (things (upd_item i g h) x) = th_parent (things h x)"
  "th_parent (things (setParent i pl h) x) = (if x = i then pl else th_parent (things h x))"
  by (simp_all add: upd_cont_def upd_item_def setParent_def)

lemma th_item_simps [simp]:
  "th_item (things (upd_cont c f h) x) = th_item (things h x)"
  "th_item (things (upd_item i g h) x) = (if x = i then g (th_item (things h x)) else th_item (things h x))"
  "th_item (things (setParent i pl h) x) = th_item (things h x)"
  by (simp_all add: upd_cont_def upd_item_def setParent_def)

lemma th_cont_simps [simp]:
  "th_cont (things (upd_cont c f h) x) = (if x = c then map_option f (th_cont (things h x)) else th_cont (things h x))"
  "th_cont (things (upd_item i g h) x) = th_cont (things h x)"
  "th_cont (things (setParent i pl h) x) = th_cont (things h x)"
  by (simp_all add: upd_cont_def upd_item_def setParent_def)

lemma next_simps [simp]:
  "next_thing (upd_cont c f h) = next_thing h" "next_thing (upd_item i g h) = next_thing h"
  "next_thing (setParent i pl h) = next_thing h"
  by (simp_all add: upd_cont_def upd_item_def setParent_def)

lemma the_cont_simps [simp]:
  "th_cont (things h c) \<noteq> None \<Longrightarrow> the_cont (upd_cont c f h) x = (if x = c then f (the_cont h c) else the_cont h x)"
  "the_cont (upd_item i g h) x = the_cont h x" "the_cont (setParent i pl h) x = the_cont h x"
  by (auto simp: the_cont_def)

lemma the_cont_other: "x \<noteq> c \<Longrightarrow> the_cont (upd_cont c f h) x = the_cont h x"
  by (simp add: the_cont_def)

lemma getWeight_alt: "getWeight T h i = item_weight T (th_item (things h i)) + totalWeight (the_cont h i)"
  by (simp add: getWeight_def the_cont_def split: option.split)

section \<open>Trees of containers\<close>

definition holds :: "heap \<Rightarrow> (nat \<times> nat) set" where
  "holds h = {(p, i). th_parent (things h i) = InContainer p}"

text \<open>Lists and parents agree, nothing is listed twice, no container is inside itself, and the numbers from
  \<open>next_thing\<close> on are free.\<close>

definition tree_ok :: "heap \<Rightarrow> bool" where
  "tree_ok h \<longleftrightarrow> (\<forall>c i. i \<in> set (itemlist (the_cont h c)) \<longleftrightarrow> th_parent (things h i) = InContainer c) \<and>
     (\<forall>c. distinct (itemlist (the_cont h c))) \<and> wf (holds h) \<and>
     (\<forall>i \<ge> next_thing h. th_parent (things h i) = Nowhere \<and> th_cont (things h i) = None)"

lemma tree_okD:
  assumes "tree_ok h"
  shows "i \<in> set (itemlist (the_cont h c)) \<longleftrightarrow> th_parent (things h i) = InContainer c"
    and "distinct (itemlist (the_cont h c))" "wf (holds h)"
    and "next_thing h \<le> i \<Longrightarrow> th_parent (things h i) = Nowhere \<and> th_cont (things h i) = None"
  using assms by (simp_all add: tree_ok_def)

lemma parent_is_container: "tree_ok h \<Longrightarrow> th_parent (things h i) = InContainer c \<Longrightarrow> th_cont (things h c) \<noteq> None"
  using tree_okD(1) [of h i c] by (cases "th_cont (things h c)") (auto simp: the_cont_def)

lemma ancestors_step:
  "th_parent (t c) = InContainer p \<Longrightarrow> ancestors t c = Option.bind (ancestors t p) (\<lambda>(cs, pl). Some (p # cs, pl))"
  "(\<And>p. th_parent (t c) \<noteq> InContainer p) \<Longrightarrow> ancestors t c = Some ([], th_parent (t c))"
  by (subst ancestors.simps, simp split: location.split)+

lemma ancestors_return:
  assumes "wf (holds h)"
  shows "\<exists>cs pl. ancestors (things h) c = Some (cs, pl)"
  using assms
proof (induction c rule: wf_induct_rule)
  case (less c)
  show ?case
  proof (cases "\<exists>p. th_parent (things h c) = InContainer p")
    case True
    then obtain p where p: "th_parent (things h c) = InContainer p" by blast
    then obtain cs pl where "ancestors (things h) p = Some (cs, pl)" using less by (auto simp: holds_def)
    then show ?thesis using ancestors_step(1) [of "things h" c p] p by simp
  next
    case False
    then show ?thesis using ancestors_step(2) [of "things h" c] by auto
  qed
qed

lemma ancestors_cong:
  assumes "wf (holds h)" "\<And>x. th_parent (things h' x) = th_parent (things h x)"
  shows "ancestors (things h') c = ancestors (things h) c"
  using assms(1)
proof (induction c rule: wf_induct_rule)
  case (less c)
  show ?case
  proof (cases "\<exists>p. th_parent (things h c) = InContainer p")
    case True
    then obtain p where p: "th_parent (things h c) = InContainer p" by blast
    then have "ancestors (things h') p = ancestors (things h) p" using less by (auto simp: holds_def)
    then show ?thesis using ancestors_step(1) [of "things h" c p] ancestors_step(1) [of "things h'" c p] p assms(2) by simp
  next
    case False
    then show ?thesis using ancestors_step(2) [of "things h" c] ancestors_step(2) [of "things h'" c] assms(2) by auto
  qed
qed

lemma ancestors_holds:
  assumes "wf (holds h)" "ancestors (things h) c = Some (cs, pl)"
  shows "x \<in> set (c # cs) \<longleftrightarrow> (x, c) \<in> (holds h)\<^sup>*"
  using assms
proof (induction c arbitrary: cs pl rule: wf_induct_rule)
  case (less c)
  show ?case
  proof (cases "\<exists>p. th_parent (things h c) = InContainer p")
    case True
    then obtain p where p: "th_parent (things h c) = InContainer p" by blast
    then obtain ds where ds: "ancestors (things h) p = Some (ds, pl)" "cs = p # ds"
      using less.prems ancestors_step(1) [of "things h" c p] p by (auto simp: bind_eq_Some_conv)
    have "x \<in> set (p # ds) \<longleftrightarrow> (x, p) \<in> (holds h)\<^sup>*"
      using less.IH [of p ds pl] p ds(1) by (auto simp: holds_def)
    moreover have "(x, c) \<in> (holds h)\<^sup>* \<longleftrightarrow> x = c \<or> (x, p) \<in> (holds h)\<^sup>*"
      using p by (auto simp: holds_def elim: rtranclE intro: rtrancl_into_rtrancl)
    ultimately show ?thesis using ds(2) by auto
  next
    case False
    then have "cs = []" using less.prems ancestors_step(2) [of "things h" c] by auto
    moreover have "(x, c) \<in> (holds h)\<^sup>* \<longleftrightarrow> x = c"
      using False by (auto simp: holds_def elim: rtranclE)
    ultimately show ?thesis by auto
  qed
qed

lemma ancestors_Nil: "ancestors (things h) c = Some ([], pl) \<Longrightarrow> th_parent (things h c) \<noteq> InContainer p"
  using ancestors_step(1) [of "things h" c p] by (cases "ancestors (things h) p") auto

lemma ancestors_Cons:
  "ancestors (things h) c = Some (p # cs, pl) \<Longrightarrow> th_parent (things h c) = InContainer p \<and> ancestors (things h) p = Some (cs, pl)"
  using ancestors_step(1) [of "things h" c] ancestors_step(2) [of "things h" c]
  by (cases "th_parent (things h c)") (auto simp: bind_eq_Some_conv)

lemma tree_ok_cong:
  assumes "tree_ok h" "\<And>x. th_parent (things h' x) = th_parent (things h x)"
    "\<And>x. itemlist (the_cont h' x) = itemlist (the_cont h x)" "next_thing h' = next_thing h"
    "\<And>x. th_cont (things h x) = None \<Longrightarrow> th_cont (things h' x) = None"
  shows "tree_ok h'"
proof -
  have "holds h' = holds h" by (simp add: holds_def assms(2))
  then show ?thesis using assms by (simp add: tree_ok_def)
qed

section \<open>Weights\<close>

definition content_weight :: "types \<Rightarrow> heap \<Rightarrow> nat \<Rightarrow> u32" where
  "content_weight T h c = (\<Sum>i\<leftarrow>itemlist (the_cont h c). getWeight T h i)"

text \<open>Each total weight lacks \<open>f c\<close> of the weight of the contents.\<close>

definition off_by :: "types \<Rightarrow> heap \<Rightarrow> (nat \<Rightarrow> u32) \<Rightarrow> bool" where
  "off_by T h f \<longleftrightarrow> (\<forall>c. totalWeight (the_cont h c) + f c = content_weight T h c)"

lemma sum_list_at:
  assumes "distinct xs" "c \<in> set xs" "\<And>x. x \<noteq> c \<Longrightarrow> g x = f x" "g c = f c + d"
  shows "(\<Sum>x\<leftarrow>xs. g x) = (\<Sum>x\<leftarrow>xs. f x) + (d :: u32)"
  using assms(1,2)
proof (induction xs)
  case (Cons y ys)
  show ?case
  proof (cases "y = c")
    case True
    then have "map g ys = map f ys" using Cons.prems by (intro map_cong refl assms(3)) auto
    then have "(\<Sum>x\<leftarrow>ys. g x) = (\<Sum>x\<leftarrow>ys. f x)" by (rule arg_cong)
    then show ?thesis using True assms(4) by simp
  next
    case False
    then show ?thesis using Cons assms(3) by (simp add: algebra_simps)
  qed
qed simp

lemma sum_list_off:
  assumes "c \<notin> set xs" "\<And>x. x \<noteq> c \<Longrightarrow> g x = f x"
  shows "(\<Sum>x\<leftarrow>xs. g x) = (\<Sum>x\<leftarrow>xs. f x :: u32)"
proof -
  have "map g xs = map f xs" using assms(1) by (intro map_cong refl assms(2)) auto
  then show ?thesis by (rule arg_cong)
qed

text \<open>The weight of one thing changes by \<open>d\<close>: the container it is in, if any, now lacks \<open>d\<close> more.\<close>

lemma off_by_weight_change:
  assumes "tree_ok h" "off_by T h f" "\<And>x. itemlist (the_cont h' x) = itemlist (the_cont h x)"
    and "\<And>x. x \<noteq> i \<Longrightarrow> getWeight T h' x = getWeight T h x" "getWeight T h' i = getWeight T h i + d"
    and "\<And>x. totalWeight (the_cont h' x) + g x = totalWeight (the_cont h x) + f x"
  shows "off_by T h' (\<lambda>x. if th_parent (things h i) = InContainer x then g x + d else g x)"
  unfolding off_by_def
proof
  fix x
  have x: "totalWeight (the_cont h x) + f x = content_weight T h x" using assms(2) by (simp add: off_by_def)
  show "totalWeight (the_cont h' x) + (if th_parent (things h i) = InContainer x then g x + d else g x) = content_weight T h' x"
  proof (cases "th_parent (things h i) = InContainer x")
    case True
    then have "i \<in> set (itemlist (the_cont h x))" "distinct (itemlist (the_cont h x))"
      using tree_okD(1,2) [OF assms(1)] by auto
    then have "content_weight T h' x = content_weight T h x + d"
      unfolding content_weight_def assms(3) using assms(4,5) by (intro sum_list_at) auto
    then show ?thesis using True x assms(6) [of x] by (simp add: algebra_simps)
  next
    case False
    then have "i \<notin> set (itemlist (the_cont h x))" using tree_okD(1) [OF assms(1)] by auto
    then have "content_weight T h' x = content_weight T h x"
      unfolding content_weight_def assms(3) using assms(4) by (intro sum_list_off) auto
    then show ?thesis using False x assms(6) [of x] by simp
  qed
qed

lemma addWeight_simps [simp]:
  "th_parent (things (addWeight d c h) x) = th_parent (things h x)" "th_item (things (addWeight d c h) x) = th_item (things h x)"
  "next_thing (addWeight d c h) = next_thing h"
  "itemlist (the_cont (addWeight d c h) x) = itemlist (the_cont h x)"
  "maxSize (the_cont (addWeight d c h) x) = maxSize (the_cont h x)"
  "ammoCount (the_cont (addWeight d c h) x) = ammoCount (the_cont h x)"
  "th_cont (things (addWeight d c h) x) = None \<longleftrightarrow> th_cont (things h x) = None"
  "cont_notes (addWeight d c h) = cont_notes h" "released (addWeight d c h) = released h"
  by (auto simp: addWeight_def the_cont_def upd_cont_def upd_thing_def split: option.split)

lemma addWeight_total:
  "th_cont (things h c) \<noteq> None \<Longrightarrow>
    totalWeight (the_cont (addWeight d c h) x) = (if x = c then totalWeight (the_cont h x) + d else totalWeight (the_cont h x))"
  by (simp add: addWeight_def)

lemma addWeight_tree: "tree_ok h \<Longrightarrow> tree_ok (addWeight d c h)"
  by (erule tree_ok_cong) simp_all

lemma fold_addWeight_simps [simp]:
  "th_parent (things (fold (addWeight d) cs h) x) = th_parent (things h x)"
  "th_item (things (fold (addWeight d) cs h) x) = th_item (things h x)"
  "next_thing (fold (addWeight d) cs h) = next_thing h"
  "itemlist (the_cont (fold (addWeight d) cs h) x) = itemlist (the_cont h x)"
  "maxSize (the_cont (fold (addWeight d) cs h) x) = maxSize (the_cont h x)"
  "ammoCount (the_cont (fold (addWeight d) cs h) x) = ammoCount (the_cont h x)"
  "th_cont (things (fold (addWeight d) cs h) x) = None \<longleftrightarrow> th_cont (things h x) = None"
  "cont_notes (fold (addWeight d) cs h) = cont_notes h" "released (fold (addWeight d) cs h) = released h"
  by (induction cs arbitrary: h) simp_all

lemma fold_addWeight_other: "x \<notin> set cs \<Longrightarrow> the_cont (fold (addWeight d) cs h) x = the_cont h x"
  by (induction cs arbitrary: h) (simp_all add: addWeight_def the_cont_other)

lemma bump_off_by:
  assumes "tree_ok h" "off_by T h f" "th_cont (things h c) \<noteq> None" "ancestors (things h) c = Some (cs, pl)"
  shows "off_by T (fold (addWeight d) (c # cs) h) (f(c := f c - d))"
  using assms
proof (induction cs arbitrary: c h f)
  case Nil
  have "off_by T (addWeight d c h) (\<lambda>x. if th_parent (things h c) = InContainer x then (f(c := f c - d)) x + d else (f(c := f c - d)) x)"
    using Nil(1-3) by (intro off_by_weight_change [where f = f]) (auto simp: addWeight_total getWeight_alt algebra_simps)
  then show ?case using ancestors_Nil [OF Nil(4)] by simp
next
  case (Cons p ds)
  let ?h = "addWeight d c h"
  let ?g = "f(c := f c - d)"
  have p: "th_parent (things h c) = InContainer p" "ancestors (things h) p = Some (ds, pl)"
    using ancestors_Cons [OF Cons.prems(4)] by auto
  have "wf (holds h)" using Cons.prems(1) by (rule tree_okD(3))
  then have "c \<noteq> p" using p(1) by (auto simp: holds_def dest: wf_not_sym)
  have "off_by T ?h (\<lambda>x. if th_parent (things h c) = InContainer x then ?g x + d else ?g x)"
    using Cons.prems(1-3) by (intro off_by_weight_change [where f = f]) (auto simp: addWeight_total getWeight_alt algebra_simps)
  moreover have "(\<lambda>x. if th_parent (things h c) = InContainer x then ?g x + d else ?g x) = ?g(p := ?g p + d)"
    using p(1) by auto
  ultimately have "off_by T ?h (?g(p := ?g p + d))" by simp
  moreover have "th_cont (things ?h p) \<noteq> None"
    using parent_is_container [OF Cons.prems(1) p(1)] by simp
  moreover have "ancestors (things ?h) p = Some (ds, pl)"
    using ancestors_cong [OF \<open>wf (holds h)\<close>, of ?h p] p(2) by simp
  ultimately have "off_by T (fold (addWeight d) (p # ds) ?h) ((?g(p := ?g p + d))(p := (?g(p := ?g p + d)) p - d))"
    using Cons.IH addWeight_tree [OF Cons.prems(1)] by blast
  moreover have "(?g(p := ?g p + d))(p := (?g(p := ?g p + d)) p - d) = ?g" by auto
  ultimately show ?case by (simp only: fold_simps)
qed

section \<open>The operations keep trees and weights\<close>

definition weights_ok :: "types \<Rightarrow> heap \<Rightarrow> bool" where
  "weights_ok T h \<longleftrightarrow> (\<forall>c. totalWeight (the_cont h c) = content_weight T h c)"

definition ammo_ok :: "heap \<Rightarrow> bool" where
  "ammo_ok h \<longleftrightarrow> (\<forall>c. ammoCount (the_cont h c) = (\<Sum>i\<leftarrow>itemlist (the_cont h c). item_ammo h i))"

text \<open>\<open>i\<close> may be put into \<open>c\<close>: it is neither \<open>c\<close> nor around it.\<close>

definition safe_place :: "heap \<Rightarrow> nat \<Rightarrow> nat \<Rightarrow> bool" where
  "safe_place h c i \<longleftrightarrow> i \<noteq> c \<and> (\<forall>cs pl. ancestors (things h) c = Some (cs, pl) \<longrightarrow> i \<notin> set cs)"

lemma weights_ok_off: "weights_ok T h \<longleftrightarrow> off_by T h (\<lambda>_. 0)"
  by (simp add: weights_ok_def off_by_def)

text \<open>Only weights differ.\<close>

definition same_shape :: "heap \<Rightarrow> heap \<Rightarrow> bool" where
  "same_shape h h' \<longleftrightarrow> (\<forall>x. th_parent (things h' x) = th_parent (things h x) \<and> th_item (things h' x) = th_item (things h x) \<and>
     itemlist (the_cont h' x) = itemlist (the_cont h x) \<and> maxSize (the_cont h' x) = maxSize (the_cont h x) \<and>
     ammoCount (the_cont h' x) = ammoCount (the_cont h x) \<and> (th_cont (things h' x) = None \<longleftrightarrow> th_cont (things h x) = None)) \<and>
     next_thing h' = next_thing h \<and> released h' = released h"

lemma same_shapeD:
  assumes "same_shape h h'"
  shows "th_parent (things h' x) = th_parent (things h x)" "th_item (things h' x) = th_item (things h x)"
    "itemlist (the_cont h' x) = itemlist (the_cont h x)" "maxSize (the_cont h' x) = maxSize (the_cont h x)"
    "ammoCount (the_cont h' x) = ammoCount (the_cont h x)" "th_cont (things h' x) = None \<longleftrightarrow> th_cont (things h x) = None"
    "next_thing h' = next_thing h" "released h' = released h"
  using assms by (simp_all add: same_shape_def)

lemma updateItemWeight_ok:
  assumes "tree_ok h" "th_cont (things h c) \<noteq> None" "off_by T h f"
  obtains h' where "updateItemWeight d c h = Some h'" "tree_ok h'" "off_by T h' (f(c := f c - d))" "same_shape h h'"
    "\<And>x. safe_place h c x \<Longrightarrow> the_cont h' x = the_cont h x"
proof -
  obtain cs pl where a: "ancestors (things h) c = Some (cs, pl)"
    using ancestors_return [OF tree_okD(3) [OF assms(1)]] by blast
  let ?h = "fold (addWeight d) (c # cs) h"
  have "tree_ok ?h" using assms(1) by (rule tree_ok_cong) (simp_all del: fold_simps)
  moreover have "same_shape h ?h" by (simp add: same_shape_def del: fold_simps)
  moreover have "the_cont ?h x = the_cont h x" if "safe_place h c x" for x
    using that a by (intro fold_addWeight_other) (auto simp: safe_place_def)
  ultimately show thesis
    using that [of ?h] bump_off_by [OF assms(1,3,2) a] a by (simp only: updateItemWeight_def) simp
qed

lemma holds_setParent:
  assumes "th_parent (things h i) = Nowhere"
  shows "holds (setParent i (InContainer c) h) = insert (c, i) (holds h)"
  using assms by (auto simp: holds_def split: if_splits)

lemma safe_place_wf:
  assumes "tree_ok h" "safe_place h c i"
  shows "wf (insert (c, i) (holds h))"
proof -
  obtain cs pl where a: "ancestors (things h) c = Some (cs, pl)"
    using ancestors_return [OF tree_okD(3) [OF assms(1)]] by blast
  have "(i, c) \<notin> (holds h)\<^sup>*"
    using ancestors_holds [OF tree_okD(3) [OF assms(1)] a, of i] assms(2) a by (auto simp: safe_place_def)
  then show ?thesis using tree_okD(3) [OF assms(1)] by (simp add: wf_insert)
qed

text \<open>Putting \<open>i\<close> into the list of \<open>c\<close>, at the front or at the back.\<close>

lemma put_tree:
  assumes "tree_ok h" "th_parent (things h i) = Nowhere" "th_cont (things h c) \<noteq> None" "safe_place h c i" "i < next_thing h"
    and "\<And>x. th_parent (things h' x) = (if x = i then InContainer c else th_parent (things h x))"
    and "\<And>x. itemlist (the_cont h' x) = (if x = c then new else itemlist (the_cont h x))"
    and "set new = insert i (set (itemlist (the_cont h c)))" "distinct new" "next_thing h' = next_thing h"
    and "\<And>x. th_cont (things h x) = None \<Longrightarrow> th_cont (things h' x) = None"
  shows "tree_ok h'"
proof -
  have "holds h' = insert (c, i) (holds h)"
    using assms(2) by (auto simp: holds_def assms(6) split: if_splits)
  then have "wf (holds h')" using safe_place_wf [OF assms(1,4)] by simp
  moreover have "j \<in> set (itemlist (the_cont h' x)) \<longleftrightarrow> th_parent (things h' j) = InContainer x" for x j
    using tree_okD(1) [OF assms(1), of j x] assms(2) by (auto simp: assms(6-8))
  moreover have "distinct (itemlist (the_cont h' x))" for x
    using tree_okD(2) [OF assms(1), of x] assms(9) by (simp add: assms(7))
  moreover have "th_parent (things h' j) = Nowhere \<and> th_cont (things h' j) = None" if "next_thing h \<le> j" for j
    using tree_okD(4) [OF assms(1) that] assms(5,11) that by (auto simp: assms(6))
  ultimately show ?thesis by (simp add: tree_ok_def assms(10))
qed

lemma put_off_by:
  assumes "tree_ok h" "off_by T h f" "th_parent (things h i) = Nowhere"
    and "\<And>x. itemlist (the_cont h' x) = (if x = c then new else itemlist (the_cont h x))"
    and "mset new = add_mset i (mset (itemlist (the_cont h c)))"
    and "\<And>x. getWeight T h' x = getWeight T h x" "\<And>x. totalWeight (the_cont h' x) = totalWeight (the_cont h x)"
  shows "off_by T h' (f(c := f c + getWeight T h i))"
  unfolding off_by_def
proof
  fix x
  have x: "totalWeight (the_cont h x) + f x = content_weight T h x" using assms(2) by (simp add: off_by_def)
  show "totalWeight (the_cont h' x) + (f(c := f c + getWeight T h i)) x = content_weight T h' x"
  proof (cases "x = c")
    case True
    have "content_weight T h' c = sum_mset (image_mset (getWeight T h) (mset new))"
      by (simp add: content_weight_def assms(4,6) sum_mset_sum_list [symmetric] mset_map)
    also have "\<dots> = getWeight T h i + content_weight T h c"
      by (simp add: assms(5) content_weight_def sum_mset_sum_list [symmetric] mset_map)
    finally show ?thesis using True x assms(7) by (simp add: algebra_simps)
  next
    case False
    then show ?thesis using x assms(4,6,7) by (simp add: content_weight_def)
  qed
qed

definition ammo_off :: "heap \<Rightarrow> (nat \<Rightarrow> u32) \<Rightarrow> bool" where
  "ammo_off h f \<longleftrightarrow> (\<forall>c. ammoCount (the_cont h c) + f c = (\<Sum>i\<leftarrow>itemlist (the_cont h c). item_ammo h i))"

lemma ammo_ok_off: "ammo_ok h \<longleftrightarrow> ammo_off h (\<lambda>_. 0)"
  by (simp add: ammo_ok_def ammo_off_def)

lemma addAmmo_simps [simp]:
  "th_parent (things (addAmmo n c h) x) = th_parent (things h x)" "th_item (things (addAmmo n c h) x) = th_item (things h x)"
  "next_thing (addAmmo n c h) = next_thing h" "itemlist (the_cont (addAmmo n c h) x) = itemlist (the_cont h x)"
  "maxSize (the_cont (addAmmo n c h) x) = maxSize (the_cont h x)"
  "totalWeight (the_cont (addAmmo n c h) x) = totalWeight (the_cont h x)"
  "th_cont (things (addAmmo n c h) x) = None \<longleftrightarrow> th_cont (things h x) = None"
  "released (addAmmo n c h) = released h" "item_ammo (addAmmo n c h) x = item_ammo h x"
  by (auto simp: addAmmo_def the_cont_def upd_cont_def upd_thing_def item_ammo_def split: option.split)

lemma addAmmo_off:
  assumes "ammo_off h f" "th_cont (things h c) \<noteq> None"
  shows "ammo_off (addAmmo n c h) (f(c := f c - n))"
proof -
  have "ammoCount (the_cont (addAmmo n c h) x) = (if x = c then ammoCount (the_cont h c) + n else ammoCount (the_cont h x))" for x
    using assms(2) by (simp add: addAmmo_def)
  then show ?thesis using assms(1) by (simp add: ammo_off_def)
qed

lemma same_shape_ammo: "same_shape h h' \<Longrightarrow> ammo_off h f \<Longrightarrow> ammo_off h' f"
  by (simp add: ammo_off_def item_ammo_def same_shapeD)

lemma off_by_cong:
  assumes "off_by T h f" "\<And>x. itemlist (the_cont h' x) = itemlist (the_cont h x)"
    "\<And>x. totalWeight (the_cont h' x) = totalWeight (the_cont h x)" "\<And>x. th_item (things h' x) = th_item (things h x)"
  shows "off_by T h' f"
  using assms by (simp add: off_by_def content_weight_def getWeight_alt)

lemma ammo_off_cong:
  assumes "ammo_off h f" "\<And>x. itemlist (the_cont h' x) = itemlist (the_cont h x)"
    "\<And>x. ammoCount (the_cont h' x) = ammoCount (the_cont h x)" "\<And>x. th_item (things h' x) = th_item (things h x)"
  shows "ammo_off h' f"
  using assms by (simp add: ammo_off_def item_ammo_def)

definition heap_ok :: "types \<Rightarrow> bool \<Rightarrow> heap \<Rightarrow> bool" where
  "heap_ok T ammo h \<longleftrightarrow> tree_ok h \<and> weights_ok T h \<and> (ammo \<longrightarrow> ammo_ok h)"

text \<open>The steps after \<open>i\<close> has been put into the list of \<open>c\<close> in the heap \<open>h1\<close>\<close>

lemma insert_ok:
  assumes "heap_ok T ammo h" "th_parent (things h i) = Nowhere" "th_cont (things h c) \<noteq> None" "safe_place h c i" "i < next_thing h"
    and "\<And>x. th_parent (things h1 x) = (if x = i then InContainer c else th_parent (things h x))"
    and "\<And>x. itemlist (the_cont h1 x) = (if x = c then new else itemlist (the_cont h x))"
    and "mset new = add_mset i (mset (itemlist (the_cont h c)))" "next_thing h1 = next_thing h"
    and "\<And>x. th_cont (things h1 x) = None \<longleftrightarrow> th_cont (things h x) = None"
    and "\<And>x. th_item (things h1 x) = th_item (things h x)" "\<And>x. totalWeight (the_cont h1 x) = totalWeight (the_cont h x)"
    and "\<And>x. ammoCount (the_cont h1 x) = ammoCount (the_cont h x)" "\<And>x. maxSize (the_cont h1 x) = maxSize (the_cont h x)"
    and "\<And>h. things (N h) = things h" "\<And>h. next_thing (N h) = next_thing h"
  shows "\<exists>h'. map_option (\<lambda>h. N (addAmmo (item_ammo h i) c h)) (updateItemWeight (getWeight T h1 i) c h1) = Some h' \<and>
    heap_ok T ammo h' \<and> next_thing h' = next_thing h \<and>
    (\<forall>x. th_parent (things h' x) = (if x = i then InContainer c else th_parent (things h x)) \<and>
      th_item (things h' x) = th_item (things h x) \<and> (th_cont (things h' x) = None \<longleftrightarrow> th_cont (things h x) = None) \<and>
      itemlist (the_cont h' x) = (if x = c then new else itemlist (the_cont h x)) \<and>
      maxSize (the_cont h' x) = maxSize (the_cont h x))"
proof -
  have ok: "tree_ok h" "off_by T h (\<lambda>_. 0)" using assms(1) by (simp_all add: heap_ok_def weights_ok_off)
  have i: "i \<notin> set (itemlist (the_cont h c))" using tree_okD(1) [OF ok(1)] assms(2) by auto
  have new: "set new = insert i (set (itemlist (the_cont h c)))" "distinct new"
  proof -
    show s: "set new = insert i (set (itemlist (the_cont h c)))"
      by (metis assms(8) set_mset_add_mset_insert set_mset_mset)
    have "length new = Suc (length (itemlist (the_cont h c)))"
      using arg_cong [OF assms(8), of size] by simp
    then show "distinct new"
      using i tree_okD(2) [OF ok(1), of c] by (intro card_distinct) (simp add: s distinct_card)
  qed
  have t1: "tree_ok h1"
    using put_tree [OF ok(1) assms(2-7) new assms(9)] assms(10) by blast
  have w: "getWeight T h1 x = getWeight T h x" for x by (simp add: getWeight_alt assms(11,12))
  have o1: "off_by T h1 ((\<lambda>_. 0)(c := getWeight T h1 i))"
    using put_off_by [OF ok assms(2,7,8) w assms(12)] by (simp add: w)
  have c1: "th_cont (things h1 c) \<noteq> None" using assms(3,10) by simp
  obtain h2 where h2: "updateItemWeight (getWeight T h1 i) c h1 = Some h2" "tree_ok h2"
      "off_by T h2 (((\<lambda>_. 0)(c := getWeight T h1 i))(c := ((\<lambda>_. 0)(c := getWeight T h1 i)) c - getWeight T h1 i))" "same_shape h1 h2"
    using updateItemWeight_ok [OF t1 c1 o1] by metis
  note s2 = same_shapeD [OF h2(4)]
  let ?h3 = "addAmmo (item_ammo h2 i) c h2"
  have Nc: "the_cont (N g) x = the_cont g x" for g x by (simp add: the_cont_def assms(15))
  have "off_by T h2 (\<lambda>_. 0)" using h2(3) by (simp add: fun_upd_idem)
  then have o3: "off_by T (N ?h3) (\<lambda>_. 0)"
    by (rule off_by_cong) (simp_all add: Nc assms(15))
  have t3: "tree_ok (N ?h3)"
    using h2(2) by (rule tree_ok_cong) (simp_all add: Nc assms(15,16))
  have a3: "ammo_off (N ?h3) (\<lambda>_. 0)" if "ammo"
  proof -
    have a: "ammo_off h (\<lambda>_. 0)" using assms(1) that by (simp add: heap_ok_def ammo_ok_off)
    have "ammo_off h1 ((\<lambda>_. 0)(c := item_ammo h i))"
      unfolding ammo_off_def
    proof
      fix x
      have x: "ammoCount (the_cont h x) = (\<Sum>j\<leftarrow>itemlist (the_cont h x). item_ammo h j)" using a by (simp add: ammo_off_def)
      have "(\<Sum>j\<leftarrow>new. item_ammo h j) = item_ammo h i + (\<Sum>j\<leftarrow>itemlist (the_cont h c). item_ammo h j)"
        by (simp add: sum_mset_sum_list [symmetric] mset_map assms(8))
      then show "ammoCount (the_cont h1 x) + ((\<lambda>_. 0)(c := item_ammo h i)) x = (\<Sum>j\<leftarrow>itemlist (the_cont h1 x). item_ammo h1 j)"
        using x by (simp add: assms(7,11,13) item_ammo_def)
    qed
    then have "ammo_off h2 ((\<lambda>_. 0)(c := item_ammo h i))" by (rule same_shape_ammo [OF h2(4)])
    moreover have "item_ammo h2 i = item_ammo h i" by (simp add: item_ammo_def s2(2) assms(11))
    moreover have "th_cont (things h2 c) \<noteq> None" using c1 s2(6) by simp
    ultimately have "ammo_off ?h3 (\<lambda>_. 0)"
      using addAmmo_off [of h2 "(\<lambda>_. 0)(c := item_ammo h i)" c "item_ammo h2 i"] by (simp add: fun_upd_idem)
    then show ?thesis by (rule ammo_off_cong) (simp_all add: Nc assms(15))
  qed
  show ?thesis
    using h2(1) o3 t3 a3
    by (auto simp: heap_ok_def weights_ok_off ammo_ok_off Nc assms(6,7,9-16) s2)
qed

lemma push_front_simps [simp]:
  "th_parent (things (push_front c i h) x) = (if x = i then InContainer c else th_parent (things h x))"
  "th_item (things (push_front c i h) x) = th_item (things h x)" "next_thing (push_front c i h) = next_thing h"
  "totalWeight (the_cont (push_front c i h) x) = totalWeight (the_cont h x)"
  "ammoCount (the_cont (push_front c i h) x) = ammoCount (the_cont h x)"
  "maxSize (the_cont (push_front c i h) x) = maxSize (the_cont h x)"
  "th_cont (things (push_front c i h) x) = None \<longleftrightarrow> th_cont (things h x) = None"
  by (auto simp: push_front_def upd_cont_def upd_thing_def setParent_def the_cont_def split: option.split)

lemma container_addItem_simps [simp]:
  "th_parent (things (container_addItem c i h) x) = (if x = i then InContainer c else th_parent (things h x))"
  "th_item (things (container_addItem c i h) x) = th_item (things h x)" "next_thing (container_addItem c i h) = next_thing h"
  "totalWeight (the_cont (container_addItem c i h) x) = totalWeight (the_cont h x)"
  "ammoCount (the_cont (container_addItem c i h) x) = ammoCount (the_cont h x)"
  "maxSize (the_cont (container_addItem c i h) x) = maxSize (the_cont h x)"
  "th_cont (things (container_addItem c i h) x) = None \<longleftrightarrow> th_cont (things h x) = None"
  by (auto simp: container_addItem_def upd_cont_def upd_thing_def setParent_def the_cont_def split: option.split)

lemma push_front_list:
  "th_cont (things h c) \<noteq> None \<Longrightarrow>
    itemlist (the_cont (push_front c i h) x) = (if x = c then i # itemlist (the_cont h c) else itemlist (the_cont h x))"
  by (simp add: push_front_def)

lemma container_addItem_list:
  "th_cont (things h c) \<noteq> None \<Longrightarrow>
    itemlist (the_cont (container_addItem c i h) x) = (if x = c then itemlist (the_cont h c) @ [i] else itemlist (the_cont h x))"
  by (simp add: container_addItem_def)

text \<open>What may be put where\<close>

definition can_put :: "heap \<Rightarrow> nat \<Rightarrow> nat \<Rightarrow> bool" where
  "can_put h c i \<longleftrightarrow> th_parent (things h i) = Nowhere \<and> th_cont (things h c) \<noteq> None \<and> safe_place h c i \<and> i < next_thing h"

text \<open>\<open>i\<close> is in the list of \<open>c\<close>, which is now \<open>new\<close>; all else is as before, weights and ammunition apart.\<close>

definition inserted :: "heap \<Rightarrow> nat \<Rightarrow> nat \<Rightarrow> nat list \<Rightarrow> heap \<Rightarrow> bool" where
  "inserted h c i new h' \<longleftrightarrow> next_thing h' = next_thing h \<and>
    (\<forall>x. th_parent (things h' x) = (if x = i then InContainer c else th_parent (things h x)) \<and>
      th_item (things h' x) = th_item (things h x) \<and> (th_cont (things h' x) = None \<longleftrightarrow> th_cont (things h x) = None) \<and>
      itemlist (the_cont h' x) = (if x = c then new else itemlist (the_cont h x)) \<and>
      maxSize (the_cont h' x) = maxSize (the_cont h x))"

lemma addThing_ok:
  assumes "heap_ok T ammo h" "can_put h c i" "index < sint (capacity h c)"
  obtains h' where "addThing T c index i h = Some h'" "heap_ok T ammo h'" "inserted h c i (i # itemlist (the_cont h c)) h'"
proof -
  have "\<exists>h'. map_option (\<lambda>h. notify_add c i (addAmmo (item_ammo h i) c h)) (updateItemWeight (getWeight T (push_front c i h) i) c (push_front c i h)) = Some h' \<and>
    heap_ok T ammo h' \<and> inserted h c i (i # itemlist (the_cont h c)) h'"
    unfolding inserted_def
    by (rule insert_ok [OF assms(1)]) (use assms(2) in \<open>auto simp: can_put_def push_front_list\<close>)
  then show thesis using that assms(3) by (auto simp: addThing_def Let_def)
qed

lemma addItemBack_ok:
  assumes "heap_ok T ammo h" "can_put h c i"
  obtains h' where "addItemBack T c i h = Some h'" "heap_ok T ammo h'" "inserted h c i (itemlist (the_cont h c) @ [i]) h'"
proof -
  have "\<exists>h'. map_option (\<lambda>h. notify_add c i (addAmmo (item_ammo h i) c h)) (updateItemWeight (getWeight T (container_addItem c i h) i) c (container_addItem c i h)) = Some h' \<and>
    heap_ok T ammo h' \<and> inserted h c i (itemlist (the_cont h c) @ [i]) h'"
    unfolding inserted_def
    by (rule insert_ok [OF assms(1)]) (use assms(2) in \<open>auto simp: can_put_def container_addItem_list\<close>)
  then show thesis using that by (auto simp: addItemBack_def Let_def)
qed

lemma internalAddThing_ok:
  assumes "heap_ok T ammo h" "can_put h c i"
  obtains h' where "internalAddThing T c i h = Some h'" "heap_ok T ammo h'" "inserted h c i (i # itemlist (the_cont h c)) h'"
proof -
  have "\<exists>h'. map_option (\<lambda>h. (\<lambda>h. h) (addAmmo (item_ammo h i) c h)) (updateItemWeight (getWeight T (push_front c i h) i) c (push_front c i h)) = Some h' \<and>
    heap_ok T ammo h' \<and> inserted h c i (i # itemlist (the_cont h c)) h'"
    unfolding inserted_def
    by (rule insert_ok [OF assms(1)]) (use assms(2) in \<open>auto simp: can_put_def push_front_list\<close>)
  then show thesis using that by (auto simp: internalAddThing_def Let_def)
qed

lemma unserialize_child_ok:
  assumes "heap_ok T False h" "can_put h c i"
  obtains h' where "unserialize_child T c i h = Some h'" "heap_ok T False h'"
    "inserted h c i (itemlist (the_cont h c) @ [i]) h'"
proof -
  have "\<exists>h'. map_option (\<lambda>h. (\<lambda>h. h) (addAmmo (item_ammo h i) c h)) (updateItemWeight (getWeight T (container_addItem c i h) i) c (container_addItem c i h)) = Some h' \<and>
    heap_ok T False h' \<and> inserted h c i (itemlist (the_cont h c) @ [i]) h'"
    unfolding inserted_def
    by (rule insert_ok [OF assms(1)]) (use assms(2) in \<open>auto simp: can_put_def container_addItem_list\<close>)
  then obtain h2 where h2: "unserialize_child T c i h = Some h2" "heap_ok T False (addAmmo (item_ammo h2 i) c h2)"
      "inserted h c i (itemlist (the_cont h c) @ [i]) (addAmmo (item_ammo h2 i) c h2)"
    by (auto simp: unserialize_child_def Let_def)
  from h2(2) have ok: "tree_ok (addAmmo (item_ammo h2 i) c h2)" "off_by T (addAmmo (item_ammo h2 i) c h2) (\<lambda>_. 0)"
    by (simp_all add: heap_ok_def weights_ok_off)
  have "tree_ok h2" using ok(1) by (rule tree_ok_cong) simp_all
  moreover have "off_by T h2 (\<lambda>_. 0)" using ok(2) by (rule off_by_cong) simp_all
  ultimately have "heap_ok T False h2" by (simp add: heap_ok_def weights_ok_off)
  moreover have "inserted h c i (itemlist (the_cont h c) @ [i]) h2" using h2(3) by (simp add: inserted_def)
  ultimately show thesis using that h2(1) by blast
qed

text \<open>The item \<open>i\<close> of \<open>c\<close> is now \<open>x\<close>.\<close>

definition changed :: "heap \<Rightarrow> nat \<Rightarrow> item \<Rightarrow> heap \<Rightarrow> bool" where
  "changed h i x h' \<longleftrightarrow> next_thing h' = next_thing h \<and>
    (\<forall>y. th_parent (things h' y) = th_parent (things h y) \<and> th_item (things h' y) = (if y = i then x else th_item (things h y)) \<and>
      (th_cont (things h' y) = None \<longleftrightarrow> th_cont (things h y) = None) \<and> itemlist (the_cont h' y) = itemlist (the_cont h y) \<and>
      maxSize (the_cont h' y) = maxSize (the_cont h y))"

lemma change_ok:
  assumes "heap_ok T ammo h" "th_parent (things h i) = InContainer c" "changed h i x h1"
    and "\<And>y. totalWeight (the_cont h1 y) = totalWeight (the_cont h y)"
    and "\<And>y. ammoCount (the_cont h1 y) = ammoCount (the_cont h y) + (if y = c then k else 0)"
    and "ammo \<Longrightarrow> k = ucast (item_count x) - item_ammo h i"
    and "\<And>h. things (N h) = things h" "\<And>h. next_thing (N h) = next_thing h"
  shows "\<exists>h'. map_option N (updateItemWeight (- getWeight T h i + getWeight T h1 i) c h1) = Some h' \<and> heap_ok T ammo h' \<and>
    changed h i x h'"
proof -
  have ok: "tree_ok h" "off_by T h (\<lambda>_. 0)" using assms(1) by (simp_all add: heap_ok_def weights_ok_off)
  have ch: "next_thing h1 = next_thing h" "th_parent (things h1 y) = th_parent (things h y)"
      "th_item (things h1 y) = (if y = i then x else th_item (things h y))" "th_cont (things h1 y) = None \<longleftrightarrow> th_cont (things h y) = None"
      "itemlist (the_cont h1 y) = itemlist (the_cont h y)" "maxSize (the_cont h1 y) = maxSize (the_cont h y)" for y
    using assms(3) by (simp_all add: changed_def)
  have t1: "tree_ok h1" using ok(1) by (rule tree_ok_cong) (simp_all add: ch)
  have c: "th_cont (things h c) \<noteq> None" using parent_is_container [OF ok(1) assms(2)] .
  let ?d = "- getWeight T h i + getWeight T h1 i"
  have w: "y \<noteq> i \<Longrightarrow> getWeight T h1 y = getWeight T h y" for y
    by (simp add: getWeight_alt assms(4) ch)
  have wi: "getWeight T h1 i = getWeight T h i + ?d" by simp
  have "off_by T h1 (\<lambda>y. if th_parent (things h i) = InContainer y then 0 + ?d else 0)"
    by (rule off_by_weight_change [OF ok _ _ wi]) (simp_all add: ch w assms(4))
  moreover have "(\<lambda>y. if th_parent (things h i) = InContainer y then 0 + ?d else 0) = (\<lambda>_. 0)(c := ?d)"
    using assms(2) by auto
  ultimately have o1: "off_by T h1 ((\<lambda>_. 0)(c := ?d))" by simp
  have c1: "th_cont (things h1 c) \<noteq> None" using c ch(4) by simp
  obtain h2 where h2: "updateItemWeight ?d c h1 = Some h2" "tree_ok h2"
      "off_by T h2 (((\<lambda>_. 0)(c := ?d))(c := ((\<lambda>_. 0)(c := ?d)) c - ?d))" "same_shape h1 h2"
    using updateItemWeight_ok [OF t1 c1 o1] by metis
  note s2 = same_shapeD [OF h2(4)]
  have Nc: "the_cont (N g) y = the_cont g y" for g y by (simp add: the_cont_def assms(7))
  have "off_by T h2 (\<lambda>_. 0)" using h2(3) by (simp add: fun_upd_idem)
  then have o3: "off_by T (N h2) (\<lambda>_. 0)"
    by (rule off_by_cong) (simp_all add: Nc assms(7))
  have t3: "tree_ok (N h2)"
    using h2(2) by (rule tree_ok_cong) (simp_all add: Nc assms(7,8))
  have a3: "ammo_off (N h2) (\<lambda>_. 0)" if "ammo"
  proof -
    have a: "ammo_off h (\<lambda>_. 0)" using assms(1) that by (simp add: heap_ok_def ammo_ok_off)
    have "ammo_off h1 (\<lambda>_. 0)"
      unfolding ammo_off_def
    proof
      fix y
      have y: "ammoCount (the_cont h y) = (\<Sum>j\<leftarrow>itemlist (the_cont h y). item_ammo h j)" using a by (simp add: ammo_off_def)
      have "(\<Sum>j\<leftarrow>itemlist (the_cont h y). item_ammo h1 j) = (\<Sum>j\<leftarrow>itemlist (the_cont h y). item_ammo h j) + (if y = c then k else 0)"
      proof (cases "y = c")
        case True
        have "(\<Sum>j\<leftarrow>itemlist (the_cont h c). item_ammo h1 j) = (\<Sum>j\<leftarrow>itemlist (the_cont h c). item_ammo h j) + k"
          using tree_okD(2) [OF ok(1), of c] tree_okD(1) [OF ok(1), of i c] assms(2) assms(6) [OF that]
          by (intro sum_list_at [where c = i]) (simp_all add: item_ammo_def ch)
        then show ?thesis using True by simp
      next
        case False
        have "(\<Sum>j\<leftarrow>itemlist (the_cont h y). item_ammo h1 j) = (\<Sum>j\<leftarrow>itemlist (the_cont h y). item_ammo h j)"
          using tree_okD(1) [OF ok(1), of i y] assms(2) False
          by (intro sum_list_off [where c = i]) (auto simp: item_ammo_def ch)
        then show ?thesis using False by simp
      qed
      then show "ammoCount (the_cont h1 y) + 0 = (\<Sum>j\<leftarrow>itemlist (the_cont h1 y). item_ammo h1 j)"
        using y by (simp add: assms(5) ch)
    qed
    then have "ammo_off h2 (\<lambda>_. 0)" by (rule same_shape_ammo [OF h2(4)])
    then show ?thesis by (rule ammo_off_cong) (simp_all add: Nc assms(7))
  qed
  show ?thesis
    using h2(1) o3 t3 a3 by (auto simp: heap_ok_def weights_ok_off ammo_ok_off changed_def Nc assms(7,8) s2 ch)
qed

lemma getThingIndex_in:
  assumes "tree_ok h"
  shows "getThingIndex h c i \<noteq> -1 \<longleftrightarrow> th_parent (things h i) = InContainer c"
proof -
  have "getThingIndex h c i \<noteq> -1 \<longleftrightarrow> index_of i (itemlist (the_cont h c)) \<noteq> None"
    by (cases "index_of i (itemlist (the_cont h c))") (simp_all add: getThingIndex_def del: index_of_None)
  then have "getThingIndex h c i \<noteq> -1 \<longleftrightarrow> i \<in> set (itemlist (the_cont h c))"
    by simp
  then show ?thesis using tree_okD(1) [OF assms] by simp
qed

lemma th_item_addAmmo_upd [simp]:
  "th_item (things (upd_item i g (addAmmo n c h)) x) = (if x = i then g (th_item (things h x)) else th_item (things h x))"
  by simp

lemma addAmmo_ammoCount:
  "th_cont (things h c) \<noteq> None \<Longrightarrow> ammoCount (the_cont (addAmmo n c h) x) = ammoCount (the_cont h x) + (if x = c then n else 0)"
  by (simp add: addAmmo_def)

lemma item_count_setID [simp]: "item_count (setID T n i) = item_count i"
  by (auto simp: setID_def Let_def item_removeAttribute_def setDuration_def setDecaying_def item_setIntAttr_def split: option.split)

lemma updateThing_ok:
  assumes "heap_ok T ammo h" "th_parent (things h i) = InContainer c"
    and "x = item_setSubType T (ucast cnt) (setID T n (th_item (things h i)))" "ammo \<Longrightarrow> cnt = ucast (item_count x)"
  obtains h' where "updateThing T c i n cnt h = Some h'" "heap_ok T ammo h'" "changed h i x h'"
proof -
  have ok: "tree_ok h" using assms(1) by (simp add: heap_ok_def)
  have c: "th_cont (things h c) \<noteq> None" using parent_is_container [OF ok assms(2)] .
  let ?h = "addAmmo (- item_ammo h i) c (addAmmo cnt c h)"
  let ?h1 = "upd_item i (\<lambda>x. item_setSubType T (ucast cnt) (setID T n x)) ?h"
  let ?N = "\<lambda>h'. if has_place h' c then notify [OnUpdateContainerItem c (nat (getThingIndex h c i)) i i] h' else h'"
  have "\<exists>h'. map_option ?N (updateItemWeight (- getWeight T h i + getWeight T ?h1 i) c ?h1) = Some h' \<and> heap_ok T ammo h' \<and> changed h i x h'"
  proof (rule change_ok [OF assms(1,2)])
    show "changed h i x ?h1" by (simp add: changed_def assms(3))
    show "ammoCount (the_cont ?h1 y) = ammoCount (the_cont h y) + (if y = c then cnt - item_ammo h i else 0)" for y
      using c by (simp add: addAmmo_ammoCount)
  qed (use assms(4) in simp_all)
  moreover have "getWeight T ?h i = getWeight T h i" by (simp add: getWeight_alt)
  moreover have "getThingIndex h c i \<noteq> -1" using getThingIndex_in [OF ok] assms(2) by simp
  ultimately show thesis
    using that by (auto simp: updateThing_def Let_def)
qed

definition remaining :: "item \<Rightarrow> u32 \<Rightarrow> u8" where
  "remaining it cnt = ucast (if sint (ucast (item_count it) - cnt) < 0 then 0 else ucast (item_count it) - cnt)"

lemma removeThing_part:
  assumes "heap_ok T ammo h" "th_parent (things h i) = InContainer c"
    and "stackable (type_of T (th_item (things h i)))" "cnt \<noteq> ucast (item_count (th_item (things h i)))"
  obtains h' where "removeThing T c i cnt h = Some h'" "heap_ok T ammo h'"
    "changed h i (setItemCount (remaining (th_item (things h i)) cnt) (th_item (things h i))) h'"
proof -
  have ok: "tree_ok h" using assms(1) by (simp add: heap_ok_def)
  have c: "th_cont (things h c) \<noteq> None" using parent_is_container [OF ok assms(2)] .
  let ?it = "th_item (things h i)"
  let ?new = "remaining ?it cnt"
  let ?h = "addAmmo (- (ucast (item_count ?it) - ucast ?new)) c h"
  let ?h1 = "upd_item i (setItemCount ?new) ?h"
  let ?N = "\<lambda>h'. if has_place h' c then notify [OnUpdateContainerItem c (nat (getThingIndex h c i)) i i] h' else h'"
  have "\<exists>h'. map_option ?N (updateItemWeight (- getWeight T h i + getWeight T ?h1 i) c ?h1) = Some h' \<and> heap_ok T ammo h' \<and>
      changed h i (setItemCount ?new ?it) h'"
  proof (rule change_ok [OF assms(1,2)])
    show "changed h i (setItemCount ?new ?it) ?h1" by (simp add: changed_def)
    show "ammoCount (the_cont ?h1 y) = ammoCount (the_cont h y) + (if y = c then - (ucast (item_count ?it) - ucast ?new) else 0)" for y
      using c by (simp add: addAmmo_ammoCount)
  qed (simp_all add: item_ammo_def setItemCount_def)
  moreover have "getThingIndex h c i \<noteq> -1" using getThingIndex_in [OF ok] assms(2) by simp
  ultimately show thesis
    using that assms(3,4) by (auto simp: removeThing_def Let_def remaining_def)
qed

definition removed :: "heap \<Rightarrow> nat \<Rightarrow> nat \<Rightarrow> heap \<Rightarrow> bool" where
  "removed h c i h' \<longleftrightarrow> next_thing h' = next_thing h \<and>
    (\<forall>x. th_parent (things h' x) = (if x = i then Nowhere else th_parent (things h x)) \<and>
      th_item (things h' x) = th_item (things h x) \<and> (th_cont (things h' x) = None \<longleftrightarrow> th_cont (things h x) = None) \<and>
      itemlist (the_cont h' x) = (if x = c then remove1 i (itemlist (the_cont h c)) else itemlist (the_cont h x)) \<and>
      maxSize (the_cont h' x) = maxSize (the_cont h x))"

lemma take_drop_index: "index_of i xs = Some n \<Longrightarrow> take n xs @ drop (Suc n) xs = remove1 i xs"
proof (induction xs arbitrary: n)
  case (Cons x xs)
  then show ?case by (cases "x = i") (auto split: option.splits)
qed simp

lemma sum_list_remove1: "i \<in> set xs \<Longrightarrow> (\<Sum>x\<leftarrow>remove1 i xs. f x) = (\<Sum>x\<leftarrow>xs. f x) - (f i :: u32)"
  by (induction xs) auto

lemma contained_safe:
  assumes "tree_ok h" "th_parent (things h i) = InContainer c"
  shows "safe_place h c i"
proof -
  have ne: "i \<noteq> c" using tree_okD(3) [OF assms(1)] assms(2) by (auto simp: holds_def dest: wf_not_sym)
  moreover have "i \<notin> set cs" if "ancestors (things h) c = Some (cs, pl)" for cs pl
  proof
    assume "i \<in> set cs"
    then have "(i, c) \<in> (holds h)\<^sup>*" using ancestors_holds [OF tree_okD(3) [OF assms(1)] that] by auto
    moreover have "(c, i) \<in> holds h" using assms(2) by (simp add: holds_def)
    ultimately have "(c, c) \<in> (holds h)\<^sup>+" by (rule rtrancl_into_trancl2 [rotated])
    then show False using tree_okD(3) [OF assms(1)] wf_acyclic [of "holds h"] by (auto simp: acyclic_def)
  qed
  ultimately show ?thesis by (simp add: safe_place_def)
qed

lemma remove_tree:
  assumes "tree_ok h" "th_parent (things h i) = InContainer c"
    and "\<And>x. th_parent (things h' x) = (if x = i then Nowhere else th_parent (things h x))"
    and "\<And>x. itemlist (the_cont h' x) = (if x = c then remove1 i (itemlist (the_cont h c)) else itemlist (the_cont h x))"
    and "next_thing h' = next_thing h" "\<And>x. th_cont (things h x) = None \<Longrightarrow> th_cont (things h' x) = None"
  shows "tree_ok h'"
proof -
  have "holds h' \<subseteq> holds h" by (auto simp: holds_def assms(3) split: if_splits)
  then have "wf (holds h')" using tree_okD(3) [OF assms(1)] by (rule wf_subset [rotated])
  moreover have "j \<in> set (itemlist (the_cont h' x)) \<longleftrightarrow> th_parent (things h' j) = InContainer x" for j x
    using tree_okD(1) [OF assms(1), of j x] tree_okD(2) [OF assms(1), of c] assms(2) by (auto simp: assms(3,4))
  moreover have "distinct (itemlist (the_cont h' x))" for x
    using tree_okD(2) [OF assms(1), of x] tree_okD(2) [OF assms(1), of c] by (simp add: assms(4))
  moreover have "th_parent (things h' j) = Nowhere \<and> th_cont (things h' j) = None" if "next_thing h \<le> j" for j
    using tree_okD(4) [OF assms(1) that] assms(6) by (simp add: assms(3))
  ultimately show ?thesis by (simp add: tree_ok_def assms(5))
qed

lemma removeThing_all:
  assumes "heap_ok T ammo h" "th_parent (things h i) = InContainer c"
    and "\<not> (stackable (type_of T (th_item (things h i))) \<and> cnt \<noteq> ucast (item_count (th_item (things h i))))"
  obtains h' where "removeThing T c i cnt h = Some h'" "heap_ok T ammo h'" "removed h c i h'"
proof -
  have ok: "tree_ok h" "off_by T h (\<lambda>_. 0)" using assms(1) by (simp_all add: heap_ok_def weights_ok_off)
  have c: "th_cont (things h c) \<noteq> None" using parent_is_container [OF ok(1) assms(2)] .
  have i: "i \<in> set (itemlist (the_cont h c))" using tree_okD(1) [OF ok(1)] assms(2) by simp
  then obtain n where n: "index_of i (itemlist (the_cont h c)) = Some n"
    using index_of_None by (metis not_Some_eq)
  then have idx: "getThingIndex h c i = int n" by (simp add: getThingIndex_def)
  let ?w = "getWeight T h i"
  obtain h2 where h2: "updateItemWeight (- ?w) c h = Some h2" "tree_ok h2"
      "off_by T h2 ((\<lambda>_. 0)(c := (\<lambda>_. 0) c - - ?w))" "same_shape h h2" "\<And>x. safe_place h c x \<Longrightarrow> the_cont h2 x = the_cont h x"
    using updateItemWeight_ok [OF ok(1) c ok(2)] by metis
  note s2 = same_shapeD [OF h2(4)]
  have w2: "getWeight T h2 i = ?w"
    using h2(5) [OF contained_safe [OF ok(1) assms(2)]] s2(2) by (simp add: getWeight_alt)
  let ?h3 = "addAmmo (- item_ammo h2 i) c h2"
  let ?h4 = "if has_place ?h3 c then notify [OnRemoveContainerItem c n i] ?h3 else ?h3"
  define h5 where "h5 = upd_cont c (\<lambda>b. b\<lparr>itemlist := take n (itemlist b) @ drop (Suc n) (itemlist b)\<rparr>) (setParent i Nowhere ?h4)"
  have rem: "removeThing T c i cnt h = Some h5"
    unfolding h5_def using assms(3) h2(1) idx by (auto simp: removeThing_def Let_def)
  have c4: "th_cont (things (setParent i Nowhere ?h4) c) \<noteq> None" using c s2(6) by (simp del: not_None_eq)
  have lists: "itemlist (the_cont h5 x) = (if x = c then remove1 i (itemlist (the_cont h c)) else itemlist (the_cont h x))" for x
    unfolding h5_def using c4 take_drop_index [OF n] by (simp add: s2)
  have par: "th_parent (things h5 x) = (if x = i then Nowhere else th_parent (things h x))" for x
    unfolding h5_def by (simp add: s2)
  have other: "th_item (things h5 x) = th_item (things h x)" "maxSize (the_cont h5 x) = maxSize (the_cont h x)"
    "totalWeight (the_cont h5 x) = totalWeight (the_cont h2 x)"
    "th_cont (things h5 x) = None \<longleftrightarrow> th_cont (things h x) = None" for x
    unfolding h5_def using c4 by (simp_all add: s2)
  have ammo5: "ammoCount (the_cont h5 x) = ammoCount (the_cont h x) + (if x = c then - item_ammo h i else 0)" for x
    unfolding h5_def using c4 c s2(6) by (simp add: addAmmo_ammoCount s2 item_ammo_def)
  have nxt: "next_thing h5 = next_thing h" unfolding h5_def by (simp add: s2)
  have tree: "tree_ok h5"
    by (rule remove_tree [OF ok(1) assms(2) par lists nxt]) (simp add: other)
  have "totalWeight (the_cont h5 x) = content_weight T h5 x" for x
  proof -
    have wx: "getWeight T h5 y = getWeight T h2 y" for y by (simp add: getWeight_alt other s2)
    have o2: "totalWeight (the_cont h2 x) + (if x = c then ?w else 0) = content_weight T h2 x"
      using h2(3) by (auto simp: off_by_def split: if_splits)
    show ?thesis
    proof (cases "x = c")
      case True
      have "content_weight T h5 c = content_weight T h2 c - ?w"
        using sum_list_remove1 [OF i, of "getWeight T h2"] w2 by (simp only: content_weight_def lists wx s2 if_True simp_thms)
      then show ?thesis using True o2 by (simp only: other) (simp add: algebra_simps)
    next
      case False
      then have "content_weight T h5 x = content_weight T h2 x" by (simp only: content_weight_def lists wx s2 if_False)
      then show ?thesis using False o2 by (simp only: other) simp
    qed
  qed
  then have weights: "weights_ok T h5" unfolding weights_ok_def by blast
  have "ammo_ok h5" if "ammo"
  proof -
    have a: "ammo_ok h" using assms(1) that by (simp add: heap_ok_def)
    have ia: "item_ammo h5 y = item_ammo h y" for y by (simp add: item_ammo_def other)
    show ?thesis
      unfolding ammo_ok_def
    proof
      fix x
      have x: "ammoCount (the_cont h x) = (\<Sum>j\<leftarrow>itemlist (the_cont h x). item_ammo h j)" using a by (simp add: ammo_ok_def)
      show "ammoCount (the_cont h5 x) = (\<Sum>j\<leftarrow>itemlist (the_cont h5 x). item_ammo h5 j)"
      proof (cases "x = c")
        case True
        then show ?thesis using x sum_list_remove1 [OF i, of "item_ammo h"] by (simp only: ammo5 lists ia) simp
      next
        case False
        then show ?thesis using x by (simp only: ammo5 lists ia) simp
      qed
    qed
  qed
  then have "heap_ok T ammo h5" using tree weights by (simp add: heap_ok_def)
  moreover have "removed h c i h5"
    by (simp add: removed_def par lists other nxt)
  ultimately show thesis using that rem by blast
qed

lemma ancestors_off_chain:
  assumes "ancestors (things h) c = Some (cs, pl)" "\<And>x. x \<in> set (c # cs) \<Longrightarrow> th_parent (things h' x) = th_parent (things h x)"
  shows "ancestors (things h') c = Some (cs, pl)"
  using assms
proof (induction cs arbitrary: c)
  case Nil
  then have "th_parent (things h c) \<noteq> InContainer p" for p using ancestors_Nil by blast
  then show ?case
    using Nil ancestors_step(2) [of "things h" c] ancestors_step(2) [of "things h'" c] by auto
next
  case (Cons p cs)
  have p: "th_parent (things h c) = InContainer p" "ancestors (things h) p = Some (cs, pl)"
    using ancestors_Cons [OF Cons.prems(1)] by auto
  then have "ancestors (things h') p = Some (cs, pl)" using Cons by auto
  then show ?case
    using ancestors_step(1) [of "things h'" c p] p Cons.prems(2) by simp
qed

lemma safe_place_off_chain:
  assumes "tree_ok h" "safe_place h c i" "\<And>x. x \<noteq> r \<Longrightarrow> th_parent (things h' x) = th_parent (things h x)" "safe_place h c r"
  shows "safe_place h' c i"
proof -
  obtain cs pl where a: "ancestors (things h) c = Some (cs, pl)"
    using ancestors_return [OF tree_okD(3) [OF assms(1)]] by blast
  then have "ancestors (things h') c = Some (cs, pl)"
  proof (rule ancestors_off_chain)
    fix x assume "x \<in> set (c # cs)"
    then have "x \<noteq> r" using assms(4) a by (auto simp: safe_place_def)
    then show "th_parent (things h' x) = th_parent (things h x)" by (rule assms(3))
  qed
  then show ?thesis using assms(2) a by (auto simp: safe_place_def)
qed

lemma setParent_commute [simp]:
  "addWeight d c (setParent r pl h) = setParent r pl (addWeight d c h)"
  "addAmmo n c (setParent r pl h) = setParent r pl (addAmmo n c h)"
  "notify ns (setParent r pl h) = setParent r pl (notify ns h)"
  by (auto simp: addWeight_def addAmmo_def upd_cont_def upd_thing_def setParent_def notify_def fun_eq_iff)

lemma fold_addWeight_setParent: "fold (addWeight d) cs (setParent r pl h) = setParent r pl (fold (addWeight d) cs h)"
  by (induction cs arbitrary: h) simp_all

lemma set_list_update_distinct:
  assumes "distinct xs" "n < length xs"
  shows "mset (xs[n := i]) = add_mset i (mset (remove1 (xs ! n) xs))"
  using assms(2) by (simp add: mset_update)

text \<open>The item \<open>r\<close> of \<open>c\<close> gives its place to \<open>i\<close>.\<close>

definition replaced :: "heap \<Rightarrow> nat \<Rightarrow> nat \<Rightarrow> nat \<Rightarrow> nat \<Rightarrow> heap \<Rightarrow> bool" where
  "replaced h c n r i h' \<longleftrightarrow> next_thing h' = next_thing h \<and>
    (\<forall>x. th_parent (things h' x) = (if x = r then Nowhere else if x = i then InContainer c else th_parent (things h x)) \<and>
      th_item (things h' x) = th_item (things h x) \<and> (th_cont (things h' x) = None \<longleftrightarrow> th_cont (things h x) = None) \<and>
      itemlist (the_cont h' x) = (if x = c then (itemlist (the_cont h c))[n := i] else itemlist (the_cont h x)) \<and>
      maxSize (the_cont h' x) = maxSize (the_cont h x))"

lemma replaceThing_ok:
  assumes "heap_ok T ammo h" "can_put h c i" "getItemByIndex h c index = Some r"
  obtains h' where "replaceThing T c index i h = Some h'" "heap_ok T ammo h'" "replaced h c (nat index) r i h'"
proof -
  have ok: "tree_ok h" "off_by T h (\<lambda>_. 0)" using assms(1) by (simp_all add: heap_ok_def weights_ok_off)
  let ?n = "nat index" and ?l = "itemlist (the_cont h c)"
  have n: "?n < length ?l" "?l ! ?n = r"
    using assms(3) by (auto simp: getItemByIndex_def cont_size_def split: if_splits)
  then have r: "r \<in> set ?l" by (metis nth_mem)
  then have rp: "th_parent (things h r) = InContainer c" using tree_okD(1) [OF ok(1)] by simp
  have c: "th_cont (things h c) \<noteq> None" using assms(2) by (simp add: can_put_def)
  have i: "th_parent (things h i) = Nowhere" "safe_place h c i" "i < next_thing h" using assms(2) by (simp_all add: can_put_def)
  have ri: "r \<noteq> i" using rp i(1) by auto
  have rs: "safe_place h c r" using contained_safe [OF ok(1) rp] .
  let ?h1 = "setParent i (InContainer c) (upd_cont c (\<lambda>b. b\<lparr>itemlist := (itemlist b)[?n := i]\<rparr>) (addAmmo (- item_ammo h r) c h))"
  define k where "k = setParent r Nowhere ?h1"
  define hr where "hr = upd_cont c (\<lambda>b. b\<lparr>itemlist := remove1 r (itemlist b)\<rparr>) (setParent r Nowhere h)"
  have ca: "th_cont (things (addAmmo (- item_ammo h r) c h) c) \<noteq> None" using c by (simp del: not_None_eq)
  have mnew: "mset (?l[?n := i]) = add_mset i (mset (remove1 r ?l))"
    using set_list_update_distinct [OF tree_okD(2) [OF ok(1)] n(1), of i] n(2) by simp
  have hr: "tree_ok hr" "th_parent (things hr x) = (if x = r then Nowhere else th_parent (things h x))"
      "itemlist (the_cont hr x) = (if x = c then remove1 r ?l else itemlist (the_cont h x))" "next_thing hr = next_thing h"
      "th_cont (things hr x) = None \<longleftrightarrow> th_cont (things h x) = None" "getWeight T hr x = getWeight T h x"
      "totalWeight (the_cont hr x) = totalWeight (the_cont h x)" for x
  proof -
    show f: "th_parent (things hr x) = (if x = r then Nowhere else th_parent (things h x))"
      "itemlist (the_cont hr x) = (if x = c then remove1 r ?l else itemlist (the_cont h x))" "next_thing hr = next_thing h"
      "th_cont (things hr x) = None \<longleftrightarrow> th_cont (things h x) = None" "getWeight T hr x = getWeight T h x"
      "totalWeight (the_cont hr x) = totalWeight (the_cont h x)" for x
      unfolding hr_def using c by (simp_all add: getWeight_alt)
    show "tree_ok hr" by (rule remove_tree [OF ok(1) rp f(1-3)]) (simp add: f(4))
  qed
  have off_r: "off_by T hr ((\<lambda>_. 0)(c := - getWeight T h r))"
    unfolding off_by_def
  proof
    fix x
    have x: "totalWeight (the_cont h x) = content_weight T h x" using ok(2) by (simp add: off_by_def)
    show "totalWeight (the_cont hr x) + ((\<lambda>_. 0)(c := - getWeight T h r)) x = content_weight T hr x"
      using x sum_list_remove1 [OF r, of "getWeight T h"] by (simp add: content_weight_def hr(3,6,7))
  qed
  have kf: "th_parent (things k x) = (if x = i then InContainer c else th_parent (things hr x))"
      "itemlist (the_cont k x) = (if x = c then ?l[?n := i] else itemlist (the_cont hr x))" "next_thing k = next_thing hr"
      "th_cont (things k x) = None \<longleftrightarrow> th_cont (things hr x) = None" "getWeight T k x = getWeight T hr x"
      "totalWeight (the_cont k x) = totalWeight (the_cont hr x)" "th_item (things k x) = th_item (things h x)"
      "maxSize (the_cont k x) = maxSize (the_cont h x)"
      "ammoCount (the_cont k x) = ammoCount (the_cont h x) + (if x = c then - item_ammo h r else 0)" for x
    unfolding k_def using ca c ri by (simp_all add: getWeight_alt hr addAmmo_ammoCount) (auto simp: hr_def)
  have ihr: "th_parent (things hr i) = Nowhere" "th_cont (things hr c) \<noteq> None" "i < next_thing hr"
    using i(1,3) ri c by (simp_all add: hr del: not_None_eq)
  have shr: "safe_place hr c i"
    using safe_place_off_chain [OF ok(1) i(2) _ rs, of hr] hr(2) by simp
  have new: "set (?l[?n := i]) = insert i (set (remove1 r ?l))" "distinct (?l[?n := i])"
  proof -
    show s: "set (?l[?n := i]) = insert i (set (remove1 r ?l))"
      by (metis mnew set_mset_add_mset_insert set_mset_mset)
    have "i \<notin> set ?l" using tree_okD(1) [OF ok(1)] i(1) by simp
    then have "distinct (i # remove1 r ?l)" using tree_okD(2) [OF ok(1), of c] by (auto dest: notin_set_remove1)
    then show "distinct (?l[?n := i])" using mnew by (metis mset.simps(2) mset_eq_imp_distinct_iff)
  qed
  have tk: "tree_ok k"
    by (rule put_tree [OF hr(1) ihr(1,2) shr ihr(3) kf(1,2) _ new(2) kf(3)]) (simp_all add: new(1) hr(3) kf(4))
  have ok_k: "off_by T k (((\<lambda>_. 0)(c := - getWeight T h r))(c := - getWeight T h r + getWeight T hr i))"
    using put_off_by [OF hr(1) off_r ihr(1) kf(2) _ kf(5,6)] mnew by (simp add: hr(3))
  have wi: "getWeight T hr i = getWeight T h i" by (rule hr(6))
  have w1: "getWeight T ?h1 x = getWeight T h x" for x using ca by (simp add: getWeight_alt)
  let ?d = "- getWeight T h r + getWeight T h i"
  obtain cs pl where a: "ancestors (things h) c = Some (cs, pl)"
    using ancestors_return [OF tree_okD(3) [OF ok(1)]] by blast
  have off_chain: "x \<noteq> r \<and> x \<noteq> i" if "x \<in> set (c # cs)" for x
    using that rs i(2) a by (auto simp: safe_place_def)
  have a1: "ancestors (things ?h1) c = Some (cs, pl)" "ancestors (things k) c = Some (cs, pl)"
    using off_chain by (auto intro!: ancestors_off_chain [OF a] simp: kf(1) hr(2))
  let ?h2 = "fold (addWeight ?d) (c # cs) ?h1"
  have u1: "updateItemWeight ?d c ?h1 = Some ?h2" using a1(1) by (simp add: updateItemWeight_def)
  have uk: "updateItemWeight ?d c k = Some (setParent r Nowhere ?h2)"
    using a1(2) unfolding k_def by (simp add: updateItemWeight_def fold_addWeight_setParent del: fold_simps)
  define k2 where "k2 = setParent r Nowhere ?h2"
  have ck: "th_cont (things k c) \<noteq> None" using c by (simp add: kf(4) hr(5) del: not_None_eq)
  have "\<exists>g. updateItemWeight ?d c k = Some g \<and> tree_ok g \<and> off_by T g (\<lambda>_. 0) \<and> same_shape k g"
  proof -
    have o: "off_by T k ((\<lambda>_. 0)(c := ?d))" using ok_k wi by simp
    show ?thesis
      by (rule updateItemWeight_ok [OF tk ck o, of ?d]) (auto simp: fun_upd_idem)
  qed
  then have k2: "tree_ok k2" "off_by T k2 (\<lambda>_. 0)" "same_shape k k2" using uk by (simp_all add: k2_def)
  note s2 = same_shapeD [OF k2(3)]
  define g where "g = addAmmo (item_ammo k2 i) c k2"
  define h' where "h' = (if has_place g c then notify [OnUpdateContainerItem c ?n r i] g else g)"
  have th: "things h' = things g" "next_thing h' = next_thing g" by (simp_all add: h'_def)
  then have tc: "the_cont h' x = the_cont g x" for x by (simp add: the_cont_def)
  have gs: "th_parent (things g x) = th_parent (things k x)" "th_item (things g x) = th_item (things h x)"
    "itemlist (the_cont g x) = itemlist (the_cont k x)" "maxSize (the_cont g x) = maxSize (the_cont h x)"
    "th_cont (things g x) = None \<longleftrightarrow> th_cont (things k x) = None" "next_thing g = next_thing k"
    "totalWeight (the_cont g x) = totalWeight (the_cont k2 x)" for x
    unfolding g_def by (simp_all add: s2 kf)
  have "th_parent (things ?h2 c) = th_parent (things g c)"
    using off_chain [of c] by (simp add: gs kf(1) hr(2) del: fold_simps)
  then have hp: "has_place (addAmmo n c ?h2) c = has_place g c" for n by (simp add: has_place_def del: fold_simps)
  let ?F = "\<lambda>h. setParent r Nowhere (if has_place (addAmmo (item_ammo h i) c h) c
      then notify [OnUpdateContainerItem c ?n r i] (addAmmo (item_ammo h i) c h) else addAmmo (item_ammo h i) c h)"
  have "replaceThing T c index i h = map_option ?F (updateItemWeight (- getWeight T ?h1 r + getWeight T ?h1 i) c ?h1)"
    by (simp only: replaceThing_def assms(3) option.case Let_def)
  also have "\<dots> = Some (?F ?h2)"
    unfolding w1 u1 by (simp only: option.map)
  also have "?F ?h2 = h'"
  proof -
    have "item_ammo (setParent r Nowhere ?h2) i = item_ammo ?h2 i" by (simp only: item_ammo_def th_item_simps)
    then have "g = setParent r Nowhere (addAmmo (item_ammo ?h2 i) c ?h2)"
      unfolding g_def k2_def by (simp only: setParent_commute)
    then show ?thesis unfolding h'_def hp by (simp only: setParent_commute split: if_split) simp
  qed
  finally have "replaceThing T c index i h = Some h'" .
  moreover have "tree_ok h'"
    using k2(1) by (rule tree_ok_cong) (simp_all add: th tc gs s2)
  moreover have "off_by T h' (\<lambda>_. 0)"
    using k2(2) by (rule off_by_cong) (simp_all add: th tc gs s2 kf)
  moreover have "ammo_off h' (\<lambda>_. 0)" if "ammo"
  proof -
    have a0: "ammo_off h (\<lambda>_. 0)" using assms(1) that by (simp add: heap_ok_def ammo_ok_off)
    have "ammo_off k ((\<lambda>_. 0)(c := item_ammo h i))"
      unfolding ammo_off_def
    proof
      fix x
      have x: "ammoCount (the_cont h x) = (\<Sum>j\<leftarrow>itemlist (the_cont h x). item_ammo h j)" using a0 by (simp add: ammo_off_def)
      have "(\<Sum>j\<leftarrow>?l[?n := i]. item_ammo h j) = sum_mset (image_mset (item_ammo h) (mset (?l[?n := i])))"
        by (simp add: sum_mset_sum_list [symmetric] mset_map)
      also have "\<dots> = item_ammo h i + (\<Sum>j\<leftarrow>remove1 r ?l. item_ammo h j)"
        unfolding mnew by (simp add: sum_mset_sum_list [symmetric] mset_map)
      finally have "(\<Sum>j\<leftarrow>?l[?n := i]. item_ammo h j) = item_ammo h i + (\<Sum>j\<leftarrow>?l. item_ammo h j) - item_ammo h r"
        using sum_list_remove1 [OF r, of "item_ammo h"] by simp
      moreover have "item_ammo k j = item_ammo h j" for j by (simp add: item_ammo_def kf)
      ultimately show "ammoCount (the_cont k x) + ((\<lambda>_. 0)(c := item_ammo h i)) x = (\<Sum>j\<leftarrow>itemlist (the_cont k x). item_ammo k j)"
        using x by (simp add: kf hr)
    qed
    then have "ammo_off k2 ((\<lambda>_. 0)(c := item_ammo h i))" by (rule same_shape_ammo [OF k2(3)])
    moreover have "item_ammo k2 i = item_ammo h i" by (simp add: item_ammo_def s2 kf)
    moreover have "th_cont (things k2 c) \<noteq> None" using ck s2(6) by (simp del: not_None_eq)
    ultimately have "ammo_off g (\<lambda>_. 0)"
      using addAmmo_off [of k2 "(\<lambda>_. 0)(c := item_ammo h i)" c "item_ammo k2 i"] by (simp add: g_def fun_upd_idem)
    then show ?thesis by (rule ammo_off_cong) (simp_all add: th tc)
  qed
  moreover have "replaced h c ?n r i h'"
    using ri by (auto simp: replaced_def th tc gs kf hr)
  ultimately show thesis using that by (simp add: heap_ok_def weights_ok_off ammo_ok_off)
qed

section \<open>Reachable heaps\<close>

lemma scan_parents_ok: "scan_parents env b i cs = RETURNVALUE_NOERROR \<Longrightarrow> i \<notin> set cs"
  by (induction cs) (auto split: if_splits)

lemma queryAdd_safe:
  assumes "queryAdd T env c index i cnt flags h = Some RETURNVALUE_NOERROR" "\<not> hasBitSet FLAG_CHILDISOWNER flags"
  shows "safe_place h c i"
proof -
  have "i \<noteq> c" using assms by (auto simp: queryAdd_def Let_def split: if_splits)
  moreover have "i \<notin> set cs" if "ancestors (things h) c = Some (cs, pl)" for cs pl
    using assms that scan_parents_ok [of env "hasBitSet FLAG_NOLIMIT flags" i cs]
    by (auto simp: queryAdd_def Let_def split: if_splits)
  ultimately show ?thesis by (simp add: safe_place_def)
qed

lemma new_thing_ok:
  assumes "heap_ok T ammo h" "new_thing it box h = (i, h')"
  shows "heap_ok T ammo h' \<and> i = next_thing h \<and> next_thing h' = Suc i \<and> th_parent (things h' i) = Nowhere \<and>
    th_item (things h' i) = it \<and> (th_cont (things h' i) = None \<longleftrightarrow> box = None) \<and> itemlist (the_cont h' i) = [] \<and>
    (\<forall>x. x \<noteq> i \<longrightarrow> things h' x = things h x)"
proof -
  have h': "h' = h\<lparr>things := (things h)(i := \<lparr>th_item = it, th_parent = Nowhere,
      th_cont = map_option (\<lambda>n. \<lparr>itemlist = [], maxSize = n, totalWeight = 0, ammoCount = 0\<rparr>) box\<rparr>), next_thing := Suc i\<rparr>"
    and i: "i = next_thing h"
    using assms(2) by (auto simp: new_thing_def)
  have ok: "tree_ok h" "weights_ok T h" "ammo \<longrightarrow> ammo_ok h" using assms(1) by (simp_all add: heap_ok_def)
  have free: "th_parent (things h i) = Nowhere" "th_cont (things h i) = None" using tree_okD(4) [OF ok(1), of i] i by auto
  have par: "th_parent (things h' x) = th_parent (things h x)" for x using free by (simp add: h')
  have cont: "the_cont h' x = (if x = i then \<lparr>itemlist = [], maxSize = (case box of None \<Rightarrow> 0 | Some n \<Rightarrow> n), totalWeight = 0, ammoCount = 0\<rparr>
      else the_cont h x)" for x
    by (simp add: the_cont_def h' split: option.split)
  have lists: "itemlist (the_cont h' x) = itemlist (the_cont h x)" "totalWeight (the_cont h' x) = totalWeight (the_cont h x)"
    "ammoCount (the_cont h' x) = ammoCount (the_cont h x)" for x
    using free the_cont_def [of h i] by (simp_all add: cont)
  have other: "i \<notin> set (itemlist (the_cont h x))" for x using tree_okD(1) [OF ok(1), of i x] free by simp
  have "holds h' = holds h" by (simp add: holds_def par)
  moreover have "th_parent (things h' x) = Nowhere \<and> th_cont (things h' x) = None" if "next_thing h' \<le> x" for x
    using tree_okD(4) [OF ok(1), of x] that i by (simp add: par) (simp add: h')
  ultimately have "tree_ok h'" using ok(1) by (simp add: tree_ok_def par lists)
  moreover have gw: "getWeight T h' x = getWeight T h x" "item_ammo h' x = item_ammo h x" if "x \<noteq> i" for x
    using that by (simp_all add: getWeight_def h' item_ammo_def)
  have "content_weight T h' x = content_weight T h x" "(\<Sum>j\<leftarrow>itemlist (the_cont h x). item_ammo h' j) = (\<Sum>j\<leftarrow>itemlist (the_cont h x). item_ammo h j)" for x
    unfolding content_weight_def lists
    by (rule sum_list_off [OF other gw(1)], assumption, rule sum_list_off [OF other gw(2)], assumption)
  then have "weights_ok T h'" "ammo \<longrightarrow> ammo_ok h'" using ok(2,3) by (simp_all add: weights_ok_def ammo_ok_def lists)
  moreover have "itemlist (the_cont h' i) = []" by (simp add: cont)
  moreover have "i = next_thing h \<and> next_thing h' = Suc i \<and> th_parent (things h' i) = Nowhere \<and> th_item (things h' i) = it \<and>
      (th_cont (things h' i) = None \<longleftrightarrow> box = None) \<and> (\<forall>x. x \<noteq> i \<longrightarrow> things h' x = things h x)"
    by (simp add: h' i)
  ultimately show ?thesis unfolding heap_ok_def by blast
qed

text \<open>The operations that the game calls, each where the callers call it: an item is added to a container that
  accepted it (\<open>queryAdd\<close>), or while it is loaded, from a player's stored items
  (\<open>internalAddThing\<close>) or as a node of the map (\<open>unserialize_child\<close>).  With \<open>ammo\<close>, updates are those of
  items whose subtype is their count and nothing is loaded from nodes: these are the
  operations that keep the ammunition counter.  \<open>Container::clone\<close>, which only scripts call, is not
  a step.\<close>

inductive heap_step :: "types \<Rightarrow> outer \<Rightarrow> bool \<Rightarrow> heap \<Rightarrow> heap \<Rightarrow> bool" for T env ammo where
  create: "heap_step T env ammo h (snd (new_thing it box h))"
| add: "queryAdd T env c index i cnt flags h = Some RETURNVALUE_NOERROR \<Longrightarrow> \<not> hasBitSet FLAG_CHILDISOWNER flags \<Longrightarrow>
    th_parent (things h i) = Nowhere \<Longrightarrow> th_cont (things h c) \<noteq> None \<Longrightarrow> i < next_thing h \<Longrightarrow>
    addThing T c index i h = Some h' \<Longrightarrow> heap_step T env ammo h h'"
| load: "can_put h c i \<Longrightarrow> internalAddThing T c i h = Some h' \<Longrightarrow> heap_step T env ammo h h'"
| load_node: "\<not> ammo \<Longrightarrow> can_put h c i \<Longrightarrow> unserialize_child T c i h = Some h' \<Longrightarrow> heap_step T env ammo h h'"
| add_back: "can_put h c i \<Longrightarrow> addItemBack T c i h = Some h' \<Longrightarrow> heap_step T env ammo h h'"
| update: "(ammo \<Longrightarrow> cnt = ucast (item_count (item_setSubType T (ucast cnt) (setID T n (th_item (things h i)))))) \<Longrightarrow>
    updateThing T c i n cnt h = Some h' \<Longrightarrow> heap_step T env ammo h h'"
| replace: "can_put h c i \<Longrightarrow> replaceThing T c index i h = Some h' \<Longrightarrow> heap_step T env ammo h h'"
| remove: "removeThing T c i cnt h = Some h' \<Longrightarrow> heap_step T env ammo h h'"

definition empty_heap :: heap where
  "empty_heap = \<lparr>things = (\<lambda>_. \<lparr>th_item = \<lparr>item_id = 0, item_count = 0, item_attrs = None\<rparr>, th_parent = Nowhere, th_cont = None\<rparr>),
     next_thing = 0, released = [], cont_notes = []\<rparr>"

inductive heap_reachable :: "types \<Rightarrow> outer \<Rightarrow> bool \<Rightarrow> heap \<Rightarrow> bool" for T env ammo where
  start: "heap_reachable T env ammo empty_heap"
| step: "heap_reachable T env ammo h \<Longrightarrow> heap_step T env ammo h h' \<Longrightarrow> heap_reachable T env ammo h'"

lemma heap_step_ok:
  assumes "heap_step T env ammo h h'" "heap_ok T ammo h"
  shows "heap_ok T ammo h'"
  using assms(1)
proof (cases rule: heap_step.cases)
  case (create it box)
  then show ?thesis using new_thing_ok [OF assms(2), of it box] by (metis prod.collapse)
next
  case (add c index i cnt flags)
  then have p: "can_put h c i" using queryAdd_safe by (simp add: can_put_def)
  show ?thesis
  proof (cases "index < sint (capacity h c)")
    case True
    from addThing_ok [OF assms(2) p True] show ?thesis using add(6) by (metis option.inject)
  next
    case False
    then show ?thesis using add(6) assms(2) by (simp add: addThing_def)
  qed
next
  case (load c i)
  from internalAddThing_ok [OF assms(2) load(1)] show ?thesis using load(2) by (metis option.inject)
next
  case (load_node c i)
  from unserialize_child_ok [of T h c i] show ?thesis using load_node assms(2) by (metis option.inject)
next
  case (add_back c i)
  from addItemBack_ok [OF assms(2) add_back(1)] show ?thesis using add_back(2) by (metis option.inject)
next
  case (update cnt n i c)
  show ?thesis
  proof (cases "th_parent (things h i) = InContainer c")
    case True
    from updateThing_ok [OF assms(2) True refl update(1)] show ?thesis using update(2) by (metis option.inject)
  next
    case False
    then have "getThingIndex h c i = -1" using getThingIndex_in assms(2) by (auto simp: heap_ok_def)
    then show ?thesis using update(2) assms(2) by (simp add: updateThing_def)
  qed
next
  case (replace c i index)
  show ?thesis
  proof (cases "getItemByIndex h c index")
    case None
    then show ?thesis using replace(2) assms(2) by (simp add: replaceThing_def)
  next
    case (Some r)
    from replaceThing_ok [OF assms(2) replace(1) Some] show ?thesis using replace(2) by (metis option.inject)
  qed
next
  case (remove c i cnt)
  show ?thesis
  proof (cases "th_parent (things h i) = InContainer c")
    case True
    show ?thesis
    proof (cases "stackable (type_of T (th_item (things h i))) \<and> cnt \<noteq> ucast (item_count (th_item (things h i)))")
      case part: True
      from removeThing_part [OF assms(2) True] part show ?thesis using remove by (metis option.inject)
    next
      case False
      from removeThing_all [OF assms(2) True False] show ?thesis using remove by (metis option.inject)
    qed
  next
    case False
    then have "getThingIndex h c i = -1" using getThingIndex_in assms(2) by (auto simp: heap_ok_def)
    then show ?thesis using remove assms(2) by (simp add: removeThing_def)
  qed
qed

lemma heap_reachable_ok: "heap_reachable T env ammo h \<Longrightarrow> heap_ok T ammo h"
proof (induction rule: heap_reachable.induct)
  case start
  have "the_cont empty_heap c = \<lparr>itemlist = [], maxSize = 0, totalWeight = 0, ammoCount = 0\<rparr>" for c
    by (simp add: empty_heap_def the_cont_def)
  moreover have "holds empty_heap = {}" by (simp add: holds_def empty_heap_def)
  ultimately show ?case
    by (simp add: heap_ok_def tree_ok_def weights_ok_def ammo_ok_def content_weight_def) (simp add: empty_heap_def)
next
  case (step h h')
  then show ?case using heap_step_ok by blast
qed

text \<open>C33: after any creations, additions (to containers that accepted the item), loadings of stored items and of
  map nodes, updates, replacements and removals (copies of whole containers excepted) the total
  weight of each container is the weight of what it lists, nested contents included; an item is
  listed exactly in the container it points to, once; and no container is inside itself, so that
  every walk up the parents ends.  The ammunition counter is the sum of the counts as long as
  updates are those of items whose subtype is their count and nothing has been loaded from
  map nodes: these do not count.\<close>

theorem container_trees:
  assumes "heap_reachable T env ammo h"
  shows "totalWeight (the_cont h c) = (\<Sum>i\<leftarrow>itemlist (the_cont h c). getWeight T h i) \<and>
    (i \<in> set (itemlist (the_cont h c)) \<longleftrightarrow> th_parent (things h i) = InContainer c) \<and> distinct (itemlist (the_cont h c)) \<and>
    (\<exists>cs pl. ancestors (things h) c = Some (cs, pl) \<and> c \<notin> set cs) \<and>
    (ammo \<longrightarrow> ammoCount (the_cont h c) = (\<Sum>i\<leftarrow>itemlist (the_cont h c). item_ammo h i))"
proof -
  have ok: "tree_ok h" "weights_ok T h" "ammo \<longrightarrow> ammo_ok h" using heap_reachable_ok [OF assms] by (simp_all add: heap_ok_def)
  obtain cs pl where a: "ancestors (things h) c = Some (cs, pl)"
    using ancestors_return [OF tree_okD(3) [OF ok(1)]] by blast
  have "c \<notin> set cs"
  proof (cases cs)
    case (Cons p ds)
    then have p: "th_parent (things h c) = InContainer p" "ancestors (things h) p = Some (ds, pl)"
      using ancestors_Cons [of h c p ds pl] a Cons by auto
    show ?thesis using contained_safe [OF ok(1) p(1)] p(2) Cons by (auto simp: safe_place_def)
  qed simp
  moreover have "totalWeight (the_cont h c) = (\<Sum>i\<leftarrow>itemlist (the_cont h c). getWeight T h i)"
    using ok(2) unfolding weights_ok_def content_weight_def by blast
  moreover have "ammo \<longrightarrow> ammoCount (the_cont h c) = (\<Sum>i\<leftarrow>itemlist (the_cont h c). item_ammo h i)"
    using ok(3) unfolding ammo_ok_def by blast
  ultimately show ?thesis
    using a tree_okD(1) [OF ok(1), of i c] tree_okD(2) [OF ok(1), of c] by blast
qed

definition plain_item :: "u16 \<Rightarrow> u8 \<Rightarrow> item" where
  "plain_item n k = \<lparr>item_id = n, item_count = k, item_attrs = None\<rparr>"

definition coins :: ctype where
  "coins = \<lparr>fluid_or_splash = False, stackable = True, type_charges = 0, moveable = True, unique_free = (\<lambda>_. True),
     pickupable = True, type_weight = 10, is_quiver = False, is_ammo = False, decayTime = 0, stopTime = False, decayTo = -1\<rparr>"

definition open_field :: outer where
  "open_field = \<lparr>outer_queryAdd = (\<lambda>_ _ _ _ _. RETURNVALUE_NOERROR), is_inbox = (\<lambda>_. False)\<rparr>"

definition bag_and_coins :: heap where
  "bag_and_coins = snd (new_thing (plain_item 2 50) None (snd (new_thing (plain_item 1 1) (Some 8) empty_heap)))"

lemma bag_and_coins_reachable: "heap_reachable T env ammo bag_and_coins"
  unfolding bag_and_coins_def
  by (rule heap_reachable.step [OF heap_reachable.step [OF heap_reachable.start heap_step.create] heap_step.create])

lemma bag_and_coins_simps:
  "things bag_and_coins 0 = \<lparr>th_item = plain_item 1 1, th_parent = Nowhere,
     th_cont = Some \<lparr>itemlist = [], maxSize = 8, totalWeight = 0, ammoCount = 0\<rparr>\<rparr>"
  "things bag_and_coins (Suc 0) = \<lparr>th_item = plain_item 2 50, th_parent = Nowhere, th_cont = None\<rparr>"
  "next_thing bag_and_coins = 2"
  by (simp_all add: bag_and_coins_def new_thing_def empty_heap_def)

lemma bag_can_hold: "can_put bag_and_coins 0 1"
proof -
  have "ancestors (things bag_and_coins) 0 = Some ([], Nowhere)"
    by (subst ancestors_step(2)) (simp_all add: bag_and_coins_simps)
  then show ?thesis by (simp add: can_put_def safe_place_def bag_and_coins_simps)
qed

lemma bag_filled:
  "\<exists>h. internalAddThing (\<lambda>_. coins) 0 1 bag_and_coins = Some h \<and> heap_reachable (\<lambda>_. coins) env True h \<and>
    inserted bag_and_coins 0 1 [1] h"
proof -
  have "itemlist (the_cont bag_and_coins 0) = []" by (simp add: the_cont_def bag_and_coins_simps)
  with internalAddThing_ok [OF heap_reachable_ok [OF bag_and_coins_reachable] bag_can_hold, of "\<lambda>_. coins"]
  obtain h where "internalAddThing (\<lambda>_. coins) 0 1 bag_and_coins = Some h" "inserted bag_and_coins 0 1 [1] h"
    by (metis One_nat_def)
  then show ?thesis
    using heap_reachable.step [OF bag_and_coins_reachable heap_step.load [OF bag_can_hold]] by blast
qed

theorem container_trees_witness:
  "\<exists>h. heap_reachable (\<lambda>_. coins) open_field True h \<and> itemlist (the_cont h 0) = [1] \<and>
     totalWeight (the_cont h 0) = getWeight (\<lambda>_. coins) h 1 \<and> ammoCount (the_cont h 0) = 50"
proof -
  obtain h where h: "heap_reachable (\<lambda>_. coins) open_field True h" "inserted bag_and_coins 0 1 [1] h"
    using bag_filled by blast
  have "itemlist (the_cont h 0) = [1]" "th_item (things h 1) = plain_item 2 50"
    using h(2) by (simp_all add: inserted_def bag_and_coins_simps)
  then have "totalWeight (the_cont h 0) = getWeight (\<lambda>_. coins) h 1 \<and> ammoCount (the_cont h 0) = 50"
    using container_trees [OF h(1), of 0 1] by (simp add: item_ammo_def plain_item_def)
  then show ?thesis
    using h(1) \<open>itemlist (the_cont h 0) = [1]\<close> by blast
qed

end
