(* ===== verification/ContainerIter.thy ===== *)
theory ContainerIter
  imports Containers
begin

text \<open>
  \<open>ContainerIterator\<close> of \<open>src/src/container.cpp\<close>: it walks through the contents of a container, nested containers
  included, in breadth-first order, with a queue of containers and a position in the first of them.
\<close>

section \<open>The iterator\<close>

record iter =
  over :: "nat list"
  cur :: nat

definition iterator :: "heap \<Rightarrow> nat \<Rightarrow> iter" where
  "iterator h c = (if itemlist (the_cont h c) \<noteq> [] then \<lparr>over = [c], cur = 0\<rparr> else \<lparr>over = [], cur = 0\<rparr>)"

definition hasNext :: "iter \<Rightarrow> bool" where
  "hasNext it \<longleftrightarrow> over it \<noteq> []"

definition current :: "heap \<Rightarrow> iter \<Rightarrow> nat" where
  "current h it = itemlist (the_cont h (hd (over it))) ! cur it"

definition advance :: "heap \<Rightarrow> iter \<Rightarrow> iter" where
  "advance h it =
     (let i = current h it;
          it = (if th_cont (things h i) \<noteq> None \<and> itemlist (the_cont h i) \<noteq> [] then it\<lparr>over := over it @ [i]\<rparr> else it);
          it = it\<lparr>cur := Suc (cur it)\<rparr>
      in if cur it = length (itemlist (the_cont h (hd (over it)))) then it\<lparr>over := tl (over it), cur := 0\<rparr> else it)"

text \<open>What a loop over the iterator sees\<close>

partial_function (option) visit :: "heap \<Rightarrow> iter \<Rightarrow> nat list option" where
  "visit h it =
     (if \<not> hasNext it then Some []
      else Option.bind (visit h (advance h it)) (\<lambda>l. Some (current h it # l)))"

definition getItemHoldingCount :: "heap \<Rightarrow> nat \<Rightarrow> u32 option" where
  "getItemHoldingCount h c = map_option (\<lambda>l. of_nat (length l)) (visit h (iterator h c))"

definition isHoldingItem :: "heap \<Rightarrow> nat \<Rightarrow> nat \<Rightarrow> bool option" where
  "isHoldingItem h c i = map_option (\<lambda>l. i \<in> set l) (visit h (iterator h c))"

section \<open>Breadth-first order\<close>

abbreviation children :: "heap \<Rightarrow> nat \<Rightarrow> nat list" where
  "children h x \<equiv> itemlist (the_cont h x)"

definition pending :: "heap \<Rightarrow> iter \<Rightarrow> nat list" where
  "pending h it = (case over it of [] \<Rightarrow> [] | c # cs \<Rightarrow> drop (cur it) (children h c) @ concat (map (children h) cs))"

definition iter_ok :: "heap \<Rightarrow> iter \<Rightarrow> bool" where
  "iter_ok h it \<longleftrightarrow> (case over it of [] \<Rightarrow> True | c # cs \<Rightarrow> cur it < length (children h c) \<and> (\<forall>d \<in> set cs. children h d \<noteq> []))"

lemma pending_empty: "iter_ok h it \<Longrightarrow> pending h it = [] \<longleftrightarrow> \<not> hasNext it"
  by (auto simp: pending_def iter_ok_def hasNext_def split: list.splits)

lemma pending_current:
  assumes "iter_ok h it" "hasNext it"
  shows "pending h it = current h it # tl (pending h it)"
proof -
  obtain c cs where o: "over it = c # cs" using assms(2) by (auto simp: hasNext_def neq_Nil_conv)
  then have "cur it < length (children h c)" using assms(1) by (simp add: iter_ok_def)
  then have "drop (cur it) (children h c) = children h c ! cur it # drop (Suc (cur it)) (children h c)"
    by (simp add: Cons_nth_drop_Suc)
  then show ?thesis using o by (simp add: pending_def current_def)
qed

lemma no_children: "th_cont (things h x) = None \<Longrightarrow> children h x = []"
  by (simp add: the_cont_def)

lemma pending_advance:
  assumes "iter_ok h it" "hasNext it"
  shows "pending h (advance h it) = tl (pending h it) @ children h (current h it) \<and> iter_ok h (advance h it)"
proof -
  obtain c cs where o: "over it = c # cs" using assms(2) by (auto simp: hasNext_def neq_Nil_conv)
  let ?x = "current h it"
  have cur: "cur it < length (children h c)" and cs: "\<forall>d \<in> set cs. children h d \<noteq> []"
    using assms(1) o by (simp_all add: iter_ok_def)
  have tl: "tl (pending h it) = drop (Suc (cur it)) (children h c) @ concat (map (children h) cs)"
    using cur o by (simp add: pending_def Cons_nth_drop_Suc [symmetric])
  define new where "new = (if children h ?x \<noteq> [] then [?x] else [])"
  have "th_cont (things h ?x) \<noteq> None \<and> children h ?x \<noteq> [] \<longleftrightarrow> children h ?x \<noteq> []"
    using no_children by blast
  then have adv: "advance h it = (if Suc (cur it) = length (children h c)
      then it\<lparr>over := cs @ new, cur := 0\<rparr> else it\<lparr>over := c # cs @ new, cur := Suc (cur it)\<rparr>)"
    using o by (simp add: advance_def Let_def new_def)
  have new: "concat (map (children h) new) = children h ?x" "\<forall>d \<in> set new. children h d \<noteq> []"
    by (simp_all add: new_def)
  show ?thesis
  proof (cases "Suc (cur it) = length (children h c)")
    case True
    have "pending h (it\<lparr>over := ds, cur := 0\<rparr>) = concat (map (children h) ds)" for ds
      by (cases ds) (simp_all add: pending_def)
    moreover have "iter_ok h (it\<lparr>over := ds, cur := 0\<rparr>)" if "\<forall>d \<in> set ds. children h d \<noteq> []" for ds
      using that by (cases ds) (simp_all add: iter_ok_def)
    moreover have "\<forall>d \<in> set (cs @ new). children h d \<noteq> []" using cs new(2) by auto
    ultimately show ?thesis using True tl new(1) by (simp add: adv)
  next
    case False
    then show ?thesis using cur cs new tl by (auto simp: adv pending_def iter_ok_def)
  qed
qed

section \<open>Each item once\<close>

definition below :: "heap \<Rightarrow> nat \<Rightarrow> nat set" where
  "below h x = {i. (x, i) \<in> (holds h)\<^sup>*}"

definition forest :: "heap \<Rightarrow> nat list \<Rightarrow> bool" where
  "forest h p \<longleftrightarrow> distinct p \<and> (\<forall>x \<in> set p. \<forall>y \<in> set p. (x, y) \<in> (holds h)\<^sup>* \<longrightarrow> x = y)"

lemma holds_child: "tree_ok h \<Longrightarrow> (x, i) \<in> holds h \<longleftrightarrow> i \<in> set (children h x)"
  by (simp add: holds_def tree_okD(1))

lemma one_parent: "(x, i) \<in> holds h \<Longrightarrow> (y, i) \<in> holds h \<Longrightarrow> x = y"
  by (simp add: holds_def)

lemma chain_up:
  assumes "(x, i) \<in> (holds h)\<^sup>*" "(y, i) \<in> (holds h)\<^sup>*"
  shows "(x, y) \<in> (holds h)\<^sup>* \<or> (y, x) \<in> (holds h)\<^sup>*"
  using assms
proof (induction rule: rtrancl_induct)
  case (step z i)
  show ?case
  proof (cases "y = i")
    case True
    then show ?thesis using step.hyps by (auto intro: rtrancl_into_rtrancl)
  next
    case False
    then obtain z' where "(y, z') \<in> (holds h)\<^sup>*" "(z', i) \<in> holds h" using step.prems by (auto elim: rtranclE)
    then show ?thesis using step one_parent by metis
  qed
qed auto

lemma forest_disjoint: "forest h p \<Longrightarrow> x \<in> set p \<Longrightarrow> y \<in> set p \<Longrightarrow> x \<noteq> y \<Longrightarrow> below h x \<inter> below h y = {}"
  using chain_up [of x _ h y] unfolding forest_def below_def by blast

lemma below_unfold:
  assumes "tree_ok h"
  shows "below h x = insert x (\<Union>y \<in> set (children h x). below h y)"
proof -
  have "(x, i) \<in> (holds h)\<^sup>* \<longleftrightarrow> i = x \<or> (\<exists>y. (x, y) \<in> holds h \<and> (y, i) \<in> (holds h)\<^sup>*)" for i
    by (auto elim: converse_rtranclE intro: converse_rtrancl_into_rtrancl)
  then show ?thesis using holds_child [OF assms] by (auto simp: below_def)
qed

lemma not_below_child:
  assumes "tree_ok h" "y \<in> set (children h x)"
  shows "(y, x) \<notin> (holds h)\<^sup>*"
proof
  assume "(y, x) \<in> (holds h)\<^sup>*"
  moreover have "(x, y) \<in> holds h" using assms holds_child by simp
  ultimately have "(x, x) \<in> (holds h)\<^sup>+" by (rule rtrancl_into_trancl2 [rotated])
  then show False using wf_acyclic [OF tree_okD(3) [OF assms(1)]] by (auto simp: acyclic_def)
qed

lemma up_from_child:
  assumes "tree_ok h" "c \<in> set (children h x)" "(y, c) \<in> (holds h)\<^sup>*" "y \<noteq> c"
  shows "(y, x) \<in> (holds h)\<^sup>*"
proof -
  obtain z where "(y, z) \<in> (holds h)\<^sup>*" "(z, c) \<in> holds h" using assms(3,4) by (auto elim: rtranclE)
  moreover have "(x, c) \<in> holds h" using assms(1,2) holds_child by simp
  ultimately show ?thesis using one_parent by metis
qed

lemma forest_children: "tree_ok h \<Longrightarrow> forest h (children h x)"
  unfolding forest_def using tree_okD(2) up_from_child not_below_child by blast

lemma forest_step:
  assumes "tree_ok h" "forest h (x # p)"
  shows "forest h (p @ children h x)"
proof -
  have p: "distinct p" "x \<notin> set p" and fp: "\<And>u v. u \<in> set (x # p) \<Longrightarrow> v \<in> set (x # p) \<Longrightarrow> (u, v) \<in> (holds h)\<^sup>* \<Longrightarrow> u = v"
    using assms(2) by (auto simp: forest_def)
  have ch: "(x, c) \<in> (holds h)\<^sup>*" if "c \<in> set (children h x)" for c
    using that holds_child [OF assms(1)] by auto
  have down: False if "c \<in> set (children h x)" "y \<in> set p" "(c, y) \<in> (holds h)\<^sup>*" for c y
    using fp [of x y] ch [OF that(1)] that p(2) by (auto intro: rtrancl_trans)
  have up: False if "c \<in> set (children h x)" "y \<in> set p" "(y, c) \<in> (holds h)\<^sup>*" for c y
  proof (cases "y = c")
    case True
    then show ?thesis using down that by blast
  next
    case False
    then show ?thesis using up_from_child [OF assms(1) that(1,3)] fp [of y x] that(2) p(2) by auto
  qed
  have "distinct (p @ children h x)"
    using p(1) tree_okD(2) [OF assms(1)] down by auto
  moreover have "u = v" if "u \<in> set (p @ children h x)" "v \<in> set (p @ children h x)" "(u, v) \<in> (holds h)\<^sup>*" for u v
    using that down up fp [of u v] forest_children [OF assms(1), of x] by (auto simp: forest_def)
  ultimately show ?thesis by (simp add: forest_def)
qed

lemma below_finite:
  assumes "tree_ok h"
  shows "finite (below h x)"
proof -
  have "below h x \<subseteq> insert x {..<next_thing h}"
  proof
    fix i assume "i \<in> below h x"
    then have "i = x \<or> (\<exists>p. th_parent (things h i) = InContainer p)" by (auto simp: below_def holds_def elim: rtranclE)
    then show "i \<in> insert x {..<next_thing h}" using tree_okD(4) [OF assms, of i] by (auto simp: not_le [symmetric])
  qed
  then show ?thesis by (rule finite_subset) simp
qed

lemma subtree_weight:
  "weights_ok T h \<Longrightarrow> getWeight T h x = item_weight T (th_item (things h x)) + (\<Sum>i\<leftarrow>children h x. getWeight T h i)"
  unfolding getWeight_alt [of T h x] weights_ok_def content_weight_def by (drule spec [of _ x]) (erule arg_cong)

text \<open>From any position the rest of the walk ends, lists what is pending and everything below it once, and the weights
  of the things listed add up to those of the pending ones.\<close>

lemma visit_pending:
  assumes "tree_ok h" "weights_ok T h" "forest h (pending h it)" "iter_ok h it"
  shows "\<exists>l. visit h it = Some l \<and> distinct l \<and> set l = (\<Union>x \<in> set (pending h it). below h x) \<and>
    (\<Sum>x\<leftarrow>l. item_weight T (th_item (things h x))) = (\<Sum>x\<leftarrow>pending h it. getWeight T h x)"
  using assms(3,4)
proof (induction "card (\<Union>x \<in> set (pending h it). below h x)" arbitrary: it rule: less_induct)
  case less
  show ?case
  proof (cases "hasNext it")
    case False
    then show ?thesis using pending_empty [OF less.prems(2)] by (subst visit.simps) simp
  next
    case True
    define x p where "x = current h it" and "p = tl (pending h it)"
    have now: "pending h it = x # p" unfolding x_def p_def by (rule pending_current [OF less.prems(2) True])
    have nxt: "pending h (advance h it) = p @ children h x" "iter_ok h (advance h it)"
      using pending_advance [OF less.prems(2) True] by (simp_all add: x_def p_def)
    have forest: "forest h (pending h (advance h it))"
      using forest_step [OF assms(1)] less.prems(1) now nxt(1) by simp
    let ?rest = "\<Union>y \<in> set (pending h (advance h it)). below h y"
    have apart: "below h x \<inter> below h y = {}" if "y \<in> set p" for y
      using forest_disjoint [OF less.prems(1), of x y] that less.prems(1) now by (auto simp: forest_def)
    have self: "x \<in> below h x" by (simp add: below_def)
    have all: "(\<Union>y \<in> set (pending h it). below h y) = insert x ?rest"
      using below_unfold [OF assms(1), of x] by (auto simp: now nxt(1))
    have "x \<notin> ?rest"
      using apart self not_below_child [OF assms(1)] by (auto simp: nxt(1) below_def)
    moreover have "finite ?rest" using below_finite [OF assms(1)] by simp
    ultimately have "card ?rest < card (\<Union>y \<in> set (pending h it). below h y)" by (simp add: all)
    from less.hyps [OF this forest nxt(2)] obtain l where l: "visit h (advance h it) = Some l" "distinct l" "set l = ?rest"
      "(\<Sum>x\<leftarrow>l. item_weight T (th_item (things h x))) = (\<Sum>x\<leftarrow>pending h (advance h it). getWeight T h x)"
      by blast
    have "visit h it = Some (x # l)" using True l(1) by (subst visit.simps) (simp add: x_def)
    moreover have "distinct (x # l)" using l(2,3) \<open>x \<notin> ?rest\<close> by simp
    moreover have "set (x # l) = (\<Union>y \<in> set (pending h it). below h y)" using l(3) all by simp
    moreover have "(\<Sum>y\<leftarrow>x # l. item_weight T (th_item (things h y))) = (\<Sum>y\<leftarrow>pending h it. getWeight T h y)"
      using l(4) subtree_weight [OF assms(2), of x] by (simp add: now nxt(1) add_ac)
    ultimately show ?thesis by blast
  qed
qed

lemma pending_iterator: "pending h (iterator h c) = children h c" "iter_ok h (iterator h c)"
  by (simp_all add: pending_def iterator_def iter_ok_def)

lemma below_contents:
  assumes "tree_ok h"
  shows "(\<Union>y \<in> set (children h c). below h y) = {i. (c, i) \<in> (holds h)\<^sup>+}"
proof -
  have "(c, i) \<in> (holds h)\<^sup>+ \<longleftrightarrow> (\<exists>y. (c, y) \<in> holds h \<and> (y, i) \<in> (holds h)\<^sup>*)" for i
    by (meson tranclD rtrancl_into_trancl2)
  then show ?thesis using holds_child [OF assms] by (auto simp: below_def)
qed

lemma visit_contents:
  assumes "tree_ok h" "weights_ok T h"
  shows "\<exists>l. visit h (iterator h c) = Some l \<and> distinct l \<and> set l = {i. (c, i) \<in> (holds h)\<^sup>+} \<and>
    (\<Sum>x\<leftarrow>l. item_weight T (th_item (things h x))) = totalWeight (the_cont h c)"
  using visit_pending [OF assms, of "iterator h c"] forest_children [OF assms(1), of c] below_contents [OF assms(1), of c]
    assms(2) by (simp add: pending_iterator weights_ok_def content_weight_def)

text \<open>C34: In every reachable heap a walk over a container with the iterator ends; it sees every item that is inside, at
  any depth, exactly once and nothing else, so that \<open>isHoldingItem\<close> is being inside and \<open>getItemHoldingCount\<close> the
  number of items inside; and the weights of the items seen, each without its contents, add up to the total weight
  the container keeps.\<close>

theorem iterator_visits_contents:
  assumes "heap_reachable T env ammo h"
  shows "\<exists>l. visit h (iterator h c) = Some l \<and> distinct l \<and> set l = {i. (c, i) \<in> (holds h)\<^sup>+} \<and>
    (\<Sum>x\<leftarrow>l. item_weight T (th_item (things h x))) = totalWeight (the_cont h c) \<and>
    getItemHoldingCount h c = Some (of_nat (card {i. (c, i) \<in> (holds h)\<^sup>+})) \<and>
    isHoldingItem h c i = Some ((c, i) \<in> (holds h)\<^sup>+)"
proof -
  have "tree_ok h" "weights_ok T h" using heap_reachable_ok [OF assms] by (simp_all add: heap_ok_def)
  from visit_contents [OF this] obtain l where l: "visit h (iterator h c) = Some l" "distinct l"
    "set l = {i. (c, i) \<in> (holds h)\<^sup>+}" "(\<Sum>x\<leftarrow>l. item_weight T (th_item (things h x))) = totalWeight (the_cont h c)"
    by blast
  then show ?thesis using distinct_card [OF l(2)] by (simp add: getItemHoldingCount_def isHoldingItem_def)
qed

theorem iterator_visits_contents_witness:
  "\<exists>h l. heap_reachable (\<lambda>_. coins) open_field True h \<and> visit h (iterator h 0) = Some l \<and> 1 \<in> set l \<and> distinct l"
proof -
  obtain h where h: "heap_reachable (\<lambda>_. coins) open_field True h" "inserted bag_and_coins 0 1 [1] h"
    using bag_filled by blast
  have "itemlist (the_cont h 0) = [1]" using h(2) by (simp add: inserted_def bag_and_coins_simps)
  moreover have "tree_ok h" using heap_reachable_ok [OF h(1)] by (simp add: heap_ok_def)
  ultimately have "(0, 1) \<in> (holds h)\<^sup>+" using holds_child [of h 0 1] by auto
  then show ?thesis using iterator_visits_contents [OF h(1), of 0 1] h(1) by auto
qed

end
