(* ===== verification/ItemMoves.thy ===== *)
theory ItemMoves
  imports Containers "HOL-Library.Monad_Syntax"
begin

unbundle bit_operations_syntax

text \<open>
  Making, copying and moving items: \<open>Item::CreateItem\<close>, \<open>Item::clone\<close>, \<open>Container::clone\<close> and the functions
  \<open>internalMoveItem\<close>, \<open>internalAddItem\<close> and \<open>internalRemoveItem\<close> of \<open>src/src/game.cpp\<close> between containers.  What
  the types say of an item and what the players can carry are parameters (the record \<open>rules\<close>).  The result \<open>None\<close>
  stands for a null pointer that is followed, or for a walk that does not end.
\<close>

section \<open>Making items\<close>

datatype made = MadeContainer u32 | MadeSpecial | MadeItem

text \<open>The classes of \<open>CreateItem\<close>: containers with their size, classes that are made without a count, plain items.\<close>

record creation =
  deprecated :: bool
  known :: bool
  made_as :: made

record carrier =
  cannot_pickup :: bool
  infinite_capacity :: bool
  carry_capacity :: u32
  inventoryWeight :: u32

record rules =
  rule_types :: types
  creations :: "u16 \<Rightarrow> creation"
  carrier_of :: "heap \<Rightarrow> nat \<Rightarrow> carrier"
  inbox :: "nat \<Rightarrow> bool"
  creature_removed :: "nat \<Rightarrow> bool"
  can_remove :: "nat \<Rightarrow> bool"

definition setDefaultDuration :: "types \<Rightarrow> item \<Rightarrow> item" where
  "setDefaultDuration T i =
     (let duration = decayTime (type_of T i) * 1000 in if duration \<noteq> 0 then setDuration duration i else i)"

text \<open>The constructor \<open>Item::Item(type, count)\<close>\<close>

definition item_new :: "types \<Rightarrow> u16 \<Rightarrow> u16 \<Rightarrow> item" where
  "item_new T type cnt =
     (let it = T type;
          i = \<lparr>item_id = type, item_count = 1, item_attrs = None\<rparr>;
          i = (if fluid_or_splash it then setFluidType cnt i
               else if stackable it then
                 (if cnt \<noteq> 0 then setItemCount (ucast cnt) i
                  else if type_charges it \<noteq> 0 then setItemCount (ucast (type_charges it)) i else i)
               else if type_charges it \<noteq> 0 then
                 (if cnt \<noteq> 0 then setCharges cnt i else setCharges (ucast (type_charges it)) i)
               else i)
      in setDefaultDuration T i)"

text \<open>Rings and boots that are worn are made as the ones that are not.\<close>

definition not_worn :: "u16 \<Rightarrow> u16" where
  "not_worn type =
     (if 2210 \<le> type \<and> type \<le> 2212 then type - 3
      else if type = 2215 \<or> type = 2216 then type - 2
      else if 2202 \<le> type \<and> type \<le> 2206 then type - 37
      else if type = 2640 then 6132
      else if type = 6301 then 6300
      else type)"

definition CreateItem :: "rules \<Rightarrow> u16 \<Rightarrow> u16 \<Rightarrow> (item \<times> u32 option) option" where
  "CreateItem R type cnt =
     (let T = rule_types R; it = T type; c = creations R type
      in if deprecated c then None
         else
           let cnt = (if stackable it \<and> cnt = 0 then 1 else cnt)
           in if \<not> known c then None
              else Some (case made_as c of
                       MadeContainer n \<Rightarrow> (item_new T type 0, Some n)
                     | MadeSpecial \<Rightarrow> (item_new T type 0, None)
                     | MadeItem \<Rightarrow> (item_new T (not_worn type) cnt, None)))"

section \<open>What moves change besides the items\<close>

datatype post =
    PostRemoved nat nat "nat option" int
  | PostAdded nat nat "nat option" int
  | EventItemMoved nat u32 nat nat

record item_world =
  wheap :: heap
  toDecayItems :: "nat list"
  decayItems :: "nat list"
  uniqueItems :: "u16 \<rightharpoonup> nat"
  posts :: "post list"

definition with_heap :: "(heap \<Rightarrow> heap option) \<Rightarrow> item_world \<Rightarrow> item_world option" where
  "with_heap f w = map_option (\<lambda>h. w\<lparr>wheap := h\<rparr>) (f (wheap w))"

definition itemAt :: "item_world \<Rightarrow> nat \<Rightarrow> item" where
  "itemAt w i = th_item (things (wheap w) i)"

definition release :: "nat \<Rightarrow> item_world \<Rightarrow> item_world" where
  "release i w = w\<lparr>wheap := (wheap w)\<lparr>released := released (wheap w) @ [i]\<rparr>\<rparr>"

definition add_posts :: "post list \<Rightarrow> item_world \<Rightarrow> item_world" where
  "add_posts ps w = w\<lparr>posts := posts w @ ps\<rparr>"

text \<open>\<open>Item::onRemoved\<close> takes a unique item off the list.\<close>

definition onRemoved :: "nat \<Rightarrow> item_world \<Rightarrow> item_world" where
  "onRemoved i w =
     (if item_hasAttribute ITEM_ATTRIBUTE_UNIQUEID (itemAt w i)
      then w\<lparr>uniqueItems := (uniqueItems w)(ucast (item_getIntAttr ITEM_ATTRIBUTE_UNIQUEID (itemAt w i)) := None)\<rparr> else w)"

definition start_decay :: "nat \<Rightarrow> item_world \<Rightarrow> item_world" where
  "start_decay i w = w\<lparr>wheap := upd_item i (setDecaying DECAYING_TRUE) (wheap w), toDecayItems := i # toDecayItems w\<rparr>"

text \<open>An item is removed when the outermost place is nowhere or with a creature that is.\<close>

definition isRemoved :: "rules \<Rightarrow> item_world \<Rightarrow> nat \<Rightarrow> bool option" where
  "isRemoved R w i = map_option (\<lambda>(cs, pl). case pl of Nowhere \<Rightarrow> True | OnCreature k \<Rightarrow> creature_removed R k | _ \<Rightarrow> False)
     (ancestors (things (wheap w)) i)"

definition canDecay :: "rules \<Rightarrow> item_world \<Rightarrow> nat \<Rightarrow> bool option" where
  "canDecay R w i = map_option (\<lambda>gone.
     if gone then False
     else let it = type_of (rule_types R) (itemAt w i);
              to = (if item_hasAttribute ITEM_ATTRIBUTE_DECAYTO (itemAt w i)
                    then sint (ucast (item_getIntAttr ITEM_ATTRIBUTE_DECAYTO (itemAt w i)) :: u32) else decayTo it)
          in if to < 0 \<or> decayTime it = 0 then False
             else \<not> item_hasAttribute ITEM_ATTRIBUTE_UNIQUEID (itemAt w i)) (isRemoved R w i)"

section \<open>Copies\<close>

text \<open>\<open>Item::clone\<close>; a null result of \<open>CreateItem\<close> is followed, here or by the caller.\<close>

definition item_clone :: "rules \<Rightarrow> nat \<Rightarrow> item_world \<Rightarrow> (nat \<times> item_world) option" where
  "item_clone R i w =
     (let it = itemAt w i
      in case CreateItem R (item_id it) (ucast (item_count it)) of
           None \<Rightarrow> None
         | Some (x, box) \<Rightarrow>
             let x = (case item_attrs it of None \<Rightarrow> x | Some a \<Rightarrow> x\<lparr>item_attrs := Some a\<rparr>);
                 (k, h) = new_thing x box (wheap w);
                 w = w\<lparr>wheap := h\<rparr>
             in Some (k, if item_attrs it \<noteq> None \<and> getDuration x > 0 then start_decay k w else w))"

text \<open>\<open>Container::clone\<close> adds copies of the contents and takes over the weight.\<close>

definition copy_weight :: "nat \<Rightarrow> nat \<Rightarrow> item_world \<Rightarrow> item_world" where
  "copy_weight i k w = w\<lparr>wheap := upd_cont k (\<lambda>b. b\<lparr>totalWeight := totalWeight (the_cont (wheap w) i)\<rparr>) (wheap w)\<rparr>"

partial_function (option) clone_into :: "rules \<Rightarrow> nat \<Rightarrow> nat list \<Rightarrow> item_world \<Rightarrow> item_world option" where
  "clone_into R dest is w =
     (case is of
        [] \<Rightarrow> Some w
      | i # js \<Rightarrow>
          do {
            (k, w) \<leftarrow> item_clone R i w;
            w \<leftarrow> (if th_cont (things (wheap w) i) = None then Some w
                  else do { w \<leftarrow> clone_into R k (itemlist (the_cont (wheap w) i)) w; Some (copy_weight i k w) });
            clone_into R dest js (w\<lparr>wheap := container_addItem dest k (wheap w)\<rparr>)
          })"

definition clone :: "rules \<Rightarrow> nat \<Rightarrow> item_world \<Rightarrow> (nat \<times> item_world) option" where
  "clone R i w =
     do {
       (k, w) \<leftarrow> item_clone R i w;
       w \<leftarrow> (if th_cont (things (wheap w) i) = None then Some w
             else do { w \<leftarrow> clone_into R k (itemlist (the_cont (wheap w) i)) w; Some (copy_weight i k w) });
       Some (k, w)
     }"

section \<open>Carrying\<close>

definition getFreeCapacity :: "carrier \<Rightarrow> u32" where
  "getFreeCapacity p =
     (if cannot_pickup p then 0
      else if infinite_capacity p then -1
      else if sint (carry_capacity p - inventoryWeight p) < 0 then 0 else carry_capacity p - inventoryWeight p)"

definition hasCapacity :: "rules \<Rightarrow> nat \<Rightarrow> nat \<Rightarrow> u32 \<Rightarrow> heap \<Rightarrow> bool" where
  "hasCapacity R k i cnt h =
     (let p = carrier_of R h k; T = rule_types R; it = th_item (things h i);
          carried = (case ancestors (things h) i of Some (_, OnCreature k') \<Rightarrow> k' = k | _ \<Rightarrow> False)
      in if cannot_pickup p then False
         else if infinite_capacity p \<or> carried then True
         else
           let itemWeight = (if th_cont (things h i) \<noteq> None then getWeight T h i else getBaseWeight T it);
               itemWeight = (if stackable (type_of T it) then itemWeight * cnt else itemWeight)
           in itemWeight \<le> getFreeCapacity p)"

text \<open>\<open>Player::queryAdd\<close> when a container of the player asks, which is how containers ask\<close>

definition child_queryAdd :: "rules \<Rightarrow> nat \<Rightarrow> nat \<Rightarrow> u32 \<Rightarrow> u32 \<Rightarrow> heap \<Rightarrow> returnvalue" where
  "child_queryAdd R k i cnt flags h =
     (if hasBitSet FLAG_NOLIMIT flags \<or> hasCapacity R k i cnt h then RETURNVALUE_NOERROR else RETURNVALUE_NOTENOUGHCAPACITY)"

definition around :: "rules \<Rightarrow> outer" where
  "around R = \<lparr>outer_queryAdd = child_queryAdd R, is_inbox = inbox R\<rparr>"

section \<open>Moves\<close>

definition MOVE_LAYERS :: nat where "MOVE_LAYERS = 16"

text \<open>The loop over \<open>queryDestination\<close>, at most \<open>n\<close> times from one cylinder to another\<close>

fun destination :: "types \<Rightarrow> nat \<Rightarrow> nat \<Rightarrow> nat \<Rightarrow> int \<Rightarrow> nat option \<Rightarrow> u32 \<Rightarrow> heap \<Rightarrow> nat \<times> int \<times> nat option \<times> u32" where
  "destination T i 0 c index toItem flags h = (c, index, toItem, flags)"
| "destination T i (Suc n) c index toItem flags h =
     (let (sub, index, toItem) = queryDestination T c index i toItem flags h
      in if sub \<noteq> c then destination T i n sub index toItem 0 h else (c, index, toItem, flags))"

text \<open>The actor: what the event \<open>onMoveItem\<close> answers, when the player and the positions are known\<close>

type_synonym actor = "(nat \<Rightarrow> u32 \<Rightarrow> nat \<Rightarrow> nat \<Rightarrow> bool) option"

definition forbids :: "actor \<Rightarrow> nat \<Rightarrow> u32 \<Rightarrow> nat \<Rightarrow> nat \<Rightarrow> bool" where
  "forbids actor i cnt from to = (case actor of None \<Rightarrow> False | Some allow \<Rightarrow> \<not> allow i cnt from to)"

definition moved_event :: "actor \<Rightarrow> nat \<Rightarrow> u32 \<Rightarrow> nat \<Rightarrow> nat \<Rightarrow> item_world \<Rightarrow> item_world" where
  "moved_event actor i cnt from to w = (case actor of None \<Rightarrow> w | Some _ \<Rightarrow> add_posts [EventItemMoved i cnt from to] w)"

definition postRemoved :: "nat \<Rightarrow> nat \<Rightarrow> nat option \<Rightarrow> int \<Rightarrow> item_world \<Rightarrow> item_world" where
  "postRemoved c i other index w = (if index \<noteq> -1 then add_posts [PostRemoved c i other index] w else w)"

definition postAdded :: "nat \<Rightarrow> nat \<Rightarrow> nat option \<Rightarrow> item_world \<Rightarrow> item_world" where
  "postAdded c i other w =
     (let index = getThingIndex (wheap w) c i in if index \<noteq> -1 then add_posts [PostAdded c i other index] w else w)"

text \<open>The item in the way is moved to the source first.  The result is \<open>ret\<close>, \<open>toItem\<close> and the world after it; each
  early return of the code has a \<open>ret\<close> that makes \<open>internalMoveItem\<close> return.\<close>

definition exchange_first ::
  "rules \<Rightarrow> actor \<Rightarrow> nat \<Rightarrow> nat \<Rightarrow> int \<Rightarrow> nat \<Rightarrow> u32 \<Rightarrow> u32 \<Rightarrow> nat option \<Rightarrow> item_world \<Rightarrow> (returnvalue \<times> nat option \<times> item_world) option" where
  "exchange_first R actor from to index i cnt flags toItem w =
     (case toItem of None \<Rightarrow> None
      | Some t \<Rightarrow>
          let T = rule_types R; env = around R; n = ucast (item_count (itemAt w t)) :: u32
          in do {
            ret \<leftarrow> queryAdd T env from (getThingIndex (wheap w) from i) t n 0 (wheap w);
            if ret \<noteq> RETURNVALUE_NOERROR then Some (ret, toItem, w)
            else if forbids actor t cnt to from then Some (RETURNVALUE_NOTPOSSIBLE, toItem, w)
            else do {
              (maxRet, m) \<leftarrow> queryMaxCount T env from INDEX_WHEREEVER t n 0 (wheap w);
              if maxRet \<noteq> RETURNVALUE_NOERROR \<and> m = 0 then Some (maxRet, toItem, w)
              else do {
                removeRet \<leftarrow> queryRemove T env to t n flags (wheap w);
                if removeRet \<noteq> RETURNVALUE_NOERROR then Some (ret, toItem, w)
                else do {
                  let oldIndex = getThingIndex (wheap w) to t;
                  w \<leftarrow> with_heap (removeThing T to t n) w;
                  w \<leftarrow> with_heap (addThing T from 0 t) w;
                  let w = postAdded from t (Some to) (postRemoved to t (Some from) oldIndex w);
                  ret \<leftarrow> queryAdd T env to index i cnt flags (wheap w);
                  Some (ret, None, moved_event actor t cnt to from w)
                }
              }
            }
          })"

text \<open>Joining the stack \<open>toItem\<close>: how many fit there, and the world with them\<close>

definition join_item :: "rules \<Rightarrow> nat \<Rightarrow> nat \<Rightarrow> nat option \<Rightarrow> u32 \<Rightarrow> item_world \<Rightarrow> (u32 \<times> nat option \<times> item_world) option" where
  "join_item R to i toItem m w =
     (case toItem of
        Some t \<Rightarrow>
          if item_equals (itemAt w i) (Some (itemAt w t)) then
            (let n = min (100 - ucast (item_count (itemAt w t))) m
             in map_option (\<lambda>w. (n, Some t, w))
                  (with_heap (updateThing (rule_types R) to t (item_id (itemAt w t)) (ucast (item_count (itemAt w t)) + n)) w))
          else Some (0, None, w)
      | None \<Rightarrow> Some (0, None, w))"

text \<open>After the removal: the item to add, the updated stack and the world\<close>

definition split_item ::
  "rules \<Rightarrow> nat \<Rightarrow> nat \<Rightarrow> nat option \<Rightarrow> u32 \<Rightarrow> item_world \<Rightarrow> (nat option \<times> nat option \<times> item_world) option" where
  "split_item R to i toItem m w =
     (if \<not> stackable (type_of (rule_types R) (itemAt w i)) then Some (Some i, None, w)
      else do {
        (n, updateItem, w) \<leftarrow> join_item R to i toItem m w;
        (moveItem, w) \<leftarrow>
          (if sint (m - n) > 0 then
             map_option (\<lambda>(k, w). (Some k, w\<lparr>wheap := upd_item k (setItemCount (ucast (m - n))) (wheap w)\<rparr>)) (clone R i w)
           else Some (None, w));
        gone \<leftarrow> isRemoved R w i;
        Some (moveItem, updateItem, if gone then release i w else w)
      })"

text \<open>From \<open>queryRemove\<close> on: \<open>m\<close> of the item go to \<open>to\<close>.\<close>

definition carry_over ::
  "rules \<Rightarrow> actor \<Rightarrow> nat \<Rightarrow> nat \<Rightarrow> int \<Rightarrow> nat \<Rightarrow> u32 \<Rightarrow> nat option \<Rightarrow> returnvalue \<Rightarrow> u32 \<Rightarrow> item_world \<Rightarrow> (returnvalue \<times> item_world) option" where
  "carry_over R actor from to index i cnt toItem maxRet maxCount w =
     (let T = rule_types R;
          m = (if stackable (type_of T (itemAt w i)) then min cnt maxCount else maxCount);
          itemIndex = getThingIndex (wheap w) from i
      in do {
        w \<leftarrow> with_heap (removeThing T from i m) w;
        (moveItem, updateItem, w) \<leftarrow> split_item R to i toItem m w;
        w \<leftarrow> (case moveItem of None \<Rightarrow> Some w | Some k \<Rightarrow> with_heap (addThing T to index k) w);
        let w = postRemoved from i (Some to) itemIndex w;
        let w = (case moveItem of None \<Rightarrow> w | Some k \<Rightarrow> postAdded to k (Some from) w);
        let w = (case updateItem of None \<Rightarrow> w | Some k \<Rightarrow> postAdded to k (Some from) w);
        if stackable (type_of T (itemAt w i)) \<and> maxCount < cnt then Some (maxRet, w)
        else
          let w = (case moveItem of
                None \<Rightarrow> w
              | Some k \<Rightarrow> if getDuration (itemAt w k) > 0 \<and> getDecaying (itemAt w k) \<noteq> DECAYING_TRUE then start_decay k w else w)
          in Some (RETURNVALUE_NOERROR, moved_event actor i cnt from to w)
      })"

definition into_traded :: "item_world \<Rightarrow> nat \<Rightarrow> nat option \<Rightarrow> bool option" where
  "into_traded w to tradeItem =
     (case tradeItem of None \<Rightarrow> Some False
      | Some t \<Rightarrow> map_option (\<lambda>(cs, pl). t \<in> set (to # cs)) (ancestors (things (wheap w)) to))"

definition internalMoveItem ::
  "rules \<Rightarrow> actor \<Rightarrow> nat \<Rightarrow> nat \<Rightarrow> int \<Rightarrow> nat \<Rightarrow> u32 \<Rightarrow> u32 \<Rightarrow> nat option \<Rightarrow> item_world \<Rightarrow> (returnvalue \<times> item_world) option" where
  "internalMoveItem R actor from to index i cnt flags tradeItem w =
     (let T = rule_types R; env = around R
      in if forbids actor i cnt from to then Some (RETURNVALUE_NOTPOSSIBLE, w)
         else
           let (to, index, toItem, flags) = destination T i MOVE_LAYERS to index None flags (wheap w)
           in if toItem = Some i then Some (RETURNVALUE_NOERROR, w)
              else do {
                ret \<leftarrow> queryAdd T env to index i cnt flags (wheap w);
                (ret, toItem, w) \<leftarrow>
                  (if ret = RETURNVALUE_NEEDEXCHANGE then exchange_first R actor from to index i cnt flags toItem w
                   else Some (ret, toItem, w));
                if ret \<noteq> RETURNVALUE_NOERROR then Some (ret, w)
                else do {
                  (maxRet, maxCount) \<leftarrow> queryMaxCount T env to index i cnt flags (wheap w);
                  if maxRet \<noteq> RETURNVALUE_NOERROR \<and> maxCount = 0 then Some (maxRet, w)
                  else do {
                    removeRet \<leftarrow> queryRemove T env from i
                      (if stackable (type_of T (itemAt w i)) then min cnt maxCount else maxCount) flags (wheap w);
                    if removeRet \<noteq> RETURNVALUE_NOERROR then Some (removeRet, w)
                    else do {
                      traded \<leftarrow> into_traded w to tradeItem;
                      if traded then Some (RETURNVALUE_NOTENOUGHROOM, w)
                      else carry_over R actor from to index i cnt toItem maxRet maxCount w
                    }
                  }
                }
              })"

section \<open>Additions and removals\<close>

text \<open>The item becomes an entry of its own.\<close>

definition put_new :: "rules \<Rightarrow> nat \<Rightarrow> int \<Rightarrow> nat \<Rightarrow> item_world \<Rightarrow> (u32 \<times> item_world) option" where
  "put_new R to index i w = map_option (\<lambda>w. (0, postAdded to i None w)) (with_heap (addThing (rule_types R) to index i) w)"

text \<open>\<open>internalAddItem\<close>; the results are the return value, \<open>remainderCount\<close> and the world after it.\<close>

partial_function (option) internalAddItem ::
  "rules \<Rightarrow> nat \<Rightarrow> nat \<Rightarrow> int \<Rightarrow> u32 \<Rightarrow> bool \<Rightarrow> item_world \<Rightarrow> (returnvalue \<times> u32 \<times> item_world) option" where
  "internalAddItem R dest i index flags test w =
     (let T = rule_types R; env = around R; cnt = ucast (item_count (itemAt w i)) :: u32;
          (to, index, toItem) = queryDestination T dest index i None flags (wheap w)
      in do {
        ret \<leftarrow> queryAdd T env to index i cnt flags (wheap w);
        if ret \<noteq> RETURNVALUE_NOERROR then Some (ret, 0, w)
        else do {
          (ret, maxCount) \<leftarrow> queryMaxCount T env dest INDEX_WHEREEVER i cnt flags (wheap w);
          if ret \<noteq> RETURNVALUE_NOERROR then Some (ret, 0, w)
          else if test then Some (RETURNVALUE_NOERROR, 0, w)
          else do {
            (rest, w) \<leftarrow>
              (case (if stackable (type_of T (itemAt w i)) then toItem else None) of
                 Some t \<Rightarrow>
                   if item_equals (itemAt w i) (Some (itemAt w t)) then
                     (let m = min cnt maxCount; n = min (100 - ucast (item_count (itemAt w t))) m; left = m - n
                      in do {
                        w \<leftarrow> with_heap (updateThing T to t (item_id (itemAt w t)) (ucast (item_count (itemAt w t)) + n)) w;
                        if sint left > 0 then
                          if cnt \<noteq> left then do {
                            (k, w) \<leftarrow> clone R i w;
                            (ret', r, w) \<leftarrow> internalAddItem R dest k INDEX_WHEREEVER flags False
                              (w\<lparr>wheap := upd_item k (setItemCount (ucast left)) (wheap w)\<rparr>);
                            Some (if ret' \<noteq> RETURNVALUE_NOERROR then (left, release k w) else (0, w))
                          }
                          else put_new R to index i w
                        else Some (0, postAdded to t None (release i (onRemoved i w)))
                      })
                   else put_new R to index i w
               | None \<Rightarrow>
                   put_new R to index i w);
            Some (RETURNVALUE_NOERROR, rest, if getDuration (itemAt w i) > 0 then start_decay i w else w)
          }
        }
      })"

text \<open>\<open>internalRemoveItem\<close> of an item in a container; what tiles and creatures do is the argument \<open>outside\<close>.\<close>

definition internalRemoveItem ::
  "rules \<Rightarrow> (item_world \<Rightarrow> (returnvalue \<times> item_world) option) \<Rightarrow> nat \<Rightarrow> int \<Rightarrow> bool \<Rightarrow> u32 \<Rightarrow> item_world \<Rightarrow> (returnvalue \<times> item_world) option" where
  "internalRemoveItem R outside i cnt test flags w =
     (case th_parent (things (wheap w) i) of
        Nowhere \<Rightarrow> Some (RETURNVALUE_NOTPOSSIBLE, w)
      | InContainer c \<Rightarrow>
          let T = rule_types R;
              cnt = (if cnt = -1 then ucast (item_count (itemAt w i)) else of_int cnt) :: u32
          in do {
            ret \<leftarrow> queryRemove T (around R) c i cnt (flags OR FLAG_IGNORENOTMOVEABLE) (wheap w);
            if ret \<noteq> RETURNVALUE_NOERROR then Some (ret, w)
            else if \<not> can_remove R i then Some (RETURNVALUE_NOTPOSSIBLE, w)
            else if test then Some (RETURNVALUE_NOERROR, w)
            else
              let index = getThingIndex (wheap w) c i
              in do {
                w \<leftarrow> with_heap (removeThing T c i cnt) w;
                gone \<leftarrow> isRemoved R w i;
                w \<leftarrow> (if gone then
                        let w = onRemoved i w
                        in map_option (\<lambda>decays. release i (if decays then w\<lparr>decayItems := removeAll i (decayItems w)\<rparr> else w))
                             (canDecay R w i)
                      else Some w);
                Some (RETURNVALUE_NOERROR, add_posts [PostRemoved c i None index] w)
              }
          }
      | _ \<Rightarrow> outside w)"

end
