(* ===== verification/Stocks.thy ===== *)
theory Stocks
  imports ItemMoves
begin

text \<open>
  Stocks: heaps of items in which no container is over-full and no stack is higher than 100, the number of items of
  each type that are somewhere, and what the steps of \<open>ItemMoves\<close> do to them.
\<close>

section \<open>The number of items\<close>

definition unit_of :: "types \<Rightarrow> u16 \<Rightarrow> item \<Rightarrow> nat" where
  "unit_of T n x = (if item_id x = n then if stackable (T n) then unat (item_count x) else 1 else 0)"

text \<open>The items of type \<open>n\<close> that have a place, stacks with their counts\<close>

definition units :: "types \<Rightarrow> heap \<Rightarrow> u16 \<Rightarrow> nat" where
  "units T h n = (\<Sum>i | i < next_thing h \<and> th_parent (things h i) \<noteq> Nowhere. unit_of T n (th_item (things h i)))"

lemma units_inserted:
  assumes "inserted h c i new h'" "th_parent (things h i) = Nowhere" "i < next_thing h"
  shows "units T h' n = units T h n + unit_of T n (th_item (things h i))"
proof -
  have "{j. j < next_thing h' \<and> th_parent (things h' j) \<noteq> Nowhere} =
      insert i {j. j < next_thing h \<and> th_parent (things h j) \<noteq> Nowhere}"
    using assms(1,3) by (auto simp: inserted_def)
  moreover have "th_item (things h' j) = th_item (things h j)" for j using assms(1) by (simp add: inserted_def)
  ultimately show ?thesis using assms(2) by (simp add: units_def)
qed

lemma units_removed:
  assumes "removed h c i h'" "th_parent (things h i) \<noteq> Nowhere" "i < next_thing h"
  shows "units T h n = units T h' n + unit_of T n (th_item (things h i))"
proof -
  have "{j. j < next_thing h \<and> th_parent (things h j) \<noteq> Nowhere} =
      insert i {j. j < next_thing h' \<and> th_parent (things h' j) \<noteq> Nowhere}"
    using assms by (auto simp: removed_def)
  moreover have "th_item (things h' j) = th_item (things h j)" "th_parent (things h' i) = Nowhere" for j
    using assms(1) by (simp_all add: removed_def)
  ultimately show ?thesis by (simp add: units_def)
qed

lemma units_changed:
  assumes "changed h i x h'" "th_parent (things h i) \<noteq> Nowhere" "i < next_thing h"
  shows "units T h' n + unit_of T n (th_item (things h i)) = units T h n + unit_of T n x"
proof -
  define S where "S = {j. j < next_thing h \<and> th_parent (things h j) \<noteq> Nowhere \<and> j \<noteq> i}"
  have S: "{j. j < next_thing h \<and> th_parent (things h j) \<noteq> Nowhere} = insert i S"
    "{j. j < next_thing h' \<and> th_parent (things h' j) \<noteq> Nowhere} = insert i S"
    using assms by (auto simp: changed_def S_def)
  have "(\<Sum>j\<in>S. unit_of T n (th_item (things h' j))) = (\<Sum>j\<in>S. unit_of T n (th_item (things h j)))"
    using assms(1) by (intro sum.cong) (auto simp: changed_def S_def)
  moreover have "th_item (things h' i) = x" using assms(1) by (simp add: changed_def)
  moreover have "finite S" "i \<notin> S" by (simp_all add: S_def)
  ultimately show ?thesis unfolding units_def S by simp
qed

lemma units_cong:
  assumes "\<And>j. th_parent (things h' j) = th_parent (things h j)" "next_thing h' = next_thing h"
    and "\<And>j. th_parent (things h j) \<noteq> Nowhere \<Longrightarrow> unit_of T n (th_item (things h' j)) = unit_of T n (th_item (things h j))"
  shows "units T h' n = units T h n"
  unfolding units_def assms(1,2) by (rule sum.cong) (simp_all add: assms(3))

lemma units_new_thing:
  assumes "heap_ok T ammo h" "new_thing it box h = (i, h')"
  shows "units T h' n = units T h n"
proof -
  note new = new_thing_ok [OF assms]
  have "{j. j < next_thing h' \<and> th_parent (things h' j) \<noteq> Nowhere} = {j. j < next_thing h \<and> th_parent (things h j) \<noteq> Nowhere}"
  proof (rule Collect_cong)
    fix j show "j < next_thing h' \<and> th_parent (things h' j) \<noteq> Nowhere \<longleftrightarrow> j < next_thing h \<and> th_parent (things h j) \<noteq> Nowhere"
      using new by (cases "j = i") auto
  qed
  then show ?thesis unfolding units_def using new by (intro sum.cong) auto
qed

section \<open>Items that change by themselves\<close>

lemma upd_item_ok:
  assumes "heap_ok T ammo h"
    and "th_parent (things h i) = Nowhere \<or>
      item_weight T (f (th_item (things h i))) = item_weight T (th_item (things h i)) \<and>
      item_count (f (th_item (things h i))) = item_count (th_item (things h i))"
  shows "heap_ok T ammo (upd_item i f h)"
proof -
  have ok: "tree_ok h" using assms(1) by (simp add: heap_ok_def)
  have gw: "getWeight T (upd_item i f h) x = getWeight T h x" "item_ammo (upd_item i f h) x = item_ammo h x"
    if "x \<in> set (itemlist (the_cont h c))" for x c
  proof -
    have "th_parent (things h x) \<noteq> Nowhere" using that tree_okD(1) [OF ok, of x c] by simp
    then show "getWeight T (upd_item i f h) x = getWeight T h x" "item_ammo (upd_item i f h) x = item_ammo h x"
      using assms(2) by (auto simp: getWeight_alt item_ammo_def)
  qed
  have "tree_ok (upd_item i f h)" using ok by (rule tree_ok_cong) simp_all
  moreover have "map (getWeight T (upd_item i f h)) (itemlist (the_cont h c)) = map (getWeight T h) (itemlist (the_cont h c))"
    "map (item_ammo (upd_item i f h)) (itemlist (the_cont h c)) = map (item_ammo h) (itemlist (the_cont h c))" for c
    using gw by (simp_all add: map_eq_conv)
  ultimately show ?thesis
    using assms(1) by (simp add: heap_ok_def weights_ok_def ammo_ok_def content_weight_def del: map_eq_conv)
qed

lemma setInt_other:
  assumes "t \<noteq> s" "t AND s = 0"
  shows "item_hasAttribute s (item_setIntAttr t v x) = item_hasAttribute s x \<and>
    item_getIntAttr s (item_setIntAttr t v x) = item_getIntAttr s x"
proof -
  have has: "hasAttribute s (setAttr t w a) = hasAttribute s a" for w a
    using assms(2) by (auto simp: hasAttribute_def setAttr_def bit.conj_disj_distrib and.commute)
  have "map_of (AList.update t w l) s = map_of l s" "map_of (l @ [(t, w)]) s = map_of l s"
    for w and l :: "(u32 \<times> attr_value) list"
    using assms(1) by (simp_all add: update_conv' map_add_def split: option.split)
  then have "getExistingAttr s (setAttr t w a) = getExistingAttr s a" for w a
    unfolding getExistingAttr_def has by (simp add: setAttr_def del: map_of_append)
  then have "hasAttribute s (setIntAttr t v a) = hasAttribute s a" "getIntAttr s (setIntAttr t v a) = getIntAttr s a" for a
    unfolding setIntAttr_def getIntAttr_def by (simp_all add: has)
  moreover have "\<not> hasAttribute s no_attributes" "getIntAttr s no_attributes = 0"
    by (simp_all add: hasAttribute_def getIntAttr_def getExistingAttr_def no_attributes_def)
  ultimately show ?thesis
    by (simp add: item_setIntAttr_def item_hasAttribute_def item_getIntAttr_def getAttributes_def split: option.split)
qed

lemma decaying_weight [simp]:
  "item_weight T (setDecaying d x) = item_weight T x" "item_count (setDecaying d x) = item_count x" "item_id (setDecaying d x) = item_id x"
proof -
  have "item_hasAttribute ITEM_ATTRIBUTE_WEIGHT (setDecaying d x) = item_hasAttribute ITEM_ATTRIBUTE_WEIGHT x \<and>
      item_getIntAttr ITEM_ATTRIBUTE_WEIGHT (setDecaying d x) = item_getIntAttr ITEM_ATTRIBUTE_WEIGHT x"
    unfolding setDecaying_def by (rule setInt_other) (simp_all add: item_attribute_defs)
  moreover have "item_id (setDecaying d x) = item_id x" "item_count (setDecaying d x) = item_count x"
    by (simp_all add: setDecaying_def item_setIntAttr_def)
  ultimately show "item_weight T (setDecaying d x) = item_weight T x" "item_count (setDecaying d x) = item_count x"
      "item_id (setDecaying d x) = item_id x"
    by (simp_all add: item_weight_def getBaseWeight_def type_of_def)
qed

section \<open>Stocks\<close>

text \<open>Types that stack are those of plain items.\<close>

definition stock_types :: "rules \<Rightarrow> bool" where
  "stock_types R \<longleftrightarrow> (\<forall>n. stackable (rule_types R n) \<longrightarrow> \<not> fluid_or_splash (rule_types R n) \<and> \<not> deprecated (creations R n) \<and>
     known (creations R n) \<and> made_as (creations R n) = MadeItem \<and> not_worn n = n)"

text \<open>No container is over-full, no stack is higher than 100.\<close>

definition stock_ok :: "rules \<Rightarrow> bool \<Rightarrow> heap \<Rightarrow> bool" where
  "stock_ok R ammo h \<longleftrightarrow> heap_ok (rule_types R) ammo h \<and>
     (\<forall>c. maxSize (the_cont h c) < 2147483648 \<and> int (cont_size h c) \<le> uint (maxSize (the_cont h c))) \<and>
     (\<forall>i. stackable (type_of (rule_types R) (th_item (things h i))) \<longrightarrow>
        item_count (th_item (things h i)) \<le> 100 \<and> th_cont (things h i) = None)"

lemma stock_okD:
  assumes "stock_ok R ammo h"
  shows "heap_ok (rule_types R) ammo h" "tree_ok h" "maxSize (the_cont h c) < 2147483648"
    "int (cont_size h c) \<le> uint (maxSize (the_cont h c))"
    "stackable (type_of (rule_types R) (th_item (things h i))) \<Longrightarrow> item_count (th_item (things h i)) \<le> 100"
    "stackable (type_of (rule_types R) (th_item (things h i))) \<Longrightarrow> th_cont (things h i) = None"
  using assms by (simp_all add: stock_ok_def heap_ok_def)

lemma stock_okI:
  assumes "stock_ok R ammo h" "heap_ok (rule_types R) ammo h'"
    and "\<And>c. maxSize (the_cont h' c) = maxSize (the_cont h c)" "\<And>c. cont_size h' c \<le> cont_size h c \<or> int (cont_size h' c) \<le> uint (maxSize (the_cont h c))"
    and "\<And>x. th_cont (things h x) = None \<Longrightarrow> th_cont (things h' x) = None"
    and "\<And>x. item_id (th_item (things h' x)) = item_id (th_item (things h x))"
    and "\<And>x. stackable (type_of (rule_types R) (th_item (things h x))) \<Longrightarrow> item_count (th_item (things h x)) \<le> 100 \<Longrightarrow>
      item_count (th_item (things h' x)) \<le> 100"
  shows "stock_ok R ammo h'"
proof -
  have "int (cont_size h' c) \<le> uint (maxSize (the_cont h c))" for c
    using assms(4) [of c] stock_okD(4) [OF assms(1), of c] by linarith
  moreover have "item_count (th_item (things h' x)) \<le> 100 \<and> th_cont (things h' x) = None"
    if "stackable (type_of (rule_types R) (th_item (things h' x)))" for x
    using that stock_okD(5,6) [OF assms(1), of x] assms(5) [of x] assms(7) [of x] by (simp add: type_of_def assms(6))
  ultimately show ?thesis
    using assms(2) stock_okD(3) [OF assms(1)] by (simp add: stock_ok_def assms(3))
qed

text \<open>\<open>m\<close> of the item \<open>i\<close> have been taken out of their container.\<close>

definition amount :: "rules \<Rightarrow> item \<Rightarrow> u32 \<Rightarrow> u16 \<Rightarrow> nat" where
  "amount R x m n = (if item_id x = n then if stackable (rule_types R n) then unat m else 1 else 0)"

definition took :: "rules \<Rightarrow> heap \<Rightarrow> nat \<Rightarrow> u32 \<Rightarrow> heap \<Rightarrow> bool" where
  "took R h i m h' \<longleftrightarrow> next_thing h' = next_thing h \<and>
     (\<forall>x. x \<noteq> i \<longrightarrow> th_parent (things h' x) = th_parent (things h x) \<and> th_item (things h' x) = th_item (things h x)) \<and>
     (th_parent (things h' i) = th_parent (things h i) \<or> th_parent (things h' i) = Nowhere) \<and>
     (if stackable (type_of (rule_types R) (th_item (things h i))) \<and> m \<noteq> ucast (item_count (th_item (things h i)))
      then th_parent (things h' i) = th_parent (things h i) \<and>
        unat (item_count (th_item (things h' i))) + unat m = unat (item_count (th_item (things h i)))
      else th_parent (things h' i) = Nowhere) \<and>
     (\<exists>k. th_item (things h' i) = setItemCount k (th_item (things h i))) \<and>
     (\<forall>x. (th_cont (things h' x) = None \<longleftrightarrow> th_cont (things h x) = None) \<and> maxSize (the_cont h' x) = maxSize (the_cont h x) \<and>
        cont_size h' x \<le> cont_size h x \<and> (safe_place h x i \<longrightarrow> safe_place h' x i)) \<and>
     (\<forall>n. units (rule_types R) h n = units (rule_types R) h' n + amount R (th_item (things h i)) m n)"

lemma tree_bound: "tree_ok h \<Longrightarrow> th_parent (things h i) \<noteq> Nowhere \<Longrightarrow> i < next_thing h"
  using tree_okD(4) [of h i] by (meson not_le)

lemma part_counts:
  assumes "(m :: u32) \<le> ucast (item_count x)"
  shows "unat (remaining x m) + unat m = unat (item_count x)" "remaining x m \<le> item_count x"
proof -
  have m: "unat m \<le> unat (item_count x)" using assms by (simp add: word_le_nat_alt)
  have c: "unat (item_count x) < 256" using unat_u8_bound [of "item_count x"] .
  have k: "unat (ucast (item_count x) - m) = unat (item_count x) - unat m"
    using assms by (simp add: unat_sub)
  have "uint (ucast (item_count x) - m) < 2 ^ 31" using k c by (simp add: uint_nat)
  then have "\<not> sint (ucast (item_count x) - m) < 0" by (simp add: sint_neg_u32)
  then have "unat (remaining x m) = unat (item_count x) - unat m"
    using k c by (simp add: remaining_def unsigned_ucast_eq take_bit_nat_eq_self)
  then show "unat (remaining x m) + unat m = unat (item_count x)" "remaining x m \<le> item_count x"
    using m by (simp_all add: word_le_nat_alt)
qed

lemma removed_took:
  assumes "stock_ok R ammo h" "removed h c i h'" "th_parent (things h i) = InContainer c"
    and "stackable (type_of (rule_types R) (th_item (things h i))) \<Longrightarrow> m = ucast (item_count (th_item (things h i)))"
  shows "took R h i m h'"
proof -
  have ok: "tree_ok h" using stock_okD(2) [OF assms(1)] .
  have "units (rule_types R) h n = units (rule_types R) h' n + amount R (th_item (things h i)) m n" for n
  proof -
    have "unit_of (rule_types R) n (th_item (things h i)) = amount R (th_item (things h i)) m n"
      using assms(4) by (auto simp: unit_of_def amount_def type_of_def)
    then show ?thesis
      using units_removed [OF assms(2), of "rule_types R" n] assms(3) tree_bound [OF ok, of i] by simp
  qed
  moreover have "cont_size h' x \<le> cont_size h x" for x
    using assms(2) length_remove1 [of i "itemlist (the_cont h c)"] by (simp add: removed_def cont_size_def)
  moreover have "safe_place h' x i" if "safe_place h x i" for x
    by (rule safe_place_off_chain [OF ok that _ that]) (use assms(2) in \<open>simp add: removed_def\<close>)
  moreover have "th_item (things h' i) = setItemCount (item_count (th_item (things h i))) (th_item (things h i))"
    using assms(2) by (simp add: removed_def setItemCount_def)
  moreover have "\<not> (stackable (type_of (rule_types R) (th_item (things h i))) \<and> m \<noteq> ucast (item_count (th_item (things h i))))"
    using assms(4) by blast
  ultimately show ?thesis using assms(2) by (auto simp: took_def removed_def)
qed

lemma changed_took:
  assumes "stock_ok R ammo h" "th_parent (things h i) = InContainer c"
    and "stackable (type_of (rule_types R) (th_item (things h i)))" "m \<le> ucast (item_count (th_item (things h i)))"
    and "m \<noteq> ucast (item_count (th_item (things h i)))"
    and "changed h i (setItemCount (remaining (th_item (things h i)) m) (th_item (things h i))) h'"
  shows "took R h i m h'"
proof -
  let ?x = "th_item (things h i)"
  have ok: "tree_ok h" using stock_okD(2) [OF assms(1)] .
  have par: "th_parent (things h' y) = th_parent (things h y)" for y using assms(6) by (simp add: changed_def)
  have "units (rule_types R) h n = units (rule_types R) h' n + amount R ?x m n" for n
  proof -
    have "unit_of (rule_types R) n ?x = unit_of (rule_types R) n (setItemCount (remaining ?x m) ?x) + amount R ?x m n"
      using part_counts(1) [OF assms(4)] assms(3) by (auto simp: unit_of_def amount_def type_of_def setItemCount_def)
    then show ?thesis
      using units_changed [OF assms(6), of "rule_types R" n] assms(2) tree_bound [OF ok, of i] by simp
  qed
  moreover have "safe_place h' x i" if "safe_place h x i" for x
    by (rule safe_place_off_chain [OF ok that par that])
  moreover have "th_item (things h' i) = setItemCount (remaining ?x m) ?x" using assms(6) by (simp add: changed_def)
  ultimately show ?thesis
    using assms(3,5,6) part_counts(1) [OF assms(4)] by (auto simp: took_def changed_def cont_size_def setItemCount_def)
qed

lemma removeThing_took:
  assumes "stock_ok R ammo h" "th_parent (things h i) = InContainer c"
    and "stackable (type_of (rule_types R) (th_item (things h i))) \<Longrightarrow> m \<le> ucast (item_count (th_item (things h i)))"
  obtains h' where "removeThing (rule_types R) c i m h = Some h'" "stock_ok R ammo h'" "took R h i m h'"
proof -
  let ?T = "rule_types R" and ?x = "th_item (things h i)"
  note ok = stock_okD(1) [OF assms(1)]
  have "\<exists>h'. removeThing ?T c i m h = Some h' \<and> heap_ok ?T ammo h' \<and> took R h i m h' \<and> item_count (th_item (things h' i)) \<le> item_count ?x"
  proof (cases "stackable (type_of ?T ?x) \<and> m \<noteq> ucast (item_count ?x)")
    case True
    then obtain h' where h': "removeThing ?T c i m h = Some h'" "heap_ok ?T ammo h'" "changed h i (setItemCount (remaining ?x m) ?x) h'"
      using removeThing_part [OF ok assms(2), of m] by metis
    have "th_item (things h' i) = setItemCount (remaining ?x m) ?x" using h'(3) by (simp add: changed_def)
    then have "item_count (th_item (things h' i)) \<le> item_count ?x"
      using part_counts(2) [OF assms(3)] True by (simp add: setItemCount_def)
    then show ?thesis using h' changed_took [OF assms(1,2) _ _ _ h'(3)] assms(3) True by blast
  next
    case False
    then obtain h' where h': "removeThing ?T c i m h = Some h'" "heap_ok ?T ammo h'" "removed h c i h'"
      using removeThing_all [OF ok assms(2), of m] by metis
    moreover have "took R h i m h'" by (rule removed_took [OF assms(1) h'(3) assms(2)]) (use False in blast)
    moreover have "th_item (things h' i) = ?x" using h'(3) by (simp add: removed_def)
    ultimately show ?thesis by auto
  qed
  then obtain h' where h': "removeThing ?T c i m h = Some h'" "heap_ok ?T ammo h'" "took R h i m h'"
    "item_count (th_item (things h' i)) \<le> item_count ?x" by blast
  have item: "item_id (th_item (things h' x)) = item_id (th_item (things h x))"
    "item_count (th_item (things h' x)) \<le> item_count (th_item (things h x))" for x
    using h'(3,4) by (cases "x = i", auto simp: took_def setItemCount_def)+
  have "stock_ok R ammo h'"
    by (rule stock_okI [OF assms(1) h'(2)]) (use h'(3) item(1) order_trans [OF item(2)] in \<open>simp_all add: took_def\<close>)
  then show thesis using that h' by blast
qed

section \<open>What the queries promise\<close>

lemma scan_parents_results: "scan_parents env b i cs \<noteq> RETURNVALUE_NEEDEXCHANGE"
  by (induction cs) auto

lemma queryAdd_returns:
  assumes "tree_ok h"
  obtains r where "queryAdd T env c index i cnt flags h = Some r"
proof -
  obtain cs pl where "ancestors (things h) c = Some (cs, pl)"
    using ancestors_return [OF tree_okD(3) [OF assms]] by blast
  then have "\<exists>r. queryAdd T env c index i cnt flags h = Some r" by (simp add: queryAdd_def Let_def)
  then show thesis using that by blast
qed

lemma queryAdd_no_exchange: "queryAdd T (around R) c index i cnt flags h \<noteq> Some RETURNVALUE_NEEDEXCHANGE"
  using scan_parents_results
  by (auto simp: queryAdd_def Let_def around_def child_queryAdd_def split: option.splits location.splits if_splits)

lemma queryAdd_room:
  assumes "queryAdd T env c INDEX_WHEREEVER i cnt flags h = Some RETURNVALUE_NOERROR"
    and "\<not> hasBitSet FLAG_CHILDISOWNER flags" "\<not> hasBitSet FLAG_NOLIMIT flags"
  shows "int (cont_size h c) < uint (capacity h c)"
  using assms by (auto simp: queryAdd_def Let_def split: option.splits if_splits)

lemma stack_room_returns:
  assumes "tree_ok h"
  shows "\<exists>n. stack_room T env c i cnt flags h k js = Some n"
proof (induction js arbitrary: k)
  case (Cons j js)
  obtain r where "queryAdd T env c (int k) i cnt flags h = Some r" using queryAdd_returns [OF assms] .
  moreover obtain n m where "stack_room T env c i cnt flags h (Suc k) js = Some n" "stack_room T env c i cnt flags h k js = Some m"
    using Cons by blast
  ultimately show ?case by (simp add: Let_def)
qed simp

lemma queryMaxCount_returns:
  assumes "tree_ok h"
  obtains r m where "queryMaxCount T env c index i cnt flags h = Some (r, m)"
proof -
  obtain n where n: "stack_room T env c i cnt flags h 0 (itemlist (the_cont h c)) = Some n" using stack_room_returns [OF assms] by blast
  obtain a where a: "queryAdd T env c index i cnt flags h = Some a" using queryAdd_returns [OF assms] .
  have "\<exists>r m. queryMaxCount T env c index i cnt flags h = Some (r, m)"
    using n a by (simp add: queryMaxCount_def Let_def split: option.split)
  then show thesis using that by blast
qed

lemma queryRemove_ok:
  assumes "tree_ok h" "queryRemove T env c i cnt flags h = Some RETURNVALUE_NOERROR"
  shows "th_parent (things h i) = InContainer c" "cnt \<noteq> 0"
    "stackable (type_of T (th_item (things h i))) \<Longrightarrow> cnt \<le> ucast (item_count (th_item (things h i)))"
proof -
  have "getThingIndex h c i \<noteq> -1" and rest: "cnt \<noteq> 0"
    "stackable (type_of T (th_item (things h i))) \<Longrightarrow> \<not> cnt > ucast (item_count (th_item (things h i)))"
    using assms(2) by (auto simp: queryRemove_def Let_def split: if_splits)
  then show "th_parent (things h i) = InContainer c" using getThingIndex_in [OF assms(1), of c i] by blast
  show "cnt \<noteq> 0" "stackable (type_of T (th_item (things h i))) \<Longrightarrow> cnt \<le> ucast (item_count (th_item (things h i)))"
    using rest by auto
qed

lemma freeSlots_pos:
  assumes "stock_ok R ammo h" "freeSlots h c \<noteq> 0"
  shows "int (cont_size h c) < uint (capacity h c)"
proof (rule ccontr)
  assume "\<not> int (cont_size h c) < uint (capacity h c)"
  then have "uint (capacity h c) - int (cont_size h c) = 0"
    using stock_okD(4) [OF assms(1), of c] by (simp add: capacity_def)
  then show False using assms(2) by (simp add: freeSlots_def s32_def)
qed

lemma sint_capacity: "stock_ok R ammo h \<Longrightarrow> sint (capacity h c) = uint (capacity h c)"
proof -
  assume ok: "stock_ok R ammo h"
  have "uint (capacity h c) < 2147483648" using stock_okD(3) [OF ok, of c] by (simp add: capacity_def word_less_def)
  moreover have "- 2147483648 \<le> uint (capacity h c)" using uint_ge_0 [of "capacity h c"] by linarith
  ultimately show ?thesis unfolding sint_uint by (intro signed_take_bit_int_eq_self) simp_all
qed

lemma find_stack_in: "find_stack h i n xs = Some (k, j) \<Longrightarrow> n \<le> k \<and> k < n + length xs \<and> xs ! (k - n) = j"
proof (induction xs arbitrary: n)
  case (Cons x xs)
  then show ?case by (cases "k = n") (fastforce simp: nth_Cons' split: if_splits)+
qed simp

lemma getItemByIndex_in: "tree_ok h \<Longrightarrow> getItemByIndex h c index = Some d \<Longrightarrow> th_parent (things h d) = InContainer c"
  using tree_okD(1) [of h d c] by (auto simp: getItemByIndex_def cont_size_def split: if_splits)

lemma join_stack_ok:
  assumes "stock_ok R ammo h" "join_stack T c index i ti flags h = (sub, index', ti')"
    and "index < uint (capacity h c)" "ti = getItemByIndex h c index"
  shows "sub = c \<and> index' < uint (capacity h c) \<and> ti' = getItemByIndex h c index'"
proof (cases "\<exists>k j. find_stack h i 0 (itemlist (the_cont h c)) = Some (k, j) \<and> index' = int k \<and> ti' = Some j")
  case True
  then obtain k j where f: "find_stack h i 0 (itemlist (the_cont h c)) = Some (k, j)" "index' = int k" "ti' = Some j" by blast
  have "k < cont_size h c" "getItemByIndex h c (int k) = Some j"
    using find_stack_in [OF f(1)] by (simp_all add: getItemByIndex_def cont_size_def)
  moreover have "int (cont_size h c) \<le> uint (capacity h c)" using stock_okD(4) [OF assms(1), of c] by (simp add: capacity_def)
  ultimately show ?thesis using f assms(2) by (auto simp: join_stack_def Let_def split: if_splits option.splits)
next
  case False
  then show ?thesis using assms(2-4) by (auto simp: join_stack_def Let_def split: if_splits option.splits)
qed

lemma queryDestination_ok:
  assumes "stock_ok R ammo h" "th_cont (things h c) \<noteq> None" "queryDestination T c index i None flags h = (sub, index', ti)"
  shows "th_cont (things h sub) \<noteq> None" "index' < uint (capacity h sub)" "ti = getItemByIndex h sub index'"
proof -
  have none: "getItemByIndex h x INDEX_WHEREEVER = None" "INDEX_WHEREEVER < uint (capacity h x)" for x
    by (simp add: getItemByIndex_def, rule less_le_trans [OF _ uint_ge_0], simp)
  define j where "j = (if index = 255 \<or> index \<ge> sint (capacity h c) then INDEX_WHEREEVER else index)"
  have j: "j < uint (capacity h c)"
    using none(2) [of c] sint_capacity [OF assms(1), of c] by (simp add: j_def)
  have "th_cont (things h sub) \<noteq> None \<and> index' < uint (capacity h sub) \<and> ti = getItemByIndex h sub index'"
  proof (cases "index = 254")
    case True
    then show ?thesis
      using assms none parent_is_container [OF stock_okD(2) [OF assms(1)], of c]
      by (auto simp: queryDestination_def split: location.splits)
  next
    case False
    define d where "d = getItemByIndex h c j"
    show ?thesis
    proof (cases "\<exists>x. d = Some x \<and> th_cont (things h x) \<noteq> None")
      case True
      then obtain x where x: "d = Some x" "th_cont (things h x) \<noteq> None" by blast
      then have "j \<noteq> INDEX_WHEREEVER" using none(1) [of c] by (auto simp: d_def)
      then have "(sub, index', ti) = (x, INDEX_WHEREEVER, None)"
        using assms(3) False x unfolding d_def j_def by (auto simp: queryDestination_def Let_def split: if_splits)
      then show ?thesis using x(2) none by simp
    next
      case nocont: False
      have "join_stack T c j i d flags h = (sub, index', ti)"
        using assms(3) False nocont none(1) [of c] unfolding d_def j_def
        by (auto simp: queryDestination_def Let_def split: if_splits option.splits)
      from join_stack_ok [OF assms(1) this j d_def] show ?thesis using assms(2) by simp
    qed
  qed
  then show "th_cont (things h sub) \<noteq> None" "index' < uint (capacity h sub)" "ti = getItemByIndex h sub index'" by simp_all
qed

lemma join_stack_here: "join_stack T c index i ti flags h = (sub, index', ti') \<Longrightarrow> sub = c"
  by (auto simp: join_stack_def Let_def split: if_splits option.splits)

lemma queryDestination_redirect:
  assumes "queryDestination T c index i ti flags h = (sub, index', ti')" "sub \<noteq> c"
  shows "index' = INDEX_WHEREEVER \<and> ti' = None"
  using assms join_stack_here
  by (fastforce simp: queryDestination_def Let_def split: location.splits if_splits option.splits)

lemma destination_ok:
  assumes "stock_ok R ammo h" "th_cont (things h c) \<noteq> None"
    and "n = 0 \<Longrightarrow> index < uint (capacity h c) \<and> getItemByIndex h c index = None"
    and "destination T i n c index None flags h = (to, index', ti, flags')"
  shows "th_cont (things h to) \<noteq> None \<and> index' < uint (capacity h to) \<and> ti = getItemByIndex h to index' \<and>
    (flags' = flags \<or> flags' = 0)"
  using assms(2-4)
proof (induction n arbitrary: c index flags)
  case (Suc n)
  obtain sub j t where q: "queryDestination T c index i None flags h = (sub, j, t)" by (cases "queryDestination T c index i None flags h")
  note ok = queryDestination_ok [OF assms(1) Suc.prems(1) q]
  show ?case
  proof (cases "sub = c")
    case False
    then have "t = None" using queryDestination_redirect [OF q] by simp
    then have "destination T i n sub j None 0 h = (to, index', ti, flags')" using Suc.prems(3) q False by simp
    moreover have "j < uint (capacity h sub) \<and> getItemByIndex h sub j = None" using ok \<open>t = None\<close> by simp
    ultimately show ?thesis using Suc.IH [OF ok(1), of j 0] by simp
  next
    case True
    then show ?thesis using Suc.prems(3) q ok by auto
  qed
qed auto

text \<open>There is a place in \<open>to\<close>, or \<open>m\<close> more fit on the stack \<open>ti\<close>.\<close>

definition room_for :: "rules \<Rightarrow> heap \<Rightarrow> nat \<Rightarrow> nat \<Rightarrow> nat option \<Rightarrow> u32 \<Rightarrow> bool" where
  "room_for R h to i ti m \<longleftrightarrow> int (cont_size h to) < uint (capacity h to) \<or>
     (\<exists>t. ti = Some t \<and> item_equals (th_item (things h i)) (Some (th_item (things h t))) \<and>
        stackable (type_of (rule_types R) (th_item (things h i))) \<and> m \<le> 100 - ucast (item_count (th_item (things h t))))"

lemma queryMaxCount_room:
  assumes "stock_ok R ammo h" "queryAdd (rule_types R) env to index i cnt flags h = Some RETURNVALUE_NOERROR"
    and "\<not> hasBitSet FLAG_CHILDISOWNER flags" "\<not> hasBitSet FLAG_NOLIMIT flags"
    and "queryMaxCount (rule_types R) env to index i cnt flags h = Some (r, mx)"
    and "m = (if stackable (type_of (rule_types R) (th_item (things h i))) then min cnt mx else mx)" "m \<noteq> 0"
  shows "room_for R h to i (getItemByIndex h to index) m"
proof (cases "freeSlots h to = 0")
  case False
  then show ?thesis using freeSlots_pos [OF assms(1)] by (simp add: room_for_def)
next
  case True
  let ?T = "rule_types R" and ?x = "th_item (things h i)"
  have "stackable (type_of ?T ?x)"
    using assms(4-7) True by (auto simp: queryMaxCount_def Let_def split: if_splits)
  then have stack: "stackable (type_of ?T ?x)" "m \<le> mx" using assms(6) by simp_all
  show ?thesis
  proof (cases "index = INDEX_WHEREEVER")
    case True
    then have "int (cont_size h to) < uint (capacity h to)" using queryAdd_room [OF _ assms(3,4)] assms(2) by blast
    then show ?thesis by (simp add: room_for_def)
  next
    case False
    then have "\<exists>d. getItemByIndex h to index = Some d \<and> item_equals ?x (Some (th_item (things h d))) \<and>
        mx = 100 - ucast (item_count (th_item (things h d)))"
      using assms(4-7) True stack(1)
      by (auto simp: queryMaxCount_def Let_def min_def split: if_splits option.splits)
    then show ?thesis using stack unfolding room_for_def by blast
  qed
qed

section \<open>Steps of a move\<close>

lemma heap_ok_same_things:
  assumes "things h' = things h" "next_thing h' = next_thing h"
  shows "heap_ok T ammo h' = heap_ok T ammo h" "stock_ok R ammo h' = stock_ok R ammo h" "units T h' n = units T h n"
    "the_cont h' = the_cont h"
proof -
  show c: "the_cont h' = the_cont h" by (rule ext) (simp add: the_cont_def assms)
  have "getWeight T h' = getWeight T h" "item_ammo h' = item_ammo h" "holds h' = holds h" for T
    by (simp_all add: fun_eq_iff getWeight_def item_ammo_def holds_def assms)
  then show h: "heap_ok T ammo h' = heap_ok T ammo h" for T
    by (simp add: heap_ok_def tree_ok_def weights_ok_def ammo_ok_def content_weight_def c assms)
  show "stock_ok R ammo h' = stock_ok R ammo h" by (simp add: stock_ok_def h c cont_size_def assms)
  show "units T h' n = units T h n" by (simp add: units_def assms)
qed

lemma safe_place_same_parents:
  assumes "tree_ok h" "\<And>x. th_parent (things h' x) = th_parent (things h x)"
  shows "safe_place h' c i = safe_place h c i"
  by (simp add: safe_place_def ancestors_cong [OF tree_okD(3) [OF assms(1)] assms(2)])

lemma no_container_safe:
  assumes "tree_ok h" "th_cont (things h i) = None" "i \<noteq> c"
  shows "safe_place h c i"
proof -
  obtain cs pl where a: "ancestors (things h) c = Some (cs, pl)"
    using ancestors_return [OF tree_okD(3) [OF assms(1)]] by blast
  have "i \<notin> set cs"
    using a
  proof (induction cs arbitrary: c)
    case (Cons p cs)
    have "th_parent (things h c) = InContainer p" "ancestors (things h) p = Some (cs, pl)"
      using ancestors_Cons [OF Cons.prems] by auto
    then show ?case using Cons.IH parent_is_container [OF assms(1), of c p] assms(2) by auto
  qed simp
  then show ?thesis using a assms(3) by (simp add: safe_place_def)
qed

lemma addThing_stock:
  assumes "stock_ok R ammo h" "can_put h c i" "index < uint (capacity h c)" "int (cont_size h c) < uint (capacity h c)"
  obtains h' where "addThing (rule_types R) c index i h = Some h'" "stock_ok R ammo h'"
    "inserted h c i (i # itemlist (the_cont h c)) h'"
    "\<And>n. units (rule_types R) h' n = units (rule_types R) h n + unit_of (rule_types R) n (th_item (things h i))"
proof -
  have "index < sint (capacity h c)" using assms(3) sint_capacity [OF assms(1)] by simp
  then obtain h' where h': "addThing (rule_types R) c index i h = Some h'" "heap_ok (rule_types R) ammo h'"
      "inserted h c i (i # itemlist (the_cont h c)) h'"
    using addThing_ok [OF stock_okD(1) [OF assms(1)] assms(2)] by metis
  have "int (cont_size h' x) \<le> uint (maxSize (the_cont h x))" if "\<not> cont_size h' x \<le> cont_size h x" for x
  proof -
    have "x = c" using that h'(3) by (auto simp: inserted_def cont_size_def split: if_splits)
    then have "cont_size h' x = Suc (cont_size h c)" using h'(3) by (simp add: inserted_def cont_size_def)
    then show ?thesis using assms(4) \<open>x = c\<close> by (simp add: capacity_def)
  qed
  then have "stock_ok R ammo h'"
    by (intro stock_okI [OF assms(1) h'(2)]) (use h'(3) in \<open>auto simp: inserted_def\<close>)
  moreover have "th_parent (things h i) = Nowhere" "i < next_thing h" using assms(2) by (simp_all add: can_put_def)
  ultimately show thesis using that h' units_inserted [OF h'(3)] by blast
qed

lemma short_count:
  assumes "unat (w :: u32) \<le> 100"
  shows "unat (ucast (ucast w :: u16) :: u8) = unat w" "unat (ucast w :: u8) = unat w"
proof -
  have narrow: "unat (ucast w :: u16) = unat w"
    using assms by (simp add: unsigned_ucast_eq take_bit_nat_eq_self)
  have "unat (ucast v :: u8) = unat v" if "unat v \<le> 100" for v :: u16
    using that by (simp add: unsigned_ucast_eq take_bit_nat_eq_self)
  then show "unat (ucast (ucast w :: u16) :: u8) = unat w" using narrow assms by metis
  show "unat (ucast w :: u8) = unat w" using assms by (simp add: unsigned_ucast_eq take_bit_nat_eq_self)
qed

lemma updateThing_stock:
  assumes "stock_ok R ammo h" "stock_types R" "th_parent (things h t) = InContainer c"
    and "stackable (type_of (rule_types R) (th_item (things h t)))" "n \<le> 100 - ucast (item_count (th_item (things h t)))"
  obtains h' where
    "updateThing (rule_types R) c t (item_id (th_item (things h t))) (ucast (item_count (th_item (things h t))) + n) h = Some h'"
    "stock_ok R ammo h'" "\<exists>x. changed h t x h' \<and> item_id x = item_id (th_item (things h t))"
    "\<And>k. units (rule_types R) h' k = units (rule_types R) h k + amount R (th_item (things h t)) n k"
proof -
  let ?T = "rule_types R" and ?x = "th_item (things h t)"
  let ?c = "ucast (item_count ?x) + n"
  define x where "x = item_setSubType ?T (ucast ?c) (setID ?T (item_id ?x) ?x)"
  have small: "item_count ?x \<le> 100" using stock_okD(5) [OF assms(1,4)] .
  then have "unat (item_count ?x) \<le> 100" by (simp add: word_le_nat_alt)
  moreover have "ucast (item_count ?x) \<le> (100 :: u32)" using calculation by (simp add: word_le_nat_alt)
  then have "unat n + unat (item_count ?x) \<le> 100"
    using assms(5) calculation by (simp add: word_le_nat_alt unat_sub)
  ultimately have c: "unat ?c = unat (item_count ?x) + unat n" "unat ?c \<le> 100" by (simp_all add: unat_word_ariths)
  have id: "item_id (setID ?T (item_id ?x) ?x) = item_id ?x"
    by (simp add: setID_def Let_def item_removeAttribute_def setDuration_def setDecaying_def item_setIntAttr_def split: option.split)
  have "x = setItemCount (ucast (ucast ?c :: u16)) (setID ?T (item_id ?x) ?x)"
    using assms(2,4) by (simp add: x_def item_setSubType_def setSubType_def stock_types_def type_of_def id item_type.truncate_def)
  then have x: "item_id x = item_id ?x" "unat (item_count x) = unat ?c"
    using short_count(1) [OF c(2)] id unfolding setItemCount_def by simp_all
  then have "?c = ucast (item_count x)" by (simp add: word_unat_eq_iff)
  then obtain h' where h': "updateThing ?T c t (item_id ?x) ?c h = Some h'" "heap_ok ?T ammo h'" "changed h t x h'"
    using updateThing_ok [OF stock_okD(1) [OF assms(1)] assms(3) x_def] by metis
  have "item_count x \<le> 100" using x(2) c(2) by (simp add: word_le_nat_alt)
  then have "stock_ok R ammo h'"
    by (intro stock_okI [OF assms(1) h'(2)]) (use h'(3) x(1) in \<open>auto simp: changed_def cont_size_def\<close>)
  moreover have "units ?T h' k = units ?T h k + amount R ?x n k" for k
  proof -
    have "unit_of ?T k x = unit_of ?T k ?x + amount R ?x n k"
      using x c(1) assms(4) by (auto simp: unit_of_def amount_def type_of_def)
    moreover have "t < next_thing h" using tree_bound [OF stock_okD(2) [OF assms(1)], of t] assms(3) by simp
    ultimately show ?thesis using units_changed [OF h'(3), of ?T k] assms(3) by simp
  qed
  ultimately show thesis using that [OF h'(1)] h'(3) x(1) by blast
qed

text \<open>A new stack of \<open>n\<close>, not yet in any container\<close>

definition fresh :: "heap \<Rightarrow> nat \<Rightarrow> u16 \<Rightarrow> heap \<Rightarrow> bool" where
  "fresh h k type h' \<longleftrightarrow> next_thing h = k \<and> next_thing h' = Suc k \<and> th_parent (things h' k) = Nowhere \<and>
     th_cont (things h' k) = None \<and> item_id (th_item (things h' k)) = type \<and> (\<forall>x. x \<noteq> k \<longrightarrow> things h' x = things h x)"

lemma upd_item_stock:
  assumes "stock_ok R ammo h"
    and "th_parent (things h i) = Nowhere \<or>
      item_weight (rule_types R) (f (th_item (things h i))) = item_weight (rule_types R) (th_item (things h i)) \<and>
      item_count (f (th_item (things h i))) = item_count (th_item (things h i))"
    and "item_id (f (th_item (things h i))) = item_id (th_item (things h i))"
    and "item_count (f (th_item (things h i))) \<le> 100 \<or> item_count (f (th_item (things h i))) = item_count (th_item (things h i))"
  shows "stock_ok R ammo (upd_item i f h)" "units (rule_types R) (upd_item i f h) n = units (rule_types R) h n"
proof -
  have "heap_ok (rule_types R) ammo (upd_item i f h)" using upd_item_ok [of "rule_types R" ammo h i f] stock_okD(1) [OF assms(1)] assms(2) by blast
  then show "stock_ok R ammo (upd_item i f h)"
    by (intro stock_okI [OF assms(1)]) (use assms(3,4) in \<open>auto simp: cont_size_def\<close>)
  show "units (rule_types R) (upd_item i f h) n = units (rule_types R) h n"
    by (rule units_cong) (use assms(2,3) in \<open>auto simp: unit_of_def\<close>)
qed

lemma item_new_stack:
  assumes "stackable (T type)" "\<not> fluid_or_splash (T type)" "cnt \<noteq> 0"
  shows "item_id (item_new T type cnt) = type" "item_count (item_new T type cnt) = ucast cnt"
  using assms by (simp_all add: item_new_def Let_def setDefaultDuration_def setDuration_def item_setIntAttr_def setItemCount_def)

lemma new_thing_stock:
  assumes "stock_ok R ammo h" "new_thing x None h = (k, h')" "item_count x \<le> 100"
  shows "stock_ok R ammo h'" "fresh h k (item_id x) h'" "units (rule_types R) h' n = units (rule_types R) h n"
    "th_item (things h' k) = x"
proof -
  note new = new_thing_ok [OF stock_okD(1) [OF assms(1)] assms(2)]
  have free: "th_parent (things h' k) = Nowhere" "th_item (things h' k) = x" "th_cont (things h' k) = None"
    and old: "\<And>y. y \<noteq> k \<Longrightarrow> things h' y = things h y" and k: "k = next_thing h" "next_thing h' = Suc k"
    and ok: "heap_ok (rule_types R) ammo h'"
    using new by blast+
  have "th_cont (things h k) = None" using tree_okD(4) [OF stock_okD(2) [OF assms(1)], of k] k(1) by simp
  then have cont: "the_cont h' y = the_cont h y" for y
    using old [of y] free(3) by (cases "y = k") (simp_all add: the_cont_def)
  have "item_count (th_item (things h' y)) \<le> 100 \<and> th_cont (things h' y) = None"
    if "stackable (type_of (rule_types R) (th_item (things h' y)))" for y
    using that stock_okD(5,6) [OF assms(1), of y] assms(3) free old [of y] by (cases "y = k") simp_all
  then show "stock_ok R ammo h'"
    using ok stock_okD(3,4) [OF assms(1)] by (simp add: stock_ok_def cont cont_size_def)
  show "fresh h k (item_id x) h'" "th_item (things h' k) = x" using free old k by (simp_all add: fresh_def)
  show "units (rule_types R) h' n = units (rule_types R) h n"
    by (rule units_new_thing [OF stock_okD(1) [OF assms(1)] assms(2)])
qed

lemma item_clone_stock:
  assumes "stock_ok R ammo (wheap w)" "stock_types R" "stackable (type_of (rule_types R) (itemAt w i))"
  obtains k w' where "item_clone R i w = Some (k, w')" "stock_ok R ammo (wheap w')"
    "fresh (wheap w) k (item_id (itemAt w i)) (wheap w')"
    "\<And>n. units (rule_types R) (wheap w') n = units (rule_types R) (wheap w) n"
proof -
  let ?T = "rule_types R" and ?x = "itemAt w i"
  let ?cnt = "if ucast (item_count ?x) = (0 :: u16) then 1 else ucast (item_count ?x) :: u16"
  have t: "stackable (?T (item_id ?x))" "\<not> fluid_or_splash (?T (item_id ?x))" "\<not> deprecated (creations R (item_id ?x))"
    "known (creations R (item_id ?x))" "made_as (creations R (item_id ?x)) = MadeItem" "not_worn (item_id ?x) = item_id ?x"
    using assms(2,3) by (simp_all add: stock_types_def type_of_def)
  have "CreateItem R (item_id ?x) (ucast (item_count ?x)) = Some (item_new ?T (item_id ?x) ?cnt, None)"
    using t by (simp add: CreateItem_def Let_def)
  moreover define y where "y = (case item_attrs ?x of None \<Rightarrow> item_new ?T (item_id ?x) ?cnt
      | Some a \<Rightarrow> (item_new ?T (item_id ?x) ?cnt)\<lparr>item_attrs := Some a\<rparr>)"
  moreover obtain k h where new: "new_thing y None (wheap w) = (k, h)" by (cases "new_thing y None (wheap w)")
  ultimately have clone: "item_clone R i w =
      Some (k, if item_attrs ?x \<noteq> None \<and> getDuration y > 0 then start_decay k (w\<lparr>wheap := h\<rparr>) else w\<lparr>wheap := h\<rparr>)"
    by (simp add: item_clone_def Let_def)
  have small: "item_count ?x \<le> 100" using stock_okD(5) [OF assms(1)] assms(3) by (simp add: itemAt_def)
  have "item_id y = item_id ?x \<and> item_count y = ucast ?cnt"
  proof -
    have "?cnt \<noteq> 0" by simp
    note new = item_new_stack [of ?T "item_id ?x" ?cnt, OF t(1,2) this]
    have attrs: "item_id (z\<lparr>item_attrs := a\<rparr>) = item_id z" "item_count (z\<lparr>item_attrs := a\<rparr>) = item_count z" for z a
      by simp_all
    show ?thesis by (cases "item_attrs ?x") (simp_all only: y_def option.case new attrs simp_thms)
  qed
  moreover have "ucast ?cnt \<le> (100 :: u8)"
  proof -
    have "ucast (ucast v :: u16) = v" for v :: u8 by (rule bit_word_eqI) (simp add: bit_unsigned_iff)
    then show ?thesis using small by (cases "ucast (item_count ?x) = (0 :: u16)") simp_all
  qed
  ultimately have y: "item_id y = item_id ?x" "item_count y \<le> 100" by simp_all
  note n = new_thing_stock [OF assms(1) new y(2)]
  have par: "th_parent (things h k) = Nowhere" using n(2) by (simp add: fresh_def)
  have decay: "stock_ok R ammo (upd_item k (setDecaying DECAYING_TRUE) h)"
    "units ?T (upd_item k (setDecaying DECAYING_TRUE) h) m = units ?T h m" for m
    using upd_item_stock [OF n(1), of k "setDecaying DECAYING_TRUE"] by simp_all
  have "fresh (wheap w) k (item_id ?x) (upd_item k (setDecaying DECAYING_TRUE) h)"
    using n(2) y(1) by (auto simp: fresh_def upd_item_def)
  then show thesis using that [OF clone] n(1-3) y(1) decay by (auto simp: start_decay_def)
qed

lemma clone_stock:
  assumes "stock_ok R ammo (wheap w)" "stock_types R" "stackable (type_of (rule_types R) (itemAt w i))" "i < next_thing (wheap w)"
    and "n \<le> 100"
  obtains k w' where "clone R i w = Some (k, w')"
    "stock_ok R ammo (upd_item k (setItemCount n) (wheap w'))"
    "fresh (wheap w) k (item_id (itemAt w i)) (upd_item k (setItemCount n) (wheap w'))"
    "item_count (th_item (things (upd_item k (setItemCount n) (wheap w')) k)) = n"
    "\<And>m. units (rule_types R) (upd_item k (setItemCount n) (wheap w')) m = units (rule_types R) (wheap w) m"
proof -
  obtain k w' where c: "item_clone R i w = Some (k, w')" "stock_ok R ammo (wheap w')"
      "fresh (wheap w) k (item_id (itemAt w i)) (wheap w')"
      "\<And>n. units (rule_types R) (wheap w') n = units (rule_types R) (wheap w) n"
    using item_clone_stock [OF assms(1-3)] by metis
  have "i \<noteq> k" using c(3) assms(4) by (auto simp: fresh_def)
  then have "th_cont (things (wheap w') i) = None"
    using c(3) stock_okD(6) [OF assms(1), of i] assms(3) by (simp add: fresh_def itemAt_def)
  then have "clone R i w = Some (k, w')" by (simp add: clone_def c(1))
  moreover have "stock_ok R ammo (upd_item k (setItemCount n) (wheap w'))"
      "units (rule_types R) (upd_item k (setItemCount n) (wheap w')) m = units (rule_types R) (wheap w) m" for m
  proof -
    have "th_parent (things (wheap w') k) = Nowhere" using c(3) unfolding fresh_def by blast
    then show "stock_ok R ammo (upd_item k (setItemCount n) (wheap w'))"
      "units (rule_types R) (upd_item k (setItemCount n) (wheap w')) m = units (rule_types R) (wheap w) m" for m
      using upd_item_stock [OF c(2), of k "setItemCount n"] c(4) assms(5) by (simp_all add: setItemCount_def)
  qed
  moreover have "fresh (wheap w) k (item_id (itemAt w i)) (upd_item k (setItemCount n) (wheap w'))"
    using c(3) by (auto simp: fresh_def upd_item_def setItemCount_def)
  ultimately show thesis using that by (simp add: setItemCount_def)
qed

text \<open>What is left of the item after a stack took its part: the item \<open>k\<close> to add, if any, is ready for \<open>to\<close>.\<close>

definition ready :: "rules \<Rightarrow> bool \<Rightarrow> heap \<Rightarrow> nat \<Rightarrow> nat \<Rightarrow> u32 \<Rightarrow> nat option \<Rightarrow> heap \<Rightarrow> bool" where
  "ready R ammo h to i m moveItem h' \<longleftrightarrow> stock_ok R ammo h' \<and> th_cont (things h' to) \<noteq> None \<and>
     maxSize (the_cont h' to) = maxSize (the_cont h to) \<and> item_id (th_item (things h' i)) = item_id (th_item (things h i)) \<and>
     (stackable (type_of (rule_types R) (th_item (things h i))) \<longrightarrow> moveItem \<noteq> Some i \<and>
        th_parent (things h' i) = th_parent (things h i) \<and> item_count (th_item (things h' i)) = item_count (th_item (things h i))) \<and>
     (case moveItem of
        None \<Rightarrow> \<forall>n. units (rule_types R) h' n = units (rule_types R) h n + amount R (th_item (things h i)) m n
      | Some k \<Rightarrow> can_put h' to k \<and> int (cont_size h' to) < uint (capacity h' to) \<and>
          (\<forall>n. units (rule_types R) h' n + unit_of (rule_types R) n (th_item (things h' k)) =
            units (rule_types R) h n + amount R (th_item (things h i)) m n))"

lemma small_sint: "unat (w :: u32) \<le> 100 \<Longrightarrow> sint w > 0 \<longleftrightarrow> w \<noteq> 0"
proof -
  assume w: "unat w \<le> 100"
  then have "int (unat w) \<le> 100" by linarith
  then have "uint w \<le> 100" unfolding of_nat_unat .
  then have "\<not> sint w < 0" by (simp add: sint_neg_u32)
  moreover have "sint w = 0 \<longleftrightarrow> w = 0" by (rule signed_eq_0_iff)
  ultimately show ?thesis by linarith
qed

lemma clone_ready:
  assumes "stock_ok R ammo (wheap w)" "stock_types R" "stackable (type_of (rule_types R) (itemAt w i))" "i < next_thing (wheap w)"
    and "unat left \<le> 100" "th_cont (things (wheap w) to) \<noteq> None" "int (cont_size (wheap w) to) < uint (capacity (wheap w) to)"
  obtains k w' where "clone R i w = Some (k, w')"
    "ready R ammo (wheap w) to i left (Some k) (upd_item k (setItemCount (ucast left)) (wheap w'))"
    "k \<noteq> i" "things (upd_item k (setItemCount (ucast left)) (wheap w')) i = things (wheap w) i"
    "item_id (th_item (things (upd_item k (setItemCount (ucast left)) (wheap w')) k)) = item_id (itemAt w i)"
    "item_count (th_item (things (upd_item k (setItemCount (ucast left)) (wheap w')) k)) = ucast left"
    "\<And>n. units (rule_types R) (upd_item k (setItemCount (ucast left)) (wheap w')) n = units (rule_types R) (wheap w) n"
    "\<And>x. x \<noteq> k \<Longrightarrow> things (upd_item k (setItemCount (ucast left)) (wheap w')) x = things (wheap w) x"
proof -
  have "ucast left \<le> (100 :: u8)" using short_count(2) [OF assms(5)] assms(5) by (simp add: word_le_nat_alt)
  then obtain k w' where c: "clone R i w = Some (k, w')"
    "stock_ok R ammo (upd_item k (setItemCount (ucast left)) (wheap w'))"
    "fresh (wheap w) k (item_id (itemAt w i)) (upd_item k (setItemCount (ucast left)) (wheap w'))"
    "item_count (th_item (things (upd_item k (setItemCount (ucast left)) (wheap w')) k)) = ucast left"
    "\<And>m. units (rule_types R) (upd_item k (setItemCount (ucast left)) (wheap w')) m = units (rule_types R) (wheap w) m"
    using clone_stock [OF assms(1-4)] by metis
  define h where "h = upd_item k (setItemCount (ucast left)) (wheap w')"
  note c = c [folded h_def]
  have fr: "next_thing (wheap w) = k" "next_thing h = Suc k" "th_parent (things h k) = Nowhere" "th_cont (things h k) = None"
    "item_id (th_item (things h k)) = item_id (itemAt w i)" and old: "\<And>x. x \<noteq> k \<Longrightarrow> things h x = things (wheap w) x"
    using c(3) by (simp_all add: fresh_def)
  have ne: "to \<noteq> k" "i \<noteq> k"
    using tree_okD(4) [OF stock_okD(2) [OF assms(1)], of k] fr(1) assms(4,6) by auto
  have cont: "the_cont h to = the_cont (wheap w) to" using old [OF ne(1)] by (simp add: the_cont_def)
  have "safe_place h to k" using no_container_safe [OF stock_okD(2) [OF c(2)] fr(4)] ne(1) by auto
  then have "can_put h to k" using fr old [OF ne(1)] assms(6) by (simp add: can_put_def)
  moreover have "unit_of (rule_types R) n (th_item (things h k)) = amount R (itemAt w i) left n" for n
    using assms(3) short_count(2) [OF assms(5)] by (auto simp: unit_of_def amount_def type_of_def fr(5) c(4))
  ultimately have "ready R ammo (wheap w) to i left (Some k) h"
    using c(2,5) old [OF ne(1)] old [OF ne(2)] assms(6,7) not_sym [OF ne(2)]
    by (simp add: ready_def cont cont_size_def capacity_def itemAt_def)
  then show thesis using that c ne old fr(5) unfolding h_def by metis
qed

end
