(* ===== verification/MoveLaws.thy ===== *)
theory MoveLaws
  imports Stocks
begin

text \<open>
  Moving, adding and removing items keeps their number: what the functions of \<open>ItemMoves\<close> do to the number of items
  of each type that are somewhere.
\<close>

section \<open>Moves\<close>

lemma isRemoved_returns: "tree_ok (wheap w) \<Longrightarrow> \<exists>g. isRemoved R w i = Some g"
  using ancestors_return [OF tree_okD(3), of "wheap w" i] by (auto simp: isRemoved_def)

lemma world_simps [simp]:
  "wheap (add_posts ps w) = wheap w" "wheap (postRemoved c i j index w) = wheap w" "wheap (postAdded c i j w) = wheap w"
  "wheap (moved_event actor i cnt from to w) = wheap w" "wheap (onRemoved i w) = wheap w"
  "things (wheap (release i w)) = things (wheap w)" "next_thing (wheap (release i w)) = next_thing (wheap w)"
  by (simp_all add: add_posts_def postRemoved_def postAdded_def moved_event_def onRemoved_def release_def Let_def split: option.split)

lemma release_same [simp]:
  "stock_ok R ammo (wheap (release i w)) = stock_ok R ammo (wheap w)" "units T (wheap (release i w)) n = units T (wheap w) n"
  "the_cont (wheap (release i w)) = the_cont (wheap w)" "itemAt (release i w) j = itemAt w j"
  "safe_place (wheap (release i w)) c j = safe_place (wheap w) c j"
  using heap_ok_same_things [of "wheap (release i w)" "wheap w"] by (simp_all add: itemAt_def safe_place_def)

lemma ready_release [simp]: "ready R ammo h to i m mi (wheap (release j w)) = ready R ammo h to i m mi (wheap w)"
  by (simp add: ready_def can_put_def capacity_def cont_size_def split: option.split)

text \<open>The end of \<open>split_item\<close> after \<open>n\<close> of \<open>m\<close> joined a stack\<close>

lemma split_rest:
  assumes "stock_ok R ammo (wheap w)" "stock_types R" "stackable (type_of (rule_types R) (itemAt w i))" "i < next_thing (wheap w)"
    and "unat left \<le> 100" "th_cont (things (wheap w) to) \<noteq> None"
    and "left \<noteq> 0 \<Longrightarrow> int (cont_size (wheap w) to) < uint (capacity (wheap w) to)"
  obtains mi w' where
    "do {
       (moveItem, w) \<leftarrow>
         (if sint left > 0 then
            map_option (\<lambda>(k, w). (Some k, w\<lparr>wheap := upd_item k (setItemCount (ucast left)) (wheap w)\<rparr>)) (clone R i w)
          else Some (None, w));
       gone \<leftarrow> isRemoved R w i;
       Some (moveItem, u, if gone then release i w else w)
     } = Some (mi, u, w')"
    "ready R ammo (wheap w) to i left mi (wheap w')"
proof (cases "left = 0")
  case True
  obtain g where g: "isRemoved R w i = Some g" using isRemoved_returns [OF stock_okD(2) [OF assms(1)]] by blast
  have "ready R ammo (wheap w) to i left None (wheap w)"
    using assms(1,6) True by (simp add: ready_def amount_def)
     (use assms(3) in \<open>auto simp: type_of_def itemAt_def\<close>)
  then show thesis using that [of None "if g then release i w else w"] g True by simp
next
  case False
  obtain k w1 where k: "clone R i w = Some (k, w1)"
    "ready R ammo (wheap w) to i left (Some k) (upd_item k (setItemCount (ucast left)) (wheap w1))"
    using clone_ready [OF assms(1-6) assms(7) [OF False]] by metis
  define w2 where "w2 = w1\<lparr>wheap := upd_item k (setItemCount (ucast left)) (wheap w1)\<rparr>"
  have r: "ready R ammo (wheap w) to i left (Some k) (wheap w2)" using k(2) by (simp add: w2_def)
  then have "tree_ok (wheap w2)" using stock_okD(2) by (auto simp: ready_def)
  then obtain g where g: "isRemoved R w2 i = Some g" using isRemoved_returns by blast
  show thesis
    using that [of "Some k" "if g then release i w2 else w2"] k(1) g False small_sint [OF assms(5)] r by (simp add: w2_def)
qed

lemma split_item_ok:
  assumes "stock_ok R ammo (wheap w)" "stock_types R" "i < next_thing (wheap w)" "th_cont (things (wheap w) to) \<noteq> None"
    and "safe_place (wheap w) to i" "room_for R (wheap w) to i ti m" "\<And>t. ti = Some t \<Longrightarrow> th_parent (things (wheap w) t) = InContainer to \<and> t \<noteq> i"
    and "\<not> stackable (type_of (rule_types R) (itemAt w i)) \<Longrightarrow> th_parent (things (wheap w) i) = Nowhere"
    and "stackable (type_of (rule_types R) (itemAt w i)) \<Longrightarrow> unat m \<le> 100" "m \<noteq> 0"
  obtains mi ui w' where "split_item R to i ti m w = Some (mi, ui, w')" "ready R ammo (wheap w) to i m mi (wheap w')"
proof (cases "stackable (type_of (rule_types R) (itemAt w i))")
  case False
  then have "unit_of (rule_types R) n (itemAt w i) = amount R (itemAt w i) m n" for n
    by (auto simp: unit_of_def amount_def type_of_def)
  moreover have "int (cont_size (wheap w) to) < uint (capacity (wheap w) to)"
    using assms(6) False by (simp add: room_for_def itemAt_def)
  ultimately have "ready R ammo (wheap w) to i m (Some i) (wheap w)"
    using assms False by (simp add: ready_def can_put_def itemAt_def)
  then show thesis using that [of "Some i" None w] False by (simp add: split_item_def)
next
  case True
  let ?T = "rule_types R"
  show thesis
  proof (cases "\<exists>t. ti = Some t \<and> item_equals (itemAt w i) (Some (itemAt w t))")
    case False
    then have room: "int (cont_size (wheap w) to) < uint (capacity (wheap w) to)"
      using assms(6) by (auto simp: room_for_def itemAt_def)
    have join: "join_item R to i ti m w = Some (0, None, w)"
      using False by (auto simp: join_item_def split: option.split)
    obtain mi w' where r:
      "do {
         (moveItem, w) \<leftarrow>
           (if sint m > 0 then
              map_option (\<lambda>(k, w). (Some k, w\<lparr>wheap := upd_item k (setItemCount (ucast m)) (wheap w)\<rparr>)) (clone R i w)
            else Some (None, w));
         gone \<leftarrow> isRemoved R w i;
         Some (moveItem, None :: nat option, if gone then release i w else w)
       } = Some (mi, None, w')" "ready R ammo (wheap w) to i m mi (wheap w')"
      by (rule split_rest [OF assms(1,2) True assms(3) assms(9) [OF True] assms(4) room])
    have "split_item R to i ti m w = Some (mi, None, w')"
      using r(1) by (simp add: split_item_def True join cong: if_cong)
    then show thesis using that r(2) by blast
  next
    case equal: True
    then obtain t where t: "ti = Some t" "item_equals (itemAt w i) (Some (itemAt w t))" by blast
    define n where "n = min (100 - ucast (item_count (itemAt w t))) m"
    have id: "item_id (itemAt w t) = item_id (itemAt w i)" using t(2) by (simp add: item_equals_def)
    then have st: "stackable (type_of ?T (itemAt w t))" using True by (simp add: type_of_def)
    have "n \<le> 100 - ucast (item_count (th_item (things (wheap w) t)))" by (simp add: n_def itemAt_def)
    then obtain h' x where h': "updateThing ?T to t (item_id (itemAt w t)) (ucast (item_count (itemAt w t)) + n) (wheap w) = Some h'"
      "stock_ok R ammo h'" "changed (wheap w) t x h'"
      "\<And>k. units ?T h' k = units ?T (wheap w) k + amount R (itemAt w t) n k"
      using updateThing_stock [OF assms(1,2), of t to n] assms(7) [OF t(1)] st unfolding itemAt_def by metis
    define w1 where "w1 = w\<lparr>wheap := h'\<rparr>"
    have join: "join_item R to i ti m w = Some (n, Some t, w1)"
      using t h'(1) by (simp add: join_item_def n_def [symmetric] with_heap_def w1_def)
    have same: "itemAt w1 i = itemAt w i" "next_thing (wheap w1) = next_thing (wheap w)" "th_cont (things (wheap w1) to) \<noteq> None"
      "cont_size (wheap w1) to = cont_size (wheap w) to" "maxSize (the_cont (wheap w1) to) = maxSize (the_cont (wheap w) to)"
      "th_parent (things (wheap w1) i) = th_parent (things (wheap w) i)"
      using h'(3) assms(4) assms(7) [OF t(1)] by (auto simp: w1_def changed_def itemAt_def cont_size_def)
    have "n \<le> m" by (simp add: n_def)
    then have sub: "unat (m - n) = unat m - unat n" "unat n \<le> unat m" by (simp_all add: unat_sub word_le_nat_alt)
    have left: "int (cont_size (wheap w1) to) < uint (capacity (wheap w1) to)" if "m - n \<noteq> 0"
    proof -
      have "\<not> m \<le> 100 - ucast (item_count (itemAt w t))" using that by (auto simp: n_def min.absorb2)
      then show ?thesis using assms(6) t(1) same(4,5) by (simp add: room_for_def itemAt_def capacity_def)
    qed
    have small: "unat (m - n) \<le> 100" using sub assms(9) [OF True] by simp
    have ok1: "stock_ok R ammo (wheap w1)" "stackable (type_of ?T (itemAt w1 i))" "i < next_thing (wheap w1)"
      using h'(2) True same assms(3) by (simp_all add: w1_def)
    obtain mi w' where r:
      "do {
         (moveItem, w) \<leftarrow>
           (if sint (m - n) > 0 then
              map_option (\<lambda>(k, w). (Some k, w\<lparr>wheap := upd_item k (setItemCount (ucast (m - n))) (wheap w)\<rparr>)) (clone R i w1)
            else Some (None, w1));
         gone \<leftarrow> isRemoved R w i;
         Some (moveItem, Some t, if gone then release i w else w)
       } = Some (mi, Some t, w')" "ready R ammo (wheap w1) to i (m - n) mi (wheap w')"
      by (rule split_rest [OF ok1(1) assms(2) ok1(2,3) small same(3) left])
    have "split_item R to i ti m w = Some (mi, Some t, w')"
      using True join r(1) by (simp add: split_item_def)
    moreover have "amount R (itemAt w t) n k + amount R (itemAt w i) (m - n) k = amount R (itemAt w i) m k" for k
      using id sub True by (auto simp: amount_def type_of_def)
    then have "ready R ammo (wheap w) to i m mi (wheap w')"
      using r(2) h'(4) same by (auto simp: ready_def w1_def itemAt_def split: option.splits)
    ultimately show thesis using that by blast
  qed
qed

text \<open>The item that was taken out is on its way: the steps of \<open>carry_over\<close>.\<close>

lemma took_ready:
  assumes "stock_ok R ammo h" "took R h i m h1" "th_cont (things h to) \<noteq> None" "safe_place h to i"
    and "room_for R h to i ti m" "\<And>t. ti = Some t \<Longrightarrow> th_parent (things h t) = InContainer to \<and> t \<noteq> i"
  shows "th_cont (things h1 to) \<noteq> None" "safe_place h1 to i" "room_for R h1 to i ti m"
    "\<And>t. ti = Some t \<Longrightarrow> th_parent (things h1 t) = InContainer to \<and> t \<noteq> i"
    "item_id (th_item (things h1 i)) = item_id (th_item (things h i))"
proof -
  obtain k where k: "th_item (things h1 i) = setItemCount k (th_item (things h i))" using assms(2) by (auto simp: took_def)
  show "item_id (th_item (things h1 i)) = item_id (th_item (things h i))" by (simp add: k setItemCount_def)
  show "th_cont (things h1 to) \<noteq> None" "safe_place h1 to i" using assms(2-4) by (simp_all add: took_def)
  show "\<And>t. ti = Some t \<Longrightarrow> th_parent (things h1 t) = InContainer to \<and> t \<noteq> i" using assms(2,6) by (auto simp: took_def)
  have "int (cont_size h1 to) \<le> int (cont_size h to)" "capacity h1 to = capacity h to"
    using assms(2) by (simp_all add: took_def capacity_def)
  moreover have "item_equals (setItemCount k x) y = item_equals x y" for x y
    by (simp add: item_equals_def setItemCount_def cong: option.case_cong)
  moreover have "th_item (things h1 t) = th_item (things h t)" if "ti = Some t" for t
    using assms(2,6) that by (auto simp: took_def)
  ultimately show "room_for R h1 to i ti m"
    using assms(5) by (auto simp: room_for_def k type_of_def setItemCount_def intro: le_less_trans)
qed

text \<open>\<open>m\<close> of the stack \<open>i\<close> are gone, or the item is.\<close>

definition left_behind :: "rules \<Rightarrow> heap \<Rightarrow> nat \<Rightarrow> u32 \<Rightarrow> heap \<Rightarrow> bool" where
  "left_behind R h i m h' \<longleftrightarrow> (stackable (type_of (rule_types R) (th_item (things h i))) \<longrightarrow>
     (if m = ucast (item_count (th_item (things h i))) then th_parent (things h' i) = Nowhere
      else th_parent (things h' i) = th_parent (things h i) \<and>
        unat (item_count (th_item (things h' i))) + unat m = unat (item_count (th_item (things h i)))))"

definition conserved :: "rules \<Rightarrow> bool \<Rightarrow> heap \<Rightarrow> heap \<Rightarrow> bool" where
  "conserved R ammo h h' \<longleftrightarrow> stock_ok R ammo h' \<and> (\<forall>n. units (rule_types R) h' n = units (rule_types R) h n)"

lemma start_decay_conserved:
  "conserved R ammo h (wheap w) \<Longrightarrow> conserved R ammo h (wheap (start_decay i w))"
  using upd_item_stock [of R ammo "wheap w" i "setDecaying DECAYING_TRUE"] by (simp add: conserved_def start_decay_def)

lemma add_ready:
  assumes "ready R ammo h to i m mi (wheap w)" "index < uint (capacity h to)"
  obtains w' where "(case mi of None \<Rightarrow> Some w | Some k \<Rightarrow> with_heap (addThing (rule_types R) to index k) w) = Some w'"
    "stock_ok R ammo (wheap w')"
    "\<And>n. units (rule_types R) (wheap w') n = units (rule_types R) h n + amount R (th_item (things h i)) m n"
    "stackable (type_of (rule_types R) (th_item (things h i))) \<Longrightarrow> th_parent (things (wheap w') i) = th_parent (things h i) \<and>
       item_count (th_item (things (wheap w') i)) = item_count (th_item (things h i))"
    "item_id (th_item (things (wheap w') i)) = item_id (th_item (things h i))"
proof (cases mi)
  case None
  then show thesis using that [of w] assms(1) by (simp add: ready_def)
next
  case (Some k)
  then have r: "stock_ok R ammo (wheap w)" "can_put (wheap w) to k" "int (cont_size (wheap w) to) < uint (capacity (wheap w) to)"
    "\<And>n. units (rule_types R) (wheap w) n + unit_of (rule_types R) n (th_item (things (wheap w) k)) =
      units (rule_types R) h n + amount R (th_item (things h i)) m n" "capacity (wheap w) to = capacity h to"
    "stackable (type_of (rule_types R) (th_item (things h i))) \<Longrightarrow> k \<noteq> i \<and> th_parent (things (wheap w) i) = th_parent (things h i) \<and>
       item_count (th_item (things (wheap w) i)) = item_count (th_item (things h i))"
    "item_id (th_item (things (wheap w) i)) = item_id (th_item (things h i))"
    using assms(1) by (auto simp: ready_def capacity_def)
  obtain h' where h': "addThing (rule_types R) to index k (wheap w) = Some h'" "stock_ok R ammo h'"
    "inserted (wheap w) to k (k # itemlist (the_cont (wheap w) to)) h'"
    "\<And>n. units (rule_types R) h' n = units (rule_types R) (wheap w) n + unit_of (rule_types R) n (th_item (things (wheap w) k))"
    using addThing_stock [OF r(1,2) _ r(3), of index] assms(2) r(5) by metis
  have "th_parent (things h' i) = th_parent (things h i)" "item_count (th_item (things h' i)) = item_count (th_item (things h i))"
    if "stackable (type_of (rule_types R) (th_item (things h i)))"
    using r(6) [OF that] h'(3) by (auto simp: inserted_def)
  then show thesis using that [of "w\<lparr>wheap := h'\<rparr>"] h' Some r(4,7) by (simp add: with_heap_def inserted_def)
qed

lemma carry_over_ok:
  assumes "stock_ok R ammo (wheap w)" "stock_types R" "th_parent (things (wheap w) i) = InContainer from"
    and "th_cont (things (wheap w) to) \<noteq> None" "safe_place (wheap w) to i" "index < uint (capacity (wheap w) to)"
    and "m = (if stackable (type_of (rule_types R) (itemAt w i)) then min cnt maxCount else maxCount)"
    and "room_for R (wheap w) to i ti m" "\<And>t. ti = Some t \<Longrightarrow> th_parent (things (wheap w) t) = InContainer to \<and> t \<noteq> i"
    and "m \<noteq> 0" "stackable (type_of (rule_types R) (itemAt w i)) \<Longrightarrow> m \<le> ucast (item_count (itemAt w i))"
  obtains ret w' where "carry_over R actor from to index i cnt ti maxRet maxCount w = Some (ret, w')"
    "conserved R ammo (wheap w) (wheap w')" "left_behind R (wheap w) i m (wheap w')"
    "ret = (if stackable (type_of (rule_types R) (itemAt w' i)) \<and> maxCount < cnt then maxRet else RETURNVALUE_NOERROR)"
    "item_id (itemAt w' i) = item_id (itemAt w i)"
proof -
  let ?T = "rule_types R"
  obtain h1 where h1: "removeThing ?T from i m (wheap w) = Some h1" "stock_ok R ammo h1" "took R (wheap w) i m h1"
    using removeThing_took [OF assms(1,3), of m] assms(11) unfolding itemAt_def by metis
  define w1 where "w1 = w\<lparr>wheap := h1\<rparr>"
  have w1: "wheap w1 = h1" by (simp add: w1_def)
  note t = took_ready [OF assms(1) h1(3) assms(4,5,8,9)]
  have stack: "stackable (type_of ?T (itemAt w1 i)) = stackable (type_of ?T (itemAt w i))"
    using t(5) by (simp add: type_of_def itemAt_def w1)
  have "unat m \<le> 100" if "stackable (type_of ?T (itemAt w1 i))"
    using that stack assms(11) stock_okD(5) [OF assms(1), of i] by (simp add: itemAt_def word_le_nat_alt)
  moreover have "i < next_thing h1"
    using tree_bound [OF stock_okD(2) [OF assms(1)], of i] assms(3) h1(3) by (simp add: took_def)
  moreover have "th_parent (things h1 i) = Nowhere" if "\<not> stackable (type_of ?T (itemAt w1 i))"
    using that stack h1(3) by (simp add: took_def itemAt_def)
  ultimately obtain mi ui w2 where s: "split_item R to i ti m w1 = Some (mi, ui, w2)" "ready R ammo h1 to i m mi (wheap w2)"
    using split_item_ok [of R ammo w1 i to ti m] h1(2) assms(2,10) t unfolding w1 by blast
  have "capacity h1 to = capacity (wheap w) to" using h1(3) by (simp add: took_def capacity_def)
  then obtain w3 where a: "(case mi of None \<Rightarrow> Some w2 | Some k \<Rightarrow> with_heap (addThing ?T to index k) w2) = Some w3"
    "stock_ok R ammo (wheap w3)" "\<And>n. units ?T (wheap w3) n = units ?T h1 n + amount R (th_item (things h1 i)) m n"
    "stackable (type_of ?T (th_item (things h1 i))) \<Longrightarrow> th_parent (things (wheap w3) i) = th_parent (things h1 i) \<and>
       item_count (th_item (things (wheap w3) i)) = item_count (th_item (things h1 i))"
    "item_id (th_item (things (wheap w3) i)) = item_id (th_item (things h1 i))"
    using add_ready [OF s(2), of index] assms(6) by metis
  have "amount R (th_item (things h1 i)) m n = amount R (th_item (things (wheap w) i)) m n" for n
    using t(5) by (simp add: amount_def)
  then have c: "conserved R ammo (wheap w) (wheap w3)"
    using a(2,3) h1(3) by (simp add: conserved_def took_def)
  define good where "good v \<longleftrightarrow> conserved R ammo (wheap w) (wheap v) \<and> left_behind R (wheap w) i m (wheap v) \<and>
    item_id (itemAt v i) = item_id (itemAt w i)" for v
  have g3: "good w3"
    using c a(4,5) t(5) h1(3) by (auto simp: good_def left_behind_def took_def itemAt_def type_of_def)
  have decay: "good (start_decay k v)" if "good v" for v k
    using that start_decay_conserved [of R ammo "wheap w" v k]
    by (auto simp: good_def left_behind_def start_decay_def itemAt_def)
  have same: "good v = good u" if "wheap v = wheap u" for u v
    using that by (simp add: good_def itemAt_def)
  have type: "type_of ?T (itemAt v i) = type_of ?T (itemAt w i)" if "good v" for v
    using that by (simp add: good_def type_of_def)
  define w4 where "w4 = (case ui of None \<Rightarrow> id | Some k \<Rightarrow> postAdded to k (Some from))
    ((case mi of None \<Rightarrow> id | Some k \<Rightarrow> postAdded to k (Some from))
      (postRemoved from i (Some to) (getThingIndex (wheap w) from i) w3))"
  define w5 where "w5 = (case mi of None \<Rightarrow> w4
    | Some k \<Rightarrow> if getDuration (itemAt w4 k) > 0 \<and> getDecaying (itemAt w4 k) \<noteq> DECAYING_TRUE then start_decay k w4 else w4)"
  have "wheap w4 = wheap w3" by (simp add: w4_def split: option.split)
  then have good4: "good w4" using same [of w4 w3] g3 by simp
  then have good5: "good w5" unfolding w5_def by (simp add: decay split: option.split)
  have "carry_over R actor from to index i cnt ti maxRet maxCount w =
      (if stackable (type_of ?T (itemAt w4 i)) \<and> maxCount < cnt then Some (maxRet, w4)
       else Some (RETURNVALUE_NOERROR, moved_event actor i cnt from to w5))"
  proof -
    have step: "with_heap (removeThing ?T from i m) w = Some w1" by (simp add: with_heap_def h1(1) w1_def)
    show ?thesis
      unfolding carry_over_def Let_def assms(7) [symmetric] step bind.simps s(1) split a(1)
      by (simp add: w4_def w5_def split: option.split)
  qed
  moreover have good6: "good (moved_event actor i cnt from to w5)" using good5 same [of "moved_event actor i cnt from to w5" w5] by simp
  ultimately have "\<exists>ret w'. carry_over R actor from to index i cnt ti maxRet maxCount w = Some (ret, w') \<and> good w' \<and>
      ret = (if stackable (type_of ?T (itemAt w' i)) \<and> maxCount < cnt then maxRet else RETURNVALUE_NOERROR)"
    using good4 type [OF good4] type [OF good6] by (cases "stackable (type_of ?T (itemAt w i)) \<and> maxCount < cnt") auto
  then show thesis using that unfolding good_def by blast
qed

lemma into_traded_returns: "tree_ok (wheap w) \<Longrightarrow> \<exists>b. into_traded w to tradeItem = Some b"
  using ancestors_return [OF tree_okD(3), of "wheap w" to] by (auto simp: into_traded_def split: option.split)

lemma queryRemove_returns: "\<exists>b. queryRemove T env c i cnt flags h = Some b"
  by (simp add: queryRemove_def Let_def)

lemma queryMaxCount_short: "queryMaxCount T env c index i cnt flags h = Some (r, m) \<Longrightarrow>
    stackable (type_of T (th_item (things h i))) \<Longrightarrow> \<not> hasBitSet FLAG_NOLIMIT flags \<Longrightarrow> m < cnt \<Longrightarrow> r \<noteq> RETURNVALUE_NOERROR"
  by (auto simp: queryMaxCount_def Let_def split: if_splits option.splits)

text \<open>A result of a move: nothing is lost, and without error the count has been taken.\<close>

definition moved_ok :: "rules \<Rightarrow> bool \<Rightarrow> item_world \<Rightarrow> nat \<Rightarrow> u32 \<Rightarrow> (returnvalue \<times> item_world) option \<Rightarrow> bool" where
  "moved_ok R ammo w i cnt res \<longleftrightarrow> (\<exists>ret w'. res = Some (ret, w') \<and> conserved R ammo (wheap w) (wheap w') \<and>
     (ret = RETURNVALUE_NOERROR \<longrightarrow> w' = w \<or> left_behind R (wheap w) i cnt (wheap w')))"

lemma moved_ok_refused: "stock_ok R ammo (wheap w) \<Longrightarrow> moved_ok R ammo w i cnt (Some (ret, w))"
  by (simp add: moved_ok_def conserved_def)

lemma carry_over_moved:
  assumes "stock_ok R ammo (wheap w)" "stock_types R" "th_cont (things (wheap w) to) \<noteq> None"
    and "index < uint (capacity (wheap w) to)" "ti = getItemByIndex (wheap w) to index" "ti \<noteq> Some i"
    and "\<not> hasBitSet FLAG_CHILDISOWNER flags" "\<not> hasBitSet FLAG_NOLIMIT flags"
    and "queryAdd (rule_types R) env to index i cnt flags (wheap w) = Some RETURNVALUE_NOERROR"
    and "queryMaxCount (rule_types R) env to index i cnt flags (wheap w) = Some (maxRet, maxCount)"
    and "queryRemove (rule_types R) env from i
      (if stackable (type_of (rule_types R) (itemAt w i)) then min cnt maxCount else maxCount) flags (wheap w) = Some RETURNVALUE_NOERROR"
  shows "moved_ok R ammo w i cnt (carry_over R actor from to index i cnt ti maxRet maxCount w)"
proof -
  let ?T = "rule_types R" and ?st = "stackable (type_of (rule_types R) (itemAt w i))"
  define m where "m = (if ?st then min cnt maxCount else maxCount)"
  have ok: "tree_ok (wheap w)" using stock_okD(2) [OF assms(1)] .
  note rm = queryRemove_ok [OF ok assms(11) [folded m_def]]
  have m: "m \<noteq> 0" "?st \<Longrightarrow> m \<le> ucast (item_count (itemAt w i))" using rm(2,3) by (simp_all add: itemAt_def)
  have safe: "safe_place (wheap w) to i" using queryAdd_safe [OF assms(9,7)] .
  have room: "room_for R (wheap w) to i ti m"
    using queryMaxCount_room [OF assms(1,9,7,8,10), of m] m(1) unfolding assms(5) m_def itemAt_def by blast
  have ti: "th_parent (things (wheap w) t) = InContainer to \<and> t \<noteq> i" if "ti = Some t" for t
    using getItemByIndex_in [OF ok, of to index t] assms(5,6) that by auto
  obtain ret w' where r: "carry_over R actor from to index i cnt ti maxRet maxCount w = Some (ret, w')"
    "conserved R ammo (wheap w) (wheap w')" "left_behind R (wheap w) i m (wheap w')"
    "ret = (if stackable (type_of ?T (itemAt w' i)) \<and> maxCount < cnt then maxRet else RETURNVALUE_NOERROR)"
    "item_id (itemAt w' i) = item_id (itemAt w i)"
    by (rule carry_over_ok [OF assms(1,2) rm(1) assms(3) safe assms(4) m_def room ti m])
  have "left_behind R (wheap w) i cnt (wheap w')" if "ret = RETURNVALUE_NOERROR"
  proof (cases "?st")
    case True
    have "stackable (type_of ?T (itemAt w' i))" using True r(5) by (simp add: type_of_def)
    then have "\<not> maxCount < cnt"
      using that r(4) queryMaxCount_short [OF assms(10) _ assms(8)] True by (auto simp: itemAt_def)
    then have "m = cnt" using True by (simp add: m_def)
    then show ?thesis using r(3) by simp
  next
    case False
    then show ?thesis by (simp add: left_behind_def itemAt_def)
  qed
  then show ?thesis using r(1,2) by (simp add: moved_ok_def)
qed

lemma internalMoveItem_moved:
  assumes "stock_ok R ammo (wheap w)" "stock_types R" "th_cont (things (wheap w) to) \<noteq> None"
    and "\<not> hasBitSet FLAG_CHILDISOWNER flags" "\<not> hasBitSet FLAG_NOLIMIT flags"
  shows "moved_ok R ammo w i cnt (internalMoveItem R actor from to index i cnt flags tradeItem w)"
proof -
  let ?T = "rule_types R" and ?h = "wheap w" and ?env = "around R"
  have ok: "tree_ok ?h" using stock_okD(2) [OF assms(1)] .
  note refused = moved_ok_refused [OF assms(1)]
  obtain to' j ti fl where d: "destination ?T i MOVE_LAYERS to index None flags ?h = (to', j, ti, fl)"
    by (cases "destination ?T i MOVE_LAYERS to index None flags ?h")
  have dest: "th_cont (things ?h to') \<noteq> None" "j < uint (capacity ?h to')" "ti = getItemByIndex ?h to' j" "fl = flags \<or> fl = 0"
    using destination_ok [OF assms(1,3) _ d] by (simp_all add: MOVE_LAYERS_def)
  have fl: "\<not> hasBitSet FLAG_CHILDISOWNER fl" "\<not> hasBitSet FLAG_NOLIMIT fl"
    using dest(4) assms(4,5) by (auto simp: hasBitSet_def)
  obtain a where a: "queryAdd ?T ?env to' j i cnt fl ?h = Some a" using queryAdd_returns [OF ok] .
  have na: "a \<noteq> RETURNVALUE_NEEDEXCHANGE" using queryAdd_no_exchange [of ?T R to' j i cnt fl ?h] a by auto
  obtain r mx where q: "queryMaxCount ?T ?env to' j i cnt fl ?h = Some (r, mx)" using queryMaxCount_returns [OF ok] .
  define m where "m = (if stackable (type_of ?T (itemAt w i)) then min cnt mx else mx)"
  obtain b where b: "queryRemove ?T ?env from i m fl ?h = Some b" using queryRemove_returns by blast
  obtain t where t: "into_traded w to' tradeItem = Some t" using into_traded_returns [OF ok] by blast
  have moved: "moved_ok R ammo w i cnt (carry_over R actor from to' j i cnt ti r mx w)"
    if "ti \<noteq> Some i" "a = RETURNVALUE_NOERROR" "b = RETURNVALUE_NOERROR"
    using carry_over_moved [OF assms(1,2) dest(1-3) that(1) fl _ q] a b that(2,3) by (simp add: m_def)
  have "internalMoveItem R actor from to index i cnt flags tradeItem w =
      (if forbids actor i cnt from to then Some (RETURNVALUE_NOTPOSSIBLE, w)
       else if ti = Some i then Some (RETURNVALUE_NOERROR, w)
       else if a \<noteq> RETURNVALUE_NOERROR then Some (a, w)
       else if r \<noteq> RETURNVALUE_NOERROR \<and> mx = 0 then Some (r, w)
       else if b \<noteq> RETURNVALUE_NOERROR then Some (b, w)
       else if t then Some (RETURNVALUE_NOTENOUGHROOM, w)
       else carry_over R actor from to' j i cnt ti r mx w)"
    using na by (simp add: internalMoveItem_def Let_def d a q b t m_def [symmetric])
  then show ?thesis using refused moved by (simp split: if_split) (use moved in blast)
qed

text \<open>C35: Moving an item, or a part of a stack, between containers always returns.  Whatever the result, the number of
  items of each type that are somewhere is unchanged, the invariant of the containers with their weights is kept, no
  container becomes over-full and no stack higher than 100.  When the result is no error, either nothing was to be
  done or a stack has lost exactly the count asked for: it is gone when that was all of it, and is where it was with
  the rest otherwise.\<close>

theorem move_conserves_items:
  assumes "stock_ok R ammo (wheap w)" "stock_types R" "th_cont (things (wheap w) to) \<noteq> None"
    and "\<not> hasBitSet FLAG_CHILDISOWNER flags" "\<not> hasBitSet FLAG_NOLIMIT flags"
  shows "\<exists>ret w'. internalMoveItem R actor from to index i cnt flags tradeItem w = Some (ret, w') \<and>
    stock_ok R ammo (wheap w') \<and> (\<forall>n. units (rule_types R) (wheap w') n = units (rule_types R) (wheap w) n) \<and>
    (ret = RETURNVALUE_NOERROR \<longrightarrow> w' = w \<or> \<not> stackable (type_of (rule_types R) (itemAt w i)) \<or>
       (if cnt = ucast (item_count (itemAt w i)) then th_parent (things (wheap w') i) = Nowhere
        else th_parent (things (wheap w') i) = th_parent (things (wheap w) i) \<and>
          unat (item_count (itemAt w' i)) + unat cnt = unat (item_count (itemAt w i))))"
  using internalMoveItem_moved [OF assms, of i cnt actor "from" index tradeItem]
  unfolding moved_ok_def conserved_def left_behind_def itemAt_def by blast

text \<open>A bag with fifty coins\<close>

definition market :: rules where
  "market = \<lparr>rule_types = (\<lambda>n. coins\<lparr>stackable := (n = 2)\<rparr>),
     creations = (\<lambda>_. \<lparr>deprecated = False, known = True, made_as = MadeItem\<rparr>),
     carrier_of = (\<lambda>_ _. \<lparr>cannot_pickup = False, infinite_capacity = False, carry_capacity = 1000, inventoryWeight = 0\<rparr>),
     inbox = (\<lambda>_. False), creature_removed = (\<lambda>_. False), can_remove = (\<lambda>_. True)\<rparr>"

lemma market_types: "stock_types market"
  by (simp add: stock_types_def market_def coins_def not_worn_def)

lemma stackable_market [simp]: "stackable (type_of (rule_types market) x) \<longleftrightarrow> item_id x = 2" "stackable (rule_types market n) \<longleftrightarrow> n = 2"
  by (simp_all add: type_of_def market_def)

lemma bag_and_coins_else: "2 \<le> x \<Longrightarrow> things bag_and_coins x = things empty_heap x"
  by (simp add: bag_and_coins_def new_thing_def) (simp add: empty_heap_def)

lemma bag_stock: "stock_ok market True bag_and_coins"
proof -
  have things: "x = 0 \<or> x = Suc 0 \<or> things bag_and_coins x = things empty_heap x" for x
    using bag_and_coins_else [of x] by (cases "x = 0 \<or> x = Suc 0") auto
  have "heap_ok (rule_types market) True bag_and_coins"
    using heap_reachable_ok [OF bag_and_coins_reachable, of "rule_types market"] .
  moreover have "the_cont bag_and_coins c = \<lparr>itemlist = [], maxSize = (if c = 0 then 8 else 0), totalWeight = 0, ammoCount = 0\<rparr>" for c
    using things [of c] by (auto simp: the_cont_def bag_and_coins_simps empty_heap_def)
  moreover have "item_count (th_item (things bag_and_coins x)) \<le> 100 \<and> th_cont (things bag_and_coins x) = None"
    if "item_id (th_item (things bag_and_coins x)) = 2" for x
    using that things [of x] by (auto simp: bag_and_coins_simps empty_heap_def plain_item_def)
  ultimately show ?thesis by (simp add: stock_ok_def cont_size_def)
qed

lemma market_bag:
  obtains h where "stock_ok market True h" "inserted bag_and_coins 0 1 [1] h" "units (rule_types market) h 2 = 50"
proof -
  have cap: "capacity bag_and_coins 0 = 8" "cont_size bag_and_coins 0 = 0" "itemlist (the_cont bag_and_coins 0) = []"
    by (simp_all add: capacity_def cont_size_def the_cont_def bag_and_coins_simps)
  then have space: "0 < uint (capacity bag_and_coins 0)" "int (cont_size bag_and_coins 0) < uint (capacity bag_and_coins 0)"
    by simp_all
  obtain h where h: "stock_ok market True h" "inserted bag_and_coins 0 1 [1] h"
    "units (rule_types market) h 2 = units (rule_types market) bag_and_coins 2 + unit_of (rule_types market) 2 (th_item (things bag_and_coins 1))"
    using addThing_stock [OF bag_stock bag_can_hold space] cap(3) by metis
  moreover have "{j. j < next_thing bag_and_coins \<and> th_parent (things bag_and_coins j) \<noteq> Nowhere} = {}"
  proof -
    have "th_parent (things bag_and_coins j) = Nowhere" if "j < 2" for j
      using that less_2_cases [of j] by (auto simp: bag_and_coins_simps)
    then show ?thesis by (auto simp: bag_and_coins_simps)
  qed
  then have "units (rule_types market) bag_and_coins 2 = 0" by (simp only: units_def sum.empty)
  ultimately show thesis using that by (simp add: unit_of_def bag_and_coins_simps plain_item_def)
qed

theorem move_conserves_items_witness:
  "\<exists>w ret w'. th_parent (things (wheap w) 1) = InContainer 0 \<and> units (rule_types market) (wheap w) 2 = 50 \<and>
     internalMoveItem market None 0 0 255 1 20 0 None w = Some (ret, w') \<and> units (rule_types market) (wheap w') 2 = 50"
proof -
  obtain h where h: "stock_ok market True h" "inserted bag_and_coins 0 1 [1] h" "units (rule_types market) h 2 = 50"
    using market_bag .
  define w where "w = \<lparr>wheap = h, toDecayItems = [], decayItems = [], uniqueItems = Map.empty, posts = []\<rparr>"
  have w: "stock_ok market True (wheap w)" "th_cont (things (wheap w) 0) \<noteq> None" "th_parent (things (wheap w) 1) = InContainer 0"
    "units (rule_types market) (wheap w) 2 = 50" "\<not> hasBitSet FLAG_CHILDISOWNER 0" "\<not> hasBitSet FLAG_NOLIMIT 0"
    using h by (simp_all add: w_def inserted_def bag_and_coins_simps hasBitSet_def)
  from move_conserves_items [OF w(1) market_types w(2,5,6), of None 0 255 1 20 None] w(3,4)
  show ?thesis by metis
qed

end
