(* ===== verification/AddLaws.thy ===== *)
theory AddLaws
  imports MoveLaws
begin

text \<open>
  Adding items to containers and removing them, \<open>internalAddItem\<close> and \<open>internalRemoveItem\<close>: they return, keep the
  stocks in order and make no items.
\<close>

section \<open>Where an item goes\<close>

lemma values_differ_sym: "values_differ v w = values_differ w v"
  by (cases v; cases w) (auto simp: values_differ_def)

lemma item_equals_sym: "item_equals x (Some y) = item_equals y (Some x)"
proof -
  have "list_all (\<lambda>(t, v). list_all (\<lambda>(t', w). t = t' \<longrightarrow> \<not> values_differ v w) bs) as =
      list_all (\<lambda>(t, v). list_all (\<lambda>(t', w). t = t' \<longrightarrow> \<not> values_differ v w) as) bs" for as bs :: "(u32 \<times> attr_value) list"
    unfolding list_all_iff split_beta by (metis values_differ_sym)
  then show ?thesis by (auto simp: item_equals_def split: option.split)
qed

lemma find_stack_None: "find_stack h i n xs = None \<Longrightarrow> stack_room T env c i cnt flags h k xs = Some 0"
  by (induction xs arbitrary: n k) (auto simp: Let_def split: if_splits)

lemma find_stack_equal: "find_stack h i n xs = Some (k, j) \<Longrightarrow>
    item_equals (th_item (things h j)) (Some (th_item (things h i))) \<and> item_count (th_item (things h j)) < 100"
  by (induction xs arbitrary: n) (auto split: if_splits)

definition joins :: "heap \<Rightarrow> nat \<Rightarrow> nat option \<Rightarrow> bool" where
  "joins h i ti \<longleftrightarrow> (\<exists>t. ti = Some t \<and> item_equals (th_item (things h t)) (Some (th_item (things h i))) \<and>
     item_count (th_item (things h t)) < 100)"

lemma join_stack_joins:
  assumes "join_stack T c index i ti flags h = (to, j, ti')" "stackable (type_of T (th_item (things h i)))"
    and "\<not> hasBitSet FLAG_IGNOREAUTOSTACK flags" "th_parent (things h i) = Nowhere"
  shows "joins h i ti' \<or> find_stack h i 0 (itemlist (the_cont h to)) = None \<and> to = c"
  using assms find_stack_equal [of h i 0]
  by (auto simp: join_stack_def Let_def joins_def split: if_splits option.splits)

lemma queryDestination_joins:
  assumes "queryDestination T c index i None flags h = (to, j, ti)" "stackable (type_of T (th_item (things h i)))"
    and "\<not> hasBitSet FLAG_IGNOREAUTOSTACK flags" "th_parent (things h i) = Nowhere"
  shows "j = INDEX_WHEREEVER \<or> joins h i ti \<or> find_stack h i 0 (itemlist (the_cont h to)) = None \<and> to = c"
proof -
  consider "j = INDEX_WHEREEVER" | index' ti' where "join_stack T c index' i ti' flags h = (to, j, ti)"
    using assms(1) by (auto simp: queryDestination_def Let_def split: if_splits location.splits option.splits)
  then show ?thesis
  proof cases
    case 2
    then show ?thesis using join_stack_joins assms(2-4) by blast
  qed simp
qed

lemma add_room:
  assumes "stock_ok R ammo h" "queryDestination (rule_types R) dest index i None flags h = (to, j, ti)"
    and "\<not> hasBitSet FLAG_IGNOREAUTOSTACK flags" "\<not> hasBitSet FLAG_CHILDISOWNER flags" "\<not> hasBitSet FLAG_NOLIMIT flags"
    and "th_parent (things h i) = Nowhere" "cnt \<noteq> 0"
    and "queryAdd (rule_types R) env to j i cnt flags h = Some RETURNVALUE_NOERROR"
    and "queryMaxCount (rule_types R) env dest INDEX_WHEREEVER i cnt flags h = Some (RETURNVALUE_NOERROR, mx)"
  shows "int (cont_size h to) < uint (capacity h to) \<or> stackable (type_of (rule_types R) (th_item (things h i))) \<and> joins h i ti"
proof (cases "j = INDEX_WHEREEVER")
  case True
  then show ?thesis using queryAdd_room [OF _ assms(4,5)] assms(8) by blast
next
  case False
  then have to: "to = dest" using queryDestination_redirect [OF assms(2)] by blast
  show ?thesis
  proof (cases "stackable (type_of (rule_types R) (th_item (things h i)))")
    case st: True
    show ?thesis
    proof (cases "joins h i ti")
      case False
      then have none: "find_stack h i 0 (itemlist (the_cont h to)) = None"
        using queryDestination_joins [OF assms(2) st assms(3,6)] \<open>j \<noteq> INDEX_WHEREEVER\<close> by blast
      have "freeSlots h to \<noteq> 0"
      proof
        assume "freeSlots h to = 0"
        then have "mx = 0 \<and> \<not> mx < cnt"
          using assms(5,9) st find_stack_None [OF none] by (auto simp: queryMaxCount_def Let_def to split: if_splits)
        then show False using assms(7) by (auto simp: word_less_nat_alt unat_eq_0)
      qed
      then show ?thesis using freeSlots_pos [OF assms(1)] by blast
    qed (use st in simp)
  next
    case False
    then have "freeSlots h to \<noteq> 0"
      using assms(5,9) to by (auto simp: queryMaxCount_def Let_def split: if_splits)
    then show ?thesis using freeSlots_pos [OF assms(1)] by blast
  qed
qed

section \<open>Additions\<close>

text \<open>The result of an addition: an error or a test changes nothing; otherwise something of the item arrived, and no
  more than the item.\<close>

definition one_of :: "item \<Rightarrow> u16 \<Rightarrow> nat" where
  "one_of x n = (if item_id x = n then 1 else 0)"

definition added_ok :: "rules \<Rightarrow> bool \<Rightarrow> item_world \<Rightarrow> nat \<Rightarrow> bool \<Rightarrow> (returnvalue \<times> u32 \<times> item_world) option \<Rightarrow> bool" where
  "added_ok R ammo w i test res \<longleftrightarrow> (\<exists>ret rest w'. res = Some (ret, rest, w') \<and> stock_ok R ammo (wheap w') \<and>
     (ret \<noteq> RETURNVALUE_NOERROR \<or> test \<longrightarrow> w' = w) \<and>
     (\<forall>n. units (rule_types R) (wheap w') n \<le> units (rule_types R) (wheap w) n + unit_of (rule_types R) n (itemAt w i)) \<and>
     (ret = RETURNVALUE_NOERROR \<and> \<not> test \<longrightarrow>
        (\<forall>n. units (rule_types R) (wheap w) n + one_of (itemAt w i) n \<le> units (rule_types R) (wheap w') n)))"

text \<open>What an addition that goes on must achieve before the item starts to decay\<close>

definition item_arrived :: "rules \<Rightarrow> bool \<Rightarrow> item_world \<Rightarrow> nat \<Rightarrow> item_world \<Rightarrow> bool" where
  "item_arrived R ammo w i w' \<longleftrightarrow> stock_ok R ammo (wheap w') \<and>
     (\<forall>n. units (rule_types R) (wheap w) n + one_of (itemAt w i) n \<le> units (rule_types R) (wheap w') n \<and>
        units (rule_types R) (wheap w') n \<le> units (rule_types R) (wheap w) n + unit_of (rule_types R) n (itemAt w i))"

lemma added_refused: "stock_ok R ammo (wheap w) \<Longrightarrow> ret \<noteq> RETURNVALUE_NOERROR \<or> test \<Longrightarrow> added_ok R ammo w i test (Some (ret, r, w))"
  by (auto simp: added_ok_def)

lemma added_arrived:
  assumes "item_arrived R ammo w i w'"
  shows "added_ok R ammo w i False
    (Some (RETURNVALUE_NOERROR, rest, if getDuration (itemAt w' i) > 0 then start_decay i w' else w'))"
  using assms upd_item_stock [of R ammo "wheap w'" i "setDecaying DECAYING_TRUE"]
  by (auto simp: added_ok_def item_arrived_def start_decay_def)

lemma put_new_ok:
  assumes "stock_ok R ammo (wheap w)" "can_put (wheap w) to i" "index < uint (capacity (wheap w) to)"
    and "int (cont_size (wheap w) to) < uint (capacity (wheap w) to)"
  obtains w' where "put_new R to index i w = Some (0, w')" "stock_ok R ammo (wheap w')"
    "\<And>n. units (rule_types R) (wheap w') n = units (rule_types R) (wheap w) n + unit_of (rule_types R) n (itemAt w i)"
proof -
  obtain h' where h': "addThing (rule_types R) to index i (wheap w) = Some h'" "stock_ok R ammo h'"
    "\<And>n. units (rule_types R) h' n = units (rule_types R) (wheap w) n + unit_of (rule_types R) n (th_item (things (wheap w) i))"
    using addThing_stock [OF assms] by metis
  then show thesis using that [of "postAdded to i None (w\<lparr>wheap := h'\<rparr>)"] by (simp add: put_new_def with_heap_def itemAt_def)
qed

lemma one_le_unit: "(stackable (type_of (rule_types R) x) \<Longrightarrow> item_count x \<noteq> 0) \<Longrightarrow> one_of x n \<le> unit_of (rule_types R) n x"
  by (auto simp: one_of_def unit_of_def type_of_def unat_eq_0 Suc_le_eq unat_gt_0)

text \<open>The item joins the stack \<open>t\<close>; \<open>n\<close> fit.\<close>

lemma join_update:
  assumes "stock_ok R ammo (wheap w)" "stock_types R" "stackable (type_of (rule_types R) (itemAt w i))"
    and "item_equals (itemAt w i) (Some (itemAt w t))" "th_parent (things (wheap w) t) = InContainer to"
    and "th_parent (things (wheap w) i) = Nowhere" "n \<le> 100 - ucast (item_count (itemAt w t))"
  obtains w1 where
    "with_heap (updateThing (rule_types R) to t (item_id (itemAt w t)) (ucast (item_count (itemAt w t)) + n)) w = Some w1"
    "stock_ok R ammo (wheap w1)" "itemAt w1 i = itemAt w i" "next_thing (wheap w1) = next_thing (wheap w)"
    "\<And>x. th_parent (things (wheap w1) x) = th_parent (things (wheap w) x)"
    "\<And>x. th_cont (things (wheap w1) x) = None \<longleftrightarrow> th_cont (things (wheap w) x) = None"
    "\<And>x. cont_size (wheap w1) x = cont_size (wheap w) x" "\<And>x. capacity (wheap w1) x = capacity (wheap w) x"
    "\<And>k. units (rule_types R) (wheap w1) k = units (rule_types R) (wheap w) k + amount R (itemAt w i) n k"
proof -
  let ?T = "rule_types R"
  have id: "item_id (itemAt w t) = item_id (itemAt w i)" using assms(4) by (simp add: item_equals_def)
  then have st: "stackable (type_of ?T (itemAt w t))" using assms(3) by (simp add: type_of_def)
  obtain h' x where h': "updateThing ?T to t (item_id (itemAt w t)) (ucast (item_count (itemAt w t)) + n) (wheap w) = Some h'"
    "stock_ok R ammo h'" "changed (wheap w) t x h'"
    "\<And>k. units ?T h' k = units ?T (wheap w) k + amount R (itemAt w t) n k"
    using updateThing_stock [OF assms(1,2,5) st [unfolded itemAt_def] assms(7) [unfolded itemAt_def]] unfolding itemAt_def by metis
  have "t \<noteq> i" using assms(5,6) by auto
  moreover have "amount R (itemAt w t) n k = amount R (itemAt w i) n k" for k using id by (simp add: amount_def)
  ultimately show thesis
    using that [of "w\<lparr>wheap := h'\<rparr>"] h' by (simp add: with_heap_def changed_def itemAt_def cont_size_def capacity_def)
qed

text \<open>The part of a stack that is left becomes an item of its own.\<close>

lemma clone_rest:
  assumes "stock_ok R ammo (wheap w)" "stock_types R" "stackable (type_of (rule_types R) (itemAt w i))" "i < next_thing (wheap w)"
    and "unat (left :: u32) \<le> 100" "th_cont (things (wheap w) dest) \<noteq> None"
  obtains k w' where "clone R i w = Some (k, w')"
    "let w2 = w'\<lparr>wheap := upd_item k (setItemCount (ucast left)) (wheap w')\<rparr> in
       stock_ok R ammo (wheap w2) \<and> th_parent (things (wheap w2) k) = Nowhere \<and> k < next_thing (wheap w2) \<and>
       th_cont (things (wheap w2) dest) \<noteq> None \<and> item_id (itemAt w2 k) = item_id (itemAt w i) \<and>
       unat (item_count (itemAt w2 k)) = unat left \<and> (\<forall>n. units (rule_types R) (wheap w2) n = units (rule_types R) (wheap w) n)"
proof -
  have "ucast left \<le> (100 :: u8)" using short_count(2) [OF assms(5)] assms(5) by (simp add: word_le_nat_alt)
  then obtain k w' where c: "clone R i w = Some (k, w')"
    "stock_ok R ammo (upd_item k (setItemCount (ucast left)) (wheap w'))"
    "fresh (wheap w) k (item_id (itemAt w i)) (upd_item k (setItemCount (ucast left)) (wheap w'))"
    "item_count (th_item (things (upd_item k (setItemCount (ucast left)) (wheap w')) k)) = ucast left"
    "\<And>m. units (rule_types R) (upd_item k (setItemCount (ucast left)) (wheap w')) m = units (rule_types R) (wheap w) m"
    using clone_stock [OF assms(1-4)] by metis
  define h where "h = upd_item k (setItemCount (ucast left)) (wheap w')"
  note c = c [folded h_def]
  have "next_thing (wheap w) = k" using c(3) by (simp add: fresh_def)
  then have "dest \<noteq> k" using tree_okD(4) [OF stock_okD(2) [OF assms(1)], of k] assms(6) by auto
  then have "th_cont (things h dest) \<noteq> None" using c(3) assms(6) by (simp add: fresh_def)
  then show thesis
    using that [OF c(1)] c(2-5) short_count(2) [OF assms(5)] by (simp add: Let_def h_def [symmetric] itemAt_def fresh_def)
qed

lemma internalAddItem_added:
  assumes "stock_types R" "\<not> hasBitSet FLAG_IGNOREAUTOSTACK flags" "\<not> hasBitSet FLAG_CHILDISOWNER flags" "\<not> hasBitSet FLAG_NOLIMIT flags"
    and "stock_ok R ammo (wheap w)" "th_cont (things (wheap w) dest) \<noteq> None" "th_parent (things (wheap w) i) = Nowhere"
    and "i < next_thing (wheap w)" "item_count (itemAt w i) \<noteq> 0"
  shows "added_ok R ammo w i test (internalAddItem R dest i index flags test w)"
  using assms(5-9)
proof (induction "unat (item_count (itemAt w i))" arbitrary: i index test w rule: less_induct)
  case less
  let ?T = "rule_types R" and ?h = "wheap w" and ?env = "around R" and ?x = "itemAt w i"
  define cnt where "cnt = (ucast (item_count ?x) :: u32)"
  note ok = stock_okD(2) [OF less.prems(1)]
  have cnt: "cnt \<noteq> 0" "unat cnt = unat (item_count ?x)" using less.prems(5) by (simp_all add: cnt_def unat_eq_0 [symmetric])
  obtain to j ti where d: "queryDestination ?T dest index i None flags ?h = (to, j, ti)"
    by (cases "queryDestination ?T dest index i None flags ?h")
  note dest = queryDestination_ok [OF less.prems(1,2) d]
  obtain a where a: "queryAdd ?T ?env to j i cnt flags ?h = Some a" using queryAdd_returns [OF ok] .
  obtain r mx where q: "queryMaxCount ?T ?env dest INDEX_WHEREEVER i cnt flags ?h = Some (r, mx)" using queryMaxCount_returns [OF ok] .
  note refused = added_refused [OF less.prems(1)]
  show ?case
  proof (cases "a \<noteq> RETURNVALUE_NOERROR \<or> r \<noteq> RETURNVALUE_NOERROR \<or> test")
    case True
    then show ?thesis
      using refused by (subst internalAddItem.simps) (auto simp: Let_def d a q cnt_def [symmetric])
  next
    case go: False
    then have add: "queryAdd ?T ?env to j i cnt flags ?h = Some RETURNVALUE_NOERROR"
      and max: "queryMaxCount ?T ?env dest INDEX_WHEREEVER i cnt flags ?h = Some (RETURNVALUE_NOERROR, mx)" using a q by simp_all
    note room = add_room [OF less.prems(1) d assms(2-4) less.prems(3) cnt(1) add max]
    have put: "can_put ?h to i" using less.prems dest(1) queryAdd_safe [OF add assms(3)] by (simp add: can_put_def)
    have go_on: "internalAddItem R dest i index flags test w = Option.bind body (\<lambda>(rest, w).
        Some (RETURNVALUE_NOERROR, rest, if getDuration (itemAt w i) > 0 then start_decay i w else w)) \<Longrightarrow>
        body = Some (rest, w') \<Longrightarrow> item_arrived R ammo w i w' \<Longrightarrow> ?thesis" for body rest w'
      using added_arrived [of R ammo w i w' rest] go by simp
    have plain: ?thesis if "int (cont_size ?h to) < uint (capacity ?h to)"
        "\<And>t. (if stackable (type_of ?T ?x) then ti else None) = Some t \<Longrightarrow> \<not> item_equals ?x (Some (itemAt w t))"
    proof -
      note space = that
      obtain w' where w': "put_new R to j i w = Some (0, w')" "stock_ok R ammo (wheap w')"
        "\<And>n. units ?T (wheap w') n = units ?T ?h n + unit_of ?T n ?x"
        using put_new_ok [OF less.prems(1) put dest(2) space(1)] by metis
      have "item_arrived R ammo w i w'" using w' one_le_unit [of R ?x] less.prems(5) by (simp add: item_arrived_def)
      moreover have "internalAddItem R dest i index flags test w = Option.bind (put_new R to j i w) (\<lambda>(rest, w).
          Some (RETURNVALUE_NOERROR, rest, if getDuration (itemAt w i) > 0 then start_decay i w else w))"
        using go space(2) by (subst internalAddItem.simps) (auto simp: Let_def d add max cnt_def [symmetric] split: option.split)
      ultimately show ?thesis using go_on w'(1) by blast
    qed
    show ?thesis
    proof (cases "\<exists>t. ti = Some t \<and> stackable (type_of ?T ?x) \<and> item_equals ?x (Some (itemAt w t))")
      case False
      have "\<not> (stackable (type_of ?T ?x) \<and> joins ?h i ti)"
        using False item_equals_sym by (auto simp: joins_def itemAt_def)
      then have "int (cont_size ?h to) < uint (capacity ?h to)" using room by (auto simp: itemAt_def)
      moreover have "\<not> item_equals ?x (Some (itemAt w t))" if "(if stackable (type_of ?T ?x) then ti else None) = Some t" for t
        using that False by (auto split: if_splits)
      ultimately show ?thesis using plain by blast
    next
      case True
      then obtain t where t: "ti = Some t" "stackable (type_of ?T ?x)" "item_equals ?x (Some (itemAt w t))" by blast
      have par: "th_parent (things ?h t) = InContainer to" using getItemByIndex_in [OF ok] dest(3) t(1) by metis
      have "min cnt mx = cnt"
        using queryMaxCount_short [OF max t(2) [unfolded itemAt_def] assms(4)] by (simp add: min_def) force
      define n where "n = min (100 - ucast (item_count (itemAt w t))) cnt"
      define left where "left = cnt - n"
      have "n \<le> cnt" by (simp add: n_def)
      then have sub: "unat left = unat cnt - unat n" "unat n \<le> unat cnt"
        by (simp_all add: left_def unat_sub word_le_nat_alt)
      have "n \<le> 100 - ucast (item_count (itemAt w t))" by (simp add: n_def)
      then obtain w1 where w1: "with_heap (updateThing ?T to t (item_id (itemAt w t)) (ucast (item_count (itemAt w t)) + n)) w = Some w1"
        "stock_ok R ammo (wheap w1)" "itemAt w1 i = ?x" "next_thing (wheap w1) = next_thing ?h"
        "\<And>x. th_parent (things (wheap w1) x) = th_parent (things ?h x)"
        "\<And>x. th_cont (things (wheap w1) x) = None \<longleftrightarrow> th_cont (things ?h x) = None"
        "\<And>x. cont_size (wheap w1) x = cont_size ?h x" "\<And>x. capacity (wheap w1) x = capacity ?h x"
        "\<And>k. units ?T (wheap w1) k = units ?T ?h k + amount R ?x n k"
        using join_update [OF less.prems(1) assms(1) t(2,3) par less.prems(3)] by blast
      have "item_count ?x \<le> 100" using stock_okD(5) [OF less.prems(1)] t(2) by (simp add: itemAt_def)
      then have small: "unat left \<le> 100" using sub cnt(2) by (simp add: word_le_nat_alt)
      have expand: "internalAddItem R dest i index flags test w = Option.bind
          (if sint left > 0 then
             if cnt \<noteq> left then do {
               (k, w) \<leftarrow> clone R i w1;
               (ret', r, w) \<leftarrow> internalAddItem R dest k INDEX_WHEREEVER flags False
                 (w\<lparr>wheap := upd_item k (setItemCount (ucast left)) (wheap w)\<rparr>);
               Some (if ret' \<noteq> RETURNVALUE_NOERROR then (left, release k w) else (0, w))
             }
             else put_new R to j i w1
           else Some (0, postAdded to t None (release i (onRemoved i w1))))
          (\<lambda>(rest, w). Some (RETURNVALUE_NOERROR, rest, if getDuration (itemAt w i) > 0 then start_decay i w else w))"
        using go t(2,3)
        by (subst internalAddItem.simps)
          (simp add: Let_def d add max cnt_def [symmetric] \<open>min cnt mx = cnt\<close> n_def left_def w1(1) [unfolded n_def] t(1) cong: if_cong)
      consider "left = 0" | "left \<noteq> 0" "cnt = left" | "left \<noteq> 0" "cnt \<noteq> left" by blast
      then show ?thesis
      proof cases
        case 1
        then have "n = cnt" using sub by (simp add: word_unat_eq_iff)
        then have "amount R ?x n k = unit_of ?T k ?x" for k
          using t(2) cnt(2) by (auto simp: amount_def unit_of_def type_of_def)
        then have "item_arrived R ammo w i (postAdded to t None (release i (onRemoved i w1)))"
          using w1(2,9) one_le_unit [of R ?x] less.prems(5) by (simp add: item_arrived_def)
        then show ?thesis using go_on [OF expand] 1 by simp
      next
        case 2
        then have "unat left = unat cnt" by (simp only: simp_thms)
        then have "unat n = 0" using sub by linarith
        then have "n = 0" by (simp only: unat_eq_0)
        have "\<not> joins ?h i ti"
        proof
          assume "joins ?h i ti"
          then have "unat (item_count (itemAt w t)) < 100" using t(1) by (simp add: joins_def itemAt_def word_less_nat_alt)
          then have "unat (100 - ucast (item_count (itemAt w t)) :: u32) \<noteq> 0"
            by (subst unat_sub) (simp_all add: word_le_nat_alt)
          then have "100 - ucast (item_count (itemAt w t)) \<noteq> (0 :: u32)" by (metis unsigned_0)
          then show False using \<open>n = 0\<close> cnt(1) by (metis n_def min_def)
        qed
        then have "int (cont_size (wheap w1) to) < uint (capacity (wheap w1) to)" using room w1(7,8) by auto
        moreover have "safe_place (wheap w1) to i"
          using put safe_place_same_parents [OF ok w1(5)] by (simp add: can_put_def)
        then have "can_put (wheap w1) to i" using put w1(4-6) by (simp add: can_put_def)
        moreover have "j < uint (capacity (wheap w1) to)" using dest(2) w1(8) by simp
        ultimately obtain w' where w': "put_new R to j i w1 = Some (0, w')" "stock_ok R ammo (wheap w')"
          "\<And>n. units ?T (wheap w') n = units ?T (wheap w1) n + unit_of ?T n (itemAt w1 i)"
          using put_new_ok [OF w1(2)] by metis
        have "amount R ?x n k = 0" for k using t(2) \<open>n = 0\<close> by (auto simp: amount_def type_of_def)
        then have "item_arrived R ammo w i w'"
          using w' w1(3,9) one_le_unit [of R ?x] less.prems(5) by (simp add: item_arrived_def)
        then show ?thesis using go_on [OF expand] 2 small_sint [OF small] w'(1) by simp
      next
        case 3
        have "th_cont (things (wheap w1) dest) \<noteq> None" using w1(6) less.prems(2) by simp
        then obtain k v where k: "clone R i w1 = Some (k, v)"
          "let w2 = v\<lparr>wheap := upd_item k (setItemCount (ucast left)) (wheap v)\<rparr> in
             stock_ok R ammo (wheap w2) \<and> th_parent (things (wheap w2) k) = Nowhere \<and> k < next_thing (wheap w2) \<and>
             th_cont (things (wheap w2) dest) \<noteq> None \<and> item_id (itemAt w2 k) = item_id (itemAt w1 i) \<and>
             unat (item_count (itemAt w2 k)) = unat left \<and> (\<forall>n. units ?T (wheap w2) n = units ?T (wheap w1) n)"
          using clone_rest [OF w1(2) assms(1) _ _ small, of i dest] t(2) w1(3,4) less.prems(4) by metis
        define w2 where "w2 = v\<lparr>wheap := upd_item k (setItemCount (ucast left)) (wheap v)\<rparr>"
        have w2: "stock_ok R ammo (wheap w2)" "th_parent (things (wheap w2) k) = Nowhere" "k < next_thing (wheap w2)"
          "th_cont (things (wheap w2) dest) \<noteq> None" "item_id (itemAt w2 k) = item_id ?x"
          "unat (item_count (itemAt w2 k)) = unat left" "\<And>n. units ?T (wheap w2) n = units ?T (wheap w1) n"
          using k(2) w1(3) by (simp_all add: w2_def Let_def)
        have pos: "item_count (itemAt w2 k) \<noteq> 0" using w2(6) 3(1) by (metis unat_eq_0)
        have "unat left \<noteq> unat cnt" using 3(2) by (simp add: word_unat_eq_iff)
        then have smaller: "unat left < unat cnt" "unat n > 0" using sub by linarith+
        have "added_ok R ammo w2 k False (internalAddItem R dest k INDEX_WHEREEVER flags False w2)"
          using less.hyps [OF _ w2(1,4,2,3) pos] smaller(1) w2(6) cnt(2) by simp
        then obtain ret' r' w3 where w3: "internalAddItem R dest k INDEX_WHEREEVER flags False w2 = Some (ret', r', w3)"
          "stock_ok R ammo (wheap w3)" "ret' \<noteq> RETURNVALUE_NOERROR \<longrightarrow> w3 = w2"
          "\<And>n. units ?T (wheap w3) n \<le> units ?T (wheap w2) n + unit_of ?T n (itemAt w2 k)"
          "ret' = RETURNVALUE_NOERROR \<longrightarrow> (\<forall>n. units ?T (wheap w2) n + one_of (itemAt w2 k) n \<le> units ?T (wheap w3) n)"
          unfolding added_ok_def by auto
        define w4 where "w4 = (if ret' \<noteq> RETURNVALUE_NOERROR then release k w3 else w3)"
        have u4: "units ?T (wheap w4) m = units ?T (wheap w3) m" "stock_ok R ammo (wheap w4)" for m
          using w3(2) by (simp_all add: w4_def)
        have more: "units ?T (wheap w2) m \<le> units ?T (wheap w3) m" for m
          using w3(3,5) by (cases "ret' = RETURNVALUE_NOERROR") (auto dest: spec [of _ m])
        have part: "one_of ?x m \<le> amount R ?x n m" "amount R ?x n m + unit_of ?T m (itemAt w2 k) \<le> unit_of ?T m ?x" for m
          using smaller(2) t(2) sub w2(5,6) cnt(2) by (auto simp: one_of_def amount_def unit_of_def type_of_def)
        have "units ?T ?h m + one_of ?x m \<le> units ?T (wheap w4) m \<and> units ?T (wheap w4) m \<le> units ?T ?h m + unit_of ?T m ?x" for m
          unfolding u4(1) using more [of m] part [of m] w3(4) [of m] w2(7) [of m] w1(9) [of m] by linarith
        then have "item_arrived R ammo w i w4" unfolding item_arrived_def using u4(2) by blast
        moreover have "(if ret' \<noteq> RETURNVALUE_NOERROR then (left, release k w3) else (0, w3)) =
            (if ret' \<noteq> RETURNVALUE_NOERROR then left else 0, w4)" by (simp add: w4_def)
        ultimately show ?thesis
          using go_on [OF expand] 3 small_sint [OF small] k(1) w3(1) by (simp add: w2_def)
      qed
    qed
  qed
qed

text \<open>C36: Adding an item that is nowhere to a container always returns, although the rest of a stack is added by a call of
  the function itself.  An error or a test leaves everything as it was.  Otherwise at least one of the item has
  arrived and no item has been made: at most its count has come in addition, and only of its type.  The invariant of
  the containers is kept, none becomes over-full and no stack higher than 100.\<close>

theorem add_returns:
  assumes "stock_ok R ammo (wheap w)" "stock_types R" "th_cont (things (wheap w) dest) \<noteq> None"
    and "th_parent (things (wheap w) i) = Nowhere" "i < next_thing (wheap w)" "item_count (itemAt w i) \<noteq> 0"
    and "\<not> hasBitSet FLAG_IGNOREAUTOSTACK flags" "\<not> hasBitSet FLAG_CHILDISOWNER flags" "\<not> hasBitSet FLAG_NOLIMIT flags"
  shows "\<exists>ret rest w'. internalAddItem R dest i index flags test w = Some (ret, rest, w') \<and> stock_ok R ammo (wheap w') \<and>
    (ret \<noteq> RETURNVALUE_NOERROR \<or> test \<longrightarrow> w' = w) \<and>
    (\<forall>n. units (rule_types R) (wheap w') n \<le> units (rule_types R) (wheap w) n + unit_of (rule_types R) n (itemAt w i)) \<and>
    (ret = RETURNVALUE_NOERROR \<and> \<not> test \<longrightarrow>
       units (rule_types R) (wheap w) (item_id (itemAt w i)) < units (rule_types R) (wheap w') (item_id (itemAt w i)))"
proof -
  obtain ret rest w' where r: "internalAddItem R dest i index flags test w = Some (ret, rest, w')" "stock_ok R ammo (wheap w')"
    "ret \<noteq> RETURNVALUE_NOERROR \<or> test \<longrightarrow> w' = w"
    "\<forall>n. units (rule_types R) (wheap w') n \<le> units (rule_types R) (wheap w) n + unit_of (rule_types R) n (itemAt w i)"
    "ret = RETURNVALUE_NOERROR \<and> \<not> test \<longrightarrow>
       (\<forall>n. units (rule_types R) (wheap w) n + one_of (itemAt w i) n \<le> units (rule_types R) (wheap w') n)"
    using internalAddItem_added [OF assms(2,7-9,1,3-6), of test index] unfolding added_ok_def by blast
  have "one_of (itemAt w i) (item_id (itemAt w i)) = 1" by (simp add: one_of_def)
  then show ?thesis using r by (metis Suc_eq_plus1 Suc_le_lessD)
qed

theorem add_returns_witness:
  "\<exists>w ret rest w'. wheap w = bag_and_coins \<and> internalAddItem market 0 1 0 0 False w = Some (ret, rest, w') \<and>
     units (rule_types market) (wheap w') 2 \<le> units (rule_types market) bag_and_coins 2 + 50"
proof -
  define w where "w = \<lparr>wheap = bag_and_coins, toDecayItems = [], decayItems = [], uniqueItems = Map.empty, posts = []\<rparr>"
  have w: "stock_ok market True (wheap w)" "th_cont (things (wheap w) 0) \<noteq> None" "th_parent (things (wheap w) 1) = Nowhere"
    "1 < next_thing (wheap w)" "item_count (itemAt w 1) \<noteq> 0" "\<not> hasBitSet FLAG_IGNOREAUTOSTACK 0"
    "\<not> hasBitSet FLAG_CHILDISOWNER 0" "\<not> hasBitSet FLAG_NOLIMIT 0"
    using bag_stock by (simp_all add: w_def bag_and_coins_simps plain_item_def itemAt_def hasBitSet_def)
  have "unit_of (rule_types market) 2 (itemAt w 1) = 50"
    by (simp add: unit_of_def w_def itemAt_def bag_and_coins_simps plain_item_def)
  with add_returns [OF w(1) market_types w(2-8), of 0 False]
  show ?thesis by (metis item_world.select_convs(1) w_def)
qed

section \<open>Removals\<close>

lemma removed_never_decays: "isRemoved R w i = Some True \<Longrightarrow> canDecay R w i = Some False"
  by (simp add: canDecay_def)

text \<open>A removal that the queries allow\<close>

lemma internalRemoveItem_took:
  assumes "stock_ok R ammo (wheap w)" "th_parent (things (wheap w) i) = InContainer c" "can_remove R i"
    and "m = (if cnt = -1 then ucast (item_count (itemAt w i)) else of_int cnt :: u32)"
    and "queryRemove (rule_types R) (around R) c i m (flags OR FLAG_IGNORENOTMOVEABLE) (wheap w) = Some RETURNVALUE_NOERROR"
  obtains w' where "internalRemoveItem R outside i cnt False flags w = Some (RETURNVALUE_NOERROR, w')"
    "stock_ok R ammo (wheap w')" "took R (wheap w) i m (wheap w')" "decayItems w' = decayItems w"
proof -
  let ?T = "rule_types R"
  have "stackable (type_of ?T (th_item (things (wheap w) i))) \<Longrightarrow> m \<le> ucast (item_count (th_item (things (wheap w) i)))"
    using queryRemove_ok(3) [OF stock_okD(2) [OF assms(1)] assms(5)] by blast
  then obtain h where h: "removeThing ?T c i m (wheap w) = Some h" "stock_ok R ammo h" "took R (wheap w) i m h"
    using removeThing_took [OF assms(1,2)] by blast
  define w1 where "w1 = w\<lparr>wheap := h\<rparr>"
  obtain g where g: "isRemoved R w1 i = Some g"
    using isRemoved_returns [of w1 R i] stock_okD(2) [OF h(2)] by (auto simp: w1_def)
  have never: "canDecay R (onRemoved i w1) i = Some False" if g
    using removed_never_decays [of R "onRemoved i w1" i] g that by (simp add: isRemoved_def)
  define w2 where "w2 = add_posts [PostRemoved c i None (getThingIndex (wheap w) c i)] (if g then release i (onRemoved i w1) else w1)"
  have "internalRemoveItem R outside i cnt False flags w = Some (RETURNVALUE_NOERROR, w2)"
    using assms(3,5) never
    by (simp add: internalRemoveItem_def assms(2) Let_def assms(4) [symmetric] with_heap_def h(1) w1_def [symmetric] g w2_def)
  moreover have "stock_ok R ammo (wheap w2)" using h(2) by (simp add: w2_def w1_def)
  moreover have "took R (wheap w) i m (wheap w2)"
    using h(3) by (cases g) (simp_all add: w2_def w1_def took_def cont_size_def)
  moreover have "decayItems w2 = decayItems w"
    by (simp add: w2_def w1_def add_posts_def release_def onRemoved_def)
  ultimately show thesis by (rule that)
qed

text \<open>C37: Removing an item, or a part of a stack, from a container always returns.  An error or a test leaves everything
  as it was.  Otherwise exactly the count asked for (all of it for -1) is gone, and nothing else.  In no case does
  the list of decaying items change: \<open>canDecay\<close> is asked only after the item has been removed, when it answers no.\<close>

theorem remove_exactly:
  assumes "stock_ok R ammo (wheap w)" "th_parent (things (wheap w) i) = InContainer c"
  shows "\<exists>ret w'. internalRemoveItem R outside i cnt test flags w = Some (ret, w') \<and> stock_ok R ammo (wheap w') \<and>
    (ret \<noteq> RETURNVALUE_NOERROR \<or> test \<longrightarrow> w' = w) \<and> decayItems w' = decayItems w \<and>
    (ret = RETURNVALUE_NOERROR \<and> \<not> test \<longrightarrow> (\<forall>n. units (rule_types R) (wheap w) n = units (rule_types R) (wheap w') n +
       amount R (itemAt w i) (if cnt = -1 then ucast (item_count (itemAt w i)) else of_int cnt) n))"
proof -
  let ?T = "rule_types R"
  define m where "m = (if cnt = -1 then ucast (item_count (itemAt w i)) else of_int cnt :: u32)"
  note ok = stock_okD(2) [OF assms(1)]
  obtain a where a: "queryRemove ?T (around R) c i m (flags OR FLAG_IGNORENOTMOVEABLE) (wheap w) = Some a"
    using queryRemove_returns by blast
  show ?thesis
  proof (cases "a = RETURNVALUE_NOERROR \<and> can_remove R i \<and> \<not> test")
    case False
    then show ?thesis
      using assms a by (auto simp: internalRemoveItem_def Let_def m_def [symmetric])
  next
    case True
    then obtain w' where "internalRemoveItem R outside i cnt False flags w = Some (RETURNVALUE_NOERROR, w')"
      "stock_ok R ammo (wheap w')" "took R (wheap w) i m (wheap w')" "decayItems w' = decayItems w"
      using internalRemoveItem_took [OF assms _ m_def, of flags] a by blast
    then show ?thesis using True by (simp add: took_def itemAt_def m_def)
  qed
qed

theorem remove_exactly_witness:
  "\<exists>w ret w'. th_parent (things (wheap w) 1) = InContainer 0 \<and>
     internalRemoveItem market (\<lambda>w. None) 1 (-1) False 0 w = Some (ret, w') \<and> decayItems w' = decayItems w"
proof -
  obtain h where h: "stock_ok market True h" "inserted bag_and_coins 0 1 [1] h" using market_bag by blast
  define w where "w = \<lparr>wheap = h, toDecayItems = [], decayItems = [1], uniqueItems = Map.empty, posts = []\<rparr>"
  have "stock_ok market True (wheap w)" "th_parent (things (wheap w) 1) = InContainer 0"
    using h by (simp_all add: w_def inserted_def)
  from remove_exactly [OF this, of "\<lambda>w. None" "-1" False 0] this(2) show ?thesis by metis
qed

end
