(* ===== verification/Money.thy ===== *)
theory Money
  imports AddLaws ContainerIter
begin

text \<open>
  Money, \<open>src/src/game.cpp\<close>, \<open>player.cpp\<close>, \<open>items.cpp\<close>: coins are stacks of item types that have a worth.  Counting
  them, paying with the cheapest stacks first, and giving amounts, change included, in stacks of the dearest coins.
\<close>

section \<open>The currency\<close>

text \<open>The worth of the types, and \<open>currencyItems\<close>, a map with the greatest worth first\<close>

record currency =
  worth_of :: "u16 \<Rightarrow> u64"
  currencyItems :: "(u64 \<times> u16) list"

fun insert_currency :: "u64 \<Rightarrow> u16 \<Rightarrow> (u64 \<times> u16) list \<Rightarrow> (u64 \<times> u16) list" where
  "insert_currency w n [] = [(w, n)]"
| "insert_currency w n ((v, m) # cs) = (if v < w then (w, n) # (v, m) # cs else (v, m) # insert_currency w n cs)"

text \<open>The entry \<open>worth\<close> of the item file: a worth that is taken changes nothing.\<close>

definition parse_worth :: "u16 \<times> u64 \<Rightarrow> currency \<Rightarrow> currency" where
  "parse_worth = (\<lambda>(n, w) tab.
     if w \<in> fst ` set (currencyItems tab) then tab
     else tab\<lparr>worth_of := (worth_of tab)(n := w), currencyItems := insert_currency w n (currencyItems tab)\<rparr>)"

definition currency_of :: "(u16 \<times> u64) list \<Rightarrow> currency" where
  "currency_of decls = fold parse_worth decls \<lparr>worth_of = (\<lambda>_. 0), currencyItems = []\<rparr>"

definition getWorth :: "currency \<Rightarrow> item \<Rightarrow> u32" where
  "getWorth tab x = ucast (worth_of tab (item_id x) * ucast (item_count x))"

section \<open>Counting\<close>

abbreviation boxes :: "heap \<Rightarrow> nat list \<Rightarrow> nat list" where
  "boxes h is \<equiv> filter (\<lambda>i. th_cont (things h i) \<noteq> None) is"

definition loose_coins :: "currency \<Rightarrow> heap \<Rightarrow> nat list \<Rightarrow> (u32 \<times> nat) list" where
  "loose_coins tab h is =
     filter (\<lambda>(w, _). w \<noteq> 0) (map (\<lambda>i. (getWorth tab (th_item (things h i)), i)) (filter (\<lambda>i. th_cont (things h i) = None) is))"

text \<open>The loop over the containers found, which grows at its end\<close>

partial_function (option) boxed_coins :: "currency \<Rightarrow> heap \<Rightarrow> nat list \<Rightarrow> (u32 \<times> nat) list option" where
  "boxed_coins tab h cs =
     (case cs of [] \<Rightarrow> Some []
      | c # cs \<Rightarrow> do {
          l \<leftarrow> boxed_coins tab h (cs @ boxes h (itemlist (the_cont h c)));
          Some (loose_coins tab h (itemlist (the_cont h c)) @ l)
        })"

definition all_coins :: "currency \<Rightarrow> heap \<Rightarrow> nat list \<Rightarrow> (u32 \<times> nat) list option" where
  "all_coins tab h slots = map_option (\<lambda>l. loose_coins tab h slots @ l) (boxed_coins tab h (boxes h slots))"

definition moneyCount :: "(u32 \<times> nat) list \<Rightarrow> u64" where
  "moneyCount l = sum_list (map (ucast \<circ> fst) l)"

text \<open>\<open>Player::getMoney\<close> over the slots of the inventory; here nothing is left out for being worthless.\<close>

definition loose_money :: "currency \<Rightarrow> heap \<Rightarrow> nat list \<Rightarrow> u64" where
  "loose_money tab h is = (\<Sum>i\<leftarrow>filter (\<lambda>i. th_cont (things h i) = None) is. ucast (getWorth tab (th_item (things h i))))"

partial_function (option) boxed_money :: "currency \<Rightarrow> heap \<Rightarrow> nat list \<Rightarrow> u64 option" where
  "boxed_money tab h cs =
     (case cs of [] \<Rightarrow> Some 0
      | c # cs \<Rightarrow> do {
          m \<leftarrow> boxed_money tab h (cs @ boxes h (itemlist (the_cont h c)));
          Some (loose_money tab h (itemlist (the_cont h c)) + m)
        })"

definition getMoney :: "currency \<Rightarrow> heap \<Rightarrow> nat option list \<Rightarrow> u64 option" where
  "getMoney tab h inventory =
     (let slots = map the (filter (\<lambda>s. s \<noteq> None) inventory)
      in map_option (\<lambda>m. loose_money tab h slots + m) (boxed_money tab h (boxes h slots)))"

section \<open>Giving\<close>

text \<open>What paying needs of a cylinder: the items in its slots and how it and its tile take an item\<close>

record cylinder =
  slots :: "nat list"
  add_to :: "nat \<Rightarrow> u32 \<Rightarrow> item_world \<Rightarrow> (returnvalue \<times> item_world) option"
  add_tile :: "nat \<Rightarrow> item_world \<Rightarrow> (returnvalue \<times> item_world) option"

text \<open>Without an item (\<open>CreateItem\<close> knows no such type) both additions answer an error at once.\<close>

definition give_stack :: "rules \<Rightarrow> cylinder \<Rightarrow> u32 \<Rightarrow> u16 \<Rightarrow> u16 \<Rightarrow> item_world \<Rightarrow> item_world option" where
  "give_stack R cyl flags n cnt w =
     (case CreateItem R n cnt of
        None \<Rightarrow> Some w
      | Some (x, box) \<Rightarrow>
          let (i, h) = new_thing x box (wheap w)
          in do {
            (ret, w) \<leftarrow> add_to cyl i flags (w\<lparr>wheap := h\<rparr>);
            if ret \<noteq> RETURNVALUE_NOERROR then map_option snd (add_tile cyl i w) else Some w
          })"

function give_coins :: "rules \<Rightarrow> cylinder \<Rightarrow> u32 \<Rightarrow> u16 \<Rightarrow> u32 \<Rightarrow> item_world \<Rightarrow> item_world option" where
  "give_coins R cyl flags n currencyCoins w =
     (if currencyCoins > 0 then
        let cnt = min 100 currencyCoins
        in Option.bind (give_stack R cyl flags n (ucast cnt) w) (\<lambda>w. give_coins R cyl flags n (currencyCoins - cnt) w)
      else Some w)"
  by pat_completeness auto

termination give_coins
proof (relation "measure (\<lambda>(_, _, _, _, k, _). unat k)")
  fix R :: rules and cyl flags n and k x :: u32 and w w' :: item_world
  assume "0 < k" "x = min 100 k"
  then have "x \<le> k" "x \<noteq> 0" by (auto simp: min_def)
  then have "unat (k - x) = unat k - unat x" "unat x \<noteq> 0" "unat x \<le> unat k" by (simp_all add: unat_sub word_le_nat_alt unat_eq_0)
  then show "((R, cyl, flags, n, k - x, w'), (R, cyl, flags, n, k, w)) \<in> measure (\<lambda>(_, _, _, _, k, _). unat k)"
    by simp
qed simp

declare give_coins.simps [simp del]

text \<open>A worth of 0 in the table is a division by zero, \<open>None\<close>.\<close>

fun addMoney_loop :: "rules \<Rightarrow> cylinder \<Rightarrow> u32 \<Rightarrow> (u64 \<times> u16) list \<Rightarrow> u64 \<Rightarrow> item_world \<Rightarrow> item_world option" where
  "addMoney_loop R cyl flags [] money w = Some w"
| "addMoney_loop R cyl flags ((worth, n) # cs) money w =
     (if worth = 0 then None
      else
        let currencyCoins = ucast (money div worth) :: u32
        in if currencyCoins = 0 then addMoney_loop R cyl flags cs money w
           else Option.bind (give_coins R cyl flags n currencyCoins w)
             (addMoney_loop R cyl flags cs (money - ucast currencyCoins * worth)))"

definition addMoney :: "rules \<Rightarrow> currency \<Rightarrow> cylinder \<Rightarrow> u64 \<Rightarrow> u32 \<Rightarrow> item_world \<Rightarrow> item_world option" where
  "addMoney R tab cyl money flags w =
     (if money = 0 then Some w else addMoney_loop R cyl flags (currencyItems tab) money w)"

section \<open>Paying\<close>

text \<open>The quotient is rounded up; it is computed in floating point, exactly, since both numbers are below \<open>2 ^ 32\<close>.\<close>

definition ceil_div :: "u64 \<Rightarrow> u32 \<Rightarrow> u32" where
  "ceil_div money worth = ucast ((money + ucast worth - 1) div ucast worth)"

text \<open>The loop over the coins, the cheapest stacks first; the results of the removals are not looked at.\<close>

fun pay :: "rules \<Rightarrow> currency \<Rightarrow> (item_world \<Rightarrow> (returnvalue \<times> item_world) option) \<Rightarrow> cylinder \<Rightarrow> u32 \<Rightarrow>
    (u32 \<times> nat) list \<Rightarrow> u64 \<Rightarrow> item_world \<Rightarrow> item_world option" where
  "pay R tab outside cyl flags [] money w = Some w"
| "pay R tab outside cyl flags ((stack, i) # es) money w =
     (if ucast stack < money then do {
        (_, w) \<leftarrow> internalRemoveItem R outside i (-1) False 0 w;
        pay R tab outside cyl flags es (money - ucast stack) w
      }
      else if ucast stack > money then
        if item_count (itemAt w i) = 0 then None
        else
          let worth = stack div ucast (item_count (itemAt w i)) :: u32
          in if worth = 0 then None
             else
               let removeCount = ceil_div money worth
               in do {
                 w \<leftarrow> addMoney R tab cyl (ucast (worth * removeCount) - money) flags w;
                 map_option snd (internalRemoveItem R outside i (sint removeCount) False 0 w)
               }
      else map_option snd (internalRemoveItem R outside i (-1) False 0 w))"

definition removeMoney :: "rules \<Rightarrow> currency \<Rightarrow> (item_world \<Rightarrow> (returnvalue \<times> item_world) option) \<Rightarrow> cylinder option \<Rightarrow> u64 \<Rightarrow> u32 \<Rightarrow>
    item_world \<Rightarrow> (bool \<times> item_world) option" where
  "removeMoney R tab outside cylinder money flags w =
     (case cylinder of None \<Rightarrow> Some (False, w)
      | Some cyl \<Rightarrow>
          if money = 0 then Some (True, w)
          else do {
            coins \<leftarrow> all_coins tab (wheap w) (slots cyl);
            if moneyCount coins < money then Some (False, w)
            else map_option (\<lambda>w. (True, w)) (pay R tab outside cyl flags (sort_key fst coins) money w)
          })"

text \<open>A container as the cylinder\<close>

definition container_cylinder :: "rules \<Rightarrow> nat \<Rightarrow> (nat \<Rightarrow> item_world \<Rightarrow> (returnvalue \<times> item_world) option) \<Rightarrow> heap \<Rightarrow> cylinder" where
  "container_cylinder R c tile h =
     \<lparr>slots = itemlist (the_cont h c),
      add_to = (\<lambda>i flags w. map_option (\<lambda>(ret, _, w). (ret, w)) (internalAddItem R c i INDEX_WHEREEVER flags False w)),
      add_tile = tile\<rparr>"

section \<open>The table of worths\<close>

definition currency_ok :: "currency \<Rightarrow> bool" where
  "currency_ok tab \<longleftrightarrow> (\<forall>w n. (w, n) \<in> set (currencyItems tab) \<longrightarrow> worth_of tab n = w) \<and>
     (\<forall>n. worth_of tab n \<noteq> 0 \<longrightarrow> (worth_of tab n, n) \<in> set (currencyItems tab))"

lemma set_insert_currency [simp]: "set (insert_currency w n cs) = insert (w, n) (set cs)"
  by (induction cs rule: insert_currency.induct) auto

lemma sorted_insert_currency:
  "w \<notin> fst ` set cs \<Longrightarrow> sorted_wrt (>) (map fst cs) \<Longrightarrow> sorted_wrt (>) (map fst (insert_currency w n cs))"
  by (induction cs rule: insert_currency.induct) (auto simp: image_iff)

lemma currency_fold:
  assumes "distinct (map fst decls)" "currency_ok tab" "fst ` set decls \<inter> snd ` set (currencyItems tab) = {}"
  shows "currency_ok (fold parse_worth decls tab) \<and>
    fst ` set (currencyItems (fold parse_worth decls tab)) = fst ` set (currencyItems tab) \<union> snd ` set decls \<and>
    set (currencyItems (fold parse_worth decls tab)) \<subseteq> set (currencyItems tab) \<union> prod.swap ` set decls"
  using assms
proof (induction decls arbitrary: tab)
  case (Cons d decls)
  obtain n w where d: "d = (n, w)" by (cases d)
  define t where "t = parse_worth (n, w) tab"
  have new: "n \<notin> snd ` set (currencyItems tab)" using Cons.prems(3) d by auto
  have free: "(v, n) \<notin> set (currencyItems tab)" for v using new by force
  have "currency_ok t"
    using Cons.prems(2) free by (auto simp: t_def parse_worth_def currency_ok_def)
  moreover have t: "set (currencyItems t) \<subseteq> insert (w, n) (set (currencyItems tab))"
    "fst ` set (currencyItems t) = insert w (fst ` set (currencyItems tab))"
    by (auto simp: t_def parse_worth_def)
  moreover have "fst ` set decls \<inter> snd ` set (currencyItems t) = {}"
  proof -
    have "snd ` set (currencyItems t) \<subseteq> insert n (snd ` set (currencyItems tab))" using t(1) by force
    moreover have "n \<notin> fst ` set decls" "fst ` set decls \<inter> snd ` set (currencyItems tab) = {}" using Cons.prems(1,3) d by auto
    ultimately show ?thesis by blast
  qed
  ultimately have "currency_ok (fold parse_worth decls t) \<and>
    fst ` set (currencyItems (fold parse_worth decls t)) = fst ` set (currencyItems t) \<union> snd ` set decls \<and>
    set (currencyItems (fold parse_worth decls t)) \<subseteq> set (currencyItems t) \<union> prod.swap ` set decls"
    using Cons.IH Cons.prems(1) by simp
  moreover have "prod.swap ` set (d # decls) = insert (w, n) (prod.swap ` set decls)" by (simp add: d)
  ultimately show ?case using t d by (auto simp: t_def)
qed simp

lemma currency_of_ok:
  assumes "distinct (map fst decls)"
  shows "currency_ok (currency_of decls)" "fst ` set (currencyItems (currency_of decls)) = snd ` set decls"
    "(w, n) \<in> set (currencyItems (currency_of decls)) \<Longrightarrow> (n, w) \<in> set decls"
  using currency_fold [OF assms, of "\<lparr>worth_of = (\<lambda>_. 0), currencyItems = []\<rparr>"]
  by (auto simp: currency_of_def currency_ok_def)

section \<open>Amounts in coins\<close>

fun in_turn :: "('a \<Rightarrow> 's \<Rightarrow> 's option) \<Rightarrow> 'a list \<Rightarrow> 's \<Rightarrow> 's option" where
  "in_turn f [] s = Some s"
| "in_turn f (x # xs) s = Option.bind (f x s) (in_turn f xs)"

lemma in_turn_append: "in_turn f (xs @ ys) s = Option.bind (in_turn f xs s) (in_turn f ys)"
  by (induction xs arbitrary: s) (auto split: Option.bind_splits)

definition worth_of_stack :: "currency \<Rightarrow> u16 \<times> u16 \<Rightarrow> nat" where
  "worth_of_stack tab = (\<lambda>(n, cnt). unat (worth_of tab n) * unat cnt)"

text \<open>Stacks of \<open>n\<close> that are \<open>k\<close> together\<close>

definition stacks_of :: "u16 \<Rightarrow> nat \<Rightarrow> (u16 \<times> u16) list \<Rightarrow> bool" where
  "stacks_of n k l \<longleftrightarrow> (\<forall>(m, cnt) \<in> set l. m = n \<and> 0 < cnt \<and> cnt \<le> 100) \<and> (\<Sum>(m, cnt)\<leftarrow>l. unat cnt) = k"

lemma give_coins_stacks:
  "\<exists>l. stacks_of n (unat k) l \<and> (\<forall>w. give_coins R cyl flags n k w = in_turn (\<lambda>(n, cnt). give_stack R cyl flags n cnt) l w)"
proof (induction "unat k" arbitrary: k rule: less_induct)
  case less
  show ?case
  proof (cases "k = 0")
    case True
    then show ?thesis by (intro exI [of _ "[]"]) (simp add: stacks_of_def give_coins.simps)
  next
    case False
    define x where "x = min 100 k"
    have x: "x \<noteq> 0" "x \<le> k" "unat x \<le> 100" using False by (auto simp: x_def min_def word_le_nat_alt)
    then have rest: "unat (k - x) = unat k - unat x" "unat x \<le> unat k" "unat x \<noteq> 0"
      by (simp_all add: unat_sub word_le_nat_alt unat_eq_0)
    have narrow: "unat (ucast x :: u16) = unat x" using x(3) by (simp add: unsigned_ucast_eq take_bit_nat_eq_self)
    have "give_coins R cyl flags n k w =
        Option.bind (give_stack R cyl flags n (ucast x) w) (give_coins R cyl flags n (k - x))" for w
      using False by (subst give_coins.simps) (simp add: x_def Let_def word_gt_0)
    moreover obtain l where l: "stacks_of n (unat (k - x)) l"
      "\<And>w. give_coins R cyl flags n (k - x) w = in_turn (\<lambda>(n, cnt). give_stack R cyl flags n cnt) l w"
      using less.hyps [of "k - x"] rest by auto
    then have "give_coins R cyl flags n (k - x) = in_turn (\<lambda>(n, cnt). give_stack R cyl flags n cnt) l" by blast
    moreover have "stacks_of n (unat k) ((n, ucast x) # l)"
      using l(1) rest narrow x(3) by (auto simp: stacks_of_def word_less_nat_alt word_le_nat_alt)
    ultimately show ?thesis by (intro exI [of _ "(n, ucast x) # l"]) simp
  qed
qed

lemma stacks_pos:
  assumes "stacks_of n k l" "(m, cnt) \<in> set l"
  shows "0 < k"
proof -
  have "unat cnt \<in> set (map (\<lambda>(m, cnt). unat cnt) l)" using assms(2) by force
  then have "unat cnt \<le> k" using member_le_sum_list assms(1) by (fastforce simp: stacks_of_def)
  moreover have "0 < cnt" using assms by (auto simp: stacks_of_def)
  ultimately show ?thesis by (simp add: word_less_nat_alt)
qed

lemma stacks_worth: "stacks_of n k l \<Longrightarrow> (\<Sum>s\<leftarrow>l. worth_of_stack tab s) = unat (worth_of tab n) * k"
proof -
  assume l: "stacks_of n k l"
  then have "\<forall>(m, cnt) \<in> set l. m = n" by (auto simp: stacks_of_def)
  then have "(\<Sum>s\<leftarrow>l. worth_of_stack tab s) = unat (worth_of tab n) * (\<Sum>(m, cnt)\<leftarrow>l. unat cnt)"
    by (induction l) (auto simp: worth_of_stack_def distrib_left)
  then show ?thesis using l by (simp add: stacks_of_def)
qed

lemma unat_ucast_u32: "unat (ucast (k :: u32) :: u64) = unat k"
proof -
  have "unat k < 2 ^ 32" using unsigned_less [of k] by simp
  then show ?thesis by (simp add: unsigned_ucast_eq take_bit_nat_eq_self)
qed

definition coins_for :: "currency \<Rightarrow> u16 set \<Rightarrow> u64 \<Rightarrow> (u16 \<times> u16) list \<Rightarrow> bool" where
  "coins_for tab ns money l \<longleftrightarrow> (\<Sum>s\<leftarrow>l. worth_of_stack tab s) = unat money \<and>
     (\<forall>(n, cnt) \<in> set l. 0 < cnt \<and> cnt \<le> 100 \<and> n \<in> ns \<and> worth_of tab n \<le> money)"

lemma addMoney_loop_coins:
  assumes "\<forall>(w, n) \<in> set cs. w \<noteq> 0 \<and> worth_of tab n = w" "money = 0 \<or> 1 \<in> fst ` set cs" "money < 2 ^ 32"
  shows "\<exists>l. coins_for tab (snd ` set cs) money l \<and>
    (\<forall>w. addMoney_loop R cyl flags cs money w = in_turn (\<lambda>(n, cnt). give_stack R cyl flags n cnt) l w)"
  using assms
proof (induction cs arbitrary: money)
  case Nil
  then show ?case by (intro exI [of _ "[]"]) (simp add: coins_for_def)
next
  case (Cons c cs)
  obtain v n where c: "c = (v, n)" by (cases c)
  have v: "v \<noteq> 0" "worth_of tab n = v" using Cons.prems(1) c by auto
  define k where "k = (ucast (money div v) :: u32)"
  have small: "unat money < 2 ^ 32" using Cons.prems(3) by (simp add: word_less_nat_alt)
  then have "unat (money div v) < 2 ^ 32" by (simp add: unat_div) (meson div_le_dividend le_less_trans)
  then have k: "unat k = unat money div unat v"
    by (simp add: k_def unat_div unsigned_ucast_eq take_bit_nat_eq_self)
  then have spent: "unat v * unat k \<le> unat money" by simp
  have "unat (ucast k * v) = unat k * unat v"
    using spent small by (simp add: unat_word_ariths unat_ucast_u32 mult.commute)
  then have left: "unat (money - ucast k * v) = unat money - unat v * unat k"
    using spent by (simp add: unat_sub word_le_nat_alt mult.commute)
  define rest where "rest = money - ucast k * v"
  have rest: "rest \<le> money" using left by (simp add: rest_def word_le_nat_alt)
  have "rest = 0 \<or> 1 \<in> fst ` set cs"
  proof (cases "v = 1")
    case True
    then have "unat rest = 0" using left k by (simp add: rest_def)
    then show ?thesis by (simp add: unat_eq_0)
  next
    case False
    then show ?thesis using Cons.prems(2) c rest by auto
  qed
  moreover have "rest < 2 ^ 32" using rest Cons.prems(3) by (rule order_le_less_trans)
  ultimately obtain l where l: "coins_for tab (snd ` set cs) rest l"
    "\<And>w. addMoney_loop R cyl flags cs rest w = in_turn (\<lambda>(n, cnt). give_stack R cyl flags n cnt) l w"
    using Cons.IH [of rest] Cons.prems(1) by auto
  obtain s where s: "stacks_of n (unat k) s"
    "\<And>w. give_coins R cyl flags n k w = in_turn (\<lambda>(n, cnt). give_stack R cyl flags n cnt) s w"
    using give_coins_stacks by blast
  have loop: "addMoney_loop R cyl flags (c # cs) money w = in_turn (\<lambda>(n, cnt). give_stack R cyl flags n cnt) (s @ l) w" for w
  proof (cases "k = 0")
    case True
    then have "rest = money" by (simp add: rest_def)
    moreover have "s = []" using stacks_pos [OF s(1)] True by (cases s) auto
    ultimately show ?thesis using v(1) l(2) True by (simp add: c k_def [symmetric])
  next
    case False
    moreover have "addMoney_loop R cyl flags cs rest = in_turn (\<lambda>(n, cnt). give_stack R cyl flags n cnt) l" using l(2) by blast
    ultimately show ?thesis using v(1) s(2) by (simp add: c k_def [symmetric] rest_def [symmetric] in_turn_append)
  qed
  moreover have "(\<Sum>s\<leftarrow>s @ l. worth_of_stack tab s) = unat money"
    using stacks_worth [OF s(1), of tab] l(1) left spent v(2) by (simp add: coins_for_def rest_def)
  moreover have "0 < cnt \<and> cnt \<le> 100 \<and> m \<in> snd ` set (c # cs) \<and> worth_of tab m \<le> money" if m: "(m, cnt) \<in> set (s @ l)" for m cnt
  proof (cases "(m, cnt) \<in> set s")
    case True
    then have "m = n" "0 < cnt" "cnt \<le> 100" using s(1) by (auto simp: stacks_of_def)
    moreover have "unat cnt \<le> unat k"
      using s(1) True member_le_sum_list [of "unat cnt" "map (\<lambda>(m, cnt). unat cnt) s"] by (force simp: stacks_of_def)
    then have "unat k \<noteq> 0" using \<open>0 < cnt\<close> by (simp add: word_less_nat_alt)
    then have "v \<le> money" using k div_less [of "unat money" "unat v"] by (metis less_irrefl not_less word_le_nat_alt)
    ultimately show ?thesis using c v(2) by simp
  next
    case False
    then have "0 < cnt \<and> cnt \<le> 100 \<and> m \<in> snd ` set cs \<and> worth_of tab m \<le> rest" using l(1) m by (auto simp: coins_for_def)
    then show ?thesis using rest by auto
  qed
  ultimately have "coins_for tab (snd ` set (c # cs)) money (s @ l)" by (auto simp: coins_for_def)
  then show ?case using loop by blast
qed

text \<open>A currency as the item file declares it: each type once, no worth of 0, and a coin of worth 1\<close>

definition good_currency :: "(u16 \<times> u64) list \<Rightarrow> bool" where
  "good_currency decls \<longleftrightarrow> distinct (map fst decls) \<and> 0 \<notin> snd ` set decls \<and> 1 \<in> snd ` set decls"

lemma addMoney_coins:
  assumes "good_currency decls" "tab = currency_of decls" "money < 2 ^ 32"
  shows "\<exists>l. coins_for tab (fst ` set decls) money l \<and>
    (\<forall>w. addMoney R tab cyl money flags w = in_turn (\<lambda>(n, cnt). give_stack R cyl flags n cnt) l w)"
proof (cases "money = 0")
  case True
  then show ?thesis by (intro exI [of _ "[]"]) (simp add: addMoney_def coins_for_def)
next
  case False
  have d: "distinct (map fst decls)" "0 \<notin> snd ` set decls" "1 \<in> snd ` set decls" using assms(1) by (simp_all add: good_currency_def)
  note t = currency_of_ok [OF d(1), folded assms(2)]
  have "\<forall>(w, n) \<in> set (currencyItems tab). w \<noteq> 0 \<and> worth_of tab n = w"
    using t(1,3) d(2) by (force simp: currency_ok_def)
  moreover have "1 \<in> fst ` set (currencyItems tab)" using t(2) d(3) by simp
  ultimately obtain l where l: "coins_for tab (snd ` set (currencyItems tab)) money l"
    "\<And>w. addMoney_loop R cyl flags (currencyItems tab) money w = in_turn (\<lambda>(n, cnt). give_stack R cyl flags n cnt) l w"
    using addMoney_loop_coins [of "currencyItems tab" tab money R cyl flags] assms(3) by blast
  have "snd ` set (currencyItems tab) \<subseteq> fst ` set decls" using t(3) by force
  then have "coins_for tab (fst ` set decls) money l" using l(1) unfolding coins_for_def by fast
  then show ?thesis using l(2) False by (auto simp: addMoney_def)
qed

text \<open>C39: With a currency in which each type is declared once, no worth is 0 and some coin is worth 1, an amount below
  \<open>2 ^ 32\<close> is given exactly: \<open>addMoney\<close> hands out, one after another, stacks of at least 1 and at most 100 coins of
  declared types, none worth more than the amount, that are worth the amount together; no step leaves the widths of
  the integers.\<close>

theorem addMoney_exact:
  assumes "good_currency decls" "money < 2 ^ 32"
  shows "\<exists>l. (\<forall>w. addMoney R (currency_of decls) cyl money flags w = in_turn (\<lambda>(n, cnt). give_stack R cyl flags n cnt) l w) \<and>
    (\<Sum>(n, cnt)\<leftarrow>l. unat (worth_of (currency_of decls) n) * unat cnt) = unat money \<and>
    (\<forall>(n, cnt) \<in> set l. 0 < cnt \<and> cnt \<le> 100 \<and> n \<in> fst ` set decls \<and> worth_of (currency_of decls) n \<le> money)"
  using addMoney_coins [OF assms(1) refl assms(2)] unfolding coins_for_def worth_of_stack_def by blast

text \<open>Gold, platinum and crystal coins\<close>

definition old_coins :: "(u16 \<times> u64) list" where
  "old_coins = [(2148, 1), (2152, 100), (2160, 10000)]"

theorem addMoney_exact_witness:
  "\<exists>cyl l. slots cyl = [] \<and>
    (\<forall>w. addMoney market (currency_of old_coins) cyl 23456 0 w = in_turn (\<lambda>(n, cnt). give_stack market cyl 0 n cnt) l w) \<and>
    (\<Sum>(n, cnt)\<leftarrow>l. unat (worth_of (currency_of old_coins) n) * unat cnt) = 23456"
proof -
  define cyl where "cyl = container_cylinder market 0 (\<lambda>_ w. Some (RETURNVALUE_NOERROR, w)) bag_and_coins"
  have "good_currency old_coins" "(23456 :: u64) < 2 ^ 32" by (simp_all add: good_currency_def old_coins_def)
  from addMoney_exact [OF this, of market cyl 0] obtain l where
    "\<forall>w. addMoney market (currency_of old_coins) cyl 23456 0 w = in_turn (\<lambda>(n, cnt). give_stack market cyl 0 n cnt) l w"
    "(\<Sum>(n, cnt)\<leftarrow>l. unat (worth_of (currency_of old_coins) n) * unat cnt) = unat (23456 :: u64)" by blast
  moreover have "slots cyl = []" by (simp add: cyl_def container_cylinder_def the_cont_def bag_and_coins_simps)
  ultimately show ?thesis by (intro exI [of _ cyl] exI [of _ l]) simp
qed

section \<open>What the count sees\<close>

text \<open>Everything strictly inside the containers \<open>cs\<close>\<close>

definition inside :: "heap \<Rightarrow> nat list \<Rightarrow> nat set" where
  "inside h cs = {i. \<exists>c \<in> set cs. (c, i) \<in> (holds h)\<^sup>+}"

definition coin_entries :: "currency \<Rightarrow> heap \<Rightarrow> nat set \<Rightarrow> (u32 \<times> nat) set" where
  "coin_entries tab h S = {(getWorth tab (th_item (things h i)), i) | i. i \<in> S \<and> th_cont (things h i) = None \<and> getWorth tab (th_item (things h i)) \<noteq> 0}"

lemma set_loose_coins: "set (loose_coins tab h is) = coin_entries tab h (set is)"
  by (auto simp: loose_coins_def coin_entries_def)

lemma snd_coin_entries: "snd ` coin_entries tab h S \<subseteq> S"
  by (auto simp: coin_entries_def)

lemma distinct_loose_coins:
  assumes "distinct is"
  shows "distinct (map snd (loose_coins tab h is))"
proof -
  have "map snd (loose_coins tab h is) = filter (\<lambda>i. th_cont (things h i) = None \<and> getWorth tab (th_item (things h i)) \<noteq> 0) is"
    unfolding loose_coins_def by (induction "is") auto
  then show ?thesis using assms by simp
qed

lemma inside_Cons:
  assumes "tree_ok h"
  shows "inside h (c # cs) = set (children h c) \<union> inside h (cs @ boxes h (children h c))"
proof -
  have "(c, i) \<in> (holds h)\<^sup>+ \<longleftrightarrow> i \<in> set (children h c) \<or> (\<exists>d \<in> set (boxes h (children h c)). (d, i) \<in> (holds h)\<^sup>+)" for i
  proof -
    have "(c, i) \<in> (holds h)\<^sup>+ \<longleftrightarrow> (c, i) \<in> holds h \<or> (\<exists>d. (c, d) \<in> holds h \<and> (d, i) \<in> (holds h)\<^sup>+)"
      by (meson tranclD tranclD2 trancl.r_into_trancl trancl_into_trancl2 converse_tranclE)
    moreover have "th_cont (things h d) \<noteq> None" if "(d, i) \<in> (holds h)\<^sup>+" for d
      using that parent_is_container [OF assms] by (auto simp: holds_def dest: tranclD)
    ultimately show ?thesis using holds_child [OF assms] by auto
  qed
  then show ?thesis by (auto simp: inside_def)
qed

lemma forest_boxes:
  assumes "tree_ok h" "forest h (c # cs)"
  shows "forest h (cs @ boxes h (children h c))"
  using forest_step [OF assms] by (auto simp: forest_def)

lemma new_children:
  assumes "tree_ok h" "forest h (c # cs)"
  shows "set (children h c) \<inter> inside h (cs @ boxes h (children h c)) = {}"
proof -
  have f: "forest h (cs @ children h c)" by (rule forest_step [OF assms])
  have False if "i \<in> set (children h c)" "d \<in> set (cs @ children h c)" "(d, i) \<in> (holds h)\<^sup>+" for i d
  proof -
    have "d = i" using f that by (auto simp: forest_def dest: trancl_into_rtrancl)
    then show False using that(3) wf_acyclic [OF tree_okD(3) [OF assms(1)]] by (auto simp: acyclic_def)
  qed
  then show ?thesis by (fastforce simp: inside_def)
qed

lemma queue_smaller:
  assumes "tree_ok h" "forest h (c # cs)"
  shows "card (\<Union>x \<in> set (cs @ boxes h (children h c)). below h x) < card (\<Union>x \<in> set (c # cs). below h x)"
proof (rule psubset_card_mono)
  show "finite (\<Union>x \<in> set (c # cs). below h x)" using below_finite [OF assms(1)] by simp
  have "(\<Union>x \<in> set (cs @ boxes h (children h c)). below h x) \<subseteq> (\<Union>x \<in> set (c # cs). below h x)"
    using below_unfold [OF assms(1), of c] by auto
  moreover have "c \<notin> (\<Union>x \<in> set (cs @ boxes h (children h c)). below h x)"
    using assms(2) not_below_child [OF assms(1)] by (auto simp: forest_def below_def)
  moreover have "c \<in> (\<Union>x \<in> set (c # cs). below h x)" by (simp add: below_def)
  ultimately show "(\<Union>x \<in> set (cs @ boxes h (children h c)). below h x) \<subset> (\<Union>x \<in> set (c # cs). below h x)" by blast
qed

lemma boxed_coins_all:
  assumes "tree_ok h" "forest h cs"
  shows "\<exists>l. boxed_coins tab h cs = Some l \<and> boxed_money tab h cs = Some (moneyCount l) \<and> distinct (map snd l) \<and>
    set l = coin_entries tab h (inside h cs)"
  using assms(2)
proof (induction "card (\<Union>x \<in> set cs. below h x)" arbitrary: cs rule: less_induct)
  case less
  show ?case
  proof (cases cs)
    case Nil
    then show ?thesis
      by (subst boxed_coins.simps, subst boxed_money.simps) (simp add: coin_entries_def inside_def moneyCount_def)
  next
    case (Cons c ds)
    note f = less.prems [unfolded Cons]
    obtain l where l: "boxed_coins tab h (ds @ boxes h (children h c)) = Some l"
      "boxed_money tab h (ds @ boxes h (children h c)) = Some (moneyCount l)" "distinct (map snd l)"
      "set l = coin_entries tab h (inside h (ds @ boxes h (children h c)))"
      using less.hyps [OF _ forest_boxes [OF assms(1) f]] queue_smaller [OF assms(1) f] Cons by blast
    have "loose_money tab h is = moneyCount (loose_coins tab h is)" for "is"
      by (induction "is") (auto simp: loose_money_def moneyCount_def loose_coins_def)
    then have "boxed_coins tab h cs = Some (loose_coins tab h (children h c) @ l) \<and>
        boxed_money tab h cs = Some (moneyCount (loose_coins tab h (children h c) @ l))"
      using l(1,2) by (subst boxed_coins.simps, subst boxed_money.simps) (simp add: Cons moneyCount_def)
    moreover have "set (map snd (loose_coins tab h (children h c))) \<inter> set (map snd l) = {}"
      using new_children [OF assms(1) f] snd_coin_entries [of tab h]
      by (simp add: set_loose_coins l(4)) blast
    moreover have "distinct (map snd (loose_coins tab h (children h c)))"
      by (rule distinct_loose_coins [OF tree_okD(2) [OF assms(1)]])
    moreover have "coin_entries tab h (A \<union> B) = coin_entries tab h A \<union> coin_entries tab h B" for A B
      by (auto simp: coin_entries_def)
    ultimately show ?thesis
      using l(3,4) inside_Cons [OF assms(1), of c ds] by (simp add: Cons set_loose_coins)
  qed
qed

lemma below_inside:
  assumes "tree_ok h"
  shows "(\<Union>x \<in> set is. below h x) = set is \<union> inside h (boxes h is)"
proof -
  have "below h x = insert x {i. (x, i) \<in> (holds h)\<^sup>+}" for x by (auto simp: below_def rtrancl_eq_or_trancl)
  moreover have "th_cont (things h x) \<noteq> None" if "(x, i) \<in> (holds h)\<^sup>+" for x i
    using that parent_is_container [OF assms] by (auto simp: holds_def dest: tranclD)
  ultimately show ?thesis by (auto simp: inside_def)
qed

lemma boxes_apart:
  assumes "tree_ok h" "forest h is"
  shows "set is \<inter> inside h (boxes h is) = {}"
proof -
  have False if "i \<in> set is" "d \<in> set is" "(d, i) \<in> (holds h)\<^sup>+" for i d
  proof -
    have "d = i" using assms(2) that by (auto simp: forest_def dest: trancl_into_rtrancl)
    then show False using that(3) wf_acyclic [OF tree_okD(3) [OF assms(1)]] by (auto simp: acyclic_def)
  qed
  then show ?thesis by (fastforce simp: inside_def)
qed

lemma all_coins_seen:
  assumes "tree_ok h" "forest h is"
  obtains l where "all_coins tab h is = Some l" "distinct (map snd l)" "set l = coin_entries tab h (\<Union>x \<in> set is. below h x)"
    "\<And>inventory. map the (filter (\<lambda>s. s \<noteq> None) inventory) = is \<Longrightarrow> getMoney tab h inventory = Some (moneyCount l)"
proof -
  have "forest h (boxes h is)" using assms(2) by (auto simp: forest_def)
  then obtain l where l: "boxed_coins tab h (boxes h is) = Some l" "boxed_money tab h (boxes h is) = Some (moneyCount l)"
    "distinct (map snd l)" "set l = coin_entries tab h (inside h (boxes h is))"
    using boxed_coins_all [OF assms(1)] by blast
  have loose: "loose_money tab h is = moneyCount (loose_coins tab h is)"
    by (induction "is") (auto simp: loose_money_def moneyCount_def loose_coins_def)
  have "distinct (map snd (loose_coins tab h is @ l))"
    using distinct_loose_coins [of "is" tab h] l(3,4) assms(2) boxes_apart [OF assms] snd_coin_entries [of tab h]
    by (simp add: set_loose_coins forest_def) blast
  moreover have "coin_entries tab h (A \<union> B) = coin_entries tab h A \<union> coin_entries tab h B" for A B
    by (auto simp: coin_entries_def)
  ultimately show thesis
    using that [of "loose_coins tab h is @ l"] l
    by (simp add: all_coins_def getMoney_def set_loose_coins below_inside [OF assms(1)] loose Let_def) (simp add: moneyCount_def)
qed

section \<open>What additions leave alone\<close>

text \<open>Types stay; items whose type is not in \<open>ns\<close> stay as and where they are; containers stay containers.\<close>

definition spared :: "u16 set \<Rightarrow> heap \<Rightarrow> heap \<Rightarrow> bool" where
  "spared ns h h' \<longleftrightarrow> next_thing h \<le> next_thing h' \<and>
     (\<forall>j < next_thing h. (th_cont (things h' j) = None \<longleftrightarrow> th_cont (things h j) = None) \<and>
        (item_id (th_item (things h j)) \<notin> ns \<longrightarrow>
           th_item (things h' j) = th_item (things h j) \<and> th_parent (things h' j) = th_parent (things h j)))"

lemma spared_refl [simp]: "spared ns h h"
  by (simp add: spared_def)

lemma spared_trans: "spared ns h h' \<Longrightarrow> spared ns h' h'' \<Longrightarrow> spared ns h h''"
  by (simp add: spared_def)

lemma spared_mono: "spared ns h h' \<Longrightarrow> ns \<subseteq> ms \<Longrightarrow> spared ms h h'"
  unfolding spared_def by blast

lemma addThing_spared:
  assumes "addThing T c index i h = Some h'"
  shows "spared {item_id (th_item (things h i))} h h'"
  using assms by (auto simp: addThing_def updateItemWeight_def Let_def spared_def split: if_splits option.splits prod.splits)

lemma item_id_same [simp]: "item_id (item_setSubType T k (setID T (item_id x) x)) = item_id x"
  by (simp add: item_setSubType_def setSubType_def setID_def Let_def item_removeAttribute_def setDuration_def setDecaying_def
      item_setIntAttr_def setItemCount_def setFluidType_def setCharges_def split: option.split)

lemma updateThing_spared:
  assumes "updateThing T c t (item_id (th_item (things h t))) k h = Some h'"
  shows "spared {item_id (th_item (things h t))} h h'" "\<And>j. item_id (th_item (things h' j)) = item_id (th_item (things h j))"
    "\<And>j. th_cont (things h' j) = None \<longleftrightarrow> th_cont (things h j) = None" "next_thing h' = next_thing h"
  using assms by (auto simp: updateThing_def updateItemWeight_def Let_def spared_def split: if_splits option.splits prod.splits)

lemma clone_spared:
  assumes "clone R i w = Some (k, w')" "stock_types R" "stackable (type_of (rule_types R) (itemAt w i))"
    and "th_cont (things (wheap w) i) = None" "i < next_thing (wheap w)"
  shows "item_id (itemAt w' k) = item_id (itemAt w i)" "th_cont (things (wheap w') k) = None"
    "k = next_thing (wheap w)" "next_thing (wheap w') = Suc k" "\<And>j. j < next_thing (wheap w) \<Longrightarrow> things (wheap w') j = things (wheap w) j"
proof -
  let ?T = "rule_types R" and ?x = "itemAt w i"
  obtain x where x: "CreateItem R (item_id ?x) (ucast (item_count ?x)) = Some (x, None)" "item_id x = item_id ?x"
    using assms(2,3) by (simp add: CreateItem_def stock_types_def type_of_def Let_def item_new_def setDefaultDuration_def
        setDuration_def item_setIntAttr_def setItemCount_def)
  define y where "y = (case item_attrs ?x of None \<Rightarrow> x | Some a \<Rightarrow> x\<lparr>item_attrs := Some a\<rparr>)"
  have y: "item_id y = item_id ?x" using x(2) by (simp add: y_def split: option.split)
  define w1 where "w1 = w\<lparr>wheap := snd (new_thing y None (wheap w))\<rparr>"
  define w2 where "w2 = (if item_attrs ?x \<noteq> None \<and> getDuration y > 0 then start_decay (next_thing (wheap w)) w1 else w1)"
  have things: "th_cont (things (wheap w2) (next_thing (wheap w))) = None" "item_id (itemAt w2 (next_thing (wheap w))) = item_id ?x"
    "next_thing (wheap w2) = Suc (next_thing (wheap w))" "\<And>j. j < next_thing (wheap w) \<Longrightarrow> things (wheap w2) j = things (wheap w) j"
    using y by (simp_all add: w2_def w1_def new_thing_def start_decay_def itemAt_def upd_item_def upd_thing_def setDecaying_def
        item_setIntAttr_def)
  have "item_clone R i w = Some (next_thing (wheap w), w2)"
    using x(1) by (cases "item_attrs ?x") (simp_all add: item_clone_def y_def w2_def w1_def new_thing_def Let_def)
  then have "clone R i w = Some (next_thing (wheap w), w2)"
    using things(4) [OF assms(5)] assms(4) by (simp add: clone_def)
  then have "k = next_thing (wheap w)" "w' = w2" using assms(1) by simp_all
  then show "item_id (itemAt w' k) = item_id ?x" "th_cont (things (wheap w') k) = None"
    "k = next_thing (wheap w)" "next_thing (wheap w') = Suc k" "\<And>j. j < next_thing (wheap w) \<Longrightarrow> things (wheap w') j = things (wheap w) j"
    using things by simp_all
qed

lemma start_decay_spared: "spared ns h (wheap w) \<Longrightarrow> item_id (th_item (things h i)) \<in> ns \<Longrightarrow> spared ns h (wheap (start_decay i w))"
  by (auto simp: spared_def start_decay_def upd_item_def upd_thing_def)

lemma put_new_spared: "put_new R to index i w = Some (r, w') \<Longrightarrow> spared {item_id (itemAt w i)} (wheap w) (wheap w')"
  using addThing_spared by (fastforce simp: put_new_def with_heap_def itemAt_def)

lemma internalAddItem_spared:
  assumes "internalAddItem R dest i index flags test w = Some res" "stock_types R" "i < next_thing (wheap w)"
    and "stackable (type_of (rule_types R) (itemAt w i)) \<Longrightarrow> th_cont (things (wheap w) i) = None"
  shows "spared {item_id (itemAt w i)} (wheap w) (wheap (snd (snd res)))"
  using assms
proof (induction rule: internalAddItem.raw_induct [rotated, consumes 1, case_names step])
  case (step rec R dest i index flags test w res)
  let ?T = "rule_types R" and ?ns = "{item_id (itemAt w i)}"
  obtain to j ti where d: "queryDestination ?T dest index i None flags (wheap w) = (to, j, ti)"
    by (cases "queryDestination ?T dest index i None flags (wheap w)")
  let ?env = "around R" and ?cnt = "ucast (item_count (itemAt w i)) :: u32"
  let ?join = "\<lambda>t m. let n = min (100 - ucast (item_count (itemAt w t))) m; left = m - n
    in do {
      w \<leftarrow> with_heap (updateThing ?T to t (item_id (itemAt w t)) (ucast (item_count (itemAt w t)) + n)) w;
      if sint left > 0 then
        if ?cnt \<noteq> left then do {
          (k, w) \<leftarrow> clone R i w;
          (ret', r, w) \<leftarrow> rec R dest k INDEX_WHEREEVER flags False (w\<lparr>wheap := upd_item k (setItemCount (ucast left)) (wheap w)\<rparr>);
          Some (if ret' \<noteq> RETURNVALUE_NOERROR then (left, release k w) else (0, w))
        }
        else put_new R to j i w
      else Some (0, postAdded to t None (release i (onRemoved i w)))
    }"
  obtain a where a: "queryAdd ?T ?env to j i ?cnt flags (wheap w) = Some a"
    using step(2) by (cases "queryAdd ?T ?env to j i ?cnt flags (wheap w)") (simp_all add: d Let_def)
  show ?case
  proof (cases "a = RETURNVALUE_NOERROR")
    case add: True
    obtain r mx where q: "queryMaxCount ?T ?env dest INDEX_WHEREEVER i ?cnt flags (wheap w) = Some (r, mx)"
      using step(2) add a by (cases "queryMaxCount ?T ?env dest INDEX_WHEREEVER i ?cnt flags (wheap w)") (auto simp: d Let_def)
    show ?thesis
    proof (cases "r = RETURNVALUE_NOERROR \<and> \<not> test")
      case go: True
      let ?body = "case (if stackable (type_of ?T (itemAt w i)) then ti else None) of
          Some t \<Rightarrow> if item_equals (itemAt w i) (Some (itemAt w t)) then (let m = min ?cnt mx in ?join t m) else put_new R to j i w
        | None \<Rightarrow> put_new R to j i w"
      have "Option.bind ?body (\<lambda>(rest, w). Some (RETURNVALUE_NOERROR, rest, if getDuration (itemAt w i) > 0 then start_decay i w else w)) = Some res"
        using step(2) add go by (simp add: Let_def d a q split del: if_split)
      then obtain rest w1 where body: "?body = Some (rest, w1)"
        and res: "snd (snd res) = (if getDuration (itemAt w1 i) > 0 then start_decay i w1 else w1)"
        by (cases ?body) auto
      have "spared ?ns (wheap w) (wheap w1)"
      proof (cases "put_new R to j i w = Some (rest, w1)")
        case False
        define m where "m = min ?cnt mx"
        obtain t where t: "stackable (type_of ?T (itemAt w i))" "item_equals (itemAt w i) (Some (itemAt w t))" "?join t m = Some (rest, w1)"
          using body False by (simp add: Let_def m_def split: if_splits option.splits)
        define n where "n = min (100 - ucast (item_count (itemAt w t))) m"
        obtain w2 where w2: "with_heap (updateThing ?T to t (item_id (itemAt w t)) (ucast (item_count (itemAt w t)) + n)) w = Some w2"
          using t(3) by (cases "with_heap (updateThing ?T to t (item_id (itemAt w t)) (ucast (item_count (itemAt w t)) + n)) w")
           (simp_all add: Let_def n_def)
        have id: "item_id (itemAt w t) = item_id (itemAt w i)" using t(2) by (simp add: item_equals_def)
        have u: "updateThing ?T to t (item_id (th_item (things (wheap w) t))) (ucast (item_count (itemAt w t)) + n) (wheap w) = Some (wheap w2)"
          using w2 by (auto simp: with_heap_def itemAt_def)
        note up = updateThing_spared [OF u, folded itemAt_def, unfolded id]
        have same: "item_id (itemAt w2 i) = item_id (itemAt w i)" using up(2) [of i] by (simp add: itemAt_def)
        have st: "stackable (type_of ?T (itemAt w2 i))" using t(1) same by (simp add: type_of_def)
        have plain: "th_cont (things (wheap w2) i) = None" "i < next_thing (wheap w2)" using step.prems t(1) up(3,4) by simp_all
        consider "put_new R to j i w2 = Some (rest, w1)" | "w1 = postAdded to t None (release i (onRemoved i w2))"
          | k w3 where "clone R i w2 = Some (k, w3)" "Option.bind (rec R dest k INDEX_WHEREEVER flags False
              (w3\<lparr>wheap := upd_item k (setItemCount (ucast (m - n))) (wheap w3)\<rparr>)) (\<lambda>(ret', r, w).
                Some (if ret' \<noteq> RETURNVALUE_NOERROR then (m - n, release k w) else (0, w))) = Some (rest, w1)"
        proof (cases "sint (m - n) > 0 \<and> ?cnt \<noteq> m - n")
          case True
          then show ?thesis
            using t(3) w2 that(3) by (cases "clone R i w2") (auto simp: Let_def n_def [symmetric] split del: if_split)
        next
          case False
          then show ?thesis
            using t(3) w2 that(1,2) by (auto simp: Let_def n_def [symmetric] split: if_splits)
        qed
        then show ?thesis
        proof cases
          case 1
          then show ?thesis using put_new_spared [of R to j i w2] spared_trans [OF up(1)] same by simp
        next
          case 2
          then show ?thesis using up(1) by (simp add: spared_def)
        next
          case 3
          note k = clone_spared [OF 3(1) step.prems(1) st plain]
          define w4 where "w4 = w3\<lparr>wheap := upd_item k (setItemCount (ucast (m - n))) (wheap w3)\<rparr>"
          obtain ret' r w5 where w5: "rec R dest k INDEX_WHEREEVER flags False w4 = Some (ret', r, w5)" "things (wheap w1) = things (wheap w5)"
            "next_thing (wheap w1) = next_thing (wheap w5)"
            using 3(2) by (auto simp: w4_def bind_eq_Some_conv split: if_splits)
          have w4: "item_id (itemAt w4 k) = item_id (itemAt w i)" "th_cont (things (wheap w4) k) = None" "k < next_thing (wheap w4)"
            "spared ?ns (wheap w2) (wheap w4)"
            using k same by (auto simp: w4_def upd_item_def upd_thing_def itemAt_def setItemCount_def spared_def)
          have "spared {item_id (itemAt w4 k)} (wheap w4) (wheap w5)"
            using step.IH [OF w5(1) step.prems(1) w4(3)] w4(2) by simp
          then have "spared ?ns (wheap w) (wheap w5)" using spared_trans [OF spared_trans [OF up(1) w4(4)]] w4(1) by simp
          then show ?thesis using w5(2,3) by (simp add: spared_def)
        qed
      qed (rule put_new_spared)
      then show ?thesis using start_decay_spared [of ?ns "wheap w" w1 i] res by (simp add: itemAt_def)
    next
      case False
      then have "snd (snd res) = w"
        using step(2) add by (cases "r = RETURNVALUE_NOERROR") (auto simp: Let_def d a q)
      then show ?thesis by simp
    qed
  next
    case False
    then have "snd (snd res) = w" using step(2) by (auto simp: Let_def d a)
    then show ?thesis by simp
  qed
qed

section \<open>What additions add\<close>

text \<open>How a cylinder must take a stack: it answers, and there are never more items afterwards than the stack has.\<close>

definition takes :: "rules \<Rightarrow> bool \<Rightarrow> nat \<Rightarrow> (nat \<Rightarrow> item_world \<Rightarrow> (returnvalue \<times> item_world) option) \<Rightarrow> bool" where
  "takes R ammo c add \<longleftrightarrow> (\<forall>i w. stock_ok R ammo (wheap w) \<and> th_cont (things (wheap w) c) \<noteq> None \<and>
     th_parent (things (wheap w) i) = Nowhere \<and> i < next_thing (wheap w) \<and> item_count (itemAt w i) \<noteq> 0 \<and>
     stackable (type_of (rule_types R) (itemAt w i)) \<longrightarrow>
     (\<exists>ret w'. add i w = Some (ret, w') \<and> stock_ok R ammo (wheap w') \<and> (ret \<noteq> RETURNVALUE_NOERROR \<longrightarrow> w' = w) \<and>
        spared {item_id (itemAt w i)} (wheap w) (wheap w') \<and>
        (\<forall>n. units (rule_types R) (wheap w') n \<le> units (rule_types R) (wheap w) n + unit_of (rule_types R) n (itemAt w i))))"

lemma container_takes:
  assumes "stock_types R" "\<not> hasBitSet FLAG_IGNOREAUTOSTACK flags" "\<not> hasBitSet FLAG_CHILDISOWNER flags" "\<not> hasBitSet FLAG_NOLIMIT flags"
  shows "takes R ammo c (\<lambda>i. add_to (container_cylinder R c tile h) i flags)"
proof -
  have "\<exists>ret w'. add_to (container_cylinder R c tile h) i flags w = Some (ret, w') \<and> stock_ok R ammo (wheap w') \<and>
      (ret \<noteq> RETURNVALUE_NOERROR \<longrightarrow> w' = w) \<and> spared {item_id (itemAt w i)} (wheap w) (wheap w') \<and>
      (\<forall>n. units (rule_types R) (wheap w') n \<le> units (rule_types R) (wheap w) n + unit_of (rule_types R) n (itemAt w i))"
    if "stock_ok R ammo (wheap w)" "th_cont (things (wheap w) c) \<noteq> None" "th_parent (things (wheap w) i) = Nowhere"
      "i < next_thing (wheap w)" "item_count (itemAt w i) \<noteq> 0" "stackable (type_of (rule_types R) (itemAt w i))" for i w
  proof -
    note pre = that
    obtain ret r w' where add: "internalAddItem R c i INDEX_WHEREEVER flags False w = Some (ret, r, w')" "stock_ok R ammo (wheap w')"
      "ret \<noteq> RETURNVALUE_NOERROR \<longrightarrow> w' = w"
      "\<forall>n. units (rule_types R) (wheap w') n \<le> units (rule_types R) (wheap w) n + unit_of (rule_types R) n (itemAt w i)"
      using internalAddItem_added [OF assms pre(1-5), of False INDEX_WHEREEVER] unfolding added_ok_def by blast
    have "th_cont (things (wheap w) i) = None" using stock_okD(6) [OF pre(1)] pre(6) by (simp add: itemAt_def)
    then have "spared {item_id (itemAt w i)} (wheap w) (wheap w')"
      using internalAddItem_spared [OF add(1) assms(1) pre(4)] by simp
    then show ?thesis using add by (simp add: container_cylinder_def)
  qed
  then show ?thesis unfolding takes_def by blast
qed

definition stack_units :: "u16 \<Rightarrow> (u16 \<times> u16) list \<Rightarrow> nat" where
  "stack_units m l = (\<Sum>(n, cnt)\<leftarrow>l. if n = m then unat cnt else 0)"

lemma give_stack_ok:
  assumes "takes R ammo c (\<lambda>i. add_to cyl i flags)" "takes R ammo c (add_tile cyl)" "stock_types R"
    and "stackable (rule_types R n)" "0 < cnt" "cnt \<le> 100" "stock_ok R ammo (wheap w)" "th_cont (things (wheap w) c) \<noteq> None"
  obtains w' where "give_stack R cyl flags n cnt w = Some w'" "stock_ok R ammo (wheap w')" "spared {n} (wheap w) (wheap w')"
    "\<And>m. units (rule_types R) (wheap w') m \<le> units (rule_types R) (wheap w) m + (if n = m then unat cnt else 0)"
proof -
  let ?T = "rule_types R" and ?x = "item_new (rule_types R) n cnt"
  have n: "\<not> fluid_or_splash (?T n)" "\<not> deprecated (creations R n)" "known (creations R n)" "made_as (creations R n) = MadeItem"
    "not_worn n = n" using assms(3,4) by (simp_all add: stock_types_def)
  have cnt: "cnt \<noteq> 0" "unat (ucast cnt :: u8) = unat cnt"
    using assms(5,6) by (auto simp: unsigned_ucast_eq take_bit_nat_eq_self word_le_nat_alt)
  have x: "item_id ?x = n" "item_count ?x = ucast cnt"
    using item_new_stack [of ?T n cnt] assms(4) n(1) cnt(1) by simp_all
  have small: "item_count ?x \<le> 100" "item_count ?x \<noteq> 0"
    using x(2) cnt assms(5,6) by (auto simp: word_le_nat_alt unat_eq_0 [symmetric] word_less_nat_alt)
  have make: "CreateItem R n cnt = Some (?x, None)" using n cnt(1) assms(4) by (simp add: CreateItem_def Let_def)
  obtain i h where new: "new_thing ?x None (wheap w) = (i, h)" by (cases "new_thing ?x None (wheap w)")
  note made = new_thing_stock [OF assms(7) new small(1)]
  define w1 where "w1 = w\<lparr>wheap := h\<rparr>"
  have i: "itemAt w1 i = ?x" "i = next_thing (wheap w)" using made(2,4) by (simp_all add: w1_def itemAt_def fresh_def)
  have c: "c < next_thing (wheap w)" using tree_okD(4) [OF stock_okD(2) [OF assms(7)], of c] assms(8) by (meson not_le)
  then have c1: "th_cont (things (wheap w1) c) \<noteq> None" using made(2) i(2) assms(8) by (simp add: w1_def fresh_def)
  have s1: "spared {n} (wheap w) (wheap w1)" using made(2) i(2) by (auto simp: w1_def fresh_def spared_def)
  have u1: "units ?T (wheap w1) m + unit_of ?T m (itemAt w1 i) = units ?T (wheap w) m + (if n = m then unat cnt else 0)" for m
  proof -
    have "unit_of ?T m ?x = (if n = m then unat cnt else 0)" using x cnt(2) assms(4) by (auto simp: unit_of_def)
    then show ?thesis using made(3) by (simp add: i(1)) (simp add: w1_def)
  qed
  have pre: "stock_ok R ammo (wheap w1) \<and> th_cont (things (wheap w1) c) \<noteq> None \<and> th_parent (things (wheap w1) i) = Nowhere \<and>
      i < next_thing (wheap w1) \<and> item_count (itemAt w1 i) \<noteq> 0 \<and> stackable (type_of ?T (itemAt w1 i))"
    using made(1,2) c1 small(2) assms(4) x(1) i(1) by (simp add: w1_def fresh_def type_of_def)
  obtain ret w2 where w2: "add_to cyl i flags w1 = Some (ret, w2)" "stock_ok R ammo (wheap w2)" "ret \<noteq> RETURNVALUE_NOERROR \<longrightarrow> w2 = w1"
    "spared {item_id (itemAt w1 i)} (wheap w1) (wheap w2)"
    "\<forall>m. units ?T (wheap w2) m \<le> units ?T (wheap w1) m + unit_of ?T m (itemAt w1 i)"
    using assms(1) pre unfolding takes_def by blast
  obtain ret3 w3 where w3: "add_tile cyl i w1 = Some (ret3, w3)" "stock_ok R ammo (wheap w3)"
    "spared {item_id (itemAt w1 i)} (wheap w1) (wheap w3)"
    "\<forall>m. units ?T (wheap w3) m \<le> units ?T (wheap w1) m + unit_of ?T m (itemAt w1 i)"
    using assms(2) pre unfolding takes_def by blast
  have "give_stack R cyl flags n cnt w = Some (if ret = RETURNVALUE_NOERROR then w2 else w3)"
    using w2(1,3) w3(1) by (simp add: give_stack_def make new w1_def [symmetric])
  then show thesis
    using that w2(2,4,5) w3(2,3,4) spared_trans [OF s1] u1
    by (cases "ret = RETURNVALUE_NOERROR") (simp_all add: i(1) x(1))
qed

lemma in_turn_ok:
  assumes "takes R ammo c (\<lambda>i. add_to cyl i flags)" "takes R ammo c (add_tile cyl)" "stock_types R"
    and "\<forall>(n, cnt) \<in> set l. n \<in> ns \<and> stackable (rule_types R n) \<and> 0 < cnt \<and> cnt \<le> 100"
    and "stock_ok R ammo (wheap w)" "th_cont (things (wheap w) c) \<noteq> None" "c < next_thing (wheap w)"
  shows "\<exists>w'. in_turn (\<lambda>(n, cnt). give_stack R cyl flags n cnt) l w = Some w' \<and> stock_ok R ammo (wheap w') \<and>
    spared ns (wheap w) (wheap w') \<and>
    (\<forall>m. units (rule_types R) (wheap w') m \<le> units (rule_types R) (wheap w) m + stack_units m l)"
  using assms(4-7)
proof (induction l arbitrary: w)
  case Nil
  then show ?case by (simp add: stack_units_def)
next
  case (Cons s l)
  obtain n cnt where s: "s = (n, cnt)" by (cases s)
  have n: "n \<in> ns" "stackable (rule_types R n)" "0 < cnt" "cnt \<le> 100" using Cons.prems(1) s by simp_all
  obtain w1 where w1: "give_stack R cyl flags n cnt w = Some w1" "stock_ok R ammo (wheap w1)" "spared {n} (wheap w) (wheap w1)"
    "\<And>m. units (rule_types R) (wheap w1) m \<le> units (rule_types R) (wheap w) m + (if n = m then unat cnt else 0)"
    using give_stack_ok [OF assms(1-3) n(2-4) Cons.prems(2,3)] by blast
  have "th_cont (things (wheap w1) c) \<noteq> None" "c < next_thing (wheap w1)"
    using w1(3) Cons.prems(3,4) by (auto simp: spared_def)
  then obtain w2 where w2: "in_turn (\<lambda>(n, cnt). give_stack R cyl flags n cnt) l w1 = Some w2" "stock_ok R ammo (wheap w2)"
    "spared ns (wheap w1) (wheap w2)"
    "\<forall>m. units (rule_types R) (wheap w2) m \<le> units (rule_types R) (wheap w1) m + stack_units m l"
    using Cons.IH [of w1] Cons.prems(1) w1(2) by auto
  have "units (rule_types R) (wheap w2) m \<le> units (rule_types R) (wheap w) m + stack_units m (s # l)" for m
    using w1(4) [of m] w2(4) [THEN spec, of m] by (simp add: stack_units_def s)
  moreover have "spared ns (wheap w) (wheap w2)" using spared_trans [OF spared_mono [OF w1(3)] w2(3)] n(1) by simp
  ultimately show ?case using w1(1) w2(1,2) s by auto
qed

section \<open>Wealth\<close>

text \<open>The worth of all items that have a place\<close>

definition wealth :: "currency \<Rightarrow> types \<Rightarrow> heap \<Rightarrow> nat" where
  "wealth tab T h = (\<Sum>n\<in>UNIV. unat (worth_of tab n) * units T h n)"

lemma wealth_stacks: "(\<Sum>n\<in>UNIV. unat (worth_of tab n) * stack_units n l) = (\<Sum>s\<leftarrow>l. worth_of_stack tab s)"
proof (induction l)
  case (Cons s l)
  obtain n cnt where s: "s = (n, cnt)" by (cases s)
  have "(\<Sum>m\<in>UNIV. unat (worth_of tab m) * stack_units m (s # l)) =
      (\<Sum>m\<in>UNIV. (if n = m then unat (worth_of tab n) * unat cnt else 0) + unat (worth_of tab m) * stack_units m l)"
    by (rule sum.cong) (auto simp: stack_units_def s distrib_left)
  then show ?case using Cons.IH by (simp add: sum.distrib worth_of_stack_def s)
qed (simp add: stack_units_def)

lemma wealth_added:
  assumes "\<forall>n. units T h' n \<le> units T h n + stack_units n l"
  shows "wealth tab T h' \<le> wealth tab T h + (\<Sum>s\<leftarrow>l. worth_of_stack tab s)"
proof -
  have "wealth tab T h' \<le> (\<Sum>n\<in>UNIV. unat (worth_of tab n) * (units T h n + stack_units n l))"
    unfolding wealth_def using assms by (intro sum_mono mult_le_mono2) blast
  then show ?thesis using wealth_stacks [of tab l] by (simp add: wealth_def distrib_left sum.distrib)
qed

lemma wealth_took:
  assumes "took R h i m h'" "stackable (type_of (rule_types R) (th_item (things h i)))"
  shows "wealth tab (rule_types R) h = wealth tab (rule_types R) h' + unat (worth_of tab (item_id (th_item (things h i)))) * unat m"
proof -
  let ?x = "th_item (things h i)"
  have "wealth tab (rule_types R) h = (\<Sum>n\<in>UNIV. unat (worth_of tab n) * units (rule_types R) h' n +
      (if item_id ?x = n then unat (worth_of tab (item_id ?x)) * unat m else 0))"
    unfolding wealth_def
  proof (rule sum.cong)
    fix n
    have "units (rule_types R) h n = units (rule_types R) h' n + amount R ?x m n" using assms(1) by (simp add: took_def)
    moreover have "amount R ?x m n = (if item_id ?x = n then unat m else 0)" using assms(2) by (auto simp: amount_def type_of_def)
    ultimately show "unat (worth_of tab n) * units (rule_types R) h n = unat (worth_of tab n) * units (rule_types R) h' n +
        (if item_id ?x = n then unat (worth_of tab (item_id ?x)) * unat m else 0)" by (simp add: distrib_left)
  qed simp
  then show ?thesis by (simp add: sum.distrib wealth_def)
qed

section \<open>Exact payment\<close>

text \<open>The currency stacks, and a full stack is worth less than \<open>2 ^ 32\<close>; items can be removed.\<close>

definition sound_money :: "rules \<Rightarrow> (u16 \<times> u64) list \<Rightarrow> bool" where
  "sound_money R decls \<longleftrightarrow> good_currency decls \<and> stock_types R \<and> (\<forall>i. can_remove R i) \<and>
     (\<forall>(n, w) \<in> set decls. stackable (rule_types R n) \<and> unat w * 100 < 2 ^ 32)"

definition coin_at :: "currency \<Rightarrow> heap \<Rightarrow> u32 \<times> nat \<Rightarrow> bool" where
  "coin_at tab h = (\<lambda>(stack, i). (\<exists>c. th_parent (things h i) = InContainer c) \<and> stack \<noteq> 0 \<and> stack = getWorth tab (th_item (things h i)))"

lemma coin_value:
  assumes "sound_money R decls" "tab = currency_of decls" "stock_ok R ammo h" "getWorth tab (th_item (things h i)) \<noteq> 0"
  defines "x \<equiv> th_item (things h i)"
  shows "stackable (type_of (rule_types R) x)" "item_count x \<noteq> 0"
    "unat (getWorth tab x) = unat (worth_of tab (item_id x)) * unat (item_count x)" "unat (worth_of tab (item_id x)) < 2 ^ 32"
    "0 < worth_of tab (item_id x)"
proof -
  have w: "worth_of tab (item_id x) \<noteq> 0" using assms(4) by (auto simp: getWorth_def x_def)
  have d: "distinct (map fst decls)" using assms(1) by (simp add: sound_money_def good_currency_def)
  then have "(item_id x, worth_of tab (item_id x)) \<in> set decls"
    using currency_of_ok [OF d] assms(2) w by (auto simp: currency_ok_def)
  then have s: "stackable (rule_types R (item_id x))" and small: "unat (worth_of tab (item_id x)) * 100 < 2 ^ 32"
    using assms(1) by (auto simp: sound_money_def)
  show st: "stackable (type_of (rule_types R) x)" using s by (simp add: type_of_def)
  show "item_count x \<noteq> 0" using assms(4) by (auto simp: getWorth_def x_def)
  have "unat (item_count x) \<le> 100" using stock_okD(5) [OF assms(3), of i] st by (simp add: x_def word_le_nat_alt)
  then have "unat (worth_of tab (item_id x)) * unat (item_count x) \<le> unat (worth_of tab (item_id x)) * 100" by (rule mult_le_mono2)
  then have bound: "unat (worth_of tab (item_id x)) * unat (item_count x) < 2 ^ 32" using small by linarith
  have "unat (ucast (item_count x) :: u64) = unat (item_count x)"
    using unat_u8_bound [of "item_count x"] by (simp add: unsigned_ucast_eq take_bit_nat_eq_self)
  then show "unat (getWorth tab x) = unat (worth_of tab (item_id x)) * unat (item_count x)"
    using bound by (simp add: getWorth_def unsigned_ucast_eq unat_word_ariths take_bit_nat_eq_self)
  show "unat (worth_of tab (item_id x)) < 2 ^ 32" using small by linarith
  show "0 < worth_of tab (item_id x)" using w by (simp add: word_gt_0)
qed

text \<open>Taking \<open>m\<close> coins off a stack\<close>

lemma remove_coins:
  assumes "sound_money R decls" "tab = currency_of decls" "stock_ok R ammo (wheap w)" "coin_at tab (wheap w) (stack, i)"
    and "m \<noteq> 0" "m \<le> ucast (item_count (itemAt w i))"
    and "m = (if cnt = -1 then ucast (item_count (itemAt w i)) else of_int cnt :: u32)"
  obtains ret w' where "internalRemoveItem R outside i cnt False 0 w = Some (ret, w')" "stock_ok R ammo (wheap w')"
    "took R (wheap w) i m (wheap w')"
    "wealth tab (rule_types R) (wheap w) = wealth tab (rule_types R) (wheap w') + unat (worth_of tab (item_id (itemAt w i))) * unat m"
proof -
  obtain c where c: "th_parent (things (wheap w) i) = InContainer c" using assms(4) by (auto simp: coin_at_def)
  have coin: "getWorth tab (th_item (things (wheap w) i)) \<noteq> 0" using assms(4) by (auto simp: coin_at_def)
  note v = coin_value [OF assms(1-3) coin]
  have "getThingIndex (wheap w) c i \<noteq> -1" using getThingIndex_in [OF stock_okD(2) [OF assms(3)]] c by simp
  then have query: "queryRemove (rule_types R) (around R) c i m (0 OR FLAG_IGNORENOTMOVEABLE) (wheap w) = Some RETURNVALUE_NOERROR"
    using assms(5,6) by (simp add: queryRemove_def Let_def itemAt_def hasBitSet_def FLAG_IGNORENOTMOVEABLE_def not_less)
  have "can_remove R i" using assms(1) by (simp add: sound_money_def)
  from internalRemoveItem_took [OF assms(3) c this assms(7) query, of outside]
  obtain w' where "internalRemoveItem R outside i cnt False 0 w = Some (RETURNVALUE_NOERROR, w')" "stock_ok R ammo (wheap w')"
    "took R (wheap w) i m (wheap w')" by metis
  then show thesis using that wealth_took [of R "wheap w" i m "wheap w'" tab] v(1) by (simp add: itemAt_def)
qed

lemma ceil_div_bounds:
  assumes "0 < v" "0 < money" "money < v * n" "v * n < 2 ^ 32" "unat m = money" "unat (w :: u32) = v"
  shows "0 < unat (ceil_div m w)" "unat (ceil_div m w) \<le> n" "money \<le> v * unat (ceil_div m w)"
    "v * unat (ceil_div m w) < money + v"
proof -
  define q where "q = (money + v - 1) div v"
  have q: "v * q \<le> money + v - 1" "money + v - 1 < v * q + v"
    using assms(1) dividend_less_times_div [of v "money + v - 1"] by (simp_all add: q_def add.commute)
  then have "v * q < v * n + v" using assms(1-3) by linarith
  then have "v * q < v * Suc n" by simp
  then have qn: "q \<le> n" unfolding mult_less_cancel1 by simp
  have "v * n \<ge> n" using assms(1) by simp
  then have small: "q < 2 ^ 32" using qn assms(4) by linarith
  have "unat w < 2 ^ LENGTH(32)" by (rule unsigned_less)
  then have "v < 2 ^ 32" using assms(6) by simp
  then have sum: "unat (m + ucast w - 1) = money + v - 1"
    using assms(1-6) by (simp add: unat_word_ariths unat_ucast_u32 unat_sub_if_size word_size)
  have "unat (ucast w :: u64) = v" by (simp only: unat_ucast_u32 assms(6))
  then have "unat ((m + ucast w - 1) div ucast w) = q" by (simp add: unat_div sum q_def)
  then have "unat (ceil_div m w) = take_bit 32 q" unfolding ceil_div_def by (simp only: unsigned_ucast_eq len_num1 len_bit0 len_bit1) simp
  then have "unat (ceil_div m w) = q" using small by (simp add: take_bit_nat_eq_self)
  then show "0 < unat (ceil_div m w)" "unat (ceil_div m w) \<le> n" "money \<le> v * unat (ceil_div m w)"
    "v * unat (ceil_div m w) < money + v"
    using q qn assms(1,2) by (auto intro: gr0I)
qed

text \<open>Giving change for a stack leaves the stack as it is.\<close>

lemma addMoney_ok:
  assumes "sound_money R decls" "tab = currency_of decls" "takes R ammo c (\<lambda>i. add_to cyl i flags)" "takes R ammo c (add_tile cyl)"
    and "stock_ok R ammo (wheap w)" "th_cont (things (wheap w) c) \<noteq> None" "money < 2 ^ 32"
  obtains w' where "addMoney R tab cyl money flags w = Some w'" "stock_ok R ammo (wheap w')"
    "spared {n. worth_of tab n \<le> money} (wheap w) (wheap w')"
    "wealth tab (rule_types R) (wheap w') \<le> wealth tab (rule_types R) (wheap w) + unat money"
proof -
  have good: "good_currency decls" and st: "stock_types R"
    and stack: "\<And>n. n \<in> fst ` set decls \<Longrightarrow> stackable (rule_types R n)"
    using assms(1) by (auto simp: sound_money_def)
  obtain l where l: "coins_for tab (fst ` set decls) money l"
    "\<And>w. addMoney R tab cyl money flags w = in_turn (\<lambda>(n, cnt). give_stack R cyl flags n cnt) l w"
    using addMoney_coins [OF good assms(2,7)] by blast
  have "\<forall>(n, cnt) \<in> set l. n \<in> {n. worth_of tab n \<le> money} \<and> stackable (rule_types R n) \<and> 0 < cnt \<and> cnt \<le> 100"
    using l(1) stack unfolding coins_for_def by blast
  moreover have "c < next_thing (wheap w)"
    using tree_okD(4) [OF stock_okD(2) [OF assms(5)], of c] assms(6) by (meson not_le)
  ultimately obtain w' where w': "in_turn (\<lambda>(n, cnt). give_stack R cyl flags n cnt) l w = Some w'" "stock_ok R ammo (wheap w')"
    "spared {n. worth_of tab n \<le> money} (wheap w) (wheap w')"
    "\<forall>m. units (rule_types R) (wheap w') m \<le> units (rule_types R) (wheap w) m + stack_units m l"
    using in_turn_ok [OF assms(3,4) st _ assms(5,6)] by blast
  have "(\<Sum>s\<leftarrow>l. worth_of_stack tab s) = unat money" using l(1) by (simp add: coins_for_def)
  then have "wealth tab (rule_types R) (wheap w') \<le> wealth tab (rule_types R) (wheap w) + unat money"
    using wealth_added [OF w'(4), of tab] by simp
  then show thesis using that w'(1-3) l(2) by simp
qed

text \<open>Part of a stack pays the rest, with change.\<close>

lemma pay_part:
  assumes "sound_money R decls" "tab = currency_of decls" "takes R ammo c (\<lambda>i. add_to cyl i flags)" "takes R ammo c (add_tile cyl)"
    and "stock_ok R ammo (wheap w)" "th_cont (things (wheap w) c) \<noteq> None" "coin_at tab (wheap w) (stack, i)"
    and "0 < money" "money < ucast stack"
  shows "\<exists>w'. pay R tab outside cyl flags ((stack, i) # es) money w = Some w' \<and> stock_ok R ammo (wheap w') \<and>
    wealth tab (rule_types R) (wheap w') + unat money \<le> wealth tab (rule_types R) (wheap w)"
proof -
  let ?x = "itemAt w i"
  have coin: "getWorth tab (th_item (things (wheap w) i)) \<noteq> 0" "stack = getWorth tab ?x" "\<exists>c. th_parent (things (wheap w) i) = InContainer c"
    using assms(7) by (auto simp: coin_at_def itemAt_def)
  define v n where "v = unat (worth_of tab (item_id ?x))" and "n = unat (item_count ?x)"
  note val = coin_value [OF assms(1,2,5) coin(1), folded itemAt_def]
  have vn: "unat stack = v * n" "0 < v" "n \<noteq> 0" "v * n < 2 ^ 32" "n \<le> 100" "n < 256"
  proof -
    have "unat stack < 2 ^ LENGTH(32)" by (rule unsigned_less)
    then show "v * n < 2 ^ 32" using val(3) coin(2) by (simp add: v_def n_def)
    show "n \<le> 100" using stock_okD(5) [OF assms(5), of i] val(1) by (simp add: itemAt_def n_def word_le_nat_alt)
    then show "n < 256" by simp
  qed (use val coin(2) in \<open>simp_all add: v_def n_def unat_gt_0 unat_eq_0 word_gt_0\<close>)
  have m: "0 < unat money" "unat money < v * n"
    using assms(8,9) vn(1) unat_ucast_u32 [of stack] by (simp_all add: word_less_nat_alt)
  have cnt: "unat (ucast (item_count ?x) :: u32) = n" using vn(6) by (simp add: unsigned_ucast_eq take_bit_nat_eq_self n_def)
  define worth where "worth = stack div ucast (item_count ?x)"
  have worth: "unat worth = v" using vn(1,3) cnt by (simp add: worth_def unat_div)
  then have worth0: "worth \<noteq> 0" using vn(2) by auto
  define r where "r = ceil_div money worth"
  note bounds = ceil_div_bounds [OF vn(2) m vn(4) refl worth, folded r_def]
  have vr: "v * unat r < 2 ^ 32" using bounds(2) vn(4) mult_le_mono2 [of "unat r" n v] by linarith
  then have full: "unat (ucast (worth * r) :: u64) = v * unat r"
    unfolding unat_ucast_u32 using worth by (simp add: unat_word_ariths)
  define change where "change = ucast (worth * r) - money"
  have change: "unat change = v * unat r - unat money"
    using full bounds(3) by (simp add: change_def unat_sub word_le_nat_alt)
  have less: "unat change < v" using change bounds(4) vn(2) by linarith
  then have "unat change < 2 ^ 32" using val(4) by (simp add: v_def)
  then have "change < 2 ^ 32" by (simp add: word_less_nat_alt)
  then obtain w1 where w1: "addMoney R tab cyl change flags w = Some w1" "stock_ok R ammo (wheap w1)"
    "spared {n. worth_of tab n \<le> change} (wheap w) (wheap w1)"
    "wealth tab (rule_types R) (wheap w1) \<le> wealth tab (rule_types R) (wheap w) + unat change"
    using addMoney_ok [OF assms(1-6)] by blast
  have "\<not> worth_of tab (item_id ?x) \<le> change" using less by (simp add: v_def word_le_nat_alt)
  moreover have "i < next_thing (wheap w)" using tree_bound [OF stock_okD(2) [OF assms(5)], of i] coin(3) by auto
  ultimately have same: "itemAt w1 i = ?x" "th_parent (things (wheap w1) i) = th_parent (things (wheap w) i)"
    using w1(3) by (simp_all add: spared_def itemAt_def)
  then have at: "coin_at tab (wheap w1) (stack, i)" using assms(7) by (auto simp: coin_at_def itemAt_def)
  have r: "r \<noteq> 0" "r \<le> ucast (item_count (itemAt w1 i))"
    using bounds(1,2) cnt same(1) by (auto simp: word_le_nat_alt)
  have "int (unat r) \<le> 100" using bounds(2) vn(5) by linarith
  then have "uint r \<le> 100" unfolding of_nat_unat .
  then have "\<not> sint r < 0" by (simp add: sint_neg_u32)
  then have "sint r \<noteq> -1" by auto
  then have "r = (if sint r = -1 then ucast (item_count (itemAt w1 i)) else of_int (sint r))" by simp
  from remove_coins [OF assms(1,2) w1(2) at r this, of outside]
  obtain ret w2 where w2: "internalRemoveItem R outside i (sint r) False 0 w1 = Some (ret, w2)" "stock_ok R ammo (wheap w2)"
    "wealth tab (rule_types R) (wheap w1) = wealth tab (rule_types R) (wheap w2) + v * unat r"
    unfolding same(1) v_def by blast
  have "item_count ?x \<noteq> 0" "\<not> ucast stack < money" using val(2) assms(9) by auto
  then have "pay R tab outside cyl flags ((stack, i) # es) money w = Some w2"
    using assms(9) worth0 w1(1) w2(1) by (simp add: Let_def worth_def [symmetric] r_def [symmetric] change_def [symmetric])
  moreover have "wealth tab (rule_types R) (wheap w2) + unat money \<le> wealth tab (rule_types R) (wheap w)"
    using w1(4) w2(3) change bounds(3) by linarith
  ultimately show ?thesis using w2(2) by blast
qed

lemma coin_at_took:
  assumes "took R h i m h'" "coin_at tab h (s, j)" "j \<noteq> i"
  shows "coin_at tab h' (s, j)"
proof -
  have "th_parent (things h' j) = th_parent (things h j)" "th_item (things h' j) = th_item (things h j)"
    using assms(1,3) by (simp_all add: took_def)
  then show ?thesis using assms(2) by (auto simp: coin_at_def)
qed

lemma pay_ok:
  assumes "sound_money R decls" "tab = currency_of decls" "takes R ammo c (\<lambda>i. add_to cyl i flags)" "takes R ammo c (add_tile cyl)"
    and "stock_ok R ammo (wheap w)" "th_cont (things (wheap w) c) \<noteq> None"
    and "distinct (map snd es)" "\<forall>e \<in> set es. coin_at tab (wheap w) e"
    and "0 < money" "unat money \<le> (\<Sum>e\<leftarrow>es. unat (fst e))"
  shows "\<exists>w'. pay R tab outside cyl flags es money w = Some w' \<and> stock_ok R ammo (wheap w') \<and>
    wealth tab (rule_types R) (wheap w') + unat money \<le> wealth tab (rule_types R) (wheap w)"
  using assms(5-10)
proof (induction es arbitrary: w money)
  case Nil
  then show ?case by (simp add: word_less_nat_alt)
next
  case (Cons e es)
  obtain stack i where e: "e = (stack, i)" by (cases e)
  have at: "coin_at tab (wheap w) (stack, i)" using Cons.prems(4) e by simp
  then have coin: "getWorth tab (th_item (things (wheap w) i)) \<noteq> 0" "stack = getWorth tab (itemAt w i)"
    by (auto simp: coin_at_def itemAt_def)
  note val = coin_value [OF assms(1,2) Cons.prems(1) coin(1), folded itemAt_def]
  show ?case
  proof (cases "money < ucast stack")
    case True
    then show ?thesis
      using pay_part [OF assms(1-4) Cons.prems(1,2) at Cons.prems(5) True] e by blast
  next
    case False
    have some: "ucast (item_count (itemAt w i)) \<noteq> (0 :: u32)" using val(2) by (simp add: unat_eq_0 [symmetric])
    obtain ret w1 where w1: "internalRemoveItem R outside i (-1) False 0 w = Some (ret, w1)" "stock_ok R ammo (wheap w1)"
      "took R (wheap w) i (ucast (item_count (itemAt w i))) (wheap w1)"
      "wealth tab (rule_types R) (wheap w) = wealth tab (rule_types R) (wheap w1) +
        unat (worth_of tab (item_id (itemAt w i))) * unat (ucast (item_count (itemAt w i)) :: u32)"
      using remove_coins [OF assms(1,2) Cons.prems(1) at some order_refl, of "-1" outside] by auto
    have "unat (ucast (item_count (itemAt w i)) :: u32) = unat (item_count (itemAt w i))"
      using unat_u8_bound [of "item_count (itemAt w i)"] by (simp add: unsigned_ucast_eq take_bit_nat_eq_self)
    then have lost: "wealth tab (rule_types R) (wheap w) = wealth tab (rule_types R) (wheap w1) + unat stack"
      using w1(4) val(3) coin(2) by simp
    show ?thesis
    proof (cases "money = ucast stack")
      case True
      then show ?thesis using w1(1,2) lost unat_ucast_u32 [of stack] by (simp add: e)
    next
      case False
      then have more: "ucast stack < money" using \<open>\<not> money < ucast stack\<close> by simp
      then have left: "unat (money - ucast stack) = unat money - unat stack" "unat stack < unat money"
        using unat_ucast_u32 [of stack] by (simp_all add: unat_sub word_less_nat_alt word_le_nat_alt)
      have coins: "\<forall>f \<in> set es. coin_at tab (wheap w1) f"
        using Cons.prems(3,4) coin_at_took [OF w1(3)] by (force simp: e)
      have there: "th_cont (things (wheap w1) c) \<noteq> None" using w1(3) Cons.prems(2) by (simp add: took_def)
      have apart: "distinct (map snd es)" using Cons.prems(3) by simp
      have due: "0 < money - ucast stack" using left by (simp add: word_less_nat_alt)
      have enough: "unat (money - ucast stack) \<le> (\<Sum>e\<leftarrow>es. unat (fst e))" using Cons.prems(6) left by (simp add: e)
      obtain w2 where "pay R tab outside cyl flags es (money - ucast stack) w1 = Some w2" "stock_ok R ammo (wheap w2)"
        "wealth tab (rule_types R) (wheap w2) + unat (money - ucast stack) \<le> wealth tab (rule_types R) (wheap w1)"
        using Cons.IH [OF w1(2) there apart coins due enough] by blast
      then show ?thesis using more w1(1) lost left by (simp add: e)
    qed
  qed
qed

section \<open>Paying from a container\<close>

definition held :: "currency \<Rightarrow> heap \<Rightarrow> nat \<Rightarrow> nat" where
  "held tab h c = (\<Sum>i | (c, i) \<in> (holds h)\<^sup>+ \<and> th_cont (things h i) = None. unat (getWorth tab (th_item (things h i))))"

lemma moneyCount_sum:
  assumes "length l \<le> 2 ^ 32"
  shows "unat (moneyCount l) = (\<Sum>e\<leftarrow>l. unat (fst e))"
proof -
  have bound: "(\<Sum>e\<leftarrow>l. unat (fst e)) \<le> length l * (2 ^ 32 - 1)" for l :: "(u32 \<times> nat) list"
  proof (induction l)
    case (Cons e l)
    have "unat (fst e) < 2 ^ LENGTH(32)" by (rule unsigned_less)
    then show ?case using Cons.IH by simp
  qed simp
  have "length l * (2 ^ 32 - 1) < (2 :: nat) ^ 64"
  proof -
    have "length l * (2 ^ 32 - 1) \<le> 2 ^ 32 * (2 ^ 32 - 1 :: nat)" by (rule mult_le_mono1 [OF assms])
    then show ?thesis by simp
  qed
  then have "(\<Sum>e\<leftarrow>l. unat (fst e)) < 2 ^ 64" using bound [of l] by linarith
  then show ?thesis
  proof (induction l)
    case (Cons e l)
    then have "unat (moneyCount l) = (\<Sum>e\<leftarrow>l. unat (fst e))" by simp
    then show ?case
      using Cons.prems unat_ucast_u32 [of "fst e"] by (simp add: moneyCount_def unat_word_ariths del: unsigned_ucast_eq)
  qed (simp add: moneyCount_def)
qed

lemma held_coins:
  assumes "distinct (map snd l)" "set l = coin_entries tab h {i. (c, i) \<in> (holds h)\<^sup>+}" "tree_ok h"
  shows "(\<Sum>e\<leftarrow>l. unat (fst e)) = held tab h c" "length l \<le> next_thing h"
proof -
  let ?S = "{i. (c, i) \<in> (holds h)\<^sup>+ \<and> th_cont (things h i) = None}"
  have below: "i < next_thing h" if "(c, i) \<in> (holds h)\<^sup>+" for i
    using tranclD2 [OF that] tree_bound [OF assms(3), of i] by (auto simp: holds_def)
  then have fin: "finite ?S" by (intro finite_subset [of ?S "{..<next_thing h}"]) auto
  have inj: "distinct l" "inj_on snd (set l)" using assms(1) by (simp_all add: distinct_map)
  have img: "snd ` set l = {i \<in> ?S. getWorth tab (th_item (things h i)) \<noteq> 0}"
    using assms(2) by (force simp: coin_entries_def)
  have "(\<Sum>e\<leftarrow>l. unat (fst e)) = (\<Sum>e\<in>set l. unat (fst e))" using inj(1) by (simp add: sum_list_distinct_conv_sum_set)
  also have "\<dots> = (\<Sum>e\<in>set l. unat (getWorth tab (th_item (things h (snd e)))))"
    by (rule sum.cong) (auto simp: assms(2) coin_entries_def)
  also have "\<dots> = (\<Sum>i\<in>snd ` set l. unat (getWorth tab (th_item (things h i))))" using inj(2) by (simp add: sum.reindex)
  also have "\<dots> = held tab h c" unfolding held_def img by (rule sum.mono_neutral_left) (use fin in auto)
  finally show "(\<Sum>e\<leftarrow>l. unat (fst e)) = held tab h c" .
  have "length l = card (set (map snd l))" using distinct_card [OF assms(1)] by simp
  also have "\<dots> \<le> card {..<next_thing h}" using img below by (intro card_mono) auto
  finally show "length l \<le> next_thing h" by simp
qed

lemma coins_seen_at:
  assumes "tree_ok h" "e \<in> coin_entries tab h {i. (c, i) \<in> (holds h)\<^sup>+}"
  shows "coin_at tab h e"
  using assms(2) by (auto simp: coin_entries_def coin_at_def holds_def dest: tranclD2)

text \<open>C38: Paying out of a container, with a sound currency, at most \<open>2 ^ 32\<close> items in all and a tile that takes what does
  not fit: \<open>removeMoney\<close> returns, and says yes exactly if the coins inside, at any depth, are worth the amount, which is
  what \<open>getMoney\<close> counts as well.  A refusal changes nothing.  After a payment all items together are worth less than
  before by the amount at least: stacks are counted once, no removal is refused, and the change that is made first
  never touches the stack it is made for.\<close>

theorem payment_not_cheaper:
  assumes "sound_money R decls" "stock_ok R ammo (wheap w)" "th_cont (things (wheap w) c) \<noteq> None"
    and "next_thing (wheap w) \<le> 2 ^ 32" "takes R ammo c tile"
    and "\<not> hasBitSet FLAG_IGNOREAUTOSTACK flags" "\<not> hasBitSet FLAG_CHILDISOWNER flags" "\<not> hasBitSet FLAG_NOLIMIT flags"
  shows "\<exists>paid w'. removeMoney R (currency_of decls) outside (Some (container_cylinder R c tile (wheap w))) money flags w = Some (paid, w') \<and>
    (paid \<longleftrightarrow> unat money \<le> held (currency_of decls) (wheap w) c) \<and> (\<not> paid \<longrightarrow> w' = w) \<and> stock_ok R ammo (wheap w') \<and>
    (paid \<longrightarrow> wealth (currency_of decls) (rule_types R) (wheap w') + unat money \<le> wealth (currency_of decls) (rule_types R) (wheap w)) \<and>
    getMoney (currency_of decls) (wheap w) (map Some (itemlist (the_cont (wheap w) c))) =
      Some (of_nat (held (currency_of decls) (wheap w) c))"
proof -
  let ?h = "wheap w" and ?tab = "currency_of decls" and ?cyl = "container_cylinder R c tile (wheap w)"
  note ok = stock_okD(2) [OF assms(2)]
  have st: "stock_types R" using assms(1) by (simp add: sound_money_def)
  obtain l where l: "all_coins ?tab ?h (children ?h c) = Some l" "distinct (map snd l)"
    "set l = coin_entries ?tab ?h {i. (c, i) \<in> (holds ?h)\<^sup>+}"
    "getMoney ?tab ?h (map Some (children ?h c)) = Some (moneyCount l)"
  proof -
    have "map the (filter (\<lambda>s. s \<noteq> None) (map Some (children ?h c))) = children ?h c" by (induction "children ?h c") auto
    then show thesis
      using all_coins_seen [OF ok forest_children [OF ok, of c], of ?tab] below_contents [OF ok, of c] that by metis
  qed
  note sum = held_coins [OF l(2,3) ok]
  have count: "unat (moneyCount l) = held ?tab ?h c" using moneyCount_sum [of l] sum assms(4) by simp
  then have money: "moneyCount l = of_nat (held ?tab ?h c)" by (simp flip: count)
  define es where "es = sort_key fst l"
  have es: "distinct (map snd es)" "\<forall>e \<in> set es. coin_at ?tab ?h e" "(\<Sum>e\<leftarrow>es. unat (fst e)) = held ?tab ?h c"
  proof -
    have m: "mset es = mset l" by (simp add: es_def)
    then have "mset (map snd es) = mset (map snd l)" by simp
    then show "distinct (map snd es)" using l(2) by (metis mset_eq_imp_distinct_iff)
    show "\<forall>e \<in> set es. coin_at ?tab ?h e" using coins_seen_at [OF ok] l(3) by (simp add: es_def)
    have "mset (map (unat \<circ> fst) es) = mset (map (unat \<circ> fst) l)" using m by simp
    then show "(\<Sum>e\<leftarrow>es. unat (fst e)) = held ?tab ?h c" using sum(1) by (metis (no_types, lifting) comp_def map_eq_conv sum_mset_sum_list)
  qed
  have takes: "takes R ammo c (\<lambda>i. add_to ?cyl i flags)" "takes R ammo c (add_tile ?cyl)"
    using container_takes [OF st assms(6-8)] assms(5) by (simp_all add: container_cylinder_def)
  consider "money = 0" | "moneyCount l < money" | "0 < money" "\<not> moneyCount l < money" by (auto simp: word_gt_0)
  then show ?thesis
  proof cases
    case 1
    then show ?thesis using assms(2) l(4) money by (intro exI [of _ True] exI [of _ w]) (simp add: removeMoney_def)
  next
    case 2
    then have "held ?tab ?h c < unat money" "money \<noteq> 0" using count by (auto simp: word_less_nat_alt)
    then show ?thesis using 2 assms(2) l(1,4) money
      by (intro exI [of _ False] exI [of _ w]) (simp add: removeMoney_def container_cylinder_def)
  next
    case 3
    then have enough: "unat money \<le> (\<Sum>e\<leftarrow>es. unat (fst e))" using count es(3) by (simp add: word_less_nat_alt)
    obtain w' where w': "pay R ?tab outside ?cyl flags es money w = Some w'" "stock_ok R ammo (wheap w')"
      "wealth ?tab (rule_types R) (wheap w') + unat money \<le> wealth ?tab (rule_types R) ?h"
      using pay_ok [OF assms(1) refl takes assms(2,3) es(1,2) 3(1) enough] by blast
    moreover have "money \<noteq> 0" using 3(1) by (simp add: word_gt_0)
    moreover have "slots ?cyl = children ?h c" by (simp add: container_cylinder_def)
    ultimately show ?thesis using 3(2) l(1,4) money enough es(3)
      by (intro exI [of _ True] exI [of _ w']) (simp add: removeMoney_def es_def [symmetric])
  qed
qed

theorem payment_not_cheaper_witness:
  "\<exists>w paid w'. next_thing (wheap w) = 2 \<and>
     removeMoney market (currency_of [(2, 1)]) (\<lambda>w. None)
       (Some (container_cylinder market 0 (\<lambda>_ w. Some (RETURNVALUE_NOTPOSSIBLE, w)) (wheap w))) 20 0 w = Some (paid, w') \<and>
     (paid \<longleftrightarrow> 20 \<le> held (currency_of [(2, 1)]) (wheap w) 0)"
proof -
  obtain h where h: "stock_ok market True h" "inserted bag_and_coins 0 1 [1] h" using market_bag by blast
  define w where "w = \<lparr>wheap = h, toDecayItems = [], decayItems = [], uniqueItems = Map.empty, posts = []\<rparr>"
  have money: "sound_money market [(2, 1)]"
    using market_types by (simp add: sound_money_def good_currency_def) (simp add: market_def)
  have tile: "takes market True 0 (\<lambda>_ w. Some (RETURNVALUE_NOTPOSSIBLE, w))" by (simp add: takes_def)
  have two: "next_thing (wheap w) = 2" using h(2) by (simp add: w_def inserted_def bag_and_coins_simps)
  have w: "stock_ok market True (wheap w)" "th_cont (things (wheap w) 0) \<noteq> None" "next_thing (wheap w) \<le> 2 ^ 32"
    "\<not> hasBitSet FLAG_IGNOREAUTOSTACK 0" "\<not> hasBitSet FLAG_CHILDISOWNER 0" "\<not> hasBitSet FLAG_NOLIMIT 0"
    using h two by (simp_all add: w_def inserted_def bag_and_coins_simps hasBitSet_def)
  from payment_not_cheaper [OF money w(1-3) tile w(4-6), of "\<lambda>w. None" 20] obtain paid w' where
    "removeMoney market (currency_of [(2, 1)]) (\<lambda>w. None)
       (Some (container_cylinder market 0 (\<lambda>_ w. Some (RETURNVALUE_NOTPOSSIBLE, w)) (wheap w))) 20 0 w = Some (paid, w')"
    "paid \<longleftrightarrow> unat (20 :: u64) \<le> held (currency_of [(2, 1)]) (wheap w) 0" by blast
  then show ?thesis using two by (intro exI [of _ w] exI [of _ paid] exI [of _ w']) simp
qed

end
