(* ===== verification/Decay.thy ===== *)
theory Decay
  imports Prelude "HOL-Library.Monad_Syntax"
begin

text \<open>
  Items that decay, \<open>src/src/game.cpp\<close>: a wheel of four lists of which one is looked at every 250 milliseconds, so that
  each comes up once a second.  What becomes of an item that has decayed (\<open>transformItem\<close> and \<open>internalRemoveItem\<close>) is the
  record \<open>decay_env\<close>.  Two lists are a record of the run: \<open>decayed\<close> are the items for which \<open>internalDecayItem\<close> was called,
  \<open>given_up\<close> those that could not decay when their list came up and were taken out of it.
\<close>

section \<open>The wheel\<close>

definition EVENT_DECAYINTERVAL :: int where "EVENT_DECAYINTERVAL = 250"
definition EVENT_DECAY_BUCKETS :: nat where "EVENT_DECAY_BUCKETS = 4"

record wheel =
  durations :: "nat \<Rightarrow> u32"
  decaying :: "nat \<Rightarrow> bool"
  can_decay :: "nat \<Rightarrow> bool"
  buckets :: "nat \<Rightarrow> nat list"
  lastBucket :: nat
  toDecay :: "nat list"
  toRelease :: "nat list"
  decayed :: "nat list"
  given_up :: "nat list"

record decay_env =
  decays_into :: "nat \<Rightarrow> wheel \<Rightarrow> int"
  transform_item :: "nat \<Rightarrow> wheel \<Rightarrow> nat option \<times> wheel"
  remove_item :: "nat \<Rightarrow> wheel \<Rightarrow> wheel"

definition release_item :: "nat \<Rightarrow> wheel \<Rightarrow> wheel" where
  "release_item i w = w\<lparr>toRelease := toRelease w @ [i]\<rparr>"

definition put_bucket :: "nat \<Rightarrow> nat list \<Rightarrow> wheel \<Rightarrow> wheel" where
  "put_bucket b is w = w\<lparr>buckets := (buckets w)(b := is)\<rparr>"

text \<open>\<open>startDecay\<close> and \<open>internalDecayItem\<close> call each other: an item without duration decays at once.\<close>

definition start_with :: "(nat \<Rightarrow> wheel \<Rightarrow> wheel option) \<Rightarrow> nat option \<Rightarrow> wheel \<Rightarrow> wheel option" where
  "start_with decay item w =
     (case item of None \<Rightarrow> Some w
      | Some i \<Rightarrow>
          if \<not> can_decay w i then Some w
          else if decaying w i then Some w
          else if durations w i > 0 then Some (w\<lparr>decaying := (decaying w)(i := True), toDecay := i # toDecay w\<rparr>)
          else decay i w)"

lemma start_with_mono [partial_function_mono]:
  "(\<And>i w. mono_option (\<lambda>f. D f i w)) \<Longrightarrow> mono_option (\<lambda>f. start_with (D f) item w)"
  unfolding start_with_def by (cases item) (auto intro!: partial_function_mono)

partial_function (option) internalDecayItem :: "decay_env \<Rightarrow> nat \<Rightarrow> wheel \<Rightarrow> wheel option" where
  "internalDecayItem E i w =
     (let w = w\<lparr>decayed := decayed w @ [i]\<rparr>
      in if decays_into E i w \<noteq> 0 then
           let (newItem, w) = transform_item E i w in start_with (\<lambda>j. internalDecayItem E j) newItem w
         else Some (remove_item E i w))"

definition startDecay :: "decay_env \<Rightarrow> nat option \<Rightarrow> wheel \<Rightarrow> wheel option" where
  "startDecay E item w = start_with (internalDecayItem E) item w"

section \<open>A turn of the wheel\<close>

text \<open>One item of bucket \<open>b\<close>; \<open>erase\<close> takes it out of the list.  The result says whether the item stays.\<close>

fun check_items :: "decay_env \<Rightarrow> nat \<Rightarrow> nat list \<Rightarrow> nat list \<Rightarrow> wheel \<Rightarrow> wheel option" where
  "check_items E b kept [] w = Some w"
| "check_items E b kept (i # rest) w =
     (if \<not> can_decay w i then
        check_items E b kept rest
          (put_bucket b (kept @ rest) (release_item i (w\<lparr>decaying := (decaying w)(i := False), given_up := given_up w @ [i]\<rparr>)))
      else
        let duration = sint (durations w i);
            decreaseTime = min (EVENT_DECAYINTERVAL * int EVENT_DECAY_BUCKETS) duration;
            duration = duration - decreaseTime;
            w = w\<lparr>durations := (durations w)(i := durations w i - of_int decreaseTime)\<rparr>
        in if duration \<le> 0 then do {
             w \<leftarrow> internalDecayItem E i (put_bucket b (kept @ rest) w);
             check_items E b kept rest (release_item i w)
           }
           else if duration < EVENT_DECAYINTERVAL * int EVENT_DECAY_BUCKETS then
             let w = put_bucket b (kept @ rest) w;
                 newBucket = (b + nat ((duration + EVENT_DECAYINTERVAL div 2) div 1000)) mod EVENT_DECAY_BUCKETS
             in if newBucket = b then do {
                  w \<leftarrow> internalDecayItem E i w;
                  check_items E b kept rest (release_item i w)
                }
                else check_items E b kept rest (put_bucket newBucket (buckets w newBucket @ [i]) w)
           else check_items E b (kept @ [i]) rest w)"

definition to_bucket :: "nat \<Rightarrow> wheel \<Rightarrow> wheel" where
  "to_bucket i w =
     (let dur = durations w i;
          b = (if uint dur \<ge> EVENT_DECAYINTERVAL * int EVENT_DECAY_BUCKETS then lastBucket w
               else (lastBucket w + 1 + unat (dur div 1000)) mod EVENT_DECAY_BUCKETS)
      in put_bucket b (buckets w b @ [i]) w)"

definition cleanup :: "wheel \<Rightarrow> wheel" where
  "cleanup w = (fold to_bucket (toDecay w) (w\<lparr>toRelease := []\<rparr>))\<lparr>toDecay := []\<rparr>"

definition checkDecay :: "decay_env \<Rightarrow> wheel \<Rightarrow> wheel option" where
  "checkDecay E w =
     (let b = (lastBucket w + 1) mod EVENT_DECAY_BUCKETS
      in map_option (\<lambda>w. cleanup (w\<lparr>lastBucket := b\<rparr>)) (check_items E b [] (buckets w b) w))"

section \<open>The other items\<close>

text \<open>A step does not touch the duration of the item \<open>i\<close> nor its place in the lists.  With \<open>s\<close> it also leaves the item able
  to decay or not, as it was; without \<open>s\<close> this may change: a container that decays away takes what it holds with it, so that
  the items in it can no longer decay.\<close>

definition leaves :: "bool \<Rightarrow> nat \<Rightarrow> wheel \<Rightarrow> wheel \<Rightarrow> bool" where
  "leaves s i w w' \<longleftrightarrow> durations w' i = durations w i \<and> (s \<longrightarrow> can_decay w' i = can_decay w i) \<and> lastBucket w' = lastBucket w \<and>
     (i \<in> set (toDecay w') \<longleftrightarrow> i \<in> set (toDecay w)) \<and> (i \<in> set (decayed w') \<longleftrightarrow> i \<in> set (decayed w)) \<and>
     (i \<in> set (given_up w') \<longleftrightarrow> i \<in> set (given_up w)) \<and> (\<forall>c. count_list (buckets w' c) i = count_list (buckets w c) i)"

lemma leaves_refl [simp]: "leaves s i w w"
  by (simp add: leaves_def)

lemma leaves_trans: "leaves s i w w' \<Longrightarrow> leaves s i w' w'' \<Longrightarrow> leaves s i w w''"
  by (simp add: leaves_def)

text \<open>What becomes of other items leaves \<open>i\<close> so, and an item that is made by decay has a duration if it decays.\<close>

definition harmless :: "bool \<Rightarrow> decay_env \<Rightarrow> nat \<Rightarrow> bool" where
  "harmless s E i \<longleftrightarrow>
     (\<forall>j w. buckets (snd (transform_item E j w)) = buckets w \<and> buckets (remove_item E j w) = buckets w \<and>
        given_up (snd (transform_item E j w)) = given_up w \<and> given_up (remove_item E j w) = given_up w \<and>
        set (decayed w) \<subseteq> set (decayed (snd (transform_item E j w))) \<and> set (decayed w) \<subseteq> set (decayed (remove_item E j w)) \<and>
        (j \<noteq> i \<longrightarrow> fst (transform_item E j w) \<noteq> Some i \<and> leaves s i w (snd (transform_item E j w)) \<and> leaves s i w (remove_item E j w)) \<and>
        (\<forall>k. fst (transform_item E j w) = Some k \<longrightarrow>
           durations (snd (transform_item E j w)) k > 0 \<or> \<not> can_decay (snd (transform_item E j w)) k))"

lemma start_with_ok:
  assumes "\<And>k. item = Some k \<Longrightarrow> durations w k > 0 \<or> \<not> can_decay w k"
  obtains w' where "start_with D item w = Some w'" "buckets w' = buckets w" "decayed w' = decayed w"
    "given_up w' = given_up w" "item \<noteq> Some i \<Longrightarrow> leaves s i w w'"
proof (cases item)
  case (Some k)
  then show thesis using that assms
    by (cases "can_decay w k"; cases "decaying w k") (auto simp: start_with_def leaves_def)
qed (use that in \<open>simp add: start_with_def\<close>)

lemma internalDecayItem_ok:
  assumes "harmless s E i"
  obtains w' where "internalDecayItem E j w = Some w'" "buckets w' = buckets w" "set (decayed w) \<union> {j} \<subseteq> set (decayed w')"
    "given_up w' = given_up w" "j \<noteq> i \<Longrightarrow> leaves s i w w'"
proof -
  define v where "v = w\<lparr>decayed := decayed w @ [j]\<rparr>"
  have v: "buckets v = buckets w" "set (decayed v) = set (decayed w) \<union> {j}" "j \<noteq> i \<Longrightarrow> leaves s i w v" "given_up v = given_up w"
    by (auto simp: v_def leaves_def)
  obtain k x where x: "transform_item E j v = (k, x)" by (cases "transform_item E j v")
  have env: "buckets x = buckets v" "buckets (remove_item E j v) = buckets v" "set (decayed v) \<subseteq> set (decayed x)"
    "set (decayed v) \<subseteq> set (decayed (remove_item E j v))" "j \<noteq> i \<Longrightarrow> k \<noteq> Some i \<and> leaves s i v x \<and> leaves s i v (remove_item E j v)"
    "\<And>l. k = Some l \<Longrightarrow> durations x l > 0 \<or> \<not> can_decay x l" "given_up x = given_up v" "given_up (remove_item E j v) = given_up v"
    using assms [unfolded harmless_def, rule_format, of j v] x by auto
  obtain y where y: "start_with (\<lambda>j. internalDecayItem E j) k x = Some y" "buckets y = buckets x" "decayed y = decayed x"
    "given_up y = given_up x" "k \<noteq> Some i \<Longrightarrow> leaves s i x y"
    using start_with_ok [OF env(6), of k "\<lambda>j. internalDecayItem E j" i s] by blast
  have "internalDecayItem E j w = Some (if decays_into E j v \<noteq> 0 then y else remove_item E j v)"
    using y(1) by (subst internalDecayItem.simps) (simp add: v_def [symmetric] x Let_def)
  moreover have "leaves s i w (if decays_into E j v \<noteq> 0 then y else remove_item E j v)" if "j \<noteq> i"
    using leaves_trans [OF v(3) [OF that]] leaves_trans y(5) env(5) [OF that] by (simp add: leaves_trans [of s i v x y])
  ultimately show thesis using that env(1-4,7,8) y(2-4) v(1,2,4) by simp
qed

lemma put_bucket_simps [simp]:
  "durations (put_bucket b is w) = durations w" "can_decay (put_bucket b is w) = can_decay w" "lastBucket (put_bucket b is w) = lastBucket w"
  "toDecay (put_bucket b is w) = toDecay w" "decayed (put_bucket b is w) = decayed w" "decaying (put_bucket b is w) = decaying w"
  "given_up (put_bucket b is w) = given_up w"
  "buckets (put_bucket b is w) = (buckets w)(b := is)"
  by (simp_all add: put_bucket_def)

lemma release_item_leaves [simp]: "leaves s i w (release_item j v) = leaves s i w v" "buckets (release_item j v) = buckets v"
  "decayed (release_item j v) = decayed v" "given_up (release_item j v) = given_up v"
  by (simp_all add: leaves_def release_item_def)

text \<open>A visit to an item that can decay: its duration, what is left of it and the list it goes to\<close>

definition visited :: "nat \<Rightarrow> wheel \<Rightarrow> wheel" where
  "visited i w = w\<lparr>durations := (durations w)(i := durations w i - of_int (min 1000 (sint (durations w i))))\<rparr>"

definition left_over :: "nat \<Rightarrow> wheel \<Rightarrow> int" where
  "left_over i w = sint (durations w i) - min 1000 (sint (durations w i))"

definition next_bucket :: "nat \<Rightarrow> int \<Rightarrow> nat" where
  "next_bucket b e = (b + nat ((e + 125) div 1000)) mod 4"

lemma check_visit:
  assumes "can_decay w i"
  shows "check_items E b kept (i # rest) w =
    (let u = put_bucket b (kept @ rest) (visited i w); e = left_over i w
     in if e \<le> 0 \<or> e < 1000 \<and> next_bucket b e = b then
          Option.bind (internalDecayItem E i u) (\<lambda>w. check_items E b kept rest (release_item i w))
        else if e < 1000 then check_items E b kept rest (put_bucket (next_bucket b e) (buckets u (next_bucket b e) @ [i]) u)
        else check_items E b (kept @ [i]) rest (visited i w))"
proof -
  have c: "EVENT_DECAYINTERVAL * int EVENT_DECAY_BUCKETS = 1000" "EVENT_DECAYINTERVAL div 2 = 125" "EVENT_DECAY_BUCKETS = 4"
    by (simp_all add: EVENT_DECAYINTERVAL_def EVENT_DECAY_BUCKETS_def)
  show ?thesis
    using assms unfolding check_items.simps Let_def unfolding c(1,2)
    unfolding c(3) visited_def [symmetric] left_over_def [symmetric] next_bucket_def [symmetric]
    by (cases "left_over i w \<le> 0"; cases "left_over i w < 1000") simp_all
qed

text \<open>The items before \<open>i\<close>, or all when \<open>i\<close> is not in the list\<close>

lemma check_others:
  assumes "harmless s E i" "i \<notin> set pre" "buckets w b = kept @ pre @ rest"
  shows "\<exists>kept' w'. check_items E b kept (pre @ rest) w = check_items E b kept' rest w' \<and> buckets w' b = kept' @ rest \<and> leaves s i w w'"
  using assms(2,3)
proof (induction pre arbitrary: kept w)
  case Nil
  then show ?case by (intro exI [of _ kept] exI [of _ w]) simp
next
  case (Cons j pre)
  have j: "j \<noteq> i" "i \<notin> set pre" using Cons.prems(1) by auto
  have go_on: ?case if "check_items E b kept (j # pre @ rest) w = check_items E b kept' (pre @ rest) v"
      "buckets v b = kept' @ pre @ rest" "leaves s i w v" for kept' v
    using Cons.IH [OF j(2) that(2)] that(1,3) leaves_trans by fastforce
  define e where "e = left_over j w"
  define nb where "nb = next_bucket b e"
  define v where "v = visited j w"
  have v: "leaves s i w v" "buckets v = buckets w" using j(1) by (simp_all add: v_def visited_def leaves_def)
  define u where "u = put_bucket b (kept @ pre @ rest) v"
  have u: "leaves s i w u" "buckets u b = kept @ pre @ rest" using v Cons.prems(2) j(1) by (auto simp: u_def leaves_def)
  obtain x where x: "internalDecayItem E j u = Some x" "buckets x = buckets u" "leaves s i u x"
    using internalDecayItem_ok [OF assms(1), of j u] j(1) by metis
  have decays: "buckets (release_item j x) b = kept @ pre @ rest" "leaves s i w (release_item j x)"
    using x(2,3) u leaves_trans by auto
  note visit = check_visit [of w j E b kept "pre @ rest", folded v_def e_def, folded u_def nb_def, unfolded Let_def, folded nb_def]
  consider "\<not> can_decay w j" | "can_decay w j" "e \<le> 0 \<or> e < 1000 \<and> nb = b" | "can_decay w j" "0 < e" "e < 1000" "nb \<noteq> b"
    | "can_decay w j" "1000 \<le> e" by linarith
  then show ?case
  proof cases
    case 1
    define x where "x = put_bucket b (kept @ pre @ rest)
      (release_item j (w\<lparr>decaying := (decaying w)(j := False), given_up := given_up w @ [j]\<rparr>))"
    have "check_items E b kept (j # pre @ rest) w = check_items E b kept (pre @ rest) x" using 1 by (simp add: x_def)
    moreover have "leaves s i w x" using Cons.prems(2) j(1) by (auto simp: x_def leaves_def release_item_def)
    ultimately show ?thesis using go_on [of kept x] by (simp add: x_def)
  next
    case 2
    have "check_items E b kept (j # pre @ rest) w = check_items E b kept (pre @ rest) (release_item j x)"
      unfolding visit [OF 2(1)] using 2(2) x(1) by (simp add: u_def [symmetric])
    then show ?thesis using go_on decays by blast
  next
    case 3
    define y where "y = put_bucket nb (buckets u nb @ [j]) u"
    have "check_items E b kept (j # pre @ rest) w = check_items E b kept (pre @ rest) y"
      unfolding visit [OF 3(1)] using 3(2-4) by (simp add: u_def [symmetric] y_def)
    moreover have "leaves s i w y" using u(1) j(1) by (simp add: y_def leaves_def)
    ultimately show ?thesis using go_on [of kept y] u(2) 3(4) by (simp add: y_def)
  next
    case 4
    have "check_items E b kept (j # pre @ rest) w = check_items E b (kept @ [j]) (pre @ rest) v"
      unfolding visit [OF 4(1)] using 4(2) by simp
    then show ?thesis using go_on [of "kept @ [j]" v] v Cons.prems(2) by simp
  qed
qed

declare check_items.simps(2) [simp del]

section \<open>The item itself\<close>

text \<open>How many turns an item with \<open>d\<close> milliseconds still takes when its list comes up in \<open>v\<close> turns\<close>

definition turns_left :: "nat \<Rightarrow> nat \<Rightarrow> nat" where
  "turns_left v d = v + 4 * (max 1 (d div 1000) - 1) + (if 1000 \<le> d \<and> 875 \<le> d mod 1000 then 1 else 0)"

definition listed :: "bool \<Rightarrow> wheel \<Rightarrow> nat \<Rightarrow> bool" where
  "listed s w i \<longleftrightarrow> (s \<longrightarrow> can_decay w i) \<and> i \<notin> set (toDecay w) \<and> i \<notin> set (decayed w) \<and> i \<notin> set (given_up w)"

definition due :: "bool \<Rightarrow> wheel \<Rightarrow> nat \<Rightarrow> nat \<Rightarrow> bool" where
  "due s w i t \<longleftrightarrow> listed s w i \<and> unat (durations w i) < 2 ^ 31 \<and>
     (\<exists>v. 1 \<le> v \<and> v \<le> 4 \<and> (\<forall>c. count_list (buckets w c) i = (if c = (lastBucket w + v) mod 4 then 1 else 0)) \<and>
        t = turns_left v (unat (durations w i)))"

text \<open>An item that was given up is in no list any more.\<close>

definition dropped :: "bool \<Rightarrow> wheel \<Rightarrow> nat \<Rightarrow> bool" where
  "dropped s w i \<longleftrightarrow> \<not> s \<and> i \<in> set (given_up w) \<and> i \<notin> set (decayed w) \<and> i \<notin> set (toDecay w) \<and> (\<forall>c. i \<notin> set (buckets w c))"

lemma due_leaves: "leaves s i w w' \<Longrightarrow> due s w i t \<Longrightarrow> due s w' i t"
  by (auto simp: leaves_def due_def listed_def)

lemma dropped_leaves: "leaves s i w w' \<Longrightarrow> dropped s w i \<Longrightarrow> dropped s w' i"
  by (simp add: leaves_def dropped_def flip: count_list_0_iff)

lemma to_bucket_leaves: "j \<noteq> i \<Longrightarrow> leaves s i w (to_bucket j w)"
  by (auto simp: to_bucket_def Let_def leaves_def)

lemma fold_leaves: "i \<notin> set js \<Longrightarrow> leaves s i w (fold to_bucket js w)"
proof (induction js arbitrary: w)
  case (Cons j js)
  then show ?case using leaves_trans [OF to_bucket_leaves [of j i s w]] by auto
qed simp

lemma cleanup_leaves:
  assumes "i \<notin> set (toDecay w)"
  shows "leaves s i w (cleanup w)"
  using fold_leaves [OF assms, of s "w\<lparr>toRelease := []\<rparr>"] assms by (simp add: cleanup_def leaves_def)

text \<open>A turn in which the list of \<open>i\<close> comes up\<close>

lemma sint_small: "unat (w :: u32) < 2 ^ 31 \<Longrightarrow> sint w = int (unat w)"
proof -
  assume w: "unat w < 2 ^ 31"
  have "sint w = (uint w + 2 ^ 31) mod 2 ^ 32 - 2 ^ 31"
    by (simp add: sint_uint signed_take_bit_eq_take_bit_shift take_bit_eq_mod)
  moreover have "uint w < 2 ^ 31"
  proof -
    have "int (unat w) < int (2 ^ 31)" using w unfolding of_nat_less_iff .
    then show ?thesis unfolding of_nat_unat by simp
  qed
  ultimately have "sint w = uint w" by simp
  then show ?thesis unfolding of_nat_unat .
qed

lemma turn_of_item:
  assumes "harmless s E i" "listed s w i" "unat (durations w i) < 2 ^ 31"
    and "b < 4" "\<And>c. count_list (buckets w c) i = (if c = b then 1 else 0)"
  defines "d \<equiv> unat (durations w i)"
  shows "\<exists>w'. check_items E b [] (buckets w b) w = Some w' \<and>
    (dropped s w' i \<or>
     (if d < 1875 then i \<in> set (decayed w') \<and> i \<notin> set (given_up w')
      else listed s w' i \<and> unat (durations w' i) = d - 1000 \<and>
        (\<forall>c. count_list (buckets w' c) i = (if c = (if d < 2000 then (b + 1) mod 4 else b) then 1 else 0))))"
proof -
  have "count_list (buckets w b) i = 1" using assms(5) by simp
  then have "i \<in> set (buckets w b)" by (cases "i \<in> set (buckets w b)") simp_all
  then obtain pre post where split: "buckets w b = pre @ i # post" "i \<notin> set pre" by (metis split_list_first)
  then have post: "i \<notin> set post" using assms(5) [of b] by (simp add: count_list_0_iff)
  obtain kept w1 where w1: "check_items E b [] (pre @ i # post) w = check_items E b kept (i # post) w1"
    "buckets w1 b = kept @ i # post" "leaves s i w w1"
    using check_others [OF assms(1) split(2), of w b "[]" "i # post"] split(1) by auto
  have counts: "count_list (buckets w1 c) i = (if c = b then 1 else 0)" for c using w1(3) assms(5) by (simp add: leaves_def)
  then have "count_list (kept @ i # post) i = 1" using w1(2) by metis
  then have kept: "i \<notin> set kept" by (simp add: count_list_0_iff)
  have d: "durations w1 i = durations w i" "listed s w1 i"
    using w1(3) assms(2) by (auto simp: leaves_def listed_def)
  have go_on: "\<exists>w'. check_items E b k post x = Some w' \<and> leaves s i x w'" if "buckets x b = k @ post" for k x
    using check_others [OF assms(1) post, of x b k "[]"] that by auto
  show ?thesis
  proof (cases "can_decay w1 i")
    case False
    define x where "x = put_bucket b (kept @ post) (release_item i (w1\<lparr>decaying := (decaying w1)(i := False), given_up := given_up w1 @ [i]\<rparr>))"
    have "buckets x c = (if c = b then kept @ post else buckets w1 c)" for c by (simp add: x_def)
    then have "i \<notin> set (buckets x c)" for c using counts [of c] kept post by (simp add: count_list_0_iff split: if_splits)
    then have "dropped s x i" using d(2) False by (simp add: dropped_def listed_def x_def release_item_def)
    moreover have "check_items E b kept (i # post) w1 = check_items E b kept post x" using False by (simp add: check_items.simps(2) x_def)
    ultimately show ?thesis using go_on [of x kept] dropped_leaves split(1) w1(1) by (fastforce simp: x_def)
  next
    case True
    have sint: "sint (durations w1 i) = int d" using sint_small [OF assms(3)] by (simp add: d(1) d_def)
    then have left: "left_over i w1 = int d - min 1000 (int d)" by (simp add: left_over_def)
    define nb where "nb = next_bucket b (left_over i w1)"
    define v where "v = visited i w1"
    define u where "u = put_bucket b (kept @ post) v"
    note visit = check_visit [OF True, of E b kept post, folded v_def, folded u_def, unfolded Let_def, folded nb_def]
    have u: "buckets u b = kept @ post" "buckets u = (buckets w1)(b := kept @ post)"
      by (simp_all add: u_def v_def visited_def)
    have stays: ?thesis if "check_items E b kept (i # post) w1 = check_items E b k post x" "buckets x b = k @ post"
        "durations x i = durations w1 i - 1000" "1875 \<le> d" "can_decay x = can_decay w1" "toDecay x = toDecay w1" "decayed x = decayed w1" "given_up x = given_up w1"
        "\<And>c. count_list (buckets x c) i = (if c = (if d < 2000 then (b + 1) mod 4 else b) then 1 else 0)" for k x
    proof -
      note x = that
      obtain w' where w': "check_items E b k post x = Some w'" "leaves s i x w'" using go_on [OF x(2)] by blast
      have "(1000 :: u32) \<le> durations w1 i" using x(4) d(1) by (simp add: word_le_nat_alt d_def)
      then have "unat (durations x i) = d - 1000" using x(3) d(1) by (simp add: unat_sub d_def)
      then show ?thesis
        using w' x d split(1) w1(1) by (intro exI [of _ w']) (auto simp: leaves_def listed_def)
    qed
    consider "d < 1875" | "1875 \<le> d" "d < 2000" | "2000 \<le> d" by linarith
    then show ?thesis
    proof cases
      case 1
      have "left_over i w1 \<le> 0 \<or> left_over i w1 < 1000 \<and> nb = b"
      proof (cases "d \<le> 1000")
        case False
        then have e: "left_over i w1 = int d - 1000" using left by (simp add: min_def)
        then have "(left_over i w1 + 125) div 1000 = 0" using 1 False by simp
        then have "nb = b" using assms(4) by (simp add: nb_def next_bucket_def)
        then show ?thesis using 1 e by linarith
      qed (use left in simp)
      then have "check_items E b kept (i # post) w1 = Option.bind (internalDecayItem E i u) (\<lambda>w. check_items E b kept post (release_item i w))"
        unfolding visit by simp
      moreover obtain x where x: "internalDecayItem E i u = Some x" "buckets x = buckets u" "i \<in> set (decayed x)" "given_up x = given_up u"
        using internalDecayItem_ok [OF assms(1), of i u] by auto
      moreover obtain w' where w': "check_items E b kept post (release_item i x) = Some w'" "leaves s i (release_item i x) w'"
        using go_on [of "release_item i x" kept] x(2) u(1) by auto
      moreover have "i \<in> set (decayed w')" "i \<notin> set (given_up w')"
        using x(3,4) w'(2) d(2) by (simp_all add: leaves_def listed_def u_def v_def visited_def)
      ultimately show ?thesis using 1 split(1) w1(1) by simp
    next
      case 2
      then have e: "0 < left_over i w1" "left_over i w1 < 1000" "(left_over i w1 + 125) div 1000 = 1" using left by simp_all
      then have nb: "nb = (b + 1) mod 4" by (simp add: nb_def next_bucket_def)
      then have "nb \<noteq> b" using assms(4) by presburger
      define y where "y = put_bucket nb (buckets u nb @ [i]) u"
      have "check_items E b kept (i # post) w1 = check_items E b kept post y"
        unfolding visit y_def using e \<open>nb \<noteq> b\<close> by simp
      moreover have "buckets y b = kept @ post" using \<open>nb \<noteq> b\<close> by (simp add: y_def u)
      moreover have "durations y i = durations w1 i - 1000" using 2 sint by (simp add: y_def u_def v_def visited_def)
      moreover have "can_decay y = can_decay w1" "toDecay y = toDecay w1" "decayed y = decayed w1" "given_up y = given_up w1"
        by (simp_all add: y_def u_def v_def visited_def)
      moreover have "count_list (buckets y c) i = (if c = nb then 1 else 0)" for c
      proof (cases "c = b")
        case True
        then show ?thesis using \<open>nb \<noteq> b\<close> kept post by (simp add: y_def u)
      next
        case False
        then show ?thesis using counts \<open>nb \<noteq> b\<close> by (simp add: y_def u)
      qed
      ultimately show ?thesis using 2 nb by (intro stays [of kept y]) simp_all
    next
      case 3
      then have e: "1000 \<le> left_over i w1" using left by simp
      then have "check_items E b kept (i # post) w1 = check_items E b (kept @ [i]) post v" unfolding visit by simp
      moreover have "buckets v = buckets w1" "durations v i = durations w1 i - 1000" "can_decay v = can_decay w1" "toDecay v = toDecay w1"
        "decayed v = decayed w1" "given_up v = given_up w1" using 3 sint by (simp_all add: v_def visited_def)
      ultimately show ?thesis using 3 counts w1(2) by (intro stays [of "kept @ [i]" v]) simp_all
    qed
  qed
qed

section \<open>On time\<close>

lemma wheel_arith:
  fixes v l d :: nat
  shows "1 \<le> v \<Longrightarrow> ((l + 1) mod 4 + (v - 1)) mod 4 = (l + v) mod 4"
    and "2 \<le> v \<Longrightarrow> v \<le> 4 \<Longrightarrow> (l + v) mod 4 \<noteq> (l + 1) mod 4"
    and "d < 1875 \<Longrightarrow> d div 1000 \<le> 1 \<and> \<not> (1000 \<le> d \<and> 875 \<le> d mod 1000)"
    and "1875 \<le> d \<Longrightarrow> d < 2000 \<Longrightarrow> d div 1000 = 1 \<and> 875 \<le> d mod 1000 \<and> (d - 1000) div 1000 = 0"
    and "2000 \<le> d \<Longrightarrow> (d - 1000) div 1000 = d div 1000 - 1 \<and> (d - 1000) mod 1000 = d mod 1000 \<and> 2 \<le> d div 1000"
    and "1000 \<le> d \<Longrightarrow> 1 \<le> d div 1000"
proof -
  show "((l + 1) mod 4 + (v - 1)) mod 4 = (l + v) mod 4" if "1 \<le> v"
  proof -
    have "l + 1 + (v - 1) = l + v" using that by simp
    then show ?thesis by (metis mod_add_left_eq)
  qed
  show "(l + v) mod 4 \<noteq> (l + 1) mod 4" if "2 \<le> v" "v \<le> 4"
  proof -
    have "v = 2 \<or> v = 3 \<or> v = 4" using that by linarith
    then show ?thesis by (elim disjE; hypsubst; presburger)
  qed
  have one: "e div 1000 = 1 \<and> e mod 1000 = e - 1000" if "1000 \<le> e" "e < 2000" for e :: nat
  proof -
    have "e = (e - 1000) + 1000" using that(1) by simp
    moreover have "((e - 1000) + 1000) div 1000 = 1" "((e - 1000) + 1000) mod 1000 = e - 1000"
      using that(2) by (simp_all only: div_add_self2 mod_add_self2) simp_all
    ultimately show ?thesis by metis
  qed
  show "d div 1000 \<le> 1 \<and> \<not> (1000 \<le> d \<and> 875 \<le> d mod 1000)" if "d < 1875"
    using that one [of d] by (cases "1000 \<le> d") auto
  show "d div 1000 = 1 \<and> 875 \<le> d mod 1000 \<and> (d - 1000) div 1000 = 0" if "1875 \<le> d" "d < 2000"
    using that one [of d] by auto
  show "(d - 1000) div 1000 = d div 1000 - 1 \<and> (d - 1000) mod 1000 = d mod 1000 \<and> 2 \<le> d div 1000" if "2000 \<le> d"
  proof -
    define e where "e = d - 2000"
    then have d: "d = e + 1000 + 1000" using that by linarith
    have "d div 1000 = (e + 1000) div 1000 + 1" "(e + 1000) div 1000 = e div 1000 + 1" unfolding d by simp_all
    moreover have "d mod 1000 = (e + 1000) mod 1000" unfolding d by (rule mod_add_self2)
    moreover have "d - 1000 = e + 1000" using d by simp
    ultimately show ?thesis by simp
  qed
  show "1 \<le> d div 1000" if "1000 \<le> d" using div_le_mono [OF that, of 1000] by simp
qed

lemma turn_dropped:
  assumes "harmless s E i" "dropped s w i"
  shows "\<exists>w'. checkDecay E w = Some w' \<and> dropped s w' i"
proof -
  let ?b = "(lastBucket w + 1) mod EVENT_DECAY_BUCKETS"
  have "i \<notin> set (buckets w ?b)" using assms(2) by (simp add: dropped_def)
  then obtain x where x: "check_items E ?b [] (buckets w ?b) w = Some x" "leaves s i w x"
    using check_others [OF assms(1), of "buckets w ?b" w ?b "[]" "[]"] by auto
  have "dropped s (x\<lparr>lastBucket := ?b\<rparr>) i" using dropped_leaves [OF x(2) assms(2)] by (simp add: dropped_def)
  then have "dropped s (cleanup (x\<lparr>lastBucket := ?b\<rparr>)) i"
    by (rule dropped_leaves [OF cleanup_leaves, rotated]) (use \<open>dropped s (x\<lparr>lastBucket := ?b\<rparr>) i\<close> in \<open>simp add: dropped_def\<close>)
  then show ?thesis using x(1) by (simp add: checkDecay_def Let_def)
qed

lemma turn:
  assumes "harmless s E i" "due s w i t"
  shows "\<exists>w'. checkDecay E w = Some w' \<and>
    (dropped s w' i \<or> (if t = 1 then i \<in> set (decayed w') \<and> i \<notin> set (given_up w') else due s w' i (t - 1)))"
proof -
  let ?d = "unat (durations w i)" and ?b = "(lastBucket w + 1) mod 4"
  obtain v where v: "1 \<le> v" "v \<le> 4" "\<And>c. count_list (buckets w c) i = (if c = (lastBucket w + v) mod 4 then 1 else 0)"
    "t = turns_left v ?d" and i: "listed s w i" "?d < 2 ^ 31"
    using assms(2) unfolding due_def by blast
  have b: "?b < 4" "((lastBucket w + 1) mod EVENT_DECAY_BUCKETS) = ?b" by (simp_all add: EVENT_DECAY_BUCKETS_def)
  have over: "decayed (cleanup (x\<lparr>lastBucket := ?b\<rparr>)) = decayed x" "given_up (cleanup (x\<lparr>lastBucket := ?b\<rparr>)) = given_up x" for x
  proof -
    have "decayed (fold to_bucket js y) = decayed y" "given_up (fold to_bucket js y) = given_up y" for js y
      by (induction js arbitrary: y) (simp_all add: to_bucket_def Let_def)
    then show "decayed (cleanup (x\<lparr>lastBucket := ?b\<rparr>)) = decayed x" "given_up (cleanup (x\<lparr>lastBucket := ?b\<rparr>)) = given_up x"
      by (simp_all add: cleanup_def)
  qed
  have still: "due s (cleanup (x\<lparr>lastBucket := ?b\<rparr>)) i r" if "due s (x\<lparr>lastBucket := ?b\<rparr>) i r" for x r
    using due_leaves [OF cleanup_leaves that] that by (simp add: due_def listed_def)
  have lost: "dropped s (cleanup (x\<lparr>lastBucket := ?b\<rparr>)) i" if "dropped s x i" for x
    using dropped_leaves [OF cleanup_leaves, of i "x\<lparr>lastBucket := ?b\<rparr>" s] that by (simp add: dropped_def)
  show ?thesis
  proof (cases "v = 1")
    case False
    then have "(lastBucket w + v) mod 4 \<noteq> ?b" using wheel_arith(2) v(1,2) by simp
    then have "i \<notin> set (buckets w ?b)" using v(3) [of ?b] by (simp add: count_list_0_iff)
    then obtain x where x: "check_items E ?b [] (buckets w ?b) w = Some x" "leaves s i w x"
      using check_others [OF assms(1), of "buckets w ?b" w ?b "[]" "[]"] by auto
    have "(?b + (v - 1)) mod 4 = (lastBucket w + v) mod 4" by (rule wheel_arith(1) [OF v(1)])
    then have "due s (x\<lparr>lastBucket := ?b\<rparr>) i (turns_left (v - 1) ?d)"
      unfolding due_def listed_def using x(2) i v False
      by (intro conjI exI [of _ "v - 1"]) (auto simp: leaves_def listed_def)
    moreover have "turns_left (v - 1) ?d = t - 1" "t \<noteq> 1" using v False by (simp_all add: turns_left_def)
    ultimately show ?thesis using x(1) still [of x] b(2) by (simp add: checkDecay_def Let_def)
  next
    case True
    obtain x where x: "check_items E ?b [] (buckets w ?b) w = Some x"
      "dropped s x i \<or> (if ?d < 1875 then i \<in> set (decayed x) \<and> i \<notin> set (given_up x)
       else listed s x i \<and> unat (durations x i) = ?d - 1000 \<and>
         (\<forall>c. count_list (buckets x c) i = (if c = (if ?d < 2000 then (?b + 1) mod 4 else ?b) then 1 else 0)))"
      using turn_of_item [OF assms(1) i b(1)] v(3) True by auto
    have run: "checkDecay E w = Some (cleanup (x\<lparr>lastBucket := ?b\<rparr>))" using x(1) b(2) by (simp add: checkDecay_def Let_def)
    consider "dropped s x i" | "\<not> dropped s x i" "?d < 1875" | "\<not> dropped s x i" "\<not> ?d < 1875" by blast
    then show ?thesis
    proof cases
      case 1
      then show ?thesis using run lost by blast
    next
      case 2
      then have "?d div 1000 \<le> 1" "\<not> (1000 \<le> ?d \<and> 875 \<le> ?d mod 1000)" using wheel_arith(3) by blast+
      then have "t = 1" using v(4) \<open>v = 1\<close> by (simp add: turns_left_def)
      then show ?thesis using run over x(2) 2 by simp
    next
      case 3
      let ?u = "if ?d < 2000 then 1 else 4 :: nat"
      have "(?b + ?u) mod 4 = (if ?d < 2000 then (?b + 1) mod 4 else ?b)" by simp
      then have "due s (x\<lparr>lastBucket := ?b\<rparr>) i (turns_left ?u (?d - 1000))"
        unfolding due_def listed_def using x(2) i(2) 3 by (intro conjI exI [of _ ?u]) (auto simp: listed_def)
      moreover have "turns_left ?u (?d - 1000) = t - 1 \<and> t \<noteq> 1"
      proof (cases "?d < 2000")
        case True
        then have "?d div 1000 = 1 \<and> 875 \<le> ?d mod 1000 \<and> (?d - 1000) div 1000 = 0" "1000 \<le> ?d"
          using wheel_arith(4) [of ?d] 3 by simp_all
        then show ?thesis using True v(4) \<open>v = 1\<close> by (simp add: turns_left_def)
      next
        case False
        then have "(?d - 1000) div 1000 = ?d div 1000 - 1 \<and> (?d - 1000) mod 1000 = ?d mod 1000 \<and> 2 \<le> ?d div 1000" "1000 \<le> ?d - 1000"
          using wheel_arith(5) [of ?d] by simp_all
        then show ?thesis using False v(4) \<open>v = 1\<close> by (simp add: turns_left_def)
      qed
      ultimately show ?thesis using run still [of x] by simp
    qed
  qed
qed

text \<open>Turns of the wheel, with anything in between that leaves the duration of \<open>i\<close> and its place in the lists\<close>

inductive turns :: "bool \<Rightarrow> decay_env \<Rightarrow> nat \<Rightarrow> wheel \<Rightarrow> nat \<Rightarrow> wheel \<Rightarrow> bool" for s E i w where
  start: "turns s E i w 0 w"
| tick: "turns s E i w n v \<Longrightarrow> checkDecay E v = Some v' \<Longrightarrow> turns s E i w (Suc n) v'"
| other: "turns s E i w n v \<Longrightarrow> leaves s i v v' \<Longrightarrow> turns s E i w n v'"

definition decay_turns :: "nat \<Rightarrow> nat" where
  "decay_turns d = (if d < 1000 then 1 else 4 * (d div 1000) + (if 875 \<le> d mod 1000 then 1 else 0))"

lemma started_due:
  assumes "s \<longrightarrow> can_decay w i" "count_list (toDecay w) i = 1" "\<forall>c. i \<notin> set (buckets w c)" "i \<notin> set (decayed w)" "i \<notin> set (given_up w)"
    and "unat (durations w i) < 2 ^ 31" "lastBucket w < 4"
  shows "due s (cleanup w) i (decay_turns (unat (durations w i)))"
proof -
  let ?d = "unat (durations w i)" and ?w = "w\<lparr>toRelease := []\<rparr>"
  have "i \<in> set (toDecay w)" using assms(2) by (cases "i \<in> set (toDecay w)") simp_all
  then obtain pre post where split: "toDecay w = pre @ i # post" "i \<notin> set pre" by (metis split_list_first)
  then have post: "i \<notin> set post" using assms(2) by (simp add: count_list_0_iff)
  define x where "x = fold to_bucket pre ?w"
  have x: "leaves s i ?w x" using fold_leaves [OF split(2)] by (simp add: x_def)
  define b where "b = (if 1000 \<le> ?d then lastBucket w else (lastBucket w + 1) mod 4)"
  have "uint (durations w i) = int ?d" by simp
  then have long: "1000 \<le> uint (durations w i) \<longleftrightarrow> 1000 \<le> ?d" by linarith
  have put: "to_bucket i x = put_bucket b (buckets x b @ [i]) x"
  proof (cases "1000 \<le> ?d")
    case False
    then have "unat (durations w i div 1000) = 0" by (simp add: unat_div)
    then show ?thesis
      using x False long by (simp add: to_bucket_def leaves_def b_def Let_def EVENT_DECAYINTERVAL_def EVENT_DECAY_BUCKETS_def)
  qed (use x long in \<open>simp add: to_bucket_def leaves_def b_def Let_def EVENT_DECAYINTERVAL_def EVENT_DECAY_BUCKETS_def\<close>)
  define y where "y = fold to_bucket post (to_bucket i x)"
  have y: "leaves s i (to_bucket i x) y" using fold_leaves [OF post] by (simp add: y_def)
  have "count_list (buckets x c) i = 0" for c
    using x assms(3) by (simp add: leaves_def)
  then have counts: "count_list (buckets y c) i = (if c = b then 1 else 0)" for c
    using y unfolding put by (simp add: leaves_def)
  have same: "s \<longrightarrow> can_decay y i" "i \<notin> set (decayed y)" "i \<notin> set (given_up y)" "durations y i = durations w i" "lastBucket y = lastBucket w"
    using x y assms(1,4,5) unfolding put by (simp_all add: leaves_def)
  have clean: "cleanup w = y\<lparr>toDecay := []\<rparr>" by (simp add: cleanup_def split(1) x_def y_def)
  let ?v = "if 1000 \<le> ?d then 4 else 1 :: nat"
  have "(lastBucket w + ?v) mod 4 = b" using assms(7) by (simp add: b_def)
  moreover have "decay_turns ?d = turns_left ?v ?d"
  proof (cases "1000 \<le> ?d")
    case True
    then have "1 \<le> ?d div 1000" by (rule wheel_arith(6))
    then show ?thesis using True by (simp add: decay_turns_def turns_left_def max_def)
  qed (simp add: decay_turns_def turns_left_def)
  ultimately show ?thesis
    unfolding due_def listed_def clean using same counts assms(6) by (intro conjI exI [of _ ?v]) simp_all
qed

lemma turns_due:
  assumes "turns s E i w n w'" "harmless s E i" "due s w i t"
  shows "dropped s w' i \<or> (n < t \<longrightarrow> due s w' i (t - n)) \<and> (n = t \<longrightarrow> i \<in> set (decayed w') \<and> i \<notin> set (given_up w'))"
  using assms(1)
proof (induction rule: turns.induct)
  case start
  have "0 < t" using assms(3) by (auto simp: due_def turns_left_def)
  then show ?case using assms(3) by simp
next
  case (tick n v v')
  consider "dropped s v i" | "n < t" "due s v i (t - n)" | "t \<le> n" using tick.IH by linarith
  then show ?case
  proof cases
    case 1
    then show ?thesis using turn_dropped [OF assms(2)] tick.hyps(2) by fastforce
  next
    case 2
    from turn [OF assms(2) 2(2)] tick.hyps(2)
    have "dropped s v' i \<or> (if t - n = 1 then i \<in> set (decayed v') \<and> i \<notin> set (given_up v') else due s v' i (t - n - 1))" by simp
    then show ?thesis using 2(1) by (cases "t - n = 1") auto
  qed simp
next
  case (other n v v')
  then show ?case
    using due_leaves [OF other.hyps(2)] dropped_leaves [OF other.hyps(2)] by (auto simp: leaves_def)
qed

text \<open>C40: An item that starts to decay with \<open>d\<close> milliseconds left is decided on in exactly the turn \<open>decay_turns d\<close> of
  the wheel after the next \<open>cleanup\<close>, or was given up before: until then it does not decay, and every turn returns; after
  that turn it has decayed or it has been given up, and not both.  An item is given up only if it cannot decay when its
  list comes up, for example because the container that holds it has decayed away, and is in no list from then on; with
  \<open>s\<close>, when nothing changes what it is able to do, it is never given up and decays in that turn.  What is assumed of the
  decay of other items and of all that happens between the turns is \<open>leaves\<close>: the duration of this item and its place in
  the lists stay.  In milliseconds the turn is never late by more than one turn, but early by up to 874: lists are chosen
  by whole seconds although they come up a quarter of a second apart, so that what is left of the last second is cut.\<close>

theorem decays_in_time:
  assumes "harmless s E i" "s \<longrightarrow> can_decay w i" "count_list (toDecay w) i = 1" "\<forall>c. i \<notin> set (buckets w c)"
    and "i \<notin> set (decayed w)" "i \<notin> set (given_up w)" "unat (durations w i) < 2 ^ 31" "lastBucket w < 4"
    and "turns s E i (cleanup w) n w'"
  defines "d \<equiv> unat (durations w i)"
  shows "(n < decay_turns d \<longrightarrow> i \<notin> set (decayed w') \<and> (\<exists>w''. checkDecay E w' = Some w'') \<and>
      (i \<in> set (given_up w') \<longrightarrow> (\<forall>c. i \<notin> set (buckets w' c)))) \<and>
    (n = decay_turns d \<longrightarrow> (i \<in> set (decayed w') \<longleftrightarrow> i \<notin> set (given_up w'))) \<and>
    (s \<and> n \<le> decay_turns d \<longrightarrow> i \<notin> set (given_up w')) \<and>
    250 * decay_turns d \<le> max 250 d \<and> d < 250 * decay_turns d + 875"
proof -
  have "due s (cleanup w) i (decay_turns d)" unfolding d_def by (rule started_due [OF assms(2-8)])
  then have "dropped s w' i \<or> (n < decay_turns d \<longrightarrow> due s w' i (decay_turns d - n)) \<and>
      (n = decay_turns d \<longrightarrow> i \<in> set (decayed w') \<and> i \<notin> set (given_up w'))"
    by (rule turns_due [OF assms(9,1)])
  moreover have "i \<notin> set (decayed w') \<and> i \<notin> set (given_up w') \<and> (\<exists>w''. checkDecay E w' = Some w'')" if "due s w' i t" for t
    using turn [OF assms(1) that] that by (auto simp: due_def listed_def)
  moreover have "250 * decay_turns d \<le> max 250 d" "d < 250 * decay_turns d + 875"
  proof -
    define q r where "q = d div 1000" and "r = d mod 1000"
    have "d = 1000 * q + r" "r < 1000" by (simp_all add: q_def r_def)
    then show "250 * decay_turns d \<le> max 250 d" "d < 250 * decay_turns d + 875"
      unfolding decay_turns_def q_def [symmetric] r_def [symmetric] by auto
  qed
  ultimately show ?thesis using turn_dropped [OF assms(1), of w'] by (fastforce simp: dropped_def le_less)
qed

text \<open>Every item decays into the one with the next number, which lasts a minute; or it vanishes with all the others in it.\<close>

definition next_item :: decay_env where
  "next_item = \<lparr>decays_into = (\<lambda>_ _. 1),
     transform_item = (\<lambda>i w. (Some (Suc i), w\<lparr>durations := (durations w)(Suc i := 60000)\<rparr>)), remove_item = (\<lambda>_ w. w)\<rparr>"

definition gone_with_all :: decay_env where
  "gone_with_all = \<lparr>decays_into = (\<lambda>_ _. 0), transform_item = (\<lambda>i w. (None, w)), remove_item = (\<lambda>_ w. w\<lparr>can_decay := (\<lambda>_. False)\<rparr>)\<rparr>"

theorem decays_in_time_witness:
  "(\<exists>w w'. durations w 0 = 1999 \<and> toDecay w = [0] \<and> turns True next_item 0 (cleanup w) 0 w' \<and> 0 \<notin> set (decayed w') \<and>
     decay_turns 1999 = 5 \<and> (\<exists>w''. checkDecay next_item w' = Some w'')) \<and>
   (\<exists>w w'. durations w 0 = 500 \<and> toDecay w = [0] \<and> buckets w 1 = [1] \<and> decay_turns 500 = 1 \<and>
     turns False gone_with_all 0 (cleanup w) 1 w' \<and> 0 \<in> set (given_up w') \<and> 0 \<notin> set (decayed w'))"
proof
  define w where "w = \<lparr>durations = (\<lambda>_. 1999), decaying = (\<lambda>_. True), can_decay = (\<lambda>_. True), buckets = (\<lambda>_. []), lastBucket = 0,
    toDecay = [0], toRelease = [], decayed = [], given_up = []\<rparr>"
  have "harmless True next_item 0" by (simp add: harmless_def next_item_def leaves_def)
  from decays_in_time [OF this, of w 0 "cleanup w"]
  have "0 < decay_turns 1999 \<longrightarrow> 0 \<notin> set (decayed (cleanup w)) \<and> (\<exists>w''. checkDecay next_item (cleanup w) = Some w'')"
    using turns.start [of True next_item 0 "cleanup w"] by (simp add: w_def)
  moreover have "decay_turns 1999 = 5" by (simp add: decay_turns_def)
  moreover have "durations w 0 = 1999" "toDecay w = [0]" by (simp_all add: w_def)
  ultimately show "\<exists>w w'. durations w 0 = 1999 \<and> toDecay w = [0] \<and> turns True next_item 0 (cleanup w) 0 w' \<and> 0 \<notin> set (decayed w') \<and>
     decay_turns 1999 = 5 \<and> (\<exists>w''. checkDecay next_item w' = Some w'')"
    using turns.start [of True next_item 0 "cleanup w"] by force
next
  define w where "w = \<lparr>durations = (\<lambda>_. 500), decaying = (\<lambda>_. True), can_decay = (\<lambda>_. True), buckets = (\<lambda>_. [])(1 := [1]), lastBucket = 0,
    toDecay = [0], toRelease = [], decayed = [], given_up = []\<rparr>"
  have clean: "cleanup w = w\<lparr>buckets := (\<lambda>_. [])(1 := [1, 0]), toDecay := []\<rparr>"
    by (simp add: cleanup_def w_def to_bucket_def put_bucket_def EVENT_DECAYINTERVAL_def EVENT_DECAY_BUCKETS_def)
  obtain w' where run: "checkDecay gone_with_all (cleanup w) = Some w'" "0 \<in> set (given_up w')"
    unfolding clean
    by (simp add: checkDecay_def check_visit check_items.simps(2) w_def EVENT_DECAY_BUCKETS_def left_over_def visited_def next_bucket_def
        EVENT_DECAYINTERVAL_def put_bucket_def internalDecayItem.simps gone_with_all_def cleanup_def release_item_def Let_def)
  have tick: "turns False gone_with_all 0 (cleanup w) 1 w'"
    using turns.tick [OF turns.start run(1)] by simp
  have "harmless False gone_with_all 0" by (simp add: harmless_def gone_with_all_def leaves_def)
  from decays_in_time [OF this, of w 1 w'] tick run(2) have "0 \<notin> set (decayed w')" by (simp add: w_def decay_turns_def)
  then show "\<exists>w w'. durations w 0 = 500 \<and> toDecay w = [0] \<and> buckets w 1 = [1] \<and> decay_turns 500 = 1 \<and>
     turns False gone_with_all 0 (cleanup w) 1 w' \<and> 0 \<in> set (given_up w') \<and> 0 \<notin> set (decayed w')"
    using tick run(2) by (intro exI [of _ w] exI [of _ w']) (simp add: w_def decay_turns_def)
qed

end
