(* ===== verification/Spec2Isabelle.thy ===== *)
theory Spec2Isabelle
  imports Transport PlayerIndex Party AStar MapGrid Icons ItemStream Skills Trade ContainerIter AddLaws Money Decay
begin

text \<open>
  A verification development of the game server under \<open>src/src/\<close>.

  The server is one process with a dispatcher thread: packets of the clients are decrypted and parsed into calls of
  \<open>Game\<close>, which changes the map, the creatures and the items, asks Lua scripts on the way and sends packets back.
  The theories follow these parts, from the wire to the rules of the game.

  \<^item> \<open>Prelude\<close>: machine integers, little-endian bytes, lists, signed readings; used by all.

  \<^item> \<open>Positions\<close> (\<open>position.h\<close>): coordinates, offsets, distances and the order (an instance of \<open>linorder\<close>).

  \<^item> \<open>Xtea\<close>, \<open>Adler\<close>, \<open>NetMessage\<close>, \<open>Transport\<close> (\<open>xtea.cpp\<close>, \<open>tools.cpp\<close>, \<open>networkmessage.*\<close>, \<open>outputmessage.*\<close>,
    \<open>protocol.cpp\<close>, \<open>connection.cpp\<close>): a message is a fixed buffer with a position and a length; what is written
    is padded, enciphered, given its checksum and header, and taken apart on the other side.  Shown: the cipher and
    the framing round trip, the chunked checksum is Adler-32, reads and writes stay in the buffer, and for which
    lengths the padding fails.

  \<^item> \<open>WildcardTree\<close>, \<open>ReturnValues\<close>, \<open>PlayerIndex\<close> (\<open>wildcardtree.cpp\<close>, \<open>tools.cpp\<close>, \<open>game.cpp\<close>): the trie of player
    names with the maps of players by name, guid and id; a completion is answered only when it is unique.

  \<^item> \<open>Party\<close> (\<open>party.cpp\<close> and its callers): members, leaders and invitations as a state of all players and parties;
    every operation of clients and scripts keeps both
    sides of each relation in step, whatever the event scripts answer, but for the answers and calls that \<open>party_step\<close>
    leaves out; \<open>vetoes_strand_members\<close> shows what two of those do.

  \<^item> \<open>Sight\<close>, \<open>AStar\<close>, \<open>QuadTree\<close>, \<open>MapGrid\<close> (\<open>map.cpp\<close>, \<open>map.h\<close>, \<open>tile.cpp\<close>): lines of sight, path finding with its
    table of at most 512 nodes, the tree of leaves of 8 by 8 tiles and the search for spectators with its cache.
    The line of sight is
    walked with 32-bit products.  Shown: lines are straight, a path found can be walked, the tree is a map from
    coordinates to tiles, and spectators are those in range, each once.

  \<^item> \<open>PropStream\<close>, \<open>Conditions\<close>, \<open>ConditionParams\<close>, \<open>CreatureConditions\<close>, \<open>Icons\<close> (\<open>fileloader.h\<close>, \<open>condition.*\<close>,
    \<open>creature.cpp\<close>, \<open>player.cpp\<close>): all classes of conditions as one datatype; storing and loading, parameters, and the
    life of a condition on a creature.  Shown: stored conditions come back, what a condition adds is taken away when
    it ends, conditions end when their time is over, where a magic field puts off the end of the damage it feeds.
    Damage is written to a log, so that conditions it would add itself are not seen.

  \<^item> \<open>ItemAttributes\<close>, \<open>ItemStream\<close> (\<open>item.h\<close>, \<open>item.cpp\<close>): the vector of attributes with its bit set refines a map, and
    the stored form round trips, the sub-type where no charges are stored in its place.

  \<^item> \<open>Levels\<close>, \<open>Skills\<close> (\<open>player.cpp\<close>): experience, levels, skills and magic level, for any costs of the levels; what a
    loss cuts off the tries is part of the statement.

  \<^item> \<open>Trade\<close> (\<open>game.cpp\<close>, \<open>player.cpp\<close>, \<open>events.cpp\<close>): trades between two players with everything that cancels
    them.  Items are not placed: the log \<open>item_moves\<close> has the moves that worked, and the second move of a trade may fail.

  \<^item> \<open>Containers\<close>, \<open>ContainerIter\<close> (\<open>container.cpp\<close>, \<open>item.cpp\<close>): items are numbers of a heap; each item points to the
    cylinder it is in and each container lists what it holds.  Shown: lists and parents agree, no container is inside
    itself, the weights kept in the containers are those of the contents, the iterator sees every item inside once.

  \<^item> \<open>ItemMoves\<close>, \<open>Stocks\<close>, \<open>MoveLaws\<close>, \<open>AddLaws\<close> (\<open>game.cpp\<close>, \<open>item.cpp\<close>, \<open>container.cpp\<close>): making and copying items, \<open>internalMoveItem\<close>,
    \<open>internalAddItem\<close> and \<open>internalRemoveItem\<close> between containers.  Shown: they return, moves neither lose nor
    make items, additions make none, removals take exactly what was asked, and no container becomes over-full.

  \<^item> \<open>Money\<close> (\<open>game.cpp\<close>, \<open>player.cpp\<close>, \<open>items.cpp\<close>): coins in containers.  Shown: amounts are given exactly in stacks of at
    most 100, and a payment succeeds exactly if the coins suffice and never takes less than the price.

  \<^item> \<open>Decay\<close> (\<open>game.cpp\<close>): the wheel of four lists on which items wait for their decay.  Shown: in which turn an item
    decays or is given up because it cannot, and by how much that is too early.  What becomes of other items is a
    parameter under \<open>harmless\<close>: it may make an item unable to decay, but not move it in the lists.

  How the code is rendered.  A struct is a record, an enumeration or a class hierarchy a datatype, an integer a word of
  its width.  State is passed explicitly.  A null pointer that is followed, an access outside an array and a loop that
  does not end are the result \<open>None\<close>; where the theorems say that a function returns they say that the result is
  \<open>Some\<close>.  What the code sends to clients or to scripts is a list in the state.  Lua scripts, the item and vocation
  tables (data), random numbers and formulas in floating point are parameters.

  Interfaces as locales, each interpreted on the definitions of the code: \<open>block_cipher\<close> (Xtea), \<open>wire_format\<close> (fields of
  messages), \<open>name_index\<close> (name tree), \<open>cell_store\<close> (quadtree), \<open>keyed_store\<close> (attributes).

  Bounds and termination.  Loops are recursion on lists or numbers, or \<open>partial_function (option)\<close> with a theorem that
  they return: walks up the containers end because being inside is well-founded, iteration because the items below
  the pending ones become fewer, counting coins for the same reason, \<open>internalAddItem\<close> because the rest of a stack becomes smaller.  Fuel is used where
  the code itself counts: \<open>MAP_MAX_LAYERS\<close> (16) steps to find the destination of a move, the number of nodes of a path.

  Not modelled.  The Lua interpreter and the bindings (\<open>luascript.cpp\<close>, the largest file, and the script classes): their
  meaning is that of code outside \<open>src/\<close>.  Database, sockets, start-up: input and output.  Packet handlers of
  \<open>protocolgame.cpp\<close>: they name the fields of messages, whose encoding is modelled.  Combat formulas and spells:
  floating point, random numbers and scripts.  Monsters, spawns, houses, chat, and the cylinders of tiles and players:
  left out; what containers need of them is a parameter with the answers the code gives.
\<close>

end
